(* ===== verification/Prelude.thy ===== *)
theory Prelude
  imports Main "HOL-Library.Char_ord" "HOL-Library.List_Lexorder" "HOL-Library.Word"
    "HOL-Library.Multiset"
begin

text \<open>
  What every component shares: the types that stand for Go's base types, the part of
  Go's \<open>strings\<close> package the sources call, results of operating-system calls, and
  generic lemmas on lists and maps.

  A Go \<open>string\<close> or \<open>[]byte\<close> is a list of bytes, so \<open>string\<close> (a list of
  8-bit characters) models both.  Go compares strings byte by byte, which is the lexicographic
  order of \<open>List_Lexorder\<close> over the code order of \<open>Char_ord\<close>.  A Go map is a
  partial function; the order in which \<open>range\<close> visits a map is not specified, so an
  operation that iterates over a map takes the visiting order as a list argument.
\<close>

named_theorems sync_defs \<open>definitions unfolded by the component proofs\<close>

subsection \<open>Base types\<close>

type_synonym path = string
type_synonym bytes = string
type_synonym u32 = "32 word"
type_synonym u64 = "64 word"

text \<open>An operating-system or client call: a value, ``does not exist'', or another error.\<close>

datatype 'a os_result = OsOk 'a | OsNotExist | OsError string

subsection \<open>Go's strings package\<close>

definition hasPrefix :: "string \<Rightarrow> string \<Rightarrow> bool" where
  "hasPrefix s p \<longleftrightarrow> take (length p) s = p"

definition hasSuffix :: "string \<Rightarrow> string \<Rightarrow> bool" where
  "hasSuffix s p \<longleftrightarrow> hasPrefix (rev s) (rev p)"

definition trimPrefix :: "string \<Rightarrow> string \<Rightarrow> string" where
  "trimPrefix s p = (if hasPrefix s p then drop (length p) s else s)"

definition trimSuffix :: "string \<Rightarrow> string \<Rightarrow> string" where
  "trimSuffix s p = (if hasSuffix s p then take (length s - length p) s else s)"

fun containsStr :: "string \<Rightarrow> string \<Rightarrow> bool" where
  "containsStr [] sub = (sub = [])"
| "containsStr (c # s) sub = (hasPrefix (c # s) sub \<or> containsStr s sub)"

text \<open>\<open>strings.Count(s, "/")\<close> and its kin for a one-byte separator.\<close>

definition countByte :: "char \<Rightarrow> string \<Rightarrow> nat" where
  "countByte c s = length (filter (\<lambda>x. x = c) s)"

text \<open>\<open>strings.Split(s, sep)\<close> for a one-byte separator: always at least one part.\<close>

fun splitByte :: "char \<Rightarrow> string \<Rightarrow> string list" where
  "splitByte c [] = [[]]"
| "splitByte c (x # s) =
     (if x = c then [] # splitByte c s
      else (case splitByte c s of [] \<Rightarrow> [[x]] | p # ps \<Rightarrow> (x # p) # ps))"

fun joinStr :: "string \<Rightarrow> string list \<Rightarrow> string" where
  "joinStr sep [] = []"
| "joinStr sep [p] = p"
| "joinStr sep (p # q # ps) = p @ sep @ joinStr sep (q # ps)"

text \<open>
  \<open>strings.TrimSpace\<close> removes the Unicode white space of both ends.  The bytes of a leading
  white-space rune are the ASCII ones and the UTF-8 encodings of U+0085, U+00A0, U+1680,
  U+2000 to U+200A, U+2028, U+2029, U+202F, U+205F and U+3000.
\<close>

fun spaceRune :: "nat list \<Rightarrow> nat" where
  "spaceRune (a # b # c # r) =
     (if a \<in> {9, 10, 11, 12, 13, 32} then 1
      else if a = 194 \<and> b \<in> {133, 160} then 2
      else if a = 225 \<and> b = 154 \<and> c = 128 then 3
      else if a = 226 \<and> b = 128 \<and> ((128 \<le> c \<and> c \<le> 138) \<or> c \<in> {168, 169, 175}) then 3
      else if a = 226 \<and> b = 129 \<and> c = 159 then 3
      else if a = 227 \<and> b = 128 \<and> c = 128 then 3
      else 0)"
| "spaceRune [a, b] =
     (if a \<in> {9, 10, 11, 12, 13, 32} then 1 else if a = 194 \<and> b \<in> {133, 160} then 2 else 0)"
| "spaceRune [a] = (if a \<in> {9, 10, 11, 12, 13, 32} then 1 else 0)"
| "spaceRune [] = 0"

definition leadSpace :: "string \<Rightarrow> nat" where
  "leadSpace s = spaceRune (map of_char (take 3 s))"

definition trailSpace :: "string \<Rightarrow> nat" where
  \<comment> \<open>length of the white-space rune that ends the string whose reverse is given\<close>
  "trailSpace r =
     (if spaceRune (map of_char (rev (take 1 r))) = 1 \<and> r \<noteq> [] then 1
      else if spaceRune (map of_char (rev (take 2 r))) = 2 then 2
      else if spaceRune (map of_char (rev (take 3 r))) = 3 then 3 else 0)"

function trimLeftSpace :: "string \<Rightarrow> string" where
  "trimLeftSpace s =
     (if s = [] \<or> leadSpace s = 0 then s else trimLeftSpace (drop (leadSpace s) s))"
  by pat_completeness auto
termination
  by (relation "measure length") auto

function trimTailSpace :: "string \<Rightarrow> string" where
  "trimTailSpace r =
     (if r = [] \<or> trailSpace r = 0 then r else trimTailSpace (drop (trailSpace r) r))"
  by pat_completeness auto
termination
  by (relation "measure length") auto

declare trimLeftSpace.simps [simp del] trimTailSpace.simps [simp del]

definition trimSpace :: "string \<Rightarrow> string" where
  "trimSpace s = rev (trimTailSpace (rev (trimLeftSpace s)))"

subsection \<open>Decimal numbers\<close>

fun natDigits :: "nat \<Rightarrow> string" where
  "natDigits n = (if n < 10 then [char_of (48 + n)] else natDigits (n div 10) @ [char_of (48 + n mod 10)])"

declare natDigits.simps [simp del]

definition intText :: "int \<Rightarrow> string" where
  "intText i = (if i < 0 then CHR ''-'' # natDigits (nat (- i)) else natDigits (nat i))"

text \<open>
  Reading a decimal number back: an optional minus sign and at least one digit, which is the
  pattern \<open>^%-?%d+$\<close> of the Lua scripts.
\<close>

definition digitVal :: "char \<Rightarrow> nat option" where
  "digitVal c = (let n = of_char c in if 48 \<le> n \<and> n \<le> 57 then Some (n - 48) else None)"

fun digitsVal :: "nat \<Rightarrow> string \<Rightarrow> nat option" where
  "digitsVal acc [] = Some acc"
| "digitsVal acc (c # s) = (case digitVal c of None \<Rightarrow> None | Some d \<Rightarrow> digitsVal (10 * acc + d) s)"

definition natVal :: "string \<Rightarrow> nat option" where
  "natVal s = (if s = [] then None else digitsVal 0 s)"

definition decimal :: "string \<Rightarrow> int option" where
  "decimal s =
     (if s \<noteq> [] \<and> hd s = CHR ''-'' then map_option (\<lambda>n. - int n) (natVal (tl s)) else map_option int (natVal s))"

lemma digitsVal_append:
  "digitsVal acc (s @ t) = (case digitsVal acc s of None \<Rightarrow> None | Some n \<Rightarrow> digitsVal n t)"
  by (induction s arbitrary: acc) (auto split: option.splits)

lemma digitVal_char: "d < 10 \<Longrightarrow> digitVal (char_of (48 + d)) = Some d"
  by (simp add: digitVal_def)

lemma natVal_natDigits [simp]: "natVal (natDigits n) = Some n"
proof -
  have "natDigits n \<noteq> [] \<and> digitsVal 0 (natDigits n) = Some n"
  proof (induction n rule: natDigits.induct)
    case (1 n)
    show ?case
    proof (cases "n < 10")
      case True
      then show ?thesis by (simp add: natDigits.simps [of n] digitVal_char)
    next
      case False
      with 1 show ?thesis
        by (simp add: natDigits.simps [of n] digitsVal_append digitVal_char mult.commute)
    qed
  qed
  then show ?thesis by (simp add: natVal_def)
qed

lemma natDigits_hd: "hd (natDigits n) \<noteq> CHR ''-'' \<and> natDigits n \<noteq> []"
proof (induction n rule: natDigits.induct)
  case (1 n)
  have "char_of (48 + n) \<noteq> CHR ''-''" if "n < 10"
  proof
    assume "char_of (48 + n) = CHR ''-''"
    then have "of_char (char_of (48 + n) :: char) = (45 :: nat)" by simp
    with that show False by simp
  qed
  with 1 show ?case by (auto simp: natDigits.simps [of n] hd_append)
qed

lemma decimal_intText [simp]: "decimal (intText i) = Some i"
  using natDigits_hd by (auto simp: decimal_def intText_def)

subsection \<open>Lemmas on strings\<close>

lemma hasPrefix_append [simp]: "hasPrefix (p @ s) p"
  by (simp add: hasPrefix_def)

lemma hasPrefix_iff: "hasPrefix s p \<longleftrightarrow> (\<exists>t. s = p @ t)"
  unfolding hasPrefix_def by (metis append_eq_conv_conj append_take_drop_id)

lemma trimPrefix_append [simp]: "trimPrefix (p @ s) p = s"
  by (simp add: trimPrefix_def)

lemma hasPrefix_trans: "hasPrefix s p \<Longrightarrow> hasPrefix p q \<Longrightarrow> hasPrefix s q"
  by (auto simp: hasPrefix_iff)

lemma countByte_append [simp]: "countByte c (s @ t) = countByte c s + countByte c t"
  by (simp add: countByte_def)

lemma countByte_Cons [simp]: "countByte c (x # s) = (if x = c then 1 else 0) + countByte c s"
  by (simp add: countByte_def)

lemma countByte_Nil [simp]: "countByte c [] = 0"
  by (simp add: countByte_def)

lemma splitByte_nonempty [simp]: "splitByte c s \<noteq> []"
  by (induction s) (auto split: list.splits)

lemma joinStr_splitByte: "joinStr [c] (splitByte c s) = s"
proof (induction s)
  case (Cons x s)
  then show ?case by (cases "splitByte c s"; cases "tl (splitByte c s)") auto
qed simp

lemma splitByte_no_sep: "p \<in> set (splitByte c s) \<Longrightarrow> c \<notin> set p"
proof (induction s arbitrary: p)
  case (Cons x s)
  then show ?case by (cases "splitByte c s") (auto split: if_splits)
qed simp

lemma splitByte_part: "c \<notin> set p \<Longrightarrow> splitByte c p = [p]"
  by (induction p) auto

lemma splitByte_append_sep:
  "c \<notin> set p \<Longrightarrow> splitByte c (p @ c # s) = p # splitByte c s"
  by (induction p) auto

lemma splitByte_joinStr:
  "ps \<noteq> [] \<Longrightarrow> \<forall>p \<in> set ps. c \<notin> set p \<Longrightarrow> splitByte c (joinStr [c] ps) = ps"
  by (induction "[c]" ps rule: joinStr.induct)
    (auto simp: splitByte_part splitByte_append_sep)


subsection \<open>Lemmas on lists\<close>

lemma sorted_wrt_symp_mset:
  assumes "\<And>x y. R x y \<Longrightarrow> R y x" and "mset xs = mset ys" and "sorted_wrt R xs"
  shows "sorted_wrt R ys"
  using assms(2,3)
proof (induction ys arbitrary: xs)
  case (Cons y ys)
  from Cons.prems(1) have "y \<in> set xs" by (metis list.set_intros(1) mset_eq_setD)
  then obtain as bs where xs: "xs = as @ y # bs" by (auto simp: in_set_conv_decomp)
  with Cons.prems(1) have m: "mset (as @ bs) = mset ys" by simp
  from Cons.prems(2) xs have "sorted_wrt R (as @ bs)" by (auto simp: sorted_wrt_append)
  with m have "sorted_wrt R ys" by (rule Cons.IH)
  moreover from Cons.prems(2) xs have "\<forall>x \<in> set (as @ bs). R y x"
    by (auto simp: sorted_wrt_append intro: assms(1))
  then have "\<forall>x \<in> set ys. R y x" using m by (metis mset_eq_setD)
  ultimately show ?case by simp
qed simp

lemma sorted_wrt_concat_map:
  assumes "sorted_wrt R xs" and "\<And>x. x \<in> set xs \<Longrightarrow> sorted_wrt Q (f x)"
    and "\<And>x y a b. x \<in> set xs \<Longrightarrow> y \<in> set xs \<Longrightarrow> R x y \<Longrightarrow> a \<in> set (f x) \<Longrightarrow> b \<in> set (f y) \<Longrightarrow> Q a b"
  shows "sorted_wrt Q (concat (map f xs))"
  using assms
proof (induction xs)
  case (Cons x xs)
  have "sorted_wrt Q (concat (map f xs))"
    using Cons.prems by (intro Cons.IH) (auto, metis)
  moreover have "\<forall>a \<in> set (f x). \<forall>b \<in> set (concat (map f xs)). Q a b"
    using Cons.prems(1,3) by (fastforce simp: list.set_intros)
  moreover have "sorted_wrt Q (f x)" using Cons.prems(2) by simp
  ultimately show ?case by (simp add: sorted_wrt_append)
qed simp

lemma sorted_wrt_combine:
  assumes "sorted_wrt R xs" and "sorted_wrt S xs"
    and "\<And>x y. x \<in> set xs \<Longrightarrow> y \<in> set xs \<Longrightarrow> R x y \<Longrightarrow> S x y \<Longrightarrow> T x y"
  shows "sorted_wrt T xs"
  using assms by (induction xs) auto

subsection \<open>Stable sorting by a comparison\<close>

text \<open>\<open>sort.SliceStable\<close> for a comparison \<open>lt\<close>.\<close>

fun insertBy :: "('a \<Rightarrow> 'a \<Rightarrow> bool) \<Rightarrow> 'a \<Rightarrow> 'a list \<Rightarrow> 'a list" where
  "insertBy lt x [] = [x]"
| "insertBy lt x (y # ys) = (if lt y x then y # insertBy lt x ys else x # y # ys)"

definition sortBy :: "('a \<Rightarrow> 'a \<Rightarrow> bool) \<Rightarrow> 'a list \<Rightarrow> 'a list" where
  "sortBy lt xs = foldr (insertBy lt) xs []"

lemma mset_insertBy [simp]: "mset (insertBy lt x xs) = add_mset x (mset xs)"
  by (induction xs) auto

lemma mset_sortBy [simp]: "mset (sortBy lt xs) = mset xs"
  by (induction xs) (auto simp: sortBy_def)

lemma set_sortBy [simp]: "set (sortBy lt xs) = set xs"
  by (metis mset_sortBy set_mset_mset)

lemma sorted_insertBy:
  assumes asym: "\<And>a b. lt a b \<Longrightarrow> \<not> lt b a"
    and trans: "\<And>a b c. \<not> lt b a \<Longrightarrow> \<not> lt c b \<Longrightarrow> \<not> lt c a"
    and "sorted_wrt (\<lambda>a b. \<not> lt b a) ys"
  shows "sorted_wrt (\<lambda>a b. \<not> lt b a) (insertBy lt x ys)"
  using assms(3)
proof (induction ys)
  case (Cons y ys)
  have set: "set (insertBy lt x ys) = insert x (set ys)" for ys
    by (metis mset_insertBy set_mset_add_mset_insert set_mset_mset)
  show ?case
  proof (cases "lt y x")
    case True
    with Cons show ?thesis by (auto simp: set dest: asym)
  next
    case False
    have "\<not> lt z x" if "z \<in> set ys" for z
      using Cons.prems that False trans [of y x z] by auto
    with False Cons.prems show ?thesis by simp
  qed
qed simp

lemma sorted_sortBy:
  assumes "\<And>a b. lt a b \<Longrightarrow> \<not> lt b a"
    and "\<And>a b c. \<not> lt b a \<Longrightarrow> \<not> lt c b \<Longrightarrow> \<not> lt c a"
  shows "sorted_wrt (\<lambda>a b. \<not> lt b a) (sortBy lt xs)"
proof (induction xs)
  case (Cons x xs)
  then show ?case unfolding sortBy_def foldr.simps o_apply
    by (intro sorted_insertBy [OF assms])
qed (simp add: sortBy_def)

end
