(* ===== verification/FileLocks.thy ===== *)
theory FileLocks
  imports Prelude "HOL-Library.AList" "HOL-Library.Product_Lexorder"
begin

text \<open>
  POSIX byte-range locks of an inode, from \<open>mount/internal/client/native_locks.go\<close>.

  A lock covers the bytes from \<open>Start\<close> to \<open>End\<close> inclusive, both 64-bit.  The
  locks of an inode live in one Redis hash: the field is the owner's handle, the value the JSON
  list of the owner's locks; \<open>lock_db\<close> holds that hash (an association list, its order is
  the order Go's \<open>range\<close> happens to visit), the inode's type field and the session leases
  that are alive.  Each operation is one WATCH/MULTI transaction, hence one step.

  The byte view \<open>heldType\<close> is the specification: \<open>applyFileLock\<close> changes exactly
  the requested bytes, normalisation changes nothing, and no two owners ever hold
  conflicting locks.
\<close>

subsection \<open>Locks and ranges\<close>

datatype lock_type = F_RDLCK | F_WRLCK | F_UNLCK | F_INVALID u32

record file_lock =
  lk_start :: u64
  lk_end :: u64
  lk_type :: lock_type
  lk_pid :: u32

datatype lock_error = InvalidLockType | InvalidLockRange | EmptyLockOwner
  | LockNotFound | LockNotFile | ErrLockWouldBlock

definition validateFileLock :: "file_lock \<Rightarrow> lock_error option" where
  "validateFileLock lk =
     (case lk_type lk of
        F_INVALID _ \<Rightarrow> Some InvalidLockType
      | _ \<Rightarrow> if lk_end lk < lk_start lk then Some InvalidLockRange else None)"

definition lockRangesOverlap :: "file_lock \<Rightarrow> file_lock \<Rightarrow> bool" where
  "lockRangesOverlap a b \<longleftrightarrow> lk_start a \<le> lk_end b \<and> lk_start b \<le> lk_end a"

definition locksConflict :: "file_lock \<Rightarrow> file_lock \<Rightarrow> bool" where
  "locksConflict existing requested =
     (if lk_type existing = F_UNLCK \<or> lk_type requested = F_UNLCK then False
      else if \<not> lockRangesOverlap existing requested then False
      else lk_type existing = F_WRLCK \<or> lk_type requested = F_WRLCK)"

definition nextLockStart :: "u64 \<Rightarrow> u64" where
  "nextLockStart e = (if e = - 1 then e else e + 1)"

subsection \<open>Normalisation and application\<close>

text \<open>
  The loop body of \<open>normalizeFileLocks\<close>; the output list is kept in reverse, its last
  element first, because the loop only ever looks at and updates the last element.
\<close>

definition normStep :: "file_lock list \<Rightarrow> file_lock \<Rightarrow> file_lock list" where
  "normStep out lock =
     (if lk_type lock = F_UNLCK then out
      else case out of
        [] \<Rightarrow> [lock]
      | lst # rest \<Rightarrow>
          if lk_type lst = lk_type lock \<and> lk_start lock \<le> nextLockStart (lk_end lst)
          then (let l1 = (if lk_end lock > lk_end lst then lst\<lparr>lk_end := lk_end lock\<rparr> else lst)
                in (if lk_pid lock \<noteq> 0 then l1\<lparr>lk_pid := lk_pid lock\<rparr> else l1) # rest)
          else lock # lst # rest)"

definition normalizeFileLocks :: "file_lock list \<Rightarrow> file_lock list" where
  "normalizeFileLocks locks =
     rev (foldl normStep [] (sort_key (\<lambda>l. (lk_start l, lk_end l)) locks))"

definition cutLock :: "file_lock \<Rightarrow> file_lock \<Rightarrow> file_lock list" where
  \<comment> \<open>the loop body of \<open>applyFileLock\<close>: what is left of \<open>current\<close>\<close>
  "cutLock requested current =
     (if \<not> lockRangesOverlap current requested then [current]
      else (if lk_start current < lk_start requested
            then [current\<lparr>lk_end := lk_start requested - 1\<rparr>] else [])
         @ (if lk_end requested < lk_end current
            then [current\<lparr>lk_start := lk_end requested + 1\<rparr>] else []))"

definition applyFileLock :: "file_lock list \<Rightarrow> file_lock \<Rightarrow> file_lock list" where
  "applyFileLock existing requested =
     normalizeFileLocks
       (concat (map (cutLock requested) existing)
        @ (if lk_type requested \<noteq> F_UNLCK then [requested] else []))"

subsection \<open>The stored lock table\<close>

text \<open>
  \<open>storedFileLock\<close> is the JSON form with the same four fields, so the stored value is the
  list of locks itself; \<open>decodeLockState\<close> normalises what it reads and
  \<open>encodeFileLocks\<close> what it writes.
\<close>

record lock_db =
  ld_fsKey :: string
  ld_inodeType :: "string option"
  ld_locks :: "(string \<times> file_lock list) list"
  ld_alive :: "string list"

definition decodeLockState :: "(string \<times> file_lock list) list \<Rightarrow> (string \<times> file_lock list) list" where
  "decodeLockState values = map (\<lambda>(o', ls). (o', normalizeFileLocks ls)) values"

definition encodeFileLocks :: "file_lock list \<Rightarrow> file_lock list" where
  "encodeFileLocks locks = normalizeFileLocks locks"

text \<open>\<open>keyBuilder.session\<close> and \<open>strings.Cut(owner, "|")\<close>.\<close>

definition sessionKey :: "string \<Rightarrow> string \<Rightarrow> string" where
  "sessionKey fsKey sid = ''afs:{'' @ fsKey @ ''}:session:'' @ sid"

definition cutBar :: "string \<Rightarrow> string \<times> bool" where
  "cutBar s = (takeWhile (\<lambda>c. c \<noteq> CHR ''|'') s, CHR ''|'' \<in> set s)"

definition expiredOwner :: "lock_db \<Rightarrow> string \<Rightarrow> bool" where
  \<comment> \<open>an owner whose session lease is named by the owner and no longer exists\<close>
  "expiredOwner d owner =
     (let (lease, ok) = cutBar owner
      in ok \<and> hasPrefix lease (sessionKey (ld_fsKey d) '''') \<and> lease \<notin> set (ld_alive d))"

definition pruneExpiredLocks ::
    "lock_db \<Rightarrow> (string \<times> file_lock list) list \<Rightarrow> (string \<times> file_lock list) list \<times> string list" where
  "pruneExpiredLocks d state =
     (filter (\<lambda>(o', _). \<not> expiredOwner d o') state,
      filter (expiredOwner d) (map fst state))"

definition loadLockState :: "lock_db \<Rightarrow> (string \<times> file_lock list) list" where
  "loadLockState d = fst (pruneExpiredLocks d (decodeLockState (ld_locks d)))"

definition lockBlocked :: "(string \<times> file_lock list) list \<Rightarrow> string \<Rightarrow> file_lock \<Rightarrow> bool" where
  "lockBlocked state handleID lk \<longleftrightarrow>
     (\<exists>(owner, ls) \<in> set state. owner \<noteq> handleID \<and> (\<exists>l \<in> set ls. locksConflict l lk))"

definition trySetLock :: "lock_db \<Rightarrow> string \<Rightarrow> file_lock \<Rightarrow> lock_error + lock_db" where
  "trySetLock d handleID lk =
     (if handleID = [] then Inl EmptyLockOwner
      else case ld_inodeType d of
        None \<Rightarrow> Inl LockNotFound
      | Some kind \<Rightarrow>
          if kind \<noteq> ''file'' then Inl LockNotFile
          else let (state, stale) = pruneExpiredLocks d (decodeLockState (ld_locks d));
                   current = (case map_of state handleID of None \<Rightarrow> [] | Some ls \<Rightarrow> ls)
               in if lk_type lk \<noteq> F_UNLCK \<and> lockBlocked state handleID lk
                  then Inl ErrLockWouldBlock
                  else let nextLocks = applyFileLock current lk;
                           h1 = fold AList.delete stale (ld_locks d)
                       in Inr (d\<lparr>ld_locks :=
                            (if nextLocks = [] then AList.delete handleID h1
                             else AList.update handleID (encodeFileLocks nextLocks) h1)\<rparr>))"

definition UnlockAll :: "lock_db \<Rightarrow> string \<Rightarrow> lock_db" where
  "UnlockAll d handleID = d\<lparr>ld_locks := AList.delete handleID (ld_locks d)\<rparr>"

definition Setlk :: "lock_db \<Rightarrow> string \<Rightarrow> file_lock \<Rightarrow> lock_error + lock_db" where
  \<comment> \<open>\<open>Setlk\<close> without \<open>wait\<close>\<close>
  "Setlk d handleID lk =
     (case validateFileLock lk of Some e \<Rightarrow> Inl e | None \<Rightarrow> trySetLock d handleID lk)"

fun setlkWait :: "lock_db list \<Rightarrow> string \<Rightarrow> file_lock \<Rightarrow> (lock_error + lock_db) option" where
  \<comment> \<open>the \<open>wait\<close> loop: one database state per attempt; the list ends when the
     context is cancelled\<close>
  "setlkWait [] handleID lk = None"
| "setlkWait (d # ds) handleID lk =
     (case trySetLock d handleID lk of
        Inl ErrLockWouldBlock \<Rightarrow> setlkWait ds handleID lk
      | r \<Rightarrow> Some r)"

definition betterConflict :: "file_lock option \<Rightarrow> file_lock \<Rightarrow> file_lock option" where
  "betterConflict conflict existing =
     (case conflict of
        None \<Rightarrow> Some existing
      | Some c \<Rightarrow>
          if lk_start existing < lk_start c
             \<or> (lk_start existing = lk_start c \<and> lk_end existing < lk_end c)
          then Some existing else Some c)"

definition conflictCandidates ::
    "(string \<times> file_lock list) list \<Rightarrow> string \<Rightarrow> file_lock \<Rightarrow> file_lock list" where
  "conflictCandidates state handleID lk =
     concat (map (\<lambda>(owner, ls). if owner = handleID then []
                                 else filter (\<lambda>l. locksConflict l lk) ls) state)"

definition Getlk :: "lock_db \<Rightarrow> string \<Rightarrow> file_lock \<Rightarrow> lock_error + file_lock" where
  "Getlk d handleID lk =
     (case validateFileLock lk of
        Some e \<Rightarrow> Inl e
      | None \<Rightarrow>
          (case foldl betterConflict None (conflictCandidates (loadLockState d) handleID lk) of
             None \<Rightarrow> Inr \<lparr>lk_start = 0, lk_end = 0, lk_type = F_UNLCK, lk_pid = 0\<rparr>
           | Some c \<Rightarrow> Inr c))"


subsection \<open>The byte view\<close>

definition covers :: "file_lock \<Rightarrow> u64 \<Rightarrow> bool" where
  "covers l b \<longleftrightarrow> lk_start l \<le> b \<and> b \<le> lk_end l"

definition validRange :: "file_lock \<Rightarrow> bool" where
  "validRange l \<longleftrightarrow> lk_start l \<le> lk_end l"

definition holds :: "file_lock list \<Rightarrow> u64 \<Rightarrow> lock_type \<Rightarrow> bool" where
  "holds ls b t \<longleftrightarrow> (\<exists>l \<in> set ls. covers l b \<and> lk_type l = t)"

definition heldType :: "file_lock list \<Rightarrow> u64 \<Rightarrow> lock_type" where
  "heldType ls b = (case find (\<lambda>l. covers l b) ls of None \<Rightarrow> F_UNLCK | Some l \<Rightarrow> lk_type l)"

definition apart :: "file_lock \<Rightarrow> file_lock \<Rightarrow> bool" where
  "apart a b \<longleftrightarrow> lk_end a < lk_start b"

text \<open>
  The shape every stored lock list has: increasing, disjoint, non-empty ranges, each a read or
  a write lock.
\<close>

definition wfLocks :: "file_lock list \<Rightarrow> bool" where
  "wfLocks ls \<longleftrightarrow> sorted_wrt apart ls
     \<and> (\<forall>l \<in> set ls. validRange l \<and> lk_type l \<in> {F_RDLCK, F_WRLCK})"

definition disjointLocks :: "file_lock list \<Rightarrow> bool" where
  "disjointLocks ls \<longleftrightarrow> sorted_wrt (\<lambda>a b. \<not> lockRangesOverlap a b) ls
     \<and> (\<forall>l \<in> set ls. validRange l)"

lemma holds_simps [simp]:
  "\<not> holds [] b t"
  "holds (l # ls) b t \<longleftrightarrow> (covers l b \<and> lk_type l = t) \<or> holds ls b t"
  "holds (xs @ ys) b t \<longleftrightarrow> holds xs b t \<or> holds ys b t"
  "holds (rev xs) b t \<longleftrightarrow> holds xs b t"
  by (auto simp: holds_def)

lemma overlap_iff_common_byte:
  assumes "validRange a" and "validRange b"
  shows "lockRangesOverlap a b \<longleftrightarrow> (\<exists>x. covers a x \<and> covers b x)"
proof
  assume "lockRangesOverlap a b"
  with assms have "covers a (max (lk_start a) (lk_start b))
    \<and> covers b (max (lk_start a) (lk_start b))"
    by (auto simp: lockRangesOverlap_def covers_def validRange_def max_def)
  then show "\<exists>x. covers a x \<and> covers b x" by blast
qed (auto simp: lockRangesOverlap_def covers_def)

lemma overlap_sym: "lockRangesOverlap a b \<longleftrightarrow> lockRangesOverlap b a"
  by (auto simp: lockRangesOverlap_def)

lemma wfLocks_disjoint: "wfLocks ls \<Longrightarrow> disjointLocks ls"
  unfolding wfLocks_def disjointLocks_def
  by (auto simp: apart_def lockRangesOverlap_def validRange_def
      elim!: sorted_wrt_mono_rel [rotated])

lemma heldType_eq:
  assumes "disjointLocks ls" and "\<forall>l \<in> set ls. lk_type l \<noteq> F_UNLCK" and "t \<noteq> F_UNLCK"
  shows "heldType ls b = t \<longleftrightarrow> holds ls b t"
  using assms
proof (induction ls)
  case (Cons l ls)
  have d: "disjointLocks ls" using Cons.prems by (simp add: disjointLocks_def)
  have no: "covers l b \<Longrightarrow> \<not> holds ls b t'" for t'
    using Cons.prems(1)
    by (fastforce simp: disjointLocks_def holds_def lockRangesOverlap_def covers_def)
  show ?case
    using Cons.IH [OF d] Cons.prems no by (auto simp: heldType_def)
qed (simp add: heldType_def)

lemma heldType_unlocked:
  "\<forall>l \<in> set ls. lk_type l \<noteq> F_UNLCK \<Longrightarrow>
   heldType ls b = F_UNLCK \<longleftrightarrow> (\<forall>t. t \<noteq> F_UNLCK \<longrightarrow> \<not> holds ls b t)"
  by (induction ls) (auto simp: heldType_def)

lemma heldType_cong:
  assumes "disjointLocks ls" "\<forall>l \<in> set ls. lk_type l \<noteq> F_UNLCK"
    and "\<And>t. t \<noteq> F_UNLCK \<Longrightarrow> holds ls b t \<longleftrightarrow> T = t"
  shows "heldType ls b = T"
proof (cases "T = F_UNLCK")
  case True
  then show ?thesis using assms heldType_unlocked by metis
next
  case False
  then show ?thesis using assms heldType_eq by blast
qed

subsection \<open>Normalisation keeps the byte view\<close>

lemma normStep_loop:
  assumes "sorted_wrt apart (rev out @ xs)"
    and "\<forall>l \<in> set out \<union> set xs. validRange l"
    and "\<forall>l \<in> set out. lk_type l \<in> {F_RDLCK, F_WRLCK}"
    and "\<forall>l \<in> set xs. lk_type l \<in> {F_RDLCK, F_WRLCK, F_UNLCK}"
  shows "wfLocks (rev (foldl normStep out xs))
    \<and> (\<forall>b t. t \<noteq> F_UNLCK \<longrightarrow> holds (foldl normStep out xs) b t = (holds out b t \<or> holds xs b t))"
  using assms
proof (induction xs arbitrary: out)
  case Nil
  then show ?case by (simp add: wfLocks_def)
next
  case (Cons x xs)
  let ?out = "normStep out x"
  have after: "sorted_wrt apart (rev ?out @ xs) \<and> (\<forall>l \<in> set ?out \<union> set xs. validRange l)
    \<and> (\<forall>l \<in> set ?out. lk_type l \<in> {F_RDLCK, F_WRLCK})
    \<and> (\<forall>b t. t \<noteq> F_UNLCK \<longrightarrow> holds ?out b t = (holds out b t \<or> holds [x] b t))"
  proof (cases "lk_type x = F_UNLCK")
    case True
    then show ?thesis using Cons.prems by (auto simp: normStep_def sorted_wrt_append)
  next
    case nu: False
    show ?thesis
    proof (cases out)
      case Nil
      then show ?thesis using Cons.prems nu by (auto simp: normStep_def)
    next
      case (Cons lst rest)
      show ?thesis
      proof (cases "lk_type lst = lk_type x \<and> lk_start x \<le> nextLockStart (lk_end lst)")
        case True
        have ap: "lk_end lst < lk_start x" and vx: "lk_start x \<le> lk_end x"
          and vl: "lk_start lst \<le> lk_end lst"
          using Cons.prems(1,2) \<open>out = lst # rest\<close>
          by (auto simp: sorted_wrt_append apart_def validRange_def)
        have "lk_end lst \<noteq> - 1" by (metis ap leD word_order.extremum)
        then have "lk_start x \<le> lk_end lst + 1" using True by (simp add: nextLockStart_def)
        with ap have eq: "lk_start x = lk_end lst + 1" by (simp add: inc_le order_antisym)
        have gt: "lk_end lst < lk_end x" using ap vx by simp
        have cov: "(lk_start lst \<le> b \<and> b \<le> lk_end x) \<longleftrightarrow>
            (lk_start lst \<le> b \<and> b \<le> lk_end lst) \<or> (lk_start x \<le> b \<and> b \<le> lk_end x)" for b
          using ap vx vl eq
          by (metis (no_types, lifting) inc_le leD leI order_less_imp_le order_trans)
        have form: "\<exists>m. ?out = m # rest \<and> lk_start m = lk_start lst \<and> lk_end m = lk_end x
            \<and> lk_type m = lk_type x"
          using True nu gt \<open>out = lst # rest\<close> by (auto simp: normStep_def Let_def)
        then obtain m where m: "?out = m # rest" "lk_start m = lk_start lst"
          "lk_end m = lk_end x" "lk_type m = lk_type x" by blast
        have "sorted_wrt apart (rev ?out @ xs)"
          using Cons.prems(1) \<open>out = lst # rest\<close> m by (auto simp: sorted_wrt_append apart_def [abs_def])
        moreover have "\<forall>l \<in> set ?out \<union> set xs. validRange l"
          using Cons.prems(2) \<open>out = lst # rest\<close> m vl gt by (auto simp: validRange_def)
        moreover have "\<forall>b t. holds ?out b t = (holds out b t \<or> holds [x] b t)"
          using \<open>out = lst # rest\<close> m True cov by (auto simp: covers_def)
        ultimately show ?thesis
          using Cons.prems(3,4) \<open>out = lst # rest\<close> m nu by auto
      next
        case False
        then have "?out = x # out" using nu \<open>out = lst # rest\<close> by (auto simp: normStep_def)
        then show ?thesis using Cons.prems nu by auto
      qed
    qed
  qed
  have "wfLocks (rev (foldl normStep ?out xs))
    \<and> (\<forall>b t. t \<noteq> F_UNLCK \<longrightarrow> holds (foldl normStep ?out xs) b t = (holds ?out b t \<or> holds xs b t))"
    using after Cons.prems(4) by (intro Cons.IH) auto
  then show ?case using after by auto
qed


definition lockKinds :: "file_lock list \<Rightarrow> bool" where
  "lockKinds ls \<longleftrightarrow> (\<forall>l \<in> set ls. lk_type l \<in> {F_RDLCK, F_WRLCK, F_UNLCK})"

lemma disjoint_sorted_apart:
  assumes "disjointLocks ls"
  shows "sorted_wrt apart (sort_key (\<lambda>l. (lk_start l, lk_end l)) ls)"
proof -
  let ?s = "sort_key (\<lambda>l. (lk_start l, lk_end l)) ls"
  have s1: "sorted_wrt (\<lambda>a b. \<not> lockRangesOverlap a b) ?s"
    using assms sorted_wrt_symp_mset [of "\<lambda>a b. \<not> lockRangesOverlap a b" ls ?s]
    by (simp add: disjointLocks_def overlap_sym)
  have s2: "sorted_wrt (\<lambda>a b. (lk_start a, lk_end a) \<le> (lk_start b, lk_end b)) ?s"
    using sorted_sort_key [of "\<lambda>l. (lk_start l, lk_end l)" ls] by (simp add: sorted_map)
  have s3: "\<forall>l \<in> set ?s. validRange l" using assms by (simp add: disjointLocks_def)
  show ?thesis
    by (rule sorted_wrt_combine [OF s1 s2])
      (use s3 in \<open>auto simp: apart_def lockRangesOverlap_def validRange_def not_le less_eq_prod_def\<close>)
qed

lemma normalize_wf:
  assumes "disjointLocks ls" and "lockKinds ls"
  shows "wfLocks (normalizeFileLocks ls)"
    and "t \<noteq> F_UNLCK \<Longrightarrow> holds (normalizeFileLocks ls) b t = holds ls b t"
proof -
  let ?s = "sort_key (\<lambda>l. (lk_start l, lk_end l)) ls"
  have "wfLocks (rev (foldl normStep [] ?s))
    \<and> (\<forall>b t. t \<noteq> F_UNLCK \<longrightarrow> holds (foldl normStep [] ?s) b t = (holds [] b t \<or> holds ?s b t))"
    using assms disjoint_sorted_apart
    by (intro normStep_loop) (auto simp: disjointLocks_def lockKinds_def)
  moreover have "holds ?s b t = holds ls b t" by (simp add: holds_def)
  ultimately show "wfLocks (normalizeFileLocks ls)"
    and "t \<noteq> F_UNLCK \<Longrightarrow> holds (normalizeFileLocks ls) b t = holds ls b t"
    by (auto simp: normalizeFileLocks_def)
qed

lemma wfLocks_kinds: "wfLocks ls \<Longrightarrow> lockKinds ls"
  by (auto simp: wfLocks_def lockKinds_def)

lemma wfLocks_held: "wfLocks ls \<Longrightarrow> t \<noteq> F_UNLCK \<Longrightarrow> heldType ls b = t \<longleftrightarrow> holds ls b t"
  by (rule heldType_eq) (auto simp: wfLocks_disjoint, auto simp: wfLocks_def)

subsection \<open>Applying a request\<close>

lemma word_le_pred_iff: "(s::u64) \<noteq> 0 \<Longrightarrow> b \<le> s - 1 \<longleftrightarrow> b < s"
  using unat_gt_0 [of s] by (auto simp: word_le_nat_alt word_less_nat_alt unat_minus_one)

lemma word_succ_le_iff: "(e::u64) < m \<Longrightarrow> e + 1 \<le> b \<longleftrightarrow> e < b"
proof -
  assume "e < m"
  then have "e \<noteq> - 1" by (metis leD word_order.extremum)
  then have "unat (e + 1) = Suc (unat e)" by (simp add: unatSuc add.commute eq_neg_iff_add_eq_0)
  then show ?thesis by (simp add: word_le_nat_alt word_less_nat_alt Suc_le_eq)
qed

lemma cutLock_holds:
  assumes "validRange r"
  shows "holds (cutLock r c) b t \<longleftrightarrow> covers c b \<and> lk_type c = t \<and> \<not> covers r b"
proof -
  have lo: "lk_start c < lk_start r \<Longrightarrow> b \<le> lk_start r - 1 \<longleftrightarrow> b < lk_start r"
    by (rule word_le_pred_iff) auto
  have hi: "lk_end r < lk_end c \<Longrightarrow> lk_end r + 1 \<le> b \<longleftrightarrow> lk_end r < b"
    by (rule word_succ_le_iff)
  show ?thesis
    using assms lo hi
    by (auto simp: cutLock_def covers_def lockRangesOverlap_def validRange_def not_le)
qed

lemma cutLock_pieces:
  assumes "validRange r" "validRange c" "l \<in> set (cutLock r c)"
  shows "validRange l \<and> lk_type l = lk_type c"
proof -
  have "lk_start c < lk_start r \<Longrightarrow> lk_start c \<le> lk_start r - 1"
    by (subst word_le_pred_iff) auto
  then show ?thesis
    using assms by (auto simp: cutLock_def validRange_def inc_le split: if_splits)
qed

lemma cutLock_disjoint:
  assumes "validRange r" "validRange c"
  shows "disjointLocks (cutLock r c)"
proof -
  have "\<not> lk_end r + 1 \<le> lk_start r - 1" if "lk_start c < lk_start r" "lk_end r < lk_end c"
  proof
    assume "lk_end r + 1 \<le> lk_start r - 1"
    moreover have "lk_start r \<noteq> 0" using that(1) by auto
    ultimately have "lk_end r + 1 < lk_start r" by (simp add: word_le_pred_iff)
    then have "lk_end r < lk_start r" using word_succ_le_iff [OF that(2)] by (metis order_less_imp_le)
    with assms(1) show False by (simp add: validRange_def)
  qed
  then have "sorted_wrt (\<lambda>a b. \<not> lockRangesOverlap a b) (cutLock r c)"
    by (auto simp: cutLock_def lockRangesOverlap_def)
  then show ?thesis using cutLock_pieces [OF assms] by (auto simp: disjointLocks_def)
qed

lemma cut_all:
  assumes "disjointLocks ls" "lockKinds ls" "validRange r"
  defines "cs \<equiv> concat (map (cutLock r) ls)"
  shows "disjointLocks cs" and "lockKinds cs"
    and "holds cs b t \<longleftrightarrow> holds ls b t \<and> \<not> covers r b"
proof -
  have cov: "covers a x \<Longrightarrow> a \<in> set (cutLock r c) \<Longrightarrow> covers c x" for a c x
    using cutLock_holds [OF assms(3), of c x "lk_type a"] by (auto simp: holds_def)
  have v: "validRange c" if "c \<in> set ls" for c using assms(1) that by (simp add: disjointLocks_def)
  have "sorted_wrt (\<lambda>a b. \<not> lockRangesOverlap a b) cs"
    unfolding cs_def
  proof (rule sorted_wrt_concat_map)
    show "sorted_wrt (\<lambda>a b. \<not> lockRangesOverlap a b) ls"
      using assms(1) by (simp add: disjointLocks_def)
    show "sorted_wrt (\<lambda>a b. \<not> lockRangesOverlap a b) (cutLock r c)" if "c \<in> set ls" for c
      using cutLock_disjoint [OF assms(3) v [OF that]] by (simp add: disjointLocks_def)
    show "\<not> lockRangesOverlap a b"
      if "x \<in> set ls" "y \<in> set ls" "\<not> lockRangesOverlap x y"
        "a \<in> set (cutLock r x)" "b \<in> set (cutLock r y)" for x y a b
      using that v cov cutLock_pieces [OF assms(3)]
      by (metis overlap_iff_common_byte)
  qed
  moreover have "\<forall>l \<in> set cs. validRange l"
    using cutLock_pieces [OF assms(3) v] by (auto simp: cs_def)
  ultimately show "disjointLocks cs" by (simp add: disjointLocks_def)
  show "lockKinds cs"
    using cutLock_pieces [OF assms(3) v] assms(2) by (fastforce simp: lockKinds_def cs_def)
  show "holds cs b t \<longleftrightarrow> holds ls b t \<and> \<not> covers r b"
    unfolding cs_def using cutLock_holds [OF assms(3)] by (induction ls) auto
qed

lemma validate_NoneD:
  "validateFileLock r = None \<Longrightarrow> validRange r \<and> lk_type r \<in> {F_RDLCK, F_WRLCK, F_UNLCK}"
  by (auto simp: validateFileLock_def validRange_def split: lock_type.splits if_splits)

lemma wfLocks_Nil [simp]: "wfLocks []"
  by (simp add: wfLocks_def)

lemma apply_wf_holds:
  assumes "wfLocks ls" and "validateFileLock r = None"
  shows "wfLocks (applyFileLock ls r)"
    and "t \<noteq> F_UNLCK \<Longrightarrow> holds (applyFileLock ls r) b t
           \<longleftrightarrow> (if covers r b then lk_type r = t else holds ls b t)"
proof -
  define cs where "cs = concat (map (cutLock r) ls)"
  define rs where "rs = (if lk_type r \<noteq> F_UNLCK then [r] else [])"
  note v = validate_NoneD [OF assms(2)]
  note cut = cut_all [OF wfLocks_disjoint [OF assms(1)] wfLocks_kinds [OF assms(1)] v [THEN conjunct1],
      folded cs_def]
  have "\<forall>c \<in> set cs. \<forall>x \<in> set rs. \<not> lockRangesOverlap c x"
  proof (intro ballI notI)
    fix c x assume "c \<in> set cs" "x \<in> set rs" "lockRangesOverlap c x"
    then obtain b where "covers c b" "covers r b"
      using overlap_iff_common_byte [of c r] cut(1) v
      by (auto simp: rs_def disjointLocks_def split: if_splits)
    then show False using cut(3) [of b "lk_type c"] \<open>c \<in> set cs\<close> by (auto simp: holds_def)
  qed
  then have d: "disjointLocks (cs @ rs)" and k: "lockKinds (cs @ rs)"
    using cut v by (auto simp: disjointLocks_def rs_def sorted_wrt_append lockKinds_def)
  have ap: "applyFileLock ls r = normalizeFileLocks (cs @ rs)"
    by (simp add: applyFileLock_def cs_def rs_def)
  show "wfLocks (applyFileLock ls r)" using normalize_wf(1) [OF d k] ap by simp
  show "holds (applyFileLock ls r) b t \<longleftrightarrow> (if covers r b then lk_type r = t else holds ls b t)"
    if "t \<noteq> F_UNLCK" for b t
    using normalize_wf(2) [OF d k that] cut(3) that by (auto simp: ap rs_def)
qed

lemma apply_heldType:
  assumes "wfLocks ls" and "validateFileLock r = None"
  shows "heldType (applyFileLock ls r) b = (if covers r b then lk_type r else heldType ls b)"
proof (rule heldType_cong)
  have w: "wfLocks (applyFileLock ls r)" by (rule apply_wf_holds [OF assms])
  then show "disjointLocks (applyFileLock ls r)"
    and "\<forall>l \<in> set (applyFileLock ls r). lk_type l \<noteq> F_UNLCK"
    by (auto simp: wfLocks_disjoint wfLocks_def)
  show "holds (applyFileLock ls r) b t \<longleftrightarrow> (if covers r b then lk_type r else heldType ls b) = t"
    if "t \<noteq> F_UNLCK" for t
    using apply_wf_holds(2) [OF assms that] wfLocks_held [OF assms(1) that] by auto
qed

lemma normalize_heldType:
  assumes "wfLocks ls"
  shows "heldType (normalizeFileLocks ls) b = heldType ls b"
proof (rule heldType_cong)
  note n = normalize_wf [OF wfLocks_disjoint wfLocks_kinds, OF assms assms]
  show "disjointLocks (normalizeFileLocks ls)"
    and "\<forall>l \<in> set (normalizeFileLocks ls). lk_type l \<noteq> F_UNLCK"
    using n(1) by (auto simp: wfLocks_disjoint wfLocks_def)
  show "holds (normalizeFileLocks ls) b t \<longleftrightarrow> heldType ls b = t" if "t \<noteq> F_UNLCK" for t
    using n(2) [OF that] wfLocks_held [OF assms that] by simp
qed

subsection \<open>The lock table keeps its owners apart\<close>

definition listsConflict :: "file_lock list \<Rightarrow> file_lock list \<Rightarrow> bool" where
  "listsConflict xs ys \<longleftrightarrow> (\<exists>x \<in> set xs. \<exists>y \<in> set ys. locksConflict x y)"

lemma listsConflict_bytes:
  assumes "wfLocks xs" and "wfLocks ys"
  shows "listsConflict xs ys \<longleftrightarrow>
    (\<exists>b t u. holds xs b t \<and> holds ys b u \<and> t \<noteq> F_UNLCK \<and> u \<noteq> F_UNLCK \<and> (t = F_WRLCK \<or> u = F_WRLCK))"
proof -
  have "locksConflict x y \<longleftrightarrow> (\<exists>b. covers x b \<and> covers y b) \<and> lk_type x \<noteq> F_UNLCK
      \<and> lk_type y \<noteq> F_UNLCK \<and> (lk_type x = F_WRLCK \<or> lk_type y = F_WRLCK)"
    if "x \<in> set xs" "y \<in> set ys" for x y
    using overlap_iff_common_byte [of x y] assms that by (auto simp: locksConflict_def wfLocks_def)
  then show ?thesis unfolding listsConflict_def holds_def by blast
qed

lemma listsConflictI:
  "wfLocks xs \<Longrightarrow> wfLocks ys \<Longrightarrow> holds xs b t \<Longrightarrow> holds ys b u \<Longrightarrow> t \<noteq> F_UNLCK \<Longrightarrow> u \<noteq> F_UNLCK
   \<Longrightarrow> t = F_WRLCK \<or> u = F_WRLCK \<Longrightarrow> listsConflict xs ys"
  using listsConflict_bytes by blast

definition lockInv :: "lock_db \<Rightarrow> bool" where
  "lockInv d \<longleftrightarrow> distinct (map fst (ld_locks d))
     \<and> (\<forall>o1 l1. map_of (ld_locks d) o1 = Some l1 \<longrightarrow> wfLocks l1)
     \<and> (\<forall>o1 o2 l1 l2. o1 \<noteq> o2 \<longrightarrow> map_of (ld_locks d) o1 = Some l1 \<longrightarrow> map_of (ld_locks d) o2 = Some l2
          \<longrightarrow> \<not> listsConflict l1 l2)"

lemma map_of_decode: "map_of (decodeLockState L) k = map_option normalizeFileLocks (map_of L k)"
  by (induction L) (auto simp: decodeLockState_def)

lemma map_of_filter_fst: "map_of (filter (\<lambda>(k, _). P k) L) k = (if P k then map_of L k else None)"
  by (induction L) auto

lemma map_of_fold_delete:
  "map_of (fold AList.delete ks L) k = (if k \<in> set ks then None else map_of L k)"
  by (induction ks arbitrary: L) (auto simp: delete_conv')

lemma distinct_fold_delete:
  "distinct (map fst L) \<Longrightarrow> distinct (map fst (fold AList.delete ks L))"
  by (induction ks arbitrary: L) (auto simp: distinct_delete)

definition liveLocks :: "lock_db \<Rightarrow> string \<Rightarrow> file_lock list" where
  "liveLocks d owner =
     (if expiredOwner d owner then []
      else case map_of (ld_locks d) owner of None \<Rightarrow> [] | Some ls \<Rightarrow> ls)"

definition heldBy :: "lock_db \<Rightarrow> string \<Rightarrow> u64 \<Rightarrow> lock_type" where
  "heldBy d owner b = heldType (liveLocks d owner) b"

lemma liveLocks_wf: "lockInv d \<Longrightarrow> wfLocks (liveLocks d owner)"
  by (auto simp: liveLocks_def lockInv_def split: option.splits)

lemma liveLocks_apart:
  "lockInv d \<Longrightarrow> o1 \<noteq> o2 \<Longrightarrow> \<not> listsConflict (liveLocks d o1) (liveLocks d o2)"
  by (auto simp: liveLocks_def lockInv_def listsConflict_def split: option.splits)

text \<open>What a successful transaction wrote, by owner.\<close>

lemma trySetLock_InrD:
  assumes "trySetLock d h lk = Inr d'"
  defines "cur \<equiv> (case map_of (loadLockState d) h of None \<Rightarrow> [] | Some ls \<Rightarrow> ls)"
  shows "ld_fsKey d' = ld_fsKey d" "ld_alive d' = ld_alive d" "ld_inodeType d' = ld_inodeType d"
    and "lk_type lk \<noteq> F_UNLCK \<Longrightarrow> \<not> lockBlocked (loadLockState d) h lk"
    and "map_of (ld_locks d') k =
      (if k = h then (if applyFileLock cur lk = [] then None
                      else Some (normalizeFileLocks (applyFileLock cur lk)))
       else if expiredOwner d k then None else map_of (ld_locks d) k)"
    and "distinct (map fst (ld_locks d)) \<Longrightarrow> distinct (map fst (ld_locks d'))"
proof -
  obtain st stale where p: "pruneExpiredLocks d (decodeLockState (ld_locks d)) = (st, stale)"
    by (meson surj_pair)
  have st: "st = loadLockState d" using p by (simp add: loadLockState_def)
  have stale: "k \<in> set stale \<longleftrightarrow> expiredOwner d k \<and> k \<in> fst ` set (ld_locks d)" for k
    using p by (force simp: pruneExpiredLocks_def decodeLockState_def)
  note d' = assms(1) [unfolded trySetLock_def p Let_def, folded encodeFileLocks_def]
  show "ld_fsKey d' = ld_fsKey d" "ld_alive d' = ld_alive d" "ld_inodeType d' = ld_inodeType d"
    and "lk_type lk \<noteq> F_UNLCK \<Longrightarrow> \<not> lockBlocked (loadLockState d) h lk"
    using d' by (auto split: if_splits option.splits simp: st)
  show "map_of (ld_locks d') k =
      (if k = h then (if applyFileLock cur lk = [] then None
                      else Some (normalizeFileLocks (applyFileLock cur lk)))
       else if expiredOwner d k then None else map_of (ld_locks d) k)"
  proof -
    have "k \<notin> fst ` set (ld_locks d) \<Longrightarrow> map_of (ld_locks d) k = None"
      by (simp add: map_of_eq_None_iff)
    then show ?thesis
      using d' by (auto split: if_splits option.splits
          simp: st cur_def encodeFileLocks_def delete_conv' update_conv' map_of_fold_delete stale)
  qed
  show "distinct (map fst (ld_locks d)) \<Longrightarrow> distinct (map fst (ld_locks d'))"
    using d' by (auto split: if_splits option.splits
        simp: distinct_delete distinct_update distinct_fold_delete)
qed

lemma map_of_load:
  "map_of (loadLockState d) k =
     (if expiredOwner d k then None else map_option normalizeFileLocks (map_of (ld_locks d) k))"
  using map_of_filter_fst [of "\<lambda>k. \<not> expiredOwner d k" "decodeLockState (ld_locks d)" k]
  by (simp add: loadLockState_def pruneExpiredLocks_def map_of_decode)

lemma distinct_load:
  "distinct (map fst (ld_locks d)) \<Longrightarrow> distinct (map fst (loadLockState d))"
proof -
  assume "distinct (map fst (ld_locks d))"
  moreover have "map fst (decodeLockState L) = map fst L" for L
    by (induction L) (auto simp: decodeLockState_def)
  ultimately show ?thesis
    by (simp add: loadLockState_def pruneExpiredLocks_def distinct_map_filter)
qed

lemma load_current_holds:
  fixes d :: lock_db and h :: string
  assumes "lockInv d"
  defines "cur \<equiv> (case map_of (loadLockState d) h of None \<Rightarrow> [] | Some ls \<Rightarrow> ls)"
  shows "wfLocks cur" and "t \<noteq> F_UNLCK \<Longrightarrow> holds cur b t = holds (liveLocks d h) b t"
    and "heldType cur b = heldBy d h b"
proof -
  have w: "wfLocks (liveLocks d h)" by (rule liveLocks_wf [OF assms(1)])
  note n = normalize_wf [OF wfLocks_disjoint wfLocks_kinds, OF w w]
  have "cur = [] \<and> liveLocks d h = [] \<or> cur = normalizeFileLocks (liveLocks d h)"
    by (auto simp: cur_def map_of_load liveLocks_def split: option.splits)
  then show "wfLocks cur" and "t \<noteq> F_UNLCK \<Longrightarrow> holds cur b t = holds (liveLocks d h) b t"
    and "heldType cur b = heldBy d h b"
    using n normalize_heldType [OF w] by (auto simp: heldBy_def)
qed

lemma not_blocked_holds:
  assumes "lockInv d" "\<not> lockBlocked (loadLockState d) h lk" "k \<noteq> h" "validRange lk"
    "covers lk b" "holds (liveLocks d k) b u" "u \<noteq> F_UNLCK" "lk_type lk \<noteq> F_UNLCK"
    "u = F_WRLCK \<or> lk_type lk = F_WRLCK"
  shows False
proof -
  from assms(6) obtain ls where ls: "\<not> expiredOwner d k" "map_of (ld_locks d) k = Some ls" "liveLocks d k = ls"
    by (auto simp: liveLocks_def split: if_splits option.splits)
  then have w: "wfLocks ls" using assms(1) by (auto simp: lockInv_def)
  have mem: "(k, normalizeFileLocks ls) \<in> set (loadLockState d)"
    using ls map_of_load [of d k] by (auto dest: map_of_SomeD)
  from normalize_wf(2) [OF wfLocks_disjoint wfLocks_kinds, OF w w assms(7)] assms(6) ls
  obtain l where l: "l \<in> set (normalizeFileLocks ls)" "covers l b" "lk_type l = u"
    by (auto simp: holds_def)
  have "lockRangesOverlap l lk" using l assms(5) by (auto simp: lockRangesOverlap_def covers_def)
  then have "locksConflict l lk" using l assms(7-9) by (auto simp: locksConflict_def)
  then show False using assms(2,3) mem l by (auto simp: lockBlocked_def)
qed

lemma trySetLock_inv:
  assumes "lockInv d" and "validateFileLock lk = None" and "trySetLock d h lk = Inr d'"
  shows "lockInv d'"
proof -
  define cur where "cur = (case map_of (loadLockState d) h of None \<Rightarrow> [] | Some ls \<Rightarrow> ls)"
  let ?next = "applyFileLock cur lk"
  note r = trySetLock_InrD [OF assms(3), folded cur_def]
  note c = load_current_holds [OF assms(1), where h = h, folded cur_def]
  note v = validate_NoneD [OF assms(2)]
  note nx = apply_wf_holds [OF c(1) assms(2)]
  note nn = normalize_wf [OF wfLocks_disjoint wfLocks_kinds, OF nx(1) nx(1)]
  have noconf: "\<not> listsConflict (normalizeFileLocks ?next) l"
    if k: "k \<noteq> h" "map_of (ld_locks d') k = Some l" for k l
  proof
    assume conf: "listsConflict (normalizeFileLocks ?next) l"
    have l: "\<not> expiredOwner d k" "map_of (ld_locks d) k = Some l"
      using r(5) [of k] k by (auto split: if_splits)
    then have live: "liveLocks d k = l" by (simp add: liveLocks_def)
    have wl: "wfLocks l" using assms(1) l by (auto simp: lockInv_def)
    obtain b t u where b: "holds (normalizeFileLocks ?next) b t" "holds l b u" "t \<noteq> F_UNLCK"
      "u \<noteq> F_UNLCK" "t = F_WRLCK \<or> u = F_WRLCK"
      using conf listsConflict_bytes [OF nn(1) wl] by auto
    show False
    proof (cases "covers lk b")
      case True
      then have "lk_type lk = t" using b nn(2) nx(2) by auto
      then show False
        using not_blocked_holds [OF assms(1) r(4) k(1) _ True, of u] b live v by auto
    next
      case False
      then have "holds (liveLocks d h) b t" using b nn(2) nx(2) c(2) by auto
      then have "listsConflict (liveLocks d h) (liveLocks d k)"
        using b live by (intro listsConflictI [of _ _ b t u]) (auto simp: liveLocks_wf assms(1))
      then show False using liveLocks_apart [OF assms(1)] k(1) by metis
    qed
  qed
  have sym: "listsConflict a b \<Longrightarrow> listsConflict b a" for a b
    by (auto simp: listsConflict_def locksConflict_def lockRangesOverlap_def split: if_splits)
  have wfd: "wfLocks l" if "map_of (ld_locks d') k = Some l" for k l
    using that r(5) [of k] nn(1) assms(1) by (auto simp: lockInv_def split: if_splits)
  have "\<not> listsConflict l1 l2"
    if "o1 \<noteq> o2" "map_of (ld_locks d') o1 = Some l1" "map_of (ld_locks d') o2 = Some l2" for o1 o2 l1 l2
    using that noconf sym assms(1) r(5) [of o1] r(5) [of o2]
    by (auto simp: lockInv_def split: if_splits) metis
  then show ?thesis
    using r(6) assms(1) wfd by (auto simp: lockInv_def)
qed

lemma trySetLock_held:
  assumes "lockInv d" and "validateFileLock lk = None" and "trySetLock d h lk = Inr d'"
  shows "\<not> expiredOwner d h \<Longrightarrow> heldBy d' h b = (if covers lk b then lk_type lk else heldBy d h b)"
    and "k \<noteq> h \<Longrightarrow> heldBy d' k b = heldBy d k b"
proof -
  define cur where "cur = (case map_of (loadLockState d) h of None \<Rightarrow> [] | Some ls \<Rightarrow> ls)"
  note r = trySetLock_InrD [OF assms(3), folded cur_def]
  note c = load_current_holds [OF assms(1), where h = h, folded cur_def]
  have ex: "expiredOwner d' k = expiredOwner d k" for k by (simp add: expiredOwner_def r(1,2))
  note nx = apply_wf_holds(1) [OF c(1) assms(2)]
  show "heldBy d' h b = (if covers lk b then lk_type lk else heldBy d h b)" if "\<not> expiredOwner d h"
    using r(5) [of h] that ex apply_heldType [OF c(1) assms(2), of b] c(3) normalize_heldType [OF nx, of b]
    by (auto simp: heldBy_def [of d'] liveLocks_def heldType_def split: if_splits)
  show "heldBy d' k b = heldBy d k b" if "k \<noteq> h"
    using r(5) [of k] that ex by (auto simp: heldBy_def liveLocks_def)
qed

subsection \<open>The contract of a range-lock table\<close>

text \<open>
  What a mount relies on: \<open>held\<close> says which lock an owner has on a byte, \<open>acquire\<close>
  is a lock request.  The laws are those the client of the table needs; the lemmas inside follow
  from them alone.
\<close>

locale range_lock_table =
  fixes held :: "'d \<Rightarrow> string \<Rightarrow> u64 \<Rightarrow> lock_type"
    and acquire :: "'d \<Rightarrow> string \<Rightarrow> file_lock \<Rightarrow> lock_error + 'd"
    and live :: "'d \<Rightarrow> string \<Rightarrow> bool"
    and inv :: "'d \<Rightarrow> bool"
  assumes acquire_inv:
      "inv d \<Longrightarrow> validateFileLock lk = None \<Longrightarrow> acquire d h lk = Inr d' \<Longrightarrow> inv d'"
    and acquire_live:
      "acquire d h lk = Inr d' \<Longrightarrow> live d' k = live d k"
    and acquire_own:
      "inv d \<Longrightarrow> validateFileLock lk = None \<Longrightarrow> acquire d h lk = Inr d' \<Longrightarrow> live d h
       \<Longrightarrow> held d' h b = (if covers lk b then lk_type lk else held d h b)"
    and acquire_frame:
      "inv d \<Longrightarrow> validateFileLock lk = None \<Longrightarrow> acquire d h lk = Inr d' \<Longrightarrow> k \<noteq> h
       \<Longrightarrow> held d' k b = held d k b"
    and exclusive:
      "inv d \<Longrightarrow> h \<noteq> k \<Longrightarrow> held d h b = F_WRLCK \<Longrightarrow> held d k b = F_UNLCK"
begin

lemma write_excludes:
  assumes "inv d" "h \<noteq> k" "validateFileLock lk = None" "validateFileLock lk2 = None"
    and "live d h" "live d k" "lk_type lk = F_WRLCK" "lk_type lk2 \<noteq> F_UNLCK"
    and "covers lk b" "covers lk2 b"
    and first: "acquire d h lk = Inr d1"
  shows "\<exists>e. acquire d1 k lk2 = Inl e"
proof (cases "acquire d1 k lk2")
  case (Inr d2)
  have i1: "inv d1" by (rule acquire_inv [OF assms(1,3) first])
  have i2: "inv d2" by (rule acquire_inv [OF i1 assms(4) Inr])
  have "held d1 h b = F_WRLCK"
    using acquire_own [OF assms(1,3) first assms(5)] assms(7,9) by simp
  then have "held d2 h b = F_WRLCK"
    using acquire_frame [OF i1 assms(4) Inr assms(2)] by simp
  then have "held d2 k b = F_UNLCK" by (rule exclusive [OF i2 assms(2)])
  moreover have "live d1 k" using acquire_live [OF first] assms(6) by simp
  then have "held d2 k b = lk_type lk2" using acquire_own [OF i1 assms(4) Inr] assms(10) by simp
  ultimately show ?thesis using assms(8) by simp
qed simp

lemma unlock_releases:
  assumes "inv d" "validateFileLock lk = None" "live d h" "lk_type lk = F_UNLCK"
    and "acquire d h lk = Inr d1" "covers lk b"
  shows "held d1 h b = F_UNLCK"
  using acquire_own [OF assms(1,2,5,3)] assms(4,6) by simp

end

lemma heldBy_exclusive:
  assumes "lockInv d" "h \<noteq> k" "heldBy d h b = F_WRLCK"
  shows "heldBy d k b = F_UNLCK"
proof (rule ccontr)
  assume ne: "heldBy d k b \<noteq> F_UNLCK"
  have w: "wfLocks (liveLocks d h)" "wfLocks (liveLocks d k)" using assms(1) by (auto simp: liveLocks_wf)
  have "holds (liveLocks d h) b F_WRLCK"
    using assms(3) wfLocks_held [OF w(1), of F_WRLCK] by (simp add: heldBy_def)
  moreover have "holds (liveLocks d k) b (heldBy d k b)"
    using wfLocks_held [OF w(2) ne [unfolded heldBy_def], of b] by (simp add: heldBy_def)
  ultimately have "listsConflict (liveLocks d h) (liveLocks d k)"
    using ne w by (intro listsConflictI [of _ _ b F_WRLCK]) auto
  then show False using liveLocks_apart [OF assms(1,2)] by simp
qed

interpretation lock_table: range_lock_table heldBy trySetLock "\<lambda>d h. \<not> expiredOwner d h" lockInv
  by unfold_locales
    (auto simp: trySetLock_inv trySetLock_held heldBy_exclusive expiredOwner_def trySetLock_InrD(1,2))

subsection \<open>Runs of the lock table\<close>

text \<open>
  The transitions of the stored table: a successful request, the release of a handle, leases that
  start or end, the inode changing, and the expiry of the whole hash.
\<close>

inductive lock_step :: "lock_db \<Rightarrow> lock_db \<Rightarrow> bool" where
  set_lock: "Setlk d h lk = Inr d' \<Longrightarrow> lock_step d d'"
| unlock_all: "lock_step d (UnlockAll d h)"
| leases: "lock_step d (d\<lparr>ld_alive := A\<rparr>)"
| inode: "lock_step d (d\<lparr>ld_inodeType := t\<rparr>)"
| key_expiry: "lock_step d (d\<lparr>ld_locks := []\<rparr>)"

inductive lock_reachable :: "lock_db \<Rightarrow> bool" where
  start: "ld_locks d = [] \<Longrightarrow> lock_reachable d"
| step: "lock_reachable d \<Longrightarrow> lock_step d d' \<Longrightarrow> lock_reachable d'"

lemma Setlk_InrD: "Setlk d h lk = Inr d' \<Longrightarrow> validateFileLock lk = None \<and> trySetLock d h lk = Inr d'"
  by (auto simp: Setlk_def split: option.splits)

lemma lock_step_inv: "lock_step d d' \<Longrightarrow> lockInv d \<Longrightarrow> lockInv d'"
proof (induction rule: lock_step.induct)
  case (set_lock d h lk d')
  then show ?case by (blast dest: Setlk_InrD intro: lock_table.acquire_inv)
next
  case (unlock_all d h)
  then show ?case by (auto simp: lockInv_def UnlockAll_def distinct_delete delete_conv')
qed (auto simp: lockInv_def)

lemma lock_reachable_inv: "lock_reachable d \<Longrightarrow> lockInv d"
  by (induction rule: lock_reachable.induct) (auto simp: lock_step_inv, auto simp: lockInv_def)

subsection \<open>The query agrees with the request\<close>

definition earlier :: "file_lock \<Rightarrow> file_lock \<Rightarrow> bool" where
  "earlier a b \<longleftrightarrow> lk_start a < lk_start b \<or> (lk_start a = lk_start b \<and> lk_end a < lk_end b)"

definition earliest :: "file_lock \<Rightarrow> file_lock \<Rightarrow> file_lock" where
  "earliest c x = (if earlier x c then x else c)"

lemma foldl_better:
  "foldl betterConflict (Some a) xs = Some (foldl earliest a xs)"
  "foldl betterConflict None xs = (case xs of [] \<Rightarrow> None | x # r \<Rightarrow> Some (foldl earliest x r))"
proof -
  show *: "foldl betterConflict (Some a) xs = Some (foldl earliest a xs)" for a xs
    by (induction xs arbitrary: a) (auto simp: betterConflict_def earliest_def earlier_def)
  show "foldl betterConflict None xs = (case xs of [] \<Rightarrow> None | x # r \<Rightarrow> Some (foldl earliest x r))"
    by (cases xs) (auto simp: * betterConflict_def)
qed

lemma earliest_props: "earliest a x \<in> {a, x}" "\<not> earlier a (earliest a x)" "\<not> earlier x (earliest a x)"
  by (auto simp: earliest_def earlier_def)

lemma earlier_trans: "\<not> earlier x y \<Longrightarrow> \<not> earlier y z \<Longrightarrow> \<not> earlier x z"
  by (auto simp: earlier_def not_less)

lemma foldl_earliest:
  "foldl earliest a xs \<in> insert a (set xs) \<and> (\<forall>x \<in> insert a (set xs). \<not> earlier x (foldl earliest a xs))"
proof (induction xs arbitrary: a)
  case Nil
  then show ?case by (simp add: earlier_def)
next
  case (Cons x xs)
  let ?r = "foldl earliest (earliest a x) xs"
  have ih: "?r \<in> insert (earliest a x) (set xs)" "\<not> earlier (earliest a x) ?r"
    "\<forall>y \<in> set xs. \<not> earlier y ?r"
    using Cons.IH [of "earliest a x"] by auto
  have "\<not> earlier a ?r" by (rule earlier_trans [OF earliest_props(2) ih(2)])
  moreover have "\<not> earlier x ?r" by (rule earlier_trans [OF earliest_props(3) ih(2)])
  ultimately show ?case using ih earliest_props(1) [of a x] by auto
qed

lemma foldl_better_None: "foldl betterConflict None xs = None \<longleftrightarrow> xs = []"
  by (simp add: foldl_better split: list.split)

lemma foldl_better_result:
  assumes "foldl betterConflict None xs = Some c"
  shows "c \<in> set xs \<and> (\<forall>x \<in> set xs. \<not> earlier x c)"
proof (cases xs)
  case (Cons a r)
  then have "c = foldl earliest a r" using assms by (simp add: foldl_better(2) del: foldl_Cons)
  then show ?thesis using foldl_earliest [of a r] Cons by simp
qed (use assms in simp)

lemma conflictCandidates_iff:
  "l \<in> set (conflictCandidates st h lk) \<longleftrightarrow>
     (\<exists>k ls. (k, ls) \<in> set st \<and> k \<noteq> h \<and> l \<in> set ls \<and> locksConflict l lk)"
  by (fastforce simp: conflictCandidates_def split: if_splits)

lemma lockBlocked_candidates: "lockBlocked st h lk \<longleftrightarrow> conflictCandidates st h lk \<noteq> []"
proof -
  have "lockBlocked st h lk \<longleftrightarrow> (\<exists>l. l \<in> set (conflictCandidates st h lk))"
    by (auto simp: lockBlocked_def conflictCandidates_iff)
  then show ?thesis by (metis ex_in_conv set_empty)
qed

lemma trySetLock_blocked_iff:
  assumes "h \<noteq> []" "ld_inodeType d = Some ''file''" "lk_type lk \<noteq> F_UNLCK"
  shows "trySetLock d h lk = Inl ErrLockWouldBlock \<longleftrightarrow> lockBlocked (loadLockState d) h lk"
  using assms by (auto simp: trySetLock_def loadLockState_def Let_def split: prod.splits)

subsection \<open>Properties\<close>

text \<open>
  C15: \<open>applyFileLock\<close> turns a well-formed lock list and a valid request into a well-formed list
  (sorted, disjoint, read or write locks only) in which exactly the requested bytes have the
  requested type and every other byte keeps its own, up to the last byte 2^64 - 1.
\<close>

theorem applyFileLock_exact:
  assumes "wfLocks ls" and "validateFileLock r = None"
  shows "wfLocks (applyFileLock ls r)
    \<and> (\<forall>b. heldType (applyFileLock ls r) b = (if covers r b then lk_type r else heldType ls b))"
  using apply_wf_holds(1) [OF assms] apply_heldType [OF assms] by simp

theorem applyFileLock_exact_witness:
  "wfLocks (applyFileLock [\<lparr>lk_start = 0, lk_end = - 1, lk_type = F_WRLCK, lk_pid = 7\<rparr>]
       \<lparr>lk_start = 10, lk_end = 19, lk_type = F_UNLCK, lk_pid = 0\<rparr>)
   \<and> heldType (applyFileLock [\<lparr>lk_start = 0, lk_end = - 1, lk_type = F_WRLCK, lk_pid = 7\<rparr>]
       \<lparr>lk_start = 10, lk_end = 19, lk_type = F_UNLCK, lk_pid = 0\<rparr>) 15 = F_UNLCK"
  using applyFileLock_exact [of "[\<lparr>lk_start = 0, lk_end = - 1, lk_type = F_WRLCK, lk_pid = 7\<rparr>]"
      "\<lparr>lk_start = 10, lk_end = 19, lk_type = F_UNLCK, lk_pid = 0\<rparr>"]
  by (simp add: wfLocks_def validRange_def validateFileLock_def covers_def)

text \<open>
  C3: in every state the table can reach, by any interleaving of requests, releases and lease
  expiries, a byte write-locked by one live owner is not locked by another.
\<close>

theorem lock_mutual_exclusion:
  assumes "lock_reachable d" and "h \<noteq> k" and "heldBy d h b = F_WRLCK"
  shows "heldBy d k b = F_UNLCK"
  by (rule lock_table.exclusive [OF lock_reachable_inv [OF assms(1)] assms(2,3)])

theorem lock_mutual_exclusion_witness:
  "heldBy (case Setlk \<lparr>ld_fsKey = ''w'', ld_inodeType = Some ''file'', ld_locks = [], ld_alive = []\<rparr>
      ''a'' \<lparr>lk_start = 4, lk_end = 9, lk_type = F_WRLCK, lk_pid = 1\<rparr> of Inr d \<Rightarrow> d)
     ''b'' 5 = F_UNLCK"
proof -
  define d0 where "d0 = \<lparr>ld_fsKey = ''w'', ld_inodeType = Some ''file'', ld_locks = [], ld_alive = []\<rparr>"
  define lk where "lk = \<lparr>lk_start = (4::u64), lk_end = 9, lk_type = F_WRLCK, lk_pid = 1\<rparr>"
  have s: "Setlk d0 ''a'' lk = Inr (d0\<lparr>ld_locks := [(''a'', [lk])]\<rparr>)"
    by (simp add: Setlk_def trySetLock_def d0_def lk_def validateFileLock_def pruneExpiredLocks_def
        decodeLockState_def lockBlocked_def applyFileLock_def normalizeFileLocks_def normStep_def
        encodeFileLocks_def)
  have "lock_reachable (d0\<lparr>ld_locks := [(''a'', [lk])]\<rparr>)"
    by (rule lock_reachable.step [OF lock_reachable.start [of d0] lock_step.set_lock [OF s]])
      (simp add: d0_def)
  then have "heldBy (d0\<lparr>ld_locks := [(''a'', [lk])]\<rparr>) ''b'' 5 = F_UNLCK"
    by (rule lock_mutual_exclusion [of _ "''a''"])
      (simp_all add: heldBy_def liveLocks_def expiredOwner_def cutBar_def d0_def lk_def heldType_def
        covers_def)
  then show ?thesis using s by (simp add: d0_def lk_def)
qed

text \<open>
  \<open>Getlk\<close> answers for \<open>Setlk\<close>: on a regular file a valid lock request by a named owner is
  refused with ErrLockWouldBlock exactly when \<open>Getlk\<close> reports a conflicting lock rather than
  F_UNLCK, and the lock reported is a conflicting one with no conflicting lock that starts
  earlier, or starts with it and ends earlier.
\<close>

theorem Getlk_agrees:
  assumes "validateFileLock lk = None" "lk_type lk \<noteq> F_UNLCK" "h \<noteq> []" "ld_inodeType d = Some ''file''"
  shows "\<exists>c. Getlk d h lk = Inr c
    \<and> (Setlk d h lk = Inl ErrLockWouldBlock \<longleftrightarrow> lk_type c \<noteq> F_UNLCK)
    \<and> (lk_type c \<noteq> F_UNLCK \<longrightarrow> c \<in> set (conflictCandidates (loadLockState d) h lk)
         \<and> (\<forall>x \<in> set (conflictCandidates (loadLockState d) h lk). \<not> earlier x c))"
proof (cases "foldl betterConflict None (conflictCandidates (loadLockState d) h lk)")
  case None
  then have "\<not> lockBlocked (loadLockState d) h lk"
    by (simp add: lockBlocked_candidates foldl_better_None)
  then show ?thesis
    using assms None trySetLock_blocked_iff [OF assms(3,4,2)] by (simp add: Getlk_def Setlk_def)
next
  case (Some c)
  note c = foldl_better_result [OF Some]
  then have "lk_type c \<noteq> F_UNLCK" by (auto simp: conflictCandidates_iff locksConflict_def split: if_splits)
  moreover have "lockBlocked (loadLockState d) h lk" using c by (auto simp: lockBlocked_candidates)
  ultimately show ?thesis
    using assms Some c trySetLock_blocked_iff [OF assms(3,4,2)] by (simp add: Getlk_def Setlk_def)
qed

theorem Getlk_agrees_witness:
  "Setlk \<lparr>ld_fsKey = ''w'', ld_inodeType = Some ''file'',
        ld_locks = [(''a'', [\<lparr>lk_start = 0, lk_end = 9, lk_type = F_RDLCK, lk_pid = 1\<rparr>])], ld_alive = []\<rparr>
      ''b'' \<lparr>lk_start = 9, lk_end = 20, lk_type = F_WRLCK, lk_pid = 2\<rparr> = Inl ErrLockWouldBlock"
proof -
  define d where "d = \<lparr>ld_fsKey = ''w'', ld_inodeType = Some ''file'',
    ld_locks = [(''a'', [\<lparr>lk_start = (0::u64), lk_end = 9, lk_type = F_RDLCK, lk_pid = 1\<rparr>])], ld_alive = []\<rparr>"
  define lk where "lk = \<lparr>lk_start = (9::u64), lk_end = 20, lk_type = F_WRLCK, lk_pid = 2\<rparr>"
  have h: "validateFileLock lk = None" "lk_type lk \<noteq> F_UNLCK" "''b'' \<noteq> []" "ld_inodeType d = Some ''file''"
    by (simp_all add: validateFileLock_def lk_def d_def)
  have g: "Getlk d ''b'' lk = Inr \<lparr>lk_start = 0, lk_end = 9, lk_type = F_RDLCK, lk_pid = 1\<rparr>"
    using h(1) by (simp add: Getlk_def d_def lk_def loadLockState_def pruneExpiredLocks_def
        decodeLockState_def expiredOwner_def cutBar_def conflictCandidates_def locksConflict_def
        lockRangesOverlap_def normalizeFileLocks_def normStep_def betterConflict_def)
  show ?thesis using Getlk_agrees [OF h] g by (simp add: d_def lk_def)
qed

text \<open>
  a write lock granted to a live owner makes every overlapping request of another live owner
  fail, whatever its type, until the first owner's lock changes.
\<close>

theorem write_lock_excludes:
  assumes "lock_reachable d" "h \<noteq> k" "\<not> expiredOwner d h" "\<not> expiredOwner d k"
    and "lk_type lk = F_WRLCK" "lk_type lk2 \<noteq> F_UNLCK" "covers lk b" "covers lk2 b"
    and "validateFileLock lk2 = None" "Setlk d h lk = Inr d1"
  shows "\<exists>e. Setlk d1 k lk2 = Inl e"
proof -
  note s = Setlk_InrD [OF assms(10)]
  have "\<exists>e. trySetLock d1 k lk2 = Inl e"
    by (rule lock_table.write_excludes [OF lock_reachable_inv [OF assms(1)] assms(2) s [THEN conjunct1]
          assms(9,3,4,5,6,7,8) s [THEN conjunct2]])
  then show ?thesis using assms(9) by (simp add: Setlk_def)
qed

theorem write_lock_excludes_witness:
  "\<exists>d1 e. Setlk \<lparr>ld_fsKey = ''w'', ld_inodeType = Some ''file'', ld_locks = [], ld_alive = []\<rparr>
      ''a'' \<lparr>lk_start = 4, lk_end = 9, lk_type = F_WRLCK, lk_pid = 1\<rparr> = Inr d1
    \<and> Setlk d1 ''b'' \<lparr>lk_start = 0, lk_end = 4, lk_type = F_RDLCK, lk_pid = 1\<rparr> = Inl e"
proof -
  define d0 where "d0 = \<lparr>ld_fsKey = ''w'', ld_inodeType = Some ''file'', ld_locks = [], ld_alive = []\<rparr>"
  define lk where "lk = \<lparr>lk_start = (4::u64), lk_end = 9, lk_type = F_WRLCK, lk_pid = 1\<rparr>"
  define lk2 where "lk2 = \<lparr>lk_start = (0::u64), lk_end = 4, lk_type = F_RDLCK, lk_pid = 1\<rparr>"
  have s: "Setlk d0 ''a'' lk = Inr (d0\<lparr>ld_locks := [(''a'', [lk])]\<rparr>)"
    by (simp add: Setlk_def trySetLock_def d0_def lk_def validateFileLock_def pruneExpiredLocks_def
        decodeLockState_def lockBlocked_def applyFileLock_def normalizeFileLocks_def normStep_def
        encodeFileLocks_def)
  have "\<exists>e. Setlk (d0\<lparr>ld_locks := [(''a'', [lk])]\<rparr>) ''b'' lk2 = Inl e"
    by (rule write_lock_excludes [OF _ _ _ _ _ _ _ _ _ s, where b = 4])
      (simp_all add: d0_def lk_def lk2_def expiredOwner_def cutBar_def covers_def
        validateFileLock_def lock_reachable.start)
  then show ?thesis using s unfolding d0_def lk_def lk2_def by blast
qed

end
