(* ===== verification/SyncState.thy ===== *)
theory SyncState
  imports Prelude "HOL-Library.AList"
begin

text \<open>
  The data of the sync daemon (\<open>cmd/afs\<close>): the persisted per-path record and its debounced
  writer (\<open>sync_state.go\<close>), the queues and work items of the reconciler
  (\<open>sync_event_reconciler.go\<close>, \<open>sync_uploader.go\<close>, \<open>sync_downloader.go\<close>), echo
  suppression, rename candidates and pending uploads (\<open>sync_recovery_plan.go\<close>).

  Paths are workspace-relative, with \<open>/\<close> between components; an absolute local path of the
  code is the local root joined with such a path, so the local file system is observed by
  relative path.  Times are integers; a version counter is a 64-bit word and wraps like Go's.
\<close>

subsection \<open>Local file system observations\<close>

datatype node_kind = IRegular | ISymlink | IDir | IOther

text \<open>What \<open>os.Lstat\<close> tells; \<open>fi_mtimeNs\<close> is the modification time in nanoseconds.\<close>

record file_info =
  fi_kind :: node_kind
  fi_perm :: u32
  fi_size :: int
  fi_mtimeNs :: int
  fi_ident :: string

definition unixMilli :: "int \<Rightarrow> int" where
  "unixMilli ns = ns div 1000000"

text \<open>The local tree as one handler sees it: the results its calls would return.\<close>

record local_env =
  le_lstat :: "path \<Rightarrow> file_info os_result"
  le_readFile :: "path \<Rightarrow> bytes os_result"
  le_readlink :: "path \<Rightarrow> string os_result"

subsection \<open>Remote observations\<close>

record stat_result =
  st_revision :: string
  st_inode :: u64
  st_type :: string
  st_mode :: u32
  st_size :: int
  st_mtime :: int

record observed_meta =
  om_revision :: string
  om_inode :: u64
  om_kind :: string
  om_mode :: u32
  om_size :: int
  om_mtimeMs :: int
  om_mtimeNs :: int
  om_target :: string

subsection \<open>The persisted state\<close>

record sync_entry =
  se_type :: string
  se_mode :: u32
  se_size :: int
  se_localHash :: string
  se_localIdentity :: string
  se_localMtimeMs :: int
  se_remoteRevision :: string
  se_remoteInode :: u64
  se_remoteHash :: string
  se_remoteMtimeMs :: int
  se_target :: string
  se_lastSyncedAt :: int
  se_chunkSize :: int
  se_chunkHashes :: "string list"
  se_version :: u64
  se_deleted :: bool

text \<open>Go's zero value of the struct.\<close>

definition zeroEntry :: sync_entry where
  "zeroEntry = \<lparr>se_type = [], se_mode = 0, se_size = 0, se_localHash = [], se_localIdentity = [],
     se_localMtimeMs = 0, se_remoteRevision = [], se_remoteInode = 0, se_remoteHash = [],
     se_remoteMtimeMs = 0, se_target = [], se_lastSyncedAt = 0, se_chunkSize = 0,
     se_chunkHashes = [], se_version = 0, se_deleted = False\<rparr>"

record sync_state =
  ss_version :: int
  ss_workspace :: string
  ss_localPath :: string
  ss_lastStreamID :: string
  ss_entries :: "path \<Rightarrow> sync_entry option"
  ss_updatedAt :: int
  ss_nextVersion :: u64

definition syncStateVersion :: int where
  "syncStateVersion = 4"

definition newSyncState :: "string \<Rightarrow> string \<Rightarrow> sync_state" where
  "newSyncState workspace localPath =
     \<lparr>ss_version = syncStateVersion, ss_workspace = workspace, ss_localPath = localPath,
      ss_lastStreamID = [], ss_entries = Map.empty, ss_updatedAt = 0, ss_nextVersion = 0\<rparr>"

text \<open>\<open>keys\<close> lists the entries in the order the map is visited.\<close>

definition syncStateEntryCounts :: "sync_state \<Rightarrow> path list \<Rightarrow> nat \<times> nat" where
  "syncStateEntryCounts st keys =
     foldl (\<lambda>(live, deleted) p. case ss_entries st p of
              None \<Rightarrow> (live, deleted)
            | Some e \<Rightarrow> if se_deleted e then (live, Suc deleted) else (Suc live, deleted))
       (0, 0) keys"

subsection \<open>The debounced writer\<close>

text \<open>
  \<open>sw_flush\<close> is the one-slot channel \<open>flushCh\<close>; \<open>sw_disk\<close> is the content of the
  state file, if there is one.
\<close>

record state_writer =
  sw_state :: sync_state
  sw_dirty :: bool
  sw_flush :: bool
  sw_disk :: "sync_state option"

definition newStateWriter :: "sync_state \<Rightarrow> sync_state option \<Rightarrow> state_writer" where
  "newStateWriter st disk = \<lparr>sw_state = st, sw_dirty = False, sw_flush = False, sw_disk = disk\<rparr>"

definition nextVersion :: "state_writer \<Rightarrow> u64 \<times> state_writer" where
  "nextVersion w = (ss_nextVersion (sw_state w),
     w\<lparr>sw_state := (sw_state w)\<lparr>ss_nextVersion := ss_nextVersion (sw_state w) + 1\<rparr>\<rparr>)"

definition markDirty :: "state_writer \<Rightarrow> state_writer" where
  "markDirty w = w\<lparr>sw_dirty := True, sw_flush := True\<rparr>"

text \<open>
  \<open>saveSyncState\<close> writes a temporary file and renames it, so the state file changes all at
  once or, when a call fails, not at all.
\<close>

definition saveSyncState :: "int \<Rightarrow> bool \<Rightarrow> sync_state \<Rightarrow> sync_state option \<Rightarrow> sync_state option" where
  "saveSyncState now ok st disk = (if ok then Some (st\<lparr>ss_updatedAt := now\<rparr>) else disk)"

definition flushNow :: "int \<Rightarrow> bool \<Rightarrow> state_writer \<Rightarrow> state_writer" where
  "flushNow now ok w =
     (if \<not> sw_dirty w then w
      else w\<lparr>sw_dirty := False, sw_disk := saveSyncState now ok (sw_state w) (sw_disk w)\<rparr>)"

definition updateStreamID :: "string \<Rightarrow> state_writer \<Rightarrow> state_writer" where
  "updateStreamID sid w = markDirty (w\<lparr>sw_state := (sw_state w)\<lparr>ss_lastStreamID := sid\<rparr>, sw_dirty := True\<rparr>)"

definition lastStreamID :: "state_writer \<Rightarrow> string" where
  "lastStreamID w = ss_lastStreamID (sw_state w)"

text \<open>
  \<open>loadSyncState\<close> on the decoded file: a missing map and a missing workspace name are filled in.
\<close>

definition loadSyncState :: "string \<Rightarrow> sync_state option \<Rightarrow> sync_state os_result" where
  "loadSyncState workspace disk =
     (case disk of
        None \<Rightarrow> OsNotExist
      | Some st \<Rightarrow> OsOk (if ss_workspace st = [] then st\<lparr>ss_workspace := workspace\<rparr> else st))"

text \<open>\<open>run\<close>: the events of the writer goroutine.\<close>

datatype writer_event = WMark | WTimer int bool | WStop int bool

definition writerStep :: "state_writer \<Rightarrow> writer_event \<Rightarrow> state_writer" where
  "writerStep w ev =
     (case ev of
        WMark \<Rightarrow> markDirty w
      | WTimer now ok \<Rightarrow> if sw_flush w then flushNow now ok (w\<lparr>sw_flush := False\<rparr>) else w
      | WStop now ok \<Rightarrow> flushNow now ok w)"

subsection \<open>Work items\<close>

datatype upload_kind = OpUploadFile | OpUploadSymlink | OpUploadMkdir | OpUploadDelete
  | OpUploadChmod | OpUploadRename

record upload_op =
  uo_kind :: upload_kind
  uo_path :: path
  uo_prevPath :: path
  uo_content :: bytes
  uo_mode :: u32
  uo_symlink :: string
  uo_localHash :: string
  uo_localIdentity :: string
  uo_localMtimeMs :: int
  uo_stored :: sync_entry
  uo_hasStored :: bool
  uo_tracked :: bool
  uo_renameVersion :: u64
  uo_chunked :: bool
  uo_fileSize :: int
  uo_chunkSize :: int
  uo_chunkHashes :: "string list"
  uo_dirtyChunks :: "nat list"

definition zeroUploadOp :: upload_op where
  "zeroUploadOp = \<lparr>uo_kind = OpUploadFile, uo_path = [], uo_prevPath = [], uo_content = [],
     uo_mode = 0, uo_symlink = [], uo_localHash = [], uo_localIdentity = [], uo_localMtimeMs = 0,
     uo_stored = zeroEntry, uo_hasStored = False, uo_tracked = False, uo_renameVersion = 0,
     uo_chunked = False, uo_fileSize = 0, uo_chunkSize = 0, uo_chunkHashes = [], uo_dirtyChunks = []\<rparr>"

record upload_result =
  ur_op :: upload_op
  ur_err :: "string option"
  ur_conflict :: bool
  ur_skipped :: bool
  ur_remoteHashSeen :: string
  ur_remoteStat :: "stat_result option"

datatype download_kind = OpDownloadFile | OpDownloadSymlink | OpDownloadMkdir | OpDownloadDelete
  | OpDownloadChmod

record download_op =
  do_kind :: download_kind
  do_path :: path
  do_mode :: u32
  do_symlink :: string
  do_stored :: sync_entry
  do_hasStored :: bool
  do_conflict :: bool
  do_chunked :: bool
  do_fileSize :: int
  do_chunkSize :: int
  do_chunkHashes :: "string list"
  do_dirtyChunks :: "nat list"

definition zeroDownloadOp :: download_op where
  "zeroDownloadOp = \<lparr>do_kind = OpDownloadFile, do_path = [], do_mode = 0, do_symlink = [],
     do_stored = zeroEntry, do_hasStored = False, do_conflict = False, do_chunked = False,
     do_fileSize = 0, do_chunkSize = 0, do_chunkHashes = [], do_dirtyChunks = []\<rparr>"

record download_result =
  dr_op :: download_op
  dr_err :: "string option"
  dr_skipped :: bool
  dr_remoteHash :: string
  dr_remoteStat :: "stat_result option"
  dr_conflictPath :: string
  dr_mode :: u32
  dr_size :: int
  dr_mtimeMs :: int
  dr_localMtimeMs :: int
  dr_target :: string

subsection \<open>Echo suppression\<close>

datatype echo_expectation = EchoFile string | EchoSymlink string | EchoDir | EchoDelete

type_synonym echo_map = "path \<Rightarrow> echo_expectation option"

definition markEcho :: "path \<Rightarrow> echo_expectation \<Rightarrow> echo_map \<Rightarrow> echo_map" where
  "markEcho rel e m = m(rel \<mapsto> e)"

definition consumeEcho :: "path \<Rightarrow> echo_map \<Rightarrow> echo_expectation option \<times> echo_map" where
  "consumeEcho rel m = (m rel, m(rel := None))"

subsection \<open>The reconciler\<close>

record rename_candidate =
  rn_path :: path
  rn_entry :: sync_entry
  rn_recordedAt :: int

record pending_upload =
  pu_count :: int
  pu_rescan :: bool

text \<open>Effects on the two trees, in the order they are issued.\<close>

datatype effect =
    LMkdirAll path | LChmod path u32 | LWriteFile path bytes u32 | LMoveToConflict path
  | LRemove path | LRemoveAll path | LSymlink path string
  | RMkdir path | RChmod path u32 | REcho path bytes u32 | RRm path | RLn path string

text \<open>
  The fields of the reconciler that its handlers read or write.  \<open>rc_sweep\<close> and
  \<open>rc_rootReplace\<close> are the one-slot request channels, \<open>rc_uploads\<close> and \<open>rc_downloads\<close>
  the work queues, \<open>rc_delayed\<close> the deletes that wait 150 ms with the rename candidate key and
  path they re-check, \<open>rc_renames\<close> the candidates in the order the map is visited.
\<close>

record reconciler =
  rc_writer :: state_writer
  rc_echo :: echo_map
  rc_uploads :: "upload_op list"
  rc_downloads :: "download_op list"
  rc_delayed :: "(upload_op \<times> string \<times> path) list"
  rc_sweep :: bool
  rc_rootReplace :: bool
  rc_pending :: "path \<Rightarrow> pending_upload option"
  rc_renames :: "(string \<times> rename_candidate) list"
  rc_suppress :: bool
  rc_stopped :: bool
  rc_readonly :: bool
  rc_maxFileBytes :: int
  rc_chunkSize :: int
  rc_chunkThreshold :: int
  rc_effects :: "effect list"

abbreviation entries :: "reconciler \<Rightarrow> path \<Rightarrow> sync_entry option" where
  "entries r \<equiv> ss_entries (sw_state (rc_writer r))"

definition defaultChunkSize :: int where
  "defaultChunkSize = 256 * 1024"

definition defaultChunkThreshold :: int where
  "defaultChunkThreshold = 1024 * 1024"

definition newReconciler :: "state_writer \<Rightarrow> int \<Rightarrow> bool \<Rightarrow> int \<Rightarrow> int \<Rightarrow> reconciler" where
  "newReconciler w maxFileBytes readonly chunkSize chunkThreshold =
     \<lparr>rc_writer = w, rc_echo = Map.empty, rc_uploads = [], rc_downloads = [], rc_delayed = [],
      rc_sweep = False, rc_rootReplace = False, rc_pending = Map.empty, rc_renames = [],
      rc_suppress = False, rc_stopped = False, rc_readonly = readonly, rc_maxFileBytes = maxFileBytes,
      rc_chunkSize = (if chunkSize \<le> 0 then defaultChunkSize else chunkSize),
      rc_chunkThreshold = (if chunkThreshold \<le> 0 then defaultChunkThreshold else chunkThreshold),
      rc_effects = []\<rparr>"

text \<open>A daemon that starts with given entries, for the examples of the other theories.\<close>

definition startWith :: "(path \<Rightarrow> sync_entry option) \<Rightarrow> reconciler" where
  "startWith es =
     newReconciler (newStateWriter ((newSyncState ''ws'' ''/w'')\<lparr>ss_entries := es, ss_nextVersion := 9\<rparr>) None)
       1000000 False 0 0"

definition requestFullSweep :: "reconciler \<Rightarrow> reconciler" where
  "requestFullSweep r = r\<lparr>rc_sweep := True\<rparr>"

definition requestRootReplace :: "reconciler \<Rightarrow> reconciler" where
  "requestRootReplace r = r\<lparr>rc_rootReplace := True\<rparr>"

definition markDirtyR :: "reconciler \<Rightarrow> reconciler" where
  "markDirtyR r = r\<lparr>rc_writer := markDirty (rc_writer r)\<rparr>"

text \<open>
  The two assignments every handler makes under \<open>state.mu\<close>: store an entry under the next
  version, and store it with the version it has.  Both set the dirty flag.
\<close>

definition putEntry :: "path \<Rightarrow> sync_entry \<Rightarrow> reconciler \<Rightarrow> reconciler" where
  "putEntry p e r =
     (let (v, w) = nextVersion (rc_writer r) in
      r\<lparr>rc_writer := w\<lparr>sw_state := (sw_state w)\<lparr>ss_entries := (ss_entries (sw_state w))(p \<mapsto> e\<lparr>se_version := v\<rparr>)\<rparr>,
                       sw_dirty := True\<rparr>\<rparr>)"

definition setEntry :: "path \<Rightarrow> sync_entry option \<Rightarrow> reconciler \<Rightarrow> reconciler" where
  "setEntry p e r =
     r\<lparr>rc_writer := (rc_writer r)\<lparr>sw_state := (sw_state (rc_writer r))\<lparr>ss_entries := (entries r)(p := e)\<rparr>,
                                  sw_dirty := True\<rparr>\<rparr>"

subsection \<open>Queues and pending uploads\<close>

definition queueUpload :: "upload_op \<Rightarrow> reconciler \<Rightarrow> reconciler" where
  "queueUpload op r = (if rc_stopped r then r else r\<lparr>rc_uploads := rc_uploads r @ [op]\<rparr>)"

definition queueDownload :: "download_op \<Rightarrow> reconciler \<Rightarrow> reconciler" where
  "queueDownload op r = (if rc_stopped r then r else r\<lparr>rc_downloads := rc_downloads r @ [op]\<rparr>)"

definition pendingOr :: "(path \<Rightarrow> pending_upload option) \<Rightarrow> path \<Rightarrow> pending_upload" where
  "pendingOr m p = (case m p of None \<Rightarrow> \<lparr>pu_count = 0, pu_rescan = False\<rparr> | Some q \<Rightarrow> q)"

definition bumpPending :: "path \<Rightarrow> (path \<Rightarrow> pending_upload option) \<Rightarrow> path \<Rightarrow> pending_upload option" where
  "bumpPending p m = m(p \<mapsto> (pendingOr m p)\<lparr>pu_count := pu_count (pendingOr m p) + 1\<rparr>)"

definition enqueueTrackedUpload :: "upload_op \<Rightarrow> reconciler \<Rightarrow> reconciler" where
  "enqueueTrackedUpload op r =
     (let m1 = bumpPending (uo_path op) (rc_pending r);
          m2 = (if uo_kind op = OpUploadRename \<and> uo_prevPath op \<noteq> [] then bumpPending (uo_prevPath op) m1 else m1)
      in queueUpload (op\<lparr>uo_tracked := True\<rparr>) (r\<lparr>rc_pending := m2\<rparr>))"

definition deferScanForPendingUpload :: "path \<Rightarrow> reconciler \<Rightarrow> bool \<times> reconciler" where
  "deferScanForPendingUpload p r =
     (case rc_pending r p of
        None \<Rightarrow> (False, r)
      | Some q \<Rightarrow> (True, r\<lparr>rc_pending := (rc_pending r)(p \<mapsto> q\<lparr>pu_rescan := True\<rparr>)\<rparr>))"

definition finishPendingUpload :: "path \<Rightarrow> reconciler \<Rightarrow> reconciler" where
  "finishPendingUpload p r =
     (case rc_pending r p of
        None \<Rightarrow> r
      | Some q \<Rightarrow>
          let q' = q\<lparr>pu_count := pu_count q - 1\<rparr>;
              r' = r\<lparr>rc_pending := (rc_pending r)(p := (if pu_count q' = 0 then None else Some q'))\<rparr>
          in if pu_count q' = 0 \<and> pu_rescan q' then requestFullSweep r' else r')"

subsection \<open>Frame lemmas of the state updates\<close>

lemma requestFullSweep_frame [simp]:
  "rc_writer (requestFullSweep r) = rc_writer r" "rc_pending (requestFullSweep r) = rc_pending r"
  "rc_effects (requestFullSweep r) = rc_effects r" "rc_uploads (requestFullSweep r) = rc_uploads r"
  "rc_downloads (requestFullSweep r) = rc_downloads r" "rc_delayed (requestFullSweep r) = rc_delayed r"
  "rc_renames (requestFullSweep r) = rc_renames r" "rc_stopped (requestFullSweep r) = rc_stopped r"
  "rc_readonly (requestFullSweep r) = rc_readonly r" "rc_echo (requestFullSweep r) = rc_echo r"
  "rc_sweep (requestFullSweep r)"
  by (simp_all add: requestFullSweep_def)

lemma entries_putEntry [simp]:
  "entries (putEntry p e r) = (entries r)(p \<mapsto> e\<lparr>se_version := ss_nextVersion (sw_state (rc_writer r))\<rparr>)"
  by (simp add: putEntry_def nextVersion_def)

lemma nextVersion_putEntry [simp]:
  "ss_nextVersion (sw_state (rc_writer (putEntry p e r))) = ss_nextVersion (sw_state (rc_writer r)) + 1"
  by (simp add: putEntry_def nextVersion_def)

lemma putEntry_frame [simp]:
  "rc_pending (putEntry p e r) = rc_pending r" "rc_effects (putEntry p e r) = rc_effects r"
  "rc_uploads (putEntry p e r) = rc_uploads r" "rc_downloads (putEntry p e r) = rc_downloads r"
  "rc_delayed (putEntry p e r) = rc_delayed r" "rc_renames (putEntry p e r) = rc_renames r"
  "rc_stopped (putEntry p e r) = rc_stopped r" "rc_readonly (putEntry p e r) = rc_readonly r"
  "rc_sweep (putEntry p e r) = rc_sweep r" "rc_echo (putEntry p e r) = rc_echo r"
  "sw_dirty (rc_writer (putEntry p e r))"
  by (simp_all add: putEntry_def nextVersion_def)

lemma entries_setEntry [simp]: "entries (setEntry p e r) = (entries r)(p := e)"
  by (simp add: setEntry_def)

lemma setEntry_frame [simp]:
  "rc_pending (setEntry p e r) = rc_pending r" "rc_effects (setEntry p e r) = rc_effects r"
  "rc_uploads (setEntry p e r) = rc_uploads r" "rc_downloads (setEntry p e r) = rc_downloads r"
  "rc_delayed (setEntry p e r) = rc_delayed r" "rc_renames (setEntry p e r) = rc_renames r"
  "rc_stopped (setEntry p e r) = rc_stopped r" "rc_readonly (setEntry p e r) = rc_readonly r"
  "rc_sweep (setEntry p e r) = rc_sweep r" "rc_echo (setEntry p e r) = rc_echo r"
  "sw_dirty (rc_writer (setEntry p e r))"
  "ss_nextVersion (sw_state (rc_writer (setEntry p e r))) = ss_nextVersion (sw_state (rc_writer r))"
  by (simp_all add: setEntry_def)

lemma markDirty_state [simp]: "sw_state (markDirty w) = sw_state w" "sw_dirty (markDirty w)"
  by (simp_all add: markDirty_def)

lemma markDirtyR_frame [simp]:
  "sw_state (rc_writer (markDirtyR r)) = sw_state (rc_writer r)"
  "rc_pending (markDirtyR r) = rc_pending r" "rc_effects (markDirtyR r) = rc_effects r"
  "rc_uploads (markDirtyR r) = rc_uploads r" "rc_downloads (markDirtyR r) = rc_downloads r"
  "rc_delayed (markDirtyR r) = rc_delayed r" "rc_renames (markDirtyR r) = rc_renames r"
  "rc_stopped (markDirtyR r) = rc_stopped r" "rc_readonly (markDirtyR r) = rc_readonly r"
  "rc_sweep (markDirtyR r) = rc_sweep r" "rc_echo (markDirtyR r) = rc_echo r"
  "sw_dirty (rc_writer (markDirtyR r))"
  by (simp_all add: markDirtyR_def)

lemma queue_frame [simp]:
  "rc_writer (queueUpload op r) = rc_writer r" "rc_writer (queueDownload dop r) = rc_writer r"
  "rc_pending (queueUpload op r) = rc_pending r" "rc_pending (queueDownload dop r) = rc_pending r"
  "rc_effects (queueUpload op r) = rc_effects r" "rc_effects (queueDownload dop r) = rc_effects r"
  "rc_renames (queueUpload op r) = rc_renames r" "rc_renames (queueDownload dop r) = rc_renames r"
  "rc_downloads (queueUpload op r) = rc_downloads r" "rc_uploads (queueDownload dop r) = rc_uploads r"
  "rc_delayed (queueUpload op r) = rc_delayed r" "rc_delayed (queueDownload dop r) = rc_delayed r"
  "rc_stopped (queueUpload op r) = rc_stopped r" "rc_stopped (queueDownload dop r) = rc_stopped r"
  by (simp_all add: queueUpload_def queueDownload_def)

lemma enqueueTrackedUpload_frame [simp]:
  "rc_writer (enqueueTrackedUpload op r) = rc_writer r"
  "rc_effects (enqueueTrackedUpload op r) = rc_effects r"
  "rc_renames (enqueueTrackedUpload op r) = rc_renames r"
  "rc_downloads (enqueueTrackedUpload op r) = rc_downloads r"
  "rc_delayed (enqueueTrackedUpload op r) = rc_delayed r"
  "rc_stopped (enqueueTrackedUpload op r) = rc_stopped r"
  by (simp_all add: enqueueTrackedUpload_def Let_def)

lemma deferScan_frame [simp]:
  "rc_writer (snd (deferScanForPendingUpload p r)) = rc_writer r"
  "rc_effects (snd (deferScanForPendingUpload p r)) = rc_effects r"
  "rc_readonly (snd (deferScanForPendingUpload p r)) = rc_readonly r"
  "(rc_pending (snd (deferScanForPendingUpload p r)) q = None) = (rc_pending r q = None)"
  by (auto simp: deferScanForPendingUpload_def split: option.splits)

lemma deferScan_iff: "fst (deferScanForPendingUpload p r) \<longleftrightarrow> rc_pending r p \<noteq> None"
  by (auto simp: deferScanForPendingUpload_def split: option.splits)

lemma finishPendingUpload_frame [simp]:
  "rc_writer (finishPendingUpload p r) = rc_writer r"
  "rc_effects (finishPendingUpload p r) = rc_effects r"
  "rc_renames (finishPendingUpload p r) = rc_renames r"
  "rc_uploads (finishPendingUpload p r) = rc_uploads r"
  "rc_downloads (finishPendingUpload p r) = rc_downloads r"
  by (auto simp: finishPendingUpload_def Let_def split: option.splits)

subsection \<open>Version numbers\<close>

text \<open>
  Versions identify an entry: the counter is above every stored version, so the version an entry
  is stored under was never used before (the counter does not wrap in fewer than \<open>2 ^ 64\<close> steps).
\<close>

definition versionsFresh :: "reconciler \<Rightarrow> bool" where
  "versionsFresh r \<longleftrightarrow>
     (\<forall>p e. entries r p = Some e \<longrightarrow> se_version e < ss_nextVersion (sw_state (rc_writer r)))"

definition versionRoom :: "nat \<Rightarrow> reconciler \<Rightarrow> bool" where
  "versionRoom n r \<longleftrightarrow> unat (ss_nextVersion (sw_state (rc_writer r))) + n < 2 ^ 64"

lemma unat_succ: "unat v + 1 < 2 ^ 64 \<Longrightarrow> unat (v + 1) = unat v + 1" for v :: u64
  using unat_add_lem [of v 1] by simp

abbreviation nextV :: "reconciler \<Rightarrow> u64" where
  "nextV r \<equiv> ss_nextVersion (sw_state (rc_writer r))"

text \<open>
  \<open>vstep n r r'\<close>: with room for \<open>n\<close> versions, the step keeps versions fresh and uses at most
  \<open>n\<close> of them.  Steps compose by adding their budgets.
\<close>

definition vstep :: "nat \<Rightarrow> reconciler \<Rightarrow> reconciler \<Rightarrow> bool" where
  "vstep n r r' \<longleftrightarrow> (versionRoom n r \<longrightarrow> versionsFresh r \<longrightarrow>
     versionsFresh r' \<and> unat (nextV r) \<le> unat (nextV r') \<and> unat (nextV r') \<le> unat (nextV r) + n)"

named_theorems vsteps \<open>version budgets of the operations\<close>

lemma vstep_writer [vsteps]: "sw_state (rc_writer r') = sw_state (rc_writer r) \<Longrightarrow> vstep n r r'"
  by (simp add: vstep_def versionsFresh_def)

lemma vstep_trans: "vstep m r r1 \<Longrightarrow> vstep n r1 r2 \<Longrightarrow> vstep (m + n) r r2"
  by (simp add: vstep_def versionRoom_def) linarith

lemma vstep_mono: "vstep m r r' \<Longrightarrow> m \<le> n \<Longrightarrow> vstep n r r'"
  by (auto simp: vstep_def versionRoom_def)

lemma vstep_putEntry [vsteps]: "vstep 1 r (putEntry p e r)"
proof -
  { assume "versionRoom 1 r" and fresh: "versionsFresh r"
    then have n: "unat (nextV r + 1) = unat (nextV r) + 1"
      by (intro unat_succ) (simp add: versionRoom_def)
    then have "v < nextV r + 1" if "v < nextV r" for v
      using that by (simp add: word_less_nat_alt)
    with fresh n have "versionsFresh (putEntry p e r)"
      by (auto simp: versionsFresh_def word_less_nat_alt intro: less_SucI)
    with n have "?thesis" by (simp add: vstep_def) }
  then show ?thesis by (auto simp: vstep_def)
qed

lemma vstep_dropEntry [vsteps]: "vstep n r (setEntry p None r)"
  by (auto simp: vstep_def versionsFresh_def)

lemma vstep_setEntry [vsteps]:
  "entries r p = Some e0 \<Longrightarrow> se_version e = se_version e0 \<Longrightarrow> vstep n r (setEntry p (Some e) r)"
  by (auto simp: vstep_def versionsFresh_def)

lemma vstep_fold:
  assumes "\<And>x r. vstep 1 r (f x r)"
  shows "vstep (length xs) r (fold f xs r)"
proof (induction xs arbitrary: r)
  case (Cons x xs)
  show ?case using vstep_trans [OF assms [where x = x] Cons] by simp
qed (simp add: vstep_def)

subsection \<open>Loops over the entries\<close>

text \<open>A loop whose body for \<open>p\<close> changes the entry of \<open>p\<close> only.\<close>

lemma fold_entries_other:
  assumes "\<And>p r q. q \<noteq> p \<Longrightarrow> entries (f p r) q = entries r q" and "q \<notin> set ps"
  shows "entries (fold f ps r) q = entries r q"
  using assms(2) by (induction ps arbitrary: r) (auto simp: assms(1))

lemma fold_entries_key:
  assumes f: "\<And>p r q. q \<noteq> p \<Longrightarrow> entries (f p r) q = entries r q" and "distinct ps" and "q \<in> set ps"
  obtains r1 where "entries r1 q = entries r q" "entries (fold f ps r) q = entries (f q r1) q"
proof -
  from \<open>q \<in> set ps\<close> obtain as bs where ps: "ps = as @ q # bs" by (auto simp: in_set_conv_decomp)
  with \<open>distinct ps\<close> have "q \<notin> set as" "q \<notin> set bs" by auto
  then have "entries (fold f as r) q = entries r q"
    "entries (fold f ps r) q = entries (f q (fold f as r)) q"
    by (simp_all add: ps fold_entries_other f)
  then show thesis by (rule that)
qed

subsection \<open>The example state\<close>

lemma startWith_simps [simp]:
  "entries (startWith es) = es" "nextV (startWith es) = 9" "rc_pending (startWith es) = Map.empty"
  "rc_effects (startWith es) = []" "rc_uploads (startWith es) = []" "rc_delayed (startWith es) = []"
  "rc_stopped (startWith es) = False" "rc_readonly (startWith es) = False" "rc_suppress (startWith es) = False"
  "rc_maxFileBytes (startWith es) = 1000000" "rc_chunkThreshold (startWith es) = 1048576"
  "rc_echo (startWith es) = Map.empty" "rc_renames (startWith es) = []"
  by (simp_all add: startWith_def newReconciler_def newStateWriter_def newSyncState_def defaultChunkThreshold_def)

end
