(* ===== verification/SyncChunks.thy ===== *)
theory SyncChunks
  imports SyncState
begin

text \<open>
  Chunk manifests and delta transfer: \<open>cmd/afs/sync_chunk.go\<close>, the assembly of the candidate of a
  chunked upload (\<open>processChunkedFile\<close> of \<open>sync_uploader.go\<close>), the patch of a chunked download
  (\<open>processChunkedFile\<close> of \<open>sync_downloader.go\<close>), and the small string helpers of the two workers.

  \<open>h\<close> stands for \<open>sha256Hex\<close>; nothing is assumed of it except where a theorem says that it has no
  collision among the chunks at hand.  The chunks a Go map holds are given as a list of pairs, in
  the order the map is visited.
\<close>

subsection \<open>Chunk manifests\<close>

definition effectiveChunkSize :: "int \<Rightarrow> nat" where
  "effectiveChunkSize cs = nat (if cs \<le> 0 then defaultChunkSize else cs)"

text \<open>The pieces the read loop hands to the hash: full buffers, and a shorter last one.\<close>

function chunksOf :: "nat \<Rightarrow> bytes \<Rightarrow> bytes list" where
  "chunksOf n data = (if data = [] \<or> n = 0 then [] else take n data # chunksOf n (drop n data))"
  by pat_completeness auto
termination
  by (relation "measure (length \<circ> snd)") auto

declare chunksOf.simps [simp del]

definition streamChunkHashes :: "(bytes \<Rightarrow> string) \<Rightarrow> bytes os_result \<Rightarrow> int \<Rightarrow> (string list \<times> int) os_result" where
  "streamChunkHashes h file cs =
     (case file of
        OsOk data \<Rightarrow> OsOk (map h (chunksOf (effectiveChunkSize cs) data), int (length data))
      | OsNotExist \<Rightarrow> OsNotExist
      | OsError e \<Rightarrow> OsError e)"

definition uploadChunkHashes :: "(bytes \<Rightarrow> string) \<Rightarrow> bytes \<Rightarrow> int \<Rightarrow> string list" where
  "uploadChunkHashes h data cs = map h (chunksOf (effectiveChunkSize cs) data)"

definition diffChunkManifests :: "string list \<Rightarrow> string list \<Rightarrow> nat list \<times> bool" where
  "diffChunkManifests old new =
     (filter (\<lambda>i. length old \<le> i \<or> old ! i \<noteq> new ! i) [0..<length new], length new < length old)"

definition readChunkFromDisk :: "bytes os_result \<Rightarrow> nat \<Rightarrow> int \<Rightarrow> bytes os_result" where
  "readChunkFromDisk file i cs =
     (case file of
        OsOk data \<Rightarrow> OsOk (take (effectiveChunkSize cs) (drop (i * effectiveChunkSize cs) data))
      | OsNotExist \<Rightarrow> OsNotExist
      | OsError e \<Rightarrow> OsError e)"

definition compositeHash :: "(bytes \<Rightarrow> string) \<Rightarrow> string list \<Rightarrow> string" where
  "compositeHash h hs = (if hs = [] then h [] else h (joinStr '','' hs))"

subsection \<open>Assembling a file from a base and changed chunks\<close>

abbreviation zeroByte :: char where
  "zeroByte \<equiv> CHR 0x00"

text \<open>Go's \<open>copy(dst[off:], d)\<close>: overwrites, never grows.\<close>

definition copyAt :: "nat \<Rightarrow> bytes \<Rightarrow> bytes \<Rightarrow> bytes" where
  "copyAt off d dst =
     take off dst @ take (length dst - off) d @ drop (off + length d) dst"

text \<open>\<open>File.WriteAt\<close>: a write behind the end fills the gap with zero bytes.\<close>

definition writeAt :: "nat \<Rightarrow> bytes \<Rightarrow> bytes \<Rightarrow> bytes" where
  "writeAt off d f =
     (if d = [] then f
      else take off f @ replicate (off - length f) zeroByte @ d @ drop (off + length d) f)"

definition truncateTo :: "nat \<Rightarrow> bytes \<Rightarrow> bytes" where
  "truncateTo n f = take n f @ replicate (n - length f) zeroByte"

text \<open>
  The candidate of a chunked upload: \<open>None\<close> when a chunk lies outside the file, as the code's
  check \<open>off + len(data) > op.FileSize\<close> finds.
\<close>

definition uploadCandidate :: "nat \<Rightarrow> nat \<Rightarrow> bytes \<Rightarrow> (nat \<times> bytes) list \<Rightarrow> bytes option" where
  "uploadCandidate cs sz base chunks =
     (if \<exists>(i, d) \<in> set chunks. i * cs + length d > sz then None
      else Some (fold (\<lambda>(i, d) c. copyAt (i * cs) d c) chunks (copyAt 0 base (replicate sz zeroByte))))"

text \<open>The patch of a chunked download: copy the local file, write the chunks, truncate.\<close>

definition patchDownload :: "nat \<Rightarrow> nat \<Rightarrow> bytes \<Rightarrow> (nat \<times> bytes) list \<Rightarrow> bytes" where
  "patchDownload cs sz base chunks =
     truncateTo sz (fold (\<lambda>(i, d) f. writeAt (i * cs) d f) chunks base)"

subsection \<open>Lemmas on chunks\<close>

lemma concat_chunksOf [simp]: "0 < n \<Longrightarrow> concat (chunksOf n data) = data"
  by (induction n data rule: chunksOf.induct) (simp add: chunksOf.simps [of _ "_ :: bytes"])

lemma chunksOf_Nil [simp]: "chunksOf n [] = []"
  by (simp add: chunksOf.simps)

lemma nth_chunksOf: "i < length (chunksOf n data) \<Longrightarrow> chunksOf n data ! i = take n (drop (i * n) data)"
proof (induction n data arbitrary: i rule: chunksOf.induct)
  case (1 n data)
  show ?case
  proof (cases "data = [] \<or> n = 0")
    case True
    with 1 show ?thesis by (simp add: chunksOf.simps)
  next
    case False
    then have c: "chunksOf n data = take n data # chunksOf n (drop n data)" by (simp add: chunksOf.simps)
    show ?thesis
      using 1 False by (cases i) (auto simp: c add.commute)
  qed
qed

lemma length_chunksOf: "0 < n \<Longrightarrow> i < length (chunksOf n data) \<longleftrightarrow> i * n < length data"
proof (induction n data arbitrary: i rule: chunksOf.induct)
  case (1 n data)
  show ?case
  proof (cases "data = []")
    case False
    with 1 have c: "chunksOf n data = take n data # chunksOf n (drop n data)" by (simp add: chunksOf.simps)
    show ?thesis using 1 False by (cases i) (auto simp: c less_diff_conv add.commute)
  qed simp
qed

lemma effectiveChunkSize_pos [simp]: "0 < effectiveChunkSize cs"
  by (simp add: effectiveChunkSize_def defaultChunkSize_def)

lemma uploadChunkHashes_stream:
  "streamChunkHashes h (OsOk data) cs = OsOk (uploadChunkHashes h data cs, int (length data))"
  by (simp add: streamChunkHashes_def uploadChunkHashes_def)

subsection \<open>Zero-extended reading\<close>

definition nthZ :: "bytes \<Rightarrow> nat \<Rightarrow> char" where
  "nthZ f k = (if k < length f then f ! k else zeroByte)"

lemma nthZ_eqI: "length f = length g \<Longrightarrow> (\<And>k. k < length f \<Longrightarrow> nthZ f k = nthZ g k) \<Longrightarrow> f = g"
  by (rule nth_equalityI) (auto simp: nthZ_def)

lemma length_copyAt [simp]: "length (copyAt off d dst) = length dst"
  by (auto simp: copyAt_def)

lemma nthZ_copyAt:
  "nthZ (copyAt off d dst) k =
     (if off \<le> k \<and> k < off + length d \<and> k < length dst then d ! (k - off) else nthZ dst k)"
  by (auto simp: nthZ_def copyAt_def nth_append min_def)

lemma nthZ_writeAt:
  "nthZ (writeAt off d f) k = (if off \<le> k \<and> k < off + length d then d ! (k - off) else nthZ f k)"
  by (auto simp: nthZ_def writeAt_def nth_append min_def)

lemma nthZ_truncateTo: "k < n \<Longrightarrow> nthZ (truncateTo n f) k = nthZ f k"
  by (auto simp: nthZ_def truncateTo_def nth_append)

lemma length_truncateTo [simp]: "length (truncateTo n f) = n"
  by (simp add: truncateTo_def)

text \<open>
  Both assemblies give every byte either the byte of the new file, or, where no changed chunk
  covers it, the byte of the base.
\<close>

definition goodChunks :: "nat \<Rightarrow> bytes \<Rightarrow> (nat \<times> bytes) list \<Rightarrow> bool" where
  "goodChunks cs new chunks \<longleftrightarrow> (\<forall>(i, d) \<in> set chunks. d = take cs (drop (i * cs) new))"

lemma chunk_byte:
  assumes "off \<le> k" "k < off + length (take cs (drop off new))"
  shows "take cs (drop off new) ! (k - off) = nthZ new k"
  using assms by (auto simp: nthZ_def)

lemma length_fold_copyAt [simp]: "length (fold (\<lambda>(i, d) c. copyAt (i * cs) d c) chunks c) = length c"
  by (induction chunks arbitrary: c) (auto split: prod.splits)

lemma fold_copyAt:
  assumes "goodChunks cs new chunks" and "length c = length new" and "k < length new"
  shows "(nthZ (fold (\<lambda>(i, d) c. copyAt (i * cs) d c) chunks c) k = nthZ new k
     \<or> nthZ (fold (\<lambda>(i, d) c. copyAt (i * cs) d c) chunks c) k = nthZ c k
       \<and> (\<forall>(i, d) \<in> set chunks. \<not> (i * cs \<le> k \<and> k < i * cs + length d)))"
  using assms
proof (induction chunks arbitrary: c)
  case (Cons x chunks)
  obtain i d where x: "x = (i, d)" by force
  let ?c = "copyAt (i * cs) d c"
  have good: "goodChunks cs new chunks" and d: "d = take cs (drop (i * cs) new)"
    using Cons.prems(1) by (auto simp: goodChunks_def x)
  have "nthZ ?c k = (if i * cs \<le> k \<and> k < i * cs + length d then nthZ new k else nthZ c k)"
    using Cons.prems(2,3) chunk_byte [of "i * cs" k cs new] by (auto simp: nthZ_copyAt d)
  then show ?case
    using Cons.IH [OF good _ Cons.prems(3), of ?c] Cons.prems(2) by (auto simp: x split: if_splits)
qed auto

lemma fold_writeAt:
  assumes "goodChunks cs new chunks"
  shows "nthZ (fold (\<lambda>(i, d) f. writeAt (i * cs) d f) chunks f) k = nthZ new k
     \<or> nthZ (fold (\<lambda>(i, d) f. writeAt (i * cs) d f) chunks f) k = nthZ f k
       \<and> (\<forall>(i, d) \<in> set chunks. \<not> (i * cs \<le> k \<and> k < i * cs + length d))"
  using assms
proof (induction chunks arbitrary: f)
  case (Cons x chunks)
  obtain i d where x: "x = (i, d)" by force
  let ?f = "writeAt (i * cs) d f"
  have good: "goodChunks cs new chunks" and d: "d = take cs (drop (i * cs) new)"
    using Cons.prems(1) by (auto simp: goodChunks_def x)
  have "nthZ ?f k = (if i * cs \<le> k \<and> k < i * cs + length d then nthZ new k else nthZ f k)"
    using chunk_byte [of "i * cs" k cs new] by (auto simp: nthZ_writeAt d)
  then show ?case using Cons.IH [OF good, of ?f] by (auto simp: x split: if_splits)
qed auto

text \<open>Where the manifests agree, base and new file have the same chunk.\<close>

lemma unchanged_chunk:
  assumes "old = map h (chunksOf cs base)" and "new = map h (chunksOf cs file)" and "0 < cs"
    and inj: "inj_on h (set (chunksOf cs base) \<union> set (chunksOf cs file))"
    and "i < length new" and "i \<notin> set (fst (diffChunkManifests old new))"
  shows "take cs (drop (i * cs) base) = take cs (drop (i * cs) file)"
proof -
  have "i < length old" "old ! i = new ! i"
    using assms(5,6) by (auto simp: diffChunkManifests_def)
  with assms(1,2,5) have "h (chunksOf cs base ! i) = h (chunksOf cs file ! i)" by simp
  with inj have "chunksOf cs base ! i = chunksOf cs file ! i"
    by (rule inj_onD) (use assms(1,2,5) \<open>i < length old\<close> in auto)
  with assms(1,2,5) \<open>i < length old\<close> show ?thesis by (simp add: nth_chunksOf)
qed

lemma chunk_at:
  assumes "take cs (drop (i * cs) base) = take cs (drop (i * cs) file)"
    and "i = k div cs" and "0 < cs" and "k < length file"
  shows "nthZ base k = nthZ file k"
proof -
  have k: "i * cs \<le> k" "k < i * cs + cs"
    using assms(2,3) by (auto simp: div_times_less_eq_dividend dividend_less_div_times add.commute)
  then have "k - i * cs < length (take cs (drop (i * cs) file))" using assms(4) by auto
  with assms(1) have l: "k - i * cs < length (take cs (drop (i * cs) base))" by simp
  have "take cs (drop (i * cs) base) ! (k - i * cs) = take cs (drop (i * cs) file) ! (k - i * cs)"
    using assms(1) by simp
  with k l assms(4) show ?thesis by (auto simp: nthZ_def)
qed

lemma covered_or_same:
  assumes "old = map h (chunksOf cs base)" and "new = map h (chunksOf cs file)" and "0 < cs"
    and "inj_on h (set (chunksOf cs base) \<union> set (chunksOf cs file))"
    and "set (map fst chunks) = set (fst (diffChunkManifests old new))"
    and good: "goodChunks cs file chunks" and "k < length file"
    and free: "\<forall>(i, d) \<in> set chunks. \<not> (i * cs \<le> k \<and> k < i * cs + length d)"
  shows "nthZ base k = nthZ file k"
proof -
  have k: "k div cs * cs \<le> k" "k < k div cs * cs + cs"
    using assms(3) by (auto simp: div_times_less_eq_dividend dividend_less_div_times add.commute)
  have "k div cs \<notin> set (map fst chunks)"
  proof
    assume "k div cs \<in> set (map fst chunks)"
    then obtain d where d: "(k div cs, d) \<in> set chunks" by auto
    with good have "d = take cs (drop (k div cs * cs) file)" by (auto simp: goodChunks_def)
    with k assms(7) have "k < k div cs * cs + length d" by auto
    with free d k(1) show False by auto
  qed
  moreover have "k div cs < length new"
    unfolding assms(2) length_map using le_less_trans [OF k(1) assms(7)]
    by (simp only: length_chunksOf [OF assms(3)])
  ultimately show ?thesis
    using unchanged_chunk [OF assms(1-4)] assms(5) by (intro chunk_at [OF _ refl assms(3,7)]) auto
qed

lemma changed_chunks_restore:
  assumes "old = map h (chunksOf cs base)" and "new = map h (chunksOf cs file)" and "0 < cs"
    and "inj_on h (set (chunksOf cs base) \<union> set (chunksOf cs file))"
    and "set (map fst chunks) = set (fst (diffChunkManifests old new))"
    and "\<forall>(i, d) \<in> set chunks. d = take cs (drop (i * cs) file)"
  shows "patchDownload cs (length file) base chunks = file"
proof (rule nthZ_eqI)
  have good: "goodChunks cs file chunks" using assms(6) by (simp add: goodChunks_def)
  fix k assume "k < length (patchDownload cs (length file) base chunks)"
  then have k: "k < length file" by (simp add: patchDownload_def)
  then show "nthZ (patchDownload cs (length file) base chunks) k = nthZ file k"
    using fold_writeAt [OF good, of base k] covered_or_same [OF assms(1-5) good k]
    by (auto simp: patchDownload_def nthZ_truncateTo)
qed (simp add: patchDownload_def)

subsection \<open>Delta transfer reproduces the file\<close>

text \<open>
  C32: A chunked upload that writes the chunks the two manifests differ in, over the remote content
  the old manifest describes, builds exactly the local file, whatever order the chunks come in.
\<close>

theorem delta_upload_exact:
  assumes "old = map h (chunksOf cs base)" and "new = map h (chunksOf cs file)" and "0 < cs"
    and "inj_on h (set (chunksOf cs base) \<union> set (chunksOf cs file))"
    and "set (map fst chunks) = set (fst (diffChunkManifests old new))"
    and "\<forall>(i, d) \<in> set chunks. d = take cs (drop (i * cs) file)"
  shows "uploadCandidate cs (length file) base chunks = Some file"
proof -
  have good: "goodChunks cs file chunks" using assms(6) by (simp add: goodChunks_def)
  have in_range: "\<not> (\<exists>(i, d) \<in> set chunks. i * cs + length d > length file)"
  proof -
    have "i * cs + length d \<le> length file" if "(i, d) \<in> set chunks" for i d
    proof -
      from that assms(5) have "i < length new" by (force simp: diffChunkManifests_def)
      with assms(2,3) have "i * cs < length file" by (simp add: length_chunksOf)
      with that assms(6) show ?thesis by auto
    qed
    then show ?thesis by fastforce
  qed
  let ?c = "copyAt 0 base (replicate (length file) zeroByte)"
  let ?r = "fold (\<lambda>(i, d) c. copyAt (i * cs) d c) chunks ?c"
  have c: "length ?c = length file" by simp
  have "nthZ ?c k = nthZ base k" if "k < length file" for k
    using that by (auto simp: nthZ_copyAt) (auto simp: nthZ_def)
  then have "nthZ ?r k = nthZ file k" if "k < length file" for k
    using fold_copyAt [OF good c that] covered_or_same [OF assms(1-5) good that] that by auto
  moreover have "length ?r = length file" by simp
  ultimately have "?r = file" by (intro nthZ_eqI) auto
  with in_range show ?thesis by (simp add: uploadCandidate_def)
qed

text \<open>
  A chunked download that patches the changed chunks into a copy of the local file and
  truncates it yields exactly the remote file.
\<close>

theorem delta_download_exact:
  assumes "old = map h (chunksOf cs base)" and "new = map h (chunksOf cs file)" and "0 < cs"
    and "inj_on h (set (chunksOf cs base) \<union> set (chunksOf cs file))"
    and "set (map fst chunks) = set (fst (diffChunkManifests old new))"
    and "\<forall>(i, d) \<in> set chunks. d = take cs (drop (i * cs) file)"
  shows "patchDownload cs (length file) base chunks = file"
  using assms by (rule changed_chunks_restore)

theorem delta_upload_exact_witness:
  "uploadCandidate 2 (length ''abXYe'') ''abcd'' [(2, ''e''), (1, ''XY'')] = Some ''abXYe''"
proof (rule delta_upload_exact)
  have c: "chunksOf 2 ''abcd'' = [''ab'', ''cd'']" "chunksOf 2 ''abXYe'' = [''ab'', ''XY'', ''e'']"
    by (simp_all add: chunksOf.simps numeral_2_eq_2)
  show "[''ab'', ''cd''] = map id (chunksOf 2 ''abcd'')" "[''ab'', ''XY'', ''e''] = map id (chunksOf 2 ''abXYe'')"
    by (simp_all add: c)
  show "set (map fst [(2::nat, ''e''), (1, ''XY'')]) = set (fst (diffChunkManifests [''ab'', ''cd''] [''ab'', ''XY'', ''e'']))"
    by (auto simp: diffChunkManifests_def upt_rec)
qed auto

theorem delta_download_exact_witness:
  "patchDownload 2 (length ''abX'') ''abcd'' [(1, ''X'')] = ''abX''"
proof (rule delta_download_exact)
  have c: "chunksOf 2 ''abcd'' = [''ab'', ''cd'']" "chunksOf 2 ''abX'' = [''ab'', ''X'']"
    by (simp_all add: chunksOf.simps numeral_2_eq_2)
  show "[''ab'', ''cd''] = map id (chunksOf 2 ''abcd'')" "[''ab'', ''X''] = map id (chunksOf 2 ''abX'')"
    by (simp_all add: c)
  show "set (map fst [(1::nat, ''X'')]) = set (fst (diffChunkManifests [''ab'', ''cd''] [''ab'', ''X'']))"
    by (auto simp: diffChunkManifests_def upt_rec)
qed auto

end
