(* ===== verification/SyncPaths.thy ===== *)
theory SyncPaths
  imports Prelude
begin

text \<open>
  Path and name rules of the sync daemon: the remote form of a path (\<open>sync_uploader.go\<close>,
  \<open>sync_full_reconciler.go\<close>), error classification by message text, ignore rules
  (\<open>sync_ignore.go\<close>), conflict-copy names (\<open>sync_conflict.go\<close>), identities
  (\<open>sync_identity.go\<close>) and the reserved control paths (\<open>sync_control.go\<close>).  A compiled
  \<open>.afsignore\<close> matcher is a parameter.
\<close>

subsection \<open>Remote paths\<close>

definition absoluteRemotePath :: "path \<Rightarrow> path" where
  "absoluteRemotePath rel =
     (if rel = [] \<or> rel = ''.'' then ''/'' else if hd rel = CHR ''/'' then rel else CHR ''/'' # rel)"

definition joinRemote :: "path \<Rightarrow> string \<Rightarrow> path" where
  "joinRemote dir name =
     (if dir = [] \<or> dir = ''/'' then ''/'' @ name
      else if hasSuffix dir ''/'' then dir @ name else dir @ ''/'' @ name)"

text \<open>\<open>path.Dir\<close> of a relative path; the root is the empty path.\<close>

definition parentDir :: "path \<Rightarrow> path" where
  "parentDir p = rev (drop 1 (dropWhile (\<lambda>c. c \<noteq> CHR ''/'') (rev p)))"

definition pathBase :: "path \<Rightarrow> string" where
  "pathBase rel = rev (takeWhile (\<lambda>c. c \<noteq> CHR ''/'') (rev rel))"

text \<open>\<open>path.Clean\<close> of a rooted path.\<close>

definition cleanStep :: "string list \<Rightarrow> string \<Rightarrow> string list" where
  "cleanStep acc x =
     (if x = [] \<or> x = ''.'' then acc else if x = ''..'' then butlast acc else acc @ [x])"

definition cleanRooted :: "path \<Rightarrow> path" where
  "cleanRooted p = CHR ''/'' # joinStr ''/'' (foldl cleanStep [] (splitByte CHR ''/'' p))"

definition normalizeAFSGrepPath :: "path \<Rightarrow> path" where
  "normalizeAFSGrepPath p =
     (if trimSpace p = [] then ''/''
      else cleanRooted (if hasPrefix p ''/'' then p else CHR ''/'' # p))"

definition plainPart :: "string \<Rightarrow> bool" where
  "plainPart x \<longleftrightarrow> x \<noteq> [] \<and> x \<noteq> ''.'' \<and> x \<noteq> ''..'' \<and> CHR ''/'' \<notin> set x"

lemma foldl_cleanStep_plain:
  "list_all plainPart acc \<Longrightarrow> \<forall>x \<in> set xs. CHR ''/'' \<notin> set x \<Longrightarrow> list_all plainPart (foldl cleanStep acc xs)"
proof (induction xs arbitrary: acc)
  case (Cons x xs)
  have "list_all plainPart (cleanStep acc x)"
    using Cons.prems by (auto simp: cleanStep_def plainPart_def list_all_iff dest: in_set_butlastD)
  with Cons show ?case by simp
qed simp

lemma foldl_cleanStep_id: "list_all plainPart xs \<Longrightarrow> foldl cleanStep acc xs = acc @ xs"
  by (induction xs arbitrary: acc) (auto simp: cleanStep_def plainPart_def)

lemma cleanRooted_parts:
  obtains ps where "cleanRooted p = CHR ''/'' # joinStr ''/'' ps" "list_all plainPart ps"
  using foldl_cleanStep_plain [of "[]" "splitByte CHR ''/'' p"] splitByte_no_sep
  by (auto simp: cleanRooted_def)

lemma cleanRooted_plain:
  assumes "list_all plainPart ps"
  shows "cleanRooted (CHR ''/'' # joinStr ''/'' ps) = CHR ''/'' # joinStr ''/'' ps"
proof (cases "ps = []")
  case False
  have "splitByte CHR ''/'' (joinStr ''/'' ps) = ps"
    using assms False by (intro splitByte_joinStr) (auto simp: list_all_iff plainPart_def)
  then show ?thesis by (simp add: cleanRooted_def cleanStep_def foldl_cleanStep_id [OF assms])
qed (simp add: cleanRooted_def cleanStep_def)

lemma cleanRooted_idem [simp]: "cleanRooted (cleanRooted p) = cleanRooted p"
  by (rule cleanRooted_parts [of p]) (simp add: cleanRooted_plain)

subsection \<open>Error classification\<close>

definition lowerByte :: "char \<Rightarrow> char" where
  "lowerByte c = (if of_char c \<in> {65..90::nat} then char_of (of_char c + 32 :: nat) else c)"

text \<open>\<open>indexOfFold\<close>: the first position where \<open>sub\<close> occurs when ASCII case is ignored.\<close>

fun indexOfFoldFrom :: "int \<Rightarrow> string \<Rightarrow> string \<Rightarrow> int" where
  "indexOfFoldFrom i [] sub = (if sub = [] then i else -1)"
| "indexOfFoldFrom i (c # s) sub =
     (if hasPrefix (map lowerByte (c # s)) (map lowerByte sub) then i else indexOfFoldFrom (i + 1) s sub)"

definition indexOfFold :: "string \<Rightarrow> string \<Rightarrow> int" where
  "indexOfFold s sub = (if sub = [] then 0 else indexOfFoldFrom 0 s sub)"

definition containsAny :: "string \<Rightarrow> string list \<Rightarrow> bool" where
  "containsAny s subs \<longleftrightarrow> (\<exists>sub \<in> set subs. sub \<noteq> [] \<and> indexOfFold s sub \<ge> 0)"

definition isClientNotFound :: "string option \<Rightarrow> bool" where
  "isClientNotFound err = (case err of
     None \<Rightarrow> False
   | Some msg \<Rightarrow> containsAny msg [''no such file'', ''not found'', ''ENOENT'', ''does not exist''])"

definition isClientAlreadyExists :: "string option \<Rightarrow> bool" where
  "isClientAlreadyExists err = (case err of
     None \<Rightarrow> False | Some msg \<Rightarrow> containsAny msg [''exists'', ''EEXIST''])"

lemma indexOfFoldFrom_ge: "indexOfFoldFrom i s sub = -1 \<or> i \<le> indexOfFoldFrom i s sub"
proof (induction s arbitrary: i)
  case (Cons c s)
  from Cons [of "i + 1"] show ?case by auto
qed simp

lemma indexOfFoldFrom_iff:
  "0 \<le> i \<Longrightarrow> sub \<noteq> [] \<Longrightarrow>
   0 \<le> indexOfFoldFrom i s sub \<longleftrightarrow> (\<exists>u v. map lowerByte s = u @ map lowerByte sub @ v)"
proof (induction s arbitrary: i)
  case (Cons c s)
  show ?case
  proof (cases "hasPrefix (map lowerByte (c # s)) (map lowerByte sub)")
    case True
    then obtain v where "map lowerByte (c # s) = [] @ map lowerByte sub @ v"
      by (auto simp: hasPrefix_iff simp del: list.map)
    with True Cons.prems show ?thesis by (auto simp del: list.map)
  next
    case False
    have "(\<exists>u v. map lowerByte (c # s) = u @ map lowerByte sub @ v) \<longleftrightarrow>
          (\<exists>u v. map lowerByte s = u @ map lowerByte sub @ v)" (is "?l \<longleftrightarrow> ?r")
    proof
      assume ?l
      then obtain u v where uv: "map lowerByte (c # s) = u @ map lowerByte sub @ v" by blast
      with False have "u \<noteq> []" by (auto simp: hasPrefix_iff simp del: list.map)
      with uv show ?r by (cases u) auto
    next
      assume ?r
      then obtain u v where "map lowerByte s = u @ map lowerByte sub @ v" by blast
      then have "map lowerByte (c # s) = (lowerByte c # u) @ map lowerByte sub @ v" by simp
      then show ?l by blast
    qed
    with False Cons show ?thesis by (simp del: list.map)
  qed
qed simp

subsection \<open>Ignore rules\<close>

definition isBaselineIgnored :: "path \<Rightarrow> bool" where
  "isBaselineIgnored rel =
     (if rel = [] then False
      else let base = pathBase rel in
        base = ''.DS_Store'' \<or> hasPrefix base ''._'' \<or> hasPrefix base ''.afs-sync.tmp.''
        \<or> containsStr base ''.afssync.tmp.'' \<or> base = ''.afsignore'' \<or> hasSuffix base ''.afssync.lock'')"

definition shouldIgnore :: "(string \<Rightarrow> bool) option \<Rightarrow> path \<Rightarrow> bool \<Rightarrow> bool" where
  "shouldIgnore matcher rel isDir =
     (if rel = [] \<or> rel = ''.'' then False
      else if isBaselineIgnored rel then True
      else case matcher of
             None \<Rightarrow> False
           | Some m \<Rightarrow> m (if isDir \<and> \<not> hasSuffix rel ''/'' then rel @ ''/'' else rel))"

subsection \<open>Control paths\<close>

definition trimSlash :: "string \<Rightarrow> string" where
  "trimSlash s = rev (dropWhile (\<lambda>c. c = CHR ''/'') (rev (dropWhile (\<lambda>c. c = CHR ''/'') s)))"

definition isSyncControlPath :: "path \<Rightarrow> bool" where
  "isSyncControlPath raw =
     (let rel = trimSlash (trimSpace raw) in
      if rel = [] then False else rel = ''.afs-sync'' \<or> hasPrefix rel ''.afs-sync/'')"

definition syncControlRequestID :: "path \<Rightarrow> string option" where
  "syncControlRequestID raw =
     (let rel = trimSlash (trimSpace raw); prefix = ''.afs-sync/requests/'' in
      if \<not> hasPrefix rel prefix \<or> \<not> hasSuffix rel ''.json'' then None
      else let rest = trimSuffix (trimPrefix rel prefix) ''.json'' in
           if rest = [] \<or> containsStr rest ''/'' then None else Some rest)"

definition normalizeSyncControlTarget :: "path \<Rightarrow> string + path" where
  "normalizeSyncControlTarget raw =
     (let normalized = normalizeAFSGrepPath raw in
      if normalized = ''/'' then Inl ''target path must not be /''
      else if isSyncControlPath (trimPrefix normalized ''/'')
      then Inl (''path '' @ normalized @ '' is reserved for sync control'')
      else Inr normalized)"

text \<open>Every control request lives under the reserved directory, so no handler syncs it.\<close>

lemma syncControlRequestID_reserved:
  "syncControlRequestID raw = Some r \<Longrightarrow> isSyncControlPath raw"
  by (auto simp: syncControlRequestID_def isSyncControlPath_def Let_def hasPrefix_iff split: if_splits)

subsection \<open>Conflict names and identities\<close>

definition conflictHostChar :: "char \<Rightarrow> bool" where
  "conflictHostChar c \<longleftrightarrow> (let n = of_char c :: nat in
     (97 \<le> n \<and> n \<le> 122) \<or> (65 \<le> n \<and> n \<le> 90) \<or> (48 \<le> n \<and> n \<le> 57) \<or> n = 46 \<or> n = 45 \<or> n = 95)"

text \<open>\<open>runes\<close> is the host name as Go's range loop reads it: \<open>None\<close> for a rune that is not ASCII.\<close>

definition sanitizeConflictHost :: "char option list \<Rightarrow> string" where
  "sanitizeConflictHost runes =
     (let out = map (\<lambda>r. case r of Some c \<Rightarrow> if conflictHostChar c then c else CHR ''-'' | None \<Rightarrow> CHR ''-'') runes
      in if out = [] then ''unknown'' else out)"

text \<open>\<open>stamp\<close> is the formatted time and \<open>seq\<close> the decimal counter.\<close>

definition conflictPath :: "string \<Rightarrow> string \<Rightarrow> string \<Rightarrow> path \<Rightarrow> path" where
  "conflictPath host stamp seq p = p @ ''.conflict-'' @ host @ ''-'' @ stamp @ ''-'' @ seq"

definition defaultString :: "string \<Rightarrow> string \<Rightarrow> string" where
  "defaultString value fallback = (if trimSpace value \<noteq> [] then value else fallback)"

lemma sanitizeConflictHost_clean:
  "sanitizeConflictHost runes \<noteq> [] \<and> list_all conflictHostChar (sanitizeConflictHost runes)"
proof -
  have "list_all conflictHostChar ''unknown''" "conflictHostChar CHR ''-''"
    by (simp_all add: conflictHostChar_def)
  then show ?thesis
    by (auto simp: sanitizeConflictHost_def Let_def list_all_iff split: option.splits)
qed

lemma length_parentDir: "p \<noteq> [] \<Longrightarrow> length (parentDir p) < length p"
proof -
  assume "p \<noteq> []"
  have "length (dropWhile (\<lambda>c. c \<noteq> CHR ''/'') (rev p)) \<le> length p"
    by (metis length_dropWhile_le length_rev)
  moreover have "0 < length p" using \<open>p \<noteq> []\<close> by simp
  ultimately show ?thesis by (simp only: parentDir_def length_rev length_drop)
qed

lemma parentDir_prefix: "parentDir p \<noteq> [] \<Longrightarrow> hasPrefix p (parentDir p @ ''/'')"
proof -
  assume ne: "parentDir p \<noteq> []"
  let ?d = "dropWhile (\<lambda>c. c \<noteq> CHR ''/'') (rev p)"
  have "?d \<noteq> []" using ne unfolding parentDir_def by (metis drop_Nil rev.simps(1))
  then obtain c t where ct: "?d = c # t" by (cases ?d) auto
  moreover have "\<not> hd ?d \<noteq> CHR ''/''" using \<open>?d \<noteq> []\<close> by (rule hd_dropWhile)
  ultimately have d: "?d = CHR ''/'' # t" by simp
  define w where "w = takeWhile (\<lambda>c. c \<noteq> CHR ''/'') (rev p)"
  have "rev p = w @ CHR ''/'' # t"
    using takeWhile_dropWhile_id [of "\<lambda>c. c \<noteq> CHR ''/''" "rev p"] unfolding d w_def by (rule sym)
  then have "rev (rev p) = rev (w @ CHR ''/'' # t)" by (rule arg_cong)
  then have "p = (rev t @ ''/'') @ rev w" by simp
  moreover have "parentDir p = rev t" unfolding parentDir_def d by simp
  ultimately show ?thesis by (metis hasPrefix_append)
qed

text \<open>The remote form of a relative path is absolute, and taking it twice changes nothing.\<close>

lemma absoluteRemotePath_hd: "absoluteRemotePath p \<noteq> [] \<and> hd (absoluteRemotePath p) = CHR ''/''"
  by (auto simp: absoluteRemotePath_def)

lemma absoluteRemotePath_idem [simp]: "absoluteRemotePath (absoluteRemotePath p) = absoluteRemotePath p"
  by (auto simp: absoluteRemotePath_def)

lemma absoluteRemotePath_inj:
  "p \<noteq> [] \<Longrightarrow> p \<noteq> ''.'' \<Longrightarrow> hd p \<noteq> CHR ''/'' \<Longrightarrow> trimPrefix (absoluteRemotePath p) ''/'' = p"
  by (simp add: absoluteRemotePath_def trimPrefix_def hasPrefix_def)

end
