(* ===== verification/FullReconcile.thy ===== *)
theory FullReconcile
  imports SyncState
begin

text \<open>
  The planning half of a full reconciliation pass (\<open>cmd/afs/sync_full_reconciler.go\<close>,
  \<open>buildPlan\<close> and what it calls, with \<open>observedChangedFromStored\<close> and
  \<open>mountRemoteDirHasLiveDescendants\<close> of \<open>mount_reconcile.go\<close>): the three-way comparison of
  the local tree, the remote tree and the persisted baseline, and the phases
  \<open>executePlan\<close> runs the plan in.

  \<open>paths\<close> is the order in which Go visits the union of the two scans; the theorems hold for every
  order.  \<open>rstat\<close> answers the fresh remote \<open>Stat\<close> calls of the planner.
\<close>

subsection \<open>Actions\<close>

datatype action_kind = Download | Upload | MkdirLocal | MkdirRemote | DeleteLocal | DeleteRemote
  | SymlinkDownload | SymlinkUpload

record sync_action =
  sa_kind :: action_kind
  sa_path :: path
  sa_mode :: u32
  sa_target :: string
  sa_conflict :: bool
  sa_localMeta :: "observed_meta option"
  sa_remoteMeta :: "observed_meta option"
  sa_checkState :: bool
  sa_stored :: sync_entry
  sa_hasStored :: bool

definition newAction :: "action_kind \<Rightarrow> path \<Rightarrow> sync_action" where
  "newAction k p = \<lparr>sa_kind = k, sa_path = p, sa_mode = 0, sa_target = [], sa_conflict = False,
     sa_localMeta = None, sa_remoteMeta = None, sa_checkState = False, sa_stored = zeroEntry,
     sa_hasStored = False\<rparr>"

definition planUpload :: "path \<Rightarrow> observed_meta \<Rightarrow> sync_action list" where
  "planUpload p l =
     (if om_kind l = ''dir'' then [(newAction MkdirRemote p)\<lparr>sa_mode := om_mode l\<rparr>]
      else if om_kind l = ''symlink'' then [(newAction SymlinkUpload p)\<lparr>sa_target := om_target l\<rparr>]
      else if om_kind l = ''file''
        then [(newAction Upload p)\<lparr>sa_mode := om_mode l, sa_localMeta := Some l\<rparr>]
      else [])"

definition planDownload :: "path \<Rightarrow> observed_meta \<Rightarrow> bool \<Rightarrow> sync_action" where
  "planDownload p r conflict =
     (if om_kind r = ''dir'' then (newAction MkdirLocal p)\<lparr>sa_mode := om_mode r, sa_remoteMeta := Some r\<rparr>
      else if om_kind r = ''symlink''
        then (newAction SymlinkDownload p)\<lparr>sa_target := om_target r, sa_conflict := conflict, sa_remoteMeta := Some r\<rparr>
      else (newAction Download p)\<lparr>sa_mode := om_mode r, sa_conflict := conflict, sa_remoteMeta := Some r\<rparr>)"

subsection \<open>Comparing observations with the baseline\<close>

definition observedChangedFromStored :: "observed_meta \<Rightarrow> sync_entry \<Rightarrow> bool \<Rightarrow> bool" where
  "observedChangedFromStored meta stored localSide =
     (if se_deleted stored \<or> om_kind meta \<noteq> se_type stored then True
      else if om_kind meta = ''dir'' then se_mode stored \<noteq> 0 \<and> om_mode meta \<noteq> 0 \<and> om_mode meta \<noteq> se_mode stored
      else if om_kind meta = ''symlink'' then om_target meta \<noteq> se_target stored
      else if om_kind meta = ''file'' then
        (if om_size meta \<noteq> se_size stored then True
         else if localSide then se_localMtimeMs stored \<noteq> 0 \<and> om_mtimeMs meta \<noteq> se_localMtimeMs stored
         else (se_remoteRevision stored \<noteq> [] \<and> om_revision meta \<noteq> []
               \<and> (om_revision meta \<noteq> se_remoteRevision stored \<or> om_inode meta \<noteq> se_remoteInode stored))
              \<or> (se_remoteMtimeMs stored \<noteq> 0 \<and> om_mtimeMs meta \<noteq> se_remoteMtimeMs stored))
      else True)"

definition metaMatch :: "observed_meta \<Rightarrow> observed_meta \<Rightarrow> sync_entry \<Rightarrow> bool \<Rightarrow> bool" where
  "metaMatch l r stored hasStored =
     (if hasStored \<and> se_remoteRevision stored \<noteq> [] \<and> om_revision r \<noteq> []
         \<and> (om_revision r \<noteq> se_remoteRevision stored \<or> om_inode r \<noteq> se_remoteInode stored) then False
      else if om_kind l \<noteq> om_kind r then False
      else if om_kind l = ''dir'' then om_mode l = om_mode r
      else if om_kind l = ''symlink'' then om_target l = om_target r
      else if om_kind l = ''file'' then
        (if om_size l \<noteq> om_size r \<or> om_mode l \<noteq> om_mode r then False
         else if hasStored \<and> se_size stored = om_size l
            \<and> om_mtimeMs l = se_localMtimeMs stored \<and> om_mtimeMs r = se_remoteMtimeMs stored
            \<and> (se_remoteRevision stored = []
               \<or> (om_revision r = se_remoteRevision stored \<and> om_inode r = se_remoteInode stored)) then True
         else om_size l = om_size r \<and> om_mtimeMs l = om_mtimeMs r)
      else False)"

definition targetFromMeta :: "observed_meta \<Rightarrow> observed_meta \<Rightarrow> string" where
  "targetFromMeta l r =
     (if om_kind l = ''symlink'' then om_target l
      else if om_kind r = ''symlink'' then om_target r else [])"

definition refreshedEntry :: "sync_entry \<Rightarrow> observed_meta \<Rightarrow> observed_meta \<Rightarrow> int \<Rightarrow> sync_entry" where
  "refreshedEntry e l r now =
     e\<lparr>se_deleted := False, se_type := om_kind l, se_mode := om_mode l, se_size := om_size l,
       se_localMtimeMs := om_mtimeMs l, se_remoteMtimeMs := om_mtimeMs r,
       se_target := targetFromMeta l r, se_lastSyncedAt := now\<rparr>"

definition refreshStateMeta ::
    "path \<Rightarrow> observed_meta \<Rightarrow> observed_meta \<Rightarrow> sync_entry \<Rightarrow> bool \<Rightarrow> int \<Rightarrow> reconciler \<Rightarrow> reconciler" where
  "refreshStateMeta p l r stored hasStored now rc =
     (let exists = entries rc p \<noteq> None;
          entry = (case entries rc p of None \<Rightarrow> zeroEntry | Some e \<Rightarrow> e)
      in if exists \<noteq> hasStored \<or> (exists \<and> se_version entry \<noteq> se_version stored)
         then requestFullSweep rc
         else putEntry p (refreshedEntry entry l r now) rc)"

definition mountRemoteDirHasLiveDescendants ::
    "path \<Rightarrow> path list \<Rightarrow> (path \<Rightarrow> observed_meta option) \<Rightarrow> (path \<Rightarrow> sync_entry option) \<Rightarrow> bool" where
  "mountRemoteDirHasLiveDescendants p paths remote ents \<longleftrightarrow>
     (\<exists>child \<in> set paths. remote child \<noteq> None \<and> hasPrefix child (trimSuffix p ''/'' @ ''/'')
        \<and> \<not> (case ents child of None \<Rightarrow> False | Some e \<Rightarrow> se_deleted e))"

subsection \<open>The plan\<close>

text \<open>The three cases of the switch of \<open>buildPlan\<close>, each for one path.\<close>

definition planLocalOnly ::
    "(path \<Rightarrow> stat_result option os_result) \<Rightarrow> path \<Rightarrow> observed_meta \<Rightarrow> sync_entry option \<Rightarrow> reconciler
     \<Rightarrow> reconciler \<times> sync_action list" where
  "planLocalOnly rstat p l stored rc =
     (case stored of
        None \<Rightarrow> (rc, planUpload p l)
      | Some s \<Rightarrow>
          if se_deleted s then (rc, planUpload p l)
          else (case rstat p of
                  OsOk (Some _) \<Rightarrow> (rc, [])
                | OsError _ \<Rightarrow> (requestFullSweep rc, [])
                | _ \<Rightarrow> (rc, [newAction DeleteLocal p])))"

definition planRemoteOnly ::
    "path list \<Rightarrow> (path \<Rightarrow> observed_meta option) \<Rightarrow> path \<Rightarrow> observed_meta \<Rightarrow> sync_entry option \<Rightarrow> reconciler
     \<Rightarrow> reconciler \<times> sync_action list" where
  "planRemoteOnly paths remote p r stored rc =
     (case stored of
        Some s \<Rightarrow>
          if se_deleted s then
            (if om_kind r = ''dir'' \<and> mountRemoteDirHasLiveDescendants p paths remote (entries rc)
             then (rc, [planDownload p r False])
             else (rc, [newAction DeleteRemote p]))
          else (rc, [planDownload p r False])
      | None \<Rightarrow> (rc, [planDownload p r False]))"

definition planBoth ::
    "int \<Rightarrow> path \<Rightarrow> observed_meta \<Rightarrow> observed_meta \<Rightarrow> sync_entry option \<Rightarrow> reconciler
     \<Rightarrow> reconciler \<times> sync_action list" where
  "planBoth now p l r stored rc =
     (let hasStored = stored \<noteq> None; s = (case stored of None \<Rightarrow> zeroEntry | Some s \<Rightarrow> s) in
      if metaMatch l r s hasStored then (refreshStateMeta p l r s hasStored now rc, [])
      else if hasStored \<and> \<not> se_deleted s then
        (let localChanged = observedChangedFromStored l s True \<or> om_mode l \<noteq> se_mode s;
             remoteChanged = observedChangedFromStored r s False \<or> om_mode r \<noteq> se_mode s
         in if localChanged \<and> \<not> remoteChanged then (rc, planUpload p l)
            else if \<not> localChanged \<and> remoteChanged then (rc, [planDownload p r False])
            else if localChanged \<and> remoteChanged then (rc, [planDownload p r True])
            else (refreshStateMeta p l r s hasStored now rc, []))
      else (rc, [planDownload p r True]))"

definition planPath ::
    "int \<Rightarrow> (path \<Rightarrow> stat_result option os_result) \<Rightarrow> path list \<Rightarrow> (path \<Rightarrow> observed_meta option)
     \<Rightarrow> (path \<Rightarrow> observed_meta option) \<Rightarrow> (path \<Rightarrow> sync_entry option) \<Rightarrow> path \<Rightarrow> reconciler
     \<Rightarrow> reconciler \<times> sync_action list" where
  "planPath now rstat paths localM remote baseline p rc =
     (let (deferred, rc1) = deferScanForPendingUpload p rc in
      if deferred then (rc1, [])
      else case (localM p, remote p) of
        (Some l, None) \<Rightarrow> planLocalOnly rstat p l (baseline p) rc1
      | (None, Some r) \<Rightarrow> planRemoteOnly paths remote p r (baseline p) rc1
      | (Some l, Some r) \<Rightarrow> planBoth now p l r (baseline p) rc1
      | (None, None) \<Rightarrow> (rc1, []))"

text \<open>The loop over the final plan that attaches the observations the executor re-checks.\<close>

definition stampAction ::
    "(path \<Rightarrow> observed_meta option) \<Rightarrow> (path \<Rightarrow> observed_meta option) \<Rightarrow> (path \<Rightarrow> sync_entry option)
     \<Rightarrow> sync_action \<Rightarrow> sync_action" where
  "stampAction localM remote baseline a =
     a\<lparr>sa_checkState := True,
       sa_stored := (case baseline (sa_path a) of None \<Rightarrow> zeroEntry | Some e \<Rightarrow> e),
       sa_hasStored := baseline (sa_path a) \<noteq> None,
       sa_localMeta := (case localM (sa_path a) of None \<Rightarrow> sa_localMeta a | Some l \<Rightarrow> Some l),
       sa_remoteMeta := (case remote (sa_path a) of None \<Rightarrow> sa_remoteMeta a | Some r \<Rightarrow> Some r)\<rparr>"

fun planLoop ::
    "int \<Rightarrow> (path \<Rightarrow> stat_result option os_result) \<Rightarrow> path list \<Rightarrow> (path \<Rightarrow> observed_meta option)
     \<Rightarrow> (path \<Rightarrow> observed_meta option) \<Rightarrow> (path \<Rightarrow> sync_entry option) \<Rightarrow> path list \<Rightarrow> reconciler
     \<Rightarrow> reconciler \<times> sync_action list" where
  "planLoop now rstat paths localM remote baseline [] rc = (rc, [])"
| "planLoop now rstat paths localM remote baseline (p # ps) rc =
     (let (rc1, as) = planPath now rstat paths localM remote baseline p rc;
          (rc2, bs) = planLoop now rstat paths localM remote baseline ps rc1
      in (rc2, as @ bs))"

definition buildPlan ::
    "int \<Rightarrow> (path \<Rightarrow> stat_result option os_result) \<Rightarrow> path list \<Rightarrow> (path \<Rightarrow> observed_meta option)
     \<Rightarrow> (path \<Rightarrow> observed_meta option) \<Rightarrow> reconciler \<Rightarrow> reconciler \<times> sync_action list" where
  "buildPlan now rstat paths localM remote rc =
     (let baseline = entries rc;
          (rc', plan) = planLoop now rstat paths localM remote baseline paths rc
      in (rc', map (stampAction localM remote baseline) plan))"

subsection \<open>Deletes that happened while the daemon was offline, and old tombstones\<close>

definition offlineDelete :: "int \<Rightarrow> local_env \<Rightarrow> (path \<Rightarrow> observed_meta option) \<Rightarrow> path \<Rightarrow> reconciler \<Rightarrow> reconciler" where
  "offlineDelete now env localM p rc =
     (case entries rc p of
        None \<Rightarrow> rc
      | Some e \<Rightarrow>
          if se_deleted e then rc
          else if localM p \<noteq> None then rc
          else if le_lstat env p \<noteq> OsNotExist then rc
          else putEntry p (e\<lparr>se_deleted := True, se_lastSyncedAt := now\<rparr>) rc)"

definition detectOfflineDeletes ::
    "int \<Rightarrow> local_env \<Rightarrow> (path \<Rightarrow> observed_meta option) \<Rightarrow> path list \<Rightarrow> reconciler \<Rightarrow> reconciler" where
  "detectOfflineDeletes now env localM keys rc = fold (offlineDelete now env localM) keys rc"

definition tombstoneMaxAge :: int where
  "tombstoneMaxAge = 300000000000"

definition cleanupTombstones :: "int \<Rightarrow> path list \<Rightarrow> reconciler \<Rightarrow> reconciler" where
  "cleanupTombstones now keys rc =
     fold (\<lambda>p r. case entries r p of
                   None \<Rightarrow> r
                 | Some e \<Rightarrow> if se_deleted e \<and> now - se_lastSyncedAt e > tombstoneMaxAge
                              then setEntry p None r else r) keys rc"

subsection \<open>Execution phases\<close>

definition pathDepth :: "path \<Rightarrow> nat" where
  "pathDepth p = countByte CHR ''/'' p"

definition dirLess :: "sync_action \<Rightarrow> sync_action \<Rightarrow> bool" where
  "dirLess a b =
     (if pathDepth (sa_path a) \<noteq> pathDepth (sa_path b) then pathDepth (sa_path a) < pathDepth (sa_path b)
      else sa_path a < sa_path b)"

definition deleteLess :: "sync_action \<Rightarrow> sync_action \<Rightarrow> bool" where
  "deleteLess a b =
     (if pathDepth (sa_path a) \<noteq> pathDepth (sa_path b) then pathDepth (sa_path a) > pathDepth (sa_path b)
      else sa_path a > sa_path b)"

definition isDirAction :: "sync_action \<Rightarrow> bool" where
  "isDirAction a \<longleftrightarrow> sa_kind a \<in> {MkdirLocal, MkdirRemote}"

definition isDeleteAction :: "sync_action \<Rightarrow> bool" where
  "isDeleteAction a \<longleftrightarrow> sa_kind a \<in> {DeleteLocal, DeleteRemote}"

definition dirActions :: "sync_action list \<Rightarrow> sync_action list" where
  "dirActions plan = sortBy dirLess (filter isDirAction plan)"

definition deleteActions :: "sync_action list \<Rightarrow> sync_action list" where
  "deleteActions plan = sortBy deleteLess (filter isDeleteAction plan)"

definition fileActions :: "sync_action list \<Rightarrow> sync_action list" where
  "fileActions plan = filter (\<lambda>a. \<not> isDirAction a \<and> \<not> isDeleteAction a) plan"

subsection \<open>Frame lemmas of the planner\<close>

text \<open>
  While a plan is built the entries change only by \<open>refreshStateMeta\<close>: no tombstone appears, and
  the set of paths with a pending upload stays.
\<close>

definition planFrame :: "reconciler \<Rightarrow> reconciler \<Rightarrow> bool" where
  "planFrame rc rc' \<longleftrightarrow>
     (\<forall>q e'. entries rc' q = Some e' \<longrightarrow> se_deleted e' \<longrightarrow> entries rc q = Some e')
     \<and> (\<forall>q. (rc_pending rc' q = None) = (rc_pending rc q = None))
     \<and> rc_effects rc' = rc_effects rc"

lemma planFrame_refl [simp, intro]: "planFrame rc rc"
  by (simp add: planFrame_def)

lemma planFrame_trans: "planFrame a b \<Longrightarrow> planFrame b c \<Longrightarrow> planFrame a c"
  unfolding planFrame_def by metis

lemma planFrame_sweep [simp, intro]: "planFrame rc (requestFullSweep rc)"
  by (simp add: planFrame_def)

lemma planFrame_defer: "planFrame rc (snd (deferScanForPendingUpload p rc))"
  by (simp add: planFrame_def)

lemma refreshedEntry_simps [simp]:
  "\<not> se_deleted (refreshedEntry e l r now)"
  "se_version (refreshedEntry e l r now) = se_version e"
  by (simp_all add: refreshedEntry_def)

lemma planFrame_refresh: "planFrame rc (refreshStateMeta p l r s hs now rc)"
  by (auto simp: refreshStateMeta_def Let_def planFrame_def)

lemma planFrame_planLocalOnly: "planFrame rc (fst (planLocalOnly rstat p l stored rc))"
  by (auto simp: planLocalOnly_def split: option.splits os_result.splits)

lemma planRemoteOnly_fst [simp]: "fst (planRemoteOnly paths remote p r stored rc) = rc"
  by (auto simp: planRemoteOnly_def split: option.splits)

lemma planFrame_planBoth: "planFrame rc (fst (planBoth now p l r stored rc))"
  by (auto simp: planBoth_def Let_def planFrame_refresh split: option.splits)

lemma planFrame_planPath: "planFrame rc (fst (planPath now rstat paths localM remote baseline p rc))"
  unfolding planPath_def
  by (cases "localM p"; cases "remote p")
    (auto simp: planFrame_defer split_beta
      intro: planFrame_trans [OF planFrame_defer planFrame_planLocalOnly]
        planFrame_trans [OF planFrame_defer planFrame_planBoth])

lemma planFrame_planLoop: "planFrame rc (fst (planLoop now rstat paths localM remote baseline ps rc))"
proof (induction ps arbitrary: rc)
  case (Cons p ps)
  show ?case
    using planFrame_trans [OF planFrame_planPath Cons] by (simp add: split_beta)
qed simp

lemma planUpload_path: "a \<in> set (planUpload p l) \<Longrightarrow> sa_path a = p"
  by (auto simp: planUpload_def newAction_def split: if_splits)

lemma planUpload_kind:
  "a \<in> set (planUpload p l) \<Longrightarrow> sa_kind a \<in> {Upload, SymlinkUpload, MkdirRemote}"
  by (auto simp: planUpload_def newAction_def split: if_splits)

lemma planUpload_conflict: "a \<in> set (planUpload p l) \<Longrightarrow> \<not> sa_conflict a"
  by (auto simp: planUpload_def newAction_def split: if_splits)

lemma planUpload_length: "length (planUpload p l) \<le> 1"
  by (simp add: planUpload_def)

lemma planDownload_simps [simp]:
  "sa_path (planDownload p r c) = p"
  "sa_kind (planDownload p r c) \<in> {MkdirLocal, SymlinkDownload, Download}"
  by (auto simp: planDownload_def newAction_def)

lemma planDownload_conflict:
  "sa_kind (planDownload p r c) \<noteq> MkdirLocal \<Longrightarrow> sa_conflict (planDownload p r c) = c"
  by (auto simp: planDownload_def newAction_def split: if_splits)

lemma planDownload_kinds:
  "sa_kind (planDownload p r c) \<noteq> DeleteLocal" "sa_kind (planDownload p r c) \<noteq> DeleteRemote"
  "sa_kind (planDownload p r c) \<noteq> Upload" "sa_kind (planDownload p r c) \<noteq> SymlinkUpload"
  "sa_kind (planDownload p r c) \<noteq> MkdirRemote"
  by (auto simp: planDownload_def newAction_def)

lemma newAction_simps [simp]:
  "sa_kind (newAction k p) = k" "sa_path (newAction k p) = p" "sa_conflict (newAction k p) = False"
  by (simp_all add: newAction_def)

lemma planPath_path:
  "a \<in> set (snd (planPath now rstat paths localM remote baseline p rc)) \<Longrightarrow> sa_path a = p"
  by (auto simp: planPath_def split_beta planLocalOnly_def planRemoteOnly_def planBoth_def Let_def
      split: option.splits os_result.splits if_splits dest: planUpload_path)

lemma planPath_length: "length (snd (planPath now rstat paths localM remote baseline p rc)) \<le> 1"
  by (auto simp: planPath_def split_beta planLocalOnly_def planRemoteOnly_def planBoth_def Let_def
      planUpload_length [unfolded One_nat_def] split: option.splits os_result.splits)

lemma planPath_pending:
  "a \<in> set (snd (planPath now rstat paths localM remote baseline p rc)) \<Longrightarrow> rc_pending rc p = None"
  by (auto simp: planPath_def split_beta deferScan_iff split: if_splits)

lemma planLoop_action:
  assumes "a \<in> set (snd (planLoop now rstat paths localM remote baseline ps rc))"
  shows "sa_path a \<in> set ps \<and>
     (\<exists>rc1. planFrame rc rc1 \<and> a \<in> set (snd (planPath now rstat paths localM remote baseline (sa_path a) rc1)))"
  using assms
proof (induction ps arbitrary: rc)
  case (Cons p ps)
  let ?P = "\<lambda>p rc. planPath now rstat paths localM remote baseline p rc"
  from Cons.prems consider "a \<in> set (snd (?P p rc))"
    | "a \<in> set (snd (planLoop now rstat paths localM remote baseline ps (fst (?P p rc))))"
    by (auto simp: split_beta)
  then show ?case
  proof cases
    case 1
    then show ?thesis using planPath_path by (intro conjI exI [of _ rc]) fastforce+
  next
    case 2
    from Cons.IH [OF this] show ?thesis using planFrame_trans [OF planFrame_planPath] by fastforce
  qed
qed simp

lemma planLoop_distinct:
  "distinct ps \<Longrightarrow> distinct (map sa_path (snd (planLoop now rstat paths localM remote baseline ps rc)))"
proof (induction ps arbitrary: rc)
  case (Cons p ps)
  let ?as = "snd (planPath now rstat paths localM remote baseline p rc)"
  have "length ?as \<le> 1" by (rule planPath_length)
  then have "?as = [] \<or> (\<exists>a. ?as = [a])" by (cases ?as) auto
  moreover have "\<forall>a \<in> set ?as. sa_path a = p" by (auto dest: planPath_path)
  ultimately show ?case
    using Cons by (auto simp: split_beta dest!: planLoop_action)
qed simp

lemma stampAction_simps [simp]:
  "sa_kind (stampAction localM remote baseline a) = sa_kind a"
  "sa_path (stampAction localM remote baseline a) = sa_path a"
  "sa_conflict (stampAction localM remote baseline a) = sa_conflict a"
  by (simp_all add: stampAction_def)

lemma buildPlan_action:
  assumes "a \<in> set (snd (buildPlan now rstat paths localM remote rc))"
  obtains b rc1 where "planFrame rc rc1" "sa_path a \<in> set paths"
    "b \<in> set (snd (planPath now rstat paths localM remote (entries rc) (sa_path a) rc1))"
    "a = stampAction localM remote (entries rc) b"
  using assms by (auto simp: buildPlan_def split_beta Let_def dest!: planLoop_action)

text \<open>The decisions of the planner for one path.\<close>

lemma planPath_cases:
  assumes "b \<in> set (snd (planPath now rstat paths localM remote baseline p rc))"
  obtains (up_new) l where "localM p = Some l" "remote p = None" "b \<in> set (planUpload p l)"
      "case baseline p of None \<Rightarrow> True | Some e \<Rightarrow> se_deleted e"
    | (del_local) l e where "localM p = Some l" "remote p = None" "b = newAction DeleteLocal p"
      "baseline p = Some e" "\<not> se_deleted e" "rstat p \<in> {OsOk None, OsNotExist}"
    | (down_new) r where "localM p = None" "remote p = Some r" "b = planDownload p r False"
    | (del_remote) r e where "localM p = None" "remote p = Some r" "b = newAction DeleteRemote p"
      "baseline p = Some e" "se_deleted e"
      "\<not> (om_kind r = ''dir'' \<and> mountRemoteDirHasLiveDescendants p paths remote (entries rc))"
    | (up_changed) l r e where "localM p = Some l" "remote p = Some r" "b \<in> set (planUpload p l)"
      "baseline p = Some e" "\<not> se_deleted e" "\<not> observedChangedFromStored r e False" "om_mode r = se_mode e"
    | (down_changed) l r e where "localM p = Some l" "remote p = Some r" "b = planDownload p r False"
      "baseline p = Some e" "\<not> se_deleted e" "\<not> observedChangedFromStored l e True" "om_mode l = se_mode e"
    | (down_conflict) l r where "localM p = Some l" "remote p = Some r" "b = planDownload p r True"
proof -
  have b: "b \<in> set (snd (case (localM p, remote p) of
        (Some l, None) \<Rightarrow> planLocalOnly rstat p l (baseline p) (snd (deferScanForPendingUpload p rc))
      | (None, Some r) \<Rightarrow> planRemoteOnly paths remote p r (baseline p) (snd (deferScanForPendingUpload p rc))
      | (Some l, Some r) \<Rightarrow> planBoth now p l r (baseline p) (snd (deferScanForPendingUpload p rc))
      | (None, None) \<Rightarrow> (snd (deferScanForPendingUpload p rc), [])))"
    using assms by (auto simp: planPath_def split_beta split: if_splits)
  show thesis
  proof (cases "localM p")
    case None
    with b show thesis
      using down_new del_remote
      by (auto simp: planRemoteOnly_def split: option.splits if_splits)
  next
    case (Some l)
    show thesis
    proof (cases "remote p")
      case None
      with b Some show thesis
        using up_new del_local
        by (auto simp: planLocalOnly_def split: option.splits if_splits os_result.splits)
    next
      case (Some r)
      with b \<open>localM p = Some l\<close> show thesis
        using up_changed down_changed down_conflict
        by (auto simp: planBoth_def Let_def split: option.splits if_splits)
    qed
  qed
qed

subsection \<open>Example observations\<close>

definition exampleMeta :: "string \<Rightarrow> int \<Rightarrow> observed_meta" where
  "exampleMeta kind sz = \<lparr>om_revision = ''r1'', om_inode = 1, om_kind = kind, om_mode = 420, om_size = sz,
     om_mtimeMs = 5, om_mtimeNs = 0, om_target = []\<rparr>"

definition exampleEntry :: sync_entry where
  "exampleEntry = zeroEntry\<lparr>se_type := ''file'', se_mode := 420, se_size := 1, se_localMtimeMs := 5, se_remoteMtimeMs := 5,
     se_remoteRevision := ''r1'', se_remoteInode := 1, se_version := 3\<rparr>"

subsection \<open>Deletes of the plan\<close>

text \<open>
  C11: A remote path is deleted only when the user deleted it here: the path is gone locally, its
  entry is a tombstone, no upload is pending for it, and when it is a directory then every scanned
  remote path below it is a tombstone too.
\<close>

theorem plan_deletes_remote_tombstones:
  assumes "a \<in> set (snd (buildPlan now rstat paths localM remote rc))" and "sa_kind a = DeleteRemote"
  shows "localM (sa_path a) = None \<and> rc_pending rc (sa_path a) = None
    \<and> (\<exists>e. entries rc (sa_path a) = Some e \<and> se_deleted e)
    \<and> (\<exists>r. remote (sa_path a) = Some r \<and> (om_kind r = ''dir'' \<longrightarrow>
         (\<forall>child \<in> set paths. remote child \<noteq> None \<longrightarrow>
            hasPrefix child (trimSuffix (sa_path a) ''/'' @ ''/'') \<longrightarrow>
            (\<exists>e. entries rc child = Some e \<and> se_deleted e))))"
proof -
  obtain b rc1 where fr: "planFrame rc rc1"
    and b: "b \<in> set (snd (planPath now rstat paths localM remote (entries rc) (sa_path a) rc1))"
    and a: "a = stampAction localM remote (entries rc) b"
    using assms(1) by (rule buildPlan_action)
  have pend: "rc_pending rc (sa_path a) = None"
    using planPath_pending [OF b] fr by (simp add: planFrame_def)
  have k: "sa_kind b = DeleteRemote" using assms(2) a by simp
  from b obtain r e where r: "localM (sa_path a) = None" "remote (sa_path a) = Some r"
      and e: "entries rc (sa_path a) = Some e" "se_deleted e"
      and d: "\<not> (om_kind r = ''dir'' \<and> mountRemoteDirHasLiveDescendants (sa_path a) paths remote (entries rc1))"
    by (cases rule: planPath_cases) (use k in \<open>auto simp: planDownload_kinds dest: planUpload_kind\<close>)
  have "\<exists>e. entries rc child = Some e \<and> se_deleted e"
    if "om_kind r = ''dir''" "child \<in> set paths" "remote child \<noteq> None"
      "hasPrefix child (trimSuffix (sa_path a) ''/'' @ ''/'')" for child
  proof -
    from that d obtain e' where "entries rc1 child = Some e'" "se_deleted e'"
      unfolding mountRemoteDirHasLiveDescendants_def by (fastforce split: option.splits)
    with fr show ?thesis unfolding planFrame_def by blast
  qed
  with r e pend show ?thesis by blast
qed

theorem plan_deletes_remote_tombstones_witness:
  "\<exists>e. entries (startWith [''a'' \<mapsto> exampleEntry\<lparr>se_deleted := True\<rparr>]) ''a'' = Some e \<and> se_deleted e"
proof -
  let ?rc = "startWith [''a'' \<mapsto> exampleEntry\<lparr>se_deleted := True\<rparr>]"
  let ?a = "stampAction Map.empty [''a'' \<mapsto> exampleMeta ''file'' 1] (entries ?rc) (newAction DeleteRemote ''a'')"
  have "?a \<in> set (snd (buildPlan 0 (\<lambda>_. OsOk None) [''a''] Map.empty [''a'' \<mapsto> exampleMeta ''file'' 1] ?rc))"
    by (simp add: Let_def buildPlan_def planPath_def deferScanForPendingUpload_def planRemoteOnly_def exampleMeta_def)
  from plan_deletes_remote_tombstones [OF this] show ?thesis by simp
qed

text \<open>
  C12: A local path is deleted only when it had been synced (a live entry), the scan did not see it
  remotely, and a fresh remote \<open>Stat\<close> confirms that it is gone; an error of that \<open>Stat\<close> never
  deletes.
\<close>

theorem plan_deletes_local_confirmed:
  assumes "a \<in> set (snd (buildPlan now rstat paths localM remote rc))" and "sa_kind a = DeleteLocal"
  shows "localM (sa_path a) \<noteq> None \<and> remote (sa_path a) = None \<and> rc_pending rc (sa_path a) = None
    \<and> (\<exists>e. entries rc (sa_path a) = Some e \<and> \<not> se_deleted e)
    \<and> rstat (sa_path a) \<in> {OsOk None, OsNotExist}"
proof -
  obtain b rc1 where fr: "planFrame rc rc1"
    and b: "b \<in> set (snd (planPath now rstat paths localM remote (entries rc) (sa_path a) rc1))"
    and a: "a = stampAction localM remote (entries rc) b"
    using assms(1) by (rule buildPlan_action)
  have pend: "rc_pending rc (sa_path a) = None"
    using planPath_pending [OF b] fr by (simp add: planFrame_def)
  have k: "sa_kind b = DeleteLocal" using assms(2) a by simp
  from b show ?thesis
    by (cases rule: planPath_cases) (use k pend in \<open>auto simp: planDownload_kinds dest: planUpload_kind\<close>)
qed

theorem plan_deletes_local_confirmed_witness:
  "\<exists>e. entries (startWith [''a'' \<mapsto> exampleEntry]) ''a'' = Some e \<and> \<not> se_deleted e"
proof -
  let ?rc = "startWith [''a'' \<mapsto> exampleEntry]"
  let ?a = "stampAction [''a'' \<mapsto> exampleMeta ''file'' 1] Map.empty (entries ?rc) (newAction DeleteLocal ''a'')"
  have "?a \<in> set (snd (buildPlan 0 (\<lambda>_. OsNotExist) [''a''] [''a'' \<mapsto> exampleMeta ''file'' 1] Map.empty ?rc))"
    by (simp add: Let_def buildPlan_def planPath_def deferScanForPendingUpload_def planLocalOnly_def exampleEntry_def zeroEntry_def)
  from plan_deletes_local_confirmed [OF this] show ?thesis by simp
qed

subsection \<open>No side is overwritten unseen\<close>

text \<open>
  C13: An upload is planned only where the remote side is absent or unchanged since the baseline,
  and a download of a file or symlink that does not ask for a conflict copy only where the local
  side is absent or unchanged since the baseline.
\<close>

theorem plan_overwrites_unchanged_only:
  assumes "a \<in> set (snd (buildPlan now rstat paths localM remote rc))"
  shows "(case (remote (sa_path a), sa_kind a \<in> {Upload, SymlinkUpload, MkdirRemote}) of
         (Some r, True) \<Rightarrow> \<exists>e. entries rc (sa_path a) = Some e \<and> \<not> se_deleted e
                    \<and> \<not> observedChangedFromStored r e False \<and> om_mode r = se_mode e
       | _ \<Rightarrow> True)
    \<and> (case (localM (sa_path a), sa_kind a \<in> {Download, SymlinkDownload} \<and> \<not> sa_conflict a) of
         (Some l, True) \<Rightarrow> \<exists>e. entries rc (sa_path a) = Some e \<and> \<not> se_deleted e
                    \<and> \<not> observedChangedFromStored l e True \<and> om_mode l = se_mode e
       | _ \<Rightarrow> True)"
proof -
  obtain b rc1 where b: "b \<in> set (snd (planPath now rstat paths localM remote (entries rc) (sa_path a) rc1))"
    and a: "a = stampAction localM remote (entries rc) b"
    using assms(1) by (rule buildPlan_action)
  have k: "sa_kind b = sa_kind a" "sa_conflict b = sa_conflict a" using a by simp_all
  from b show ?thesis
    by (cases rule: planPath_cases)
      (use k in \<open>auto simp: planDownload_kinds planDownload_conflict split: bool.splits option.splits dest: planUpload_kind\<close>)
qed

theorem plan_overwrites_unchanged_only_witness:
  "\<not> observedChangedFromStored (exampleMeta ''file'' 1) exampleEntry False"
proof -
  let ?rc = "startWith [''a'' \<mapsto> exampleEntry]"
  let ?L = "[''a'' \<mapsto> exampleMeta ''file'' 2]" and ?R = "[''a'' \<mapsto> exampleMeta ''file'' 1]"
  let ?b = "(newAction Upload ''a'')\<lparr>sa_mode := 420, sa_localMeta := Some (exampleMeta ''file'' 2)\<rparr>"
  have "stampAction ?L ?R (entries ?rc) ?b \<in> set (snd (buildPlan 0 (\<lambda>_. OsNotExist) [''a''] ?L ?R ?rc))"
    by (simp add: Let_def buildPlan_def planPath_def deferScanForPendingUpload_def planBoth_def metaMatch_def planUpload_def
        observedChangedFromStored_def exampleMeta_def exampleEntry_def zeroEntry_def)
  from plan_overwrites_unchanged_only [OF this] show ?thesis by simp
qed

text \<open>
  The plan has at most one action for a path, and only for scanned paths with no pending
  upload, whatever the order the paths are visited in.
\<close>

theorem plan_one_action_per_path:
  assumes "distinct paths"
  shows "distinct (map sa_path (snd (buildPlan now rstat paths localM remote rc)))
    \<and> (\<forall>a \<in> set (snd (buildPlan now rstat paths localM remote rc)).
         sa_path a \<in> set paths \<and> rc_pending rc (sa_path a) = None)"
proof
  show "distinct (map sa_path (snd (buildPlan now rstat paths localM remote rc)))"
    using planLoop_distinct [OF assms] by (simp add: buildPlan_def split_beta Let_def comp_def)
  show "\<forall>a \<in> set (snd (buildPlan now rstat paths localM remote rc)).
         sa_path a \<in> set paths \<and> rc_pending rc (sa_path a) = None"
    by (auto elim!: buildPlan_action simp: planFrame_def dest: planPath_pending)
qed

theorem plan_one_action_per_path_witness:
  "distinct (map sa_path (snd (buildPlan 0 (\<lambda>_. OsNotExist) [''a'', ''b''] [''a'' \<mapsto> exampleMeta ''file'' 1]
     [''b'' \<mapsto> exampleMeta ''dir'' 0] (startWith Map.empty))))"
  using plan_one_action_per_path [of "[''a'', ''b'']" 0 "\<lambda>_. OsNotExist" "[''a'' \<mapsto> exampleMeta ''file'' 1]"
      "[''b'' \<mapsto> exampleMeta ''dir'' 0]" "startWith Map.empty"] by simp

subsection \<open>Convergence of the baseline\<close>

lemma metaMatch_again:
  assumes "metaMatch l r s hasStored" and "hasStored \<or> se_remoteRevision s = []"
  shows "metaMatch l r (refreshedEntry s l r now) True"
  using assms unfolding metaMatch_def refreshedEntry_def
  by (simp only: sync_entry.simps split: if_splits) (simp_all, blast+)

lemma metaMatch_unchanged:
  assumes l: "\<not> observedChangedFromStored l s True" "om_mode l = se_mode s"
    and r: "\<not> observedChangedFromStored r s False" "om_mode r = se_mode s"
    and rev: "if om_kind r = ''file'' then se_remoteRevision s = [] \<or> om_revision r \<noteq> [] else om_revision r = []"
  shows "metaMatch l r (refreshedEntry s l r now) True"
proof -
  have k: "om_kind l = se_type s" "om_kind r = se_type s"
    using l(1) r(1) by (auto simp: observedChangedFromStored_def split: if_splits)
  have "om_kind l = ''dir'' \<or> om_kind l = ''symlink'' \<or> om_kind l = ''file''"
    using l(1) by (auto simp: observedChangedFromStored_def split: if_splits)
  then consider "se_type s = ''dir''" | "se_type s = ''symlink''" | "se_type s = ''file''"
    unfolding k by blast
  then show ?thesis
  proof cases
    case 3
    then have "om_size l = se_size s" "om_size r = se_size s"
      "se_remoteRevision s = [] \<or> om_revision r = se_remoteRevision s \<and> om_inode r = se_remoteInode s"
      using l r k rev by (auto simp: observedChangedFromStored_def split: if_splits)
    then show ?thesis using l(2) r(2) k 3 unfolding metaMatch_def refreshedEntry_def by simp blast
  qed (use l r k rev in \<open>auto simp: metaMatch_def observedChangedFromStored_def refreshedEntry_def split: if_splits\<close>)
qed

lemma metaMatch_version [simp]: "metaMatch l r (e\<lparr>se_version := v\<rparr>) hs = metaMatch l r e hs"
  by (cases e) (simp only: metaMatch_def sync_entry.simps)

text \<open>
  A path that the planner finds in sync converges: after \<open>refreshStateMeta\<close> recorded the
  observations, a second look at the same observations takes the path as matching and plans
  nothing.  The last hypothesis is what the remote scan yields: no revision for directories and
  symlinks, one for files (needed only against a baseline that has one).
\<close>

theorem refresh_converges:
  assumes "snd (planBoth now p l r (entries rc p) rc) = []"
    and "om_kind l \<in> {''file'', ''dir'', ''symlink''}"
    and "if om_kind r = ''file'' then \<forall>e. entries rc p = Some e \<longrightarrow> se_remoteRevision e = [] \<or> om_revision r \<noteq> []
         else om_revision r = []"
  shows "\<exists>e'. entries (fst (planBoth now p l r (entries rc p) rc)) p = Some e'
      \<and> se_version e' = nextV rc \<and> metaMatch l r e' True
      \<and> snd (planBoth now2 p l r (Some e') rc2) = []"
proof -
  define s where "s = (case entries rc p of None \<Rightarrow> zeroEntry | Some e \<Rightarrow> e)"
  define hs where "hs = (entries rc p \<noteq> None)"
  have up: "planUpload p l \<noteq> []" using assms(2) by (auto simp: planUpload_def)
  have pb: "planBoth now p l r (entries rc p) rc = (refreshStateMeta p l r s hs now rc, [])"
    and ok: "metaMatch l r s hs \<or>
      hs \<and> \<not> observedChangedFromStored l s True \<and> om_mode l = se_mode s
      \<and> \<not> observedChangedFromStored r s False \<and> om_mode r = se_mode s"
    using assms(1) up unfolding planBoth_def Let_def s_def [symmetric] hs_def [symmetric]
    by (simp_all only: snd_conv list.distinct(2) not_Cons_self2 list.simps(3) split: if_splits) (simp_all, blast?)
  have rev: "if om_kind r = ''file'' then se_remoteRevision s = [] \<or> om_revision r \<noteq> [] else om_revision r = []"
    "hs \<or> se_remoteRevision s = []"
    using assms(3) by (cases "entries rc p"; simp add: s_def hs_def zeroEntry_def)+
  from ok have mm: "metaMatch l r (refreshedEntry s l r now) True"
    using metaMatch_again [OF _ rev(2)] metaMatch_unchanged rev(1) by blast
  have "entries (refreshStateMeta p l r s hs now rc) p = Some ((refreshedEntry s l r now)\<lparr>se_version := nextV rc\<rparr>)"
    by (cases "entries rc p") (simp_all add: refreshStateMeta_def s_def hs_def)
  with pb mm show ?thesis by (simp add: planBoth_def)
qed

theorem refresh_converges_witness:
  "\<exists>e'. entries (fst (planBoth 7 ''a'' (exampleMeta ''file'' 1) (exampleMeta ''file'' 1)
        (entries (startWith [''a'' \<mapsto> exampleEntry]) ''a'') (startWith [''a'' \<mapsto> exampleEntry]))) ''a'' = Some e'
     \<and> metaMatch (exampleMeta ''file'' 1) (exampleMeta ''file'' 1) e' True"
proof -
  let ?rc = "startWith [''a'' \<mapsto> exampleEntry]" and ?m = "exampleMeta ''file'' 1"
  have "snd (planBoth 7 ''a'' ?m ?m (entries ?rc ''a'') ?rc) = []"
    by (simp add: Let_def planBoth_def metaMatch_def exampleMeta_def exampleEntry_def zeroEntry_def)
  from refresh_converges [OF this] show ?thesis
    by (simp add: exampleMeta_def exampleEntry_def zeroEntry_def) blast
qed

subsection \<open>Offline deletes and tombstone expiry\<close>

lemma offlineDelete_other: "q \<noteq> p \<Longrightarrow> entries (offlineDelete now env localM p rc) q = entries rc q"
  by (simp add: offlineDelete_def split: option.splits)

lemma vstep_offlineDelete: "vstep 1 rc (offlineDelete now env localM p rc)"
  by (auto simp: offlineDelete_def simp del: One_nat_def split: option.splits intro: vsteps)

text \<open>
  \<open>detectOfflineDeletes\<close> turns exactly the live entries into tombstones whose path neither the
  local scan nor a fresh \<open>Lstat\<close> finds, in any order of visiting the entries; everything else
  keeps its entry, and stored versions stay below the counter.
\<close>

theorem offline_deletes_exact:
  assumes "distinct keys" and "set keys = dom (entries rc)"
  shows "\<exists>ver. entries (detectOfflineDeletes now env localM keys rc) q =
      (case entries rc q of
         None \<Rightarrow> None
       | Some e \<Rightarrow> Some (if \<not> se_deleted e \<and> localM q = None \<and> le_lstat env q = OsNotExist
                     then e\<lparr>se_deleted := True, se_lastSyncedAt := now, se_version := ver\<rparr> else e))"
proof (cases "q \<in> set keys")
  case True
  obtain r1 where "entries r1 q = entries rc q"
    "entries (detectOfflineDeletes now env localM keys rc) q = entries (offlineDelete now env localM q r1) q"
    unfolding detectOfflineDeletes_def using offlineDelete_other \<open>distinct keys\<close> True
    by (rule fold_entries_key)
  with True assms(2) show ?thesis by (auto simp: offlineDelete_def split: option.splits)
next
  case False
  have "entries (detectOfflineDeletes now env localM keys rc) q = entries rc q"
    unfolding detectOfflineDeletes_def using offlineDelete_other False by (rule fold_entries_other)
  moreover have "entries rc q = None" using False assms(2) by blast
  ultimately show ?thesis by simp
qed

theorem offline_deletes_exact_witness:
  "\<exists>ver. entries (detectOfflineDeletes 8 \<lparr>le_lstat = \<lambda>_. OsNotExist, le_readFile = \<lambda>_. OsNotExist, le_readlink = \<lambda>_. OsNotExist\<rparr>
       Map.empty [''a''] (startWith [''a'' \<mapsto> exampleEntry])) ''a''
     = Some (exampleEntry\<lparr>se_deleted := True, se_lastSyncedAt := 8, se_version := ver\<rparr>)"
  using offline_deletes_exact [of "[''a'']" "startWith [''a'' \<mapsto> exampleEntry]" 8
      "\<lparr>le_lstat = \<lambda>_. OsNotExist, le_readFile = \<lambda>_. OsNotExist, le_readlink = \<lambda>_. OsNotExist\<rparr>" Map.empty "''a''"]
  by (simp add: exampleEntry_def zeroEntry_def)

lemma cleanupTombstones_entries:
  assumes "distinct keys" and "set keys = dom (entries rc)"
  shows "entries (cleanupTombstones now keys rc) q =
      (case entries rc q of
         None \<Rightarrow> None
       | Some e \<Rightarrow> if se_deleted e \<and> now - se_lastSyncedAt e > tombstoneMaxAge then None else Some e)"
proof -
  let ?f = "\<lambda>p r. case entries r p of
                   None \<Rightarrow> r
                 | Some e \<Rightarrow> if se_deleted e \<and> now - se_lastSyncedAt e > tombstoneMaxAge
                              then setEntry p None r else r"
  have other: "q \<noteq> p \<Longrightarrow> entries (?f p r) q = entries r q" for p r q
    by (simp split: option.splits)
  show ?thesis
  proof (cases "q \<in> set keys")
    case True
    obtain r1 where "entries r1 q = entries rc q" "entries (fold ?f keys rc) q = entries (?f q r1) q"
      using other \<open>distinct keys\<close> True by (rule fold_entries_key)
    then show ?thesis unfolding cleanupTombstones_def by (auto split: option.splits)
  next
    case False
    have "entries (fold ?f keys rc) q = entries rc q"
      using other False by (rule fold_entries_other)
    moreover have "entries rc q = None" using False assms(2) by blast
    ultimately show ?thesis unfolding cleanupTombstones_def by simp
  qed
qed

subsection \<open>Order of the phases\<close>

lemma pathDepth_child: "hasPrefix q (p @ ''/'') \<Longrightarrow> pathDepth p < pathDepth q"
  by (auto simp: hasPrefix_iff pathDepth_def)

lemma dirActions_sorted: "sorted_wrt (\<lambda>a b. \<not> dirLess b a) (dirActions plan)"
  unfolding dirActions_def by (intro sorted_sortBy) (auto simp: dirLess_def split: if_splits)

lemma deleteActions_sorted: "sorted_wrt (\<lambda>a b. \<not> deleteLess b a) (deleteActions plan)"
  unfolding deleteActions_def by (intro sorted_sortBy) (auto simp: deleteLess_def split: if_splits)

lemma dirActions_parents_first:
  assumes "dirActions plan = xs @ a # ys" and "b \<in> set ys"
  shows "\<not> hasPrefix (sa_path a) (sa_path b @ ''/'')"
  using assms dirActions_sorted [of plan]
  by (auto simp: sorted_wrt_append dirLess_def dest!: pathDepth_child)

lemma deleteActions_children_first:
  assumes "deleteActions plan = xs @ a # ys" and "b \<in> set ys"
  shows "\<not> hasPrefix (sa_path b) (sa_path a @ ''/'')"
  using assms deleteActions_sorted [of plan]
  by (auto simp: sorted_wrt_append deleteLess_def dest!: pathDepth_child)

lemma phases_mset: "mset (dirActions plan @ deleteActions plan @ fileActions plan) = mset plan"
proof -
  have "mset (filter isDirAction plan) + (mset (filter isDeleteAction plan) + mset (fileActions plan)) = mset plan"
    by (induction plan) (auto simp: isDirAction_def isDeleteAction_def fileActions_def)
  then show ?thesis by (simp add: dirActions_def deleteActions_def)
qed

end
