(* ===== verification/FileSnapshots.thy ===== *)
theory FileSnapshots
  imports SyncState SyncPaths
begin

text \<open>
  What the sync workers see of the remote client: its errors (\<open>mount/internal/client/errors.go\<close>),
  \<open>ReadFileSnapshot\<close>, which pairs the bytes of a file with the revision that produced them, and the
  write condition a snapshot carries into the next mutation (\<open>mount/internal/client/snapshot.go\<close>,
  \<open>native_parent.go\<close>).

  The answers of the client are given per attempt; the main result is that an accepted attempt
  describes one moment of the remote file, for any history in which a revision names its content.
\<close>

subsection \<open>Client errors\<close>

text \<open>The sentinel errors that callers tell apart with \<open>errors.Is\<close>, and any other message.\<close>

datatype client_err = CAlreadyExists | CNotFound | CRedisNil | CWriteConflict | CNotFile | COther string

definition clientErrText :: "client_err \<Rightarrow> string" where
  "clientErrText e = (case e of CAlreadyExists \<Rightarrow> ''already exists'' | CNotFound \<Rightarrow> ''no such file or directory''
     | CRedisNil \<Rightarrow> ''redis: nil'' | CWriteConflict \<Rightarrow> ''remote file changed during publication''
     | CNotFile \<Rightarrow> ''not a file'' | COther s \<Rightarrow> s)"

subsection \<open>Paths of the client\<close>

definition normalizePath :: "path \<Rightarrow> path" where
  "normalizePath p = (if p = [] then ''/'' else cleanRooted (if hasPrefix p ''/'' then p else CHR ''/'' # p))"

text \<open>\<open>path.Dir\<close> of a normalized path, which is also \<open>parentOf\<close>.\<close>

definition dirOf :: "path \<Rightarrow> path" where
  "dirOf p = (let d = parentDir p in if d = [] then ''/'' else d)"

lemma cleanRooted_slash [simp]: "cleanRooted p \<noteq> []" "hasPrefix (cleanRooted p) ''/''"
  by (simp_all add: cleanRooted_def hasPrefix_def)

lemma normalizePath_idem [simp]: "normalizePath (normalizePath p) = normalizePath p"
proof -
  have "normalizePath (cleanRooted q) = cleanRooted q" for q
    by (subst normalizePath_def) simp
  moreover have "''/'' = cleanRooted []" by (simp add: cleanRooted_def cleanStep_def)
  ultimately show ?thesis unfolding normalizePath_def [of p] by metis
qed

subsection \<open>Snapshots\<close>

record file_snapshot =
  fs_stat :: "stat_result option"
  fs_content :: bytes
  fs_parent :: "stat_result option"
  fs_path :: path

text \<open>
  The revision fields and the metadata that \<open>SameFileRevision\<close> compares; the other fields of a
  \<open>StatResult\<close> (owner and the other times) play no part in it.
\<close>

definition SameFileRevision :: "stat_result option \<Rightarrow> stat_result option \<Rightarrow> bool" where
  "SameFileRevision a b =
     (case (a, b) of
        (Some x, Some y) \<Rightarrow> st_inode x = st_inode y \<and> st_revision x = st_revision y \<and> st_type x = st_type y
          \<and> st_size x = st_size y \<and> st_mode x = st_mode y \<and> st_mtime x = st_mtime y
      | (None, None) \<Rightarrow> True
      | _ \<Rightarrow> False)"

definition sameParent :: "stat_result option \<Rightarrow> stat_result option \<Rightarrow> bool" where
  "sameParent a b =
     (case (a, b) of
        (Some x, Some y) \<Rightarrow> st_inode x = st_inode y \<and> st_type x = st_type y
      | (None, None) \<Rightarrow> True
      | _ \<Rightarrow> False)"

text \<open>The answers during attempt \<open>i\<close>, in the order of the calls.\<close>

record snapshot_env =
  sn_ctx :: "nat \<Rightarrow> client_err option"
  sn_parent :: "nat \<Rightarrow> client_err + stat_result option"
  sn_before :: "nat \<Rightarrow> client_err + stat_result option"
  sn_cat :: "nat \<Rightarrow> client_err + bytes"
  sn_after :: "nat \<Rightarrow> client_err + stat_result option"
  sn_parentAfter :: "nat \<Rightarrow> client_err + stat_result option"

text \<open>A \<open>Stat\<close> whose error says that the path is missing yields no result and no error.\<close>

definition statOrAbsent :: "client_err + stat_result option \<Rightarrow> client_err + stat_result option" where
  "statOrAbsent a = (case a of
     Inl e \<Rightarrow> if e = CRedisNil \<or> e = CNotFound then Inr None else Inl e
   | Inr s \<Rightarrow> Inr s)"

definition readAttempt :: "snapshot_env \<Rightarrow> path \<Rightarrow> nat \<Rightarrow> client_err + file_snapshot option" where
  "readAttempt env p i =
     (case sn_ctx env i of Some e \<Rightarrow> Inl e | None \<Rightarrow>
      case statOrAbsent (sn_parent env i) of Inl e \<Rightarrow> Inl e | Inr parent \<Rightarrow>
      case statOrAbsent (sn_before env i) of Inl e \<Rightarrow> Inl e | Inr before \<Rightarrow>
      if before \<noteq> None \<and> st_type (the before) \<noteq> ''file'' then Inl CNotFile
      else let data = (if before = None then Inr [] else sn_cat env i) in
      case statOrAbsent (sn_after env i) of Inl e \<Rightarrow> Inl e | Inr after \<Rightarrow>
      case statOrAbsent (sn_parentAfter env i) of Inl e \<Rightarrow> Inl e | Inr current \<Rightarrow>
      if \<not> SameFileRevision before after \<or> \<not> sameParent parent current then Inr None
      else case data of
             Inl e \<Rightarrow> Inl e
           | Inr d \<Rightarrow> Inr (Some \<lparr>fs_stat = before, fs_content = d, fs_parent = parent, fs_path = p\<rparr>))"

text \<open>\<open>n\<close> attempts are left, the next one has number \<open>i\<close>.\<close>

fun snapshotLoop :: "snapshot_env \<Rightarrow> path \<Rightarrow> nat \<Rightarrow> nat \<Rightarrow> client_err + file_snapshot" where
  "snapshotLoop env p i 0 = Inl CWriteConflict"
| "snapshotLoop env p i (Suc n) =
     (case readAttempt env p i of
        Inl e \<Rightarrow> Inl e
      | Inr None \<Rightarrow> snapshotLoop env p (Suc i) n
      | Inr (Some s) \<Rightarrow> Inr s)"

definition ReadFileSnapshot :: "snapshot_env \<Rightarrow> path \<Rightarrow> client_err + file_snapshot" where
  "ReadFileSnapshot env p = snapshotLoop env (normalizePath p) 0 8"

subsection \<open>The write condition\<close>

text \<open>
  The values the context of a mutation carries: the expected state of the file (\<open>Some None\<close> stands
  for ``absent''), the expected inodes of directories (inode 0 never matches), a file mode, the
  generation of the workspace and the key of the session lease.
\<close>

record write_context =
  wc_expected :: "stat_result option option"
  wc_parents :: "(path \<times> u64) list"
  wc_mode :: "u32 option"
  wc_generation :: string
  wc_lease :: string

definition emptyContext :: write_context where
  "emptyContext = \<lparr>wc_expected = None, wc_parents = [], wc_mode = None, wc_generation = [], wc_lease = []\<rparr>"

definition WithFileMode :: "u32 \<Rightarrow> write_context \<Rightarrow> write_context" where
  "WithFileMode m c = c\<lparr>wc_mode := Some m\<rparr>"

definition WithExpectedStat :: "stat_result option \<Rightarrow> write_context \<Rightarrow> write_context" where
  "WithExpectedStat s c = c\<lparr>wc_expected := Some s\<rparr>"

definition WithExpectedParent :: "path \<Rightarrow> u64 \<Rightarrow> write_context \<Rightarrow> write_context" where
  "WithExpectedParent parentPath inode c =
     (let p = normalizePath parentPath in
      case map_of (wc_parents c) p of
        Some prior \<Rightarrow> c\<lparr>wc_parents := (p, if prior \<noteq> inode then 0 else inode) # wc_parents c\<rparr>
      | None \<Rightarrow> c\<lparr>wc_parents := (p, inode) # wc_parents c\<rparr>)"

definition WriteContext :: "file_snapshot \<Rightarrow> write_context \<Rightarrow> write_context" where
  "WriteContext s c =
     (let c1 = WithExpectedStat (fs_stat s) c in
      case fs_parent s of
        None \<Rightarrow> c1
      | Some d \<Rightarrow> WithExpectedParent (dirOf (fs_path s)) (st_inode d) c1)"

subsection \<open>An accepted attempt describes one moment\<close>

text \<open>
  The law the reader relies on: a remote file that shows the same revision at two moments was the
  same file, with the same bytes, all the time in between.
\<close>

locale revision_history =
  fixes hist :: "nat \<Rightarrow> (stat_result \<times> bytes) option"
  assumes no_return: "t1 \<le> t \<Longrightarrow> t \<le> t2 \<Longrightarrow> hist t1 = Some (s1, c1) \<Longrightarrow> hist t2 = Some (s2, c2)
    \<Longrightarrow> st_type s1 = ''file'' \<Longrightarrow> st_revision s1 \<noteq> [] \<Longrightarrow> SameFileRevision (Some s1) (Some s2)
    \<Longrightarrow> hist t = Some (s1, c1)"

text \<open>
  The answers of attempt \<open>i\<close> come from the history at the times \<open>tb i \<le> tc i \<le> ta i\<close>.
\<close>

definition answersFrom ::
    "(nat \<Rightarrow> (stat_result \<times> bytes) option) \<Rightarrow> (nat \<Rightarrow> nat) \<Rightarrow> (nat \<Rightarrow> nat) \<Rightarrow> (nat \<Rightarrow> nat) \<Rightarrow> snapshot_env \<Rightarrow> bool" where
  "answersFrom hist tb tc ta env \<longleftrightarrow>
     (\<forall>i. tb i \<le> tc i \<and> tc i \<le> ta i
        \<and> sn_before env i = Inr (map_option fst (hist (tb i)))
        \<and> (case hist (tc i) of None \<Rightarrow> \<exists>e. sn_cat env i = Inl e | Some (_, c) \<Rightarrow> sn_cat env i = Inr c)
        \<and> sn_after env i = Inr (map_option fst (hist (ta i))))"

lemma readAttempt_Some:
  assumes "readAttempt env p i = Inr (Some s)"
  obtains before after where "statOrAbsent (sn_before env i) = Inr before" "statOrAbsent (sn_after env i) = Inr after"
    "SameFileRevision before after" "fs_stat s = before" "before \<noteq> None \<Longrightarrow> st_type (the before) = ''file''"
    "before \<noteq> None \<Longrightarrow> sn_cat env i = Inr (fs_content s)" "fs_path s = p"
  using assms unfolding readAttempt_def Let_def
  by (auto split: option.splits sum.splits if_splits)

lemma snapshotLoop_attempt:
  assumes "snapshotLoop env p i n = Inr s"
  shows "\<exists>j. i \<le> j \<and> j < i + n \<and> readAttempt env p j = Inr (Some s)"
  using assms
proof (induction env p i n rule: snapshotLoop.induct)
  case (2 env p i n)
  then show ?case by (force split: sum.splits option.splits dest: le_SucI)
qed simp

context revision_history
begin

lemma snapshot_sound:
  assumes "answersFrom hist tb tc ta env" and "ReadFileSnapshot env p = Inr s"
    and "fs_stat s = Some st" and "st_revision st \<noteq> []"
  shows "\<exists>i < 8. hist (tc i) = Some (st, fs_content s) \<and> hist (ta i) = Some (st, fs_content s)"
proof -
  from snapshotLoop_attempt [of env "normalizePath p" 0 8 s] assms(2) obtain i where i: "i < 8"
    "readAttempt env (normalizePath p) i = Inr (Some s)" by (auto simp: ReadFileSnapshot_def)
  have a: "tb i \<le> tc i" "tc i \<le> ta i" "sn_before env i = Inr (map_option fst (hist (tb i)))"
    "sn_after env i = Inr (map_option fst (hist (ta i)))"
    "case hist (tc i) of None \<Rightarrow> \<exists>e. sn_cat env i = Inl e | Some (_, c) \<Rightarrow> sn_cat env i = Inr c"
    using assms(1) by (simp_all add: answersFrom_def)
  from i(2) obtain before after where x: "statOrAbsent (sn_before env i) = Inr before"
    "statOrAbsent (sn_after env i) = Inr after" "SameFileRevision before after" "fs_stat s = before"
    "before \<noteq> None \<Longrightarrow> st_type (the before) = ''file''" "before \<noteq> None \<Longrightarrow> sn_cat env i = Inr (fs_content s)"
    by (rule readAttempt_Some) auto
  have b: "before = Some st" using x(4) assms(3) by simp
  have r: "map_option fst (hist (tb i)) = Some st" "map_option fst (hist (ta i)) = after"
    "SameFileRevision (Some st) after" "st_type st = ''file''" "sn_cat env i = Inr (fs_content s)"
    using x a(3,4) b by (simp_all add: statOrAbsent_def)
  from r(1) obtain c1 where f1: "hist (tb i) = Some (st, c1)" by auto
  from r(2,3) obtain s2 c2 where f2: "hist (ta i) = Some (s2, c2)" "SameFileRevision (Some st) (Some s2)"
    by (cases "hist (ta i)") (auto simp: SameFileRevision_def)
  have eq: "hist t = Some (st, c1)" if "tb i \<le> t" "t \<le> ta i" for t
    using no_return [OF that f1 f2(1) r(4) assms(4) f2(2)] .
  from eq [of "tc i"] a(1,2,5) r(5) have "fs_content s = c1" by simp
  with eq [of "tc i"] eq [of "ta i"] a(1,2) i(1) show ?thesis by auto
qed

end

end
