(* ===== verification/PlanExecution.thy ===== *)
theory PlanExecution
  imports FullReconcile SyncChunks FileSnapshots "HOL-Library.Sublist"
begin

text \<open>
  The executing half of a full reconciliation pass: temporary directory modes
  (\<open>sync_directory_modes.go\<close>), the staleness checks and the state update of one action
  (\<open>sync_recovery_plan.go\<close>), the eight actions, the phases of \<open>executePlan\<close>, and the cold start
  (\<open>sync_full_reconciler.go\<close>).

  What the operating system and the client answer while one action runs is an \<open>action_env\<close>;
  repeated calls of the same kind are numbered in program order.  Calls that change a tree are
  recorded in \<open>rc_effects\<close> when they are issued.
\<close>

subsection \<open>What the calls of one action return\<close>

record action_env =
  ae_running :: "nat \<Rightarrow> string option"
  ae_lstat :: "nat \<Rightarrow> file_info os_result"
  ae_stat :: "nat \<Rightarrow> file_info os_result"
  ae_readFile :: "bytes os_result"
  ae_readlink :: "nat \<Rightarrow> string os_result"
  ae_snapshot :: "(stat_result option \<times> bytes) os_result"
  ae_rstat :: "stat_result option os_result"
  ae_rreadlink :: "string os_result"
  ae_mkdirAll :: "string option"
  ae_chmod :: "string option"
  ae_move :: "string option"
  ae_write :: "string option"
  ae_symlink :: "string option"
  ae_rmkdir :: "client_err option"
  ae_rchmod :: "client_err option"
  ae_echo :: "client_err + stat_result option"
  ae_rm :: "client_err option"
  ae_ln :: "client_err option"
  ae_now :: int

definition emit :: "effect \<Rightarrow> reconciler \<Rightarrow> reconciler" where
  "emit e rc = rc\<lparr>rc_effects := rc_effects rc @ [e]\<rparr>"

definition markEchoR :: "path \<Rightarrow> echo_expectation \<Rightarrow> reconciler \<Rightarrow> reconciler" where
  "markEchoR p e rc = rc\<lparr>rc_echo := markEcho p e (rc_echo rc)\<rparr>"

definition mode644 :: u32 where "mode644 = 420"
definition mode444 :: u32 where "mode444 = 292"
definition mode755 :: u32 where "mode755 = 493"

subsection \<open>Temporary directory modes\<close>

record directory_modes =
  dm_prepared :: "path set"
  dm_changed :: "(path \<times> file_info) list"

definition newSyncDirectoryModes :: directory_modes where
  "newSyncDirectoryModes = \<lparr>dm_prepared = {}, dm_changed = []\<rparr>"

definition ownerAccess :: "u32 \<Rightarrow> u32" where
  "ownerAccess m = or m 448"

record dir_env =
  de_lstat :: "path \<Rightarrow> file_info os_result"
  de_chmod :: "path \<Rightarrow> string option"

text \<open>\<open>m.changed[abs] = info\<close>: one value per path.\<close>

definition recordChanged :: "path \<Rightarrow> file_info \<Rightarrow> directory_modes \<Rightarrow> directory_modes" where
  "recordChanged p info dm = dm\<lparr>dm_changed := AList.update p info (dm_changed dm)\<rparr>"

function prepare :: "dir_env \<Rightarrow> path \<Rightarrow> directory_modes \<Rightarrow> reconciler \<Rightarrow> string option \<times> directory_modes \<times> reconciler" where
  "prepare env p dm rc =
     (if p = [] \<or> p \<in> dm_prepared dm then (None, dm, rc)
      else case prepare env (parentDir p) dm rc of
        (Some e, dm1, rc1) \<Rightarrow> (Some e, dm1, rc1)
      | (None, dm1, rc1) \<Rightarrow>
         (case de_lstat env p of
            OsNotExist \<Rightarrow> (None, dm1, rc1)
          | OsError e \<Rightarrow> (Some e, dm1, rc1)
          | OsOk info \<Rightarrow>
             if fi_kind info \<noteq> IDir then (Some (''sync directory '' @ p @ '' is not a directory''), dm1, rc1)
             else if and (fi_perm info) 448 \<noteq> 448 then
               (let rc2 = emit (LChmod p (ownerAccess (fi_perm info))) (markEchoR p EchoDir rc1) in
                case de_chmod env p of
                  Some e \<Rightarrow> (Some e, dm1, rc2)
                | None \<Rightarrow> (None, (recordChanged p info dm1)\<lparr>dm_prepared := insert p (dm_prepared dm1)\<rparr>, rc2))
             else (None, dm1\<lparr>dm_prepared := insert p (dm_prepared dm1)\<rparr>, rc1)))"
  by pat_completeness auto
termination
  by (relation "measure (\<lambda>(env, p, dm, rc). length p)") (auto simp: length_parentDir)

declare prepare.simps [simp del]

definition joinErr :: "string option \<Rightarrow> string option \<Rightarrow> string option" where
  "joinErr a b = (case (a, b) of (None, b) \<Rightarrow> b | (a, None) \<Rightarrow> a | (Some x, Some y) \<Rightarrow> Some (x @ [CHR 0x0A] @ y))"

text \<open>One directory of \<open>restore\<close>; a chmod or replacement by the application is left alone.\<close>

definition restoreOne :: "dir_env \<Rightarrow> path \<times> file_info \<Rightarrow> string option \<times> reconciler \<Rightarrow> string option \<times> reconciler" where
  "restoreOne env = (\<lambda>(p, before) (err, rc).
     case de_lstat env p of
       OsNotExist \<Rightarrow> (err, rc)
     | OsError e \<Rightarrow> (joinErr err (Some e), rc)
     | OsOk now \<Rightarrow>
         if fi_ident now \<noteq> fi_ident before \<or> fi_kind now \<noteq> fi_kind before
            \<or> fi_perm now \<noteq> ownerAccess (fi_perm before)
         then (err, requestFullSweep rc)
         else (joinErr err (de_chmod env p),
               emit (LChmod p (fi_perm before)) (markEchoR p EchoDir rc)))"

definition restorePaths :: "directory_modes \<Rightarrow> (path \<times> file_info) list" where
  "restorePaths dm = rev (sort_key fst (dm_changed dm))"

definition restore :: "dir_env \<Rightarrow> directory_modes \<Rightarrow> reconciler \<Rightarrow> string option \<times> reconciler" where
  "restore env dm rc = fold (restoreOne env) (restorePaths dm) (None, rc)"

subsection \<open>Staleness checks\<close>

definition sameLocal :: "observed_meta \<Rightarrow> file_info \<Rightarrow> string os_result \<Rightarrow> bool" where
  "sameLocal l info link =
     (if om_kind l = ''file'' then
        fi_kind info = IRegular \<and> fi_size info = om_size l \<and> fi_perm info = om_mode l
        \<and> unixMilli (fi_mtimeNs info) = om_mtimeMs l
        \<and> (om_mtimeNs l \<noteq> 0 \<longrightarrow> fi_mtimeNs info = om_mtimeNs l)
      else if om_kind l = ''dir'' then fi_kind info = IDir
      else if om_kind l = ''symlink'' then fi_kind info = ISymlink \<and> link = OsOk (om_target l)
      else True)"

definition baselineCurrent :: "sync_action \<Rightarrow> reconciler \<Rightarrow> bool" where
  "baselineCurrent a rc \<longleftrightarrow>
     (case entries rc (sa_path a) of
        None \<Rightarrow> \<not> sa_hasStored a
      | Some e \<Rightarrow> sa_hasStored a \<and> se_version e = se_version (sa_stored a))"

text \<open>\<open>i\<close> numbers the call: 0 in \<open>executeAction\<close>, 1 in the action itself.\<close>

definition actionStillCurrent :: "action_env \<Rightarrow> nat \<Rightarrow> sync_action \<Rightarrow> reconciler \<Rightarrow> bool \<times> reconciler" where
  "actionStillCurrent env i a rc =
     (if \<not> sa_checkState a then (True, rc)
      else let (deferred, rc1) = deferScanForPendingUpload (sa_path a) rc in
        if deferred then (False, rc1)
        else let current = baselineCurrent a rc1 \<and>
               (case sa_localMeta a of
                  None \<Rightarrow> ae_lstat env i = OsNotExist
                | Some l \<Rightarrow> (case ae_lstat env i of
                      OsOk info \<Rightarrow> sameLocal l info (ae_readlink env i) | _ \<Rightarrow> False))
             in (current, if current then rc1 else requestFullSweep rc1))"

definition sameRemote :: "observed_meta \<Rightarrow> stat_result \<Rightarrow> bool" where
  "sameRemote r st \<longleftrightarrow>
     st_type st = om_kind r \<and> st_size st = om_size r \<and> st_mtime st = om_mtimeMs r \<and> st_mode st = om_mode r"

definition remoteStillCurrent :: "action_env \<Rightarrow> sync_action \<Rightarrow> reconciler \<Rightarrow> (string + bool) \<times> reconciler" where
  "remoteStillCurrent env a rc =
     (if \<not> sa_checkState a then (Inr True, rc)
      else case ae_rstat env of
        OsError e \<Rightarrow> (Inl e, rc)
      | answer \<Rightarrow>
          (let st = (case answer of OsOk s \<Rightarrow> s | _ \<Rightarrow> None);
               current = (case (st, sa_remoteMeta a) of
                  (None, None) \<Rightarrow> True | (Some s, Some r) \<Rightarrow> sameRemote r s | _ \<Rightarrow> False)
           in (Inr current, if current then rc else requestFullSweep rc)))"

definition updateActionState :: "sync_action \<Rightarrow> sync_entry \<Rightarrow> reconciler \<Rightarrow> reconciler" where
  "updateActionState a e rc =
     (if sa_checkState a \<and> \<not> baselineCurrent a rc then requestFullSweep rc else putEntry (sa_path a) e rc)"

definition updateState :: "path \<Rightarrow> sync_entry \<Rightarrow> reconciler \<Rightarrow> reconciler" where
  "updateState p e rc = putEntry p e rc"

definition tombstone :: "path \<Rightarrow> (sync_entry \<Rightarrow> sync_entry) \<Rightarrow> reconciler \<Rightarrow> reconciler" where
  "tombstone p f rc =
     (case entries rc p of None \<Rightarrow> rc | Some e \<Rightarrow> putEntry p (f (e\<lparr>se_deleted := True\<rparr>)) rc)"

subsection \<open>The actions\<close>

type_synonym step_result = "string option \<times> reconciler"

definition dirEntry :: "u32 \<Rightarrow> int \<Rightarrow> sync_entry" where
  "dirEntry mode now = zeroEntry\<lparr>se_type := ''dir'', se_mode := mode, se_lastSyncedAt := now\<rparr>"

definition symlinkEntry :: "string \<Rightarrow> int \<Rightarrow> sync_entry" where
  "symlinkEntry target now = zeroEntry\<lparr>se_type := ''symlink'', se_target := target, se_lastSyncedAt := now\<rparr>"

definition fileEntry :: "u32 \<Rightarrow> bytes \<Rightarrow> string \<Rightarrow> int \<Rightarrow> stat_result \<Rightarrow> int \<Rightarrow> sync_entry" where
  "fileEntry mode data hash localMtime st now =
     zeroEntry\<lparr>se_type := ''file'', se_mode := mode, se_size := int (length data),
       se_localHash := hash, se_remoteHash := hash, se_localMtimeMs := localMtime,
       se_remoteMtimeMs := st_mtime st, se_remoteRevision := st_revision st,
       se_remoteInode := st_inode st, se_lastSyncedAt := now\<rparr>"

definition execMkdirLocal :: "action_env \<Rightarrow> sync_action \<Rightarrow> reconciler \<Rightarrow> step_result" where
  "execMkdirLocal env a rc =
     (case ae_mkdirAll env of
        Some e \<Rightarrow> (Some e, rc)
      | None \<Rightarrow>
         (let rc1 = emit (LMkdirAll (sa_path a)) rc;
              finish = (\<lambda>rc. updateActionState a (dirEntry (sa_mode a) (ae_now env)) (markEchoR (sa_path a) EchoDir rc))
          in if sa_mode a = 0 then (None, finish rc1)
             else case ae_chmod env of
                    Some e \<Rightarrow> (Some e, rc1)
                  | None \<Rightarrow> (None, finish (emit (LChmod (sa_path a) (sa_mode a)) rc1))))"

definition execMkdirRemote :: "action_env \<Rightarrow> sync_action \<Rightarrow> reconciler \<Rightarrow> step_result" where
  "execMkdirRemote env a rc =
     (let p = absoluteRemotePath (sa_path a); rc1 = emit (RMkdir p) rc;
          finish = updateActionState a (dirEntry (sa_mode a) (ae_now env))
      in case ae_rmkdir env of
           Some CAlreadyExists \<Rightarrow>
             (if sa_mode a = 0 then (None, finish rc1)
              else case ae_rchmod env of
                     Some e \<Rightarrow> (Some (''chmod remote directory: '' @ clientErrText e), emit (RChmod p (sa_mode a)) rc1)
                   | None \<Rightarrow> (None, finish (emit (RChmod p (sa_mode a)) rc1)))
         | Some e \<Rightarrow> (Some (''mkdir remote: '' @ clientErrText e), rc1)
         | None \<Rightarrow>
             (if sa_mode a = 0 then (None, finish rc1)
              else case ae_rchmod env of
                     Some e \<Rightarrow> (Some (''chmod remote directory: '' @ clientErrText e), emit (RChmod p (sa_mode a)) rc1)
                   | None \<Rightarrow> (None, finish (emit (RChmod p (sa_mode a)) rc1))))"

definition identicalLocal :: "(bytes \<Rightarrow> string) \<Rightarrow> action_env \<Rightarrow> string \<Rightarrow> u32 \<Rightarrow> bool" where
  "identicalLocal h env hash mode =
     (case (ae_readFile env, ae_lstat env 2) of
        (OsOk data, OsOk info) \<Rightarrow> fi_kind info = IRegular \<and> h data = hash \<and> fi_perm info = mode
      | _ \<Rightarrow> False)"

text \<open>\<open>0\<close> stands for Go's zero mtime when the final \<open>Stat\<close> fails.\<close>

definition mtimeOf :: "file_info os_result \<Rightarrow> int" where
  "mtimeOf st = (case st of OsOk info \<Rightarrow> unixMilli (fi_mtimeNs info) | _ \<Rightarrow> 0)"

definition downloadMode :: "bool \<Rightarrow> u32 \<Rightarrow> u32" where
  "downloadMode readonly mode = (if readonly then mode444 else if mode = 0 then mode644 else mode)"

definition applyDownload ::
    "(bytes \<Rightarrow> string) \<Rightarrow> action_env \<Rightarrow> sync_action \<Rightarrow> stat_result \<Rightarrow> bytes \<Rightarrow> reconciler \<Rightarrow> step_result" where
  "applyDownload h env a st data rc =
     (let p = sa_path a; hash = h data; identical = identicalLocal h env hash (st_mode st);
          mode = downloadMode (rc_readonly rc) (st_mode st);
          aside = sa_conflict a \<and> \<not> identical;
          rc1 = (if aside then emit (LMoveToConflict p) rc else rc)
      in if aside \<and> ae_move env \<noteq> None then (ae_move env, rc)
         else let write = \<not> identical \<or> rc_readonly rc;
                  rc2 = (if write then markEchoR p (EchoFile hash) (emit (LWriteFile p data mode) rc1) else rc1)
              in if write \<and> ae_write env \<noteq> None then (ae_write env, rc1)
                 else (None, updateActionState a
                        (fileEntry mode data hash (mtimeOf (ae_stat env 0)) st (ae_now env)) rc2))"

definition isTombstoned :: "path \<Rightarrow> reconciler \<Rightarrow> bool" where
  "isTombstoned p rc = (case entries rc p of None \<Rightarrow> False | Some e \<Rightarrow> se_deleted e)"

definition execDownload :: "(bytes \<Rightarrow> string) \<Rightarrow> action_env \<Rightarrow> sync_action \<Rightarrow> reconciler \<Rightarrow> step_result" where
  "execDownload h env a rc =
     (if isTombstoned (sa_path a) rc then (None, rc)
      else case ae_snapshot env of
        OsNotExist \<Rightarrow> (None, rc)
      | OsError e \<Rightarrow> (Some e, rc)
      | OsOk (None, _) \<Rightarrow> (None, rc)
      | OsOk (Some st, data) \<Rightarrow>
         (case ae_running env 1 of
            Some e \<Rightarrow> (Some e, rc)
          | None \<Rightarrow>
             (let (current, rc1) = actionStillCurrent env 1 (a\<lparr>sa_mode := st_mode st\<rparr>) rc in
              if \<not> current then (None, rc1) else applyDownload h env a st data rc1)))"

definition execDeleteLocal :: "action_env \<Rightarrow> sync_action \<Rightarrow> reconciler \<Rightarrow> step_result" where
  "execDeleteLocal env a rc =
     (let p = sa_path a in
      case ae_running env 1 of
        Some e \<Rightarrow> (Some e, rc)
      | None \<Rightarrow>
         (case ae_lstat env 1 of
            OsOk info \<Rightarrow>
              (let rc1 = markEchoR p EchoDelete rc in
               case ae_running env 2 of
                 Some e \<Rightarrow> (Some e, rc1)
               | None \<Rightarrow> (None, tombstone p id (emit (if fi_kind info = IDir then LRemoveAll p else LRemove p) rc1)))
          | _ \<Rightarrow> (None, tombstone p id rc)))"

definition execDeleteRemote :: "action_env \<Rightarrow> sync_action \<Rightarrow> reconciler \<Rightarrow> step_result" where
  "execDeleteRemote env a rc =
     (let p = sa_path a; rc1 = emit (RRm (absoluteRemotePath p)) rc;
          finish = tombstone p (\<lambda>e. e\<lparr>se_lastSyncedAt := ae_now env\<rparr>) rc1
      in case ae_rm env of
           None \<Rightarrow> (None, finish)
         | Some CNotFound \<Rightarrow> (None, finish)
         | Some CRedisNil \<Rightarrow> (None, finish)
         | Some e \<Rightarrow> (Some (''rm remote: '' @ clientErrText e), rc1))"

definition revisionMoved :: "sync_action \<Rightarrow> stat_result option \<Rightarrow> bool" where
  "revisionMoved a st =
     (case sa_remoteMeta a of
        None \<Rightarrow> False
      | Some r \<Rightarrow> om_revision r \<noteq> []
          \<and> (case st of None \<Rightarrow> True | Some s \<Rightarrow> st_revision s \<noteq> om_revision r \<or> st_inode s \<noteq> om_inode r))"

definition publishUpload ::
    "action_env \<Rightarrow> sync_action \<Rightarrow> file_info \<Rightarrow> bytes \<Rightarrow> string \<Rightarrow> reconciler \<Rightarrow> step_result" where
  "publishUpload env a info data hash rc =
     (let mode = (if sa_mode a = 0 then mode644 else sa_mode a);
          rc1 = emit (REcho (absoluteRemotePath (sa_path a)) data mode) rc
      in case ae_echo env of
           Inl e \<Rightarrow> (Some (''upload: '' @ clientErrText e), if e = CWriteConflict then requestFullSweep rc1 else rc1)
         | Inr None \<Rightarrow> (Some ''upload: client did not return a commit result'', rc1)
         | Inr (Some st) \<Rightarrow>
             (None, updateActionState a
               (fileEntry mode data hash (unixMilli (fi_mtimeNs info)) st (ae_now env)) rc1))"

definition execUpload :: "(bytes \<Rightarrow> string) \<Rightarrow> action_env \<Rightarrow> sync_action \<Rightarrow> reconciler \<Rightarrow> step_result" where
  "execUpload h env a rc =
     (if rc_readonly rc then (None, rc)
      else case (ae_lstat env 1, ae_readFile env) of
        (OsNotExist, _) \<Rightarrow> (None, rc)
      | (OsError e, _) \<Rightarrow> (Some e, rc)
      | (OsOk _, OsNotExist) \<Rightarrow> (None, rc)
      | (OsOk _, OsError e) \<Rightarrow> (Some e, rc)
      | (OsOk info, OsOk data) \<Rightarrow>
         if int (length data) > rc_maxFileBytes rc then (None, rc)
         else let (current, rc1) = actionStillCurrent env 2 a rc in
           if \<not> current then (None, rc1)
           else case remoteStillCurrent env a rc1 of
             (Inl e, rc2) \<Rightarrow> (Some e, rc2)
           | (Inr False, rc2) \<Rightarrow> (None, rc2)
           | (Inr True, rc2) \<Rightarrow>
              (case ae_snapshot env of
                 OsNotExist \<Rightarrow> (Some ''not found'', rc2)
               | OsError e \<Rightarrow> (Some e, rc2)
               | OsOk (st, _) \<Rightarrow>
                   if sa_checkState a \<and> (st = None) \<noteq> (sa_remoteMeta a = None) then (None, requestFullSweep rc2)
                   else if revisionMoved a st then (None, requestFullSweep rc2)
                   else case ae_running env 1 of
                     Some e \<Rightarrow> (Some e, rc2)
                   | None \<Rightarrow> publishUpload env a info data (h data) rc2))"

definition execSymlinkDownload :: "action_env \<Rightarrow> sync_action \<Rightarrow> reconciler \<Rightarrow> step_result" where
  "execSymlinkDownload env a rc =
     (case (if sa_target a = [] then ae_rreadlink env else OsOk (sa_target a)) of
        OsNotExist \<Rightarrow> (Some ''not found'', rc)
      | OsError e \<Rightarrow> (Some e, rc)
      | OsOk target \<Rightarrow>
         (case ae_running env 1 of
            Some e \<Rightarrow> (Some e, rc)
          | None \<Rightarrow>
             (case ae_mkdirAll env of
                Some e \<Rightarrow> (Some e, rc)
              | None \<Rightarrow>
                 (let p = sa_path a;
                      rc1 = (case ae_lstat env 1 of OsOk _ \<Rightarrow> emit (LRemove p) rc | _ \<Rightarrow> rc)
                  in case ae_symlink env of
                       Some e \<Rightarrow> (Some e, rc1)
                     | None \<Rightarrow> (None, updateState p (symlinkEntry target (ae_now env))
                                (markEchoR p (EchoSymlink target) (emit (LSymlink p target) rc1)))))))"

definition execSymlinkUpload :: "action_env \<Rightarrow> sync_action \<Rightarrow> reconciler \<Rightarrow> step_result" where
  "execSymlinkUpload env a rc =
     (case ae_running env 1 of
        Some e \<Rightarrow> (Some e, rc)
      | None \<Rightarrow>
         (let p = absoluteRemotePath (sa_path a);
              rc1 = (case ae_rstat env of OsOk (Some _) \<Rightarrow> emit (RRm p) rc | _ \<Rightarrow> rc);
              rc2 = emit (RLn p (sa_target a)) rc1
          in case ae_ln env of
               Some e \<Rightarrow> (Some (''symlink upload: '' @ clientErrText e), rc2)
             | None \<Rightarrow> (None, updateState (sa_path a) (symlinkEntry (sa_target a) (ae_now env)) rc2)))"

definition executeAction :: "(bytes \<Rightarrow> string) \<Rightarrow> action_env \<Rightarrow> sync_action \<Rightarrow> reconciler \<Rightarrow> step_result" where
  "executeAction h env a rc =
     (case ae_running env 0 of
        Some e \<Rightarrow> (Some e, rc)
      | None \<Rightarrow>
         (let (current, rc1) = actionStillCurrent env 0 a rc in
          if \<not> current then (None, rc1)
          else case sa_kind a of
                 MkdirLocal \<Rightarrow> execMkdirLocal env a rc1
               | MkdirRemote \<Rightarrow> execMkdirRemote env a rc1
               | Download \<Rightarrow> execDownload h env a rc1
               | Upload \<Rightarrow> execUpload h env a rc1
               | SymlinkDownload \<Rightarrow> execSymlinkDownload env a rc1
               | SymlinkUpload \<Rightarrow> execSymlinkUpload env a rc1
               | DeleteRemote \<Rightarrow> execDeleteRemote env a rc1
               | DeleteLocal \<Rightarrow> execDeleteLocal env a rc1))"

subsection \<open>The phases of a plan\<close>

text \<open>
  \<open>pe_ran\<close> are the file actions the worker pool ran, in the order they happened to run: all of
  them when nothing failed or stopped the pass.
\<close>

record plan_env =
  pe_action :: "sync_action \<Rightarrow> action_env"
  pe_running :: "sync_action \<Rightarrow> string option"
  pe_before :: "sync_action \<Rightarrow> dir_env"
  pe_after :: "sync_action \<Rightarrow> dir_env"
  pe_ctx :: "sync_action \<Rightarrow> string option"
  pe_ran :: "sync_action list"
  pe_final :: "string option"
  pe_restore :: dir_env

type_synonym plan_state = "string option \<times> directory_modes \<times> reconciler"

text \<open>A serial loop that stops at the first error.\<close>

fun untilErr :: "('a \<Rightarrow> directory_modes \<Rightarrow> reconciler \<Rightarrow> plan_state) \<Rightarrow> 'a list \<Rightarrow> directory_modes \<Rightarrow> reconciler \<Rightarrow> plan_state" where
  "untilErr f [] dm rc = (None, dm, rc)"
| "untilErr f (x # xs) dm rc =
     (case f x dm rc of (Some e, dm1, rc1) \<Rightarrow> (Some e, dm1, rc1) | (None, dm1, rc1) \<Rightarrow> untilErr f xs dm1 rc1)"

definition dirStep :: "(bytes \<Rightarrow> string) \<Rightarrow> plan_env \<Rightarrow> sync_action \<Rightarrow> directory_modes \<Rightarrow> reconciler \<Rightarrow> plan_state" where
  "dirStep h env a dm rc =
     (case pe_running env a of
        Some e \<Rightarrow> (Some e, dm, rc)
      | None \<Rightarrow>
         (case (if sa_kind a = MkdirLocal then prepare (pe_before env a) (parentDir (sa_path a)) dm rc else (None, dm, rc)) of
            (Some e, dm1, rc1) \<Rightarrow> (Some e, dm1, rc1)
          | (None, dm1, rc1) \<Rightarrow>
             (case executeAction h (pe_action env a) a rc1 of
                (Some e, rc2) \<Rightarrow> (Some e, dm1, rc2)
              | (None, rc2) \<Rightarrow>
                  if sa_kind a = MkdirLocal then prepare (pe_after env a) (sa_path a) dm1 rc2 else (None, dm1, rc2))))"

definition reopenStep :: "plan_env \<Rightarrow> sync_action \<Rightarrow> directory_modes \<Rightarrow> reconciler \<Rightarrow> plan_state" where
  "reopenStep env a dm rc =
     (case pe_ctx env a of
        Some e \<Rightarrow> (Some e, dm, rc)
      | None \<Rightarrow>
         if sa_kind a \<in> {Download, SymlinkDownload, DeleteLocal}
         then prepare (pe_before env a) (parentDir (sa_path a)) dm rc else (None, dm, rc))"

definition deleteStep :: "(bytes \<Rightarrow> string) \<Rightarrow> plan_env \<Rightarrow> sync_action \<Rightarrow> directory_modes \<Rightarrow> reconciler \<Rightarrow> plan_state" where
  "deleteStep h env a dm rc =
     (case pe_running env a of
        Some e \<Rightarrow> (Some e, dm, rc)
      | None \<Rightarrow> (case executeAction h (pe_action env a) a rc of (err, rc1) \<Rightarrow> (err, dm, rc1)))"

text \<open>The pool keeps going after an error and reports the first one.\<close>

fun runPool :: "(bytes \<Rightarrow> string) \<Rightarrow> plan_env \<Rightarrow> sync_action list \<Rightarrow> string option \<Rightarrow> reconciler \<Rightarrow> step_result" where
  "runPool h env [] err rc = (err, rc)"
| "runPool h env (a # as) err rc =
     (case executeAction h (pe_action env a) a rc of
        (e, rc1) \<Rightarrow> runPool h env as (if err = None then e else err) rc1)"

definition planPhases :: "(bytes \<Rightarrow> string) \<Rightarrow> plan_env \<Rightarrow> sync_action list \<Rightarrow> reconciler \<Rightarrow> plan_state" where
  "planPhases h env plan rc =
     (case untilErr (dirStep h env) (dirActions plan) newSyncDirectoryModes rc of
        (Some e, dm1, rc1) \<Rightarrow> (Some e, dm1, rc1)
      | (None, dm1, rc1) \<Rightarrow>
     (case untilErr (reopenStep env) plan dm1 rc1 of
        (Some e, dm2, rc2) \<Rightarrow> (Some e, dm2, rc2)
      | (None, dm2, rc2) \<Rightarrow>
     (case untilErr (deleteStep h env) (deleteActions plan) dm2 rc2 of
        (Some e, dm3, rc3) \<Rightarrow> (Some e, dm3, rc3)
      | (None, dm3, rc3) \<Rightarrow>
         (case runPool h env (pe_ran env) None rc3 of
            (err, rc4) \<Rightarrow> (if err = None then pe_final env else err, dm3, markDirtyR rc4)))))"

definition executePlan :: "(bytes \<Rightarrow> string) \<Rightarrow> plan_env \<Rightarrow> sync_action list \<Rightarrow> reconciler \<Rightarrow> step_result" where
  "executePlan h env plan rc =
     (case planPhases h env plan rc of
        (err, dm, rc1) \<Rightarrow>
          (case restore (pe_restore env) dm rc1 of (err2, rc2) \<Rightarrow> (joinErr err err2, rc2)))"

text \<open>
  \<open>warmStart\<close> over the results of its two scans; \<open>keys\<close> and \<open>keys2\<close> are the orders in which the
  two loops over the entries visit them, \<open>wrunning\<close> the answers of \<open>checkRunning\<close>.
\<close>

definition warmStart ::
    "(bytes \<Rightarrow> string) \<Rightarrow> int \<Rightarrow> (nat \<Rightarrow> string option) \<Rightarrow> local_env
     \<Rightarrow> (string + (path \<Rightarrow> observed_meta option)) \<Rightarrow> (string + (path \<Rightarrow> observed_meta option))
     \<Rightarrow> (path \<Rightarrow> stat_result option os_result) \<Rightarrow> path list \<Rightarrow> path list \<Rightarrow> path list \<Rightarrow> plan_env
     \<Rightarrow> reconciler \<Rightarrow> step_result" where
  "warmStart h now wrunning env localScan remoteScan rstat keys keys2 paths penv rc =
     (case (wrunning 0, localScan) of
        (Some e, _) \<Rightarrow> (Some e, rc)
      | (None, Inl e) \<Rightarrow> (Some (''scan local: '' @ e), rc)
      | (None, Inr localM) \<Rightarrow>
     (case wrunning 1 of
        Some e \<Rightarrow> (Some e, rc)
      | None \<Rightarrow>
         (let rc1 = detectOfflineDeletes now env localM keys rc in
          case (remoteScan, wrunning 2) of
            (Inl e, _) \<Rightarrow> (Some (''scan remote: '' @ e), rc1)
          | (Inr _, Some e) \<Rightarrow> (Some e, rc1)
          | (Inr remote, None) \<Rightarrow>
             (let (rc2, plan) = buildPlan now rstat paths localM remote rc1 in
              if plan = [] then (None, cleanupTombstones now keys2 rc2)
              else case executePlan h penv plan rc2 of
                     (err, rc3) \<Rightarrow> (err, cleanupTombstones now keys2 rc3)))))"

subsection \<open>Frame lemmas of the executor\<close>

lemma emit_simps [simp]:
  "rc_writer (emit e rc) = rc_writer rc" "rc_effects (emit e rc) = rc_effects rc @ [e]"
  "rc_pending (emit e rc) = rc_pending rc" "rc_readonly (emit e rc) = rc_readonly rc"
  "rc_sweep (emit e rc) = rc_sweep rc" "rc_echo (emit e rc) = rc_echo rc"
  by (simp_all add: emit_def)

lemma markEchoR_simps [simp]:
  "rc_writer (markEchoR p e rc) = rc_writer rc" "rc_effects (markEchoR p e rc) = rc_effects rc"
  "rc_pending (markEchoR p e rc) = rc_pending rc" "rc_readonly (markEchoR p e rc) = rc_readonly rc"
  "rc_sweep (markEchoR p e rc) = rc_sweep rc"
  by (simp_all add: markEchoR_def)

lemma baselineCurrent_frame:
  "rc_writer rc' = rc_writer rc \<Longrightarrow> baselineCurrent a rc' = baselineCurrent a rc"
  by (simp add: baselineCurrent_def)

lemma actionStillCurrent_frame [simp]:
  "rc_writer (snd (actionStillCurrent env i a rc)) = rc_writer rc"
  "rc_effects (snd (actionStillCurrent env i a rc)) = rc_effects rc"
  "rc_readonly (snd (actionStillCurrent env i a rc)) = rc_readonly rc"
  by (simp_all add: actionStillCurrent_def split_beta Let_def requestFullSweep_def)

lemma remoteStillCurrent_frame [simp]:
  "rc_writer (snd (remoteStillCurrent env a rc)) = rc_writer rc"
  "rc_effects (snd (remoteStillCurrent env a rc)) = rc_effects rc"
  "rc_readonly (snd (remoteStillCurrent env a rc)) = rc_readonly rc"
  by (simp_all add: remoteStillCurrent_def Let_def requestFullSweep_def split: os_result.splits)

lemma updateActionState_frame [simp]:
  "rc_effects (updateActionState a e rc) = rc_effects rc"
  "rc_readonly (updateActionState a e rc) = rc_readonly rc"
  "rc_pending (updateActionState a e rc) = rc_pending rc"
  by (simp_all add: updateActionState_def requestFullSweep_def putEntry_def nextVersion_def)

lemma tombstone_frame [simp]: "rc_effects (tombstone p f rc) = rc_effects rc"
  by (simp add: tombstone_def split: option.splits)

lemma updateState_frame [simp]: "rc_effects (updateState p e rc) = rc_effects rc"
  by (simp add: updateState_def)

subsection \<open>Budgets of versions\<close>

lemma vstep_of_writer: "rc_writer r1 = rc_writer r \<Longrightarrow> vstep n r1 r2 \<Longrightarrow> vstep n r r2"
  by (simp add: vstep_def versionRoom_def versionsFresh_def)

lemma vstep_same [simp]: "rc_writer r' = rc_writer r \<Longrightarrow> vstep n r r'"
  by (rule vstep_writer) simp

lemma vstep_updateActionState: "rc_writer r1 = rc_writer r \<Longrightarrow> vstep 1 r (updateActionState a e r1)"
  by (auto simp: updateActionState_def simp del: One_nat_def intro: vstep_of_writer vstep_putEntry)

lemma vstep_updateState: "rc_writer r1 = rc_writer r \<Longrightarrow> vstep 1 r (updateState p e r1)"
  unfolding updateState_def by (rule vstep_of_writer [OF _ vstep_putEntry])

lemma vstep_tombstone: "rc_writer r1 = rc_writer r \<Longrightarrow> vstep 1 r (tombstone p f r1)"
  by (auto simp: tombstone_def simp del: One_nat_def split: option.splits intro: vstep_of_writer vstep_putEntry)

lemmas vstep_updates = vstep_updateActionState vstep_updateState vstep_tombstone

lemma vstep_execMkdirLocal: "vstep 1 rc (snd (execMkdirLocal env a rc))"
  by (auto simp: execMkdirLocal_def Let_def simp del: One_nat_def split: option.splits intro: vstep_updates)

lemma vstep_execMkdirRemote: "vstep 1 rc (snd (execMkdirRemote env a rc))"
  by (auto simp: execMkdirRemote_def Let_def simp del: One_nat_def split: option.splits client_err.splits intro: vstep_updates)

lemma vstep_applyDownload: "vstep 1 rc (snd (applyDownload h env a st data rc))"
  by (auto simp: applyDownload_def Let_def simp del: One_nat_def intro!: vstep_updateActionState)

lemma vstep_execDownload: "vstep 1 rc (snd (execDownload h env a rc))"
  by (auto simp: execDownload_def split_beta Let_def simp del: One_nat_def
      split: option.splits os_result.splits prod.splits
      intro: vstep_of_writer [OF actionStillCurrent_frame(1) vstep_applyDownload])

lemma vstep_execDeleteLocal: "vstep 1 rc (snd (execDeleteLocal env a rc))"
  by (auto simp: execDeleteLocal_def Let_def simp del: One_nat_def split: option.splits os_result.splits
      intro!: vstep_tombstone)

lemma vstep_execDeleteRemote: "vstep 1 rc (snd (execDeleteRemote env a rc))"
  by (auto simp: execDeleteRemote_def Let_def simp del: One_nat_def split: option.splits client_err.splits
      intro!: vstep_tombstone)

lemma vstep_publishUpload: "vstep 1 rc (snd (publishUpload env a info data hash rc))"
  by (auto simp: publishUpload_def Let_def simp del: One_nat_def split: sum.splits option.splits
      intro!: vstep_updateActionState)

lemma vstep_execUpload: "vstep 1 rc (snd (execUpload h env a rc))"
proof -
  obtain c1 rc1 where c1: "actionStillCurrent env 2 a rc = (c1, rc1)" by force
  then have w1: "rc_writer rc1 = rc_writer rc" using actionStillCurrent_frame(1) [of env 2 a rc] by simp
  obtain c2 rc2 where c2: "remoteStillCurrent env a rc1 = (c2, rc2)" by force
  then have w2: "rc_writer rc2 = rc_writer rc" using remoteStillCurrent_frame(1) [of env a rc1] w1 by simp
  show ?thesis
    unfolding execUpload_def c1 c2 Let_def prod.case
    using vstep_of_writer [OF w2 vstep_publishUpload]
    by (auto simp: w1 w2 c2 simp del: One_nat_def split: os_result.splits sum.splits bool.splits option.splits prod.splits)
qed

lemma vstep_execSymlinkDownload: "vstep 1 rc (snd (execSymlinkDownload env a rc))"
  by (auto simp: execSymlinkDownload_def Let_def simp del: One_nat_def split: option.splits os_result.splits
      intro!: vstep_updateState)

lemma vstep_execSymlinkUpload: "vstep 1 rc (snd (execSymlinkUpload env a rc))"
  by (auto simp: execSymlinkUpload_def Let_def simp del: One_nat_def split: option.splits os_result.splits
      intro!: vstep_updateState)

lemma vstep_executeAction: "vstep 1 rc (snd (executeAction h env a rc))"
proof -
  obtain c rc1 where c: "actionStillCurrent env 0 a rc = (c, rc1)" by force
  then have w: "rc_writer rc1 = rc_writer rc" using actionStillCurrent_frame(1) [of env 0 a rc] by simp
  note all = vstep_execMkdirLocal vstep_execMkdirRemote vstep_execDownload vstep_execUpload
    vstep_execSymlinkDownload vstep_execSymlinkUpload vstep_execDeleteRemote vstep_execDeleteLocal
  show ?thesis
    using all [THEN vstep_of_writer [OF w]]
    by (simp add: executeAction_def c w del: One_nat_def split: option.splits action_kind.splits)
qed

lemma prepare_writer [simp]: "rc_writer (snd (snd (prepare env p dm rc))) = rc_writer rc"
proof (induction env p dm rc rule: prepare.induct)
  case (1 env p dm rc)
  then show ?case
    by (subst prepare.simps) (auto simp: Let_def split: prod.splits option.splits os_result.splits)
qed

lemma vstep_untilErr:
  assumes "\<And>x dm rc. vstep n rc (snd (snd (f x dm rc)))"
  shows "vstep (n * length xs) rc (snd (snd (untilErr f xs dm rc)))"
proof (induction xs arbitrary: dm rc)
  case (Cons x xs)
  obtain e dm1 rc1 where f: "f x dm rc = (e, dm1, rc1)" by (cases "f x dm rc") auto
  have s1: "vstep n rc rc1" using assms [of rc x dm] f by simp
  show ?case
  proof (cases e)
    case None
    then show ?thesis using vstep_trans [OF s1 Cons [where dm = dm1 and rc = rc1]] f by simp
  next
    case (Some m)
    then show ?thesis using vstep_mono [OF s1] f by simp
  qed
qed simp

lemma vstep_dirStep: "vstep 1 rc (snd (snd (dirStep h env a dm rc)))"
proof -
  obtain e1 dm1 rc1 where p1: "(if sa_kind a = MkdirLocal then prepare (pe_before env a) (parentDir (sa_path a)) dm rc
      else (None, dm, rc)) = (e1, dm1, rc1)" by (metis prod_cases3)
  have "rc_writer (snd (snd (if sa_kind a = MkdirLocal then prepare (pe_before env a) (parentDir (sa_path a)) dm rc
      else (None, dm, rc)))) = rc_writer rc" by simp
  then have w1: "rc_writer rc1 = rc_writer rc" unfolding p1 by simp
  obtain e2 rc2 where p2: "executeAction h (pe_action env a) a rc1 = (e2, rc2)" by force
  have v: "vstep 1 rc rc2"
    using vstep_of_writer [OF w1 vstep_executeAction [of rc1 h "pe_action env a" a]] p2 by simp
  have v': "rc_writer rc3 = rc_writer rc2 \<Longrightarrow> vstep 1 rc rc3" for rc3
    using v by (simp add: vstep_def versionsFresh_def)
  show ?thesis
    unfolding dirStep_def p1
    using v v' by (auto simp: p2 w1 simp del: One_nat_def split: option.splits)
qed

lemma vstep_reopenStep: "vstep 0 rc (snd (snd (reopenStep env a dm rc)))"
  by (simp add: reopenStep_def split: option.splits)

lemma vstep_deleteStep: "vstep 1 rc (snd (snd (deleteStep h env a dm rc)))"
  using vstep_executeAction [of rc h "pe_action env a" a]
  by (simp add: deleteStep_def split_beta del: One_nat_def split: option.splits)

lemma vstep_runPool: "vstep (length as) rc (snd (runPool h env as err rc))"
proof (induction as arbitrary: err rc)
  case (Cons a as)
  show ?case using vstep_trans [OF vstep_executeAction [of rc h "pe_action env a" a] Cons]
    by (simp add: split_beta)
qed simp

lemma vstep_planPhases:
  "vstep (length (dirActions plan) + length (deleteActions plan) + length (pe_ran env)) rc
     (snd (snd (planPhases h env plan rc)))"
proof -
  obtain e1 dm1 rc1 where p1: "untilErr (dirStep h env) (dirActions plan) newSyncDirectoryModes rc = (e1, dm1, rc1)"
    by (metis prod_cases3)
  obtain e2 dm2 rc2 where p2: "untilErr (reopenStep env) plan dm1 rc1 = (e2, dm2, rc2)" by (metis prod_cases3)
  obtain e3 dm3 rc3 where p3: "untilErr (deleteStep h env) (deleteActions plan) dm2 rc2 = (e3, dm3, rc3)"
    by (metis prod_cases3)
  obtain e4 rc4 where p4: "runPool h env (pe_ran env) None rc3 = (e4, rc4)" by force
  have v1: "vstep (length (dirActions plan)) rc rc1"
    using vstep_untilErr [where f = "dirStep h env" and n = 1 and xs = "dirActions plan" and rc = rc and dm = newSyncDirectoryModes]
      vstep_dirStep p1 by simp
  have v2: "vstep 0 rc1 rc2" using vstep_untilErr [where f = "reopenStep env" and n = 0 and xs = plan and rc = rc1 and dm = dm1]
      vstep_reopenStep p2 by simp
  have v3: "vstep (length (deleteActions plan)) rc2 rc3"
    using vstep_untilErr [where f = "deleteStep h env" and n = 1 and xs = "deleteActions plan" and rc = rc2 and dm = dm2]
      vstep_deleteStep p3 by simp
  have v4: "vstep (length (pe_ran env)) rc3 rc4" using vstep_runPool [of "pe_ran env" rc3 h env None] p4 by simp
  have v5: "vstep 0 rc4 (markDirtyR rc4)" by (rule vstep_writer) simp
  note v12 = vstep_trans [OF v1 v2]
  note v123 = vstep_trans [OF v12 v3]
  note v1234 = vstep_trans [OF v123 v4]
  note v12345 = vstep_trans [OF v1234 v5]
  show ?thesis
    unfolding planPhases_def p1
    by (cases e1; cases e2; cases e3)
      (auto simp: p2 p3 p4 intro: vstep_mono [OF v1] vstep_mono [OF v12] vstep_mono [OF v123] vstep_mono [OF v12345])
qed

lemma restoreOne_writer [simp]: "rc_writer (snd (restoreOne env d er)) = rc_writer (snd er)"
  by (cases d; cases er) (auto simp: restoreOne_def split: os_result.splits)

lemma restore_writer [simp]: "rc_writer (snd (restore env dm rc)) = rc_writer rc"
proof -
  have "rc_writer (snd (fold (restoreOne env) ds er)) = rc_writer (snd er)" for ds er
    by (induction ds arbitrary: er) auto
  then show ?thesis by (simp add: restore_def)
qed

text \<open>Answers for the examples: every call succeeds, the local paths are regular files.\<close>

definition exampleInfo :: "node_kind \<Rightarrow> file_info" where
  "exampleInfo k = \<lparr>fi_kind = k, fi_perm = 420, fi_size = 1, fi_mtimeNs = 5000000, fi_ident = ''dev1:ino2''\<rparr>"

definition exampleStat :: stat_result where
  "exampleStat = \<lparr>st_revision = ''r2'', st_inode = 1, st_type = ''file'', st_mode = 420, st_size = 2, st_mtime = 9\<rparr>"

definition exampleEnv :: action_env where
  "exampleEnv = \<lparr>ae_running = \<lambda>_. None, ae_lstat = \<lambda>_. OsOk (exampleInfo IRegular), ae_stat = \<lambda>_. OsOk (exampleInfo IRegular),
     ae_readFile = OsOk ''x'', ae_readlink = \<lambda>_. OsNotExist, ae_snapshot = OsOk (Some exampleStat, ''yz''),
     ae_rstat = OsOk (Some exampleStat), ae_rreadlink = OsNotExist, ae_mkdirAll = None, ae_chmod = None, ae_move = None,
     ae_write = None, ae_symlink = None, ae_rmkdir = None, ae_rchmod = None, ae_echo = Inr (Some exampleStat),
     ae_rm = None, ae_ln = None, ae_now = 7\<rparr>"

definition examplePlanEnv :: "sync_action list \<Rightarrow> plan_env" where
  "examplePlanEnv xs = (let d = \<lparr>de_lstat = \<lambda>_. OsNotExist, de_chmod = \<lambda>_. None\<rparr> in
     \<lparr>pe_action = \<lambda>_. exampleEnv, pe_running = \<lambda>_. None, pe_before = \<lambda>_. d, pe_after = \<lambda>_. d, pe_ctx = \<lambda>_. None,
      pe_ran = xs, pe_final = None, pe_restore = d\<rparr>)"

lemma startWith_fresh: "(\<forall>p e. es p = Some e \<longrightarrow> se_version e < 9) \<Longrightarrow> versionsFresh (startWith es)"
  by (simp add: versionsFresh_def)

text \<open>
  A pass keeps every stored version below the counter, so a version that a worker remembers
  names one stored entry only; a pass uses at most one version per action it runs.
\<close>

theorem plan_keeps_versions_fresh:
  assumes "versionsFresh rc"
    and "versionRoom (length (dirActions plan) + length (deleteActions plan) + length (pe_ran env)) rc"
  shows "versionsFresh (snd (executePlan h env plan rc)) \<and>
    unat (nextV (snd (executePlan h env plan rc)))
      \<le> unat (nextV rc) + length (dirActions plan) + length (deleteActions plan) + length (pe_ran env)"
proof -
  obtain err dm rc1 where p: "planPhases h env plan rc = (err, dm, rc1)" by (metis prod_cases3)
  have "vstep (length (dirActions plan) + length (deleteActions plan) + length (pe_ran env)) rc rc1"
    using vstep_planPhases [of plan env rc h] p by simp
  moreover have "rc_writer (snd (executePlan h env plan rc)) = rc_writer rc1"
    using restore_writer [of "pe_restore env" dm rc1] by (simp add: executePlan_def p split_beta)
  ultimately show ?thesis using assms by (simp add: vstep_def versionsFresh_def add.assoc)
qed

theorem plan_keeps_versions_fresh_witness:
  "versionsFresh (snd (executePlan id (examplePlanEnv [newAction Download ''a''])
     [newAction Download ''a'', newAction MkdirLocal ''d''] (startWith [''a'' \<mapsto> exampleEntry])))"
proof -
  have "versionsFresh (startWith [''a'' \<mapsto> exampleEntry])"
    by (rule startWith_fresh) (simp add: exampleEntry_def)
  moreover have "versionRoom (length (dirActions [newAction Download ''a'', newAction MkdirLocal ''d''])
      + length (deleteActions [newAction Download ''a'', newAction MkdirLocal ''d''])
      + length (pe_ran (examplePlanEnv [newAction Download ''a'']))) (startWith [''a'' \<mapsto> exampleEntry])"
    by (simp add: versionRoom_def dirActions_def deleteActions_def isDirAction_def isDeleteAction_def newAction_def
        sortBy_def examplePlanEnv_def Let_def)
  ultimately show ?thesis using plan_keeps_versions_fresh by blast
qed

subsection \<open>Stale actions\<close>

text \<open>
  An action whose baseline entry was replaced since the plan was made does nothing: no call
  that changes a tree, no entry stored; and the pass is repeated, by a sweep requested now or when
  the pending upload of the path finishes.
\<close>

theorem stale_action_does_nothing:
  assumes "sa_checkState a" and "\<not> baselineCurrent a rc" and "ae_running env 0 = None"
  shows "fst (executeAction h env a rc) = None
    \<and> rc_effects (snd (executeAction h env a rc)) = rc_effects rc
    \<and> rc_writer (snd (executeAction h env a rc)) = rc_writer rc
    \<and> (rc_sweep (snd (executeAction h env a rc))
       \<or> (\<exists>q. rc_pending (snd (executeAction h env a rc)) (sa_path a) = Some q \<and> pu_rescan q))"
proof -
  have nb: "\<not> baselineCurrent a (snd (deferScanForPendingUpload (sa_path a) rc))"
    using assms(2) by (simp add: baselineCurrent_def)
  have ne: "\<not> fst (actionStillCurrent env 0 a rc)"
    using assms(1) nb by (simp add: actionStillCurrent_def split_beta Let_def)
  then have ex: "executeAction h env a rc = (None, snd (actionStillCurrent env 0 a rc))"
    using assms(3) by (simp add: executeAction_def split_beta)
  have "rc_sweep (snd (actionStillCurrent env 0 a rc))
      \<or> (\<exists>q. rc_pending (snd (actionStillCurrent env 0 a rc)) (sa_path a) = Some q \<and> pu_rescan q)"
  proof (cases "rc_pending rc (sa_path a)")
    case None
    with assms(1) nb show ?thesis
      by (simp add: actionStillCurrent_def split_beta Let_def deferScan_iff)
  next
    case (Some q)
    with assms(1) show ?thesis
      by (simp add: actionStillCurrent_def split_beta Let_def deferScan_iff)
        (simp add: deferScanForPendingUpload_def)
  qed
  then show ?thesis unfolding ex by simp
qed

theorem stale_action_does_nothing_witness:
  "rc_effects (snd (executeAction id exampleEnv ((newAction DeleteRemote ''a'')\<lparr>sa_checkState := True\<rparr>)
     (startWith [''a'' \<mapsto> exampleEntry]))) = []"
proof -
  let ?a = "(newAction DeleteRemote ''a'')\<lparr>sa_checkState := True\<rparr>"
  have "\<not> baselineCurrent ?a (startWith [''a'' \<mapsto> exampleEntry])"
    by (simp add: baselineCurrent_def newAction_def)
  moreover have "sa_checkState ?a" "ae_running exampleEnv 0 = None" by (simp_all add: exampleEnv_def)
  ultimately show ?thesis using stale_action_does_nothing [of ?a "startWith [''a'' \<mapsto> exampleEntry]" exampleEnv id] by simp
qed

subsection \<open>Conflict copies\<close>

definition downloadEffects :: "path \<Rightarrow> bytes \<Rightarrow> u32 \<Rightarrow> bool \<Rightarrow> bool \<Rightarrow> effect list \<Rightarrow> bool" where
  "downloadEffects p data m conflict same es \<longleftrightarrow>
     es = [] \<or> es = [LMoveToConflict p] \<or> es = [LMoveToConflict p, LWriteFile p data m]
     \<or> es = [LWriteFile p data m] \<and> (conflict \<longrightarrow> same)"

lemma applyDownload_effects:
  "\<exists>es. rc_effects (snd (applyDownload h env a st data rc)) = rc_effects rc @ es
    \<and> downloadEffects (sa_path a) data (downloadMode (rc_readonly rc) (st_mode st)) (sa_conflict a)
        (\<exists>cur. ae_readFile env = OsOk cur \<and> h cur = h data) es"
proof (cases "identicalLocal h env (h data) (st_mode st)")
  case True
  then have same: "\<exists>cur. ae_readFile env = OsOk cur \<and> h cur = h data"
    by (auto simp: identicalLocal_def split: os_result.splits)
  show ?thesis unfolding downloadEffects_def applyDownload_def Let_def using same True
    by (cases "rc_readonly rc"; cases "ae_write env") simp_all
next
  case False
  show ?thesis unfolding downloadEffects_def applyDownload_def Let_def using False
    by (cases "sa_conflict a"; cases "ae_move env"; cases "ae_write env") simp_all
qed



subsection \<open>Cold start and root replacement\<close>

record manifest_entry =
  me_type :: string
  me_mode :: u32
  me_mtimeMs :: int
  me_size :: int
  me_blobID :: string
  me_inline :: string
  me_target :: string

text \<open>\<open>base64.StdEncoding\<close>: line breaks are skipped, padding is required.\<close>

definition b64Value :: "char \<Rightarrow> nat option" where
  "b64Value c = (let n = of_char c in
     if 65 \<le> n \<and> n \<le> 90 then Some (n - 65)
     else if 97 \<le> n \<and> n \<le> 122 then Some (n - 71)
     else if 48 \<le> n \<and> n \<le> 57 then Some (n + 4)
     else if n = 43 then Some 62 else if n = 47 then Some 63 else None)"

fun b64Decode :: "string \<Rightarrow> bytes option" where
  "b64Decode [] = Some []"
| "b64Decode (a # b # c # d # rest) =
     (case (b64Value a, b64Value b) of
        (Some x, Some y) \<Rightarrow>
          (case (b64Value c, b64Value d) of
             (Some z, Some w) \<Rightarrow>
               map_option (\<lambda>r. char_of (x * 4 + y div 16) # char_of ((y mod 16) * 16 + z div 4)
                                # char_of ((z mod 4) * 64 + w) # r) (b64Decode rest)
           | (Some z, None) \<Rightarrow>
               if d = CHR ''='' \<and> rest = []
               then Some [char_of (x * 4 + y div 16), char_of ((y mod 16) * 16 + z div 4)] else None
           | _ \<Rightarrow> if c = CHR ''='' \<and> d = CHR ''='' \<and> rest = [] then Some [char_of (x * 4 + y div 16)] else None)
      | _ \<Rightarrow> None)"
| "b64Decode _ = None"

definition decodeInline :: "string \<Rightarrow> bytes option" where
  "decodeInline s = b64Decode (filter (\<lambda>c. c \<noteq> CHR 0x0A \<and> c \<noteq> CHR 0x0D) s)"

definition manifestEntryData :: "(string \<Rightarrow> bytes option) \<Rightarrow> manifest_entry \<Rightarrow> bytes option" where
  "manifestEntryData blobs e =
     (if me_inline e \<noteq> [] then decodeInline (me_inline e)
      else if me_blobID e \<noteq> [] then blobs (me_blobID e)
      else if me_type e = ''file'' \<and> me_size e = 0 then Some [] else None)"

definition manifestBase :: "manifest_entry \<Rightarrow> int \<Rightarrow> sync_entry" where
  "manifestBase e now = zeroEntry\<lparr>se_type := me_type e, se_mode := me_mode e, se_size := me_size e,
     se_remoteMtimeMs := me_mtimeMs e, se_lastSyncedAt := now\<rparr>"

definition withContent :: "(bytes \<Rightarrow> string) \<Rightarrow> bytes option \<Rightarrow> file_info os_result \<Rightarrow> sync_entry \<Rightarrow> sync_entry" where
  "withContent h data st e =
     (let e1 = (case data of None \<Rightarrow> e | Some d \<Rightarrow> e\<lparr>se_localHash := h d, se_remoteHash := h d\<rparr>)
      in case st of OsOk info \<Rightarrow> e1\<lparr>se_localMtimeMs := unixMilli (fi_mtimeNs info)\<rparr> | _ \<Rightarrow> e1)"

definition manifestSyncEntry ::
    "(bytes \<Rightarrow> string) \<Rightarrow> (string \<Rightarrow> bytes option) \<Rightarrow> (path \<Rightarrow> file_info os_result) \<Rightarrow> int \<Rightarrow> path \<Rightarrow> manifest_entry \<Rightarrow> sync_entry" where
  "manifestSyncEntry h blobs stat now rel e =
     (if me_type e = ''file'' then withContent h (manifestEntryData blobs e) (stat rel) (manifestBase e now)
      else if me_type e = ''symlink'' then (manifestBase e now)\<lparr>se_target := me_target e\<rparr>
      else manifestBase e now)"

text \<open>
  \<open>paths\<close> is the order the manifest is visited in, \<open>rels\<close> the order of the new map.  A missing
  blob stops the replacement before the state is touched.
\<close>

definition replaceStateFromManifest ::
    "(bytes \<Rightarrow> string) \<Rightarrow> (string \<Rightarrow> bytes option) \<Rightarrow> (path \<Rightarrow> file_info os_result) \<Rightarrow> int
     \<Rightarrow> (path \<times> manifest_entry) list \<Rightarrow> path list \<Rightarrow> reconciler \<Rightarrow> step_result" where
  "replaceStateFromManifest h blobs stat now m rels rc =
     (let usable = filter (\<lambda>(p, e). trimPrefix p ''/'' \<noteq> []) m in
      if \<exists>(p, e) \<in> set usable. me_type e = ''file'' \<and> manifestEntryData blobs e = None
      then (Some ''blob missing while rebuilding sync state'', rc)
      else let nextm = map_of (rev (map (\<lambda>(p, e). (trimPrefix p ''/'', manifestSyncEntry h blobs stat now (trimPrefix p ''/'') e)) usable));
               rc1 = rc\<lparr>rc_writer := (rc_writer rc)\<lparr>sw_state := (sw_state (rc_writer rc))\<lparr>ss_entries := Map.empty\<rparr>, sw_dirty := True\<rparr>\<rparr>
           in (None, fold (\<lambda>rel r. case nextm rel of None \<Rightarrow> r | Some e \<Rightarrow> putEntry rel e r) rels rc1))"

definition isColdStart :: "path list \<Rightarrow> string list os_result \<Rightarrow> reconciler \<Rightarrow> bool" where
  "isColdStart keys dir rc =
     (if keys \<noteq> [] then False
      else case dir of OsOk names \<Rightarrow> list_all (\<lambda>n. hasPrefix n ''.'') names | _ \<Rightarrow> True)"

text \<open>The state a cold start records; its entries keep Go's zero version.\<close>

definition coldStartState ::
    "(bytes \<Rightarrow> string) \<Rightarrow> (string \<Rightarrow> bytes option) \<Rightarrow> (path \<Rightarrow> file_info os_result) \<Rightarrow> int
     \<Rightarrow> (path \<times> manifest_entry) list \<Rightarrow> reconciler \<Rightarrow> reconciler" where
  "coldStartState h blobs stat now m rc =
     markDirtyR (fold (\<lambda>(p, e) r. if trimPrefix p ''/'' = [] then r
        else setEntry (trimPrefix p ''/'') (Some (manifestSyncEntry h blobs stat now (trimPrefix p ''/'') e)) r) m rc)"

lemma manifestSyncEntry_version [simp]: "se_version (manifestSyncEntry h blobs stat now rel e) = 0"
  by (simp add: manifestSyncEntry_def withContent_def manifestBase_def zeroEntry_def Let_def
      split: option.splits os_result.splits)

text \<open>
  Replacing the state from a manifest gives every entry a version that no entry had before, below
  the counter, so no worker that remembers an earlier entry can take a new one for it.
\<close>

theorem root_replace_versions_fresh:
  assumes "versionRoom (length rels) rc"
    and "replaceStateFromManifest h blobs stat now m rels rc = (None, rc')"
  shows "versionsFresh rc' \<and> (\<forall>p e. entries rc' p = Some e \<longrightarrow> nextV rc \<le> se_version e)"
proof -
  define rc1 where "rc1 = rc\<lparr>rc_writer := (rc_writer rc)\<lparr>sw_state := (sw_state (rc_writer rc))\<lparr>ss_entries := Map.empty\<rparr>, sw_dirty := True\<rparr>\<rparr>"
  obtain nextm where rc': "rc' = fold (\<lambda>rel r. case nextm rel of None \<Rightarrow> r | Some e \<Rightarrow> putEntry rel e r) rels rc1"
    using assms(2) by (auto simp: replaceStateFromManifest_def Let_def rc1_def split: if_splits)
  let ?f = "\<lambda>rel r. case nextm rel of None \<Rightarrow> r | Some e \<Rightarrow> putEntry rel e r"
  have n1: "nextV rc1 = nextV rc" by (simp add: rc1_def)
  have "vstep 1 r (?f x r)" for x r
    by (cases "nextm x") (auto simp del: One_nat_def intro: vstep_putEntry)
  then have "vstep (length rels) rc1 rc'" unfolding rc' by (rule vstep_fold)
  moreover have "versionsFresh rc1" by (simp add: versionsFresh_def rc1_def)
  ultimately have fresh: "versionsFresh rc'" using assms(1) n1 by (simp add: vstep_def versionRoom_def)
  have "\<forall>p e. entries (fold ?f xs r) p = Some e \<longrightarrow> b \<le> se_version e"
    if "versionRoom (length xs) r" "b \<le> nextV r" "\<forall>p e. entries r p = Some e \<longrightarrow> b \<le> se_version e" for xs r b
    using that
  proof (induction xs arbitrary: r)
    case (Cons x xs)
    show ?case
    proof (cases "nextm x")
      case None
      with Cons.prems Cons.IH [of r] show ?thesis by (auto simp: versionRoom_def)
    next
      case (Some e)
      let ?r = "putEntry x e r"
      have u: "unat (nextV r + 1) = unat (nextV r) + 1"
        using Cons.prems(1) by (intro unat_succ) (simp add: versionRoom_def)
      have "b \<le> nextV ?r" using u Cons.prems(2) by (simp add: word_le_nat_alt)
      moreover have "versionRoom (length xs) ?r" using u Cons.prems(1) by (simp add: versionRoom_def)
      moreover have "\<forall>p e. entries ?r p = Some e \<longrightarrow> b \<le> se_version e"
        using Cons.prems(2,3) by simp
      ultimately have "\<forall>p e. entries (fold ?f xs ?r) p = Some e \<longrightarrow> b \<le> se_version e"
        by (intro Cons.IH)
      then show ?thesis by (simp only: fold_simps Some option.case)
    qed
  qed simp
  from this [of rels rc1 "nextV rc"] assms(1) n1 have "\<forall>p e. entries rc' p = Some e \<longrightarrow> nextV rc \<le> se_version e"
    by (simp add: rc' versionRoom_def) (simp add: rc1_def)
  with fresh show ?thesis by blast
qed

theorem root_replace_versions_fresh_witness:
  "\<exists>rc'. replaceStateFromManifest id (\<lambda>_. None) (\<lambda>_. OsNotExist) 7
       [(''/d'', \<lparr>me_type = ''dir'', me_mode = 493, me_mtimeMs = 1, me_size = 0, me_blobID = [], me_inline = [], me_target = []\<rparr>)]
       [''d''] (startWith [''a'' \<mapsto> exampleEntry]) = (None, rc') \<and> versionsFresh rc'"
proof -
  let ?m = "[(''/d'', \<lparr>me_type = ''dir'', me_mode = 493, me_mtimeMs = 1, me_size = 0, me_blobID = [], me_inline = [], me_target = []\<rparr>)]"
  obtain rc' where r: "replaceStateFromManifest id (\<lambda>_. None) (\<lambda>_. OsNotExist) 7 ?m [''d'']
      (startWith [''a'' \<mapsto> exampleEntry]) = (None, rc')"
    by (simp add: replaceStateFromManifest_def trimPrefix_def hasPrefix_def Let_def)
  have "versionRoom (length [''d'']) (startWith [''a'' \<mapsto> exampleEntry])" by (simp add: versionRoom_def)
  from root_replace_versions_fresh [OF this r] r show ?thesis by blast
qed

text \<open>
  A cold start of a new daemon gives every entry the version 0 that the counter hands out
  next, so the first entry stored afterwards has the version of the entry it replaces, and an
  action planned against the replaced entry still passes for current.
\<close>

theorem cold_start_version_collision:
  assumes "entries (coldStartState h blobs stat now m rc) p = Some e"
    and "entries rc p = None" and "nextV rc = 0"
    and "sa_path a = p" and "sa_hasStored a" and "sa_stored a = e"
  shows "se_version e = 0
    \<and> baselineCurrent a (putEntry p e2 (coldStartState h blobs stat now m rc))"
proof -
  let ?f = "\<lambda>(p, e) r. if trimPrefix p ''/'' = [] then r
        else setEntry (trimPrefix p ''/'') (Some (manifestSyncEntry h blobs stat now (trimPrefix p ''/'') e)) r"
  have n: "nextV (fold ?f m r) = nextV r" for r
    by (induction m arbitrary: r) auto
  have z: "entries r p = None \<or> (\<exists>e0. entries r p = Some e0 \<and> se_version e0 = 0) \<Longrightarrow>
      entries (fold ?f m r) p = Some e \<Longrightarrow> se_version e = 0" for r
  proof (induction m arbitrary: r)
    case (Cons x m)
    obtain q me where x: "x = (q, me)" by force
    show ?case
      using Cons.prems(2) Cons.prems(1) unfolding x
      by (simp only: fold_simps o_apply) (rule Cons.IH [rotated], assumption, auto)
  qed auto
  have v: "se_version e = 0" using z [of rc] assms(1,2) by (simp add: coldStartState_def)
  have "nextV (coldStartState h blobs stat now m rc) = 0"
    using n [of rc] assms(3) by (simp add: coldStartState_def)
  with v show ?thesis using assms(4-6) by (simp add: baselineCurrent_def)
qed

subsection \<open>Order of a pass\<close>

text \<open>The local directories a trace creates and the local trees it removes, in order.\<close>

definition createdDirs :: "effect list \<Rightarrow> path list" where
  "createdDirs es = concat (map (\<lambda>e. case e of LMkdirAll p \<Rightarrow> [p] | _ \<Rightarrow> []) es)"

definition removedTrees :: "effect list \<Rightarrow> path list" where
  "removedTrees es = concat (map (\<lambda>e. case e of LRemoveAll p \<Rightarrow> [p] | _ \<Rightarrow> []) es)"

lemma created_simps [simp]:
  "createdDirs [] = []" "createdDirs (es @ fs) = createdDirs es @ createdDirs fs"
  "createdDirs (e # es) = (case e of LMkdirAll p \<Rightarrow> p # createdDirs es | _ \<Rightarrow> createdDirs es)"
  "removedTrees [] = []" "removedTrees (es @ fs) = removedTrees es @ removedTrees fs"
  "removedTrees (e # es) = (case e of LRemoveAll p \<Rightarrow> p # removedTrees es | _ \<Rightarrow> removedTrees es)"
  by (simp_all add: createdDirs_def removedTrees_def split: effect.splits)

text \<open>\<open>traced rc rc' c r\<close>: the step issues the creations \<open>c\<close> and the removals \<open>r\<close>.\<close>

definition traced :: "reconciler \<Rightarrow> reconciler \<Rightarrow> path list \<Rightarrow> path list \<Rightarrow> bool" where
  "traced rc rc' c r \<longleftrightarrow>
     createdDirs (rc_effects rc') = createdDirs (rc_effects rc) @ c
     \<and> removedTrees (rc_effects rc') = removedTrees (rc_effects rc) @ r"

lemma traced_same [simp]: "rc_effects rc' = rc_effects rc \<Longrightarrow> traced rc rc' [] []"
  by (simp add: traced_def)

lemma traced_trans: "traced a b c1 r1 \<Longrightarrow> traced b d c2 r2 \<Longrightarrow> traced a d (c1 @ c2) (r1 @ r2)"
  by (simp add: traced_def)

lemma prepare_traced: "traced rc (snd (snd (prepare env p dm rc))) [] []"
proof (induction env p dm rc rule: prepare.induct)
  case (1 env p dm rc)
  then show ?case
    by (subst prepare.simps) (auto simp: Let_def traced_def split: prod.splits option.splits os_result.splits)
qed

definition mkdirPaths :: "sync_action \<Rightarrow> path list" where
  "mkdirPaths a = (if sa_kind a = MkdirLocal then [sa_path a] else [])"

definition removePaths :: "sync_action \<Rightarrow> path list" where
  "removePaths a = (if sa_kind a = DeleteLocal then [sa_path a] else [])"

definition allowed :: "sync_action \<Rightarrow> reconciler \<Rightarrow> reconciler \<Rightarrow> bool" where
  "allowed a rc rc' \<longleftrightarrow>
     traced rc rc' [] [] \<or> traced rc rc' (mkdirPaths a) (removePaths a)"

lemma allowed_same: "rc_effects rc' = rc_effects rc \<Longrightarrow> allowed a rc rc'"
  by (simp add: allowed_def)

lemma allowed_of_effects: "rc_effects rc1 = rc_effects rc \<Longrightarrow> allowed a rc1 rc' \<Longrightarrow> allowed a rc rc'"
  by (simp add: allowed_def traced_def)

lemma allowed_execMkdirLocal: "sa_kind a = MkdirLocal \<Longrightarrow> allowed a rc (snd (execMkdirLocal env a rc))"
  by (auto simp: execMkdirLocal_def Let_def allowed_def traced_def mkdirPaths_def removePaths_def split: option.splits)

lemma allowed_execMkdirRemote: "allowed a rc (snd (execMkdirRemote env a rc))"
  by (auto simp: execMkdirRemote_def Let_def allowed_def traced_def split: option.splits client_err.splits)

lemma applyDownload_traced: "traced rc (snd (applyDownload h env a st data rc)) [] []"
proof -
  obtain es where "rc_effects (snd (applyDownload h env a st data rc)) = rc_effects rc @ es"
    and "downloadEffects (sa_path a) data (downloadMode (rc_readonly rc) (st_mode st)) (sa_conflict a)
        (\<exists>cur. ae_readFile env = OsOk cur \<and> h cur = h data) es"
    using applyDownload_effects by blast
  then show ?thesis by (auto simp: traced_def downloadEffects_def)
qed

lemma allowed_execDownload: "allowed a rc (snd (execDownload h env a rc))"
  using applyDownload_traced
  by (auto simp: execDownload_def split_beta Let_def allowed_def traced_def split: os_result.splits option.splits)

lemma allowed_execDeleteLocal: "sa_kind a = DeleteLocal \<Longrightarrow> allowed a rc (snd (execDeleteLocal env a rc))"
  by (auto simp: execDeleteLocal_def Let_def allowed_def traced_def mkdirPaths_def removePaths_def
      split: option.splits os_result.splits)

lemma allowed_execDeleteRemote: "allowed a rc (snd (execDeleteRemote env a rc))"
  by (auto simp: execDeleteRemote_def Let_def allowed_def traced_def split: option.splits client_err.splits)

lemma publishUpload_traced: "traced rc (snd (publishUpload env a info data hash rc)) [] []"
  by (auto simp: publishUpload_def Let_def traced_def split: sum.splits option.splits)

lemma allowed_execUpload: "allowed a rc (snd (execUpload h env a rc))"
proof -
  obtain c1 rc1 where c1: "actionStillCurrent env 2 a rc = (c1, rc1)" by force
  then have w1: "rc_effects rc1 = rc_effects rc" using actionStillCurrent_frame(2) [of env 2 a rc] by simp
  obtain c2 rc2 where c2: "remoteStillCurrent env a rc1 = (c2, rc2)" by force
  then have w2: "rc_effects rc2 = rc_effects rc" using remoteStillCurrent_frame(2) [of env a rc1] w1 by simp
  have "traced rc (snd (execUpload h env a rc)) [] []"
    unfolding execUpload_def c1 c2 Let_def prod.case
    using publishUpload_traced [of rc2 env a]
    by (simp add: w1 w2 c2 traced_def split: os_result.splits sum.splits bool.splits option.splits prod.splits)
  then show ?thesis by (simp add: allowed_def)
qed

lemma allowed_execSymlinkDownload: "allowed a rc (snd (execSymlinkDownload env a rc))"
  by (auto simp: execSymlinkDownload_def Let_def allowed_def traced_def split: option.splits os_result.splits)

lemma allowed_execSymlinkUpload: "allowed a rc (snd (execSymlinkUpload env a rc))"
  by (auto simp: execSymlinkUpload_def Let_def allowed_def traced_def split: option.splits os_result.splits)

lemma allowed_executeAction: "allowed a rc (snd (executeAction h env a rc))"
proof -
  obtain c rc1 where c: "actionStillCurrent env 0 a rc = (c, rc1)" by force
  then have w: "rc_effects rc1 = rc_effects rc" using actionStillCurrent_frame(2) [of env 0 a rc] by simp
  note all = allowed_execMkdirLocal allowed_execMkdirRemote allowed_execDownload allowed_execUpload
    allowed_execSymlinkDownload allowed_execSymlinkUpload allowed_execDeleteRemote allowed_execDeleteLocal
  show ?thesis
    using all [THEN allowed_of_effects [OF w]] allowed_same [OF w]
    by (simp add: executeAction_def c allowed_same split: option.splits action_kind.splits)
qed

definition covered :: "sync_action list \<Rightarrow> reconciler \<Rightarrow> reconciler \<Rightarrow> bool" where
  "covered as rc rc' \<longleftrightarrow>
     (\<exists>c r. traced rc rc' c r \<and> subseq c (concat (map mkdirPaths as)) \<and> subseq r (concat (map removePaths as)))"

lemma covered_traced: "traced rc rc' [] [] \<Longrightarrow> covered as rc rc'"
  unfolding covered_def by (intro exI [of _ "[]"]) simp

lemma covered_trans: "covered as a b \<Longrightarrow> covered bs b c \<Longrightarrow> covered (as @ bs) a c"
  unfolding covered_def by (force intro: traced_trans list_emb_append_mono)

lemma covered_allowed: "allowed a rc rc' \<Longrightarrow> covered [a] rc rc'"
  unfolding covered_def allowed_def by (elim disjE) (intro exI, erule conjI, simp)+

lemma covered_extend: "covered as rc rc' \<Longrightarrow> covered (as @ bs) rc rc'"
  by (erule covered_trans) (rule covered_traced, simp)

lemma covered_of_effects: "covered as rc rc1 \<Longrightarrow> rc_effects rc2 = rc_effects rc1 \<Longrightarrow> covered as rc rc2"
  by (simp add: covered_def traced_def)

lemma covered_executeAction: "covered [a] rc (snd (executeAction h env a rc))"
  by (rule covered_allowed [OF allowed_executeAction])

lemma covered_prepare: "covered [] rc (snd (snd (prepare env p dm rc)))"
  by (rule covered_traced [OF prepare_traced])

lemma covered_untilErr:
  assumes "\<And>x dm rc. covered (as x) rc (snd (snd (f x dm rc)))"
  shows "covered (concat (map as xs)) rc (snd (snd (untilErr f xs dm rc)))"
proof (induction xs arbitrary: dm rc)
  case (Cons x xs)
  obtain e dm1 rc1 where f: "f x dm rc = (e, dm1, rc1)" by (cases "f x dm rc") auto
  have s1: "covered (as x) rc rc1" using assms [of x rc dm] f by simp
  show ?case
  proof (cases e)
    case None
    then show ?thesis using covered_trans [OF s1 Cons [where dm = dm1 and rc = rc1]] f by simp
  next
    case (Some m)
    then show ?thesis using covered_extend [OF s1] f by simp
  qed
qed (simp add: covered_traced)

lemma covered_dirStep: "covered [a] rc (snd (snd (dirStep h env a dm rc)))"
proof -
  obtain e1 dm1 rc1 where p1: "(if sa_kind a = MkdirLocal then prepare (pe_before env a) (parentDir (sa_path a)) dm rc
      else (None, dm, rc)) = (e1, dm1, rc1)" by (metis prod_cases3)
  have "covered [] rc (snd (snd (if sa_kind a = MkdirLocal then prepare (pe_before env a) (parentDir (sa_path a)) dm rc
      else (None, dm, rc))))" by (simp add: covered_prepare covered_traced)
  then have c1: "covered [] rc rc1" unfolding p1 by simp
  obtain e2 rc2 where p2: "executeAction h (pe_action env a) a rc1 = (e2, rc2)" by force
  have c2: "covered [a] rc rc2"
    using covered_trans [OF c1 covered_executeAction [of a rc1 h "pe_action env a"]] p2 by simp
  have c3: "covered [a] rc (snd (snd (prepare d q dm1 rc2)))" for d q
    using covered_trans [OF c2 covered_prepare] by simp
  show ?thesis
    unfolding dirStep_def p1
    using covered_extend [OF c1, of "[a]"] c2 c3 by (simp add: p2 covered_traced split: option.splits)
qed

lemma covered_reopenStep: "covered [] rc (snd (snd (reopenStep env a dm rc)))"
  by (simp add: reopenStep_def covered_prepare covered_traced split: option.splits)

lemma covered_deleteStep: "covered [a] rc (snd (snd (deleteStep h env a dm rc)))"
  using covered_executeAction [of a rc h "pe_action env a"]
  by (simp add: deleteStep_def split_beta covered_traced split: option.splits)

lemma covered_runPool: "covered as rc (snd (runPool h env as err rc))"
proof (induction as arbitrary: err rc)
  case (Cons a as)
  show ?case using covered_trans [OF covered_executeAction [of a rc h "pe_action env a"] Cons]
    by (simp add: split_beta)
qed (simp add: covered_traced)

lemma covered_planPhases:
  "covered (dirActions plan @ deleteActions plan @ pe_ran env) rc (snd (snd (planPhases h env plan rc)))"
proof -
  obtain e1 dm1 rc1 where p1: "untilErr (dirStep h env) (dirActions plan) newSyncDirectoryModes rc = (e1, dm1, rc1)"
    by (metis prod_cases3)
  obtain e2 dm2 rc2 where p2: "untilErr (reopenStep env) plan dm1 rc1 = (e2, dm2, rc2)" by (metis prod_cases3)
  obtain e3 dm3 rc3 where p3: "untilErr (deleteStep h env) (deleteActions plan) dm2 rc2 = (e3, dm3, rc3)"
    by (metis prod_cases3)
  obtain e4 rc4 where p4: "runPool h env (pe_ran env) None rc3 = (e4, rc4)" by force
  have c1: "covered (dirActions plan) rc rc1"
    using covered_untilErr [where as = "\<lambda>a. [a]" and f = "dirStep h env" and xs = "dirActions plan" and rc = rc
        and dm = newSyncDirectoryModes] covered_dirStep p1 by simp
  have "covered [] rc1 rc2"
    using covered_untilErr [where as = "\<lambda>a. []" and f = "reopenStep env" and xs = plan and rc = rc1 and dm = dm1]
      covered_reopenStep p2 by (simp add: map_replicate_const)
  from covered_trans [OF c1 this] have c2: "covered (dirActions plan) rc rc2" by simp
  have "covered (deleteActions plan) rc2 rc3"
    using covered_untilErr [where as = "\<lambda>a. [a]" and f = "deleteStep h env" and xs = "deleteActions plan" and rc = rc2
        and dm = dm2] covered_deleteStep p3 by simp
  from covered_trans [OF c2 this] have c3: "covered (dirActions plan @ deleteActions plan) rc rc3" by simp
  have "covered (pe_ran env) rc3 rc4" using covered_runPool [of "pe_ran env" rc3 h env None] p4 by simp
  from covered_trans [OF c3 this]
  have "covered ((dirActions plan @ deleteActions plan) @ pe_ran env) rc (markDirtyR rc4)"
    by (rule covered_of_effects) simp
  then show ?thesis
    unfolding planPhases_def p1
    using covered_extend [OF c1, of "deleteActions plan @ pe_ran env"]
      covered_extend [OF c2, of "deleteActions plan @ pe_ran env"] covered_extend [OF c3, of "pe_ran env"]
    by (cases e1; cases e2; cases e3) (simp_all add: p2 p3 p4)
qed

lemma restoreOne_traced: "traced (snd er) (snd (restoreOne env d er)) [] []"
  by (cases d; cases er) (auto simp: restoreOne_def traced_def split: os_result.splits)

lemma restore_traced: "traced rc (snd (restore env dm rc)) [] []"
proof -
  have "traced (snd er) (snd (fold (restoreOne env) ds er)) [] []" for ds er
  proof (induction ds arbitrary: er)
    case (Cons d ds)
    then show ?case using traced_trans [OF restoreOne_traced [of er env d] Cons] by simp
  qed simp
  from this [of "(None, rc)"] show ?thesis by (simp add: restore_def)
qed

lemma sorted_wrt_subseq: "subseq xs ys \<Longrightarrow> sorted_wrt R ys \<Longrightarrow> sorted_wrt R xs"
  by (induction rule: list_emb.induct) (auto dest: list_emb_set)

lemma sorted_wrt_concat_one:
  assumes "sorted_wrt R as" and "\<And>a p. p \<in> set (f a) \<Longrightarrow> p = sa_path a" and "\<And>a. length (f a) \<le> 1"
    and "\<And>a b. R a b \<Longrightarrow> Q (sa_path a) (sa_path b)"
  shows "sorted_wrt Q (concat (map f as))"
proof (rule sorted_wrt_concat_map [OF assms(1)])
  show "sorted_wrt Q (f a)" for a using assms(3) [of a] by (cases "f a") auto
qed (use assms(2,4) in metis)

text \<open>
  A pass creates local directories parents first and removes local trees children first,
  whatever fails or is skipped on the way.
\<close>

theorem plan_order:
  assumes "set (pe_ran env) \<subseteq> set (fileActions plan)"
  shows "\<exists>c r. createdDirs (rc_effects (snd (executePlan h env plan rc))) = createdDirs (rc_effects rc) @ c
    \<and> removedTrees (rc_effects (snd (executePlan h env plan rc))) = removedTrees (rc_effects rc) @ r
    \<and> sorted_wrt (\<lambda>p q. \<not> hasPrefix p (q @ ''/'')) c
    \<and> sorted_wrt (\<lambda>p q. \<not> hasPrefix q (p @ ''/'')) r"
proof -
  obtain err dm rc1 where p: "planPhases h env plan rc = (err, dm, rc1)" by (metis prod_cases3)
  have cov: "covered (dirActions plan @ deleteActions plan @ pe_ran env) rc rc1"
    using covered_planPhases [of plan env rc h] p by simp
  have "mkdirPaths a = [] \<and> removePaths a = []" if "a \<in> set (pe_ran env)" for a
    using assms that by (auto simp: fileActions_def isDirAction_def isDeleteAction_def mkdirPaths_def removePaths_def)
  then have ran: "concat (map mkdirPaths (pe_ran env)) = []" "concat (map removePaths (pe_ran env)) = []"
    by simp_all
  have dirs: "concat (map removePaths (dirActions plan)) = []" "concat (map mkdirPaths (deleteActions plan)) = []"
    by (auto simp: dirActions_def deleteActions_def isDirAction_def isDeleteAction_def mkdirPaths_def removePaths_def)
  obtain c r where tr: "traced rc rc1 c r" and c: "subseq c (concat (map mkdirPaths (dirActions plan)))"
    and r: "subseq r (concat (map removePaths (deleteActions plan)))"
    using cov unfolding covered_def map_append concat_append ran dirs by auto
  have tr': "traced rc (snd (executePlan h env plan rc)) c r"
    using traced_trans [OF tr restore_traced [of rc1 "pe_restore env" dm]]
    by (simp add: executePlan_def p split_beta)
  have "sorted_wrt (\<lambda>p q. \<not> hasPrefix p (q @ ''/'')) (concat (map mkdirPaths (dirActions plan)))"
    by (rule sorted_wrt_concat_one [OF dirActions_sorted])
      (auto simp: mkdirPaths_def dirLess_def dest!: pathDepth_child split: if_splits)
  moreover have "sorted_wrt (\<lambda>p q. \<not> hasPrefix q (p @ ''/'')) (concat (map removePaths (deleteActions plan)))"
    by (rule sorted_wrt_concat_one [OF deleteActions_sorted])
      (auto simp: removePaths_def deleteLess_def dest!: pathDepth_child split: if_splits)
  ultimately show ?thesis
    using tr' sorted_wrt_subseq [OF c] sorted_wrt_subseq [OF r] unfolding traced_def by blast
qed

theorem plan_order_witness:
  "\<exists>c. createdDirs (rc_effects (snd (executePlan id (examplePlanEnv [])
       [newAction MkdirLocal ''d/e'', newAction MkdirLocal ''d''] (startWith Map.empty)))) = c
     \<and> sorted_wrt (\<lambda>p q. \<not> hasPrefix p (q @ ''/'')) c"
  using plan_order [of "examplePlanEnv []" "[newAction MkdirLocal ''d/e'', newAction MkdirLocal ''d'']" id "startWith Map.empty"]
  by (auto simp: examplePlanEnv_def Let_def createdDirs_def)

subsection \<open>Restoring directory modes\<close>

definition stillPrepared :: "dir_env \<Rightarrow> path \<times> file_info \<Rightarrow> bool" where
  "stillPrepared env = (\<lambda>(p, before). de_chmod env p = None \<and>
     (case de_lstat env p of
        OsOk now \<Rightarrow> fi_ident now = fi_ident before \<and> fi_kind now = fi_kind before
                    \<and> fi_perm now = ownerAccess (fi_perm before)
      | _ \<Rightarrow> False))"

lemma restoreOne_prepared:
  "stillPrepared env (p, before) \<Longrightarrow>
   restoreOne env (p, before) (None, rc) = (None, emit (LChmod p (fi_perm before)) (markEchoR p EchoDir rc))"
  by (auto simp: stillPrepared_def restoreOne_def joinErr_def split: os_result.splits)

lemma less_child: "hasPrefix q (p @ ''/'') \<Longrightarrow> p < q" for p q :: path
proof -
  have "p < p @ c # t" for c t by (induction p) auto
  then show "hasPrefix q (p @ ''/'') \<Longrightarrow> p < q" by (auto simp: hasPrefix_iff)
qed

text \<open>
  When nothing else touched the prepared directories, \<open>restore\<close> gives each of them back the
  mode it had, exactly once, descendants before ancestors (so that search permission is still
  there when it is needed), and reports no error.
\<close>

theorem restore_exact:
  assumes "list_all (stillPrepared env) (dm_changed dm)"
  shows "fst (restore env dm rc) = None
    \<and> rc_effects (snd (restore env dm rc))
        = rc_effects rc @ map (\<lambda>(p, before). LChmod p (fi_perm before)) (restorePaths dm)
    \<and> mset (restorePaths dm) = mset (dm_changed dm)
    \<and> sorted_wrt (\<lambda>a b. \<not> hasPrefix (fst b) (fst a @ ''/'')) (restorePaths dm)"
proof -
  have "fold (restoreOne env) ds (None, r) =
      (None, fold (\<lambda>(p, before) r. emit (LChmod p (fi_perm before)) (markEchoR p EchoDir r)) ds r)"
    if "list_all (stillPrepared env) ds" for ds r
    using that by (induction ds arbitrary: r) (auto simp: restoreOne_prepared)
  moreover have "rc_effects (fold (\<lambda>(p, before) r. emit (LChmod p (fi_perm before)) (markEchoR p EchoDir r)) ds r)
      = rc_effects r @ map (\<lambda>(p, before). LChmod p (fi_perm before)) ds" for ds r
    by (induction ds arbitrary: r) auto
  moreover have m: "mset (restorePaths dm) = mset (dm_changed dm)" by (simp add: restorePaths_def)
  moreover have "list_all (stillPrepared env) (restorePaths dm)"
    using assms m by (metis list_all_iff mset_eq_setD)
  moreover have "sorted_wrt (\<lambda>a b. fst b \<le> fst a) (restorePaths dm)"
    unfolding restorePaths_def sorted_wrt_rev
    using sorted_sort_key [of fst "dm_changed dm"] by (simp add: sorted_map)
  then have "sorted_wrt (\<lambda>a b. \<not> hasPrefix (fst b) (fst a @ ''/'')) (restorePaths dm)"
    by (rule sorted_wrt_mono_rel [rotated]) (auto dest: less_child)
  ultimately show ?thesis by (simp add: restore_def)
qed

theorem restore_exact_witness:
  "fst (restore \<lparr>de_lstat = \<lambda>_. OsOk (exampleInfo IDir\<lparr>fi_perm := 484\<rparr>), de_chmod = \<lambda>_. None\<rparr>
     \<lparr>dm_prepared = {''d''}, dm_changed = [(''d'', exampleInfo IDir\<lparr>fi_perm := 36\<rparr>)]\<rparr> (startWith Map.empty)) = None"
proof -
  have "list_all (stillPrepared \<lparr>de_lstat = \<lambda>_. OsOk (exampleInfo IDir\<lparr>fi_perm := 484\<rparr>), de_chmod = \<lambda>_. None\<rparr>)
      (dm_changed \<lparr>dm_prepared = {''d''}, dm_changed = [(''d'', exampleInfo IDir\<lparr>fi_perm := 36\<rparr>)]\<rparr>)"
    by (simp add: stillPrepared_def exampleInfo_def ownerAccess_def)
  from restore_exact [OF this] show ?thesis by simp
qed

subsection \<open>Two gaps the model shows\<close>

text \<open>
  A symlink download ignores the conflict mark of its action: a local file that diverged is removed
  without a conflict copy.
\<close>

theorem symlink_download_drops_local:
  assumes "sa_kind a = SymlinkDownload" and "ae_running env 0 = None" and "ae_running env 1 = None"
    and "fst (actionStillCurrent env 0 a rc)" and "sa_target a \<noteq> []" and "ae_lstat env 1 = OsOk info"
    and "ae_mkdirAll env = None" and "ae_symlink env = None"
  shows "rc_effects (snd (executeAction h env a rc))
    = rc_effects rc @ [LRemove (sa_path a), LSymlink (sa_path a) (sa_target a)]"
  using assms by (simp add: executeAction_def split_beta execSymlinkDownload_def Let_def)

text \<open>
  Only file uploads check that the mount is read-only; the other three outbound actions reach the
  remote tree on a read-only mount as well.
\<close>

theorem readonly_outbound_actions:
  assumes "ae_running env 0 = None" and "ae_running env 1 = None" and "fst (actionStillCurrent env 0 a rc)"
    and "sa_kind a \<in> {MkdirRemote, SymlinkUpload, DeleteRemote}"
  shows "rc_effects (snd (executeAction h env a rc)) \<noteq> rc_effects rc"
  using assms
  by (auto simp: executeAction_def split_beta execMkdirRemote_def execSymlinkUpload_def execDeleteRemote_def Let_def
      split: option.splits client_err.splits os_result.splits if_splits)

end
