(* ===== verification/EventReconcile.thy ===== *)
theory EventReconcile
  imports PlanExecution
begin

text \<open>
  The event half of the reconciler (\<open>cmd/afs/sync_event_reconciler.go\<close>, with
  \<open>uploadResultObsolete\<close> of \<open>sync_recovery_plan.go\<close>): watcher events, remote events, the results
  of the upload and download workers, rename detection and control requests.

  One event is handled in one environment \<open>event_env\<close>: what the file system and the client
  answer while it is handled, the clock, the ignore rules, and the order in which Go visits the
  entries.  \<open>scanForRenameTargets\<close> re-enters \<open>handleLocalEvent\<close>; the recursion takes fuel, and one
  unit is enough when the walked paths still exist.
\<close>

subsection \<open>Environments and events\<close>

record event_env = local_env +
  ee_now :: int
  ee_ignore :: "path \<Rightarrow> bool"
  ee_walk :: "path list"
  ee_keys :: "path list"
  ee_hash :: "bytes \<Rightarrow> string"
  ee_control :: "path \<Rightarrow> string \<Rightarrow> reconciler \<Rightarrow> reconciler"

record local_event =
  lev_path :: path
  lev_kindHint :: string

record remote_event =
  rev_path :: path
  rev_needsContent :: bool
  rev_fullSweep :: bool
  rev_rootReplace :: bool

text \<open>\<open>ra_stat2\<close> is the answer after the cache was flushed.\<close>

record remote_answers =
  ra_stat :: "stat_result option os_result"
  ra_stat2 :: "stat_result option os_result"
  ra_readlink :: "string os_result"
  ra_chunkMeta :: "(int \<times> string list) os_result"

definition identityAt :: "('a) local_env_scheme \<Rightarrow> path \<Rightarrow> string" where
  "identityAt env p = (case le_lstat env p of OsOk info \<Rightarrow> fi_ident info | _ \<Rightarrow> [])"

definition storedOf :: "path \<Rightarrow> reconciler \<Rightarrow> sync_entry" where
  "storedOf p rc = (case entries rc p of None \<Rightarrow> zeroEntry | Some e \<Rightarrow> e)"

subsection \<open>Echo matching\<close>

definition echoMatches :: "event_env \<Rightarrow> path \<Rightarrow> file_info \<Rightarrow> echo_expectation \<Rightarrow> bool" where
  "echoMatches env p info e =
     (case e of
        EchoFile hash \<Rightarrow> fi_kind info \<noteq> ISymlink \<and> fi_kind info \<noteq> IDir
          \<and> (case le_readFile env p of OsOk data \<Rightarrow> ee_hash env data = hash | _ \<Rightarrow> False)
      | EchoSymlink target \<Rightarrow> le_readlink env p = OsOk target
      | EchoDir \<Rightarrow> fi_kind info = IDir
      | EchoDelete \<Rightarrow> False)"

subsection \<open>Rename candidates\<close>

definition renameCandidateKey :: "sync_entry \<Rightarrow> string" where
  "renameCandidateKey e =
     (if trimSpace (se_localIdentity e) \<noteq> [] then se_type e @ '':inode:'' @ se_localIdentity e
      else if se_type e = ''file'' \<and> se_localHash e \<noteq> []
        then ''file:hash:'' @ se_localHash e @ '':'' @ intText (se_size e)
      else if se_type e = ''symlink'' \<and> se_target e \<noteq> [] then ''symlink:target:'' @ se_target e
      else [])"

definition renameCandidateKeyForLocalFile :: "string \<Rightarrow> string \<Rightarrow> int \<Rightarrow> string" where
  "renameCandidateKeyForLocalFile ident hash sz =
     (if trimSpace ident \<noteq> [] then ''file:inode:'' @ ident
      else if hash \<noteq> [] then ''file:hash:'' @ hash @ '':'' @ intText sz else [])"

definition renameCandidateKeyForLocalSymlink :: "string \<Rightarrow> string \<Rightarrow> string" where
  "renameCandidateKeyForLocalSymlink ident target =
     (if trimSpace ident \<noteq> [] then ''symlink:inode:'' @ ident
      else if target \<noteq> [] then ''symlink:target:'' @ target else [])"

definition renameWindow :: int where
  "renameWindow = 5000000000"

definition rememberRenameCandidate :: "int \<Rightarrow> path \<Rightarrow> sync_entry \<Rightarrow> reconciler \<Rightarrow> reconciler" where
  "rememberRenameCandidate now p e rc =
     (let key = renameCandidateKey e in
      if key = [] then rc
      else rc\<lparr>rc_renames := AList.update key \<lparr>rn_path = p, rn_entry = e, rn_recordedAt = now\<rparr> (rc_renames rc)\<rparr>)"

definition takeRenameCandidate :: "int \<Rightarrow> string \<Rightarrow> reconciler \<Rightarrow> rename_candidate option \<times> reconciler" where
  "takeRenameCandidate now key rc =
     (if key = [] then (None, rc)
      else case map_of (rc_renames rc) key of
        None \<Rightarrow> (None, rc)
      | Some c \<Rightarrow> (if now - rn_recordedAt c > renameWindow then None else Some c,
                   rc\<lparr>rc_renames := AList.delete key (rc_renames rc)\<rparr>))"

text \<open>
  The loop of \<open>takeFallbackRenameCandidate\<close>: expired candidates are deleted on the way; the second
  match ends the loop.  The second component is \<open>None\<close> when the match is ambiguous.
\<close>

fun fallbackLoop :: "int \<Rightarrow> path \<Rightarrow> string \<Rightarrow> (string \<times> rename_candidate) list
    \<Rightarrow> (string \<times> rename_candidate) option
    \<Rightarrow> (string \<times> rename_candidate) list \<times> (string \<times> rename_candidate) option option" where
  "fallbackLoop now rel want [] m = ([], Some m)"
| "fallbackLoop now rel want ((k, c) # xs) m =
     (if now - rn_recordedAt c > renameWindow then fallbackLoop now rel want xs m
      else if se_type (rn_entry c) \<noteq> want \<or> rn_path c = rel \<or> parentDir (rn_path c) \<noteq> parentDir rel
        then (let (ks, out) = fallbackLoop now rel want xs m in ((k, c) # ks, out))
      else case m of
             None \<Rightarrow> (let (ks, out) = fallbackLoop now rel want xs (Some (k, c)) in ((k, c) # ks, out))
           | Some _ \<Rightarrow> ((k, c) # xs, None))"

definition takeFallbackRenameCandidate :: "int \<Rightarrow> path \<Rightarrow> string \<Rightarrow> reconciler \<Rightarrow> rename_candidate option \<times> reconciler" where
  "takeFallbackRenameCandidate now rel want rc =
     (if trimSpace rel = [] \<or> trimSpace want = [] then (None, rc)
      else case fallbackLoop now rel want (rc_renames rc) None of
        (ks, Some (Some (k, c))) \<Rightarrow> (Some c, rc\<lparr>rc_renames := AList.delete k ks\<rparr>)
      | (ks, _) \<Rightarrow> (None, rc\<lparr>rc_renames := ks\<rparr>))"

definition takeRenameCandidateFor :: "int \<Rightarrow> path \<Rightarrow> string \<Rightarrow> string \<Rightarrow> bool \<Rightarrow> reconciler \<Rightarrow> rename_candidate option \<times> reconciler" where
  "takeRenameCandidateFor now rel key want hasStored rc =
     (case takeRenameCandidate now key rc of
        (Some c, rc1) \<Rightarrow> (Some c, rc1)
      | (None, rc1) \<Rightarrow> if hasStored then (None, rc1) else takeFallbackRenameCandidate now rel want rc1)"

definition renameCandidateStillPending :: "string \<Rightarrow> path \<Rightarrow> reconciler \<Rightarrow> bool" where
  "renameCandidateStillPending key p rc =
     (if key = [] then False
      else case map_of (rc_renames rc) key of None \<Rightarrow> False | Some c \<Rightarrow> rn_path c = p)"

definition forgetRenameCandidate :: "sync_entry \<Rightarrow> reconciler \<Rightarrow> reconciler" where
  "forgetRenameCandidate e rc =
     (let key = renameCandidateKey e in
      if key = [] then rc else rc\<lparr>rc_renames := AList.delete key (rc_renames rc)\<rparr>)"

text \<open>The delayed send of a delete: 150 ms later it goes out only if no rename took the candidate.\<close>

definition enqueueUploadOpAsync :: "upload_op \<Rightarrow> string \<Rightarrow> path \<Rightarrow> reconciler \<Rightarrow> reconciler" where
  "enqueueUploadOpAsync op key p rc = rc\<lparr>rc_delayed := rc_delayed rc @ [(op, key, p)]\<rparr>"

definition fireDelayed :: "reconciler \<Rightarrow> reconciler" where
  "fireDelayed rc =
     (case rc_delayed rc of
        [] \<Rightarrow> rc
      | (op, key, p) # rest \<Rightarrow>
          (let rc1 = rc\<lparr>rc_delayed := rest\<rparr> in
           if renameCandidateStillPending key p rc1 then queueUpload op rc1 else rc1))"

subsection \<open>Staging entries\<close>

definition stageSyncEntry :: "int \<Rightarrow> path \<Rightarrow> sync_entry \<Rightarrow> reconciler \<Rightarrow> u64 \<times> reconciler" where
  "stageSyncEntry now p e rc = (nextV rc, markDirtyR (putEntry p (e\<lparr>se_lastSyncedAt := now\<rparr>) rc))"

definition installPendingRename :: "int \<Rightarrow> path \<Rightarrow> string \<Rightarrow> sync_entry \<Rightarrow> reconciler \<Rightarrow> u64 \<times> reconciler" where
  "installPendingRename now p ident e rc =
     stageSyncEntry now p (e\<lparr>se_deleted := False, se_localIdentity := defaultString (trimSpace ident) (se_localIdentity e)\<rparr>) rc"

subsection \<open>Local files\<close>

text \<open>What was read of a local file: its hash, size and, for a large file, its chunk hashes.\<close>

record local_content =
  lc_hash :: string
  lc_size :: int
  lc_content :: bytes
  lc_chunks :: "string list option"

definition fileUploadOp :: "path \<Rightarrow> file_info \<Rightarrow> local_content \<Rightarrow> int \<Rightarrow> sync_entry \<Rightarrow> bool \<Rightarrow> upload_op" where
  "fileUploadOp rel info lc cs stored hasStored =
     (let op = zeroUploadOp\<lparr>uo_kind := OpUploadFile, uo_path := rel, uo_mode := fi_perm info,
            uo_localHash := lc_hash lc, uo_localIdentity := fi_ident info,
            uo_localMtimeMs := unixMilli (fi_mtimeNs info), uo_stored := stored, uo_hasStored := hasStored\<rparr>
      in case lc_chunks lc of
           None \<Rightarrow> op\<lparr>uo_content := lc_content lc\<rparr>
         | Some hs \<Rightarrow> op\<lparr>uo_chunked := True, uo_fileSize := lc_size lc, uo_chunkSize := cs, uo_chunkHashes := hs,
                         uo_dirtyChunks := fst (diffChunkManifests (se_chunkHashes stored) hs)\<rparr>)"

definition stagedFileEntry :: "file_info \<Rightarrow> local_content \<Rightarrow> int \<Rightarrow> sync_entry \<Rightarrow> sync_entry" where
  "stagedFileEntry info lc cs cand =
     (let e = zeroEntry\<lparr>se_type := ''file'', se_mode := fi_perm info, se_size := lc_size lc,
            se_localHash := lc_hash lc, se_localIdentity := fi_ident info, se_remoteHash := se_remoteHash cand,
            se_localMtimeMs := unixMilli (fi_mtimeNs info), se_remoteMtimeMs := se_remoteMtimeMs cand\<rparr>
      in case lc_chunks lc of None \<Rightarrow> e | Some hs \<Rightarrow> e\<lparr>se_chunkSize := cs, se_chunkHashes := hs\<rparr>)"

definition renameFileOp :: "path \<Rightarrow> file_info \<Rightarrow> rename_candidate \<Rightarrow> u64 \<Rightarrow> upload_op" where
  "renameFileOp rel info c ver =
     zeroUploadOp\<lparr>uo_kind := OpUploadRename, uo_path := rel, uo_prevPath := rn_path c, uo_renameVersion := ver,
       uo_mode := fi_perm info, uo_localHash := se_localHash (rn_entry c), uo_localIdentity := fi_ident info,
       uo_localMtimeMs := unixMilli (fi_mtimeNs info), uo_stored := rn_entry c, uo_hasStored := True\<rparr>"

definition renamedLocalFile :: "int \<Rightarrow> path \<Rightarrow> file_info \<Rightarrow> local_content \<Rightarrow> rename_candidate \<Rightarrow> reconciler \<Rightarrow> reconciler" where
  "renamedLocalFile now rel info lc c rc =
     (let cs = rc_chunkSize rc;
          (ver1, rc1) = installPendingRename now rel (fi_ident info) (rn_entry c) rc;
          changed = lc_hash lc \<noteq> se_localHash (rn_entry c) \<or> fi_perm info \<noteq> se_mode (rn_entry c);
          (ver2, rc2) = (if changed then stageSyncEntry now rel (stagedFileEntry info lc cs (rn_entry c)) rc1 else (ver1, rc1));
          rc3 = enqueueTrackedUpload (renameFileOp rel info c ver2) rc2
      in if changed then enqueueTrackedUpload (fileUploadOp rel info lc cs (rn_entry c) True) rc3 else rc3)"

definition readLocalContent :: "event_env \<Rightarrow> path \<Rightarrow> file_info \<Rightarrow> reconciler \<Rightarrow> local_content option" where
  "readLocalContent env rel info rc =
     (if fi_size info > rc_chunkThreshold rc then
        (case streamChunkHashes (ee_hash env) (le_readFile env rel) (rc_chunkSize rc) of
           OsOk (hs, sz) \<Rightarrow> Some \<lparr>lc_hash = compositeHash (ee_hash env) hs, lc_size = sz, lc_content = [], lc_chunks = Some hs\<rparr>
         | _ \<Rightarrow> None)
      else (case le_readFile env rel of
              OsOk data \<Rightarrow> Some \<lparr>lc_hash = ee_hash env data, lc_size = fi_size info, lc_content = data, lc_chunks = None\<rparr>
            | _ \<Rightarrow> None))"

definition handleLocalFile :: "event_env \<Rightarrow> path \<Rightarrow> file_info \<Rightarrow> reconciler \<Rightarrow> reconciler" where
  "handleLocalFile env rel info rc =
     (if fi_size info > rc_maxFileBytes rc then rc
      else case readLocalContent env rel info rc of
        None \<Rightarrow> rc
      | Some lc \<Rightarrow>
         (let stored = storedOf rel rc; hasStored = entries rc rel \<noteq> None;
              key = renameCandidateKeyForLocalFile (fi_ident info) (lc_hash lc) (lc_size lc)
          in case takeRenameCandidateFor (ee_now env) rel key ''file'' hasStored rc of
               (Some c, rc1) \<Rightarrow> renamedLocalFile (ee_now env) rel info lc c rc1
             | (None, rc1) \<Rightarrow>
                 if hasStored \<and> se_localHash stored = lc_hash lc \<and> se_type stored = ''file'' \<and> se_mode stored = fi_perm info
                 then rc1
                 else enqueueTrackedUpload (fileUploadOp rel info lc (rc_chunkSize rc1) stored hasStored) rc1))"

definition handleLocalSymlink :: "event_env \<Rightarrow> path \<Rightarrow> reconciler \<Rightarrow> reconciler" where
  "handleLocalSymlink env rel rc =
     (case (le_readlink env rel, le_lstat env rel) of
        (OsOk target, OsOk info) \<Rightarrow>
         (let stored = storedOf rel rc; hasStored = entries rc rel \<noteq> None;
              key = renameCandidateKeyForLocalSymlink (fi_ident info) target
          in case takeRenameCandidateFor (ee_now env) rel key ''symlink'' hasStored rc of
               (Some c, rc1) \<Rightarrow>
                 (let (ver, rc2) = installPendingRename (ee_now env) rel (fi_ident info) (rn_entry c) rc1
                  in enqueueTrackedUpload (zeroUploadOp\<lparr>uo_kind := OpUploadRename, uo_path := rel,
                       uo_prevPath := rn_path c, uo_renameVersion := ver, uo_symlink := target,
                       uo_localIdentity := fi_ident info, uo_stored := rn_entry c, uo_hasStored := True\<rparr>) rc2)
             | (None, rc1) \<Rightarrow>
                 if hasStored \<and> se_type stored = ''symlink'' \<and> se_target stored = target then rc1
                 else enqueueTrackedUpload (zeroUploadOp\<lparr>uo_kind := OpUploadSymlink, uo_path := rel,
                        uo_symlink := target, uo_localIdentity := fi_ident info, uo_stored := stored,
                        uo_hasStored := hasStored\<rparr>) rc1)
      | _ \<Rightarrow> rc)"

subsection \<open>Local deletes and directories\<close>

text \<open>\<open>scan\<close> is \<open>scanForRenameTargets\<close>, which re-enters the event handler.\<close>

definition handleLocalDelete ::
    "(path \<Rightarrow> reconciler \<Rightarrow> reconciler) \<Rightarrow> event_env \<Rightarrow> path \<Rightarrow> string \<Rightarrow> reconciler \<Rightarrow> reconciler" where
  "handleLocalDelete scan env rel kindHint rc =
     (case entries rc rel of
        None \<Rightarrow> rc
      | Some prior \<Rightarrow>
         (let rc1 = markDirtyR (putEntry rel (prior\<lparr>se_deleted := True, se_lastSyncedAt := ee_now env\<rparr>) rc);
              deleteOp = zeroUploadOp\<lparr>uo_kind := OpUploadDelete, uo_path := rel, uo_stored := prior, uo_hasStored := True\<rparr>;
              key = renameCandidateKey prior
          in if key = [] then queueUpload deleteOp rc1
             else let rc2 = rememberRenameCandidate (ee_now env) rel prior rc1;
                      rc3 = (if kindHint = ''rename'' then scan rel rc2 else rc2)
                  in enqueueUploadOpAsync deleteOp key rel rc3))"

definition missingBelow :: "event_env \<Rightarrow> path \<Rightarrow> reconciler \<Rightarrow> path list" where
  "missingBelow env rel rc =
     (let prefix = (if rel = ''.'' then [] else trimSuffix rel ''/'' @ ''/'') in
      filter (\<lambda>p. case entries rc p of
                None \<Rightarrow> False
              | Some e \<Rightarrow> \<not> se_deleted e \<and> se_type e \<noteq> ''dir'' \<and> (prefix = [] \<or> hasPrefix p prefix)
                           \<and> le_lstat env p = OsNotExist) (ee_keys env))"

definition reconcileLocalDirDeletes :: "event_env \<Rightarrow> path \<Rightarrow> reconciler \<Rightarrow> reconciler" where
  "reconcileLocalDirDeletes env rel rc =
     fold (\<lambda>p r. handleLocalDelete (\<lambda>_ r. r) env p ''remove'' r) (missingBelow env rel rc) rc"

definition handleLocalDir :: "event_env \<Rightarrow> path \<Rightarrow> file_info \<Rightarrow> reconciler \<Rightarrow> reconciler" where
  "handleLocalDir env rel info rc =
     (let stored = storedOf rel rc; hasStored = entries rc rel \<noteq> None;
          rc1 = reconcileLocalDirDeletes env rel rc
      in if hasStored \<and> se_type stored = ''dir'' then rc1
         else enqueueTrackedUpload (zeroUploadOp\<lparr>uo_kind := OpUploadMkdir, uo_path := rel,
                uo_mode := fi_perm info, uo_stored := stored, uo_hasStored := hasStored\<rparr>) rc1)"

definition sweepMissingLocalSymlinks :: "event_env \<Rightarrow> reconciler \<Rightarrow> reconciler" where
  "sweepMissingLocalSymlinks env rc =
     (if rc_suppress rc then rc
      else fold (\<lambda>p r. handleLocalDelete (\<lambda>_ r. r) env p ''remove'' r)
             (filter (\<lambda>p. case entries rc p of
                        None \<Rightarrow> False
                      | Some e \<Rightarrow> \<not> se_deleted e \<and> se_type e = ''symlink'' \<and> le_lstat env p = OsNotExist)
                (ee_keys env)) rc)"

definition dispatchLocal :: "event_env \<Rightarrow> path \<Rightarrow> file_info \<Rightarrow> reconciler \<Rightarrow> reconciler" where
  "dispatchLocal env rel info rc =
     (case fi_kind info of
        ISymlink \<Rightarrow> handleLocalSymlink env rel rc
      | IDir \<Rightarrow> handleLocalDir env rel info rc
      | IRegular \<Rightarrow> handleLocalFile env rel info rc
      | IOther \<Rightarrow> rc)"

fun handleLocalEvent :: "nat \<Rightarrow> event_env \<Rightarrow> local_event \<Rightarrow> reconciler \<Rightarrow> reconciler" where
  "handleLocalEvent fuel env ev rc =
     (let rel = lev_path ev in
      if rel = [] then rc
      else if rel = ''.'' then
        (case le_lstat env rel of
           OsOk info \<Rightarrow> if fi_kind info = IDir then handleLocalDir env rel info rc else rc
         | _ \<Rightarrow> rc)
      else if rc_suppress rc then rc
      else case syncControlRequestID rel of
        Some rid \<Rightarrow> ee_control env rel rid rc
      | None \<Rightarrow>
         if isSyncControlPath rel \<or> ee_ignore env rel then rc
         else case le_lstat env rel of
           OsError _ \<Rightarrow> rc
         | OsNotExist \<Rightarrow>
            (let (exp, m) = consumeEcho rel (rc_echo rc); rc1 = rc\<lparr>rc_echo := m\<rparr> in
             if exp = Some EchoDelete then rc1
             else handleLocalDelete
                    (\<lambda>deleted r. case fuel of
                       0 \<Rightarrow> r
                     | Suc n \<Rightarrow> fold (\<lambda>p r. if p = deleted \<or> ee_ignore env p then r
                                  else handleLocalEvent n env \<lparr>lev_path = p, lev_kindHint = ''rename''\<rparr> r)
                                (ee_walk env) r)
                    env rel (lev_kindHint ev) rc1)
         | OsOk info \<Rightarrow>
            (let (exp, m) = consumeEcho rel (rc_echo rc); rc1 = rc\<lparr>rc_echo := m\<rparr> in
             case exp of
               Some e \<Rightarrow> if echoMatches env rel info e then rc1 else dispatchLocal env rel info rc1
             | None \<Rightarrow> dispatchLocal env rel info rc1))"

declare handleLocalEvent.simps [simp del]

subsection \<open>Remote events\<close>

definition detectConflict :: "event_env \<Rightarrow> path \<Rightarrow> sync_entry \<Rightarrow> bool \<Rightarrow> bool" where
  "detectConflict env rel stored hasStored =
     (if \<not> hasStored then False
      else case le_lstat env rel of
        OsOk info \<Rightarrow>
          (if fi_kind info = ISymlink
           then (case le_readlink env rel of
                   OsOk target \<Rightarrow> se_type stored = ''symlink'' \<and> se_target stored \<noteq> target | _ \<Rightarrow> False)
           else if fi_kind info \<noteq> IRegular then False
           else case le_readFile env rel of
                  OsOk data \<Rightarrow> se_localHash stored \<noteq> [] \<and> ee_hash env data \<noteq> se_localHash stored
                | _ \<Rightarrow> False)
      | _ \<Rightarrow> False)"

definition downloadFor :: "path \<Rightarrow> sync_entry \<Rightarrow> bool \<Rightarrow> download_op" where
  "downloadFor rel stored hasStored =
     zeroDownloadOp\<lparr>do_path := rel, do_stored := stored, do_hasStored := hasStored\<rparr>"

definition queueRemoteChange ::
    "event_env \<Rightarrow> remote_answers \<Rightarrow> path \<Rightarrow> stat_result \<Rightarrow> sync_entry \<Rightarrow> bool \<Rightarrow> reconciler \<Rightarrow> reconciler" where
  "queueRemoteChange env ra rel st stored hasStored rc =
     (let conflict = detectConflict env rel stored hasStored; op = downloadFor rel stored hasStored in
      if st_type st = ''dir'' then queueDownload (op\<lparr>do_kind := OpDownloadMkdir, do_mode := st_mode st\<rparr>) rc
      else if st_type st = ''symlink'' then
        (case ra_readlink ra of
           OsOk target \<Rightarrow> queueDownload (op\<lparr>do_kind := OpDownloadSymlink, do_symlink := target, do_conflict := conflict\<rparr>) rc
         | _ \<Rightarrow> rc)
      else if st_type st = ''file'' then
        (let fop = op\<lparr>do_kind := OpDownloadFile, do_mode := st_mode st, do_conflict := conflict\<rparr> in
         case ra_chunkMeta ra of
           OsOk (cs, hs) \<Rightarrow>
             if cs > 0 \<and> hs \<noteq> []
             then queueDownload (fop\<lparr>do_chunked := True, do_fileSize := st_size st, do_chunkSize := cs,
                    do_chunkHashes := hs, do_dirtyChunks := fst (diffChunkManifests (se_chunkHashes stored) hs)\<rparr>) rc
             else queueDownload fop rc
         | _ \<Rightarrow> queueDownload fop rc)
      else rc)"

definition remoteGone :: "event_env \<Rightarrow> path \<Rightarrow> sync_entry \<Rightarrow> reconciler \<Rightarrow> reconciler" where
  "remoteGone env rel stored rc =
     queueDownload ((downloadFor rel stored True)\<lparr>do_kind := OpDownloadDelete\<rparr>)
       (putEntry rel (stored\<lparr>se_deleted := True, se_lastSyncedAt := ee_now env\<rparr>) rc)"

text \<open>The part of \<open>handleRemoteEvent\<close> behind the ignore rules.\<close>

definition remotePathEvent :: "event_env \<Rightarrow> remote_answers \<Rightarrow> path \<Rightarrow> reconciler \<Rightarrow> reconciler" where
  "remotePathEvent env ra rel rc =
     (case entries rc rel of
        None \<Rightarrow> (case ra_stat ra of
                   OsOk (Some st) \<Rightarrow> queueRemoteChange env ra rel st zeroEntry False rc | _ \<Rightarrow> rc)
      | Some stored \<Rightarrow>
          if se_deleted stored then rc
          else case ra_stat ra of
            OsError _ \<Rightarrow> rc
          | OsOk (Some st) \<Rightarrow> queueRemoteChange env ra rel st stored True rc
          | _ \<Rightarrow> (case ra_stat2 ra of
                     OsOk (Some st) \<Rightarrow> queueRemoteChange env ra rel st stored True rc
                   | _ \<Rightarrow> remoteGone env rel stored rc))"

definition handleRemoteEvent :: "event_env \<Rightarrow> remote_answers \<Rightarrow> remote_event \<Rightarrow> reconciler \<Rightarrow> reconciler" where
  "handleRemoteEvent env ra ev rc =
     (if rev_rootReplace ev then requestRootReplace rc
      else if rev_fullSweep ev then requestFullSweep rc
      else if rev_path ev = [] then rc
      else let rel = trimPrefix (rev_path ev) ''/'' in
        if rel = [] then requestFullSweep rc
        else if ee_ignore env rel then rc
        else remotePathEvent env ra rel rc)"

subsection \<open>Results of uploads\<close>

definition sameAsEntry :: "event_env \<Rightarrow> path \<Rightarrow> sync_entry \<Rightarrow> bool" where
  "sameAsEntry env p e =
     (case le_lstat env p of
        OsOk info \<Rightarrow>
          fi_kind info = IRegular \<and> fi_size info = se_size e
          \<and> unixMilli (fi_mtimeNs info) = se_localMtimeMs e \<and> fi_perm info = se_mode e
          \<and> (if se_chunkSize e > 0
             then (case streamChunkHashes (ee_hash env) (le_readFile env p) (se_chunkSize e) of
                     OsOk (hs, _) \<Rightarrow> compositeHash (ee_hash env) hs = se_localHash e | _ \<Rightarrow> False)
             else (case le_readFile env p of OsOk data \<Rightarrow> ee_hash env data = se_localHash e | _ \<Rightarrow> False))
      | _ \<Rightarrow> False)"

definition uploadResultObsolete :: "event_env \<Rightarrow> upload_result \<Rightarrow> reconciler \<Rightarrow> bool" where
  "uploadResultObsolete env res rc =
     (let op = ur_op res in
      case entries rc (uo_path op) of
        None \<Rightarrow> False
      | Some e \<Rightarrow>
          if se_deleted e then True
          else if (case ur_remoteStat res of None \<Rightarrow> False | Some st \<Rightarrow> se_remoteMtimeMs e > st_mtime st) then True
          else if se_version e = se_version (uo_stored op) \<or> se_remoteHash e = []
                  \<or> se_remoteHash e = uo_localHash op \<or> se_localHash e \<noteq> se_remoteHash e then False
          else sameAsEntry env (uo_path op) e)"

definition withRemoteStat :: "stat_result option \<Rightarrow> int option \<Rightarrow> sync_entry \<Rightarrow> sync_entry" where
  "withRemoteStat st localMtime e =
     (case st of
        None \<Rightarrow> e
      | Some s \<Rightarrow> e\<lparr>se_remoteMtimeMs := st_mtime s, se_remoteRevision := st_revision s, se_remoteInode := st_inode s,
                    se_localMtimeMs := (case localMtime of None \<Rightarrow> st_mtime s | Some t \<Rightarrow> t)\<rparr>)"

definition resultIdentity :: "event_env \<Rightarrow> upload_op \<Rightarrow> string" where
  "resultIdentity env op =
     defaultString (defaultString (trimSpace (uo_localIdentity op)) (identityAt env (uo_path op)))
       (trimSpace (se_localIdentity (uo_stored op)))"

text \<open>The switch of \<open>handleUploadResult\<close> under the state lock.\<close>

definition recordUpload :: "event_env \<Rightarrow> upload_result \<Rightarrow> reconciler \<Rightarrow> reconciler" where
  "recordUpload env res rc =
     (let op = ur_op res; p = uo_path op; now = ee_now env in
      case uo_kind op of
        OpUploadFile \<Rightarrow>
          putEntry p (withRemoteStat (ur_remoteStat res) (Some (uo_localMtimeMs op))
            (zeroEntry\<lparr>se_type := ''file'', se_mode := uo_mode op,
               se_size := (if uo_chunked op then uo_fileSize op else int (length (uo_content op))),
               se_localHash := uo_localHash op, se_localIdentity := resultIdentity env op,
               se_remoteHash := uo_localHash op, se_lastSyncedAt := now,
               se_chunkSize := uo_chunkSize op, se_chunkHashes := uo_chunkHashes op\<rparr>)) rc
      | OpUploadSymlink \<Rightarrow>
          putEntry p (withRemoteStat (ur_remoteStat res) None
            (zeroEntry\<lparr>se_type := ''symlink'', se_target := uo_symlink op,
               se_localIdentity := resultIdentity env op, se_lastSyncedAt := now\<rparr>)) rc
      | OpUploadMkdir \<Rightarrow>
          putEntry p (zeroEntry\<lparr>se_type := ''dir'', se_mode := uo_mode op, se_lastSyncedAt := now\<rparr>) rc
      | OpUploadDelete \<Rightarrow>
          (let rc1 = forgetRenameCandidate (uo_stored op) rc in
           case entries rc1 p of None \<Rightarrow> rc1 | Some e \<Rightarrow> setEntry p (Some (e\<lparr>se_lastSyncedAt := now\<rparr>)) rc1)
      | OpUploadRename \<Rightarrow>
          (let rc1 = setEntry (uo_prevPath op) None rc;
               e = (uo_stored op)\<lparr>se_deleted := False, se_lastSyncedAt := now,
                     se_localIdentity := defaultString (defaultString (trimSpace (uo_localIdentity op)) (identityAt env p))
                       (se_localIdentity (uo_stored op))\<rparr>
           in putEntry p (withRemoteStat (ur_remoteStat res) None e) rc1)
      | OpUploadChmod \<Rightarrow>
          (case entries rc p of
             None \<Rightarrow> rc
           | Some e \<Rightarrow> putEntry p (e\<lparr>se_mode := uo_mode op, se_lastSyncedAt := now\<rparr>) rc))"

definition finishTracked :: "upload_op \<Rightarrow> reconciler \<Rightarrow> reconciler" where
  "finishTracked op rc =
     (if \<not> uo_tracked op then rc
      else finishPendingUpload (uo_path op)
             (if uo_kind op = OpUploadRename \<and> uo_prevPath op \<noteq> [] then finishPendingUpload (uo_prevPath op) rc else rc))"

definition forgetProvisional :: "upload_op \<Rightarrow> reconciler \<Rightarrow> reconciler" where
  "forgetProvisional op rc =
     (case entries rc (uo_path op) of
        None \<Rightarrow> rc
      | Some e \<Rightarrow> if \<not> se_deleted e \<and> uo_renameVersion op \<noteq> 0 \<and> se_version e = uo_renameVersion op
                   then setEntry (uo_path op) None rc else rc)"

definition handleUploadResult :: "event_env \<Rightarrow> upload_result \<Rightarrow> reconciler \<Rightarrow> reconciler" where
  "handleUploadResult env res rc =
     (let op = ur_op res in
      finishTracked op
        (if ur_skipped res then
           requestFullSweep (if uo_kind op = OpUploadRename then markDirtyR (forgetProvisional op rc) else rc)
         else if uo_kind op = OpUploadFile \<and> uploadResultObsolete env res rc then requestFullSweep rc
         else if ur_err res \<noteq> None then rc
         else if ur_conflict res then
           queueDownload (zeroDownloadOp\<lparr>do_kind := OpDownloadFile, do_path := uo_path op, do_stored := uo_stored op,
             do_hasStored := uo_hasStored op, do_conflict := True\<rparr>) rc
         else markDirtyR (recordUpload env res rc)))"

subsection \<open>Results of downloads\<close>

definition recordDownload :: "event_env \<Rightarrow> download_result \<Rightarrow> reconciler \<Rightarrow> reconciler" where
  "recordDownload env res rc =
     (let op = dr_op res; p = do_path op; now = ee_now env in
      case do_kind op of
        OpDownloadFile \<Rightarrow>
          (let e = zeroEntry\<lparr>se_type := ''file'', se_mode := dr_mode res, se_size := dr_size res,
                 se_localHash := dr_remoteHash res, se_localIdentity := identityAt env p,
                 se_remoteHash := dr_remoteHash res, se_localMtimeMs := dr_localMtimeMs res,
                 se_remoteMtimeMs := dr_mtimeMs res, se_lastSyncedAt := now,
                 se_chunkSize := do_chunkSize op, se_chunkHashes := do_chunkHashes op\<rparr>
           in putEntry p (case dr_remoteStat res of
                            None \<Rightarrow> e
                          | Some s \<Rightarrow> e\<lparr>se_remoteRevision := st_revision s, se_remoteInode := st_inode s\<rparr>) rc)
      | OpDownloadSymlink \<Rightarrow>
          putEntry p (zeroEntry\<lparr>se_type := ''symlink'', se_target := dr_target res,
             se_localIdentity := identityAt env p, se_lastSyncedAt := now\<rparr>) rc
      | OpDownloadMkdir \<Rightarrow>
          putEntry p (zeroEntry\<lparr>se_type := ''dir'', se_mode := do_mode op, se_lastSyncedAt := now\<rparr>) rc
      | OpDownloadDelete \<Rightarrow>
          (case entries rc p of
             None \<Rightarrow> rc
           | Some e \<Rightarrow> putEntry p (e\<lparr>se_deleted := True, se_lastSyncedAt := now\<rparr>) rc)
      | OpDownloadChmod \<Rightarrow>
          (case entries rc p of
             None \<Rightarrow> rc
           | Some e \<Rightarrow> putEntry p (e\<lparr>se_mode := dr_mode res, se_lastSyncedAt := now\<rparr>) rc))"

definition handleDownloadResult :: "event_env \<Rightarrow> download_result \<Rightarrow> reconciler \<Rightarrow> reconciler" where
  "handleDownloadResult env res rc =
     (if dr_skipped res then requestFullSweep rc
      else if dr_err res \<noteq> None then rc
      else if isTombstoned (do_path (dr_op res)) rc then emit (LRemove (do_path (dr_op res))) rc
      else markDirtyR (recordDownload env res rc))"

subsection \<open>Control requests\<close>

text \<open>What the calls of a create-exclusive request return; \<open>cx_create\<close> is the atomic claim.\<close>

record create_env =
  cx_lstat :: "file_info os_result"
  cx_parents :: "string option"
  cx_create :: "string option"
  cx_echo :: "string option"
  cx_write :: "string option"
  cx_stat :: "file_info os_result"
  cx_ident :: string
  cx_now :: int
  cx_nowMs :: int

definition executeSyncCreateExclusive ::
    "(bytes \<Rightarrow> string) \<Rightarrow> create_env \<Rightarrow> path \<Rightarrow> bytes \<Rightarrow> reconciler \<Rightarrow> (string + nat) \<times> reconciler" where
  "executeSyncCreateExclusive h env raw content rc =
     (if rc_readonly rc then (Inl ''sync daemon is read-only'', rc)
      else case normalizeSyncControlTarget raw of
        Inl e \<Rightarrow> (Inl e, rc)
      | Inr normalized \<Rightarrow>
         (let rel = trimPrefix normalized ''/'' in
          case cx_lstat env of
            OsOk _ \<Rightarrow> (Inl ''path already exists locally'', rc)
          | OsError e \<Rightarrow> (Inl e, rc)
          | OsNotExist \<Rightarrow>
             (case (cx_parents env, cx_create env) of
                (Some e, _) \<Rightarrow> (Inl e, rc)
              | (None, Some e) \<Rightarrow> (Inl e, rc)
              | (None, None) \<Rightarrow>
                 (let rc1 = emit (REcho normalized content mode644) rc in
                  if cx_echo env \<noteq> None then (Inl (the (cx_echo env)), requestFullSweep rc1)
                  else let rc2 = emit (LWriteFile rel content mode644) rc1 in
                    if cx_write env \<noteq> None then (Inl (the (cx_write env)), requestFullSweep rc1)
                    else let hash = h content;
                             mt = (case cx_stat env of OsOk info \<Rightarrow> unixMilli (fi_mtimeNs info) | _ \<Rightarrow> cx_nowMs env)
                         in (Inr (length content),
                             putEntry rel (zeroEntry\<lparr>se_type := ''file'', se_mode := mode644,
                               se_size := int (length content), se_localHash := hash, se_localIdentity := cx_ident env,
                               se_remoteHash := hash, se_localMtimeMs := mt, se_remoteMtimeMs := mt,
                               se_lastSyncedAt := cx_now env\<rparr>) (markEchoR rel (EchoFile hash) rc2))))))"

record materialize_env =
  mx_stat :: "stat_result option os_result"
  mx_mkdirAll :: "string option"
  mx_cat :: "bytes os_result"
  mx_write :: "string option"
  mx_lstat :: "file_info os_result"
  mx_readlink :: "string os_result"
  mx_symlink :: "string option"
  mx_stat2 :: "file_info os_result"
  mx_ident :: string
  mx_now :: int
  mx_nowMs :: int

definition materializeRemotePathLocally ::
    "(bytes \<Rightarrow> string) \<Rightarrow> materialize_env \<Rightarrow> path \<Rightarrow> reconciler \<Rightarrow> string option \<times> reconciler" where
  "materializeRemotePathLocally h env normalized rc =
     (let rel = trimPrefix normalized ''/'' in
      case mx_stat env of
        OsNotExist \<Rightarrow> (Some ''not found'', rc)
      | OsError e \<Rightarrow> (Some e, rc)
      | OsOk None \<Rightarrow> (Some ''file does not exist'', rc)
      | OsOk (Some st) \<Rightarrow>
         (if mx_mkdirAll env \<noteq> None then (mx_mkdirAll env, rc)
          else if st_type st = ''file'' then
            (case mx_cat env of
               OsOk data \<Rightarrow>
                 (let mode = downloadMode (rc_readonly rc) (st_mode st); hash = h data in
                  if mx_write env \<noteq> None then (mx_write env, rc)
                  else (None, markDirtyR (putEntry rel (zeroEntry\<lparr>se_type := ''file'', se_mode := mode,
                          se_size := int (length data), se_localHash := hash, se_localIdentity := mx_ident env,
                          se_remoteHash := hash,
                          se_localMtimeMs := (case mx_stat2 env of OsOk info \<Rightarrow> unixMilli (fi_mtimeNs info) | _ \<Rightarrow> mx_nowMs env),
                          se_remoteMtimeMs := st_mtime st, se_lastSyncedAt := mx_now env\<rparr>)
                          (markEchoR rel (EchoFile hash) (emit (LWriteFile rel data mode) rc)))))
             | OsNotExist \<Rightarrow> (Some ''not found'', rc)
             | OsError e \<Rightarrow> (Some e, rc))
          else if st_type st = ''symlink'' then
            (case mx_readlink env of
               OsOk target \<Rightarrow>
                 (let rc1 = (case mx_lstat env of OsOk _ \<Rightarrow> emit (LRemove rel) rc | _ \<Rightarrow> rc) in
                  if mx_symlink env \<noteq> None then (mx_symlink env, rc1)
                  else (None, markDirtyR (putEntry rel (zeroEntry\<lparr>se_type := ''symlink'', se_target := target,
                          se_localIdentity := mx_ident env, se_localMtimeMs := st_mtime st,
                          se_remoteMtimeMs := st_mtime st, se_lastSyncedAt := mx_now env\<rparr>)
                          (markEchoR rel (EchoSymlink target) (emit (LSymlink rel target) rc1)))))
             | OsNotExist \<Rightarrow> (Some ''not found'', rc)
             | OsError e \<Rightarrow> (Some e, rc))
          else (Some ''unsupported undelete entry type'', rc)))"

subsection \<open>Budgets of versions\<close>

lemma rename_writer [simp]:
  "rc_writer (rememberRenameCandidate now p e rc) = rc_writer rc"
  "rc_writer (snd (takeRenameCandidate now key rc)) = rc_writer rc"
  "rc_writer (snd (takeFallbackRenameCandidate now p want rc)) = rc_writer rc"
  "rc_writer (snd (takeRenameCandidateFor now p key want hs rc)) = rc_writer rc"
  "rc_writer (forgetRenameCandidate e rc) = rc_writer rc"
  "rc_writer (enqueueUploadOpAsync op key p rc) = rc_writer rc"
  by (auto simp: rememberRenameCandidate_def takeRenameCandidate_def takeFallbackRenameCandidate_def
      takeRenameCandidateFor_def forgetRenameCandidate_def enqueueUploadOpAsync_def Let_def
      split: option.splits prod.splits if_splits)

lemma fireDelayed_writer [simp]: "rc_writer (fireDelayed rc) = rc_writer rc"
  by (auto simp: fireDelayed_def Let_def split: list.splits)

lemma vstep_stage: "vstep 1 rc (snd (stageSyncEntry now p e rc))"
proof -
  have "vstep (1 + 0) rc (markDirtyR (putEntry p (e\<lparr>se_lastSyncedAt := now\<rparr>) rc))"
    by (rule vstep_trans [OF vstep_putEntry]) (rule vstep_writer, simp)
  then show ?thesis by (simp add: stageSyncEntry_def del: One_nat_def)
qed

lemma vstep_install: "vstep 1 rc (snd (installPendingRename now p i e rc))"
  unfolding installPendingRename_def by (rule vstep_stage)

lemma vstep_later:
  "vstep n rc r \<Longrightarrow> sw_state (rc_writer r') = sw_state (rc_writer r) \<Longrightarrow> vstep n rc r'"
  by (simp add: vstep_def versionsFresh_def)

lemma vstep_renamedLocalFile: "vstep 2 rc (renamedLocalFile now rel info lc c rc)"
proof -
  obtain v1 rc1 where i: "installPendingRename now rel (fi_ident info) (rn_entry c) rc = (v1, rc1)" by force
  have s1: "vstep 1 rc rc1" using vstep_install [of rc now rel "fi_ident info" "rn_entry c"] i by simp
  have s2: "vstep 2 rc (snd (stageSyncEntry now rel e rc1))" for e
    using vstep_trans [OF s1 vstep_stage [of rc1 now rel e]] by (simp add: numeral_2_eq_2)
  have s3: "vstep 2 rc rc1" by (rule vstep_mono [OF s1]) simp
  define changed where "changed \<longleftrightarrow> lc_hash lc \<noteq> se_localHash (rn_entry c) \<or> fi_perm info \<noteq> se_mode (rn_entry c)"
  obtain v2 rc2 where st: "(if changed then stageSyncEntry now rel (stagedFileEntry info lc (rc_chunkSize rc) (rn_entry c)) rc1
      else (v1, rc1)) = (v2, rc2)" by force
  have v: "vstep 2 rc rc2"
    using s2 [of "stagedFileEntry info lc (rc_chunkSize rc) (rn_entry c)"] s3 st by (cases changed) auto
  have "rc_writer (renamedLocalFile now rel info lc c rc) = rc_writer rc2"
    unfolding renamedLocalFile_def i Let_def prod.case changed_def [symmetric] st by simp
  then show ?thesis by (intro vstep_later [OF v]) simp
qed

lemma vstep_handleLocalFile: "vstep 2 rc (handleLocalFile env rel info rc)"
proof (cases "fi_size info > rc_maxFileBytes rc \<or> readLocalContent env rel info rc = None")
  case True
  then show ?thesis by (auto simp: handleLocalFile_def)
next
  case False
  then obtain lc where lc: "readLocalContent env rel info rc = Some lc" by auto
  let ?key = "renameCandidateKeyForLocalFile (fi_ident info) (lc_hash lc) (lc_size lc)"
  obtain c rc1 where t: "takeRenameCandidateFor (ee_now env) rel ?key ''file'' (entries rc rel \<noteq> None) rc = (c, rc1)"
    by force
  then have w: "rc_writer rc1 = rc_writer rc"
    using rename_writer(4) [of "ee_now env" rel ?key "''file''" "entries rc rel \<noteq> None" rc] by simp
  show ?thesis
  proof (cases c)
    case None
    then show ?thesis using False lc t w by (simp add: handleLocalFile_def Let_def)
  next
    case (Some cand)
    then show ?thesis using False lc t vstep_of_writer [OF w vstep_renamedLocalFile]
      by (simp add: handleLocalFile_def)
  qed
qed

lemma vstep_handleLocalSymlink: "vstep 1 rc (handleLocalSymlink env rel rc)"
proof (cases "\<exists>target info. le_readlink env rel = OsOk target \<and> le_lstat env rel = OsOk info")
  case False
  then show ?thesis by (auto simp: handleLocalSymlink_def split: os_result.splits)
next
  case True
  then obtain target info where e: "le_readlink env rel = OsOk target" "le_lstat env rel = OsOk info" by blast
  let ?key = "renameCandidateKeyForLocalSymlink (fi_ident info) target"
  obtain c rc1 where t: "takeRenameCandidateFor (ee_now env) rel ?key ''symlink'' (entries rc rel \<noteq> None) rc = (c, rc1)"
    by force
  then have w: "rc_writer rc1 = rc_writer rc"
    using rename_writer(4) [of "ee_now env" rel ?key "''symlink''" "entries rc rel \<noteq> None" rc] by simp
  show ?thesis
  proof (cases c)
    case None
    then show ?thesis using e t w by (simp add: handleLocalSymlink_def Let_def del: One_nat_def)
  next
    case (Some cand)
    obtain v rc2 where i: "installPendingRename (ee_now env) rel (fi_ident info) (rn_entry cand) rc1 = (v, rc2)" by force
    have "vstep 1 rc rc2"
      using vstep_of_writer [OF w vstep_install [of rc1 "ee_now env" rel "fi_ident info" "rn_entry cand"]] i by simp
    from vstep_later [OF this] show ?thesis using e t Some i
      by (simp add: handleLocalSymlink_def del: One_nat_def)
  qed
qed

lemma vstep_handleLocalDelete:
  assumes "\<And>p r. vstep n r (scan p r)"
  shows "vstep (Suc n) rc (handleLocalDelete scan env rel hint rc)"
proof (cases "entries rc rel")
  case (Some prior)
  let ?rc1 = "markDirtyR (putEntry rel (prior\<lparr>se_deleted := True, se_lastSyncedAt := ee_now env\<rparr>) rc)"
  let ?rc2 = "rememberRenameCandidate (ee_now env) rel prior ?rc1"
  have s1: "vstep 1 rc ?rc1"
    using vstep_trans [OF vstep_putEntry [of rc rel "prior\<lparr>se_deleted := True, se_lastSyncedAt := ee_now env\<rparr>"],
        of 0 ?rc1] by (simp add: vsteps)
  have w: "vstep k rc r \<Longrightarrow> rc_writer r' = rc_writer r \<Longrightarrow> vstep k rc r'" for k r r'
    by (simp add: vstep_def versionsFresh_def)
  have s2: "vstep 1 rc ?rc2" by (rule w [OF s1]) simp
  have s3: "vstep (Suc n) rc (scan rel ?rc2)" using vstep_trans [OF s2 assms] by simp
  have "vstep (Suc n) rc ?rc1" "vstep (Suc n) rc ?rc2"
    by (rule vstep_mono [OF s1], simp) (rule vstep_mono [OF s2], simp)
  with s3 show ?thesis
    by (auto simp: handleLocalDelete_def Some Let_def intro: w)
qed (simp add: handleLocalDelete_def)

lemma vstep_deletes: "vstep (length ps) rc (fold (\<lambda>p r. handleLocalDelete (\<lambda>_ r. r) env p hint r) ps rc)"
proof (rule vstep_fold)
  show "vstep 1 r (handleLocalDelete (\<lambda>_ r. r) env x hint r)" for x r
    using vstep_handleLocalDelete [of 0 "\<lambda>_ r. r" r env x hint] by simp
qed

lemma vstep_handleLocalDir: "vstep (length (ee_keys env)) rc (handleLocalDir env rel info rc)"
proof -
  have "length (missingBelow env rel rc) \<le> length (ee_keys env)" by (simp add: missingBelow_def Let_def)
  then have "vstep (length (ee_keys env)) rc (reconcileLocalDirDeletes env rel rc)"
    unfolding reconcileLocalDirDeletes_def by (rule vstep_mono [OF vstep_deletes])
  then show ?thesis by (simp add: handleLocalDir_def Let_def) (simp add: vstep_def versionsFresh_def)
qed

lemma vstep_sweep: "vstep (length (ee_keys env)) rc (sweepMissingLocalSymlinks env rc)"
  unfolding sweepMissingLocalSymlinks_def by (auto intro: vstep_mono [OF vstep_deletes])

lemma vstep_dispatchLocal: "vstep (length (ee_keys env) + 2) rc (dispatchLocal env rel info rc)"
proof -
  have "vstep (length (ee_keys env) + 2) rc (handleLocalSymlink env rel rc)"
    by (rule vstep_mono [OF vstep_handleLocalSymlink]) simp
  moreover have "vstep (length (ee_keys env) + 2) rc (handleLocalDir env rel info rc)"
    by (rule vstep_mono [OF vstep_handleLocalDir]) simp
  moreover have "vstep (length (ee_keys env) + 2) rc (handleLocalFile env rel info rc)"
    by (rule vstep_mono [OF vstep_handleLocalFile]) simp
  ultimately show ?thesis by (simp add: dispatchLocal_def split: node_kind.splits)
qed

text \<open>How many versions an event with \<open>fuel\<close> nested rename scans can use.\<close>

fun eventBudget :: "nat \<Rightarrow> event_env \<Rightarrow> nat" where
  "eventBudget 0 env = length (ee_keys env) + 2"
| "eventBudget (Suc n) env = length (ee_keys env) + 2 + length (ee_walk env) * eventBudget n env"

lemma vstep_fold_n:
  assumes "\<And>x r. vstep n r (f x r)"
  shows "vstep (length xs * n) rc (fold f xs rc)"
proof (induction xs arbitrary: rc)
  case (Cons x xs)
  show ?case using vstep_trans [OF assms [of rc x] Cons] by simp
qed simp

lemma vstep_handleLocalEvent:
  assumes control: "\<And>p i r. vstep 1 r (ee_control env p i r)"
  shows "vstep (eventBudget fuel env) rc (handleLocalEvent fuel env ev rc)"
proof (induction fuel arbitrary: ev rc)
  have dir: "vstep (eventBudget k env) rc (handleLocalDir env rel info rc)" for k rel info rc
    by (rule vstep_mono [OF vstep_handleLocalDir]) (cases k; simp)
  have ctl: "vstep (eventBudget k env) rc (ee_control env p i rc)" for k p i rc
    by (rule vstep_mono [OF control]) (cases k; simp)
  have disp: "vstep (eventBudget k env) rc (dispatchLocal env rel info (rc\<lparr>rc_echo := m\<rparr>))" for k rel info rc m
    by (rule vstep_mono [OF vstep_of_writer [OF _ vstep_dispatchLocal]]) (cases k; simp)+
  {
    fix fuel ev rc
    let ?scan = "\<lambda>deleted r. case fuel of
                       0 \<Rightarrow> r
                     | Suc n \<Rightarrow> fold (\<lambda>p r. if p = deleted \<or> ee_ignore env p then r
                                  else handleLocalEvent n env \<lparr>lev_path = p, lev_kindHint = ''rename''\<rparr> r)
                                (ee_walk env) r"
    assume scan: "\<And>p r. vstep (eventBudget fuel env - 1) r (?scan p r)"
    have b: "Suc (eventBudget fuel env - 1) = eventBudget fuel env" by (cases fuel) auto
    have del: "vstep (eventBudget fuel env) rc (handleLocalDelete ?scan env rel hint (rc\<lparr>rc_echo := m\<rparr>))" for rel hint rc m
      using vstep_of_writer [OF _ vstep_handleLocalDelete [OF scan]] unfolding b by simp
    have "vstep (eventBudget fuel env) rc (handleLocalEvent fuel env ev rc)"
      by (subst handleLocalEvent.simps)
        (auto simp: Let_def consumeEcho_def dir ctl disp del split: os_result.splits option.splits)
  }
  note body = this
  {
    case 0
    show ?case by (rule body) simp
  next
    case (Suc n)
    have item: "vstep (eventBudget n env) r (if p = d \<or> ee_ignore env p then r
         else handleLocalEvent n env \<lparr>lev_path = p, lev_kindHint = ''rename''\<rparr> r)" for p d r
      using Suc by simp
    show ?case
      by (rule body) (simp, rule vstep_mono [OF vstep_fold_n [OF item]], simp)
  }
qed

lemma vstep_queueRemoteChange [simp]: "vstep n rc (queueRemoteChange env ra rel st stored hs rc)"
  by (rule vstep_same)
    (auto simp: queueRemoteChange_def Let_def split: os_result.splits prod.splits)

lemma vstep_remotePathEvent: "vstep 1 rc (remotePathEvent env ra rel rc)"
proof -
  have "vstep 1 rc (remoteGone env rel stored rc)" for stored
    unfolding remoteGone_def by (rule vstep_later [OF vstep_putEntry]) simp
  then show ?thesis by (simp add: remotePathEvent_def del: One_nat_def split: option.split os_result.split)
qed

lemma vstep_handleRemoteEvent: "vstep 1 rc (handleRemoteEvent env ra ev rc)"
  using vstep_remotePathEvent [of rc env ra "trimPrefix (rev_path ev) ''/''"]
  by (simp add: handleRemoteEvent_def Let_def requestRootReplace_def del: One_nat_def)

lemma entries_forgetRenameCandidate [simp]: "entries (forgetRenameCandidate e rc) = entries rc"
  by simp

lemma vstep_recordUpload: "vstep 1 rc (recordUpload env res rc)"
proof -
  have drop: "vstep 1 rc (putEntry p e (setEntry q None rc))" for p q e
    using vstep_trans [OF vstep_dropEntry [of 0 rc q] vstep_putEntry] by simp
  have touch: "vstep 1 rc (setEntry p (Some e) (forgetRenameCandidate c rc))"
    if "entries rc p = Some e0" "se_version e = se_version e0" for p e e0 c
    by (rule vstep_of_writer [OF _ vstep_setEntry]) (use that in auto)
  show ?thesis
    by (auto simp: recordUpload_def Let_def vstep_putEntry drop touch simp del: One_nat_def
        split: upload_kind.splits option.splits)
qed

lemma vstep_recordDownload: "vstep 1 rc (recordDownload env res rc)"
  by (auto simp: recordDownload_def Let_def vstep_putEntry simp del: One_nat_def
      split: download_kind.splits option.splits)

lemma finishTracked_writer [simp]: "rc_writer (finishTracked op rc) = rc_writer rc"
  by (simp add: finishTracked_def)

lemma vstep_forgetProvisional: "vstep n rc (forgetProvisional op rc)"
  by (auto simp: forgetProvisional_def vstep_dropEntry split: option.splits)

lemma vstep_handleUploadResult: "vstep 1 rc (handleUploadResult env res rc)"
proof -
  let ?op = "ur_op res"
  have f: "vstep 1 rc r \<Longrightarrow> vstep 1 rc (finishTracked ?op r)" for r
    by (erule vstep_later) simp
  have "vstep 1 rc (requestFullSweep (markDirtyR (forgetProvisional ?op rc)))"
    by (rule vstep_later [OF vstep_forgetProvisional]) simp
  moreover have "vstep 1 rc (markDirtyR (recordUpload env res rc))"
    by (rule vstep_later [OF vstep_recordUpload]) simp
  moreover have "vstep 1 rc (requestFullSweep rc)" "vstep 1 rc (queueDownload dop rc)" for dop
    by simp_all
  ultimately show ?thesis
    unfolding handleUploadResult_def Let_def by (intro f) (simp del: One_nat_def)
qed

lemma vstep_handleDownloadResult: "vstep 1 rc (handleDownloadResult env res rc)"
proof -
  have "vstep 1 rc (markDirtyR (recordDownload env res rc))"
    using vstep_recordDownload [of rc env res] by (simp add: vstep_def versionsFresh_def)
  then show ?thesis by (simp add: handleDownloadResult_def del: One_nat_def)
qed

text \<open>An environment for the examples: one regular file everywhere, nothing ignored, no walk.\<close>

definition quietEnv :: event_env where
  "quietEnv = \<lparr>le_lstat = \<lambda>_. OsOk (exampleInfo IRegular), le_readFile = \<lambda>_. OsOk ''x'', le_readlink = \<lambda>_. OsNotExist,
     ee_now = 7, ee_ignore = \<lambda>_. False, ee_walk = [], ee_keys = [''a''], ee_hash = id, ee_control = \<lambda>_ _ r. r\<rparr>"

definition exampleUpload :: "upload_kind \<Rightarrow> path \<Rightarrow> bool \<Rightarrow> upload_result" where
  "exampleUpload k p skipped = \<lparr>ur_op = zeroUploadOp\<lparr>uo_kind := k, uo_path := p\<rparr>, ur_err = None, ur_conflict = False,
     ur_skipped = skipped, ur_remoteHashSeen = [], ur_remoteStat = None\<rparr>"

definition exampleDownload :: "path \<Rightarrow> download_result" where
  "exampleDownload p = \<lparr>dr_op = zeroDownloadOp\<lparr>do_path := p\<rparr>, dr_err = None, dr_skipped = False, dr_remoteHash = ''y'',
     dr_remoteStat = Some exampleStat, dr_conflictPath = [], dr_mode = 420, dr_size = 1, dr_mtimeMs = 9,
     dr_localMtimeMs = 9, dr_target = []\<rparr>"

definition exampleRemote :: remote_answers where
  "exampleRemote = \<lparr>ra_stat = OsOk (Some exampleStat), ra_stat2 = OsOk (Some exampleStat), ra_readlink = OsNotExist,
     ra_chunkMeta = OsNotExist\<rparr>"



subsection \<open>Local deletes win over remote news\<close>

text \<open>
  C37: While a path is a tombstone, remote events leave everything as it is and the result of a
  download that was under way removes the file it wrote again; neither makes the entry live.
\<close>

theorem tombstone_not_resurrected:
  assumes "isTombstoned p rc" and "trimPrefix (rev_path ev) ''/'' = p" and "do_path (dr_op res) = p"
    and "\<not> rev_rootReplace ev" and "\<not> rev_fullSweep ev" and "p \<noteq> []"
  shows "handleRemoteEvent env ra ev rc = rc
    \<and> rc_writer (handleDownloadResult env res rc) = rc_writer rc
    \<and> (dr_err res = None \<longrightarrow> \<not> dr_skipped res \<longrightarrow>
         rc_effects (handleDownloadResult env res rc) = rc_effects rc @ [LRemove p])"
  using assms
  by (auto simp: handleRemoteEvent_def Let_def remotePathEvent_def handleDownloadResult_def isTombstoned_def
      split: option.splits)

theorem tombstone_not_resurrected_witness:
  "rc_effects (handleDownloadResult quietEnv (exampleDownload ''a'')
     (startWith [''a'' \<mapsto> exampleEntry\<lparr>se_deleted := True\<rparr>])) = [LRemove ''a'']"
proof -
  let ?rc = "startWith [''a'' \<mapsto> exampleEntry\<lparr>se_deleted := True\<rparr>]"
  let ?ev = "\<lparr>rev_path = ''/a'', rev_needsContent = True, rev_fullSweep = False, rev_rootReplace = False\<rparr>"
  have "isTombstoned ''a'' ?rc" "trimPrefix (rev_path ?ev) ''/'' = ''a''" "do_path (dr_op (exampleDownload ''a'')) = ''a''"
    by (simp_all add: isTombstoned_def trimPrefix_def hasPrefix_def exampleDownload_def)
  from tombstone_not_resurrected [OF this] show ?thesis by (simp add: exampleDownload_def)
qed

text \<open>
  After a watcher reports a deletion, the path is a tombstone, and the planner of a full pass
  that sees the path only remotely deletes it there instead of downloading it again.
\<close>

theorem local_delete_reaches_plan:
  assumes "entries rc rel = Some prior"
    and "\<And>p r. entries (scan p r) rel = entries r rel"
    and "localM rel = None" and "remote rel = Some r" and "om_kind r \<noteq> ''dir''"
    and "rc1 = handleLocalDelete scan env rel hint rc" and "rc_pending rc1 rel = None"
  shows "isTombstoned rel rc1
    \<and> snd (planPath now rstat paths localM remote (entries rc1) rel rc1) = [newAction DeleteRemote rel]"
proof -
  have "\<exists>e. entries rc1 rel = Some e \<and> se_deleted e"
    unfolding assms(6) by (simp add: handleLocalDelete_def assms(1,2) Let_def)
  then obtain e where e: "entries rc1 rel = Some e" "se_deleted e" by blast
  then have "isTombstoned rel rc1" by (simp add: isTombstoned_def)
  moreover have "snd (planPath now rstat paths localM remote (entries rc1) rel rc1) = [newAction DeleteRemote rel]"
    using assms(3-5,7) e by (simp add: planPath_def split_beta deferScan_iff planRemoteOnly_def)
  ultimately show ?thesis by blast
qed

theorem local_delete_reaches_plan_witness:
  "isTombstoned ''a'' (handleLocalDelete (\<lambda>_ r. r) quietEnv ''a'' ''remove'' (startWith [''a'' \<mapsto> exampleEntry]))"
proof -
  let ?rc = "startWith [''a'' \<mapsto> exampleEntry]"
  have e: "entries ?rc ''a'' = Some exampleEntry" by simp
  have p: "rc_pending (handleLocalDelete (\<lambda>_ r. r) quietEnv ''a'' ''remove'' ?rc) ''a'' = None"
    by (simp add: handleLocalDelete_def rememberRenameCandidate_def enqueueUploadOpAsync_def Let_def)
  show ?thesis
    using local_delete_reaches_plan [OF e _ _ _ _ refl p, of Map.empty "[''a'' \<mapsto> exampleMeta ''file'' 1]"]
    by (simp add: exampleMeta_def)
qed

subsection \<open>Failed renames\<close>

lemma finishTracked_sweep: "rc_sweep rc \<Longrightarrow> rc_sweep (finishTracked op rc)"
  by (auto simp: finishTracked_def finishPendingUpload_def Let_def split: option.splits)

text \<open>
  C40: A rename that the uploader skipped takes back its provisional destination entry, and only
  while that entry is still the one the rename staged: a newer entry or a tombstone stays.  In
  both cases recovery is requested.
\<close>

theorem skipped_rename_forgets:
  assumes "ur_skipped res" and "uo_kind (ur_op res) = OpUploadRename" and "p = uo_path (ur_op res)"
  shows "entries (handleUploadResult env res rc) = (entries rc)(p :=
      case entries rc p of
        None \<Rightarrow> None
      | Some e \<Rightarrow> if \<not> se_deleted e \<and> uo_renameVersion (ur_op res) \<noteq> 0
                     \<and> se_version e = uo_renameVersion (ur_op res) then None else Some e)
    \<and> rc_sweep (handleUploadResult env res rc)"
proof -
  have "handleUploadResult env res rc
      = finishTracked (ur_op res) (requestFullSweep (markDirtyR (forgetProvisional (ur_op res) rc)))"
    using assms by (simp add: handleUploadResult_def Let_def)
  moreover have "entries (forgetProvisional (ur_op res) rc) = (entries rc)(p :=
      case entries rc p of
        None \<Rightarrow> None
      | Some e \<Rightarrow> if \<not> se_deleted e \<and> uo_renameVersion (ur_op res) \<noteq> 0
                     \<and> se_version e = uo_renameVersion (ur_op res) then None else Some e)"
    by (auto simp: forgetProvisional_def assms(3) fun_eq_iff split: option.splits)
  ultimately show ?thesis by (simp add: finishTracked_sweep)
qed

theorem skipped_rename_forgets_witness:
  "rc_sweep (handleUploadResult quietEnv (exampleUpload OpUploadRename ''b'' True) (startWith [''b'' \<mapsto> exampleEntry]))"
proof -
  let ?res = "exampleUpload OpUploadRename ''b'' True"
  have "ur_skipped ?res" "uo_kind (ur_op ?res) = OpUploadRename" "''b'' = uo_path (ur_op ?res)"
    by (simp_all add: exampleUpload_def)
  from skipped_rename_forgets [OF this] show ?thesis by blast
qed

subsection \<open>Echo suppression\<close>

text \<open>
  The watcher event a download causes is dropped: when the disk holds what the downloader
  announced, the event only consumes the announcement, so the daemon never uploads its own writes;
  and the announcement works once.
\<close>

theorem echo_dropped_once:
  assumes "lev_path ev = p" and "p \<noteq> []" and "p \<noteq> ''.''" and "\<not> rc_suppress rc"
    and "syncControlRequestID p = None" and "\<not> isSyncControlPath p" and "\<not> ee_ignore env p"
    and "rc_echo rc p = Some e"
    and "case le_lstat env p of OsOk info \<Rightarrow> echoMatches env p info e | OsNotExist \<Rightarrow> e = EchoDelete | OsError _ \<Rightarrow> False"
  shows "handleLocalEvent fuel env ev rc = rc\<lparr>rc_echo := (rc_echo rc)(p := None)\<rparr>"
  using assms
  by (subst handleLocalEvent.simps) (auto simp: Let_def consumeEcho_def split: os_result.splits)

theorem echo_dropped_once_witness:
  "rc_uploads (handleLocalEvent 0 quietEnv \<lparr>lev_path = ''a'', lev_kindHint = ''write''\<rparr>
     ((startWith Map.empty)\<lparr>rc_echo := [''a'' \<mapsto> EchoFile ''x'']\<rparr>)) = []"
proof -
  let ?rc = "(startWith Map.empty)\<lparr>rc_echo := [''a'' \<mapsto> EchoFile ''x'']\<rparr>"
  let ?ev = "\<lparr>lev_path = ''a'', lev_kindHint = ''write''\<rparr>"
  have "syncControlRequestID ''a'' = None" "\<not> isSyncControlPath ''a''" by code_simp+
  then have "handleLocalEvent 0 quietEnv ?ev ?rc = ?rc\<lparr>rc_echo := (rc_echo ?rc)(''a'' := None)\<rparr>"
    by (intro echo_dropped_once [where e = "EchoFile ''x''"])
      (simp_all add: quietEnv_def exampleInfo_def echoMatches_def)
  then show ?thesis by simp
qed

subsection \<open>Pending uploads\<close>

text \<open>
  \<open>outstanding p ops\<close> counts the tracked operations of \<open>ops\<close> that hold the path \<open>p\<close>: those
  that write it and the renames that move it away.
\<close>

definition holds :: "path \<Rightarrow> upload_op \<Rightarrow> nat" where
  "holds p op =
     (if \<not> uo_tracked op then 0
      else (if uo_path op = p then 1 else 0)
         + (if uo_kind op = OpUploadRename \<and> uo_prevPath op \<noteq> [] \<and> uo_prevPath op = p then 1 else 0))"

definition outstanding :: "path \<Rightarrow> upload_op list \<Rightarrow> nat" where
  "outstanding p ops = sum_list (map (holds p) ops)"

definition pendingExact :: "(path \<Rightarrow> pending_upload option) \<Rightarrow> upload_op list \<Rightarrow> bool" where
  "pendingExact m ops \<longleftrightarrow>
     (\<forall>p. case m p of
            None \<Rightarrow> outstanding p ops = 0
          | Some q \<Rightarrow> pu_count q = int (outstanding p ops) \<and> 0 < outstanding p ops)"

lemma outstanding_simps [simp]:
  "outstanding p [] = 0" "outstanding p (op # ops) = holds p op + outstanding p ops"
  "outstanding p (xs @ ys) = outstanding p xs + outstanding p ys"
  by (simp_all add: outstanding_def)

lemma pendingExact_mset: "mset xs = mset ys \<Longrightarrow> pendingExact m xs = pendingExact m ys"
proof -
  have "outstanding p zs = sum_mset (image_mset (holds p) (mset zs))" for p zs
    by (simp add: outstanding_def flip: sum_mset_sum_list)
  then show "mset xs = mset ys \<Longrightarrow> pendingExact m xs = pendingExact m ys"
    by (simp only: pendingExact_def)
qed

text \<open>A step keeps the count exact for every set of operations \<open>ops\<close> the workers hold.\<close>

definition keepsPending :: "reconciler \<Rightarrow> reconciler \<Rightarrow> bool" where
  "keepsPending rc rc' \<longleftrightarrow>
     rc_stopped rc' = rc_stopped rc
     \<and> (list_all (\<lambda>(op, _). \<not> uo_tracked op) (rc_delayed rc) \<longrightarrow> list_all (\<lambda>(op, _). \<not> uo_tracked op) (rc_delayed rc'))
     \<and> (\<not> rc_stopped rc \<longrightarrow> list_all (\<lambda>(op, _). \<not> uo_tracked op) (rc_delayed rc) \<longrightarrow>
          (\<forall>ops. pendingExact (rc_pending rc) (rc_uploads rc @ ops) \<longrightarrow>
                 pendingExact (rc_pending rc') (rc_uploads rc' @ ops)))"

lemma keepsPending_refl [simp, intro]: "keepsPending rc rc"
  by (simp add: keepsPending_def)

lemma keepsPending_trans: "keepsPending a b \<Longrightarrow> keepsPending b c \<Longrightarrow> keepsPending a c"
  by (auto simp: keepsPending_def)

lemma keepsPending_frame:
  "rc_pending rc' = rc_pending rc \<Longrightarrow> rc_uploads rc' = rc_uploads rc \<Longrightarrow> rc_delayed rc' = rc_delayed rc \<Longrightarrow>
   rc_stopped rc' = rc_stopped rc \<Longrightarrow> keepsPending rc rc'"
  by (simp add: keepsPending_def)

lemma pendingExact_untracked:
  "\<not> uo_tracked op \<Longrightarrow> pendingExact m (xs @ op # ys) = pendingExact m (xs @ ys)"
proof -
  assume "\<not> uo_tracked op"
  then have "outstanding p (xs @ op # ys) = outstanding p (xs @ ys)" for p by (simp add: holds_def)
  then show ?thesis by (simp only: pendingExact_def)
qed

lemma keepsPending_queue: "\<not> uo_tracked op \<Longrightarrow> keepsPending rc (queueUpload op rc)"
  by (simp add: keepsPending_def queueUpload_def pendingExact_untracked)

lemma bumpPending_count:
  "bumpPending p m q = (if q = p then Some ((pendingOr m p)\<lparr>pu_count := pu_count (pendingOr m p) + 1\<rparr>) else m q)"
  by (simp add: bumpPending_def)

lemma keepsPending_enqueue: "keepsPending rc (enqueueTrackedUpload op rc)"
proof -
  have "pendingExact (rc_pending (enqueueTrackedUpload op rc)) (rc_uploads (enqueueTrackedUpload op rc) @ ops)"
    if "\<not> rc_stopped rc" "pendingExact (rc_pending rc) (rc_uploads rc @ ops)" for ops
    unfolding pendingExact_def
  proof
    fix p
    from that(2) have p: "case rc_pending rc p of
            None \<Rightarrow> outstanding p (rc_uploads rc @ ops) = 0
          | Some q \<Rightarrow> pu_count q = int (outstanding p (rc_uploads rc @ ops)) \<and> 0 < outstanding p (rc_uploads rc @ ops)"
      unfolding pendingExact_def by blast
    then show "case rc_pending (enqueueTrackedUpload op rc) p of
            None \<Rightarrow> outstanding p (rc_uploads (enqueueTrackedUpload op rc) @ ops) = 0
          | Some q \<Rightarrow> pu_count q = int (outstanding p (rc_uploads (enqueueTrackedUpload op rc) @ ops))
                       \<and> 0 < outstanding p (rc_uploads (enqueueTrackedUpload op rc) @ ops)"
      using that(1)
      by (cases "rc_pending rc p")
        (auto simp: enqueueTrackedUpload_def queueUpload_def Let_def bumpPending_count pendingOr_def holds_def)
  qed
  then show ?thesis by (simp add: keepsPending_def)
qed

lemma keepsPending_defer: "keepsPending rc (snd (deferScanForPendingUpload p rc))"
  by (auto simp: keepsPending_def deferScanForPendingUpload_def pendingExact_def split: option.splits)

lemma rename_pending [simp]:
  "rc_pending (rememberRenameCandidate now p e rc) = rc_pending rc"
  "rc_uploads (rememberRenameCandidate now p e rc) = rc_uploads rc"
  "rc_delayed (rememberRenameCandidate now p e rc) = rc_delayed rc"
  "rc_stopped (rememberRenameCandidate now p e rc) = rc_stopped rc"
  "rc_pending (forgetRenameCandidate e rc) = rc_pending rc"
  "rc_uploads (forgetRenameCandidate e rc) = rc_uploads rc"
  "rc_delayed (forgetRenameCandidate e rc) = rc_delayed rc"
  "rc_stopped (forgetRenameCandidate e rc) = rc_stopped rc"
  by (simp_all add: rememberRenameCandidate_def forgetRenameCandidate_def Let_def)

lemma keepsPending_take: "keepsPending rc (snd (takeRenameCandidateFor now p key want hs rc))"
proof (rule keepsPending_frame)
  have fb: "g (snd (takeFallbackRenameCandidate now p want r)) = g r"
    if "\<And>r x. g (r\<lparr>rc_renames := x\<rparr>) = g r" for g :: "reconciler \<Rightarrow> 'a" and r
    using that by (auto simp: takeFallbackRenameCandidate_def split: prod.splits option.splits)
  have g: "g (snd (takeRenameCandidateFor now p key want hs rc)) = g rc"
    if u: "\<And>r x. g (r\<lparr>rc_renames := x\<rparr>) = g r" for g :: "reconciler \<Rightarrow> 'a"
  proof -
    obtain c rc1 where t: "takeRenameCandidate now key rc = (c, rc1)" by force
    then have "g rc1 = g rc" using u by (auto simp: takeRenameCandidate_def split: option.splits if_splits)
    then show ?thesis using fb [OF u] by (simp add: takeRenameCandidateFor_def t split: option.splits)
  qed
  show "rc_pending (snd (takeRenameCandidateFor now p key want hs rc)) = rc_pending rc" by (rule g) simp
  show "rc_uploads (snd (takeRenameCandidateFor now p key want hs rc)) = rc_uploads rc" by (rule g) simp
  show "rc_delayed (snd (takeRenameCandidateFor now p key want hs rc)) = rc_delayed rc" by (rule g) simp
  show "rc_stopped (snd (takeRenameCandidateFor now p key want hs rc)) = rc_stopped rc" by (rule g) simp
qed

lemma keepsPending_stage: "keepsPending rc (snd (stageSyncEntry now p e rc))"
  by (rule keepsPending_frame) (simp_all add: stageSyncEntry_def)

lemma keepsPending_install: "keepsPending rc (snd (installPendingRename now p i e rc))"
  unfolding installPendingRename_def by (rule keepsPending_stage)

lemma keepsPending_renamedLocalFile: "keepsPending rc (renamedLocalFile now rel info lc c rc)"
proof -
  obtain v1 rc1 where i: "installPendingRename now rel (fi_ident info) (rn_entry c) rc = (v1, rc1)" by force
  have k1: "keepsPending rc rc1" using keepsPending_install [of rc now rel "fi_ident info" "rn_entry c"] i by simp
  define changed where "changed \<longleftrightarrow> lc_hash lc \<noteq> se_localHash (rn_entry c) \<or> fi_perm info \<noteq> se_mode (rn_entry c)"
  obtain v2 rc2 where st: "(if changed then stageSyncEntry now rel (stagedFileEntry info lc (rc_chunkSize rc) (rn_entry c)) rc1
      else (v1, rc1)) = (v2, rc2)" by force
  have "keepsPending rc1 rc2"
    using keepsPending_stage [of rc1 now rel "stagedFileEntry info lc (rc_chunkSize rc) (rn_entry c)"] st
    by (cases changed) auto
  then have k2: "keepsPending rc rc2" using k1 keepsPending_trans by blast
  note k3 = keepsPending_trans [OF k2 keepsPending_enqueue]
  show ?thesis
    unfolding renamedLocalFile_def i Let_def prod.case changed_def [symmetric] st
    using k3 keepsPending_trans [OF k3 keepsPending_enqueue] by simp
qed

lemma keepsPending_handleLocalFile: "keepsPending rc (handleLocalFile env rel info rc)"
proof (cases "fi_size info > rc_maxFileBytes rc \<or> readLocalContent env rel info rc = None")
  case True
  then show ?thesis by (auto simp: handleLocalFile_def)
next
  case False
  then obtain lc where lc: "readLocalContent env rel info rc = Some lc" by auto
  let ?key = "renameCandidateKeyForLocalFile (fi_ident info) (lc_hash lc) (lc_size lc)"
  obtain c rc1 where t: "takeRenameCandidateFor (ee_now env) rel ?key ''file'' (entries rc rel \<noteq> None) rc = (c, rc1)"
    by force
  then have k: "keepsPending rc rc1"
    using keepsPending_take [of rc "ee_now env" rel ?key "''file''" "entries rc rel \<noteq> None"] by simp
  show ?thesis
    using False lc t k keepsPending_trans [OF k keepsPending_enqueue] keepsPending_trans [OF k keepsPending_renamedLocalFile]
    by (cases c) (simp_all add: handleLocalFile_def Let_def)
qed

lemma keepsPending_handleLocalSymlink: "keepsPending rc (handleLocalSymlink env rel rc)"
proof (cases "\<exists>target info. le_readlink env rel = OsOk target \<and> le_lstat env rel = OsOk info")
  case False
  then show ?thesis by (auto simp: handleLocalSymlink_def split: os_result.splits)
next
  case True
  then obtain target info where e: "le_readlink env rel = OsOk target" "le_lstat env rel = OsOk info" by blast
  let ?key = "renameCandidateKeyForLocalSymlink (fi_ident info) target"
  obtain c rc1 where t: "takeRenameCandidateFor (ee_now env) rel ?key ''symlink'' (entries rc rel \<noteq> None) rc = (c, rc1)"
    by force
  then have k: "keepsPending rc rc1"
    using keepsPending_take [of rc "ee_now env" rel ?key "''symlink''" "entries rc rel \<noteq> None"] by simp
  show ?thesis
  proof (cases c)
    case None
    then show ?thesis using e t k keepsPending_trans [OF k keepsPending_enqueue]
      by (simp add: handleLocalSymlink_def Let_def)
  next
    case (Some cand)
    obtain v rc2 where i: "installPendingRename (ee_now env) rel (fi_ident info) (rn_entry cand) rc1 = (v, rc2)" by force
    have "keepsPending rc rc2"
      using keepsPending_trans [OF k keepsPending_install [of rc1 "ee_now env" rel "fi_ident info" "rn_entry cand"]] i by simp
    from keepsPending_trans [OF this keepsPending_enqueue] show ?thesis using e t Some i
      by (simp add: handleLocalSymlink_def)
  qed
qed

lemma keepsPending_handleLocalDelete:
  assumes "\<And>p r. keepsPending r (scan p r)"
  shows "keepsPending rc (handleLocalDelete scan env rel hint rc)"
proof (cases "entries rc rel")
  case (Some prior)
  let ?rc1 = "markDirtyR (putEntry rel (prior\<lparr>se_deleted := True, se_lastSyncedAt := ee_now env\<rparr>) rc)"
  let ?op = "zeroUploadOp\<lparr>uo_kind := OpUploadDelete, uo_path := rel, uo_stored := prior, uo_hasStored := True\<rparr>"
  let ?rc2 = "rememberRenameCandidate (ee_now env) rel prior ?rc1"
  have op: "\<not> uo_tracked ?op" by (simp add: zeroUploadOp_def)
  have k1: "keepsPending rc ?rc1" and k2: "keepsPending rc ?rc2" by (rule keepsPending_frame; simp)+
  have a: "keepsPending r (enqueueUploadOpAsync ?op key p r)" for r key p
    using op by (simp add: keepsPending_def enqueueUploadOpAsync_def)
  show ?thesis
    using keepsPending_trans [OF k1 keepsPending_queue [OF op]] keepsPending_trans [OF k2 a]
      keepsPending_trans [OF keepsPending_trans [OF k2 assms] a]
    by (simp add: handleLocalDelete_def Some Let_def)
qed (simp add: handleLocalDelete_def)

lemma keepsPending_fold:
  assumes "\<And>x r. keepsPending r (f x r)"
  shows "keepsPending rc (fold f xs rc)"
proof (induction xs arbitrary: rc)
  case (Cons x xs)
  show ?case using keepsPending_trans [OF assms [of rc x] Cons] by simp
qed simp

lemma keepsPending_deletes: "keepsPending rc (fold (\<lambda>p r. handleLocalDelete (\<lambda>_ r. r) env p hint r) ps rc)"
  by (rule keepsPending_fold, rule keepsPending_handleLocalDelete) simp

lemma keepsPending_handleLocalDir: "keepsPending rc (handleLocalDir env rel info rc)"
  using keepsPending_deletes [of rc env "''remove''" "missingBelow env rel rc"]
    keepsPending_trans [OF keepsPending_deletes keepsPending_enqueue]
  by (simp add: handleLocalDir_def Let_def reconcileLocalDirDeletes_def)

lemma keepsPending_dispatchLocal: "keepsPending rc (dispatchLocal env rel info rc)"
  by (simp add: dispatchLocal_def keepsPending_handleLocalFile keepsPending_handleLocalSymlink
      keepsPending_handleLocalDir split: node_kind.split)

lemma keepsPending_handleLocalEvent:
  assumes control: "\<And>p i r. keepsPending r (ee_control env p i r)"
  shows "keepsPending rc (handleLocalEvent fuel env ev rc)"
proof (induction fuel arbitrary: ev rc)
  have e: "keepsPending rc (rc\<lparr>rc_echo := m\<rparr>)" for rc m by (rule keepsPending_frame) simp_all
  note dir = keepsPending_handleLocalDir and disp = keepsPending_trans [OF e keepsPending_dispatchLocal]
  {
    fix fuel ev rc
    let ?scan = "\<lambda>deleted r. case fuel of
                       0 \<Rightarrow> r
                     | Suc n \<Rightarrow> fold (\<lambda>p r. if p = deleted \<or> ee_ignore env p then r
                                  else handleLocalEvent n env \<lparr>lev_path = p, lev_kindHint = ''rename''\<rparr> r)
                                (ee_walk env) r"
    assume scan: "\<And>p r. keepsPending r (?scan p r)"
    note del = keepsPending_trans [OF e keepsPending_handleLocalDelete [OF scan]]
    have "keepsPending rc (handleLocalEvent fuel env ev rc)"
      by (subst handleLocalEvent.simps)
        (auto simp: Let_def consumeEcho_def e dir control disp del split: os_result.splits option.splits)
  }
  note body = this
  {
    case 0
    show ?case by (rule body) simp
  next
    case (Suc n)
    show ?case by (rule body) (simp, rule keepsPending_fold, simp add: Suc)
  }
qed

definition exactFor :: "(path \<Rightarrow> pending_upload option) \<Rightarrow> (path \<Rightarrow> nat) \<Rightarrow> bool" where
  "exactFor m c \<longleftrightarrow>
     (\<forall>p. case m p of None \<Rightarrow> c p = 0 | Some q \<Rightarrow> pu_count q = int (c p) \<and> 0 < c p)"

lemma pendingExact_exactFor: "pendingExact m ops = exactFor m (\<lambda>p. outstanding p ops)"
  by (simp add: pendingExact_def exactFor_def)

lemma exactFor_finish:
  assumes "exactFor (rc_pending rc) c" and "0 < c p"
  shows "exactFor (rc_pending (finishPendingUpload p rc)) (c(p := c p - 1))"
proof -
  obtain q where q: "rc_pending rc p = Some q" "pu_count q = int (c p)"
    using assms by (auto simp: exactFor_def dest: spec [of _ p] split: option.splits)
  have m: "rc_pending (finishPendingUpload p rc)
      = (rc_pending rc)(p := (if c p = 1 then None else Some (q\<lparr>pu_count := int (c p) - 1\<rparr>)))"
    using q by (simp add: finishPendingUpload_def Let_def)
  show ?thesis
    unfolding m exactFor_def
  proof
    fix x
    show "case ((rc_pending rc)(p := (if c p = 1 then None else Some (q\<lparr>pu_count := int (c p) - 1\<rparr>)))) x of
        None \<Rightarrow> (c(p := c p - 1)) x = 0
      | Some q \<Rightarrow> pu_count q = int ((c(p := c p - 1)) x) \<and> 0 < (c(p := c p - 1)) x"
      using assms q spec [OF assms(1) [unfolded exactFor_def], of x]
      by (cases "x = p"; cases "rc_pending rc x") auto
  qed
qed

lemma exactFor_finishTracked:
  assumes "exactFor (rc_pending rc) (\<lambda>p. holds p op + c p)"
  shows "exactFor (rc_pending (finishTracked op rc)) c"
proof (cases "uo_tracked op")
  case False
  then show ?thesis using assms by (simp add: finishTracked_def holds_def)
next
  case True
  let ?p = "uo_path op" and ?q = "uo_prevPath op"
  show ?thesis
  proof (cases "uo_kind op = OpUploadRename \<and> ?q \<noteq> []")
    case False
    then have h: "(\<lambda>p. holds p op + c p) = c(?p := c ?p + 1)" using True by (auto simp: holds_def fun_eq_iff)
    from exactFor_finish [OF assms [unfolded h], of ?p] True show ?thesis
      unfolding finishTracked_def if_not_P [OF False] by simp
  next
    case rename: True
    then have h: "(\<lambda>p. holds p op + c p) = (c(?p := c ?p + 1))(?q := (c(?p := c ?p + 1)) ?q + 1)"
      using True by (auto simp: holds_def fun_eq_iff)
    from exactFor_finish [OF assms [unfolded h], of ?q]
    have "exactFor (rc_pending (finishPendingUpload ?q rc)) (c(?p := c ?p + 1))" by (simp add: fun_upd_idem)
    from exactFor_finish [OF this, of ?p] True rename show ?thesis by (simp add: finishTracked_def)
  qed
qed

text \<open>The worker may rewrite content and mode of an operation, not what it is.\<close>

definition sameHold :: "upload_op \<Rightarrow> upload_op \<Rightarrow> bool" where
  "sameHold a b \<longleftrightarrow> uo_tracked a = uo_tracked b \<and> uo_kind a = uo_kind b
     \<and> uo_path a = uo_path b \<and> uo_prevPath a = uo_prevPath b"

lemma recordUpload_pending [simp]:
  "rc_pending (recordUpload env res rc) = rc_pending rc" "rc_uploads (recordUpload env res rc) = rc_uploads rc"
  "rc_delayed (recordUpload env res rc) = rc_delayed rc" "rc_stopped (recordUpload env res rc) = rc_stopped rc"
  by (simp_all add: recordUpload_def Let_def split: upload_kind.split option.split)

lemma forgetProvisional_pending [simp]:
  "rc_pending (forgetProvisional op rc) = rc_pending rc" "rc_uploads (forgetProvisional op rc) = rc_uploads rc"
  "rc_delayed (forgetProvisional op rc) = rc_delayed rc" "rc_stopped (forgetProvisional op rc) = rc_stopped rc"
  by (simp_all add: forgetProvisional_def split: option.split)

lemma finishTracked_frame [simp]:
  "rc_uploads (finishTracked op rc) = rc_uploads rc" "rc_delayed (finishTracked op rc) = rc_delayed rc"
  "rc_stopped (finishTracked op rc) = rc_stopped rc"
  by (auto simp: finishTracked_def finishPendingUpload_def requestFullSweep_def Let_def split: option.splits)

lemma handleUploadResult_pending:
  "rc_pending (handleUploadResult env res rc) = rc_pending (finishTracked (ur_op res) rc)"
  "rc_uploads (handleUploadResult env res rc) = rc_uploads rc"
  "rc_delayed (handleUploadResult env res rc) = rc_delayed rc"
  "rc_stopped (handleUploadResult env res rc) = rc_stopped rc"
proof -
  have fp: "rc_pending (finishPendingUpload p r) = rc_pending (finishPendingUpload p rc)"
    if "rc_pending r = rc_pending rc" for p r rc
    using that by (auto simp: finishPendingUpload_def Let_def split: option.splits)
  have ft: "rc_pending (finishTracked (ur_op res) r) = rc_pending (finishTracked (ur_op res) rc)"
    if "rc_pending r = rc_pending rc" for r
    using fp [OF fp [OF that]] fp [OF that] that by (simp add: finishTracked_def)
  show "rc_pending (handleUploadResult env res rc) = rc_pending (finishTracked (ur_op res) rc)"
    unfolding handleUploadResult_def Let_def by (rule ft) simp
  show "rc_uploads (handleUploadResult env res rc) = rc_uploads rc"
    "rc_delayed (handleUploadResult env res rc) = rc_delayed rc"
    "rc_stopped (handleUploadResult env res rc) = rc_stopped rc"
    by (simp_all add: handleUploadResult_def Let_def)
qed

lemma keepsPending_handleRemoteEvent: "keepsPending rc (handleRemoteEvent env ra ev rc)"
proof -
  have q: "keepsPending rc (queueDownload op r)"
    if "rc_pending r = rc_pending rc" "rc_uploads r = rc_uploads rc" "rc_delayed r = rc_delayed rc"
      "rc_stopped r = rc_stopped rc" for op r
    by (rule keepsPending_frame) (use that in simp_all)
  have c: "keepsPending rc (queueRemoteChange env ra rel st stored hs rc)" for rel st stored hs
    by (simp add: queueRemoteChange_def Let_def q split: os_result.split prod.split)
  have g: "keepsPending rc (remoteGone env rel stored rc)" for rel stored
    unfolding remoteGone_def by (rule q) simp_all
  have "keepsPending rc (remotePathEvent env ra rel rc)" for rel
    by (simp add: remotePathEvent_def c g split: option.split os_result.split)
  moreover have "keepsPending rc (requestRootReplace rc)" "keepsPending rc (requestFullSweep rc)"
    by (rule keepsPending_frame; simp add: requestRootReplace_def)+
  ultimately show ?thesis by (simp add: handleRemoteEvent_def Let_def)
qed

lemma keepsPending_handleDownloadResult: "keepsPending rc (handleDownloadResult env res rc)"
proof (rule keepsPending_frame)
  have r: "rc_pending (recordDownload env res rc) = rc_pending rc" "rc_uploads (recordDownload env res rc) = rc_uploads rc"
    "rc_delayed (recordDownload env res rc) = rc_delayed rc" "rc_stopped (recordDownload env res rc) = rc_stopped rc"
    by (simp_all add: recordDownload_def Let_def split: download_kind.split option.split)
  show "rc_pending (handleDownloadResult env res rc) = rc_pending rc"
    "rc_uploads (handleDownloadResult env res rc) = rc_uploads rc"
    "rc_delayed (handleDownloadResult env res rc) = rc_delayed rc"
    "rc_stopped (handleDownloadResult env res rc) = rc_stopped rc"
    by (simp_all add: handleDownloadResult_def r emit_def)
qed

lemma keepsPending_fireDelayed: "keepsPending rc (fireDelayed rc)"
  by (auto simp: keepsPending_def fireDelayed_def Let_def queueUpload_def pendingExact_untracked
      split: list.splits)

text \<open>
  The reconciler together with the operations its uploader holds.  A full pass that runs beside
  the event loop contributes its \<open>deferScanForPendingUpload\<close> calls.
\<close>

inductive upload_sys :: "reconciler \<Rightarrow> upload_op list \<Rightarrow> bool" where
  start: "rc_pending rc = Map.empty \<Longrightarrow> rc_uploads rc = [] \<Longrightarrow> rc_delayed rc = [] \<Longrightarrow> upload_sys rc []"
| local_change: "upload_sys rc ops \<Longrightarrow> (\<And>p i r. keepsPending r (ee_control env p i r)) \<Longrightarrow>
    upload_sys (handleLocalEvent fuel env ev rc) ops"
| remote_change: "upload_sys rc ops \<Longrightarrow> upload_sys (handleRemoteEvent env ra ev' rc) ops"
| downloaded: "upload_sys rc ops \<Longrightarrow> upload_sys (handleDownloadResult env dres rc) ops"
| fire: "upload_sys rc ops \<Longrightarrow> upload_sys (fireDelayed rc) ops"
| deferred: "upload_sys rc ops \<Longrightarrow> upload_sys (snd (deferScanForPendingUpload p rc)) ops"
| take_op: "upload_sys rc ops \<Longrightarrow> rc_uploads rc = op # rest \<Longrightarrow> upload_sys (rc\<lparr>rc_uploads := rest\<rparr>) (op # ops)"
| uploaded: "upload_sys rc (xs @ op # ys) \<Longrightarrow> sameHold (ur_op res) op \<Longrightarrow>
    upload_sys (handleUploadResult env res rc) (xs @ ys)"

lemma upload_sys_invariant:
  assumes "upload_sys rc ops"
  shows "list_all (\<lambda>(op, _). \<not> uo_tracked op) (rc_delayed rc)
    \<and> (\<not> rc_stopped rc \<longrightarrow> pendingExact (rc_pending rc) (rc_uploads rc @ ops))"
  using assms
proof (induction rule: upload_sys.induct)
  case (start rc)
  then show ?case by (simp add: pendingExact_def)
next
  case (local_change rc ops env fuel ev)
  then show ?case using keepsPending_handleLocalEvent [of env rc fuel ev] by (simp add: keepsPending_def)
next
  case (remote_change rc ops env ra ev')
  then show ?case using keepsPending_handleRemoteEvent [of rc env ra ev'] by (simp add: keepsPending_def)
next
  case (downloaded rc ops env dres)
  then show ?case using keepsPending_handleDownloadResult [of rc env dres] by (simp add: keepsPending_def)
next
  case (fire rc ops)
  then show ?case using keepsPending_fireDelayed [of rc] by (simp add: keepsPending_def)
next
  case (deferred rc ops p)
  then show ?case using keepsPending_defer [of rc p] by (simp add: keepsPending_def)
next
  case (take_op rc ops op rest)
  have "mset (rc_uploads rc @ ops) = mset (rest @ op # ops)" using take_op.hyps(2) by simp
  from pendingExact_mset [OF this] take_op show ?case by simp
next
  case (uploaded rc xs op ys res env)
  have h: "holds p (ur_op res) = holds p op" for p using uploaded.hyps(2) by (simp add: holds_def sameHold_def)
  have "exactFor (rc_pending (finishTracked (ur_op res) rc)) (\<lambda>p. outstanding p (rc_uploads rc @ xs @ ys))"
    if "\<not> rc_stopped rc"
  proof (rule exactFor_finishTracked)
    show "exactFor (rc_pending rc) (\<lambda>p. holds p (ur_op res) + outstanding p (rc_uploads rc @ xs @ ys))"
      using uploaded.IH that unfolding pendingExact_exactFor by (simp add: h ac_simps)
  qed
  with uploaded.IH show ?case by (simp add: handleUploadResult_pending pendingExact_exactFor)
qed

lemma pending_exact_reachable:
  assumes "upload_sys rc ops" and "\<not> rc_stopped rc"
  shows "fst (deferScanForPendingUpload p rc) = (0 < outstanding p (rc_uploads rc @ ops))
    \<and> (case rc_pending rc p of None \<Rightarrow> True | Some q \<Rightarrow> pu_count q = int (outstanding p (rc_uploads rc @ ops)))"
proof -
  have "pendingExact (rc_pending rc) (rc_uploads rc @ ops)" using upload_sys_invariant [OF assms(1)] assms(2) by simp
  then have "case rc_pending rc p of
            None \<Rightarrow> outstanding p (rc_uploads rc @ ops) = 0
          | Some q \<Rightarrow> pu_count q = int (outstanding p (rc_uploads rc @ ops)) \<and> 0 < outstanding p (rc_uploads rc @ ops)"
    unfolding pendingExact_def by blast
  then show ?thesis by (cases "rc_pending rc p") (simp_all add: deferScan_iff)
qed

text \<open>
  C14: In every reachable state of a running reconciler, the pending-upload count of a path is the
  number of queued or running tracked uploads that touch it (a rename touches two), and no count is
  left behind: so a scan defers a path exactly while such an upload is outstanding, and the last
  result frees it.
\<close>

theorem pending_counts_exact:
  assumes "upload_sys rc ops" and "\<not> rc_stopped rc"
  shows "fst (deferScanForPendingUpload p rc) = (0 < outstanding p (rc_uploads rc @ ops))
    \<and> (case rc_pending rc p of None \<Rightarrow> True | Some q \<Rightarrow> pu_count q = int (outstanding p (rc_uploads rc @ ops)))"
  using pending_exact_reachable [OF assms] .

theorem pending_counts_exact_witness:
  "\<exists>rc ops. upload_sys rc ops \<and> fst (deferScanForPendingUpload ''a'' rc) = (0 < outstanding ''a'' (rc_uploads rc @ ops))"
proof -
  have u: "upload_sys (startWith Map.empty) []" by (rule upload_sys.start) simp_all
  have "\<not> rc_stopped (startWith Map.empty)" by simp
  from pending_counts_exact [OF u this] u show ?thesis by blast
qed

subsection \<open>Renames\<close>

text \<open>
  A file that disappears from one path and appears, unchanged and with the same file identity,
  at a new path within five seconds is sent as one remote rename: nothing else is queued, the old
  path is a tombstone and the new one live with the old baseline, and the delayed delete finds its
  candidate taken and sends nothing.
\<close>

theorem rename_detected:
  assumes "entries rc old = Some e" and "se_type e = ''file''" and "trimSpace (se_localIdentity e) \<noteq> []"
    and "entries rc new = None" and "new \<noteq> old" and "\<not> rc_stopped rc"
    and "fi_ident info = se_localIdentity e" and "fi_perm info = se_mode e"
    and "fi_size info \<le> rc_maxFileBytes rc" and "fi_size info \<le> rc_chunkThreshold rc"
    and "le_readFile env2 new = OsOk data" and "ee_hash env2 data = se_localHash e"
    and "ee_now env2 - ee_now env1 \<le> renameWindow"
    and "rc1 = handleLocalDelete scan env1 old ''remove'' rc" and "rc2 = handleLocalFile env2 new info rc1"
  shows "\<exists>op. rc_uploads rc2 = rc_uploads rc @ [op] \<and> uo_kind op = OpUploadRename
      \<and> uo_path op = new \<and> uo_prevPath op = old \<and> uo_tracked op
    \<and> isTombstoned old rc2
    \<and> (\<exists>e2. entries rc2 new = Some e2 \<and> \<not> se_deleted e2 \<and> se_remoteHash e2 = se_remoteHash e
           \<and> se_version e2 = uo_renameVersion op)
    \<and> \<not> renameCandidateStillPending (renameCandidateKey e) old rc2"
proof -
  define cand where "cand = \<lparr>rn_path = old, rn_entry = e, rn_recordedAt = ee_now env1\<rparr>"
  have key: "renameCandidateKey e = ''file:inode:'' @ se_localIdentity e"
    using assms(2,3) by (simp add: renameCandidateKey_def)
  define rc1' where "rc1' = rememberRenameCandidate (ee_now env1) old e
      (markDirtyR (putEntry old (e\<lparr>se_deleted := True, se_lastSyncedAt := ee_now env1\<rparr>) rc))"
  have d: "rc1 = enqueueUploadOpAsync (zeroUploadOp\<lparr>uo_kind := OpUploadDelete, uo_path := old, uo_stored := e,
      uo_hasStored := True\<rparr>) (renameCandidateKey e) old rc1'"
    using assms(1,14) key by (simp add: handleLocalDelete_def Let_def rc1'_def)
  have w: "rc_writer rc1 = rc_writer rc1'" "rc_renames rc1 = rc_renames rc1'" "rc_uploads rc1 = rc_uploads rc1'"
    "rc_stopped rc1 = rc_stopped rc1'" "rc_maxFileBytes rc1 = rc_maxFileBytes rc1'"
    "rc_chunkThreshold rc1 = rc_chunkThreshold rc1'"
    by (simp_all add: d enqueueUploadOpAsync_def)
  have r1: "map_of (rc_renames rc1) (renameCandidateKey e) = Some cand"
    using key by (simp add: w rc1'_def rememberRenameCandidate_def Let_def cand_def update_conv')
  have u1: "rc_uploads rc1 = rc_uploads rc" "\<not> rc_stopped rc1"
    using assms(6) by (simp_all add: w rc1'_def)
  have lim: "rc_maxFileBytes rc1 = rc_maxFileBytes rc" "rc_chunkThreshold rc1 = rc_chunkThreshold rc"
    by (simp_all add: w rc1'_def rememberRenameCandidate_def Let_def markDirtyR_def putEntry_def nextVersion_def)
  have e1: "entries rc1 new = None" "\<exists>t. entries rc1 old = Some t \<and> se_deleted t"
    using assms(4,5) by (simp_all add: w rc1'_def)
  define lc where "lc = \<lparr>lc_hash = se_localHash e, lc_size = fi_size info, lc_content = data, lc_chunks = None\<rparr>"
  have lc: "readLocalContent env2 new info rc1 = Some lc"
    using assms(10-12) by (simp add: readLocalContent_def lim lc_def)
  define rc1c where "rc1c = rc1\<lparr>rc_renames := AList.delete (renameCandidateKey e) (rc_renames rc1)\<rparr>"
  have key2: "renameCandidateKeyForLocalFile (fi_ident info) (lc_hash lc) (lc_size lc) = renameCandidateKey e"
    using assms(3,7) key by (simp add: renameCandidateKeyForLocalFile_def)
  have t: "takeRenameCandidateFor (ee_now env2) new (renameCandidateKey e) ''file'' b rc1 = (Some cand, rc1c)" for b
    using key r1 assms(13) by (simp add: takeRenameCandidateFor_def takeRenameCandidate_def rc1c_def cand_def)
  have h: "rc2 = renamedLocalFile (ee_now env2) new info lc cand rc1c"
    using assms(9,15) lim lc by (simp add: handleLocalFile_def Let_def key2 t)
  define ver where "ver = nextV rc1c"
  define e2 where "e2 = e\<lparr>se_deleted := False, se_localIdentity := defaultString (trimSpace (fi_ident info)) (se_localIdentity e)\<rparr>"
  have h2: "rc2 = enqueueTrackedUpload (renameFileOp new info cand ver)
      (markDirtyR (putEntry new (e2\<lparr>se_lastSyncedAt := ee_now env2\<rparr>) rc1c))"
    using assms(8) by (simp add: h renamedLocalFile_def installPendingRename_def stageSyncEntry_def Let_def
        cand_def lc_def ver_def e2_def)
  have "rc_uploads rc2 = rc_uploads rc @ [(renameFileOp new info cand ver)\<lparr>uo_tracked := True\<rparr>]"
    using u1 by (simp add: h2 enqueueTrackedUpload_def queueUpload_def Let_def rc1c_def)
  moreover have "isTombstoned old rc2"
    using e1(2) assms(5) by (auto simp: h2 isTombstoned_def rc1c_def)
  moreover have "entries rc2 new = Some (e2\<lparr>se_lastSyncedAt := ee_now env2, se_version := ver\<rparr>)"
    by (simp add: h2 ver_def)
  moreover have "\<not> renameCandidateStillPending (renameCandidateKey e) old rc2"
    by (simp add: renameCandidateStillPending_def h2 rc1c_def delete_conv')
  ultimately show ?thesis
    by (intro exI [of _ "(renameFileOp new info cand ver)\<lparr>uo_tracked := True\<rparr>"])
      (simp add: renameFileOp_def cand_def e2_def)
qed

theorem rename_detected_witness:
  "\<exists>rc2 op. rc_uploads rc2 = [op] \<and> uo_kind op = OpUploadRename \<and> uo_prevPath op = ''a'' \<and> isTombstoned ''a'' rc2"
proof -
  let ?e = "exampleEntry\<lparr>se_localIdentity := ''dev1:ino2'', se_localHash := ''x''\<rparr>"
  let ?rc = "startWith [''a'' \<mapsto> ?e]"
  have "trimSpace (se_localIdentity ?e) \<noteq> []" by code_simp
  moreover have "entries ?rc ''a'' = Some ?e" "se_type ?e = ''file''" "entries ?rc ''b'' = None" "''b'' \<noteq> ''a''"
    "\<not> rc_stopped ?rc" "fi_ident (exampleInfo IRegular) = se_localIdentity ?e" "fi_perm (exampleInfo IRegular) = se_mode ?e"
    "fi_size (exampleInfo IRegular) \<le> rc_maxFileBytes ?rc" "fi_size (exampleInfo IRegular) \<le> rc_chunkThreshold ?rc"
    "le_readFile quietEnv ''b'' = OsOk ''x''" "ee_hash quietEnv ''x'' = se_localHash ?e"
    "ee_now quietEnv - ee_now quietEnv \<le> renameWindow"
    by (simp_all add: exampleEntry_def exampleInfo_def quietEnv_def renameWindow_def)
  ultimately show ?thesis
    using rename_detected [of ?rc "''a''" ?e "''b''" "exampleInfo IRegular" quietEnv "''x''" quietEnv, OF _ _ _ _ _ _ _ _ _ _ _ _ _ refl refl]
    by (simp only: startWith_simps append_Nil) blast
qed

subsection \<open>Fuel\<close>

text \<open>
  When the walk only meets paths that still exist, the events of a rename scan do not scan again:
  one unit of fuel is enough, and more changes nothing.
\<close>

lemma handleLocalEvent_fuel_irrelevant:
  assumes "le_lstat env (lev_path ev) \<noteq> OsNotExist"
  shows "handleLocalEvent m env ev rc = handleLocalEvent n env ev rc"
  by (subst (1 2) handleLocalEvent.simps)
    (use assms in \<open>auto simp: Let_def consumeEcho_def split: os_result.splits option.splits\<close>)

lemma handleLocalEvent_fuel_enough:
  assumes "\<And>p. p \<in> set (ee_walk env) \<Longrightarrow> le_lstat env p \<noteq> OsNotExist"
  shows "handleLocalEvent (Suc n) env ev rc = handleLocalEvent (Suc 0) env ev rc"
proof -
  have eq: "fold (\<lambda>p r. if p = d \<or> ee_ignore env p then r
             else handleLocalEvent n env \<lparr>lev_path = p, lev_kindHint = ''rename''\<rparr> r) (ee_walk env) r
      = fold (\<lambda>p r. if p = d \<or> ee_ignore env p then r
             else handleLocalEvent 0 env \<lparr>lev_path = p, lev_kindHint = ''rename''\<rparr> r) (ee_walk env) r" for d r
    by (rule fold_cong [OF refl refl])
      (use assms handleLocalEvent_fuel_irrelevant [of env] in \<open>auto simp: fun_eq_iff\<close>)
  show ?thesis
    by (simp only: handleLocalEvent.simps [of "Suc n"] handleLocalEvent.simps [of "Suc 0"] nat.case eq)
qed

subsection \<open>A gap the model shows\<close>

text \<open>
  The result of a symlink upload is recorded over a tombstone: the guard that protects a tombstone
  from late results (\<open>uploadResultObsolete\<close>) is asked for file uploads only.
\<close>

theorem symlink_result_revives_tombstone:
  assumes "uo_kind (ur_op res) = OpUploadSymlink" and "isTombstoned (uo_path (ur_op res)) rc"
    and "\<not> ur_skipped res" and "ur_err res = None" and "\<not> ur_conflict res"
  shows "\<not> isTombstoned (uo_path (ur_op res)) (handleUploadResult env res rc)"
  using assms
  by (simp add: handleUploadResult_def Let_def recordUpload_def isTombstoned_def withRemoteStat_def
      zeroEntry_def split: option.splits)

end
