(* ===== verification/Publication.thy ===== *)
theory Publication
  imports FileSnapshots
begin

text \<open>
  Atomic publication of remote files: the Redis scripts \<open>publishFileScript\<close>,
  \<open>deleteInodeScript\<close> and \<open>updateInodeScript\<close> and the client functions around them
  (\<open>mount/internal/client/publication.go\<close>, \<open>native_parent.go\<close>).

  A script runs as one step on the store, a map from keys to typed values.  It returns the
  script's code, or \<open>None\<close> when Redis stops it with a runtime error; what it changed before stays
  changed, as in Redis.  Keys are the names that \<open>keys.go\<close> builds, as a datatype.  A number kept
  as text is read by \<open>decimal\<close>; a text that is no decimal integer counts as malformed.
  Expiry is a separate step that removes a key.
\<close>

subsection \<open>The store\<close>

datatype rkey = KInode string | KContent string | KDirents string | KStage string string
  | KInfo | KGeneration | KRootDirty | KChanges | KSession string | KDirtySet
  | KReceipt string | KRetired string | KNextInode

datatype rvalue = RString string | RHash "string \<Rightarrow> string option" | RSet "string set"
  | RStream "string list" | RArray bytes

type_synonym redis = "rkey \<Rightarrow> rvalue option"

definition isHashOrNone :: "redis \<Rightarrow> rkey \<Rightarrow> bool" where
  "isHashOrNone r k = (case r k of None \<Rightarrow> True | Some (RHash _) \<Rightarrow> True | _ \<Rightarrow> False)"

definition isSetOrNone :: "redis \<Rightarrow> rkey \<Rightarrow> bool" where
  "isSetOrNone r k = (case r k of None \<Rightarrow> True | Some (RSet _) \<Rightarrow> True | _ \<Rightarrow> False)"

definition isStreamOrNone :: "redis \<Rightarrow> rkey \<Rightarrow> bool" where
  "isStreamOrNone r k = (case r k of None \<Rightarrow> True | Some (RStream _) \<Rightarrow> True | _ \<Rightarrow> False)"

definition hashAt :: "redis \<Rightarrow> rkey \<Rightarrow> string \<Rightarrow> string option" where
  "hashAt r k = (case r k of Some (RHash h) \<Rightarrow> h | _ \<Rightarrow> Map.empty)"

definition hget :: "redis \<Rightarrow> rkey \<Rightarrow> string \<Rightarrow> string option" where
  "hget r k f = hashAt r k f"

text \<open>\<open>redis.call('HGET', k, f) or d\<close>\<close>

definition hgetOr :: "redis \<Rightarrow> rkey \<Rightarrow> string \<Rightarrow> string \<Rightarrow> string" where
  "hgetOr r k f d = (case hget r k f of None \<Rightarrow> d | Some v \<Rightarrow> v)"

definition hset :: "rkey \<Rightarrow> string \<Rightarrow> string \<Rightarrow> redis \<Rightarrow> redis" where
  "hset k f v r = r(k \<mapsto> RHash ((hashAt r k)(f \<mapsto> v)))"

definition hsetAll :: "rkey \<Rightarrow> (string \<times> string) list \<Rightarrow> redis \<Rightarrow> redis" where
  "hsetAll k fvs r = fold (\<lambda>(f, v). hset k f v) fvs r"

text \<open>\<open>HDEL\<close>; removing the last field removes the key.\<close>

definition hdel :: "rkey \<Rightarrow> string \<Rightarrow> redis \<Rightarrow> redis" where
  "hdel k f r =
     (case r k of
        Some (RHash h) \<Rightarrow> r(k := (if dom h \<subseteq> {f} then None else Some (RHash (h(f := None)))))
      | _ \<Rightarrow> r)"

text \<open>\<open>HINCRBY\<close> fails on a field that is no integer.\<close>

definition hincrby :: "rkey \<Rightarrow> string \<Rightarrow> int \<Rightarrow> redis \<Rightarrow> redis option" where
  "hincrby k f d r =
     (if isHashOrNone r k
      then case decimal (hgetOr r k f ''0'') of None \<Rightarrow> None | Some n \<Rightarrow> Some (hset k f (intText (n + d)) r)
      else None)"

definition sadd :: "rkey \<Rightarrow> string \<Rightarrow> redis \<Rightarrow> redis" where
  "sadd k x r = r(k \<mapsto> RSet (insert x (case r k of Some (RSet s) \<Rightarrow> s | _ \<Rightarrow> {})))"

definition xadd :: "rkey \<Rightarrow> string \<Rightarrow> redis \<Rightarrow> redis" where
  "xadd k x r = r(k \<mapsto> RStream ((case r k of Some (RStream xs) \<Rightarrow> xs | _ \<Rightarrow> []) @ [x]))"

definition renameKey :: "rkey \<Rightarrow> rkey \<Rightarrow> redis \<Rightarrow> redis" where
  "renameKey a b r = r(b := r a, a := None)"

definition luaLimit :: int where
  "luaLimit = 4503599627370496"

definition smallInt :: "string \<Rightarrow> bool" where
  "smallInt s = (case decimal s of None \<Rightarrow> False | Some n \<Rightarrow> \<bar>n\<bar> < luaLimit)"

subsection \<open>Publishing a file\<close>

text \<open>
  The arguments and the variable keys of one call.  \<open>pa_lease\<close> is \<open>KEYS[11]\<close>, the session lease or
  the generation key itself.  The notification that a script publishes is not part of the store.
\<close>

record publish_args =
  pa_inode :: string
  pa_name :: string
  pa_parent :: string
  pa_stage :: rkey
  pa_lease :: rkey
  pa_expected :: string
  pa_revision :: string
  pa_create :: bool
  pa_mtime :: string
  pa_generation :: string
  pa_size :: int
  pa_payload :: string
  pa_digest :: string
  pa_fields :: "(string \<times> string) list"

definition generationOk :: "string \<Rightarrow> redis \<Rightarrow> bool" where
  "generationOk g r \<longleftrightarrow> g = [] \<or> r KGeneration = Some (RString g)"

definition leaseOk :: "rkey \<Rightarrow> redis \<Rightarrow> bool" where
  "leaseOk lease r \<longleftrightarrow> lease = KGeneration \<or> r lease \<noteq> None"

definition malformed :: "publish_args \<Rightarrow> redis \<Rightarrow> bool" where
  "malformed a r \<longleftrightarrow>
     \<not> isHashOrNone r (KInode (pa_inode a)) \<or> \<not> isHashOrNone r (KDirents (pa_parent a))
     \<or> \<not> isHashOrNone r KInfo \<or> \<not> isHashOrNone r (KInode (pa_parent a))
     \<or> r (KRetired (pa_revision a)) \<noteq> None
     \<or> \<not> smallInt (hgetOr r KInfo ''total_data_bytes'' ''0'') \<or> \<not> smallInt (hgetOr r KInfo ''files'' ''0'')
     \<or> pa_size a < 0 \<or> luaLimit \<le> pa_size a
     \<or> (case decimal (hgetOr r (KInode (pa_inode a)) ''size'' ''0'') of
          None \<Rightarrow> True
        | Some old \<Rightarrow> old < 0 \<or> luaLimit \<le> old
            \<or> luaLimit \<le> \<bar>the (decimal (hgetOr r KInfo ''total_data_bytes'' ''0'')) + pa_size a - old\<bar>)"

definition publishCode :: "publish_args \<Rightarrow> redis \<Rightarrow> int" where
  "publishCode a r =
     (case r (KReceipt (pa_revision a)) of
        Some (RString d) \<Rightarrow> if d \<noteq> pa_digest a then -6 else 2
      | Some _ \<Rightarrow> -4
      | None \<Rightarrow>
          let current = hgetOr r (KInode (pa_inode a)) ''revision'' [];
              linked = hget r (KDirents (pa_parent a)) (pa_name a)
          in if malformed a r then -4
             else if \<not> generationOk (pa_generation a) r then -2
             else if \<not> leaseOk (pa_lease a) r then -5
             else if current = pa_revision a \<and> linked = Some (pa_inode a) then 2
             else if \<not> isSetOrNone r KDirtySet then -4
             else if \<not> isStreamOrNone r KChanges then -4
             else if r (KInode (pa_parent a)) = None then -1
             else if pa_create a \<and> linked \<noteq> None then -1
             else if \<not> pa_create a
               \<and> (linked \<noteq> Some (pa_inode a) \<or> current \<noteq> pa_expected a \<or> r (KInode (pa_inode a)) = None) then -1
             else if r (pa_stage a) = None then -3
             else 1)"

text \<open>What a call with code 1 does, in the order of the script.\<close>

definition publishEffect :: "publish_args \<Rightarrow> redis \<Rightarrow> redis" where
  "publishEffect a r0 =
     (let inode = KInode (pa_inode a); live = KContent (pa_inode a);
          previous = the (decimal (hgetOr r0 inode ''size'' ''0''));
          r1 = (if r0 live \<noteq> None then renameKey live (KRetired (pa_revision a)) r0 else r0);
          r2 = (if pa_size a = 0 then r1(pa_stage a := None) else renameKey (pa_stage a) live r1);
          r3 = hset inode ''revision'' (pa_revision a) (hsetAll inode (pa_fields a) r2);
          r4 = hdel inode ''content'' r3;
          r5 = (if pa_create a
                then let r = (if hget r4 (KDirents (pa_parent a)) (pa_name a) = None
                              then hset (KDirents (pa_parent a)) (pa_name a) (pa_inode a) r4 else r4)
                     in hset (KInode (pa_parent a)) ''ctime_ms'' (pa_mtime a)
                          (hset (KInode (pa_parent a)) ''mtime_ms'' (pa_mtime a)
                             (the (hincrby KInfo ''files'' 1 r)))
                else r4);
          r6 = the (hincrby KInfo ''total_data_bytes'' (pa_size a - previous) r5);
          r7 = sadd KDirtySet (pa_inode a) (r6(KRootDirty \<mapsto> RString ''1''));
          r8 = (if pa_payload a \<noteq> [] then xadd KChanges (pa_payload a) r7 else r7)
      in r8(KReceipt (pa_revision a) \<mapsto> RString (pa_digest a)))"

definition publishFileScript :: "publish_args \<Rightarrow> redis \<Rightarrow> int \<times> redis" where
  "publishFileScript a r = (let c = publishCode a r in (c, if c = 1 then publishEffect a r else r))"

subsection \<open>What a publication leaves in the store\<close>

lemma hset_other [simp]: "k \<noteq> k' \<Longrightarrow> hset k f v r k' = r k'"
  by (simp add: hset_def)

lemma hsetAll_other [simp]: "k \<noteq> k' \<Longrightarrow> hsetAll k fvs r k' = r k'"
  unfolding hsetAll_def by (induction fvs arbitrary: r) auto

lemma hdel_other [simp]: "k \<noteq> k' \<Longrightarrow> hdel k f r k' = r k'"
  by (auto simp: hdel_def split: option.splits rvalue.splits)

lemma hincrby_other: "k \<noteq> k' \<Longrightarrow> hincrby k f d r = Some r' \<Longrightarrow> r' k' = r k'"
  by (auto simp: hincrby_def split: if_splits option.splits)

lemma sadd_other [simp]: "k \<noteq> k' \<Longrightarrow> sadd k x r k' = r k'"
  by (simp add: sadd_def)

lemma xadd_other [simp]: "k \<noteq> k' \<Longrightarrow> xadd k x r k' = r k'"
  by (simp add: xadd_def)

lemma hashAt_hset [simp]: "hashAt (hset k f v r) k = (hashAt r k)(f \<mapsto> v)"
  by (simp add: hset_def hashAt_def)

lemma hashAt_cong: "r k = r' k \<Longrightarrow> hashAt r k = hashAt r' k"
  by (simp add: hashAt_def)

lemma hashAt_hsetAll: "hashAt (hsetAll k fvs r) k = hashAt r k ++ map_of (rev fvs)"
proof -
  have "hashAt (hsetAll k fvs r) k g = (hashAt r k ++ map_of (rev fvs)) g" for g
    by (induction fvs arbitrary: r) (auto simp: hsetAll_def map_add_def split: option.splits)
  then show ?thesis by blast
qed

lemma hashAt_hdel [simp]: "hashAt (hdel k f r) k = (hashAt r k)(f := None)"
proof (cases "r k")
  case (Some v)
  show ?thesis
  proof (cases v)
    case (RHash h)
    then show ?thesis using Some by (auto simp: hdel_def hashAt_def fun_eq_iff domIff subset_iff) (metis not_None_eq)
  qed (use Some in \<open>auto simp: hdel_def hashAt_def\<close>)
qed (simp add: hdel_def hashAt_def)

text \<open>The numbers of the bookkeeping hash; a missing field counts as zero.\<close>

definition counter :: "redis \<Rightarrow> string \<Rightarrow> int" where
  "counter r f = the (decimal (hgetOr r KInfo f ''0''))"

lemma hincrby_info:
  assumes "isHashOrNone r KInfo" and "decimal (hgetOr r KInfo f ''0'') \<noteq> None"
  shows "\<exists>r'. hincrby KInfo f d r = Some r' \<and> counter r' f = counter r f + d \<and> isHashOrNone r' KInfo
    \<and> decimal (hgetOr r' KInfo f ''0'') \<noteq> None
    \<and> (\<forall>g. g \<noteq> f \<longrightarrow> hgetOr r' KInfo g ''0'' = hgetOr r KInfo g ''0'') \<and> (\<forall>k. k \<noteq> KInfo \<longrightarrow> r' k = r k)"
  using assms by (auto simp: hincrby_def counter_def hgetOr_def hget_def isHashOrNone_def hset_def hashAt_def)

lemma publishCode_one:
  assumes "publishCode a r = 1"
  shows "r (KReceipt (pa_revision a)) = None" "\<not> malformed a r" "generationOk (pa_generation a) r"
    "leaseOk (pa_lease a) r" "r (KInode (pa_parent a)) \<noteq> None" "r (pa_stage a) \<noteq> None"
    "if pa_create a then hget r (KDirents (pa_parent a)) (pa_name a) = None
     else hget r (KDirents (pa_parent a)) (pa_name a) = Some (pa_inode a)
       \<and> hgetOr r (KInode (pa_inode a)) ''revision'' [] = pa_expected a \<and> r (KInode (pa_inode a)) \<noteq> None"
  using assms by (auto simp: publishCode_def Let_def split: if_splits option.splits rvalue.splits)

lemma isHashOrNone_cong: "r k = r' k \<Longrightarrow> isHashOrNone r k = isHashOrNone r' k"
  by (simp add: isHashOrNone_def)

lemma counter_cong: "r KInfo = r' KInfo \<Longrightarrow> counter r f = counter r' f"
  by (simp add: counter_def hgetOr_def hget_def hashAt_def)

lemma hgetOr_cong: "r k = r' k \<Longrightarrow> hgetOr r k f d = hgetOr r' k f d"
  by (simp add: hgetOr_def hget_def hashAt_def)

lemma hincrby_chain:
  assumes "isHashOrNone r KInfo" and "\<And>f. f \<in> {''files'', ''total_data_bytes''} \<Longrightarrow> decimal (hgetOr r KInfo f ''0'') \<noteq> None"
    and "q KInfo = r KInfo"
  shows "\<exists>q'. hincrby KInfo ''files'' d q = Some q'
    \<and> counter q' ''files'' = counter r ''files'' + d \<and> counter q' ''total_data_bytes'' = counter r ''total_data_bytes''
    \<and> isHashOrNone q' KInfo \<and> decimal (hgetOr q' KInfo ''files'' ''0'') \<noteq> None
    \<and> decimal (hgetOr q' KInfo ''total_data_bytes'' ''0'') \<noteq> None \<and> (\<forall>k. k \<noteq> KInfo \<longrightarrow> q' k = q k)"
proof -
  have "isHashOrNone q KInfo" "decimal (hgetOr q KInfo ''files'' ''0'') \<noteq> None"
    using assms isHashOrNone_cong [of q KInfo r] hgetOr_cong [of q KInfo r] by simp_all
  then obtain q' where "hincrby KInfo ''files'' d q = Some q'" "counter q' ''files'' = counter q ''files'' + d"
    "isHashOrNone q' KInfo" "decimal (hgetOr q' KInfo ''files'' ''0'') \<noteq> None" "\<And>g. g \<noteq> ''files'' \<Longrightarrow> hgetOr q' KInfo g ''0'' = hgetOr q KInfo g ''0''" "\<forall>k. k \<noteq> KInfo \<longrightarrow> q' k = q k"
    using hincrby_info [of q "''files''" d] by blast
  moreover have "hgetOr q KInfo ''total_data_bytes'' ''0'' = hgetOr r KInfo ''total_data_bytes'' ''0''"
    "counter q ''files'' = counter r ''files''"
    using assms(3) hgetOr_cong counter_cong by blast+
  ultimately show ?thesis using assms(2) by (auto simp: counter_def)
qed

lemma publishEffect_store:
  assumes c: "publishCode a r = 1" and st: "pa_stage a = KStage (pa_inode a) tok" and p: "pa_parent a \<noteq> pa_inode a"
  defines "r' \<equiv> publishEffect a r"
  defines "old \<equiv> the (decimal (hgetOr r (KInode (pa_inode a)) ''size'' ''0''))"
  shows "hashAt r' (KInode (pa_inode a))
      = ((hashAt r (KInode (pa_inode a)) ++ map_of (rev (pa_fields a)))(''revision'' \<mapsto> pa_revision a))(''content'' := None)"
    and "r' (KContent (pa_inode a)) = (if pa_size a = 0 then None else r (pa_stage a))"
    and "hget r' (KDirents (pa_parent a)) (pa_name a) = Some (pa_inode a)"
    and "counter r' ''files'' = counter r ''files'' + (if pa_create a then 1 else 0)"
    and "counter r' ''total_data_bytes'' = counter r ''total_data_bytes'' + pa_size a - old"
    and "isHashOrNone r' KInfo"
    and "g \<in> {''files'', ''total_data_bytes''} \<Longrightarrow> decimal (hgetOr r' KInfo g ''0'') \<noteq> None"
    and "r' (KReceipt (pa_revision a)) = Some (RString (pa_digest a))"
    and "v \<noteq> pa_revision a \<Longrightarrow> r' (KReceipt v) = r (KReceipt v)"
    and "j \<noteq> pa_inode a \<Longrightarrow> f \<notin> {''mtime_ms'', ''ctime_ms''} \<Longrightarrow> hget r' (KInode j) f = hget r (KInode j) f"
    and "j \<noteq> pa_inode a \<Longrightarrow> j \<noteq> pa_parent a \<or> \<not> pa_create a \<Longrightarrow> r' (KInode j) = r (KInode j)"
    and "j \<noteq> pa_inode a \<Longrightarrow> r' (KContent j) = r (KContent j)"
    and "k \<in> {KGeneration} \<union> range KSession \<Longrightarrow> r' k = r k"
proof -
  define inode where "inode = KInode (pa_inode a)"
  define live where "live = KContent (pa_inode a)"
  define r1 where "r1 = (if r live \<noteq> None then renameKey live (KRetired (pa_revision a)) r else r)"
  define r2 where "r2 = (if pa_size a = 0 then r1(pa_stage a := None) else renameKey (pa_stage a) live r1)"
  define r4 where "r4 = hdel inode ''content'' (hset inode ''revision'' (pa_revision a) (hsetAll inode (pa_fields a) r2))"
  define rl where "rl = (if hget r4 (KDirents (pa_parent a)) (pa_name a) = None
      then hset (KDirents (pa_parent a)) (pa_name a) (pa_inode a) r4 else r4)"
  define rf where "rf = the (hincrby KInfo ''files'' 1 rl)"
  define r5 where "r5 = (if pa_create a then hset (KInode (pa_parent a)) ''ctime_ms'' (pa_mtime a)
      (hset (KInode (pa_parent a)) ''mtime_ms'' (pa_mtime a) rf) else r4)"
  define r6 where "r6 = the (hincrby KInfo ''total_data_bytes'' (pa_size a - old) r5)"
  define r8 where "r8 = (let r7 = sadd KDirtySet (pa_inode a) (r6(KRootDirty \<mapsto> RString ''1''))
      in if pa_payload a \<noteq> [] then xadd KChanges (pa_payload a) r7 else r7)"
  have r': "r' = r8(KReceipt (pa_revision a) \<mapsto> RString (pa_digest a))"
    unfolding r'_def publishEffect_def Let_def r8_def r6_def r5_def rf_def rl_def r4_def r2_def r1_def old_def inode_def live_def
    by (rule refl)
  note one = publishCode_one [OF c]
  have i: "isHashOrNone r KInfo"
    "f \<in> {''files'', ''total_data_bytes''} \<Longrightarrow> decimal (hgetOr r KInfo f ''0'') \<noteq> None" for f
    using one(2) by (auto simp: malformed_def smallInt_def split: option.splits)
  have r4i: "r4 KInfo = r KInfo" by (simp add: r4_def inode_def r2_def r1_def renameKey_def live_def st)
  then have rli: "rl KInfo = r KInfo" by (simp add: rl_def)
  obtain q where q: "hincrby KInfo ''files'' 1 rl = Some q"
    "counter q ''files'' = counter r ''files'' + 1" "counter q ''total_data_bytes'' = counter r ''total_data_bytes''"
    "isHashOrNone q KInfo" "decimal (hgetOr q KInfo ''files'' ''0'') \<noteq> None"
    "decimal (hgetOr q KInfo ''total_data_bytes'' ''0'') \<noteq> None" "\<forall>k. k \<noteq> KInfo \<longrightarrow> q k = rl k"
    using hincrby_chain [of r rl 1] i rli by blast
  have rf: "rf = q" by (simp add: rf_def q(1))
  have r5i: "r5 KInfo = (if pa_create a then q KInfo else r KInfo)" by (simp add: r5_def rf r4i)
  have "isHashOrNone r5 KInfo" "decimal (hgetOr r5 KInfo ''total_data_bytes'' ''0'') \<noteq> None"
    using q(4,6) i r5i by (simp_all add: isHashOrNone_def hgetOr_def hget_def hashAt_def)
  from hincrby_info [OF this, of "pa_size a - old"] obtain t where t: "hincrby KInfo ''total_data_bytes'' (pa_size a - old) r5 = Some t"
    "counter t ''total_data_bytes'' = counter r5 ''total_data_bytes'' + (pa_size a - old)" "isHashOrNone t KInfo"
    "decimal (hgetOr t KInfo ''total_data_bytes'' ''0'') \<noteq> None"
    "\<forall>g. g \<noteq> ''total_data_bytes'' \<longrightarrow> hgetOr t KInfo g ''0'' = hgetOr r5 KInfo g ''0''" "\<forall>k. k \<noteq> KInfo \<longrightarrow> t k = r5 k" by blast
  have r6: "r6 = t" by (simp add: r6_def t(1))
  have r8k: "r8 k = r6 k" if "k \<notin> {KDirtySet, KRootDirty, KChanges}" for k
    using that by (simp add: r8_def Let_def sadd_def xadd_def)
  have ct: "counter r5 f = (if pa_create a then counter q f else counter r f)" for f
    using r5i by (simp add: counter_def hgetOr_def hget_def hashAt_def)
  have cr: "counter r' f = counter t f" for f by (simp add: r' counter_def hgetOr_def hget_def hashAt_def r8k r6)
  show "counter r' ''total_data_bytes'' = counter r ''total_data_bytes'' + pa_size a - old"
    by (simp add: cr t(2) ct q(3))
  show "counter r' ''files'' = counter r ''files'' + (if pa_create a then 1 else 0)"
  proof -
    have "counter t ''files'' = counter r5 ''files''" using t(5) by (simp add: counter_def)
    then show ?thesis by (simp add: cr ct q(2))
  qed
  have i5: "decimal (hgetOr r5 KInfo ''files'' ''0'') \<noteq> None"
    using q(5) i r5i by (simp add: hgetOr_def hget_def hashAt_def)
  have "hgetOr r' KInfo g ''0'' = hgetOr t KInfo g ''0''" for g
    by (simp add: r' hgetOr_def hget_def hashAt_def r8k r6)
  then show "g \<in> {''files'', ''total_data_bytes''} \<Longrightarrow> decimal (hgetOr r' KInfo g ''0'') \<noteq> None"
    using t(4,5) i5 by auto
  show "isHashOrNone r' KInfo" using t(3) by (simp add: r' isHashOrNone_def r8k r6)
  have r8o: "r8 k = r5 k" if "k \<notin> {KDirtySet, KRootDirty, KChanges, KInfo}" for k
    using that t(6) by (simp add: r8k r6)
  have rfo: "rf k = rl k" if "k \<noteq> KInfo" for k using that q(7) by (simp add: rf)
  have r5k: "r5 k = r4 k" if "k \<notin> {KInfo, KInode (pa_parent a), KDirents (pa_parent a)}" for k
    using that by (auto simp: r5_def rfo rl_def)
  have hi: "hashAt r' inode = hashAt r4 inode"
    using p by (simp add: hashAt_def r' r8o r5k inode_def)
  have "hashAt r2 inode = hashAt r inode"
    by (simp add: hashAt_def r2_def r1_def inode_def live_def st renameKey_def)
  then show "hashAt r' (KInode (pa_inode a))
      = ((hashAt r (KInode (pa_inode a)) ++ map_of (rev (pa_fields a)))(''revision'' \<mapsto> pa_revision a))(''content'' := None)"
    using hi by (simp add: inode_def r4_def hashAt_hsetAll)
  show "r' (KContent (pa_inode a)) = (if pa_size a = 0 then None else r (pa_stage a))"
    by (simp add: r' r8o r5k r4_def inode_def r2_def r1_def live_def st renameKey_def)
  have "r4 (KDirents (pa_parent a)) = r (KDirents (pa_parent a))"
    by (simp add: r4_def inode_def r2_def r1_def live_def st renameKey_def)
  then have ld: "hget r4 (KDirents (pa_parent a)) (pa_name a) = hget r (KDirents (pa_parent a)) (pa_name a)"
    by (simp add: hget_def hashAt_def)
  have "hget r' (KDirents (pa_parent a)) (pa_name a) = hget r5 (KDirents (pa_parent a)) (pa_name a)"
    by (simp add: hget_def hashAt_def r' r8o)
  also have "\<dots> = Some (pa_inode a)"
  proof (cases "pa_create a")
    case True
    then have "hget r4 (KDirents (pa_parent a)) (pa_name a) = None" using one(7) ld by simp
    then have "hget rl (KDirents (pa_parent a)) (pa_name a) = Some (pa_inode a)"
      by (simp add: rl_def hget_def)
    with True show ?thesis by (simp add: r5_def hget_def hashAt_def rfo)
  qed (use one(7) ld in \<open>simp add: r5_def\<close>)
  finally show "hget r' (KDirents (pa_parent a)) (pa_name a) = Some (pa_inode a)" .
  show "r' (KReceipt (pa_revision a)) = Some (RString (pa_digest a))" by (simp add: r')
  show "v \<noteq> pa_revision a \<Longrightarrow> r' (KReceipt v) = r (KReceipt v)"
    by (simp add: r' r8o r5k r4_def inode_def r2_def r1_def live_def st renameKey_def)
  have r4o: "r4 (KInode j) = r (KInode j)" if "j \<noteq> pa_inode a" for j
    using that by (simp add: r4_def inode_def r2_def r1_def live_def st renameKey_def)
  show "hget r' (KInode j) f = hget r (KInode j) f" if "j \<noteq> pa_inode a" "f \<notin> {''mtime_ms'', ''ctime_ms''}"
  proof -
    have "hget r' (KInode j) f = hget r5 (KInode j) f" by (simp add: hget_def hashAt_def r' r8o)
    also have "\<dots> = hget r4 (KInode j) f"
    proof (cases "j = pa_parent a \<and> pa_create a")
      case True
      moreover have "hashAt rf (KInode j) = hashAt r4 (KInode j)" by (rule hashAt_cong) (simp add: rfo rl_def)
      ultimately show ?thesis using that(2) by (simp add: r5_def hget_def)
    next
      case False
      then have "r5 (KInode j) = r4 (KInode j)" by (auto simp: r5_def rfo rl_def)
      then show ?thesis by (simp add: hget_def hashAt_def)
    qed
    also have "\<dots> = hget r (KInode j) f" using r4o [OF that(1)] by (simp add: hget_def hashAt_def)
    finally show ?thesis .
  qed
  show "r' (KInode j) = r (KInode j)" if "j \<noteq> pa_inode a" "j \<noteq> pa_parent a \<or> \<not> pa_create a"
    using that r4o by (auto simp: r' r8o r5_def rfo rl_def)
  show "j \<noteq> pa_inode a \<Longrightarrow> r' (KContent j) = r (KContent j)"
    by (simp add: r' r8o r5k r4_def inode_def r2_def r1_def live_def st renameKey_def)
  show "r' k = r k" if "k \<in> {KGeneration} \<union> range KSession"
    using that by (auto simp: r' r8o r5k r4_def inode_def r2_def r1_def live_def st renameKey_def)
qed


text \<open>A workspace with one file, and a publication that replaces it.\<close>

definition exampleStore :: redis where
  "exampleStore = [KInode ''1'' \<mapsto> RHash [''type'' \<mapsto> ''dir''],
     KInode ''2'' \<mapsto> RHash [''type'' \<mapsto> ''file'', ''revision'' \<mapsto> ''r1'', ''size'' \<mapsto> ''1''],
     KDirents ''1'' \<mapsto> RHash [''a'' \<mapsto> ''2''], KContent ''2'' \<mapsto> RString ''x'',
     KInfo \<mapsto> RHash [''files'' \<mapsto> ''1'', ''total_data_bytes'' \<mapsto> ''1''], KStage ''2'' ''t'' \<mapsto> RString ''yz'']"

definition exampleArgs :: publish_args where
  "exampleArgs = \<lparr>pa_inode = ''2'', pa_name = ''a'', pa_parent = ''1'', pa_stage = KStage ''2'' ''t'',
     pa_lease = KGeneration, pa_expected = ''r1'', pa_revision = ''r2'', pa_create = False, pa_mtime = ''7'',
     pa_generation = [], pa_size = 2, pa_payload = [], pa_digest = ''d'',
     pa_fields = [(''size'', ''2''), (''type'', ''file'')]\<rparr>"

lemmas example_eval = publishCode_def malformed_def smallInt_def hgetOr_def hget_def hashAt_def luaLimit_def
  isHashOrNone_def isSetOrNone_def isStreamOrNone_def generationOk_def leaseOk_def exampleStore_def

lemma decimal_digit: "decimal ''1'' = Some 1"
  by (simp add: decimal_def natVal_def digitVal_def)

lemma example_commits:
  assumes "pa_inode a = ''2''" "pa_name a = ''a''" "pa_parent a = ''1''" "pa_stage a = KStage ''2'' ''t''"
    "pa_lease a = KGeneration" "pa_expected a = ''r1''" "pa_revision a = ''r2''" "\<not> pa_create a"
    "pa_generation a = []" "pa_size a = 2"
  shows "publishCode a exampleStore = 1"
  using assms by (simp add: example_eval decimal_digit Let_def)


subsection \<open>The client side of a publication\<close>

record inode_data =
  in_revision :: string
  in_id :: string
  in_parent :: string
  in_name :: string
  in_type :: string
  in_mode :: u32
  in_uid :: u32
  in_gid :: u32
  in_size :: int
  in_ctimeMs :: int
  in_mtimeMs :: int
  in_atimeMs :: int
  in_target :: string
  in_content :: bytes
  in_contentRef :: string

text \<open>\<open>strconv.FormatUint\<close> and \<open>strconv.ParseUint\<close>, whose error is ignored: out of range gives the maximum.\<close>

definition formatUint :: "u64 \<Rightarrow> string" where
  "formatUint n = natDigits (unat n)"

definition inodeUint64 :: "string \<Rightarrow> u64" where
  "inodeUint64 s = (case natVal s of None \<Rightarrow> 0 | Some n \<Rightarrow> if n < 2 ^ 64 then of_nat n else - 1)"

lemma inodeUint64_formatUint [simp]: "inodeUint64 (formatUint n) = n"
proof -
  have "unat n < 2 ^ 64" using unsigned_less [of n] by simp
  then show ?thesis by (simp add: inodeUint64_def formatUint_def)
qed

definition checkExpectedParent :: "write_context \<Rightarrow> path \<Rightarrow> string \<Rightarrow> client_err option" where
  "checkExpectedParent c child parentID =
     (if wc_parents c = [] then None
      else case map_of (wc_parents c) (dirOf (normalizePath child)) of
             None \<Rightarrow> Some CWriteConflict
           | Some e \<Rightarrow> if e = 0 \<or> formatUint e \<noteq> parentID then Some CWriteConflict else None)"

definition checkWriteCondition :: "write_context \<Rightarrow> inode_data \<Rightarrow> bool \<Rightarrow> client_err option" where
  "checkWriteCondition c inode creating =
     (case wc_expected c of
        None \<Rightarrow> None
      | Some None \<Rightarrow> if creating then None else Some CWriteConflict
      | Some (Some st) \<Rightarrow>
          if creating \<or> st_inode st \<noteq> inodeUint64 (in_id inode) \<or> st_revision st \<noteq> in_revision inode
          then Some CWriteConflict else None)"

text \<open>Field maps are association lists; a later write of the same field replaces it.\<close>

definition mergeFieldMaps :: "(string \<times> string) list \<Rightarrow> (string \<times> string) list \<Rightarrow> (string \<times> string) list" where
  "mergeFieldMaps xs ys = fold (\<lambda>(k, v). AList.update k v) ys xs"

definition isExternalContentRef :: "string \<Rightarrow> bool" where
  "isExternalContentRef ref \<longleftrightarrow> trimSpace ref \<in> {''ext'', ''array''}"

definition inodeFields :: "inode_data \<Rightarrow> bool \<Rightarrow> (string \<times> string) list" where
  "inodeFields i includeContent =
     [(''type'', in_type i), (''mode'', natDigits (unat (in_mode i))), (''uid'', natDigits (unat (in_uid i))),
      (''gid'', natDigits (unat (in_gid i))), (''size'', intText (in_size i)), (''ctime_ms'', intText (in_ctimeMs i)),
      (''mtime_ms'', intText (in_mtimeMs i)), (''atime_ms'', intText (in_atimeMs i)),
      (''parent'', in_parent i), (''name'', in_name i)]
     @ (if in_type i = ''symlink'' then [(''target'', in_target i)] else [])
     @ (if in_contentRef i \<noteq> [] then [(''content_ref'', in_contentRef i)] else [])
     @ (if includeContent \<and> in_type i = ''file'' \<and> \<not> isExternalContentRef (in_contentRef i)
        then [(''content'', in_content i)] else [])"

text \<open>The prefixes \<open>/a\<close>, \<open>/a/b\<close>, \<dots> of a path, joined by commas.\<close>

definition indexedPathAncestors :: "path \<Rightarrow> string" where
  "indexedPathAncestors p =
     (let t = trimSpace p in
      if t = [] \<or> t = ''/'' then ''/''
      else let parts = filter (\<lambda>x. x \<noteq> []) (splitByte CHR ''/'' (trimPrefix (trimSuffix t ''/'') ''/''));
               ancestors = map (\<lambda>n. concat (map (\<lambda>x. CHR ''/'' # x) (take (Suc n) parts))) [0..<length parts]
           in if ancestors = [] then ''/'' else joinStr '','' ancestors)"

definition inodeFieldsAtPath :: "inode_data \<Rightarrow> path \<Rightarrow> bool \<Rightarrow> (string \<times> string) list" where
  "inodeFieldsAtPath i p includeContent =
     mergeFieldMaps (inodeFields i includeContent) [(''path'', p), (''path_ancestors'', indexedPathAncestors p)]"

text \<open>
  One try of a script: what other clients did to the store before it, and its fate.  \<open>Lost e\<close> is a
  broken connection, after the script ran (\<open>e\<close>) or before, which go-redis answers with another try
  of the same arguments; a transaction that \<open>WATCH\<close> aborted is \<open>Lost False\<close> too.
\<close>

datatype fate = Lost bool | Delivered

type_synonym script_try = "(redis \<Rightarrow> redis) \<times> fate"

text \<open>The path of a bound directory still leads to its inode: \<open>watchExpectedParents\<close>.\<close>

definition splitComponents :: "path \<Rightarrow> string list" where
  "splitComponents p = (if p = ''/'' then [] else splitByte CHR ''/'' (trimPrefix p ''/''))"

fun resolveDir :: "redis \<Rightarrow> string \<Rightarrow> string list \<Rightarrow> string option" where
  "resolveDir r d [] = Some d"
| "resolveDir r d (x # xs) = (case hget r (KDirents d) x of None \<Rightarrow> None | Some c \<Rightarrow> resolveDir r c xs)"

definition watchExpectedParents :: "write_context \<Rightarrow> redis \<Rightarrow> client_err option" where
  "watchExpectedParents c r =
     (if \<exists>(p, e) \<in> set (AList.clearjunk (wc_parents c)).
           e = 0 \<or> resolveDir r ''1'' (splitComponents p) \<noteq> Some (formatUint e)
      then Some CWriteConflict else None)"

text \<open>The guards of \<open>retryWatch\<close>, which run in the same transaction as the script.\<close>

definition watchGuard :: "write_context \<Rightarrow> redis \<Rightarrow> client_err option" where
  "watchGuard c r =
     (if wc_parents c = [] then None
      else if wc_lease c \<noteq> [] \<and> r (KSession (wc_lease c)) = None then Some (COther ''native session lost'')
      else if \<not> generationOk (wc_generation c) r then Some (COther ''workspace was restored or deleted; remount required'')
      else watchExpectedParents c r)"

text \<open>The result, the codes of the runs of the script (which no code reads), and the store.\<close>

fun runTries ::
    "(redis \<Rightarrow> client_err option) \<Rightarrow> (redis \<Rightarrow> int \<times> redis) \<Rightarrow> script_try list \<Rightarrow> redis
     \<Rightarrow> (client_err + int) \<times> int list \<times> redis" where
  "runTries guard script [] r = (Inl (COther ''connection lost''), [], r)"
| "runTries guard script ((peers, f) # ts) r0 =
     (let r = peers r0 in
      case guard r of
        Some e \<Rightarrow> (Inl e, [], r)
      | None \<Rightarrow>
          (let (c, r1) = script r in
           case f of
             Delivered \<Rightarrow> (Inr c, [c], r1)
           | Lost ran_it \<Rightarrow>
               (let (res, cs, r2) = runTries guard script ts (if ran_it then r1 else r)
                in (res, (if ran_it then c # cs else cs), r2))))"

definition runMutationScript ::
    "write_context \<Rightarrow> (redis \<Rightarrow> int \<times> redis) \<Rightarrow> script_try list \<Rightarrow> redis \<Rightarrow> (client_err + int) \<times> int list \<times> redis" where
  "runMutationScript c = runTries (watchGuard c)"

definition publishErr :: "int \<Rightarrow> client_err option" where
  "publishErr c =
     (if c = -1 then Some CWriteConflict
      else if c = -2 then Some (COther ''workspace was restored or deleted; remount required'')
      else if c = -3 then Some (COther ''staged file expired before publication'')
      else if c = -4 then Some (COther ''workspace change journal has wrong Redis type'')
      else if c = -5 then Some (COther ''native session lost'')
      else if c = -6 then Some (COther ''publication operation ID reused with a different request'')
      else None)"

text \<open>
  What one publication draws from outside: the fresh revision, the notification text, the digest of
  the request, the tries of the script, and what happens before and at the read of the receipt.
\<close>

record publish_env =
  pv_revision :: string
  pv_payload :: string
  pv_digest :: "publish_args \<Rightarrow> string"
  pv_stale :: "(string \<times> string) list"
  pv_tries :: "script_try list"
  pv_after :: "redis \<Rightarrow> redis"
  pv_receiptRead :: bool

definition leaseGuardKey :: "write_context \<Rightarrow> rkey" where
  "leaseGuardKey c = (if wc_lease c \<noteq> [] then KSession (wc_lease c) else KGeneration)"

definition publishArgs ::
    "publish_env \<Rightarrow> write_context \<Rightarrow> path \<Rightarrow> inode_data \<Rightarrow> rkey \<Rightarrow> bool \<Rightarrow> (string \<times> string) list \<Rightarrow> publish_args" where
  "publishArgs env c p inode stage creating extra =
     (let i = (case wc_mode c of None \<Rightarrow> inode | Some m \<Rightarrow> inode\<lparr>in_mode := m\<rparr>);
          fields = mergeFieldMaps (mergeFieldMaps (inodeFieldsAtPath i p False) (pv_stale env)) extra;
          a = \<lparr>pa_inode = in_id i, pa_name = in_name i, pa_parent = in_parent i, pa_stage = stage,
               pa_lease = leaseGuardKey c, pa_expected = in_revision i, pa_revision = pv_revision env,
               pa_create = creating, pa_mtime = intText (in_mtimeMs i), pa_generation = wc_generation c,
               pa_size = in_size i, pa_payload = pv_payload env, pa_digest = [],
               pa_fields = sortBy (\<lambda>x y. fst x < fst y) fields\<rparr>
      in a\<lparr>pa_digest := pv_digest env a\<rparr>)"

text \<open>
  \<open>publishStagedFile\<close>, from the checks to the result; \<open>extra\<close> holds the search fields already.
  A lost reply is resolved from the receipt of the operation.
\<close>

definition publishStagedFile ::
    "publish_env \<Rightarrow> write_context \<Rightarrow> path \<Rightarrow> inode_data \<Rightarrow> rkey \<Rightarrow> bool \<Rightarrow> (string \<times> string) list \<Rightarrow> redis
     \<Rightarrow> client_err option \<times> int list \<times> redis" where
  "publishStagedFile env c p inode stage creating extra r =
     (case checkExpectedParent c p (in_parent inode) of Some e \<Rightarrow> (Some e, [], r) | None \<Rightarrow>
      case checkWriteCondition c inode creating of Some e \<Rightarrow> (Some e, [], r) | None \<Rightarrow>
      (let a = publishArgs env c p inode stage creating extra;
           (res, cs, r1) = runMutationScript c (publishFileScript a) (pv_tries env) r
       in case res of
            Inr code \<Rightarrow> (publishErr code, cs, r1)
          | Inl e \<Rightarrow>
              (let r2 = pv_after env r1 in
               (if pv_receiptRead env \<and> r2 (KReceipt (pa_revision a)) = Some (RString (pa_digest a))
                then None else Some e, cs, r2))))"

text \<open>Other clients do not use the revision, and leave the receipt of the operation alone.\<close>

definition honest :: "string \<Rightarrow> (redis \<Rightarrow> redis) \<Rightarrow> bool" where
  "honest rv g \<longleftrightarrow>
     (\<forall>r. g r (KReceipt rv) = r (KReceipt rv)
        \<and> ((\<forall>i. hget r (KInode i) ''revision'' \<noteq> Some rv) \<longrightarrow> (\<forall>i. hget (g r) (KInode i) ''revision'' \<noteq> Some rv)))"

definition unused :: "string \<Rightarrow> redis \<Rightarrow> bool" where
  "unused rv r \<longleftrightarrow> rv \<noteq> [] \<and> r (KReceipt rv) = None \<and> (\<forall>i. hget r (KInode i) ''revision'' \<noteq> Some rv)"

lemma honest_unused: "honest rv g \<Longrightarrow> unused rv r \<Longrightarrow> unused rv (g r)"
  by (simp add: honest_def unused_def)

lemma publish_receipt:
  "r (KReceipt (pa_revision a)) = Some (RString (pa_digest a)) \<Longrightarrow> publishFileScript a r = (2, r)"
  by (simp add: publishFileScript_def publishCode_def)

lemma publish_unused:
  assumes "unused (pa_revision a) r"
  shows "publishCode a r \<noteq> 2 \<and> publishCode a r \<noteq> 0 \<and> (publishCode a r = 1 \<longrightarrow> publishErr (publishCode a r) = None)
    \<and> (publishCode a r \<noteq> 1 \<longrightarrow> publishErr (publishCode a r) \<noteq> None)"
proof -
  have "hgetOr r (KInode (pa_inode a)) ''revision'' [] \<noteq> pa_revision a"
    using assms by (auto simp: unused_def hgetOr_def split: option.splits)
  then have "publishCode a r \<in> {1, -1, -2, -3, -4, -5}"
    using assms by (auto simp: publishCode_def Let_def unused_def)
  then show ?thesis by (auto simp: publishErr_def)
qed

lemma publish_commits:
  "publishCode a r = 1 \<Longrightarrow> publishEffect a r (KReceipt (pa_revision a)) = Some (RString (pa_digest a))"
  by (simp add: publishEffect_def Let_def)

text \<open>Once the receipt is there, tries change nothing and report success or a transport error.\<close>

lemma runTries_done:
  assumes "list_all (\<lambda>(g, _). honest (pa_revision a) g) ts"
    and "r (KReceipt (pa_revision a)) = Some (RString (pa_digest a))"
    and "runTries guard (publishFileScript a) ts r = (res, cs, r')"
  shows "1 \<notin> set cs \<and> (\<forall>c. res = Inr c \<longrightarrow> c = 2) \<and> r' (KReceipt (pa_revision a)) = Some (RString (pa_digest a))"
  using assms
proof (induction ts arbitrary: r res cs r')
  case (Cons x ts)
  obtain g f where x: "x = (g, f)" by force
  have p: "publishFileScript a (g r) = (2, g r)" "g r (KReceipt (pa_revision a)) = Some (RString (pa_digest a))"
    using Cons.prems(1,2) by (auto simp: x honest_def intro!: publish_receipt)
  show ?case
  proof (cases "guard (g r)")
    case None
    show ?thesis
    proof (cases f)
      case (Lost b)
      obtain res1 cs1 r1 where i: "runTries guard (publishFileScript a) ts (g r) = (res1, cs1, r1)"
        by (metis prod_cases3)
      have "1 \<notin> set cs1 \<and> (\<forall>c. res1 = Inr c \<longrightarrow> c = 2) \<and> r1 (KReceipt (pa_revision a)) = Some (RString (pa_digest a))"
        by (rule Cons.IH [OF _ p(2) i]) (use Cons.prems(1) in \<open>simp add: x\<close>)
      with Cons.prems(3) None Lost i p show ?thesis by (auto simp: x split: if_splits)
    qed (use Cons.prems(3) None p in \<open>auto simp: x\<close>)
  qed (use Cons.prems(3) p in \<open>auto simp: x Let_def\<close>)
qed auto

lemma runTries_once:
  assumes "list_all (\<lambda>(g, _). honest (pa_revision a) g) ts" and "unused (pa_revision a) r"
    and "runTries guard (publishFileScript a) ts r = (res, cs, r')"
  shows "count_list cs 1 \<le> 1
    \<and> (\<forall>c. res = Inr c \<longrightarrow> (publishErr c = None \<longleftrightarrow> 1 \<in> set cs))
    \<and> (if 1 \<in> set cs then r' (KReceipt (pa_revision a)) = Some (RString (pa_digest a))
       else r' (KReceipt (pa_revision a)) = None)"
  using assms
proof (induction ts arbitrary: r res cs r')
  case Nil
  then show ?case by (auto simp: unused_def)
next
  case (Cons x ts)
  obtain g f where x: "x = (g, f)" by force
  have u: "unused (pa_revision a) (g r)" and hs: "list_all (\<lambda>(g, _). honest (pa_revision a) g) ts"
    using Cons.prems(1,2) honest_unused by (auto simp: x)
  show ?case
  proof (cases "guard (g r)")
    case (Some e)
    with Cons.prems(3) u show ?thesis by (auto simp: x Let_def unused_def)
  next
    case None
    obtain c r1 where s: "publishFileScript a (g r) = (c, r1)" by force
    then have c: "c = publishCode a (g r)" "r1 = (if c = 1 then publishEffect a (g r) else g r)"
      by (auto simp: publishFileScript_def Let_def)
    note un = publish_unused [OF u]
    show ?thesis
    proof (cases f)
      case Delivered
      with Cons.prems(3) None s c un publish_commits [of a "g r"] u show ?thesis
        by (auto simp: x Let_def unused_def)
    next
      case (Lost b)
      define r2 where "r2 = (if b then r1 else g r)"
      obtain res1 cs1 r3 where i: "runTries guard (publishFileScript a) ts r2 = (res1, cs1, r3)"
        by (metis prod_cases3)
      have out: "res = res1" "cs = (if b then c # cs1 else cs1)" "r' = r3"
        using Cons.prems(3) None Lost s i by (auto simp: x r2_def Let_def split: if_splits)
      show ?thesis
      proof (cases "b \<and> c = 1")
        case True
        then have "r2 (KReceipt (pa_revision a)) = Some (RString (pa_digest a))"
          using c publish_commits by (simp add: r2_def)
        from runTries_done [OF hs this i] True out show ?thesis
          by (auto simp: publishErr_def count_list_0_iff)
      next
        case False
        then have "r2 = g r" using c by (auto simp: r2_def)
        with Cons.IH [OF hs _ i] u have "count_list cs1 1 \<le> 1
          \<and> (\<forall>c. res1 = Inr c \<longrightarrow> (publishErr c = None \<longleftrightarrow> 1 \<in> set cs1))
          \<and> (if 1 \<in> set cs1 then r3 (KReceipt (pa_revision a)) = Some (RString (pa_digest a))
             else r3 (KReceipt (pa_revision a)) = None)" by simp
        with False out show ?thesis by auto
      qed
    qed
  qed
qed


definition exampleInode :: inode_data where
  "exampleInode = \<lparr>in_revision = ''r1'', in_id = ''2'', in_parent = ''1'', in_name = ''a'', in_type = ''file'', in_mode = 420,
     in_uid = 0, in_gid = 0, in_size = 2, in_ctimeMs = 0, in_mtimeMs = 7, in_atimeMs = 0, in_target = [],
     in_content = [], in_contentRef = ''ext''\<rparr>"

definition examplePublish :: publish_env where
  "examplePublish = \<lparr>pv_revision = ''r2'', pv_payload = [], pv_digest = \<lambda>_. ''d'', pv_stale = [],
     pv_tries = [(id, Lost True), (id, Delivered)], pv_after = id, pv_receiptRead = True\<rparr>"


end
