(* ===== verification/PublicationHistory.thy ===== *)
theory PublicationHistory
  imports Publication
begin

text \<open>
  The other two scripts of \<open>mount/internal/client/publication.go\<close>, the bookkeeping that all three
  keep, and what their revisions are good for: a revision is never used twice, so it names one
  published state of a file.  \<open>ReadFileSnapshot\<close> and conditional uploads rest on that.
\<close>

subsection \<open>Deleting an inode\<close>

record delete_args =
  da_inode :: string
  da_name :: string
  da_parent :: string
  da_expected :: string
  da_generation :: string
  da_lease :: rkey
  da_now :: string
  da_payload :: string

text \<open>The code before anything is changed; 1 goes on, \<open>None\<close> is a runtime error.\<close>

definition deleteCode :: "delete_args \<Rightarrow> redis \<Rightarrow> int option" where
  "deleteCode a r =
     (let inode = KInode (da_inode a); linked = hget r (KDirents (da_parent a)) (da_name a) in
      if \<not> generationOk (da_generation a) r then Some (-2)
      else if \<not> leaseOk (da_lease a) r then Some (-5)
      else if \<not> isSetOrNone r KDirtySet then Some (-4)
      else if \<not> isStreamOrNone r KChanges then Some (-4)
      else if \<not> isHashOrNone r (KDirents (da_parent a)) then None
      else if linked = None \<and> r inode = None then Some 2
      else if linked \<noteq> Some (da_inode a) then Some (-1)
      else if \<not> isHashOrNone r inode then None
      else if hgetOr r inode ''revision'' [] \<noteq> da_expected a then Some (-1)
      else if hget r inode ''type'' = Some ''dir'' \<and> \<not> isHashOrNone r (KDirents (da_inode a)) then None
      else if hget r inode ''type'' = Some ''dir''
        \<and> (\<exists>c \<in> ran (hashAt r (KDirents (da_inode a))). r (KInode c) \<noteq> None) then Some (-3)
      else Some 1)"

definition kindCounter :: "string option \<Rightarrow> string" where
  "kindCounter kind = (if kind = Some ''dir'' then ''directories'' else if kind = Some ''symlink'' then ''symlinks'' else ''files'')"

text \<open>
  The changes of a delete.  Nothing was checked about the counters: a malformed one stops the script
  when the inode is gone already.
\<close>

definition deleteEffect :: "delete_args \<Rightarrow> redis \<Rightarrow> int option \<times> redis" where
  "deleteEffect a r =
     (let kind = hget r (KInode (da_inode a)) ''type''; size = decimal (hgetOr r (KInode (da_inode a)) ''size'' ''0'');
          r1 = r(KInode (da_inode a) := None, KContent (da_inode a) := None, KDirents (da_inode a) := None);
          r2 = hdel (KDirents (da_parent a)) (da_name a) r1
      in if \<not> isHashOrNone r2 (KInode (da_parent a)) then (None, r2)
         else let r3 = hset (KInode (da_parent a)) ''ctime_ms'' (da_now a) (hset (KInode (da_parent a)) ''mtime_ms'' (da_now a) r2) in
         case hincrby KInfo (kindCounter kind) (-1) r3 of None \<Rightarrow> (None, r3) | Some r4 \<Rightarrow>
         case (if kind \<noteq> Some ''file'' then Some r4
               else case size of None \<Rightarrow> None
                  | Some n \<Rightarrow> if 0 < n then hincrby KInfo ''total_data_bytes'' (- n) r4 else Some r4) of
           None \<Rightarrow> (None, r4)
         | Some r5 \<Rightarrow>
             (let r6 = sadd KDirtySet (da_inode a) (r5(KRootDirty \<mapsto> RString ''1''))
              in (Some 1, if da_payload a \<noteq> [] then xadd KChanges (da_payload a) r6 else r6)))"

definition deleteInodeScript :: "delete_args \<Rightarrow> redis \<Rightarrow> int option \<times> redis" where
  "deleteInodeScript a r = (if deleteCode a r = Some 1 then deleteEffect a r else (deleteCode a r, r))"

definition deleteErr :: "int \<Rightarrow> client_err option" where
  "deleteErr c =
     (if c = -1 then Some CWriteConflict
      else if c = -2 then Some (COther ''workspace was restored or deleted; remount required'')
      else if c = -3 then Some (COther ''directory not empty'')
      else if c = -4 then Some (COther ''workspace change journal has wrong Redis type'')
      else if c = -5 then Some (COther ''native session lost'')
      else None)"

text \<open>\<open>deletePublishedInode\<close> with the store in which its script runs.\<close>

definition deletePublishedInode ::
    "string \<Rightarrow> string \<Rightarrow> write_context \<Rightarrow> path \<Rightarrow> inode_data \<Rightarrow> redis \<Rightarrow> client_err option \<times> redis" where
  "deletePublishedInode now payload c p inode r =
     (case checkExpectedParent c p (in_parent inode) of Some e \<Rightarrow> (Some e, r) | None \<Rightarrow>
      case checkWriteCondition c inode False of Some e \<Rightarrow> (Some e, r) | None \<Rightarrow>
      case watchGuard c r of Some e \<Rightarrow> (Some e, r) | None \<Rightarrow>
      (case deleteInodeScript \<lparr>da_inode = in_id inode, da_name = in_name inode, da_parent = in_parent inode,
              da_expected = in_revision inode, da_generation = wc_generation c, da_lease = leaseGuardKey c,
              da_now = now, da_payload = payload\<rparr> r of
         (None, r') \<Rightarrow> (Some (COther ''script error''), r')
       | (Some code, r') \<Rightarrow> (deleteErr code, r')))"

subsection \<open>Updating the metadata of an inode\<close>

record update_args =
  ua_inode :: string
  ua_name :: string
  ua_parent :: string
  ua_expected :: string
  ua_generation :: string
  ua_lease :: rkey
  ua_revision :: string
  ua_payload :: string
  ua_fields :: "(string \<times> string) list"

definition updateCode :: "update_args \<Rightarrow> redis \<Rightarrow> int option" where
  "updateCode a r =
     (let inode = KInode (ua_inode a); current = hgetOr r inode ''revision'' [] in
      if \<not> generationOk (ua_generation a) r then Some (-2)
      else if \<not> leaseOk (ua_lease a) r then Some (-5)
      else if \<not> isStreamOrNone r KChanges then Some (-4)
      else if \<not> isHashOrNone r inode then None
      else if current = ua_revision a then Some 2
      else if r inode = None then Some (-1)
      else if ua_inode a \<noteq> ''1'' \<and> \<not> isHashOrNone r (KDirents (ua_parent a)) then None
      else if ua_inode a \<noteq> ''1'' \<and> hget r (KDirents (ua_parent a)) (ua_name a) \<noteq> Some (ua_inode a) then Some (-1)
      else if current \<noteq> ua_expected a then Some (-1)
      else Some 1)"

definition updateInodeScript :: "update_args \<Rightarrow> redis \<Rightarrow> int option \<times> redis" where
  "updateInodeScript a r =
     (if updateCode a r = Some 1
      then let r1 = (hset (KInode (ua_inode a)) ''revision'' (ua_revision a)
                       (hsetAll (KInode (ua_inode a)) (ua_fields a) r))(KRootDirty \<mapsto> RString ''1'')
           in (Some 1, if ua_payload a \<noteq> [] then xadd KChanges (ua_payload a) r1 else r1)
      else (updateCode a r, r))"

definition updatePublishedInode ::
    "string \<Rightarrow> string \<Rightarrow> write_context \<Rightarrow> path \<Rightarrow> inode_data \<Rightarrow> (string \<times> string) list \<Rightarrow> redis
     \<Rightarrow> client_err option \<times> redis" where
  "updatePublishedInode revision payload c p inode fvs r =
     (case checkExpectedParent c p (in_parent inode) of Some e \<Rightarrow> (Some e, r) | None \<Rightarrow>
      case checkWriteCondition c inode False of Some e \<Rightarrow> (Some e, r) | None \<Rightarrow>
      case watchGuard c r of Some e \<Rightarrow> (Some e, r) | None \<Rightarrow>
      (case updateInodeScript \<lparr>ua_inode = in_id inode, ua_name = in_name inode, ua_parent = in_parent inode,
              ua_expected = in_revision inode, ua_generation = wc_generation c, ua_lease = leaseGuardKey c,
              ua_revision = revision, ua_payload = payload, ua_fields = sortBy (\<lambda>x y. fst x < fst y) fvs\<rparr> r of
         (None, r') \<Rightarrow> (Some (COther ''script error''), r')
       | (Some code, r') \<Rightarrow> (deleteErr code, r')))"

subsection \<open>Runs of the store\<close>

text \<open>
  The steps of all clients, one script at a time.  A step that needs a revision draws one that was
  never seen, as \<open>newOriginID\<close> does with 128 random bits; a step drawing a used one is not taken.
  Directories are parents, files are not.  \<open>SQuiet\<close> stands for everything that touches neither
  inodes nor contents: staging, receipts, expiry, sessions.
\<close>

datatype pub_step = SPublish publish_args | SDelete delete_args | SUpdate update_args | SQuiet "redis \<Rightarrow> redis"

definition notFile :: "redis \<Rightarrow> string \<Rightarrow> bool" where
  "notFile r i \<longleftrightarrow> hget r (KInode i) ''type'' \<noteq> Some ''file''"

definition quiet :: "(redis \<Rightarrow> redis) \<Rightarrow> redis \<Rightarrow> bool" where
  "quiet g r \<longleftrightarrow> (\<forall>i. g r (KInode i) = r (KInode i) \<and> g r (KContent i) = r (KContent i))"

definition runStep :: "pub_step \<Rightarrow> redis \<times> string set \<Rightarrow> redis \<times> string set" where
  "runStep s st =
     (let (r, seen) = st in
      case s of
        SPublish a \<Rightarrow>
          (if pa_revision a \<notin> seen \<and> notFile r (pa_parent a) \<and> pa_parent a \<noteq> pa_inode a
              \<and> (\<exists>tok. pa_stage a = KStage (pa_inode a) tok)
           then (snd (publishFileScript a r), insert (pa_revision a) seen) else st)
      | SDelete a \<Rightarrow>
          (if notFile r (da_parent a) \<and> da_parent a \<noteq> da_inode a then (snd (deleteInodeScript a r), seen) else st)
      | SUpdate a \<Rightarrow>
          (if ua_revision a \<notin> seen then (snd (updateInodeScript a r), insert (ua_revision a) seen) else st)
      | SQuiet g \<Rightarrow> (if quiet g r then (g r, seen) else st))"

definition revisions :: "redis \<Rightarrow> string set" where
  "revisions r = {v. \<exists>i. hget r (KInode i) ''revision'' = Some v}"

fun stateAt :: "redis \<Rightarrow> (nat \<Rightarrow> pub_step) \<Rightarrow> nat \<Rightarrow> redis \<times> string set" where
  "stateAt r0 steps 0 = (r0, revisions r0)"
| "stateAt r0 steps (Suc t) = runStep (steps t) (stateAt r0 steps t)"

abbreviation storeAt :: "redis \<Rightarrow> (nat \<Rightarrow> pub_step) \<Rightarrow> nat \<Rightarrow> redis" where
  "storeAt r0 steps t \<equiv> fst (stateAt r0 steps t)"

text \<open>What \<open>Stat\<close> and \<open>Cat\<close> read of an inode; content lives in its content key.\<close>

definition statOf :: "redis \<Rightarrow> string \<Rightarrow> stat_result" where
  "statOf r i = \<lparr>st_revision = hgetOr r (KInode i) ''revision'' [], st_inode = inodeUint64 i,
     st_type = hgetOr r (KInode i) ''type'' [],
     st_mode = of_nat (case natVal (hgetOr r (KInode i) ''mode'' []) of None \<Rightarrow> 0 | Some n \<Rightarrow> n),
     st_size = (case decimal (hgetOr r (KInode i) ''size'' []) of None \<Rightarrow> 0 | Some n \<Rightarrow> n),
     st_mtime = (case decimal (hgetOr r (KInode i) ''mtime_ms'' []) of None \<Rightarrow> 0 | Some n \<Rightarrow> n)\<rparr>"

definition contentOf :: "redis \<Rightarrow> string \<Rightarrow> bytes" where
  "contentOf r i = (case r (KContent i) of Some (RString b) \<Rightarrow> b | Some (RArray b) \<Rightarrow> b | _ \<Rightarrow> [])"

definition fileAt :: "redis \<Rightarrow> string \<Rightarrow> (stat_result \<times> bytes) option" where
  "fileAt r i = (if r (KInode i) = None then None else Some (statOf r i, contentOf r i))"

subsection \<open>One step and one inode\<close>

text \<open>
  A step leaves an inode as it was (up to the times of a directory), removes it, or gives it a
  revision that was never seen.
\<close>

definition keepsFile :: "string \<Rightarrow> redis \<Rightarrow> redis \<Rightarrow> bool" where
  "keepsFile i r r' \<longleftrightarrow> hget r' (KInode i) ''revision'' = hget r (KInode i) ''revision''
     \<and> (\<not> notFile r i \<longrightarrow> fileAt r' i = fileAt r i \<and> \<not> notFile r' i)"

lemma hget_cong: "r k = r' k \<Longrightarrow> hget r k f = hget r' k f"
  by (simp add: hget_def hashAt_def)

lemma keepsFile_same:
  assumes "r' (KInode i) = r (KInode i)" and "r' (KContent i) = r (KContent i)"
  shows "keepsFile i r r'"
proof -
  have "hget r' (KInode i) f = hget r (KInode i) f" for f using assms(1) by (rule hget_cong)
  then show ?thesis using assms
    by (simp add: keepsFile_def notFile_def fileAt_def statOf_def contentOf_def hgetOr_def)
qed

lemma publish_keeps:
  assumes "pa_stage a = KStage (pa_inode a) tok" and "pa_parent a \<noteq> pa_inode a" and "notFile r (pa_parent a)"
  shows "(i \<noteq> pa_inode a \<longrightarrow> keepsFile i r (snd (publishFileScript a r)))
    \<and> (i = pa_inode a \<longrightarrow> snd (publishFileScript a r) = r
        \<or> hget (snd (publishFileScript a r)) (KInode i) ''revision'' = Some (pa_revision a))"
proof (cases "publishCode a r = 1")
  case True
  note st = publishEffect_store [OF True assms(1,2)]
  have p: "snd (publishFileScript a r) = publishEffect a r" using True by (simp add: publishFileScript_def)
  have "keepsFile i r (publishEffect a r)" if i: "i \<noteq> pa_inode a"
  proof (cases "i = pa_parent a \<and> pa_create a")
    case False
    then show ?thesis using st(11,12) [of i] i by (auto intro: keepsFile_same)
  next
    case parent: True
    then show ?thesis using st(10) [OF i, of "''revision''"] assms(3) by (simp add: keepsFile_def)
  qed
  with p st(1) show ?thesis by (simp add: hget_def)
qed (simp add: publishFileScript_def keepsFile_same)

lemma isHashOrNone_hset [simp]: "isHashOrNone (hset k f v r) k"
  by (simp add: isHashOrNone_def hset_def)

lemma deleteEffect_keeps:
  assumes "da_parent a \<noteq> da_inode a" and "notFile r (da_parent a)"
  shows "(i \<noteq> da_inode a \<longrightarrow> keepsFile i r (snd (deleteEffect a r)))
    \<and> (i = da_inode a \<longrightarrow> snd (deleteEffect a r) (KInode i) = None)"
proof -
  define r1 where "r1 = r(KInode (da_inode a) := None, KContent (da_inode a) := None, KDirents (da_inode a) := None)"
  define r2 where "r2 = hdel (KDirents (da_parent a)) (da_name a) r1"
  define r3 where "r3 = hset (KInode (da_parent a)) ''ctime_ms'' (da_now a) (hset (KInode (da_parent a)) ''mtime_ms'' (da_now a) r2)"
  have cases: "snd (deleteEffect a r) = r2 \<or> (\<forall>k. k \<notin> {KInfo, KDirtySet, KRootDirty, KChanges} \<longrightarrow> snd (deleteEffect a r) k = r3 k)"
  proof (cases "isHashOrNone r2 (KInode (da_parent a))")
    case True
    define kind where "kind = hget r (KInode (da_inode a)) ''type''"
    define total where "total r4 = (if kind \<noteq> Some ''file'' then Some r4
               else case decimal (hgetOr r (KInode (da_inode a)) ''size'' ''0'') of None \<Rightarrow> None
                  | Some n \<Rightarrow> if 0 < n then hincrby KInfo ''total_data_bytes'' (- n) r4 else Some r4)" for r4
    have d: "deleteEffect a r = (case hincrby KInfo (kindCounter kind) (-1) r3 of None \<Rightarrow> (None, r3) | Some r4 \<Rightarrow>
        case total r4 of None \<Rightarrow> (None, r4)
         | Some r5 \<Rightarrow>
             (let r6 = sadd KDirtySet (da_inode a) (r5(KRootDirty \<mapsto> RString ''1''))
              in (Some 1, if da_payload a \<noteq> [] then xadd KChanges (da_payload a) r6 else r6)))"
      using True unfolding deleteEffect_def Let_def r3_def r2_def r1_def kind_def total_def by simp
    have t: "total r4 = Some r5 \<Longrightarrow> k \<noteq> KInfo \<Longrightarrow> r5 k = r4 k" for r4 r5 k
    proof -
      assume a: "total r4 = Some r5" "k \<noteq> KInfo"
      from a(1) have "r5 = r4 \<or> (\<exists>n. hincrby KInfo ''total_data_bytes'' n r4 = Some r5)"
        by (auto simp: total_def split: if_splits option.splits)
      with a(2) show "r5 k = r4 k" using hincrby_other [of KInfo k] by auto
    qed
    show ?thesis
    proof (cases "hincrby KInfo (kindCounter kind) (-1) r3")
      case (Some r4)
      then have h: "k \<noteq> KInfo \<Longrightarrow> r4 k = r3 k" for k by (rule hincrby_other [rotated]) simp
      show ?thesis
      proof (cases "total r4")
        case (Some r5)
        with d \<open>hincrby _ _ _ _ = Some r4\<close> h t [OF Some] show ?thesis by (simp add: Let_def sadd_def xadd_def)
      qed (use d Some h in simp)
    qed (use d in simp)
  qed (simp add: deleteEffect_def Let_def r2_def r1_def)
  have r2k: "r2 (KInode j) = (if j = da_inode a then None else r (KInode j))"
    "r2 (KContent j) = (if j = da_inode a then None else r (KContent j))" for j
    by (simp_all add: r2_def r1_def)
  have "keepsFile i r r2" if "i \<noteq> da_inode a" using that by (simp add: keepsFile_same r2k)
  moreover have "keepsFile i r r3" if i: "i \<noteq> da_inode a"
  proof (cases "i = da_parent a")
    case False
    with i show ?thesis by (intro keepsFile_same) (simp_all add: r3_def r2k)
  next
    case True
    have "hashAt r2 (KInode i) = hashAt r (KInode i)" using i by (intro hashAt_cong) (simp add: r2k)
    then have "hget r3 (KInode i) ''revision'' = hget r (KInode i) ''revision''"
      by (simp add: r3_def True hget_def)
    with assms(2) True show ?thesis by (simp add: keepsFile_def)
  qed
  moreover have "r3 (KInode (da_inode a)) = None" using assms(1) by (simp add: r3_def r2k)
  moreover have "keepsFile i r q" if "\<forall>k. k \<notin> {KInfo, KDirtySet, KRootDirty, KChanges} \<longrightarrow> q k = r3 k" "keepsFile i r r3" for q
  proof -
    have "keepsFile i r3 q" using that(1) by (intro keepsFile_same) simp_all
    with that(2) show ?thesis by (simp add: keepsFile_def)
  qed
  moreover have "q (KInode (da_inode a)) = None"
    if "\<forall>k. k \<notin> {KInfo, KDirtySet, KRootDirty, KChanges} \<longrightarrow> q k = r3 k" "r3 (KInode (da_inode a)) = None" for q :: redis
    using that by simp
  ultimately show ?thesis using cases r2k(1) by metis
qed

subsection \<open>A revision names one published state\<close>

lemma hget_None: "r (KInode i) = None \<Longrightarrow> hget r (KInode i) f = None"
  by (simp add: hget_def hashAt_def)

lemma runStep_keeps:
  assumes "runStep s (r, seen) = (r', seen')"
  shows "seen \<subseteq> seen' \<and> (keepsFile i r r' \<or> hget r' (KInode i) ''revision'' = None
    \<or> (\<exists>v. hget r' (KInode i) ''revision'' = Some v \<and> v \<notin> seen \<and> v \<in> seen'))"
proof (cases s)
  case (SPublish a)
  with assms publish_keeps [of a _ r i] show ?thesis
    by (auto simp: runStep_def keepsFile_same split: if_splits)
next
  case (SDelete a)
  have "snd (deleteInodeScript a r) = r \<or> snd (deleteInodeScript a r) = snd (deleteEffect a r)"
    by (simp add: deleteInodeScript_def)
  with SDelete assms deleteEffect_keeps [of a r i] show ?thesis
    by (auto simp: runStep_def keepsFile_same hget_None split: if_splits)
next
  case (SUpdate a)
  have "snd (updateInodeScript a r) = r \<or>
      (\<forall>j. j \<noteq> ua_inode a \<longrightarrow> snd (updateInodeScript a r) (KInode j) = r (KInode j))
      \<and> (\<forall>j. snd (updateInodeScript a r) (KContent j) = r (KContent j))
      \<and> hget (snd (updateInodeScript a r)) (KInode (ua_inode a)) ''revision'' = Some (ua_revision a)"
    by (auto simp: updateInodeScript_def Let_def hget_def hset_def hashAt_def xadd_def)
  with SUpdate assms show ?thesis
    by (cases "i = ua_inode a") (auto simp: runStep_def keepsFile_same split: if_splits)
next
  case (SQuiet g)
  with assms show ?thesis by (auto simp: runStep_def quiet_def keepsFile_same split: if_splits)
qed

lemma stateAt_seen: "revisions (storeAt r0 steps t) \<subseteq> snd (stateAt r0 steps t)"
proof (induction t)
  case (Suc t)
  obtain r seen where s: "stateAt r0 steps t = (r, seen)" by force
  obtain r' seen' where s': "runStep (steps t) (r, seen) = (r', seen')" by force
  have "v \<in> seen'" if "hget r' (KInode i) ''revision'' = Some v" for i v
  proof -
    have "hget r (KInode i) ''revision'' = Some v \<Longrightarrow> v \<in> seen" using Suc s by (auto simp: revisions_def)
    then show ?thesis using runStep_keeps [OF s', of i] that by (auto simp: keepsFile_def)
  qed
  then show ?case using s s' by (auto simp: revisions_def)
qed simp

lemma seen_mono: "t \<le> t' \<Longrightarrow> snd (stateAt r0 steps t) \<subseteq> snd (stateAt r0 steps t')"
proof (induction t' rule: dec_induct)
  case (step n)
  obtain r seen where s: "stateAt r0 steps n = (r, seen)" by force
  obtain r' seen' where s': "runStep (steps n) (r, seen) = (r', seen')" by force
  from runStep_keeps [OF s'] step.IH show ?case by (auto simp: s s')
qed simp

lemma revision_gone:
  assumes "t \<le> t'" and "v \<in> snd (stateAt r0 steps t)" and "hget (storeAt r0 steps t) (KInode i) ''revision'' \<noteq> Some v"
  shows "v \<in> snd (stateAt r0 steps t') \<and> hget (storeAt r0 steps t') (KInode i) ''revision'' \<noteq> Some v"
  using assms(1)
proof (induction t' rule: dec_induct)
  case (step n)
  obtain r seen where s: "stateAt r0 steps n = (r, seen)" by force
  obtain r' seen' where s': "runStep (steps n) (r, seen) = (r', seen')" by force
  from runStep_keeps [OF s', of i] step.IH show ?case by (auto simp: s s' keepsFile_def)
qed (use assms in auto)

lemma revision_stays:
  assumes "t \<le> t'" and v: "hget (storeAt r0 steps t) (KInode i) ''revision'' = Some v" and f: "\<not> notFile (storeAt r0 steps t) i"
    and "hget (storeAt r0 steps t') (KInode i) ''revision'' = Some v"
  shows "fileAt (storeAt r0 steps t') i = fileAt (storeAt r0 steps t) i \<and> \<not> notFile (storeAt r0 steps t') i"
  using assms(1,4)
proof (induction t' rule: dec_induct)
  case (step n)
  have "v \<in> revisions (storeAt r0 steps t)" using v by (auto simp: revisions_def)
  then have vs: "v \<in> snd (stateAt r0 steps t)" using stateAt_seen by blast
  have vn: "hget (storeAt r0 steps n) (KInode i) ''revision'' = Some v"
  proof (rule ccontr)
    assume a: "hget (storeAt r0 steps n) (KInode i) ''revision'' \<noteq> Some v"
    have "v \<in> snd (stateAt r0 steps n)" using seen_mono [OF \<open>t \<le> n\<close>] vs by blast
    from revision_gone [OF le_SucI [OF order_refl] this a] step.prems show False by simp
  qed
  note IH = step.IH [OF vn]
  obtain r seen where s: "stateAt r0 steps n = (r, seen)" by force
  obtain r' seen' where s': "runStep (steps n) (r, seen) = (r', seen')" by force
  have "v \<in> seen" using vn s stateAt_seen [of r0 steps n] by (auto simp: revisions_def)
  with runStep_keeps [OF s', of i] step.prems IH vn show ?case by (auto simp: s s' keepsFile_def)
qed (use f in auto)

lemma revision_between:
  assumes "t1 \<le> t" "t \<le> t2" and "hget (storeAt r0 steps t1) (KInode i) ''revision'' = Some v"
    and "hget (storeAt r0 steps t2) (KInode i) ''revision'' = Some v"
  shows "hget (storeAt r0 steps t) (KInode i) ''revision'' = Some v"
proof (rule ccontr)
  assume a: "hget (storeAt r0 steps t) (KInode i) ''revision'' \<noteq> Some v"
  have "v \<in> snd (stateAt r0 steps t1)" using assms(3) stateAt_seen [of r0 steps t1] by (auto simp: revisions_def)
  then have "v \<in> snd (stateAt r0 steps t)" using seen_mono [OF assms(1)] by blast
  from revision_gone [OF assms(2) this a] assms(4) show False by simp
qed

lemma fileAt_revision:
  assumes "fileAt r i = Some (st, c)" and "st_type st = ''file''"
  shows "st_revision st \<noteq> [] \<Longrightarrow> hget r (KInode i) ''revision'' = Some (st_revision st)" "\<not> notFile r i"
  using assms by (auto simp: fileAt_def statOf_def hgetOr_def notFile_def split: if_splits option.splits)

text \<open>The runs of the three scripts satisfy the law of the reader, for every inode.\<close>

interpretation published: revision_history "\<lambda>t. fileAt (storeAt r0 steps t) i" for r0 steps i
proof unfold_locales
  fix t1 t t2 s1 c1 s2 c2
  assume le: "t1 \<le> t" "t \<le> t2" and f1: "fileAt (storeAt r0 steps t1) i = Some (s1, c1)"
    and f2: "fileAt (storeAt r0 steps t2) i = Some (s2, c2)" and ty: "st_type s1 = ''file''"
    and ne: "st_revision s1 \<noteq> []" and same: "SameFileRevision (Some s1) (Some s2)"
  have "st_type s2 = ''file''" "st_revision s2 = st_revision s1" using same ty by (auto simp: SameFileRevision_def)
  then have v2: "hget (storeAt r0 steps t2) (KInode i) ''revision'' = Some (st_revision s1)"
    using fileAt_revision(1) [OF f2] ne by simp
  note v1 = fileAt_revision(1) [OF f1 ty ne]
  from revision_stays [OF le(1) v1 fileAt_revision(2) [OF f1 ty] revision_between [OF le v1 v2]] f1
  show "fileAt (storeAt r0 steps t) i = Some (s1, c1)" by simp
qed


text \<open>A client that reads the file of the example store while nothing happens.\<close>

definition exampleSnapshots :: snapshot_env where
  "exampleSnapshots = (let s = Inr (Some (statOf exampleStore ''2'')) in
     \<lparr>sn_ctx = \<lambda>_. None, sn_parent = \<lambda>_. Inr None, sn_before = \<lambda>_. s, sn_cat = \<lambda>_. Inr ''x'', sn_after = \<lambda>_. s,
      sn_parentAfter = \<lambda>_. Inr None\<rparr>)"

definition nothingHappens :: "nat \<Rightarrow> pub_step" where
  "nothingHappens t = SQuiet id"

lemma storeAt_nothing [simp]: "storeAt r0 nothingHappens t = r0"
proof -
  have "stateAt r0 nothingHappens t = (r0, revisions r0)"
    by (induction t) (simp_all add: runStep_def nothingHappens_def quiet_def)
  then show ?thesis by simp
qed

lemma fileAt_example: "fileAt exampleStore ''2'' = Some (statOf exampleStore ''2'', ''x'')"
  by (simp add: fileAt_def contentOf_def exampleStore_def)

lemma statOf_example:
  "st_type (statOf exampleStore ''2'') = ''file''" "st_revision (statOf exampleStore ''2'') = ''r1''"
  "st_inode (statOf exampleStore ''2'') = inodeUint64 ''2''"
  by (simp_all add: statOf_def hgetOr_def hget_def hashAt_def exampleStore_def)

lemma exampleSnapshots_answers:
  "answersFrom (\<lambda>t. fileAt (storeAt exampleStore nothingHappens t) ''2'') (\<lambda>_. 0) (\<lambda>_. 0) (\<lambda>_. 0) exampleSnapshots"
  by (simp add: answersFrom_def fileAt_example exampleSnapshots_def Let_def)

lemma exampleSnapshots_result:
  "ReadFileSnapshot exampleSnapshots ''/a'' = Inr \<lparr>fs_stat = Some (statOf exampleStore ''2''), fs_content = ''x'',
     fs_parent = None, fs_path = normalizePath ''/a''\<rparr>"
proof -
  have "readAttempt exampleSnapshots (normalizePath ''/a'') 0 = Inr (Some \<lparr>fs_stat = Some (statOf exampleStore ''2''),
      fs_content = ''x'', fs_parent = None, fs_path = normalizePath ''/a''\<rparr>)"
    by (simp add: readAttempt_def exampleSnapshots_def Let_def statOrAbsent_def SameFileRevision_def sameParent_def
        statOf_example)
  moreover have "(8 :: nat) = Suc 7" by simp
  ultimately show ?thesis unfolding ReadFileSnapshot_def by (metis snapshotLoop.simps(2) option.simps(5) sum.case(2))
qed


text \<open>
  When a publication that carries the write condition of a snapshot commits, the bytes it replaces
  are exactly the bytes of that snapshot, however long ago it was read.
\<close>

lemma publication_replaces_snapshot:
  assumes "answersFrom (\<lambda>t. fileAt (storeAt r0 steps t) (in_id inode)) tb tc ta senv"
    and "ReadFileSnapshot senv p = Inr s" and "fs_stat s = Some st" and "st_revision st \<noteq> []"
    and "\<And>k. ta k \<le> t" and "a = publishArgs env (WriteContext s c) q inode stage False extra"
    and "checkWriteCondition (WriteContext s c) inode False = None"
    and "publishCode a (storeAt r0 steps t) = 1"
  shows "fileAt (storeAt r0 steps t) (in_id inode) = Some (st, fs_content s)"
proof -
  obtain k where k: "fileAt (storeAt r0 steps (ta k)) (in_id inode) = Some (st, fs_content s)"
    using published.snapshot_sound [OF assms(1-4)] by blast
  have ty: "st_type st = ''file''"
    using assms(2,3) snapshotLoop_attempt [of senv "normalizePath p" 0 8 s]
    by (auto simp: ReadFileSnapshot_def elim: readAttempt_Some)
  have "wc_expected (WriteContext s c) = Some (Some st)"
    using assms(3) by (simp add: WriteContext_def WithExpectedStat_def WithExpectedParent_def Let_def split: option.splits)
  then have "st_revision st = in_revision inode"
    using assms(7) by (simp add: checkWriteCondition_def split: if_splits)
  moreover have "pa_inode a = in_id inode" "pa_expected a = in_revision inode" "\<not> pa_create a"
    unfolding assms(6) publishArgs_def by (auto simp: Let_def split: option.splits)
  ultimately have "hgetOr (storeAt r0 steps t) (KInode (in_id inode)) ''revision'' [] = st_revision st"
    using publishCode_one(7) [OF assms(8)] by simp
  with assms(4) have v2: "hget (storeAt r0 steps t) (KInode (in_id inode)) ''revision'' = Some (st_revision st)"
    by (auto simp: hgetOr_def split: option.splits)
  from revision_stays [OF assms(5) fileAt_revision(1) [OF k ty assms(4)] fileAt_revision(2) [OF k ty] v2] k
  show ?thesis by simp
qed

subsection \<open>The bookkeeping of the workspace\<close>

definition fileIds :: "redis \<Rightarrow> string set" where
  "fileIds r = {i. \<not> notFile r i}"

definition sizeAt :: "redis \<Rightarrow> string \<Rightarrow> int" where
  "sizeAt r i = the (decimal (hgetOr r (KInode i) ''size'' ''0''))"

text \<open>The counters \<open>files\<close> and \<open>total_data_bytes\<close> of the info hash tell the truth.\<close>

definition accounted :: "redis \<Rightarrow> bool" where
  "accounted r \<longleftrightarrow> finite (fileIds r) \<and> isHashOrNone r KInfo
     \<and> decimal (hgetOr r KInfo ''files'' ''0'') = Some (int (card (fileIds r)))
     \<and> decimal (hgetOr r KInfo ''total_data_bytes'' ''0'') = Some (\<Sum>i \<in> fileIds r. sizeAt r i)
     \<and> (\<forall>i \<in> fileIds r. \<exists>n \<ge> 0. decimal (hgetOr r (KInode i) ''size'' ''0'') = Some n)"

text \<open>What the clients of the scripts see to: see \<open>publishArgs_fields\<close> for publications.\<close>

definition bookedStep :: "pub_step \<Rightarrow> redis \<Rightarrow> bool" where
  "bookedStep s r =
     (case s of
        SPublish a \<Rightarrow> map_of (rev (pa_fields a)) ''type'' = Some ''file''
          \<and> map_of (rev (pa_fields a)) ''size'' = Some (intText (pa_size a))
          \<and> (if pa_create a then r (KInode (pa_inode a)) = None else \<not> notFile r (pa_inode a))
      | SUpdate a \<Rightarrow> ''type'' \<notin> fst ` set (ua_fields a) \<and> ''size'' \<notin> fst ` set (ua_fields a)
      | SDelete a \<Rightarrow> isHashOrNone r (KInode (da_parent a))
          \<and> hget r (KInode (da_inode a)) ''type'' \<in> {Some ''file'', Some ''dir'', Some ''symlink''}
      | SQuiet g \<Rightarrow> g r KInfo = r KInfo)"

lemma accounted_counters:
  "accounted r \<Longrightarrow> counter r ''files'' = int (card (fileIds r))"
  "accounted r \<Longrightarrow> counter r ''total_data_bytes'' = (\<Sum>i \<in> fileIds r. sizeAt r i)"
  by (simp_all add: accounted_def counter_def)

lemma accountedI:
  assumes "finite (fileIds r)" and "isHashOrNone r KInfo"
    and "counter r ''files'' = int (card (fileIds r))" and "counter r ''total_data_bytes'' = (\<Sum>i \<in> fileIds r. sizeAt r i)"
    and "\<And>g. g \<in> {''files'', ''total_data_bytes''} \<Longrightarrow> decimal (hgetOr r KInfo g ''0'') \<noteq> None"
    and "\<And>i. i \<in> fileIds r \<Longrightarrow> \<exists>n \<ge> 0. decimal (hgetOr r (KInode i) ''size'' ''0'') = Some n"
  shows "accounted r"
proof -
  have "decimal (hgetOr r KInfo g ''0'') = Some (counter r g)" if "g \<in> {''files'', ''total_data_bytes''}" for g
    using assms(5) [OF that] by (auto simp: counter_def)
  with assms show ?thesis by (simp add: accounted_def)
qed

lemma accounted_decimal:
  "accounted r \<Longrightarrow> g \<in> {''files'', ''total_data_bytes''} \<Longrightarrow> decimal (hgetOr r KInfo g ''0'') \<noteq> None"
  by (auto simp: accounted_def)

lemma accounted_cong:
  assumes "accounted r" and "\<And>i f. f \<in> {''type'', ''size''} \<Longrightarrow> hget r' (KInode i) f = hget r (KInode i) f"
    and "isHashOrNone r' KInfo"
    and "\<And>f. f \<in> {''files'', ''total_data_bytes''} \<Longrightarrow> hgetOr r' KInfo f ''0'' = hgetOr r KInfo f ''0''"
  shows "accounted r'"
proof -
  have "fileIds r' = fileIds r" "sizeAt r' i = sizeAt r i" "hgetOr r' (KInode i) ''size'' ''0'' = hgetOr r (KInode i) ''size'' ''0''" for i
    using assms(2) by (simp_all add: fileIds_def notFile_def sizeAt_def hgetOr_def)
  with assms show ?thesis by (simp add: accounted_def)
qed

lemma sum_with:
  assumes "finite A" and "\<And>j. j \<in> A \<Longrightarrow> j \<noteq> i \<Longrightarrow> g j = f j"
  shows "(\<Sum>j \<in> insert i A. g j) = (\<Sum>j \<in> A. f j) + g i - (if i \<in> A then f i else 0 :: int)"
proof -
  have "(\<Sum>j \<in> insert i A. g j) = g i + (\<Sum>j \<in> A - {i}. g j)" using assms(1) by (simp add: sum.insert_remove)
  also have "(\<Sum>j \<in> A - {i}. g j) = (\<Sum>j \<in> A - {i}. f j)" using assms(2) by (intro sum.cong) auto
  also have "\<dots> = (\<Sum>j \<in> A. f j) - (if i \<in> A then f i else 0)" using assms(1) by (simp add: sum_diff1)
  finally show ?thesis by simp
qed

lemma decimal_zero [simp]: "decimal ''0'' = Some 0"
  by (simp add: decimal_def natVal_def digitVal_def)

lemma publish_accounted:
  assumes acc: "accounted r" and one: "publishCode a r = 1"
    and st: "pa_stage a = KStage (pa_inode a) tok" "pa_parent a \<noteq> pa_inode a"
    and booked: "bookedStep (SPublish a) r"
  shows "accounted (publishEffect a r)"
proof -
  define r' where "r' = publishEffect a r"
  note ef = publishEffect_store [OF one st, folded r'_def]
  have fields: "hget r' (KInode (pa_inode a)) ''type'' = Some ''file''"
    "hget r' (KInode (pa_inode a)) ''size'' = Some (intText (pa_size a))"
    using booked by (simp_all add: hget_def ef(1) bookedStep_def)
  have others: "hget r' (KInode j) f = hget r (KInode j) f" if "j \<noteq> pa_inode a" "f \<in> {''type'', ''size''}" for j f
  proof -
    have "f \<notin> {''mtime_ms'', ''ctime_ms''}" using that(2) by auto
    with that(1) show ?thesis by (rule ef(10))
  qed
  have "notFile r' j = (j \<noteq> pa_inode a \<and> notFile r j)" for j
    using fields(1) others [of j "''type''"] by (cases "j = pa_inode a") (simp_all add: notFile_def)
  then have ids: "fileIds r' = insert (pa_inode a) (fileIds r)" by (auto simp: fileIds_def)
  have sz: "sizeAt r' (pa_inode a) = pa_size a" "j \<noteq> pa_inode a \<Longrightarrow> sizeAt r' j = sizeAt r j" for j
    using fields others by (simp_all add: sizeAt_def hgetOr_def)
  have inIds: "pa_inode a \<in> fileIds r \<longleftrightarrow> \<not> pa_create a"
    using booked by (auto simp: bookedStep_def fileIds_def notFile_def hget_None split: if_splits)
  have old: "sizeAt r (pa_inode a) = (if pa_create a then 0 else sizeAt r (pa_inode a))"
    using booked by (simp add: bookedStep_def sizeAt_def hgetOr_def hget_None)
  have fin: "finite (fileIds r)" using acc by (simp add: accounted_def)
  have "counter r' ''files'' = int (card (fileIds r'))"
    using ef(4) accounted_counters(1) [OF acc] inIds fin by (simp add: ids card_insert_if)
  moreover have "(\<Sum>j \<in> fileIds r'. sizeAt r' j)
      = (\<Sum>j \<in> fileIds r. sizeAt r j) + pa_size a - (if pa_create a then 0 else sizeAt r (pa_inode a))"
    unfolding ids using sum_with [OF fin, of "pa_inode a" "sizeAt r'" "sizeAt r"] sz inIds by simp
  then have "counter r' ''total_data_bytes'' = (\<Sum>j \<in> fileIds r'. sizeAt r' j)"
    using ef(5) accounted_counters(2) [OF acc] old by (simp add: sizeAt_def split: if_splits)
  moreover have "\<exists>n \<ge> 0. decimal (hgetOr r' (KInode j) ''size'' ''0'') = Some n" if j: "j \<in> fileIds r'" for j
  proof (cases "j = pa_inode a")
    case True
    have "0 \<le> pa_size a" using publishCode_one(2) [OF one] by (simp add: malformed_def)
    with True fields(2) show ?thesis by (simp add: hgetOr_def)
  next
    case False
    with j acc others [of j "''size''"] show ?thesis by (simp add: ids accounted_def hgetOr_def)
  qed
  moreover note ef(7)
  ultimately show ?thesis using fin ef(6) unfolding r'_def [symmetric]
    by (intro accountedI) (simp_all add: ids)
qed

lemma delete_accounted:
  assumes acc: "accounted r" and p: "da_parent a \<noteq> da_inode a" "isHashOrNone r (KInode (da_parent a))"
    and ty: "hget r (KInode (da_inode a)) ''type'' \<in> {Some ''file'', Some ''dir'', Some ''symlink''}"
  shows "accounted (snd (deleteEffect a r))"
proof -
  define kind where "kind = hget r (KInode (da_inode a)) ''type''"
  define r2 where "r2 = hdel (KDirents (da_parent a)) (da_name a)
      (r(KInode (da_inode a) := None, KContent (da_inode a) := None, KDirents (da_inode a) := None))"
  define r3 where "r3 = hset (KInode (da_parent a)) ''ctime_ms'' (da_now a) (hset (KInode (da_parent a)) ''mtime_ms'' (da_now a) r2)"
  define total where "total r4 = (if kind \<noteq> Some ''file'' then Some r4
      else case decimal (hgetOr r (KInode (da_inode a)) ''size'' ''0'') of None \<Rightarrow> None
         | Some n \<Rightarrow> if 0 < n then hincrby KInfo ''total_data_bytes'' (- n) r4 else Some r4)" for r4
  have "isHashOrNone r2 (KInode (da_parent a))" using p by (simp add: r2_def isHashOrNone_def)
  then have d: "deleteEffect a r = (case hincrby KInfo (kindCounter kind) (-1) r3 of None \<Rightarrow> (None, r3) | Some r4 \<Rightarrow>
        case total r4 of None \<Rightarrow> (None, r4)
         | Some r5 \<Rightarrow>
             (let r6 = sadd KDirtySet (da_inode a) (r5(KRootDirty \<mapsto> RString ''1''))
              in (Some 1, if da_payload a \<noteq> [] then xadd KChanges (da_payload a) r6 else r6)))"
    unfolding deleteEffect_def Let_def r3_def r2_def kind_def total_def by simp
  have hk: "hget r3 (KInode j) f = (if j = da_inode a then None else hget r (KInode j) f)"
    if "f \<in> {''type'', ''size''}" for j f
  proof (cases "j = da_parent a")
    case True
    have "hashAt r2 (KInode j) = hashAt r (KInode j)" using p True by (intro hashAt_cong) (simp add: r2_def)
    with True p(1) that show ?thesis by (auto simp: r3_def hget_def)
  next
    case False
    then have "r3 (KInode j) = (if j = da_inode a then None else r (KInode j))" by (simp add: r3_def r2_def)
    then show ?thesis by (auto simp: hget_def hashAt_def)
  qed
  have info: "r3 KInfo = r KInfo" by (simp add: r3_def r2_def)
  then have dec: "isHashOrNone r3 KInfo" "g \<in> {''files'', ''total_data_bytes''} \<Longrightarrow> decimal (hgetOr r3 KInfo g ''0'') \<noteq> None"
    "counter r3 g = counter r g" for g
    using acc accounted_decimal [OF acc, of g] counter_cong [of r3 r g, OF info]
    by (simp_all add: accounted_def isHashOrNone_def hgetOr_def hget_def hashAt_def)
  have nf: "notFile r3 j = (j = da_inode a \<or> notFile r j)" for j using hk [of "''type''"] by (simp add: notFile_def)
  have frame: "accounted q" if ids: "\<And>k. k \<notin> {KInfo, KDirtySet, KRootDirty, KChanges} \<Longrightarrow> q k = r3 k"
    and "isHashOrNone q KInfo" "counter q ''files'' = counter r ''files'' - (if kind = Some ''file'' then 1 else 0)"
    "counter q ''total_data_bytes'' = counter r ''total_data_bytes'' - (if kind = Some ''file'' then sizeAt r (da_inode a) else 0)"
    "\<And>g. g \<in> {''files'', ''total_data_bytes''} \<Longrightarrow> decimal (hgetOr q KInfo g ''0'') \<noteq> None" for q
  proof -
    have "q (KInode j) = r3 (KInode j)" for j by (rule ids) simp
    then have qk: "hget q (KInode j) f = hget r3 (KInode j) f" for j f by (rule hget_cong)
    have fi: "fileIds q = fileIds r - {da_inode a}" using nf by (auto simp: fileIds_def notFile_def qk)
    have sz: "j \<noteq> da_inode a \<Longrightarrow> hgetOr q (KInode j) ''size'' ''0'' = hgetOr r (KInode j) ''size'' ''0''" for j
      by (simp add: hgetOr_def qk hk)
    have fin: "finite (fileIds r)" using acc by (simp add: accounted_def)
    have inf: "da_inode a \<in> fileIds r \<longleftrightarrow> kind = Some ''file''" by (simp add: fileIds_def notFile_def kind_def)
    have c: "card (fileIds q) = card (fileIds r) - (if kind = Some ''file'' then 1 else 0)"
      "kind = Some ''file'' \<Longrightarrow> 0 < card (fileIds r)"
      unfolding fi using fin inf by (auto simp: card_gt_0_iff)
    have "(\<Sum>j \<in> fileIds q. sizeAt q j) = (\<Sum>j \<in> fileIds r - {da_inode a}. sizeAt r j)"
      unfolding fi by (intro sum.cong refl) (simp add: sizeAt_def sz)
    also have "\<dots> = (\<Sum>j \<in> fileIds r. sizeAt r j) - (if kind = Some ''file'' then sizeAt r (da_inode a) else 0)"
      using fin inf by (simp add: sum_diff1)
    finally have s: "counter q ''total_data_bytes'' = (\<Sum>j \<in> fileIds q. sizeAt q j)"
      using that(4) accounted_counters(2) [OF acc] by simp
    show ?thesis
    proof (rule accountedI)
      show "counter q ''files'' = int (card (fileIds q))"
        using that(3) accounted_counters(1) [OF acc] c by (auto simp: of_nat_diff)
      fix j assume "j \<in> fileIds q"
      then have "j \<in> fileIds r" "j \<noteq> da_inode a" by (simp_all add: fi)
      then show "\<exists>n \<ge> 0. decimal (hgetOr q (KInode j) ''size'' ''0'') = Some n" using acc sz by (simp add: accounted_def)
    qed (use that s fi fin in auto)
  qed
  have tail: "accounted (snd (let r6 = sadd KDirtySet (da_inode a) (q(KRootDirty \<mapsto> RString ''1''))
      in (Some (1 :: int), if da_payload a \<noteq> [] then xadd KChanges (da_payload a) r6 else r6)))" (is "accounted ?q")
    if q: "\<forall>k. k \<noteq> KInfo \<longrightarrow> q k = r3 k" "isHashOrNone q KInfo"
    and cs: "counter q ''files'' = counter r ''files'' - (if kind = Some ''file'' then 1 else 0)"
    "counter q ''total_data_bytes'' = counter r ''total_data_bytes'' - (if kind = Some ''file'' then sizeAt r (da_inode a) else 0)"
    and ds: "\<And>g. g \<in> {''files'', ''total_data_bytes''} \<Longrightarrow> decimal (hgetOr q KInfo g ''0'') \<noteq> None" for q
  proof (rule frame)
    have i: "?q KInfo = q KInfo" by (simp add: Let_def)
    show "?q k = r3 k" if "k \<notin> {KInfo, KDirtySet, KRootDirty, KChanges}" for k
      using that q(1) by (simp add: Let_def sadd_def xadd_def)
    show "isHashOrNone ?q KInfo" using i q(2) by (simp add: isHashOrNone_def)
    have "counter ?q g = counter q g" for g by (rule counter_cong) (rule i)
    with cs show "counter ?q ''files'' = counter r ''files'' - (if kind = Some ''file'' then 1 else 0)"
      "counter ?q ''total_data_bytes'' = counter r ''total_data_bytes'' - (if kind = Some ''file'' then sizeAt r (da_inode a) else 0)"
      by simp_all
    show "g \<in> {''files'', ''total_data_bytes''} \<Longrightarrow> decimal (hgetOr ?q KInfo g ''0'') \<noteq> None" for g
      using ds hgetOr_cong [of ?q KInfo q g "''0''", OF i] by simp
  qed
  show ?thesis
  proof (cases "kind = Some ''file''")
    case True
    obtain r4 where r4: "hincrby KInfo ''files'' (-1) r3 = Some r4" "counter r4 ''files'' = counter r3 ''files'' + -1"
      "isHashOrNone r4 KInfo" "decimal (hgetOr r4 KInfo ''files'' ''0'') \<noteq> None"
      "\<forall>g. g \<noteq> ''files'' \<longrightarrow> hgetOr r4 KInfo g ''0'' = hgetOr r3 KInfo g ''0''" "\<forall>k. k \<noteq> KInfo \<longrightarrow> r4 k = r3 k"
      using hincrby_info [OF dec(1) dec(2) [of "''files''"], of "-1"] by auto
    have kc: "kindCounter kind = ''files''" using True by (simp add: kindCounter_def)
    have t4: "counter r4 ''total_data_bytes'' = counter r ''total_data_bytes''" "decimal (hgetOr r4 KInfo ''total_data_bytes'' ''0'') \<noteq> None"
      using r4(5) dec(2,3) [of "''total_data_bytes''"] by (simp_all add: counter_def)
    obtain n where n: "0 \<le> n" "decimal (hgetOr r (KInode (da_inode a)) ''size'' ''0'') = Some n"
      using acc True by (auto simp: accounted_def fileIds_def notFile_def kind_def)
    then have sz: "sizeAt r (da_inode a) = n" by (simp add: sizeAt_def)
    show ?thesis
    proof (cases "0 < n")
      case False
      then have tot: "total r4 = Some r4" using True n by (simp add: total_def)
      show ?thesis unfolding d kc r4(1) option.case tot
        using True False n sz r4 t4 dec(3) by (intro tail) auto
    next
      case pos: True
      obtain r5 where r5: "hincrby KInfo ''total_data_bytes'' (-n) r4 = Some r5"
        "counter r5 ''total_data_bytes'' = counter r4 ''total_data_bytes'' + -n" "isHashOrNone r5 KInfo"
        "decimal (hgetOr r5 KInfo ''total_data_bytes'' ''0'') \<noteq> None"
        "\<forall>g. g \<noteq> ''total_data_bytes'' \<longrightarrow> hgetOr r5 KInfo g ''0'' = hgetOr r4 KInfo g ''0''" "\<forall>k. k \<noteq> KInfo \<longrightarrow> r5 k = r4 k"
        using hincrby_info [OF r4(3) t4(2), of "-n"] by auto
      have tot: "total r4 = Some r5" using True n pos r5(1) by (simp add: total_def)
      have "counter r5 ''files'' = counter r4 ''files''" using r5(5) by (simp add: counter_def)
      then show ?thesis unfolding d kc r4(1) option.case tot
        using True sz r4 r5 t4 dec(3) by (intro tail) auto
    qed
  next
    case False
    then have tot: "total r4 = Some r4" for r4 by (simp add: total_def)
    have kc: "kindCounter kind \<in> {''directories'', ''symlinks''}" using ty False by (auto simp: kindCounter_def kind_def)
    show ?thesis
    proof (cases "hincrby KInfo (kindCounter kind) (-1) r3")
      case None
      then show ?thesis using dec False by (auto simp: d intro!: frame)
    next
      case (Some r4)
      then have "decimal (hgetOr r3 KInfo (kindCounter kind) ''0'') \<noteq> None" by (auto simp: hincrby_def split: if_splits option.splits)
      from hincrby_info [OF dec(1) this, of "-1"] Some have r4: "isHashOrNone r4 KInfo" "\<forall>k. k \<noteq> KInfo \<longrightarrow> r4 k = r3 k"
        "\<forall>g. g \<noteq> kindCounter kind \<longrightarrow> hgetOr r4 KInfo g ''0'' = hgetOr r3 KInfo g ''0''" by auto
      have g: "hgetOr r4 KInfo g ''0'' = hgetOr r3 KInfo g ''0''" if "g \<in> {''files'', ''total_data_bytes''}" for g
        using r4(3) that kc by auto
      show ?thesis unfolding d Some option.case tot
        using False r4 g dec by (intro tail) (simp_all add: counter_def)
    qed
  qed
qed

lemma update_accounted:
  assumes acc: "accounted r" and b: "bookedStep (SUpdate a) r"
  shows "accounted (snd (updateInodeScript a r))"
proof (cases "updateCode a r = Some 1")
  case True
  define q where "q = snd (updateInodeScript a r)"
  have i: "q KInfo = r KInfo" using True by (simp add: q_def updateInodeScript_def Let_def)
  have "hget q (KInode j) f = hget r (KInode j) f" if f: "f \<in> {''type'', ''size''}" for j f
  proof (cases "j = ua_inode a")
    case True
    have "map_of (rev (ua_fields a)) f = None"
      using b f by (simp add: bookedStep_def map_of_eq_None_iff) (elim conjE disjE; simp)
    moreover have "hashAt q (KInode j) = (hashAt r (KInode j) ++ map_of (rev (ua_fields a)))(''revision'' \<mapsto> ua_revision a)"
      using True \<open>updateCode a r = Some 1\<close>
      by (simp add: q_def updateInodeScript_def Let_def hashAt_hsetAll [symmetric])
        (simp add: hashAt_def hset_def xadd_def)
    ultimately show ?thesis using f by (auto simp: hget_def map_add_def)
  next
    case False
    then have "q (KInode j) = r (KInode j)"
      using True by (simp add: q_def updateInodeScript_def Let_def)
    then show ?thesis by (rule hget_cong)
  qed
  moreover have "isHashOrNone q KInfo" using acc i by (simp add: accounted_def isHashOrNone_def)
  ultimately show ?thesis
    using accounted_cong [OF acc, of q] hgetOr_cong [of q KInfo r, OF i] by (simp add: q_def)
qed (use acc in \<open>simp add: updateInodeScript_def\<close>)


lemma example_accounted: "accounted exampleStore"
proof -
  have "fileIds exampleStore = {''2''}"
    by (auto simp: fileIds_def notFile_def hget_def hashAt_def exampleStore_def split: if_splits)
  then show ?thesis
    by (simp add: accounted_def sizeAt_def) (simp add: hgetOr_def hget_def hashAt_def isHashOrNone_def exampleStore_def decimal_digit)
qed


text \<open>The arguments that \<open>publishStagedFile\<close> builds for a file carry its type and size.\<close>

lemma map_of_mergeFieldMaps:
  "map_of (mergeFieldMaps xs ys) k = (case map_of (rev ys) k of None \<Rightarrow> map_of xs k | Some v \<Rightarrow> Some v)"
  unfolding mergeFieldMaps_def
  by (induction ys arbitrary: xs) (auto simp: update_conv' split: option.splits)

lemma distinct_mergeFieldMaps: "distinct (map fst xs) \<Longrightarrow> distinct (map fst (mergeFieldMaps xs ys))"
  unfolding mergeFieldMaps_def by (induction ys arbitrary: xs) (auto simp: distinct_update)

lemma publishArgs_fields:
  assumes "in_type inode = ''file''" and "fst ` set (pv_stale env @ extra) \<inter> {''type'', ''size''} = {}"
    and a_def: "a = publishArgs env c p inode stage creating extra"
  shows "map_of (rev (pa_fields a)) ''type'' = Some ''file''"
    and "map_of (rev (pa_fields a)) ''size'' = Some (intText (pa_size a))"
proof -
  define i where "i = (case wc_mode c of None \<Rightarrow> inode | Some m \<Rightarrow> inode\<lparr>in_mode := m\<rparr>)"
  define fs where "fs = mergeFieldMaps (mergeFieldMaps (inodeFieldsAtPath i p False) (pv_stale env)) extra"
  have a: "pa_fields a = sortBy (\<lambda>x y. fst x < fst y) fs" "pa_size a = in_size i"
    by (simp_all add: a_def publishArgs_def Let_def i_def fs_def)
  have d: "distinct (map fst fs)"
    unfolding fs_def inodeFieldsAtPath_def by (intro distinct_mergeFieldMaps) (simp add: inodeFields_def)
  have m: "mset (rev (pa_fields a)) = mset fs" by (simp add: a(1))
  then have "distinct (map fst (rev (pa_fields a)))" "set (rev (pa_fields a)) = set fs"
    using d by (metis mset_eq_imp_distinct_iff mset_map, metis mset_eq_setD)
  then have eq: "map_of (rev (pa_fields a)) = map_of fs" using d by (simp only: map_of_inject_set)
  have none: "map_of (rev xs) f = None" if "xs \<in> {pv_stale env, extra}" "f \<in> {''type'', ''size''}" for xs f
    using assms(2) that unfolding map_of_eq_None_iff set_rev set_append by blast
  have "in_type i = ''file''" using assms(1) by (simp add: i_def split: option.splits)
  then have "map_of fs ''type'' = Some ''file''" "map_of fs ''size'' = Some (intText (in_size i))"
    using none by (simp_all add: fs_def map_of_mergeFieldMaps inodeFieldsAtPath_def inodeFields_def)
  with eq a(2) show "map_of (rev (pa_fields a)) ''type'' = Some ''file''"
    "map_of (rev (pa_fields a)) ''size'' = Some (intText (pa_size a))" by simp_all
qed

end
