(* ===== verification/UploadWorker.thy ===== *)
theory UploadWorker
  imports SyncChunks FileSnapshots
begin

text \<open>
  The upload worker (\<open>cmd/afs/sync_uploader.go\<close>): one function per kind of operation, the checks
  that a queued file is still what the reconciler staged, the conditional publication of whole
  files and of changed chunks, the change log entry and the history snapshot of a result.

  A worker run appends the remote calls it makes and the results it sends.  The answers of repeated
  calls are numbered in program order.  The absolute path of an operation is the local root joined
  with its path, so the local file is observed directly.
\<close>

subsection \<open>The worker\<close>

text \<open>Remote calls that change something; a mutation carries the condition of its context.\<close>

datatype upload_effect = UEcho path bytes write_context
  | UWriteChunks path "(nat \<times> bytes) list" int int "string list" write_context
  | UChmod path u32 write_context | URm path | ULn string path | UMkdir path | URename path path

record uploader =
  up_effects :: "upload_effect list"
  up_results :: "upload_result list"

record upload_env =
  ue_lstat :: "nat \<Rightarrow> file_info os_result"
  ue_readFile :: "nat \<Rightarrow> bytes os_result"
  ue_snapshot :: "nat \<Rightarrow> client_err + file_snapshot"
  ue_chunk :: "nat \<Rightarrow> bytes os_result"
  ue_write :: "client_err + stat_result option"
  ue_chmod :: "client_err + stat_result option"
  ue_stat :: "nat \<Rightarrow> client_err + stat_result option"
  ue_rm :: "client_err option"
  ue_ln :: "client_err option"
  ue_mkdir :: "client_err option"
  ue_rename :: "client_err option"
  ue_hash :: "bytes \<Rightarrow> string"
  ue_maxFileBytes :: int

definition resultOf :: "upload_op \<Rightarrow> upload_result" where
  "resultOf op = \<lparr>ur_op = op, ur_err = None, ur_conflict = False, ur_skipped = False, ur_remoteHashSeen = [],
     ur_remoteStat = None\<rparr>"

definition sendU :: "upload_result \<Rightarrow> uploader \<Rightarrow> uploader" where
  "sendU r w = w\<lparr>up_results := up_results w @ [r]\<rparr>"

definition emitU :: "upload_effect \<Rightarrow> uploader \<Rightarrow> uploader" where
  "emitU e w = w\<lparr>up_effects := up_effects w @ [e]\<rparr>"

definition failU :: "string \<Rightarrow> upload_op \<Rightarrow> uploader \<Rightarrow> uploader" where
  "failU msg op = sendU ((resultOf op)\<lparr>ur_err := Some msg\<rparr>)"

definition skipU :: "upload_op \<Rightarrow> uploader \<Rightarrow> uploader" where
  "skipU op = sendU ((resultOf op)\<lparr>ur_skipped := True\<rparr>)"

definition conflictU :: "upload_op \<Rightarrow> uploader \<Rightarrow> uploader" where
  "conflictU op = sendU ((resultOf op)\<lparr>ur_conflict := True\<rparr>)"

definition doneU :: "upload_op \<Rightarrow> string \<Rightarrow> stat_result option \<Rightarrow> uploader \<Rightarrow> uploader" where
  "doneU op hash st = sendU ((resultOf op)\<lparr>ur_remoteHashSeen := hash, ur_remoteStat := st\<rparr>)"

definition uploadWriteError :: "upload_op \<Rightarrow> client_err \<Rightarrow> uploader \<Rightarrow> uploader" where
  "uploadWriteError op e =
     (if e = CWriteConflict then conflictU op else failU (''publish remote: '' @ clientErrText e) op)"

text \<open>
  \<open>queuedFileCurrent\<close>, \<open>k\<close>-th call: \<open>None\<close> when the local file is still the staged one, otherwise
  how the operation is answered.
\<close>

definition queuedFileCurrent :: "upload_env \<Rightarrow> nat \<Rightarrow> upload_op \<Rightarrow> (uploader \<Rightarrow> uploader) option" where
  "queuedFileCurrent env k op =
     (if uo_localMtimeMs op = 0 then None
      else case ue_lstat env k of
        OsError e \<Rightarrow> Some (failU (''stat queued file: '' @ e) op)
      | OsNotExist \<Rightarrow> Some (skipU op)
      | OsOk info \<Rightarrow>
          let size = (if uo_chunked op then uo_fileSize op else int (length (uo_content op))) in
          if fi_kind info \<noteq> IRegular \<or> unixMilli (fi_mtimeNs info) \<noteq> uo_localMtimeMs op \<or> fi_size info \<noteq> size
             \<or> fi_perm info \<noteq> uo_mode op \<or> uo_localIdentity op \<noteq> [] \<and> fi_ident info \<noteq> uo_localIdentity op
          then Some (skipU op)
          else if uo_chunked op then None
          else case ue_readFile env k of
                 OsError e \<Rightarrow> Some (failU (''read queued file: '' @ e) op)
               | OsNotExist \<Rightarrow> Some (skipU op)
               | OsOk data \<Rightarrow> if data \<noteq> uo_content op then Some (skipU op) else None)"

definition uploadMode :: "upload_op \<Rightarrow> u32" where
  "uploadMode op = (if uo_mode op = 0 then 420 else uo_mode op)"

subsection \<open>After the content is right\<close>

definition finishMatchingSnapshot ::
    "upload_env \<Rightarrow> nat \<Rightarrow> nat \<Rightarrow> upload_op \<Rightarrow> file_snapshot \<Rightarrow> stat_result \<Rightarrow> uploader \<Rightarrow> uploader" where
  "finishMatchingSnapshot env k j op snapshot st w =
     (case queuedFileCurrent env k op of Some answer \<Rightarrow> answer w | None \<Rightarrow>
      (let mode = uploadMode op; stored = se_mode (uo_stored op) in
       if uo_hasStored op \<and> stored \<noteq> 0 \<and> st_mode st \<noteq> stored \<and> st_mode st \<noteq> mode
       then sendU ((resultOf op)\<lparr>ur_skipped := (mode = stored), ur_conflict := (mode \<noteq> stored)\<rparr>) w
       else if st_mode st = mode then doneU op (uo_localHash op) (Some st) w
       else let w1 = emitU (UChmod (fs_path snapshot) mode (WriteContext snapshot emptyContext)) w in
            case ue_chmod env of
              Inl e \<Rightarrow> uploadWriteError op e w1
            | Inr (Some result) \<Rightarrow> doneU op (uo_localHash op) (Some result) w1
            | Inr None \<Rightarrow>
                (case ue_snapshot env j of
                   Inl e \<Rightarrow> uploadWriteError op e w1
                 | Inr after \<Rightarrow>
                     (case fs_stat after of
                        None \<Rightarrow> conflictU op w1
                      | Some st2 \<Rightarrow>
                          if st_mode st2 \<noteq> mode \<or> fs_content after \<noteq> fs_content snapshot then conflictU op w1
                          else doneU op (uo_localHash op) (Some st2) w1))))"

definition finishCommittedUpload ::
    "upload_env \<Rightarrow> upload_op \<Rightarrow> u32 \<Rightarrow> stat_result option \<Rightarrow> uploader \<Rightarrow> uploader" where
  "finishCommittedUpload env op mode result w =
     (case result of
        Some st \<Rightarrow> doneU op (uo_localHash op) (Some st) w
      | None \<Rightarrow>
          (case ue_snapshot env 1 of
             Inl e \<Rightarrow> uploadWriteError op e w
           | Inr snapshot \<Rightarrow>
               (let h = ue_hash env;
                    hash = (if uo_chunked op then compositeHash h (uploadChunkHashes h (fs_content snapshot) (uo_chunkSize op))
                            else h (fs_content snapshot))
                in case fs_stat snapshot of
                     None \<Rightarrow> conflictU op w
                   | Some st \<Rightarrow>
                       if hash \<noteq> uo_localHash op then conflictU op w
                       else finishMatchingSnapshot env 3 2 (op\<lparr>uo_mode := mode\<rparr>) snapshot st w)))"

subsection \<open>Whole files\<close>

text \<open>The remote bytes are still the baseline of the operation, by whole hash or by chunk hashes.\<close>

definition matchesBaseline :: "(bytes \<Rightarrow> string) \<Rightarrow> upload_op \<Rightarrow> bytes \<Rightarrow> bool" where
  "matchesBaseline h op content \<longleftrightarrow>
     h content = se_remoteHash (uo_stored op)
     \<or> 0 < se_chunkSize (uo_stored op)
       \<and> compositeHash h (uploadChunkHashes h content (se_chunkSize (uo_stored op))) = se_remoteHash (uo_stored op)"

definition processWholeFile :: "upload_env \<Rightarrow> upload_op \<Rightarrow> uploader \<Rightarrow> uploader" where
  "processWholeFile env op w =
     (let h = ue_hash env in
      case queuedFileCurrent env 0 op of Some answer \<Rightarrow> answer w | None \<Rightarrow>
      if ue_maxFileBytes env < int (length (uo_content op)) then failU ''exceeds sync size cap'' op w
      else case ue_snapshot env 0 of Inl e \<Rightarrow> uploadWriteError op e w | Inr snapshot \<Rightarrow>
      case queuedFileCurrent env 1 op of Some answer \<Rightarrow> answer w | None \<Rightarrow>
      (let write = (case queuedFileCurrent env 2 op of Some answer \<Rightarrow> answer w | None \<Rightarrow>
             (let mode = uploadMode op;
                  w1 = emitU (UEcho (fs_path snapshot) (uo_content op)
                         (WriteContext snapshot (WithFileMode mode emptyContext))) w
              in case ue_write env of
                   Inl e \<Rightarrow> uploadWriteError op e w1
                 | Inr result \<Rightarrow> finishCommittedUpload env op mode result w1))
       in case fs_stat snapshot of
            None \<Rightarrow> write
          | Some st \<Rightarrow>
              if h (fs_content snapshot) = uo_localHash op then finishMatchingSnapshot env 2 1 op snapshot st w
              else if uo_hasStored op \<and> se_remoteHash (uo_stored op) \<noteq> [] \<and> \<not> matchesBaseline h op (fs_content snapshot)
              then sendU ((resultOf op)\<lparr>ur_conflict := True, ur_remoteHashSeen := h (fs_content snapshot),
                     ur_remoteStat := Some st\<rparr>) w
              else write))"

subsection \<open>Chunked files\<close>

text \<open>The changed chunks, read from disk and checked; the first failure answers the operation.\<close>

fun readDirty :: "upload_env \<Rightarrow> upload_op \<Rightarrow> nat list \<Rightarrow> (uploader \<Rightarrow> uploader) + (nat \<times> bytes) list" where
  "readDirty env op [] = Inr []"
| "readDirty env op (i # is) =
     (if length (uo_chunkHashes op) \<le> i then Inl (failU ''invalid dirty chunk index'' op)
      else case ue_chunk env i of
             OsError e \<Rightarrow> Inl (uploadWriteError op (COther e))
           | OsNotExist \<Rightarrow> Inl (uploadWriteError op (COther ''no such file or directory''))
           | OsOk data \<Rightarrow>
               if ue_hash env data \<noteq> uo_chunkHashes op ! i then Inl (skipU op)
               else case readDirty env op is of Inl a \<Rightarrow> Inl a | Inr cs \<Rightarrow> Inr ((i, data) # cs))"

definition publishDirty :: "upload_env \<Rightarrow> upload_op \<Rightarrow> file_snapshot \<Rightarrow> uploader \<Rightarrow> uploader" where
  "publishDirty env op snapshot w =
     (let h = ue_hash env;
          dirty = (if fs_stat snapshot = None then [0..<length (uo_chunkHashes op)] else remdups (uo_dirtyChunks op))
      in case readDirty env op dirty of Inl answer \<Rightarrow> answer w | Inr chunks \<Rightarrow>
      case queuedFileCurrent env 2 op of Some answer \<Rightarrow> answer w | None \<Rightarrow>
      if uo_fileSize op < 0 \<or> ue_maxFileBytes env < uo_fileSize op
      then uploadWriteError op (COther ''chunked file exceeds size cap'') w
      else if \<exists>(i, d) \<in> set chunks. int i * uo_chunkSize op < 0 \<or> uo_fileSize op < int i * uo_chunkSize op + int (length d)
      then uploadWriteError op (COther ''chunk outside file'') w
      else case uploadCandidate (nat (uo_chunkSize op)) (nat (uo_fileSize op)) (fs_content snapshot) chunks of
        None \<Rightarrow> uploadWriteError op (COther ''chunk outside file'') w
      | Some candidate \<Rightarrow>
          if compositeHash h (uploadChunkHashes h candidate (uo_chunkSize op)) \<noteq> uo_localHash op then skipU op w
          else let op1 = op\<lparr>uo_content := candidate\<rparr>; mode = uploadMode op;
                   w1 = emitU (UWriteChunks (fs_path snapshot) chunks (uo_chunkSize op) (uo_fileSize op) (uo_chunkHashes op)
                          (WriteContext snapshot (WithFileMode mode emptyContext))) w
               in case ue_write env of
                    Inl e \<Rightarrow> uploadWriteError op1 e w1
                  | Inr result \<Rightarrow> finishCommittedUpload env op1 mode result w1)"

definition processChunkedUpload :: "upload_env \<Rightarrow> upload_op \<Rightarrow> uploader \<Rightarrow> uploader" where
  "processChunkedUpload env op w =
     (let h = ue_hash env in
      case queuedFileCurrent env 0 op of Some answer \<Rightarrow> answer w | None \<Rightarrow>
      case ue_snapshot env 0 of Inl e \<Rightarrow> uploadWriteError op e w | Inr snapshot \<Rightarrow>
      case queuedFileCurrent env 1 op of Some answer \<Rightarrow> answer w | None \<Rightarrow>
      (case fs_stat snapshot of
         None \<Rightarrow> publishDirty env op snapshot w
       | Some st \<Rightarrow>
           (let remote = compositeHash h (uploadChunkHashes h (fs_content snapshot) (uo_chunkSize op));
                storedSize = se_chunkSize (uo_stored op);
                baseline = (if 0 < storedSize \<and> storedSize \<noteq> uo_chunkSize op
                            then compositeHash h (uploadChunkHashes h (fs_content snapshot) storedSize) else remote)
            in if remote = uo_localHash op then finishMatchingSnapshot env 2 1 op snapshot st w
               else if uo_hasStored op \<and> se_remoteHash (uo_stored op) \<noteq> []
                 \<and> h (fs_content snapshot) \<noteq> se_remoteHash (uo_stored op) \<and> baseline \<noteq> se_remoteHash (uo_stored op)
               then sendU ((resultOf op)\<lparr>ur_conflict := True, ur_remoteHashSeen := remote, ur_remoteStat := Some st\<rparr>) w
               else publishDirty env op snapshot w)))"

definition processUploadFile :: "upload_env \<Rightarrow> upload_op \<Rightarrow> uploader \<Rightarrow> uploader" where
  "processUploadFile env op w = (if uo_chunked op then processChunkedUpload env op w else processWholeFile env op w)"

subsection \<open>The other operations\<close>

definition statOnly :: "client_err + stat_result option \<Rightarrow> stat_result option" where
  "statOnly a = (case a of Inl _ \<Rightarrow> None | Inr s \<Rightarrow> s)"

definition processUploadSymlink :: "upload_env \<Rightarrow> upload_op \<Rightarrow> uploader \<Rightarrow> uploader" where
  "processUploadSymlink env op w =
     (let p = absoluteRemotePath (uo_path op); present = statOnly (ue_stat env 0) \<noteq> None;
          w1 = (if present then emitU (URm p) w else w)
      in if present \<and> ue_rm env \<noteq> None then failU (''replace symlink: '' @ clientErrText (the (ue_rm env))) op w1
         else let w2 = emitU (ULn (uo_symlink op) p) w1 in
              case ue_ln env of
                Some e \<Rightarrow> failU (''create symlink: '' @ clientErrText e) op w2
              | None \<Rightarrow> doneU op [] (statOnly (ue_stat env 1)) w2)"

definition processUploadMkdir :: "upload_env \<Rightarrow> upload_op \<Rightarrow> uploader \<Rightarrow> uploader" where
  "processUploadMkdir env op w =
     (let w1 = emitU (UMkdir (absoluteRemotePath (uo_path op))) w in
      case ue_mkdir env of
        Some e \<Rightarrow>
          if \<not> isClientAlreadyExists (Some (clientErrText e)) then failU (''mkdir remote: '' @ clientErrText e) op w1
          else doneU op [] (statOnly (ue_stat env 0)) w1
      | None \<Rightarrow> doneU op [] (statOnly (ue_stat env 0)) w1)"

definition gone :: "client_err \<Rightarrow> bool" where
  "gone e \<longleftrightarrow> e = CRedisNil \<or> isClientNotFound (Some (clientErrText e))"

definition processUploadDelete :: "upload_env \<Rightarrow> upload_op \<Rightarrow> uploader \<Rightarrow> uploader" where
  "processUploadDelete env op w =
     (case ue_lstat env 0 of
        OsOk _ \<Rightarrow> skipU op w
      | OsError e \<Rightarrow> failU (''stat queued delete: '' @ e) op w
      | OsNotExist \<Rightarrow>
          (let w1 = emitU (URm (absoluteRemotePath (uo_path op))) w in
           case ue_rm env of
             Some e \<Rightarrow> if \<not> gone e then failU (''rm remote: '' @ clientErrText e) op w1 else sendU (resultOf op) w1
           | None \<Rightarrow> sendU (resultOf op) w1))"

definition processUploadRename :: "upload_env \<Rightarrow> upload_op \<Rightarrow> uploader \<Rightarrow> uploader" where
  "processUploadRename env op w =
     (if trimSpace (uo_prevPath op) = [] then failU ''rename upload missing previous path'' op w
      else let w1 = emitU (URename (absoluteRemotePath (uo_prevPath op)) (absoluteRemotePath (uo_path op))) w in
           case ue_rename env of
             Some e \<Rightarrow> if gone e then skipU op w1 else failU (''rename remote: '' @ clientErrText e) op w1
           | None \<Rightarrow>
               (case ue_stat env 0 of
                  Inl e \<Rightarrow> failU (''post-rename stat: '' @ clientErrText e) op w1
                | Inr st \<Rightarrow> doneU op [] st w1))"

definition processUploadChmod :: "upload_env \<Rightarrow> upload_op \<Rightarrow> uploader \<Rightarrow> uploader" where
  "processUploadChmod env op w =
     (let w1 = emitU (UChmod (absoluteRemotePath (uo_path op)) (uo_mode op) emptyContext) w in
      case ue_chmod env of
        Inl e \<Rightarrow> failU (''chmod remote: '' @ clientErrText e) op w1
      | Inr _ \<Rightarrow> doneU op [] (statOnly (ue_stat env 0)) w1)"

definition processUpload :: "upload_env \<Rightarrow> upload_op \<Rightarrow> uploader \<Rightarrow> uploader" where
  "processUpload env op =
     (case uo_kind op of
        OpUploadFile \<Rightarrow> processUploadFile env op
      | OpUploadSymlink \<Rightarrow> processUploadSymlink env op
      | OpUploadMkdir \<Rightarrow> processUploadMkdir env op
      | OpUploadDelete \<Rightarrow> processUploadDelete env op
      | OpUploadChmod \<Rightarrow> processUploadChmod env op
      | OpUploadRename \<Rightarrow> processUploadRename env op)"

text \<open>\<open>run\<close>: the queue in order; a read-only worker refuses every operation.\<close>

fun runUploader :: "bool \<Rightarrow> (upload_env \<times> upload_op) list \<Rightarrow> uploader \<Rightarrow> uploader" where
  "runUploader readonly [] w = w"
| "runUploader readonly ((env, op) # ops) w =
     runUploader readonly ops (if readonly then failU ''uploader is read-only'' op w else processUpload env op w)"

subsection \<open>Every operation is answered once\<close>

text \<open>A result belongs to an operation: all that the worker may have filled in is the content and the mode.\<close>

definition sameUpload :: "upload_op \<Rightarrow> upload_op \<Rightarrow> bool" where
  "sameUpload a b \<longleftrightarrow> (\<exists>c m. a = b\<lparr>uo_content := c, uo_mode := m\<rparr>)"

definition answered :: "upload_op \<Rightarrow> uploader \<Rightarrow> uploader \<Rightarrow> bool" where
  "answered op w w' \<longleftrightarrow>
     (\<exists>es r. up_effects w' = up_effects w @ es \<and> up_results w' = up_results w @ [r] \<and> sameUpload (ur_op r) op)"

named_theorems answers \<open>operations that are answered\<close>

lemma sameUpload_same [simp]: "sameUpload op op" "sameUpload (op\<lparr>uo_content := c\<rparr>) op" "sameUpload (op\<lparr>uo_mode := m\<rparr>) op"
proof -
  show "sameUpload op op" unfolding sameUpload_def by (intro exI [of _ "uo_content op"] exI [of _ "uo_mode op"]) simp
  show "sameUpload (op\<lparr>uo_content := c\<rparr>) op" unfolding sameUpload_def by (intro exI [of _ c] exI [of _ "uo_mode op"]) simp
  show "sameUpload (op\<lparr>uo_mode := m\<rparr>) op" unfolding sameUpload_def by (intro exI [of _ "uo_content op"] exI [of _ m]) simp
qed

lemma sameUpload_mode: "sameUpload a b \<Longrightarrow> sameUpload (a\<lparr>uo_mode := m\<rparr>) b"
proof -
  assume "sameUpload a b"
  then obtain c m' where "a = b\<lparr>uo_content := c, uo_mode := m'\<rparr>" by (auto simp: sameUpload_def)
  then have "a\<lparr>uo_mode := m\<rparr> = b\<lparr>uo_content := c, uo_mode := m\<rparr>" by simp
  then show ?thesis unfolding sameUpload_def by blast
qed

lemma sameUpload_fields:
  "sameUpload a b \<Longrightarrow> uo_kind a = uo_kind b \<and> uo_path a = uo_path b \<and> uo_prevPath a = uo_prevPath b
     \<and> uo_tracked a = uo_tracked b \<and> uo_renameVersion a = uo_renameVersion b \<and> uo_localHash a = uo_localHash b
     \<and> uo_chunked a = uo_chunked b"
  by (auto simp: sameUpload_def)

lemma resultOf_simps [simp]: "ur_op (resultOf op) = op" "ur_err (resultOf op) = None" "\<not> ur_skipped (resultOf op)"
  "\<not> ur_conflict (resultOf op)"
  by (simp_all add: resultOf_def)

lemma worker_simps [simp]:
  "up_results (sendU r w) = up_results w @ [r]" "up_effects (sendU r w) = up_effects w"
  "up_results (emitU e w) = up_results w" "up_effects (emitU e w) = up_effects w @ [e]"
  by (simp_all add: sendU_def emitU_def)

lemma answered_emit: "answered op (emitU e w) w' \<Longrightarrow> answered op w w'"
  by (auto simp: answered_def)

lemma answered_send [answers]: "sameUpload (ur_op r) op \<Longrightarrow> answered op w (sendU r w)"
  by (simp add: answered_def)

lemma answered_basic [answers]:
  "sameUpload op1 op \<Longrightarrow> answered op w (failU msg op1 w)" "sameUpload op1 op \<Longrightarrow> answered op w (skipU op1 w)"
  "sameUpload op1 op \<Longrightarrow> answered op w (conflictU op1 w)" "sameUpload op1 op \<Longrightarrow> answered op w (doneU op1 hash st w)"
  "sameUpload op1 op \<Longrightarrow> answered op w (uploadWriteError op1 e w)"
  by (simp_all add: failU_def skipU_def conflictU_def doneU_def uploadWriteError_def answered_send)

lemma answered_cases:
  "(x = None \<Longrightarrow> answered op w a) \<Longrightarrow> (\<And>y. x = Some y \<Longrightarrow> answered op w (b y)) \<Longrightarrow>
     answered op w (case x of None \<Rightarrow> a | Some y \<Rightarrow> b y)"
  "(\<And>e. z = Inl e \<Longrightarrow> answered op w (f e)) \<Longrightarrow> (\<And>v. z = Inr v \<Longrightarrow> answered op w (g v)) \<Longrightarrow>
     answered op w (case z of Inl e \<Rightarrow> f e | Inr v \<Rightarrow> g v)"
  "(c \<Longrightarrow> answered op w p) \<Longrightarrow> (\<not> c \<Longrightarrow> answered op w q) \<Longrightarrow> answered op w (if c then p else q)"
  "(\<And>v. s = OsOk v \<Longrightarrow> answered op w (i v)) \<Longrightarrow> (s = OsNotExist \<Longrightarrow> answered op w j) \<Longrightarrow>
     (\<And>e. s = OsError e \<Longrightarrow> answered op w (k e)) \<Longrightarrow>
     answered op w (case s of OsOk v \<Rightarrow> i v | OsNotExist \<Rightarrow> j | OsError e \<Rightarrow> k e)"
  by (simp_all split: option.split sum.split os_result.split)

lemma answered_current:
  "queuedFileCurrent env k op1 = Some a \<Longrightarrow> sameUpload op1 op \<Longrightarrow> answered op w (a w)"
  by (auto simp: queuedFileCurrent_def Let_def intro: answers split: if_splits os_result.splits)

lemma answered_emitted:
  assumes "sameUpload op1 op"
  shows "answered op w (failU msg op1 (emitU e w))" "answered op w (skipU op1 (emitU e w))"
    "answered op w (conflictU op1 (emitU e w))" "answered op w (doneU op1 hash st (emitU e w))"
    "answered op w (uploadWriteError op1 x (emitU e w))" "answered op w (sendU (resultOf op1) (emitU e w))"
    "answered op w (failU msg op1 (emitU e2 (emitU e w)))" "answered op w (doneU op1 hash st (emitU e2 (emitU e w)))"
  by (simp_all add: answered_def failU_def skipU_def conflictU_def doneU_def uploadWriteError_def assms)

lemma answered_finishMatching [answers]:
  "sameUpload op1 op \<Longrightarrow> answered op w (finishMatchingSnapshot env k j op1 snapshot st w)"
  unfolding finishMatchingSnapshot_def Let_def
  by (intro answered_cases answers answered_emitted; (erule answered_current | simp)?; simp?)

lemma answered_finishCommitted [answers]:
  assumes "sameUpload op1 op"
  shows "answered op w (finishCommittedUpload env op1 mode result w)"
  unfolding finishCommittedUpload_def Let_def
  by (intro answered_cases answers; simp add: assms sameUpload_mode [OF assms])

lemma answered_whole: "answered op w (processWholeFile env op w)"
proof -
  have e: "answered op w (finishCommittedUpload env op m res (emitU x w))" for x m res
    by (rule answered_emit, rule answers, simp)
  show ?thesis unfolding processWholeFile_def Let_def
    by (intro answered_cases answers answered_emitted e; (erule answered_current | simp)?; simp?)
qed

lemma answered_readDirty: "readDirty env op is = Inl a \<Longrightarrow> answered op w (a w)"
  by (induction env op "is" rule: readDirty.induct) (auto intro: answers split: if_splits os_result.splits sum.splits)

lemma answered_publishDirty [answers]: "answered op w (publishDirty env op snapshot w)"
proof -
  have e: "answered op w (finishCommittedUpload env (op\<lparr>uo_content := c\<rparr>) m res (emitU x w))" for c x m res
    by (rule answered_emit, rule answers, simp)
  show ?thesis unfolding publishDirty_def Let_def
    by (intro answered_cases answers answered_emitted e; (erule answered_current | erule answered_readDirty | simp)?; simp?)
qed

lemma answered_chunked: "answered op w (processChunkedUpload env op w)"
  unfolding processChunkedUpload_def Let_def by (intro answered_cases answers; (erule answered_current | simp)?; simp?)

lemma answered_process: "answered op w (processUpload env op w)"
proof -
  have "answered op w (processUploadSymlink env op w)"
    unfolding processUploadSymlink_def Let_def by (auto intro: answered_emitted split: option.split)
  moreover have "answered op w (processUploadMkdir env op w)"
    unfolding processUploadMkdir_def Let_def by (intro answered_cases answered_emitted; simp)
  moreover have "answered op w (processUploadDelete env op w)"
    unfolding processUploadDelete_def Let_def by (intro answered_cases answers answered_emitted; simp)
  moreover have "answered op w (processUploadRename env op w)"
    unfolding processUploadRename_def Let_def by (intro answered_cases answers answered_emitted; simp)
  moreover have "answered op w (processUploadChmod env op w)"
    unfolding processUploadChmod_def Let_def by (intro answered_cases answered_emitted; simp)
  ultimately show ?thesis
    by (simp add: processUpload_def processUploadFile_def answered_whole answered_chunked split: upload_kind.split)
qed

lemma run_answered:
  "\<exists>rs. up_results (runUploader readonly ops w) = up_results w @ rs \<and> length rs = length ops
    \<and> list_all2 (\<lambda>r (env, op). sameUpload (ur_op r) op) rs ops"
proof (induction readonly ops w rule: runUploader.induct)
  case (2 readonly env op ops w)
  define w1 where "w1 = (if readonly then failU ''uploader is read-only'' op w else processUpload env op w)"
  have "answered op w w1" unfolding w1_def using answered_process answered_basic(1) [of op op] by simp
  then obtain r where r: "up_results w1 = up_results w @ [r]" "sameUpload (ur_op r) op" by (auto simp: answered_def)
  from 2 obtain rs where "up_results (runUploader readonly ops w1) = up_results w1 @ rs" "length rs = length ops"
    "list_all2 (\<lambda>r (env, op). sameUpload (ur_op r) op) rs ops" unfolding w1_def by blast
  with r show ?case by (intro exI [of _ "r # rs"]) (simp add: w1_def)
qed simp


subsection \<open>Nothing unseen is overwritten\<close>

text \<open>
  What the worker may publish for a file: over nothing, over a file without a known baseline, or
  over the baseline; always under the condition that the snapshot is still current.
\<close>

definition seenBaseline :: "(bytes \<Rightarrow> string) \<Rightarrow> upload_op \<Rightarrow> file_snapshot \<Rightarrow> bool" where
  "seenBaseline h op s \<longleftrightarrow> fs_stat s = None \<or> \<not> uo_hasStored op \<or> se_remoteHash (uo_stored op) = []
     \<or> h (fs_content s) = se_remoteHash (uo_stored op)
     \<or> (\<exists>cs. compositeHash h (uploadChunkHashes h (fs_content s) cs) = se_remoteHash (uo_stored op))"

fun guardedWrite :: "upload_env \<Rightarrow> upload_op \<Rightarrow> upload_effect \<Rightarrow> bool" where
  "guardedWrite env op (UEcho p content c) =
     (\<exists>s. ue_snapshot env 0 = Inr s \<and> p = fs_path s \<and> content = uo_content op \<and> seenBaseline (ue_hash env) op s
        \<and> c = WriteContext s (WithFileMode (uploadMode op) emptyContext))"
| "guardedWrite env op (UWriteChunks p chunks cs sz hashes c) =
     (\<exists>s whole. ue_snapshot env 0 = Inr s \<and> p = fs_path s \<and> seenBaseline (ue_hash env) op s
        \<and> c = WriteContext s (WithFileMode (uploadMode op) emptyContext)
        \<and> uploadCandidate (nat cs) (nat sz) (fs_content s) chunks = Some whole
        \<and> compositeHash (ue_hash env) (uploadChunkHashes (ue_hash env) whole cs) = uo_localHash op)"
| "guardedWrite env op (UChmod p m c) = (\<exists>s. p = fs_path s \<and> c = WriteContext s emptyContext)"
| "guardedWrite env op _ = False"

definition emitsOnly :: "(upload_effect \<Rightarrow> bool) \<Rightarrow> uploader \<Rightarrow> uploader \<Rightarrow> bool" where
  "emitsOnly P w w' \<longleftrightarrow> (\<exists>es. up_effects w' = up_effects w @ es \<and> list_all P es)"

named_theorems quiets \<open>what the parts of the worker emit\<close>

lemma emits_basic [quiets]:
  "emitsOnly P w (failU msg op w)" "emitsOnly P w (skipU op w)" "emitsOnly P w (conflictU op w)"
  "emitsOnly P w (doneU op hash st w)" "emitsOnly P w (uploadWriteError op e w)" "emitsOnly P w (sendU r w)"
  by (simp_all add: emitsOnly_def failU_def skipU_def conflictU_def doneU_def uploadWriteError_def)

lemma emits_emit: "P e \<Longrightarrow> emitsOnly P (emitU e w) w' \<Longrightarrow> emitsOnly P w w'"
  by (force simp: emitsOnly_def)

lemma emits_emitted:
  assumes "P x"
  shows "emitsOnly P w (conflictU op (emitU x w))" "emitsOnly P w (doneU op hash st (emitU x w))"
    "emitsOnly P w (uploadWriteError op e (emitU x w))"
  using assms by (simp_all add: emitsOnly_def conflictU_def doneU_def uploadWriteError_def failU_def)

lemma emits_cases:
  "(x = None \<Longrightarrow> emitsOnly P w a) \<Longrightarrow> (\<And>y. x = Some y \<Longrightarrow> emitsOnly P w (b y)) \<Longrightarrow>
     emitsOnly P w (case x of None \<Rightarrow> a | Some y \<Rightarrow> b y)"
  "(\<And>e. z = Inl e \<Longrightarrow> emitsOnly P w (f e)) \<Longrightarrow> (\<And>v. z = Inr v \<Longrightarrow> emitsOnly P w (g v)) \<Longrightarrow>
     emitsOnly P w (case z of Inl e \<Rightarrow> f e | Inr v \<Rightarrow> g v)"
  "(c \<Longrightarrow> emitsOnly P w p) \<Longrightarrow> (\<not> c \<Longrightarrow> emitsOnly P w q) \<Longrightarrow> emitsOnly P w (if c then p else q)"
  by (simp_all split: option.split sum.split)

lemma emits_current: "queuedFileCurrent env k op = Some a \<Longrightarrow> emitsOnly P w (a w)"
  by (auto simp: queuedFileCurrent_def Let_def intro: quiets split: if_splits os_result.splits)

lemma emits_readDirty: "readDirty env op is = Inl a \<Longrightarrow> emitsOnly P w (a w)"
  by (induction env op "is" rule: readDirty.induct) (auto intro: quiets split: if_splits os_result.splits sum.splits)

lemma emits_finishMatching [quiets]:
  "emitsOnly (guardedWrite env op) w (finishMatchingSnapshot env2 k j op1 s st w)"
proof -
  have "guardedWrite env op (UChmod (fs_path s) m (WriteContext s emptyContext))" for m by auto
  note e = emits_emitted [where P = "guardedWrite env op", OF this]
  show ?thesis unfolding finishMatchingSnapshot_def Let_def
    by (intro emits_cases quiets e; (erule emits_current)?)
qed

lemma emits_finishCommitted [quiets]:
  "emitsOnly (guardedWrite env op) w (finishCommittedUpload env2 op1 mode result w)"
  unfolding finishCommittedUpload_def Let_def by (intro emits_cases quiets)

lemma emits_committed:
  "guardedWrite env op x \<Longrightarrow> emitsOnly (guardedWrite env op) w (finishCommittedUpload env2 op1 mode result (emitU x w))"
  by (rule emits_emit [where P = "guardedWrite env op" and e = x]; (assumption | rule quiets))

lemma emits_publishDirty:
  assumes "ue_snapshot env 0 = Inr s" and "seenBaseline (ue_hash env) op s"
  shows "emitsOnly (guardedWrite env op) w (publishDirty env op s w)"
proof -
  define c where "c = WriteContext s (WithFileMode (uploadMode op) emptyContext)"
  have P: "guardedWrite env op (UWriteChunks (fs_path s) chunks (uo_chunkSize op) (uo_fileSize op) hashes c)"
    if "uploadCandidate (nat (uo_chunkSize op)) (nat (uo_fileSize op)) (fs_content s) chunks = Some whole"
      "\<not> compositeHash (ue_hash env) (uploadChunkHashes (ue_hash env) whole (uo_chunkSize op)) \<noteq> uo_localHash op"
    for chunks whole hashes using assms that by (auto simp: c_def)
  show ?thesis unfolding publishDirty_def Let_def c_def [symmetric]
    by (intro emits_cases quiets; (erule emits_current | erule emits_readDirty)?)
      (rule emits_emitted(3) emits_committed, rule P, assumption+)+
qed

lemma emits_uploadFile: "emitsOnly (guardedWrite env op) w (processUploadFile env op w)"
proof -
  have b: "seenBaseline (ue_hash env) op s"
    if "\<not> (uo_hasStored op \<and> se_remoteHash (uo_stored op) \<noteq> [] \<and> \<not> matchesBaseline (ue_hash env) op (fs_content s))" for s
    using that by (auto simp: seenBaseline_def matchesBaseline_def)
  have n: "seenBaseline (ue_hash env) op s" if "fs_stat s = None" for s
    using that by (simp add: seenBaseline_def)
  have P: "guardedWrite env op (UEcho (fs_path s) (uo_content op) (WriteContext s (WithFileMode (uploadMode op) emptyContext)))"
    if "ue_snapshot env 0 = Inr s" "seenBaseline (ue_hash env) op s" for s using that by auto
  have "emitsOnly (guardedWrite env op) w (processWholeFile env op w)"
    unfolding processWholeFile_def Let_def
    by (intro emits_cases quiets; (erule emits_current)?;
        (rule emits_emitted(3) emits_committed, rule P, assumption, rule n b, assumption)?)
  moreover have "emitsOnly (guardedWrite env op) w (processChunkedUpload env op w)"
    unfolding processChunkedUpload_def Let_def
    by (intro emits_cases quiets emits_publishDirty; ((erule emits_current)?; (auto simp: seenBaseline_def split: if_splits)?))
  ultimately show ?thesis by (simp add: processUploadFile_def emitsOnly_def)
qed


subsection \<open>History and change log\<close>

record versioned_snapshot =
  vs_path :: path
  vs_exists :: bool
  vs_kind :: string
  vs_mode :: u32
  vs_content :: bytes
  vs_target :: string
  vs_blobID :: string
  vs_contentHash :: string
  vs_size :: int

definition emptyVersion :: "path \<Rightarrow> versioned_snapshot" where
  "emptyVersion p = \<lparr>vs_path = p, vs_exists = False, vs_kind = [], vs_mode = 0, vs_content = [], vs_target = [],
     vs_blobID = [], vs_contentHash = [], vs_size = 0\<rparr>"

definition versionedSnapshotFromSyncEntry :: "path \<Rightarrow> sync_entry \<Rightarrow> bool \<Rightarrow> versioned_snapshot" where
  "versionedSnapshotFromSyncEntry p e hasStored =
     (if \<not> hasStored \<or> se_type e = ''dir'' then emptyVersion p
      else let s = (emptyVersion p)\<lparr>vs_exists := \<not> se_deleted e, vs_mode := se_mode e, vs_contentHash := se_remoteHash e\<rparr>
           in if se_type e = ''symlink''
              then s\<lparr>vs_kind := ''symlink'', vs_target := se_target e, vs_size := int (length (se_target e))\<rparr>
              else s\<lparr>vs_kind := ''file'', vs_blobID := se_remoteHash e, vs_size := se_size e\<rparr>)"

text \<open>
  The history snapshot of a result, and whether it is tracked.  The bytes of a chunked upload are the
  published candidate, or the local file when the operation carries none; they must have the hash of
  the operation.
\<close>

definition versionedSnapshotFromUploadResult ::
    "(bytes \<Rightarrow> string) \<Rightarrow> bytes os_result \<Rightarrow> upload_result \<Rightarrow> string + (versioned_snapshot \<times> bool)" where
  "versionedSnapshotFromUploadResult h disk r =
     (let op = ur_op r; p = absoluteRemotePath (uo_path op) in
      case uo_kind op of
        OpUploadFile \<Rightarrow>
          (let s = (emptyVersion p)\<lparr>vs_exists := True, vs_kind := ''file'', vs_mode := uploadMode op,
                     vs_contentHash := uo_localHash op, vs_blobID := uo_localHash op\<rparr>;
               data = (if \<not> uo_chunked op then Inr (uo_content op)
                       else case (if uo_content op = [] then disk else OsOk (uo_content op)) of
                              OsOk d \<Rightarrow> if compositeHash h (uploadChunkHashes h d (uo_chunkSize op)) \<noteq> uo_localHash op
                                          then Inl ''chunked history source changed after upload'' else Inr d
                            | OsNotExist \<Rightarrow> Inl ''read chunked upload'' | OsError e \<Rightarrow> Inl e)
           in case data of
                Inl e \<Rightarrow> Inl e
              | Inr d \<Rightarrow>
                  Inr (s\<lparr>vs_content := d, vs_size := (case ur_remoteStat r of
                         Some st \<Rightarrow> if d = [] then st_size st else int (length d) | None \<Rightarrow> int (length d))\<rparr>, True))
      | OpUploadSymlink \<Rightarrow> Inr ((emptyVersion p)\<lparr>vs_exists := True, vs_kind := ''symlink'', vs_mode := uo_mode op,
                              vs_target := uo_symlink op\<rparr>, True)
      | OpUploadDelete \<Rightarrow> Inr (emptyVersion p, \<not> (uo_hasStored op \<and> se_type (uo_stored op) = ''dir''))
      | OpUploadRename \<Rightarrow>
          (if \<not> uo_hasStored op then Inr (emptyVersion [], False)
           else let s = versionedSnapshotFromSyncEntry p (uo_stored op) True
                in Inr (s\<lparr>vs_path := p, vs_exists := True, vs_mode := (if vs_mode s = 0 then uo_mode op else vs_mode s)\<rparr>, True))
      | OpUploadChmod \<Rightarrow>
          (let before = versionedSnapshotFromSyncEntry p (uo_stored op) (uo_hasStored op)
           in if \<not> vs_exists before then Inr (emptyVersion [], False) else Inr (before\<lparr>vs_mode := uo_mode op\<rparr>, True))
      | OpUploadMkdir \<Rightarrow> Inr (emptyVersion [], False))"

record change_entry =
  ce_op :: string
  ce_path :: path
  ce_prevPath :: path
  ce_size :: int
  ce_delta :: int
  ce_contentHash :: string
  ce_prevHash :: string
  ce_mode :: u32

text \<open>\<open>emitChange\<close>: the change log entry of a result, if it gets one.\<close>

definition emitChange :: "bool \<Rightarrow> upload_result \<Rightarrow> change_entry option" where
  "emitChange mounted r =
     (if \<not> mounted \<or> ur_err r \<noteq> None \<or> ur_conflict r \<or> ur_skipped r then None
      else let op = ur_op r;
               prev = (if uo_hasStored op then se_size (uo_stored op) else 0);
               e = \<lparr>ce_op = [], ce_path = uo_path op, ce_prevPath = [], ce_size = 0, ce_delta = 0, ce_contentHash = [],
                    ce_prevHash = (if uo_hasStored op then se_remoteHash (uo_stored op) else []), ce_mode = 0\<rparr>
           in Some (case uo_kind op of
             OpUploadFile \<Rightarrow>
               (let size = (if uo_chunked op then uo_fileSize op else int (length (uo_content op)))
                in e\<lparr>ce_op := ''put'', ce_contentHash := uo_localHash op, ce_size := size, ce_delta := size - prev,
                     ce_mode := uo_mode op\<rparr>)
           | OpUploadSymlink \<Rightarrow> e\<lparr>ce_op := ''symlink'', ce_contentHash := ''symlink:'' @ uo_symlink op, ce_mode := uo_mode op\<rparr>
           | OpUploadMkdir \<Rightarrow> e\<lparr>ce_op := ''mkdir'', ce_mode := uo_mode op\<rparr>
           | OpUploadDelete \<Rightarrow>
               e\<lparr>ce_op := (if uo_hasStored op \<and> se_type (uo_stored op) = ''dir'' then ''rmdir'' else ''delete''),
                 ce_delta := (if 0 < prev then - prev else 0)\<rparr>
           | OpUploadChmod \<Rightarrow> e\<lparr>ce_op := ''chmod'', ce_mode := uo_mode op, ce_contentHash := uo_localHash op\<rparr>
           | OpUploadRename \<Rightarrow> e\<lparr>ce_op := ''rename'', ce_prevPath := uo_prevPath op, ce_mode := uo_mode op,
                                 ce_contentHash := uo_localHash op\<rparr>))"

text \<open>
  The history of one file: the committed results of puts and deletes, each staged against the size
  that the one before left.
\<close>

fun fileHistory :: "int \<Rightarrow> upload_result list \<Rightarrow> int \<Rightarrow> bool" where
  "fileHistory start [] final = (start = final)"
| "fileHistory start (r # rs) final =
     (0 \<le> start \<and> uo_hasStored (ur_op r) \<and> se_size (uo_stored (ur_op r)) = start
      \<and> ur_err r = None \<and> \<not> ur_conflict r \<and> \<not> ur_skipped r
      \<and> (uo_kind (ur_op r) = OpUploadFile
           \<and> fileHistory (if uo_chunked (ur_op r) then uo_fileSize (ur_op r) else int (length (uo_content (ur_op r)))) rs final
         \<or> uo_kind (ur_op r) = OpUploadDelete \<and> fileHistory 0 rs final))"

text \<open>
  The change log adds up: over any sequence of committed puts and deletes of a file, the logged
  byte changes sum to the difference between the final and the first size, and every result of the
  sequence is logged.
\<close>

theorem change_log_adds_up:
  assumes "fileHistory start rs final"
  shows "sum_list (map (ce_delta \<circ> the \<circ> emitChange True) rs) = final - start
    \<and> (\<forall>r \<in> set rs. emitChange True r \<noteq> None)"
  using assms
proof (induction start rs final rule: fileHistory.induct)
  case (2 start r rs final)
  from 2(3) have prev: "(if uo_hasStored (ur_op r) then se_size (uo_stored (ur_op r)) else 0) = start" "0 \<le> start" by auto
  have some: "emitChange True r \<noteq> None" using 2(3) by (simp add: emitChange_def Let_def)
  from 2(3) consider
    (put) "uo_kind (ur_op r) = OpUploadFile"
      "fileHistory (if uo_chunked (ur_op r) then uo_fileSize (ur_op r) else int (length (uo_content (ur_op r)))) rs final"
  | (del) "uo_kind (ur_op r) = OpUploadDelete" "fileHistory 0 rs final" by auto
  then show ?case
  proof cases
    case put
    then have "ce_delta (the (emitChange True r))
        = (if uo_chunked (ur_op r) then uo_fileSize (ur_op r) else int (length (uo_content (ur_op r)))) - start"
      using 2(3) prev by (simp add: emitChange_def Let_def)
    with 2(1) [OF put(2)] some show ?thesis by simp
  next
    case del
    then have "ce_delta (the (emitChange True r)) = - start"
      using 2(3) prev by (simp add: emitChange_def Let_def)
    with 2(2) [OF del(2)] some show ?thesis by simp
  qed
qed simp

theorem change_log_adds_up_witness:
  "let put = (resultOf (zeroUploadOp\<lparr>uo_content := ''abc'', uo_stored := zeroEntry\<lparr>se_size := 1\<rparr>, uo_hasStored := True\<rparr>));
       del = (resultOf (zeroUploadOp\<lparr>uo_kind := OpUploadDelete, uo_stored := zeroEntry\<lparr>se_size := 3\<rparr>, uo_hasStored := True\<rparr>))
   in sum_list (map (ce_delta \<circ> the \<circ> emitChange True) [put, del]) = -1"
proof -
  let ?put = "(resultOf (zeroUploadOp\<lparr>uo_content := ''abc'', uo_stored := zeroEntry\<lparr>se_size := 1\<rparr>, uo_hasStored := True\<rparr>))"
  let ?del = "(resultOf (zeroUploadOp\<lparr>uo_kind := OpUploadDelete, uo_stored := zeroEntry\<lparr>se_size := 3\<rparr>, uo_hasStored := True\<rparr>))"
  have "fileHistory 1 [?put, ?del] 0" by (simp add: zeroUploadOp_def)
  from change_log_adds_up [OF this] show ?thesis by (simp add: Let_def)
qed

end
