(* ===== verification/DownloadWorker.thy ===== *)
theory DownloadWorker
  imports SyncChunks FileSnapshots
begin

text \<open>
  The download worker (\<open>cmd/afs/sync_downloader.go\<close>): one function per kind of operation, the
  snapshot of the local destination and the checks against it, the staged replacement of a local
  file with its conflict copy (\<open>moveLocalToConflict\<close> of \<open>sync_conflict.go\<close>), and the echo
  expectation each change leaves for the watcher.

  A run appends the changes it makes to the local tree and the results it sends.  The answers of
  repeated calls are numbered in program order; a function that is delegated to numbers on from
  \<open>k\<close>.  A file is replaced by renaming a complete sibling over it, so \<open>LWriteFile\<close> stands
  for the rename; the sibling itself is not part of the synchronised tree.
\<close>

unbundle bit_operations_syntax

subsection \<open>The worker\<close>

record downloader =
  dn_effects :: "effect list"
  dn_echo :: echo_map
  dn_results :: "download_result list"

record download_env =
  dl_cancel :: "nat \<Rightarrow> string option"
  dl_lstat :: "nat \<Rightarrow> file_info os_result"
  dl_readlink :: "nat \<Rightarrow> string os_result"
  dl_read :: "nat \<Rightarrow> bytes os_result"
  dl_stat :: "nat \<Rightarrow> client_err + stat_result option"
  dl_remoteLink :: "nat \<Rightarrow> client_err + string"
  dl_snapshot :: "nat \<Rightarrow> client_err + file_snapshot"
  dl_chunkMeta :: "client_err + (int \<times> string list)"
  dl_chunks :: "client_err + (nat \<times> bytes) list"
  dl_mkdirAll :: "string option"
  dl_stage :: "string option"
  dl_conflictMove :: "string + path"
  dl_remove :: "string option"
  dl_rename :: "string option"
  dl_chmod :: "string option"
  dl_hash :: "bytes \<Rightarrow> string"
  dl_readonly :: bool

definition downloadResultOf :: "download_op \<Rightarrow> download_result" where
  "downloadResultOf op = \<lparr>dr_op = op, dr_err = None, dr_skipped = False, dr_remoteHash = [], dr_remoteStat = None,
     dr_conflictPath = [], dr_mode = 0, dr_size = 0, dr_mtimeMs = 0, dr_localMtimeMs = 0, dr_target = []\<rparr>"

definition sendD :: "download_result \<Rightarrow> downloader \<Rightarrow> downloader" where
  "sendD r w = w\<lparr>dn_results := dn_results w @ [r]\<rparr>"

definition emitD :: "effect \<Rightarrow> downloader \<Rightarrow> downloader" where
  "emitD e w = w\<lparr>dn_effects := dn_effects w @ [e]\<rparr>"

definition markD :: "path \<Rightarrow> echo_expectation \<Rightarrow> downloader \<Rightarrow> downloader" where
  "markD p x w = w\<lparr>dn_echo := markEcho p x (dn_echo w)\<rparr>"

definition failD :: "string \<Rightarrow> download_op \<Rightarrow> downloader \<Rightarrow> downloader" where
  "failD msg op = sendD ((downloadResultOf op)\<lparr>dr_err := Some msg\<rparr>)"

definition skipD :: "download_op \<Rightarrow> downloader \<Rightarrow> downloader" where
  "skipD op = sendD ((downloadResultOf op)\<lparr>dr_skipped := True\<rparr>)"

text \<open>\<open>cancelled\<close>: the \<open>k\<close>-th look at the context answers the operation when it is done.\<close>

definition unlessCancelled ::
    "download_env \<Rightarrow> nat \<Rightarrow> download_op \<Rightarrow> (downloader \<Rightarrow> downloader) \<Rightarrow> downloader \<Rightarrow> downloader" where
  "unlessCancelled env k op cont w = (case dl_cancel env k of Some e \<Rightarrow> failD e op w | None \<Rightarrow> cont w)"

definition osFailure :: "'a os_result \<Rightarrow> string" where
  "osFailure r = (case r of OsError e \<Rightarrow> e | _ \<Rightarrow> ''no such file or directory'')"

subsection \<open>The local destination\<close>

record local_snapshot =
  ls_info :: "file_info option"
  ls_hash :: string
  ls_baselineHash :: string
  ls_target :: string

definition noLocal :: local_snapshot where
  "noLocal = \<lparr>ls_info = None, ls_hash = [], ls_baselineHash = [], ls_target = []\<rparr>"

text \<open>The hash and the chunk hashes come from two reads of the file.\<close>

definition snapshotDownloadLocal :: "download_env \<Rightarrow> nat \<Rightarrow> sync_entry \<Rightarrow> string + local_snapshot" where
  "snapshotDownloadLocal env k stored =
     (case dl_lstat env k of
        OsNotExist \<Rightarrow> Inr noLocal
      | OsError e \<Rightarrow> Inl e
      | OsOk info \<Rightarrow>
          (let s = noLocal\<lparr>ls_info := Some info\<rparr> in
           case fi_kind info of
             ISymlink \<Rightarrow> (case dl_readlink env k of OsOk t \<Rightarrow> Inr (s\<lparr>ls_target := t\<rparr>) | r \<Rightarrow> Inl (osFailure r))
           | IRegular \<Rightarrow>
               (case dl_read env k of
                  OsOk data \<Rightarrow>
                    (let s1 = s\<lparr>ls_hash := dl_hash env data, ls_baselineHash := dl_hash env data\<rparr> in
                     if se_chunkSize stored \<le> 0 then Inr s1
                     else case streamChunkHashes (dl_hash env) (dl_read env (k + 1)) (se_chunkSize stored) of
                            OsOk (hashes, _) \<Rightarrow> Inr (s1\<lparr>ls_baselineHash := compositeHash (dl_hash env) hashes\<rparr>)
                          | r \<Rightarrow> Inl (osFailure r))
                | r \<Rightarrow> Inl (osFailure r))
           | _ \<Rightarrow> Inr s))"

definition sameInfo :: "file_info \<Rightarrow> file_info \<Rightarrow> bool" where
  "sameInfo a b \<longleftrightarrow> fi_ident a = fi_ident b \<and> fi_kind a = fi_kind b \<and> fi_perm a = fi_perm b
     \<and> fi_size a = fi_size b \<and> fi_mtimeNs a = fi_mtimeNs b"

text \<open>\<open>unchanged\<close>, asked with the \<open>k\<close>-th \<open>Lstat\<close>.\<close>

definition localUnchanged :: "download_env \<Rightarrow> nat \<Rightarrow> file_info option \<Rightarrow> bool" where
  "localUnchanged env k seen =
     (case seen of
        None \<Rightarrow> dl_lstat env k = OsNotExist
      | Some info \<Rightarrow> (case dl_lstat env k of OsOk now \<Rightarrow> sameInfo info now | _ \<Rightarrow> False))"

definition matchesStored :: "local_snapshot \<Rightarrow> download_op \<Rightarrow> bool" where
  "matchesStored s op =
     (let stored = do_stored op in
      case ls_info s of
        None \<Rightarrow> \<not> do_hasStored op \<or> se_deleted stored
      | Some info \<Rightarrow>
          if \<not> do_hasStored op \<or> se_deleted stored then False
          else case fi_kind info of
            IRegular \<Rightarrow> se_type stored = ''file'' \<and> fi_perm info = (se_mode stored AND 511) \<and> fi_size info = se_size stored
              \<and> se_localHash stored \<noteq> [] \<and> (ls_hash s = se_localHash stored \<or> ls_baselineHash s = se_localHash stored)
          | ISymlink \<Rightarrow> se_type stored = ''symlink'' \<and> ls_target s = se_target stored
          | IDir \<Rightarrow> se_type stored = ''dir'' \<and> fi_perm info = (se_mode stored AND 511)
          | IOther \<Rightarrow> False)"

definition sendFileResult ::
    "download_env \<Rightarrow> nat \<Rightarrow> download_op \<Rightarrow> stat_result \<Rightarrow> string \<Rightarrow> path \<Rightarrow> u32 \<Rightarrow> int \<Rightarrow> downloader \<Rightarrow> downloader" where
  "sendFileResult env k op st hash aside mode sz w =
     (case dl_lstat env k of
        OsOk info \<Rightarrow>
          sendD ((downloadResultOf op)\<lparr>dr_remoteHash := hash, dr_remoteStat := Some st, dr_conflictPath := aside,
            dr_mode := mode, dr_size := sz, dr_mtimeMs := st_mtime st, dr_localMtimeMs := unixMilli (fi_mtimeNs info)\<rparr>) w
      | r \<Rightarrow> failD (osFailure r) op w)"

subsection \<open>Replacing a local file\<close>

text \<open>\<open>moveLocalToConflict\<close>: a missing file is not moved; \<open>dl_conflictMove\<close> is the rest of it.\<close>

definition moveLocalToConflict :: "download_env \<Rightarrow> nat \<Rightarrow> path \<Rightarrow> downloader \<Rightarrow> (string + path) \<times> downloader" where
  "moveLocalToConflict env k p w =
     (case dl_lstat env k of
        OsNotExist \<Rightarrow> (Inr [], w)
      | OsError e \<Rightarrow> (Inl e, w)
      | OsOk _ \<Rightarrow>
          (case dl_conflictMove env of
             Inl e \<Rightarrow> (Inl e, w)
           | Inr target \<Rightarrow> (Inr target, emitD (LMoveToConflict p) w)))"

datatype stage_err = LocalChanged | StageFailed string

definition stageErrText :: "stage_err \<Rightarrow> string" where
  "stageErrText e = (case e of LocalChanged \<Rightarrow> ''local destination changed while staging download'' | StageFailed m \<Rightarrow> m)"

text \<open>
  \<open>writeLocalFile\<close>: \<open>staged\<close> is what the \<open>write\<close> callback leaves in the sibling file,
  \<open>dl_stage\<close> a failure of creating, protecting, syncing or closing it.
\<close>

definition writeLocalFile ::
    "download_env \<Rightarrow> nat \<Rightarrow> download_op \<Rightarrow> u32 \<Rightarrow> string + bytes \<Rightarrow> downloader \<Rightarrow> (stage_err + path) \<times> downloader" where
  "writeLocalFile env k op mode staged w =
     (case dl_cancel env k of Some e \<Rightarrow> (Inl (StageFailed e), w) | None \<Rightarrow>
      (let w1 = emitD (LMkdirAll (parentDir (do_path op))) w in
       case dl_mkdirAll env of Some e \<Rightarrow> (Inl (StageFailed e), w1) | None \<Rightarrow>
       case dl_cancel env (k + 1) of Some e \<Rightarrow> (Inl (StageFailed e), w1) | None \<Rightarrow>
       (let put = (\<lambda>seen.
          (case staged of Inl e \<Rightarrow> (Inl (StageFailed e), w1) | Inr content \<Rightarrow>
           case dl_stage env of Some e \<Rightarrow> (Inl (StageFailed e), w1) | None \<Rightarrow>
           case dl_cancel env (k + 2) of Some e \<Rightarrow> (Inl (StageFailed e), w1) | None \<Rightarrow>
           if \<not> localUnchanged env (k + 1) seen then (Inl LocalChanged, w1)
           else let moved = (if do_conflict op then moveLocalToConflict env (k + 2) (do_path op) w1 else (Inr [], w1)) in
                case fst moved of
                  Inl e \<Rightarrow> (Inl (StageFailed e), snd moved)
                | Inr aside \<Rightarrow>
                    (case dl_rename env of
                       Some e \<Rightarrow> (Inl (StageFailed e), snd moved)
                     | None \<Rightarrow> (Inr aside, emitD (LWriteFile (do_path op) content (mode AND 4095)) (snd moved)))))
        in case dl_lstat env k of
             OsError e \<Rightarrow> (Inl (StageFailed e), w1)
           | OsNotExist \<Rightarrow> put None
           | OsOk info \<Rightarrow> put (Some info))))"

definition finishWrite ::
    "download_op \<Rightarrow> string \<Rightarrow> (path \<Rightarrow> downloader \<Rightarrow> downloader) \<Rightarrow> (stage_err + path) \<times> downloader \<Rightarrow> downloader" where
  "finishWrite op hash cont out =
     (case fst out of
        Inl e \<Rightarrow> sendD ((downloadResultOf op)\<lparr>dr_skipped := (e = LocalChanged), dr_err := Some (stageErrText e)\<rparr>) (snd out)
      | Inr aside \<Rightarrow> cont aside (markD (do_path op) (EchoFile hash) (snd out)))"

subsection \<open>Directories, deletes and modes\<close>

definition processDownloadMkdir :: "download_env \<Rightarrow> nat \<Rightarrow> download_op \<Rightarrow> downloader \<Rightarrow> downloader" where
  "processDownloadMkdir env k op =
     unlessCancelled env k op (\<lambda>w.
       let w1 = emitD (LMkdirAll (do_path op)) w in
       case dl_mkdirAll env of
         Some e \<Rightarrow> failD (''mkdir local: '' @ e) op w1
       | None \<Rightarrow> sendD (downloadResultOf op) (markD (do_path op) EchoDir w1))"

text \<open>The removal itself may fail: the code ignores its error, and so does the model's effect.\<close>

definition removeLocalFile :: "download_env \<Rightarrow> nat \<Rightarrow> download_op \<Rightarrow> downloader \<Rightarrow> string option \<times> downloader" where
  "removeLocalFile env k op w =
     (case dl_cancel env k of Some e \<Rightarrow> (Some e, w) | None \<Rightarrow>
      case dl_lstat env k of
        OsOk info \<Rightarrow>
          (case dl_cancel env (k + 1) of Some e \<Rightarrow> (Some e, w) | None \<Rightarrow>
           let w1 = markD (do_path op) EchoDelete w in
           (None, emitD (if fi_kind info = IDir then LRemoveAll (do_path op) else LRemove (do_path op)) w1))
      | _ \<Rightarrow> (None, w))"

definition processDownloadDelete :: "download_env \<Rightarrow> nat \<Rightarrow> download_op \<Rightarrow> downloader \<Rightarrow> downloader" where
  "processDownloadDelete env k op w =
     (let out = removeLocalFile env k op w in sendD ((downloadResultOf op)\<lparr>dr_err := fst out\<rparr>) (snd out))"

definition processDownloadChmod :: "download_env \<Rightarrow> nat \<Rightarrow> download_op \<Rightarrow> downloader \<Rightarrow> downloader" where
  "processDownloadChmod env k op =
     unlessCancelled env k op (\<lambda>w.
       case dl_chmod env of
         Some e \<Rightarrow> failD e op w
       | None \<Rightarrow> sendD ((downloadResultOf op)\<lparr>dr_mode := do_mode op\<rparr>)
                   (emitD (LChmod (do_path op) (do_mode op AND 4095)) w))"

subsection \<open>Symbolic links\<close>

text \<open>
  The last part: put the staged link in place.  An \<open>Lstat\<close> before the check decides whether an empty
  directory has to be removed first.
\<close>

definition placeSymlink :: "download_env \<Rightarrow> nat \<Rightarrow> download_op \<Rightarrow> local_snapshot \<Rightarrow> downloader \<Rightarrow> downloader" where
  "placeSymlink env k op seen w =
     (if \<not> localUnchanged env (k + 3) (ls_info seen) then skipD op w
      else let isDir = (case dl_lstat env (k + 2) of OsOk info \<Rightarrow> fi_kind info = IDir | _ \<Rightarrow> False);
               cleared = (if do_conflict op then moveLocalToConflict env (k + 4) (do_path op) w
                          else if isDir then
                            (case dl_remove env of Some e \<Rightarrow> (Inl e, w) | None \<Rightarrow> (Inr [], emitD (LRemove (do_path op)) w))
                          else (Inr [], w))
           in case fst cleared of
                Inl e \<Rightarrow> failD e op (snd cleared)
              | Inr aside \<Rightarrow>
                  (case dl_rename env of
                     Some e \<Rightarrow> failD e op (snd cleared)
                   | None \<Rightarrow>
                       (let w2 = markD (do_path op) (EchoSymlink (do_symlink op))
                                   (emitD (LSymlink (do_path op) (do_symlink op)) (snd cleared))
                        in case dl_lstat env (k + 5) of
                             OsOk info \<Rightarrow> sendD ((downloadResultOf op)\<lparr>dr_target := do_symlink op, dr_conflictPath := aside,
                                            dr_localMtimeMs := unixMilli (fi_mtimeNs info)\<rparr>) w2
                           | r \<Rightarrow> failD (osFailure r) op w2)))"

definition linkInPlace :: "local_snapshot \<Rightarrow> string \<Rightarrow> file_info option" where
  "linkInPlace s target =
     (case ls_info s of
        Some info \<Rightarrow> if fi_kind info = ISymlink \<and> ls_target s = target then Some info else None
      | None \<Rightarrow> None)"

definition processDownloadSymlink :: "download_env \<Rightarrow> nat \<Rightarrow> download_op \<Rightarrow> downloader \<Rightarrow> downloader" where
  "processDownloadSymlink env k op0 w =
     (case snapshotDownloadLocal env k (do_stored op0) of Inl e \<Rightarrow> failD e op0 w | Inr seen \<Rightarrow>
      case (if do_symlink op0 = [] then dl_remoteLink env k else Inr (do_symlink op0)) of
        Inl e \<Rightarrow> failD (clientErrText e) op0 w
      | Inr target \<Rightarrow>
      (let op = op0\<lparr>do_symlink := target\<rparr> in
       unlessCancelled env k op (\<lambda>w.
         if \<not> localUnchanged env (k + 1) (ls_info seen) then skipD op w
         else case linkInPlace seen (do_symlink op) of
           Some info \<Rightarrow> sendD ((downloadResultOf op)\<lparr>dr_target := do_symlink op,
                          dr_localMtimeMs := unixMilli (fi_mtimeNs info)\<rparr>) w
         | None \<Rightarrow>
             if \<not> do_conflict op \<and> \<not> matchesStored seen op then skipD op w
             else let w1 = emitD (LMkdirAll (parentDir (do_path op))) w in
               case dl_mkdirAll env of
                 Some e \<Rightarrow> failD e op w1
               | None \<Rightarrow>
                   unlessCancelled env (k + 1) op (\<lambda>w.
                     case dl_stage env of
                       Some e \<Rightarrow> failD e op w
                     | None \<Rightarrow> unlessCancelled env (k + 2) op (placeSymlink env k op seen) w) w1) w))"

subsection \<open>Whole files\<close>

definition localMode :: "download_env \<Rightarrow> stat_result \<Rightarrow> u32" where
  "localMode env st = (if dl_readonly env then 292 else st_mode st)"

text \<open>The local file already has the bytes and the mode of the snapshot.\<close>

definition alreadyLocal :: "local_snapshot \<Rightarrow> string \<Rightarrow> u32 \<Rightarrow> bool" where
  "alreadyLocal s hash mode =
     (case ls_info s of
        Some info \<Rightarrow> fi_kind info = IRegular \<and> ls_hash s = hash \<and> fi_perm info = (mode AND 511)
      | None \<Rightarrow> False)"

definition adoptSnapshot ::
    "download_env \<Rightarrow> nat \<Rightarrow> download_op \<Rightarrow> local_snapshot \<Rightarrow> stat_result \<Rightarrow> bytes \<Rightarrow> downloader \<Rightarrow> downloader" where
  "adoptSnapshot env k op seen st data w =
     (let hash = dl_hash env data; mode = localMode env st; sz = int (length data) in
      if \<not> localUnchanged env (k + 1) (ls_info seen) then skipD op w
      else if alreadyLocal seen hash mode then sendFileResult env (k + 2) op st hash [] mode sz w
      else if \<not> do_conflict op \<and> \<not> matchesStored seen op then skipD op w
      else finishWrite op hash (\<lambda>aside. sendFileResult env (k + 5) op st hash aside mode sz)
             (writeLocalFile env (k + 2) op mode (Inr data) w))"

text \<open>A remote \<open>Stat\<close>: an error that says the path is missing is no error.\<close>

definition remoteOrGone :: "client_err + stat_result option \<Rightarrow> client_err + stat_result option" where
  "remoteOrGone a = (case a of
     Inl e \<Rightarrow> if isClientNotFound (Some (clientErrText e)) then Inr None else Inl e
   | Inr s \<Rightarrow> Inr s)"

text \<open>
  A path that turns out to be gone, a directory or a link is handled by the function of that kind;
  only for a path that is gone the kind of the operation is changed too.
\<close>

definition processDownloadWhole :: "download_env \<Rightarrow> nat \<Rightarrow> download_op \<Rightarrow> downloader \<Rightarrow> downloader" where
  "processDownloadWhole env k op w =
     (case snapshotDownloadLocal env k (do_stored op) of Inl e \<Rightarrow> failD e op w | Inr seen \<Rightarrow>
      case remoteOrGone (dl_stat env k) of
        Inl e \<Rightarrow> failD (''stat remote: '' @ clientErrText e) op w
      | Inr remote \<Rightarrow>
      unlessCancelled env k op (\<lambda>w.
        case remote of
          None \<Rightarrow>
            if \<not> localUnchanged env (k + 1) (ls_info seen) \<or> \<not> matchesStored seen op then skipD op w
            else processDownloadDelete env (k + 10) (op\<lparr>do_kind := OpDownloadDelete\<rparr>) w
        | Some st \<Rightarrow>
            if st_type st = ''dir'' then processDownloadMkdir env (k + 10) op w
            else if st_type st = ''symlink'' then
              (case dl_remoteLink env k of
                 Inl e \<Rightarrow> failD (clientErrText e) op w
               | Inr target \<Rightarrow> processDownloadSymlink env (k + 10) (op\<lparr>do_symlink := target\<rparr>) w)
            else case dl_snapshot env k of
              Inl e \<Rightarrow> failD (''read remote: '' @ clientErrText e) op w
            | Inr snapshot \<Rightarrow>
                (case fs_stat snapshot of
                   None \<Rightarrow> skipD op w
                 | Some st2 \<Rightarrow>
                     unlessCancelled env (k + 1) op (adoptSnapshot env k op seen st2 (fs_content snapshot)) w)) w)"

subsection \<open>Chunked files\<close>

definition wholeFileOp :: "download_op \<Rightarrow> download_op" where
  "wholeFileOp op =
     op\<lparr>do_chunked := False, do_fileSize := 0, do_chunkSize := 0, do_chunkHashes := [], do_dirtyChunks := []\<rparr>"

text \<open>\<open>chunkData[idx]\<close>: a chunk the answer does not contain reads as empty.\<close>

definition chunkAt :: "(nat \<times> bytes) list \<Rightarrow> nat \<Rightarrow> bytes" where
  "chunkAt chunks i = (case map_of chunks i of Some d \<Rightarrow> d | None \<Rightarrow> [])"

definition chunksVerified :: "(bytes \<Rightarrow> string) \<Rightarrow> download_op \<Rightarrow> (nat \<times> bytes) list \<Rightarrow> bool" where
  "chunksVerified h op chunks \<longleftrightarrow>
     list_all (\<lambda>i. i < length (do_chunkHashes op) \<and> h (chunkAt chunks i) = do_chunkHashes op ! i) (do_dirtyChunks op)"

text \<open>The sibling file of a patch: the local bytes, if there is a regular file, then the chunks.\<close>

definition stagedPatch :: "download_env \<Rightarrow> nat \<Rightarrow> download_op \<Rightarrow> (nat \<times> bytes) list \<Rightarrow> string + bytes" where
  "stagedPatch env k op chunks =
     (let patch = (\<lambda>base.
        case (if chunks = [] then None else dl_cancel env (k + 1)) of Some e \<Rightarrow> Inl e | None \<Rightarrow>
        case dl_cancel env (k + 2) of Some e \<Rightarrow> Inl e | None \<Rightarrow>
        Inr (patchDownload (nat (do_chunkSize op)) (nat (do_fileSize op)) base chunks)) in
      case dl_read env k of
        OsNotExist \<Rightarrow> patch []
      | OsError e \<Rightarrow> Inl e
      | OsOk base \<Rightarrow>
          (case dl_lstat env k of
             OsOk info \<Rightarrow> if fi_kind info \<noteq> IRegular then Inl ''chunk destination is not a regular file'' else patch base
           | r \<Rightarrow> Inl (osFailure r)))"

definition adoptChunks ::
    "download_env \<Rightarrow> nat \<Rightarrow> download_op \<Rightarrow> local_snapshot \<Rightarrow> file_info \<Rightarrow> stat_result \<Rightarrow> (nat \<times> bytes) list \<Rightarrow> downloader \<Rightarrow> downloader" where
  "adoptChunks env k op seen info st chunks w =
     (case dl_stat env (k + 2) of Inl e \<Rightarrow> failD (clientErrText e) op w | Inr after \<Rightarrow>
      if \<not> SameFileRevision (Some st) after then skipD op w
      else if \<not> localUnchanged env (k + 1) (ls_info seen) then skipD op w
      else if \<not> chunksVerified (dl_hash env) op chunks then skipD op w
      else let mode = localMode env st; hash = compositeHash (dl_hash env) (do_chunkHashes op) in
           if ls_baselineHash seen = hash \<and> fi_size info = do_fileSize op \<and> fi_perm info = (mode AND 511)
           then sendFileResult env (k + 2) op st hash [] mode (do_fileSize op) w
           else finishWrite op hash (\<lambda>_. sendFileResult env (k + 5) op st hash [] mode (do_fileSize op))
                  (writeLocalFile env (k + 2) op mode (stagedPatch env (k + 20) op chunks) w))"

text \<open>
  The remote manifest is the one the operation was queued with, or the bytes of a stable snapshot
  have it; the result is the revision it belongs to, or how the operation is answered.
\<close>

definition confirmManifest ::
    "download_env \<Rightarrow> nat \<Rightarrow> download_op \<Rightarrow> stat_result \<Rightarrow> (downloader \<Rightarrow> downloader) + stat_result" where
  "confirmManifest env k op st =
     (let h = dl_hash env; want = compositeHash h (do_chunkHashes op) in
      case dl_chunkMeta env of
        Inl e \<Rightarrow> Inl (failD (clientErrText e) op)
      | Inr (cs, hashes) \<Rightarrow>
          if cs = do_chunkSize op \<and> compositeHash h hashes = want then Inr st
          else case dl_snapshot env k of
            Inl e \<Rightarrow> Inl (failD (clientErrText e) op)
          | Inr snapshot \<Rightarrow>
              (case fs_stat snapshot of
                 None \<Rightarrow> Inl (skipD op)
               | Some st2 \<Rightarrow>
                   if compositeHash h (uploadChunkHashes h (fs_content snapshot) (do_chunkSize op)) \<noteq> want
                   then Inl (skipD op) else Inr st2))"

definition patchFromRemote :: "download_env \<Rightarrow> nat \<Rightarrow> download_op \<Rightarrow> local_snapshot \<Rightarrow> file_info \<Rightarrow> downloader \<Rightarrow> downloader" where
  "patchFromRemote env k op seen info w =
     (case dl_stat env (k + 1) of Inl e \<Rightarrow> failD (clientErrText e) op w | Inr again \<Rightarrow>
      case again of None \<Rightarrow> skipD op w | Some st0 \<Rightarrow>
      case confirmManifest env k op st0 of Inl answer \<Rightarrow> answer w | Inr st \<Rightarrow>
      case dl_chunks env of
        Inl e \<Rightarrow> failD (''read chunks: '' @ clientErrText e) op w
      | Inr chunks \<Rightarrow> unlessCancelled env (k + 1) op (adoptChunks env k op seen info st chunks) w)"

definition processDownloadChunked :: "download_env \<Rightarrow> nat \<Rightarrow> download_op \<Rightarrow> downloader \<Rightarrow> downloader" where
  "processDownloadChunked env k op w =
     (if do_conflict op then processDownloadWhole env k (wholeFileOp op) w
      else case snapshotDownloadLocal env k (do_stored op) of Inl e \<Rightarrow> failD e op w | Inr seen \<Rightarrow>
      case (if \<not> do_hasStored op \<or> se_chunkSize (do_stored op) \<noteq> do_chunkSize op then None else ls_info seen) of
        None \<Rightarrow> processDownloadWhole env (k + 30) (wholeFileOp op) w
      | Some info \<Rightarrow>
          if \<not> matchesStored seen op then skipD op w
          else case remoteOrGone (dl_stat env k) of
            Inl e \<Rightarrow> failD (''stat remote: '' @ clientErrText e) op w
          | Inr remote \<Rightarrow>
              unlessCancelled env k op (\<lambda>w.
                case remote of
                  None \<Rightarrow>
                    if \<not> localUnchanged env (k + 1) (ls_info seen) then skipD op w
                    else processDownloadDelete env (k + 10) (op\<lparr>do_kind := OpDownloadDelete\<rparr>) w
                | Some _ \<Rightarrow> patchFromRemote env k op seen info w) w)"

definition processDownload :: "download_env \<Rightarrow> download_op \<Rightarrow> downloader \<Rightarrow> downloader" where
  "processDownload env op =
     unlessCancelled env 0 op (\<lambda>w.
       case do_kind op of
         OpDownloadFile \<Rightarrow> if do_chunked op then processDownloadChunked env 1 op w else processDownloadWhole env 1 op w
       | OpDownloadSymlink \<Rightarrow> processDownloadSymlink env 1 op w
       | OpDownloadMkdir \<Rightarrow> processDownloadMkdir env 1 op w
       | OpDownloadDelete \<Rightarrow> processDownloadDelete env 1 op w
       | OpDownloadChmod \<Rightarrow> processDownloadChmod env 1 op w)"

text \<open>\<open>run\<close>: the queue in order, until the context is done (\<open>stop\<close> holds the remaining budget).\<close>

fun runDownloader :: "nat \<Rightarrow> (download_env \<times> download_op) list \<Rightarrow> downloader \<Rightarrow> downloader" where
  "runDownloader 0 ops w = w"
| "runDownloader (Suc n) [] w = w"
| "runDownloader (Suc n) ((env, op) # ops) w = runDownloader n ops (processDownload env op w)"

subsection \<open>What a run does\<close>

text \<open>
  The changes an operation may make: it works on its own path, prepares directories, and replaces or
  removes the local file only when \<open>ok\<close> holds or the file has been moved aside before.
\<close>

fun keepsLocal :: "path \<Rightarrow> bool \<Rightarrow> effect list \<Rightarrow> bool" where
  "keepsLocal p ok [] = True"
| "keepsLocal p ok (LMkdirAll q # es) = ((q = p \<or> q = parentDir p) \<and> keepsLocal p ok es)"
| "keepsLocal p ok (LMoveToConflict q # es) = (q = p \<and> keepsLocal p True es)"
| "keepsLocal p ok (LWriteFile q c m # es) = (q = p \<and> ok \<and> keepsLocal p ok es)"
| "keepsLocal p ok (LSymlink q t # es) = (q = p \<and> ok \<and> keepsLocal p ok es)"
| "keepsLocal p ok (LRemove q # es) = (q = p \<and> ok \<and> keepsLocal p ok es)"
| "keepsLocal p ok (LRemoveAll q # es) = (q = p \<and> ok \<and> keepsLocal p ok es)"
| "keepsLocal p ok (LChmod q m # es) = (q = p \<and> ok \<and> keepsLocal p ok es)"
| "keepsLocal p ok (_ # es) = False"

text \<open>The result names the operation: the worker may only have settled its kind, its link target and its chunks.\<close>

definition sameDownload :: "download_op \<Rightarrow> download_op \<Rightarrow> bool" where
  "sameDownload a b \<longleftrightarrow> do_path a = do_path b \<and> do_stored a = do_stored b \<and> do_hasStored a = do_hasStored b
     \<and> do_conflict a = do_conflict b \<and> do_mode a = do_mode b"

definition runs :: "nat \<Rightarrow> download_op \<Rightarrow> bool \<Rightarrow> downloader \<Rightarrow> downloader \<Rightarrow> bool" where
  "runs n op ok w w' \<longleftrightarrow>
     (\<exists>es rs. dn_effects w' = dn_effects w @ es \<and> keepsLocal (do_path op) ok es
        \<and> dn_results w' = dn_results w @ rs \<and> length rs = n \<and> (\<forall>r \<in> set rs. sameDownload (dr_op r) op))"

abbreviation answersD :: "download_op \<Rightarrow> bool \<Rightarrow> downloader \<Rightarrow> downloader \<Rightarrow> bool" where
  "answersD \<equiv> runs (Suc 0)"

named_theorems dlanswers \<open>operations that are answered\<close>

lemma sameDownload_simps [simp]: "sameDownload op op" "sameDownload (op\<lparr>do_symlink := t\<rparr>) op"
  "sameDownload (op\<lparr>do_kind := c\<rparr>) op" "sameDownload (wholeFileOp op) op"
  by (simp_all add: sameDownload_def wholeFileOp_def)

lemma sameDownload_trans: "sameDownload a b \<Longrightarrow> sameDownload b c \<Longrightarrow> sameDownload a c"
  by (simp add: sameDownload_def)

lemma downloader_simps [simp]:
  "dn_effects (emitD e w) = dn_effects w @ [e]" "dn_results (emitD e w) = dn_results w"
  "dn_effects (sendD r w) = dn_effects w" "dn_results (sendD r w) = dn_results w @ [r]"
  "dn_effects (markD p x w) = dn_effects w" "dn_results (markD p x w) = dn_results w"
  "dr_op (downloadResultOf op) = op"
  by (simp_all add: emitD_def sendD_def markD_def downloadResultOf_def)

lemma runs_refl [simp]: "runs 0 op ok w w"
  by (simp add: runs_def)

lemma runs_send: "runs 0 op ok w w1 \<Longrightarrow> sameDownload (dr_op r) op \<Longrightarrow> answersD op ok w (sendD r w1)"
  by (force simp: runs_def)

lemma runs_fail: "runs 0 op ok w w1 \<Longrightarrow> sameDownload op1 op \<Longrightarrow> answersD op ok w (failD msg op1 w1)"
  "runs 0 op ok w w1 \<Longrightarrow> sameDownload op1 op \<Longrightarrow> answersD op ok w (skipD op1 w1)"
  by (simp_all add: failD_def skipD_def runs_send)

lemma runs_mark [simp]: "runs n op ok w (markD p x w1) = runs n op ok w w1" "runs n op ok (markD p x w) w1 = runs n op ok w w1"
  by (simp_all add: runs_def)

lemma runs_mkdir: "q = do_path op \<or> q = parentDir (do_path op) \<Longrightarrow> runs n op ok (emitD (LMkdirAll q) w) w' \<Longrightarrow> runs n op ok w w'"
  by (auto simp: runs_def)

lemma runs_moved: "runs n op True (emitD (LMoveToConflict (do_path op)) w) w' \<Longrightarrow> runs n op ok w w'"
  by (auto simp: runs_def)

definition replaces :: "path \<Rightarrow> effect \<Rightarrow> bool" where
  "replaces p e \<longleftrightarrow> (\<exists>c m t. e \<in> {LWriteFile p c m, LSymlink p t, LRemove p, LRemoveAll p, LChmod p m})"

lemma runs_replace: "replaces (do_path op) e \<Longrightarrow> ok \<Longrightarrow> runs n op ok (emitD e w) w' \<Longrightarrow> runs n op ok w w'"
  by (auto simp: runs_def replaces_def)

lemma replaces_simps [simp]: "replaces p (LWriteFile p c m)" "replaces p (LSymlink p t)" "replaces p (LRemove p)"
  "replaces p (LRemoveAll p)" "replaces p (LChmod p m)"
  by (auto simp: replaces_def)

lemma runs_emits [simp]:
  "runs 0 op ok w (emitD a w) = keepsLocal (do_path op) ok [a]"
  "runs 0 op ok w (emitD b (emitD a w)) = keepsLocal (do_path op) ok [a, b]"
  "runs 0 op ok w (emitD c (emitD b (emitD a w))) = keepsLocal (do_path op) ok [a, b, c]"
  by (simp_all add: runs_def)

lemma runs_same: "sameDownload op1 op \<Longrightarrow> runs n op1 ok w w' \<Longrightarrow> runs n op ok w w'"
  by (force simp: runs_def sameDownload_def)

lemma runs_cases:
  "(x = None \<Longrightarrow> runs n op ok w a) \<Longrightarrow> (\<And>y. x = Some y \<Longrightarrow> runs n op ok w (b y)) \<Longrightarrow>
     runs n op ok w (case x of None \<Rightarrow> a | Some y \<Rightarrow> b y)"
  "(\<And>e. z = Inl e \<Longrightarrow> runs n op ok w (f e)) \<Longrightarrow> (\<And>v. z = Inr v \<Longrightarrow> runs n op ok w (g v)) \<Longrightarrow>
     runs n op ok w (case z of Inl e \<Rightarrow> f e | Inr v \<Rightarrow> g v)"
  "(c \<Longrightarrow> runs n op ok w p) \<Longrightarrow> (\<not> c \<Longrightarrow> runs n op ok w q) \<Longrightarrow> runs n op ok w (if c then p else q)"
  "(\<And>v. s = OsOk v \<Longrightarrow> runs n op ok w (i v)) \<Longrightarrow> (s = OsNotExist \<Longrightarrow> runs n op ok w j) \<Longrightarrow>
     (\<And>e. s = OsError e \<Longrightarrow> runs n op ok w (k e)) \<Longrightarrow>
     runs n op ok w (case s of OsOk v \<Rightarrow> i v | OsNotExist \<Rightarrow> j | OsError e \<Rightarrow> k e)"
  by (simp_all split: option.split sum.split os_result.split)

lemma runs_unlessCancelled:
  "sameDownload op1 op \<Longrightarrow> answersD op ok w (cont w) \<Longrightarrow> answersD op ok w (unlessCancelled env k op1 cont w)"
  by (simp add: unlessCancelled_def runs_fail split: option.split)

lemma answers_fileResult:
  "sameDownload op1 op \<Longrightarrow> answersD op ok w (sendFileResult env k op1 st hash aside mode sz w)"
  unfolding sendFileResult_def by (intro runs_cases runs_fail runs_send) simp_all

text \<open>The local file may be replaced: it is the baseline and did not change, or it is moved aside, or absent.\<close>

definition baselineSeen :: "download_env \<Rightarrow> download_op \<Rightarrow> bool" where
  "baselineSeen env op \<longleftrightarrow> (\<exists>j i s. j < i \<and> snapshotDownloadLocal env j (do_stored op) = Inr s
     \<and> localUnchanged env i (ls_info s) \<and> matchesStored s op)"

definition absentSeen :: "download_env \<Rightarrow> download_op \<Rightarrow> bool" where
  "absentSeen env op \<longleftrightarrow> do_conflict op \<and> (\<exists>i. dl_lstat env i = OsNotExist)"

definition mayReplace :: "download_env \<Rightarrow> download_op \<Rightarrow> bool" where
  "mayReplace env op \<longleftrightarrow> baselineSeen env op \<or> absentSeen env op"

lemma matchesStored_same: "sameDownload a b \<Longrightarrow> matchesStored s a = matchesStored s b"
  by (simp add: matchesStored_def sameDownload_def split: option.split)

lemma matchesStored_link [simp]: "matchesStored s (op\<lparr>do_symlink := t\<rparr>) = matchesStored s op"
  by (rule matchesStored_same) simp

lemma mayReplace_same: "sameDownload op1 op \<Longrightarrow> mayReplace env op1 = mayReplace env op"
  using matchesStored_same [of op1 op]
  by (simp add: mayReplace_def baselineSeen_def absentSeen_def) (simp add: sameDownload_def)

subsection \<open>Every function keeps to it\<close>

lemma runs_moveLocal:
  assumes "\<And>j. dl_lstat env j = OsNotExist \<Longrightarrow> ok" "moveLocalToConflict env k (do_path op) w = (Inr aside, w1)"
    and "\<And>w. runs n op ok w (cont w)" "\<And>w. runs n op True w (cont w)"
  shows "runs n op ok w (cont w1)"
  using assms by (auto simp: moveLocalToConflict_def intro: runs_moved split: os_result.splits sum.splits)

lemma moveLocal_cases:
  "moveLocalToConflict env k p w = (r, w1) \<Longrightarrow>
     (w1 = w \<and> (\<forall>aside. r = Inr aside \<longrightarrow> dl_lstat env k = OsNotExist)) \<or> w1 = emitD (LMoveToConflict p) w"
  by (auto simp: moveLocalToConflict_def split: os_result.splits sum.splits)

lemma writeLocal_runs:
  assumes out: "writeLocalFile env k op mode staged w = (r, w1)"
    and ok: "\<not> do_conflict op \<Longrightarrow> ok" "do_conflict op \<Longrightarrow> dl_lstat env (k + 2) = OsNotExist \<Longrightarrow> ok"
  shows "runs 0 op ok w w1"
proof -
  define w2 where "w2 = emitD (LMkdirAll (parentDir (do_path op))) w"
  define moved where "moved = (if do_conflict op then moveLocalToConflict env (k + 2) (do_path op) w2 else (Inr [], w2))"
  have moved: "snd moved = w2 \<and> (\<forall>aside. fst moved = Inr aside \<longrightarrow> ok) \<or> snd moved = emitD (LMoveToConflict (do_path op)) w2"
    using moveLocal_cases [of env "k + 2" "do_path op" w2 "fst moved" "snd moved"] ok unfolding moved_def
    by (cases "do_conflict op") auto
  have "w1 = w \<or> w1 = w2 \<or> w1 = snd moved
    \<or> (\<exists>aside c. fst moved = Inr aside \<and> w1 = emitD (LWriteFile (do_path op) c (mode AND 4095)) (snd moved))"
    using out unfolding writeLocalFile_def Let_def w2_def [symmetric] moved_def [symmetric]
    by (auto split: option.splits os_result.splits sum.splits if_splits)
  with moved show ?thesis
    by (elim disjE exE conjE; simp add: w2_def)
qed

lemma finishWrite_answers:
  assumes "sameDownload op1 op" "runs 0 op1 ok w (snd out)"
  shows "answersD op ok w (finishWrite op1 hash (\<lambda>aside. sendFileResult env k op1 st hash (f aside) mode sz) out)"
proof -
  have r: "runs 0 op ok w (snd out)" using assms by (rule runs_same)
  have "answersD op ok w (sendFileResult env k op1 st hash a mode sz (markD p x (snd out)))" for a p x
    using r unfolding sendFileResult_def by (intro runs_cases runs_fail runs_send) (simp_all add: assms(1))
  with r assms(1) show ?thesis
    unfolding finishWrite_def by (intro runs_cases runs_send) simp_all
qed

lemma mkdir_answers: "sameDownload op1 op \<Longrightarrow> answersD op ok w (processDownloadMkdir env k op1 w)"
  unfolding processDownloadMkdir_def Let_def
  by (intro runs_unlessCancelled runs_cases runs_fail runs_send; (simp; fail)?)
     (auto simp: sameDownload_def)

lemma delete_answers: "sameDownload op1 op \<Longrightarrow> ok \<Longrightarrow> answersD op ok w (processDownloadDelete env k op1 w)"
proof -
  assume a: "sameDownload op1 op" and ok: ok
  have "runs 0 op ok w (snd (removeLocalFile env k op1 w))"
    using a ok unfolding removeLocalFile_def Let_def
    by (auto simp: sameDownload_def runs_def markD_def emitD_def split: option.split os_result.split)
  with a show ?thesis unfolding processDownloadDelete_def Let_def by (intro runs_send) simp_all
qed

lemma chmod_answers: "sameDownload op1 op \<Longrightarrow> ok \<Longrightarrow> answersD op ok w (processDownloadChmod env k op1 w)"
  unfolding processDownloadChmod_def Let_def
  by (intro runs_unlessCancelled runs_cases runs_fail runs_send; (simp; fail)?)
     (auto simp: sameDownload_def)

lemma placeSymlink_answers:
  assumes "sameDownload op1 op" "\<not> do_conflict op1 \<Longrightarrow> localUnchanged env (k + 3) (ls_info seen) \<Longrightarrow> ok"
    and "do_conflict op1 \<Longrightarrow> dl_lstat env (k + 4) = OsNotExist \<Longrightarrow> ok"
  shows "answersD op ok w (placeSymlink env k op1 seen w)"
proof (cases "localUnchanged env (k + 3) (ls_info seen)")
  case False
  then show ?thesis using assms(1) by (simp add: placeSymlink_def runs_fail)
next
  case True
  define isDir where "isDir = (case dl_lstat env (k + 2) of OsOk info \<Rightarrow> fi_kind info = IDir | _ \<Rightarrow> False)"
  define cleared where "cleared = (if do_conflict op1 then moveLocalToConflict env (k + 4) (do_path op1) w
    else if isDir then (case dl_remove env of Some e \<Rightarrow> (Inl e, w) | None \<Rightarrow> (Inr [], emitD (LRemove (do_path op1)) w))
    else (Inr [], w))"
  have "snd cleared = w \<and> (\<forall>aside. fst cleared = Inr aside \<longrightarrow> ok)
    \<or> snd cleared = emitD (LMoveToConflict (do_path op1)) w \<or> snd cleared = emitD (LRemove (do_path op1)) w \<and> ok"
    using moveLocal_cases [of env "k + 4" "do_path op1" w "fst cleared" "snd cleared"] assms(2,3) True
    unfolding cleared_def by (auto split: option.split)
  then have c: "runs 0 op ok w (snd cleared)"
    "fst cleared = Inr aside \<Longrightarrow> runs 0 op ok w (emitD (LSymlink (do_path op1) t) (snd cleared))" for aside t
    using assms(1) by (auto simp: sameDownload_def)
  show ?thesis
    unfolding placeSymlink_def Let_def isDir_def [symmetric] cleared_def [symmetric]
    by (intro runs_cases runs_fail runs_send; simp add: assms(1) c)
qed

lemma symlink_answers:
  assumes "sameDownload op1 op" "mayReplace env op1 \<Longrightarrow> ok"
  shows "answersD op ok w (processDownloadSymlink env k op1 w)"
proof -
  have place: "answersD op ok w (placeSymlink env k (op1\<lparr>do_symlink := t\<rparr>) seen w)"
    if "snapshotDownloadLocal env k (do_stored op1) = Inr seen" "do_conflict op1 \<or> matchesStored seen (op1\<lparr>do_symlink := t\<rparr>)" for w t seen
  proof (rule placeSymlink_answers)
    show "sameDownload (op1\<lparr>do_symlink := t\<rparr>) op" using assms(1) by (simp add: sameDownload_def)
    show ok if "\<not> do_conflict (op1\<lparr>do_symlink := t\<rparr>)" "localUnchanged env (k + 3) (ls_info seen)"
    proof -
      have "baselineSeen env op1" unfolding baselineSeen_def using that \<open>snapshotDownloadLocal env k (do_stored op1) = Inr seen\<close>
        \<open>do_conflict op1 \<or> matchesStored seen (op1\<lparr>do_symlink := t\<rparr>)\<close>
        by (intro exI [of _ k] exI [of _ "k + 3"] exI [of _ seen]) (simp add: matchesStored_link)
      then show ok using assms(2) by (simp add: mayReplace_def)
    qed
    show ok if "do_conflict (op1\<lparr>do_symlink := t\<rparr>)" "dl_lstat env (k + 4) = OsNotExist"
      using that assms(2) unfolding mayReplace_def absentSeen_def by auto
  qed
  have path: "do_path op1 = do_path op" and same: "sameDownload (op1\<lparr>do_symlink := t\<rparr>) op" for t
    using assms(1) by (simp_all add: sameDownload_def)
  have linked: "answersD op ok w (unlessCancelled env (Suc k) (op1\<lparr>do_symlink := t\<rparr>) (\<lambda>w. case dl_stage env of
        None \<Rightarrow> unlessCancelled env (k + 2) (op1\<lparr>do_symlink := t\<rparr>) (placeSymlink env k (op1\<lparr>do_symlink := t\<rparr>) seen) w
      | Some e \<Rightarrow> failD e (op1\<lparr>do_symlink := t\<rparr>) w) (emitD (LMkdirAll (parentDir (do_path op))) w))"
    if "snapshotDownloadLocal env k (do_stored op1) = Inr seen" "do_conflict op1 \<or> matchesStored seen op1" for w t seen
    by (rule runs_mkdir [of "parentDir (do_path op)"], simp, intro runs_cases runs_unlessCancelled runs_fail place)
      (simp_all add: same that)
  show ?thesis
    unfolding processDownloadSymlink_def Let_def
    by (intro runs_cases(1,2) runs_fail runs_unlessCancelled runs_send runs_refl runs_cases(3) same assms(1))
      (simp_all add: same path linked)
qed

text \<open>What the snapshot at \<open>k\<close> allows when it is still right at \<open>i\<close>.\<close>

lemma mayReplace_seen:
  "snapshotDownloadLocal env k (do_stored op) = Inr seen \<Longrightarrow> localUnchanged env i (ls_info seen) \<Longrightarrow> k < i \<Longrightarrow>
     matchesStored seen op \<Longrightarrow> mayReplace env op"
  unfolding mayReplace_def baselineSeen_def by blast

lemma mayReplace_absent: "do_conflict op \<Longrightarrow> dl_lstat env i = OsNotExist \<Longrightarrow> mayReplace env op"
  by (auto simp: mayReplace_def absentSeen_def)

lemma adoptSnapshot_answers:
  assumes "sameDownload op1 op" "mayReplace env op1 \<Longrightarrow> ok"
    and "snapshotDownloadLocal env k (do_stored op1) = Inr seen"
  shows "answersD op ok w (adoptSnapshot env k op1 seen st data w)"
proof -
  have "answersD op ok w (finishWrite op1 (dl_hash env data)
      (\<lambda>aside. sendFileResult env (k + 5) op1 st (dl_hash env data) aside mode (int (length data)))
      (writeLocalFile env (k + 2) op1 mode (Inr data) w))"
    if "localUnchanged env (k + 1) (ls_info seen)" "do_conflict op1 \<or> matchesStored seen op1" for mode
  proof (rule finishWrite_answers [where f = "\<lambda>a. a"])
    show "runs 0 op1 ok w (snd (writeLocalFile env (k + 2) op1 mode (Inr data) w))"
      by (rule writeLocal_runs [OF prod.collapse [symmetric]])
        (use that assms(2,3) mayReplace_seen [of env k op1 seen "k + 1"] mayReplace_absent [of op1 env] in auto)
  qed (rule assms(1))
  with assms(1) show ?thesis
    unfolding adoptSnapshot_def Let_def by (intro runs_cases(3) runs_fail answers_fileResult) simp_all
qed

lemma whole_answers:
  assumes "sameDownload op1 op" "mayReplace env op1 \<Longrightarrow> ok"
  shows "answersD op ok w (processDownloadWhole env k op1 w)"
proof -
  have same: "sameDownload (op1\<lparr>do_symlink := t\<rparr>) op" "sameDownload (op1\<lparr>do_kind := c\<rparr>) op" for t c
    using assms(1) by (simp_all add: sameDownload_def)
  have link: "answersD op ok w (processDownloadSymlink env j (op1\<lparr>do_symlink := t\<rparr>) w)" for j t w
    using assms(2) mayReplace_same [of "op1\<lparr>do_symlink := t\<rparr>" op1 env] by (intro symlink_answers same) simp
  show ?thesis
    unfolding processDownloadWhole_def
    by (intro runs_cases(1,2) runs_unlessCancelled runs_fail runs_cases(3) mkdir_answers link delete_answers
          adoptSnapshot_answers runs_refl same assms; (assumption | simp add: mayReplace_seen [where i = "k + 1"])?)
qed

lemma adoptChunks_answers:
  assumes "sameDownload op1 op" "mayReplace env op1 \<Longrightarrow> ok"
    and "snapshotDownloadLocal env j (do_stored op1) = Inr seen" "j < k + 1" "matchesStored seen op1"
  shows "answersD op ok w (adoptChunks env k op1 seen info st chunks w)"
proof -
  have "answersD op ok w (finishWrite op1 hash (\<lambda>_. sendFileResult env (k + 5) op1 st hash [] mode sz)
      (writeLocalFile env (k + 2) op1 mode staged w))" if "localUnchanged env (k + 1) (ls_info seen)" for mode hash sz staged
  proof (rule finishWrite_answers [where f = "\<lambda>_. []"])
    show "runs 0 op1 ok w (snd (writeLocalFile env (k + 2) op1 mode staged w))"
      by (rule writeLocal_runs [OF prod.collapse [symmetric]])
        (use that assms(2-5) mayReplace_seen [of env j op1 seen "k + 1"] in auto)
  qed (rule assms(1))
  with assms(1) show ?thesis
    unfolding adoptChunks_def Let_def by (intro runs_cases(2,3) runs_fail answers_fileResult) simp_all
qed

lemma confirmManifest_answers:
  "sameDownload op1 op \<Longrightarrow> confirmManifest env k op1 st = Inl a \<Longrightarrow> answersD op ok w (a w)"
  by (auto simp: confirmManifest_def Let_def runs_fail split: sum.splits prod.splits option.splits if_splits)

lemma chunked_answers:
  assumes "sameDownload op1 op" "mayReplace env op1 \<Longrightarrow> ok"
  shows "answersD op ok w (processDownloadChunked env k op1 w)"
proof -
  have same: "sameDownload (wholeFileOp op1) op" "sameDownload (op1\<lparr>do_kind := c\<rparr>) op" for c
    using assms(1) by (simp_all add: sameDownload_def wholeFileOp_def)
  have whole: "answersD op ok w (processDownloadWhole env j (wholeFileOp op1) w)" for j w
    using assms(2) mayReplace_same [of "wholeFileOp op1" op1 env] by (intro whole_answers same) simp
  have patch: "answersD op ok w (patchFromRemote env k op1 seen info w)"
    if "snapshotDownloadLocal env k (do_stored op1) = Inr seen" "matchesStored seen op1" for seen info w
    unfolding patchFromRemote_def
    by (intro runs_cases(1,2) runs_unlessCancelled runs_fail adoptChunks_answers [of _ _ _ _ k] runs_refl assms that;
        (assumption | simp)?) (erule confirmManifest_answers [OF assms(1)])
  show ?thesis
    unfolding processDownloadChunked_def
    by (intro runs_cases(1,2) runs_unlessCancelled runs_fail runs_cases(3) whole patch delete_answers runs_refl same assms;
        (assumption | simp add: mayReplace_seen [where i = "k + 1"])?)
qed

lemma process_answers:
  assumes "mayReplace env op \<or> do_kind op \<in> {OpDownloadDelete, OpDownloadChmod} \<Longrightarrow> ok"
  shows "answersD op ok w (processDownload env op w)"
  unfolding processDownload_def
  by (intro runs_unlessCancelled; simp split: download_kind.split)
     (auto intro!: chunked_answers whole_answers symlink_answers mkdir_answers delete_answers chmod_answers assms)


text \<open>
  C2: A download that brings content never destroys an unsynchronised local edit.  Whatever the
  environment answers, a file, symlink or directory download works on its own path only, and it
  replaces or removes what is there only when a snapshot of the local file equalled the recorded
  baseline and a later look found it unchanged, or when a conflicting file was moved aside first or
  was absent.
\<close>

theorem downloads_keep_local_edits:
  assumes "do_kind op \<notin> {OpDownloadDelete, OpDownloadChmod}"
  shows "\<exists>es. dn_effects (processDownload env op w) = dn_effects w @ es
    \<and> keepsLocal (do_path op) (mayReplace env op) es"
proof -
  have "answersD op (mayReplace env op) w (processDownload env op w)" by (rule process_answers) (use assms in auto)
  then show ?thesis by (auto simp: runs_def)
qed

text \<open>A worker with nothing done, and an environment in which every call succeeds.\<close>

definition idleDownloader :: downloader where
  "idleDownloader = \<lparr>dn_effects = [], dn_echo = Map.empty, dn_results = []\<rparr>"

definition exampleLocal :: file_info where
  "exampleLocal = \<lparr>fi_kind = IRegular, fi_perm = 420, fi_size = 3, fi_mtimeNs = 5000000, fi_ident = ''1:2''\<rparr>"

definition exampleRemoteFile :: file_snapshot where
  "exampleRemoteFile = \<lparr>fs_stat = Some \<lparr>st_revision = ''2'', st_inode = 7, st_type = ''file'', st_mode = 420, st_size = 3, st_mtime = 9\<rparr>,
     fs_content = ''new'', fs_parent = None, fs_path = ''/a''\<rparr>"

definition exampleDownloadEnv :: download_env where
  "exampleDownloadEnv = \<lparr>dl_cancel = \<lambda>_. None, dl_lstat = \<lambda>_. OsOk exampleLocal, dl_readlink = \<lambda>_. OsNotExist,
     dl_read = \<lambda>_. OsOk ''old'', dl_stat = \<lambda>_. Inr (fs_stat exampleRemoteFile), dl_remoteLink = \<lambda>_. Inl CNotFound,
     dl_snapshot = \<lambda>_. Inr exampleRemoteFile, dl_chunkMeta = Inr (0, []), dl_chunks = Inr [], dl_mkdirAll = None,
     dl_stage = None, dl_conflictMove = Inr ''a.conflict'', dl_remove = None, dl_rename = None, dl_chmod = None,
     dl_hash = \<lambda>d. d, dl_readonly = False\<rparr>"

definition exampleDownloadOp :: "string \<Rightarrow> bool \<Rightarrow> download_op" where
  "exampleDownloadOp hash conflict = zeroDownloadOp\<lparr>do_path := ''a'', do_hasStored := True, do_conflict := conflict,
     do_stored := zeroEntry\<lparr>se_type := ''file'', se_mode := 420, se_size := 3, se_localHash := hash\<rparr>\<rparr>"

lemmas example_download_defs =
  exampleDownloadEnv_def exampleDownloadOp_def exampleRemoteFile_def exampleLocal_def idleDownloader_def
  processDownload_def unlessCancelled_def processDownloadWhole_def snapshotDownloadLocal_def noLocal_def
  remoteOrGone_def adoptSnapshot_def localUnchanged_def sameInfo_def alreadyLocal_def matchesStored_def
  localMode_def writeLocalFile_def moveLocalToConflict_def finishWrite_def sendFileResult_def
  downloadResultOf_def sendD_def emitD_def markD_def skipD_def failD_def zeroDownloadOp_def zeroEntry_def

text \<open>An untouched file is replaced, an edited one is left alone, a conflicting one is moved aside first.\<close>

lemma example_downloads:
  "dn_effects (processDownload exampleDownloadEnv (exampleDownloadOp ''old'' False) idleDownloader)
     = [LMkdirAll [], LWriteFile ''a'' ''new'' 420]"
  "dn_effects (processDownload exampleDownloadEnv (exampleDownloadOp ''base'' False) idleDownloader) = []"
  "dn_effects (processDownload exampleDownloadEnv (exampleDownloadOp ''base'' True) idleDownloader)
     = [LMkdirAll [], LMoveToConflict ''a'', LWriteFile ''a'' ''new'' 420]"
  by (simp_all add: example_download_defs Let_def parentDir_def)

lemma downloads_keep_local_edits_witness:
  "\<exists>es. dn_effects (processDownload exampleDownloadEnv (exampleDownloadOp ''old'' False) idleDownloader)
       = dn_effects idleDownloader @ es
     \<and> keepsLocal ''a'' (mayReplace exampleDownloadEnv (exampleDownloadOp ''old'' False)) es"
  using downloads_keep_local_edits [of "exampleDownloadOp ''old'' False" exampleDownloadEnv idleDownloader]
  by (simp add: exampleDownloadOp_def zeroDownloadOp_def)

subsection \<open>What a written file is recorded as\<close>

definition writes :: "downloader \<Rightarrow> bool" where
  "writes w \<longleftrightarrow> (\<exists>p c m. LWriteFile p c m \<in> set (dn_effects w))"

lemma writes_simps [simp]:
  "writes (sendD r w) = writes w" "writes (markD p x w) = writes w" "writes (failD msg op w) = writes w"
  "writes (skipD op w) = writes w" "writes (emitD (LMkdirAll q) w) = writes w" "writes (emitD (LMoveToConflict q) w) = writes w"
  "writes (emitD (LRemove q) w) = writes w" "writes (emitD (LRemoveAll q) w) = writes w"
  "writes (emitD (LSymlink q t) w) = writes w" "writes (emitD (LWriteFile q c m) w)"
  by (auto simp: writes_def failD_def skipD_def)

lemma writes_fileResult [simp]: "writes (sendFileResult env k op st hash aside mode sz w) = writes w"
  by (simp add: sendFileResult_def split: os_result.split)

lemma writes_mkdir [simp]: "writes (processDownloadMkdir env k op w) = writes w"
  by (simp add: processDownloadMkdir_def unlessCancelled_def Let_def split: option.split)

lemma writes_delete [simp]: "writes (processDownloadDelete env k op w) = writes w"
  by (auto simp: processDownloadDelete_def removeLocalFile_def Let_def split: option.split os_result.split)

lemma writes_move [simp]: "writes (snd (moveLocalToConflict env k p w)) = writes w"
  by (simp add: moveLocalToConflict_def split: os_result.split sum.split)

lemma writes_place [simp]: "writes (placeSymlink env k op seen w) = writes w"
proof -
  have "writes (snd (if do_conflict op then moveLocalToConflict env j (do_path op) w
      else if b then (case dl_remove env of Some e \<Rightarrow> (Inl e, w) | None \<Rightarrow> (Inr [], emitD (LRemove (do_path op)) w))
      else (Inr [], w))) = writes w" for j b
    by (simp split: option.split)
  then show ?thesis
    unfolding placeSymlink_def Let_def by (simp split: option.split os_result.split sum.split)
qed

lemma writes_symlink [simp]: "writes (processDownloadSymlink env k op w) = writes w"
proof -
  have "writes (unlessCancelled env j op1 cont w1) = writes w1" if "writes (cont w1) = writes w1" for j op1 cont w1
    using that by (simp add: unlessCancelled_def split: option.split)
  then show ?thesis
    unfolding processDownloadSymlink_def Let_def by (simp split: option.split sum.split)
qed

text \<open>The staged write succeeds with a rename, or leaves no file behind.\<close>

lemma writes_writeLocal:
  assumes "writeLocalFile env k op mode staged w = (r, w1)" and "\<not> writes w"
  shows "if writes w1 then \<exists>aside c es. r = Inr aside \<and> staged = Inr c
           \<and> dn_effects w1 = dn_effects w @ es @ [LWriteFile (do_path op) c (mode AND 4095)]
           \<and> (\<forall>p d m. LWriteFile p d m \<notin> set es) \<and> dn_results w1 = dn_results w
         else \<exists>e. r = Inl e"
proof -
  define w2 where "w2 = emitD (LMkdirAll (parentDir (do_path op))) w"
  define moved where "moved = (if do_conflict op then moveLocalToConflict env (k + 2) (do_path op) w2 else (Inr [], w2))"
  have m: "\<not> writes (snd moved)" using assms(2) by (simp add: moved_def w2_def)
  have e: "\<exists>es. dn_effects (snd moved) = dn_effects w @ es \<and> (\<forall>p d m. LWriteFile p d m \<notin> set es) \<and> dn_results (snd moved) = dn_results w"
    using moveLocal_cases [of env "k + 2" "do_path op" w2 "fst moved" "snd moved"]
    by (cases "do_conflict op") (auto simp: moved_def w2_def)
  have "(\<exists>x. r = Inl x \<and> (w1 = w \<or> w1 = w2 \<or> w1 = snd moved))
    \<or> (\<exists>aside c. r = Inr aside \<and> staged = Inr c \<and> w1 = emitD (LWriteFile (do_path op) c (mode AND 4095)) (snd moved))"
    using assms(1) unfolding writeLocalFile_def Let_def w2_def [symmetric] moved_def [symmetric]
    by (auto split: option.splits os_result.splits sum.splits if_splits)
  then show ?thesis
  proof
    assume "\<exists>x. r = Inl x \<and> (w1 = w \<or> w1 = w2 \<or> w1 = snd moved)"
    then have "\<not> writes w1" "\<exists>e. r = Inl e" using m assms(2) by (auto simp: w2_def)
    then show ?thesis by simp
  next
    assume "\<exists>aside c. r = Inr aside \<and> staged = Inr c \<and> w1 = emitD (LWriteFile (do_path op) c (mode AND 4095)) (snd moved)"
    then show ?thesis using e by auto
  qed
qed

text \<open>When a whole-file download wrote and did not fail, its result describes what it wrote last.\<close>

definition describes :: "download_env \<Rightarrow> download_op \<Rightarrow> downloader \<Rightarrow> bool" where
  "describes env op w \<longleftrightarrow> (writes w \<longrightarrow> dn_results w \<noteq> [] \<longrightarrow> dr_err (last (dn_results w)) = None \<longrightarrow>
     (let r = last (dn_results w) in dr_op r = op \<and> \<not> dr_skipped r \<and>
       (\<exists>c. last (dn_effects w) = LWriteFile (do_path op) c (dr_mode r AND 4095)
         \<and> dr_remoteHash r = dl_hash env c \<and> dr_size r = int (length c))))"

lemma describes_quiet: "\<not> writes w \<Longrightarrow> describes env op w"
  by (simp add: describes_def)

lemma describes_cases:
  "(x = None \<Longrightarrow> describes env op a) \<Longrightarrow> (\<And>y. x = Some y \<Longrightarrow> describes env op (b y)) \<Longrightarrow>
     describes env op (case x of None \<Rightarrow> a | Some y \<Rightarrow> b y)"
  "(\<And>e. z = Inl e \<Longrightarrow> describes env op (f e)) \<Longrightarrow> (\<And>v. z = Inr v \<Longrightarrow> describes env op (g v)) \<Longrightarrow>
     describes env op (case z of Inl e \<Rightarrow> f e | Inr v \<Rightarrow> g v)"
  "(c \<Longrightarrow> describes env op p) \<Longrightarrow> (\<not> c \<Longrightarrow> describes env op q) \<Longrightarrow> describes env op (if c then p else q)"
  "(\<And>e. describes env op (failD e op1 w)) \<Longrightarrow> describes env op (cont w) \<Longrightarrow>
     describes env op (unlessCancelled env j op1 cont w)"
  by (simp_all add: unlessCancelled_def split: option.split sum.split)

lemma describes_adopt:
  assumes "\<not> writes w"
  shows "describes env op (adoptSnapshot env k op seen st data w)"
proof -
  obtain r w1 where out: "writeLocalFile env (k + 2) op (localMode env st) (Inr data) w = (r, w1)" by force
  note wr = writes_writeLocal [OF out assms]
  have "describes env op (finishWrite op (dl_hash env data)
      (\<lambda>aside. sendFileResult env (k + 5) op st (dl_hash env data) aside (localMode env st) (int (length data))) (r, w1))"
  proof (cases "writes w1")
    case True
    with wr obtain aside es where "r = Inr aside"
      "dn_effects w1 = dn_effects w @ es @ [LWriteFile (do_path op) data (localMode env st AND 4095)]" by auto
    then show ?thesis
      by (cases "dl_lstat env (k + 5)") (simp_all add: finishWrite_def sendFileResult_def describes_def failD_def downloadResultOf_def Let_def)
  next
    case False
    with wr obtain e where "r = Inl e" by auto
    with False show ?thesis by (simp add: finishWrite_def describes_quiet)
  qed
  with assms show ?thesis
    unfolding adoptSnapshot_def Let_def out by (intro describes_cases) (simp_all add: describes_quiet)
qed

lemma describes_whole: "\<not> writes w \<Longrightarrow> describes env op (processDownloadWhole env k op w)"
  unfolding processDownloadWhole_def
  by (intro describes_cases describes_adopt) (simp_all add: describes_quiet)

lemma describes_process:
  "\<not> writes w \<Longrightarrow> do_kind op = OpDownloadFile \<Longrightarrow> \<not> do_chunked op \<Longrightarrow> describes env op (processDownload env op w)"
  unfolding processDownload_def by (intro describes_cases) (simp_all add: describes_quiet describes_whole)

subsection \<open>Observations\<close>

text \<open>
  A queued delete looks at nothing but the presence of the path: an edit made after the reconciler
  queued it is removed, and so is a directory with everything below it.
\<close>

lemma queued_delete_unguarded:
  assumes "do_kind op = OpDownloadDelete" "dl_lstat env 1 = OsOk info" "\<And>k. dl_cancel env k = None"
  shows "dn_effects (processDownload env op w)
     = dn_effects w @ [if fi_kind info = IDir then LRemoveAll (do_path op) else LRemove (do_path op)]"
  using assms by (simp add: processDownload_def unlessCancelled_def processDownloadDelete_def removeLocalFile_def Let_def)

text \<open>
  A file download that finds a directory makes the directory and answers as a file download, without
  content, mode or remote revision.
\<close>

lemma directory_answers_as_file:
  assumes "do_kind op = OpDownloadFile" "\<not> do_chunked op" "dl_stat env 1 = Inr (Some st)" "st_type st = ''dir''"
    and "snapshotDownloadLocal env 1 (do_stored op) = Inr seen" "dl_mkdirAll env = None" "\<And>k. dl_cancel env k = None"
  shows "dn_results (processDownload env op w) = dn_results w @ [downloadResultOf op]"
  using assms by (simp add: processDownload_def unlessCancelled_def processDownloadWhole_def processDownloadMkdir_def
      remoteOrGone_def Let_def)

end
