(* ===== verification/TreeStore.thy ===== *)
theory TreeStore
  imports PublicationHistory
begin

text \<open>
  How the native client reads the shared tree (\<open>mount/internal/client/native_helpers.go\<close>,
  \<open>native_core.go\<close>, \<open>native_walk.go\<close>): decoding of an inode hash, lookups in directory hashes,
  path resolution through symbolic links, directory listings and the tree walk.

  The client is the one without a path cache and without a mutation observer.  The requests of one
  read operation see one state of the store.  A Redis reply of the wrong type is an error.  The
  order in which \<open>HGETALL\<close> returns the names of a directory is an argument.
\<close>

subsection \<open>Decoding\<close>

text \<open>\<open>strconv.ParseInt\<close> with base 10 and 64 bits, its error ignored: zero for no number, the nearest
  bound for one out of range.\<close>

definition parseInt64 :: "string \<Rightarrow> int" where
  "parseInt64 s =
     (let neg = (s \<noteq> [] \<and> hd s = CHR ''-'');
          digits = (if s \<noteq> [] \<and> hd s \<in> {CHR ''-'', CHR ''+''} then tl s else s)
      in case natVal digits of
           None \<Rightarrow> 0
         | Some n \<Rightarrow> if neg then max (- int n) (- (2 ^ 63)) else min (int n) (2 ^ 63 - 1))"

definition toStr :: "string option \<Rightarrow> string" where
  "toStr v = (case v of None \<Rightarrow> [] | Some s \<Rightarrow> s)"

definition toInt :: "string option \<Rightarrow> int" where
  "toInt v = (case v of None \<Rightarrow> 0 | Some s \<Rightarrow> parseInt64 s)"

text \<open>The hash gives the values of \<open>HMGET\<close>; a missing type means that there is no inode.\<close>

definition inodeFromValues :: "string \<Rightarrow> (string \<Rightarrow> string option) \<Rightarrow> inode_data option" where
  "inodeFromValues i h =
     (case h ''type'' of
        None \<Rightarrow> None
      | Some t \<Rightarrow> Some \<lparr>in_revision = toStr (h ''revision''), in_id = i, in_parent = toStr (h ''parent''),
          in_name = toStr (h ''name''), in_type = t, in_mode = word_of_int (toInt (h ''mode'')),
          in_uid = word_of_int (toInt (h ''uid'')), in_gid = word_of_int (toInt (h ''gid'')),
          in_size = toInt (h ''size''), in_ctimeMs = toInt (h ''ctime_ms''), in_mtimeMs = toInt (h ''mtime_ms''),
          in_atimeMs = toInt (h ''atime_ms''), in_target = toStr (h ''target''), in_content = [],
          in_contentRef = toStr (h ''content_ref'')\<rparr>)"

abbreviation wrongType :: client_err where "wrongType \<equiv> COther ''WRONGTYPE''"
abbreviation ErrNotDir :: client_err where "ErrNotDir \<equiv> COther ''not a directory''"
abbreviation ErrNotSymlink :: client_err where "ErrNotSymlink \<equiv> COther ''not a symlink''"
abbreviation ErrParentConflict :: client_err where "ErrParentConflict \<equiv> COther ''parent path conflict''"
abbreviation ErrWorkspaceChanged :: client_err where
  "ErrWorkspaceChanged \<equiv> COther ''workspace was restored or deleted; remount required''"
abbreviation ErrNativeSessionLost :: client_err where "ErrNativeSessionLost \<equiv> COther ''native session lost''"

definition loadInodeByID :: "redis \<Rightarrow> string \<Rightarrow> client_err + inode_data option" where
  "loadInodeByID r i =
     (if isHashOrNone r (KInode i) then Inr (inodeFromValues i (hashAt r (KInode i))) else Inl wrongType)"

definition lookupChildID :: "redis \<Rightarrow> string \<Rightarrow> string \<Rightarrow> client_err + string" where
  "lookupChildID r d n =
     (if isHashOrNone r (KDirents d)
      then case hget r (KDirents d) n of None \<Rightarrow> Inl CRedisNil | Some c \<Rightarrow> Inr c
      else Inl wrongType)"

text \<open>The generation of a managed workspace, and the lease of a native session with it.\<close>

definition checkGeneration :: "write_context \<Rightarrow> redis \<Rightarrow> client_err option" where
  "checkGeneration c r =
     (let g = wc_generation c in
      if g = [] then None
      else if wc_lease c \<noteq> []
      then if r KGeneration \<noteq> Some (RString g) \<or> g = ''deleted'' then Some ErrWorkspaceChanged
           else case r (KSession (wc_lease c)) of Some (RString _) \<Rightarrow> None | _ \<Rightarrow> Some ErrNativeSessionLost
      else case r KGeneration of
             None \<Rightarrow> Some ErrWorkspaceChanged
           | Some (RString a) \<Rightarrow> if a \<noteq> g \<or> a = ''deleted'' then Some ErrWorkspaceChanged else None
           | Some _ \<Rightarrow> Some wrongType)"

subsection \<open>Path resolution\<close>

definition joinPath :: "path \<Rightarrow> string \<Rightarrow> path" where
  "joinPath parent child = (if parent = ''/'' then ''/'' @ child else parent @ ''/'' @ child)"

definition baseName :: "path \<Rightarrow> string" where
  \<comment> \<open>of a normalized path\<close>
  "baseName p = (if p = ''/'' then [] else pathBase p)"

definition maxSymlinkDepth :: nat where
  "maxSymlinkDepth = 40"

text \<open>The path that replaces a symbolic link in directory \<open>cur\<close> with the components after it.\<close>

definition rebuildPath :: "path \<Rightarrow> string \<Rightarrow> string list \<Rightarrow> path" where
  "rebuildPath cur target rest =
     (let rebuilt = (if hasPrefix target ''/'' then target else cleanRooted (cur @ ''/'' @ target));
          remaining = joinStr ''/'' rest
      in normalizePath (if remaining \<noteq> [] then cleanRooted (rebuilt @ ''/'' @ remaining) else rebuilt))"

function resolveFrom ::
    "redis \<Rightarrow> bool \<Rightarrow> nat \<Rightarrow> path \<Rightarrow> inode_data \<Rightarrow> string list \<Rightarrow> client_err + (path \<times> inode_data)" where
  "resolveFrom r followFinal depth cur dir [] = Inr (cur, dir)"
| "resolveFrom r followFinal depth cur dir (x # xs) =
     (case lookupChildID r (in_id dir) x of
        Inl e \<Rightarrow> Inl e
      | Inr c \<Rightarrow>
          (case loadInodeByID r c of
             Inl e \<Rightarrow> Inl e
           | Inr None \<Rightarrow> Inl CRedisNil
           | Inr (Some inode) \<Rightarrow>
               if in_type inode = ''symlink'' \<and> (followFinal \<or> xs \<noteq> [])
               then if depth + 1 > maxSymlinkDepth then Inl (COther ''too many levels of symbolic links'')
                    else if in_target inode = [] then Inl (COther ''invalid symlink target'')
                    else (case loadInodeByID r ''1'' of
                            Inl e \<Rightarrow> Inl e
                          | Inr None \<Rightarrow> Inl CRedisNil
                          | Inr (Some root) \<Rightarrow>
                              resolveFrom r followFinal (depth + 1) ''/'' root
                                (splitComponents (rebuildPath cur (in_target inode) xs)))
               else if xs = [] then Inr (joinPath cur x, inode)
               else if in_type inode \<noteq> ''dir'' then Inl ErrNotDir
               else resolveFrom r followFinal depth (joinPath cur x) inode xs))"
  by pat_completeness auto
termination
  by (relation "measures [\<lambda>(r, f, depth, cur, dir, xs). maxSymlinkDepth - depth,
                          \<lambda>(r, f, depth, cur, dir, xs). length xs]") auto

declare resolveFrom.simps(2) [simp del]

definition resolvePath :: "write_context \<Rightarrow> redis \<Rightarrow> path \<Rightarrow> bool \<Rightarrow> client_err + (path \<times> inode_data)" where
  "resolvePath c r p followFinal =
     (case checkGeneration c r of
        Some e \<Rightarrow> Inl e
      | None \<Rightarrow>
          (case loadInodeByID r ''1'' of
             Inl e \<Rightarrow> Inl e
           | Inr None \<Rightarrow> Inl CRedisNil
           | Inr (Some root) \<Rightarrow> resolveFrom r followFinal 0 ''/'' root (splitComponents (normalizePath p))))"

text \<open>\<open>loadInode\<close>: the inode itself, links not followed; a missing one is no error.\<close>

definition loadInode :: "write_context \<Rightarrow> redis \<Rightarrow> path \<Rightarrow> client_err + inode_data option" where
  "loadInode c r p =
     (case resolvePath c r (normalizePath p) False of
        Inl CRedisNil \<Rightarrow> Inr None | Inl e \<Rightarrow> Inl e | Inr (q, inode) \<Rightarrow> Inr (Some inode))"

subsection \<open>Reading operations\<close>

definition toStat :: "inode_data \<Rightarrow> stat_result" where
  "toStat i = \<lparr>st_revision = in_revision i, st_inode = inodeUint64 (in_id i), st_type = in_type i,
     st_mode = in_mode i, st_size = in_size i, st_mtime = in_mtimeMs i\<rparr>"

definition Stat :: "write_context \<Rightarrow> redis \<Rightarrow> path \<Rightarrow> client_err + stat_result option" where
  "Stat c r p =
     (case resolvePath c r p False of
        Inl CRedisNil \<Rightarrow> Inr None | Inl e \<Rightarrow> Inl e | Inr (q, inode) \<Rightarrow> Inr (Some (toStat inode)))"

definition Readlink :: "write_context \<Rightarrow> redis \<Rightarrow> path \<Rightarrow> client_err + string" where
  "Readlink c r p =
     (case resolvePath c r p False of
        Inl e \<Rightarrow> Inl e
      | Inr (q, inode) \<Rightarrow> if in_type inode \<noteq> ''symlink'' then Inl ErrNotSymlink else Inr (in_target inode))"

record named_inode =
  ni_name :: string
  ni_path :: path
  ni_inode :: inode_data

text \<open>\<open>loadDirEntries\<close> and \<open>sortNames\<close>: the names of a directory, in the order of \<open>HGETALL\<close>, sorted.\<close>

type_synonym dir_order = "string \<Rightarrow> string list"

definition sortNames :: "string list \<Rightarrow> string list" where
  "sortNames names = sortBy (\<lambda>x y. x < y) names"

fun loadInodesByID :: "redis \<Rightarrow> string list \<Rightarrow> client_err + (string \<times> inode_data option) list" where
  "loadInodesByID r [] = Inr []"
| "loadInodesByID r (i # is) =
     (case loadInodeByID r i of
        Inl e \<Rightarrow> Inl e
      | Inr v \<Rightarrow> (case loadInodesByID r is of Inl e \<Rightarrow> Inl e | Inr vs \<Rightarrow> Inr ((i, v) # vs)))"

definition listDirChildren :: "dir_order \<Rightarrow> redis \<Rightarrow> path \<Rightarrow> inode_data \<Rightarrow> client_err + named_inode list" where
  "listDirChildren order r dirPath dir =
     (if in_type dir \<noteq> ''dir'' then Inl ErrNotDir
      else if \<not> isHashOrNone r (KDirents (in_id dir)) then Inl wrongType
      else let entries = hashAt r (KDirents (in_id dir));
               names = sortNames (order (in_id dir));
               ids = map (\<lambda>n. the (entries n)) names
           in case loadInodesByID r ids of
                Inl e \<Rightarrow> Inl e
              | Inr inodes \<Rightarrow>
                  Inr (concat (map (\<lambda>n. case the (map_of inodes (the (entries n))) of
                         None \<Rightarrow> []
                       | Some child \<Rightarrow> [\<lparr>ni_name = n, ni_path = joinPath dirPath n, ni_inode = child\<rparr>]) names)))"

definition LsLong :: "dir_order \<Rightarrow> write_context \<Rightarrow> redis \<Rightarrow> path \<Rightarrow> client_err + (string \<times> stat_result) list" where
  "LsLong order c r p =
     (case resolvePath c r p True of
        Inl e \<Rightarrow> Inl e
      | Inr (q, inode) \<Rightarrow>
          if in_type inode \<noteq> ''dir'' then Inl ErrNotDir
          else (case listDirChildren order r q inode of
                  Inl e \<Rightarrow> Inl e
                | Inr children \<Rightarrow> Inr (map (\<lambda>ch. (ni_name ch, toStat (ni_inode ch))) children)))"

definition Ls :: "dir_order \<Rightarrow> write_context \<Rightarrow> redis \<Rightarrow> path \<Rightarrow> client_err + string list" where
  "Ls order c r p = (case LsLong order c r p of Inl e \<Rightarrow> Inl e | Inr es \<Rightarrow> Inr (map fst es))"

record tree_entry =
  te_path :: path
  te_type :: string
  te_depth :: int

text \<open>\<open>treeWalk\<close>; the budget is the number of levels left, \<open>maxDepth - depth + 1\<close> in the code.\<close>

fun treeWalk :: "dir_order \<Rightarrow> redis \<Rightarrow> nat \<Rightarrow> path \<Rightarrow> inode_data \<Rightarrow> int \<Rightarrow> client_err + tree_entry list"
  and treeChildren :: "dir_order \<Rightarrow> redis \<Rightarrow> nat \<Rightarrow> int \<Rightarrow> named_inode list \<Rightarrow> client_err + tree_entry list" where
  "treeWalk order r 0 dirPath dir depth = Inr []"
| "treeWalk order r (Suc n) dirPath dir depth =
     (case listDirChildren order r dirPath dir of Inl e \<Rightarrow> Inl e | Inr cs \<Rightarrow> treeChildren order r n depth cs)"
| "treeChildren order r n depth [] = Inr []"
| "treeChildren order r n depth (c # cs) =
     (let here = \<lparr>te_path = ni_path c, te_type = in_type (ni_inode c), te_depth = depth\<rparr> in
      case (if in_type (ni_inode c) = ''dir''
            then treeWalk order r n (ni_path c) (ni_inode c) (depth + 1) else Inr []) of
        Inl e \<Rightarrow> Inl e
      | Inr below \<Rightarrow>
          (case treeChildren order r n depth cs of
             Inl e \<Rightarrow> Inl e | Inr rest \<Rightarrow> Inr (here # below @ rest)))"

definition Tree :: "dir_order \<Rightarrow> write_context \<Rightarrow> redis \<Rightarrow> path \<Rightarrow> int \<Rightarrow> client_err + tree_entry list" where
  "Tree order c r p maxDepth0 =
     (let maxDepth = (if maxDepth0 \<le> 0 then 64 else maxDepth0) in
      case resolvePath c r p True of
        Inl e \<Rightarrow> Inl e
      | Inr (q, inode) \<Rightarrow>
          if in_type inode \<noteq> ''dir'' then Inl ErrNotDir
          else (case treeWalk order r (nat maxDepth) q inode 1 of
                  Inl e \<Rightarrow> Inl e
                | Inr es \<Rightarrow> Inr (\<lparr>te_path = q, te_type = ''dir'', te_depth = 0\<rparr> # es)))"

subsection \<open>Components and paths\<close>

abbreviation pathOf :: "string list \<Rightarrow> path" where
  "pathOf ps \<equiv> CHR ''/'' # joinStr ''/'' ps"

lemma joinStr_snoc: "ps \<noteq> [] \<Longrightarrow> joinStr sep (ps @ [x]) = joinStr sep ps @ sep @ x"
  by (induction sep ps rule: joinStr.induct) auto

lemma joinStr_plain: "ps \<noteq> [] \<Longrightarrow> list_all plainPart ps \<Longrightarrow> joinStr sep ps \<noteq> []"
  by (induction sep ps rule: joinStr.induct) (auto simp: plainPart_def)

lemma joinPath_pathOf:
  assumes "list_all plainPart ps"
  shows "joinPath (pathOf ps) x = pathOf (ps @ [x])"
proof (cases "ps = []")
  case False
  with joinStr_plain [OF False assms] show ?thesis by (simp add: joinPath_def joinStr_snoc)
qed (simp add: joinPath_def)

lemma splitComponents_pathOf:
  assumes "list_all plainPart ps"
  shows "splitComponents (pathOf ps) = ps"
proof (cases "ps = []")
  case False
  have "splitByte CHR ''/'' (joinStr ''/'' ps) = ps"
    using assms False by (intro splitByte_joinStr) (auto simp: list_all_iff plainPart_def)
  with joinStr_plain [OF False assms] show ?thesis
    by (simp add: splitComponents_def trimPrefix_def hasPrefix_def)
qed (simp add: splitComponents_def)

lemma normalizePath_parts:
  obtains ps where "normalizePath p = pathOf ps" "list_all plainPart ps"
proof (cases "p = []")
  case True
  then show ?thesis using that [of "[]"] by (simp add: normalizePath_def)
next
  case False
  show ?thesis
    by (rule cleanRooted_parts [of "if hasPrefix p ''/'' then p else CHR ''/'' # p"])
      (use False that in \<open>simp add: normalizePath_def\<close>)
qed

lemma splitComponents_plain: "list_all plainPart (splitComponents (normalizePath p))"
  by (rule normalizePath_parts [of p]) (simp add: splitComponents_pathOf)

lemma rebuildPath_plain: "list_all plainPart (splitComponents (rebuildPath cur target rest))"
  by (simp add: rebuildPath_def Let_def splitComponents_plain)

lemma pathOf_splitComponents: "pathOf (splitComponents (normalizePath p)) = normalizePath p"
  by (rule normalizePath_parts [of p]) (simp add: splitComponents_pathOf)

lemma normalizePath_pathOf: "list_all plainPart ps \<Longrightarrow> normalizePath (pathOf ps) = pathOf ps"
  by (simp add: normalizePath_def hasPrefix_def cleanRooted_plain)

subsection \<open>Resolution finds what a walk without links finds\<close>

text \<open>A walk that never meets a link: every component but the last is a directory.\<close>

fun directWalk :: "redis \<Rightarrow> inode_data \<Rightarrow> string list \<Rightarrow> inode_data option" where
  "directWalk r dir [] = Some dir"
| "directWalk r dir (x # xs) =
     (case lookupChildID r (in_id dir) x of
        Inl _ \<Rightarrow> None
      | Inr c \<Rightarrow>
          (case loadInodeByID r c of
             Inr (Some inode) \<Rightarrow> if xs \<noteq> [] \<and> in_type inode \<noteq> ''dir'' then None else directWalk r inode xs
           | _ \<Rightarrow> None))"

lemma directWalk_snoc:
  assumes "directWalk r root ps = Some dir" and "ps = [] \<or> in_type dir = ''dir''"
    and "lookupChildID r (in_id dir) x = Inr c" and "loadInodeByID r c = Inr (Some i)"
  shows "directWalk r root (ps @ [x]) = Some i"
  using assms
proof (induction ps arbitrary: root)
  case (Cons y ys)
  then show ?case by (cases "ys = []") (auto split: sum.splits option.splits if_splits)
qed simp

text \<open>What is known while a resolution runs: the inode reached so far is the one at the path so far.\<close>

definition reached :: "redis \<Rightarrow> inode_data \<Rightarrow> path \<Rightarrow> inode_data \<Rightarrow> bool" where
  "reached r root q i \<longleftrightarrow>
     (\<exists>ps. list_all plainPart ps \<and> q = pathOf ps \<and> directWalk r root ps = Some i)"

lemma reached_root: "reached r root ''/'' root"
  by (auto simp: reached_def intro!: exI [of _ "[]"])

lemma reached_step:
  assumes "reached r root cur dir" and "cur = ''/'' \<or> in_type dir = ''dir''" and "plainPart x"
    and "lookupChildID r (in_id dir) x = Inr c" and "loadInodeByID r c = Inr (Some i)"
  shows "reached r root (joinPath cur x) i"
proof -
  obtain ps where ps: "list_all plainPart ps" "cur = pathOf ps" "directWalk r root ps = Some dir"
    using assms(1) by (auto simp: reached_def)
  moreover have "ps = [] \<or> in_type dir = ''dir''" using assms(2) ps joinStr_plain by fastforce
  ultimately show ?thesis using assms(3-5) directWalk_snoc [of r root ps dir x c i]
    by (auto simp: reached_def joinPath_pathOf intro!: exI [of _ "ps @ [x]"])
qed

lemma resolveFrom_reached:
  assumes "loadInodeByID r ''1'' = Inr (Some root)" and "reached r root cur dir"
    and "cur = ''/'' \<and> dir = root \<or> in_type dir = ''dir''" and "list_all plainPart xs"
    and "resolveFrom r ff depth cur dir xs = Inr (q, i)"
  shows "reached r root q i \<and> (ff \<longrightarrow> q = ''/'' \<and> i = root \<or> in_type i \<noteq> ''symlink'')"
  using assms
proof (induction r ff depth cur dir xs rule: resolveFrom.induct)
  case (2 r ff depth cur dir x xs)
  then obtain c inode where look: "lookupChildID r (in_id dir) x = Inr c" "loadInodeByID r c = Inr (Some inode)"
    by (auto simp: resolveFrom.simps(2) split: sum.splits option.splits)
  have step: "reached r root (joinPath cur x) inode"
    using "2.prems" look by (intro reached_step [of r root cur dir]) auto
  show ?case
  proof (cases "in_type inode = ''symlink'' \<and> (ff \<or> xs \<noteq> [])")
    case True
    with "2.prems"(5)
    have "resolveFrom r ff (depth + 1) ''/'' root (splitComponents (rebuildPath cur (in_target inode) xs)) = Inr (q, i)"
      "\<not> maxSymlinkDepth < depth + 1" "in_target inode \<noteq> []"
      by (simp_all add: resolveFrom.simps(2) look "2.prems"(1) split: if_splits)
    with "2.IH"(1) [OF look] True "2.prems"(1) show ?thesis by (auto simp: reached_root rebuildPath_plain)
  next
    case False
    then show ?thesis using "2.prems" "2.IH"(2) [OF look] look step
      by (auto simp: resolveFrom.simps(2) split: if_splits)
  qed
qed auto

lemma directWalk_resolve:
  assumes "directWalk r dir xs = Some i" and "ff \<Longrightarrow> xs = [] \<or> in_type i \<noteq> ''symlink''"
    and "list_all plainPart (ps @ xs)"
  shows "resolveFrom r ff depth (pathOf ps) dir xs = Inr (pathOf (ps @ xs), i)"
  using assms
proof (induction xs arbitrary: dir ps)
  case (Cons x xs)
  then obtain c inode where look: "lookupChildID r (in_id dir) x = Inr c" "loadInodeByID r c = Inr (Some inode)"
    and walk: "directWalk r inode xs = Some i" and dir: "xs \<noteq> [] \<Longrightarrow> in_type inode = ''dir''"
    by (auto split: sum.splits option.splits if_splits)
  have ps: "list_all plainPart ps" using Cons.prems(3) by simp
  show ?case
  proof (cases "xs = []")
    case True
    with walk Cons.prems(2) look ps show ?thesis by (auto simp: resolveFrom.simps(2) joinPath_pathOf)
  next
    case False
    have "resolveFrom r ff depth (pathOf (ps @ [x])) inode xs = Inr (pathOf ((ps @ [x]) @ xs), i)"
      using Cons.prems False by (intro Cons.IH [OF walk]) auto
    with False dir look ps show ?thesis by (simp add: resolveFrom.simps(2) joinPath_pathOf)
  qed
qed simp

text \<open>
  C17: Path resolution is canonical.  The path it returns is clean and free of links: walking its
  components from the root meets only directories and ends at the returned inode.  With links
  followed the result is no link, and resolving the returned path again gives the same answer.
\<close>

theorem resolve_canonical:
  assumes "resolvePath c r p ff = Inr (q, i)"
  shows "normalizePath q = q
    \<and> (\<exists>root. loadInodeByID r ''1'' = Inr (Some root) \<and> directWalk r root (splitComponents q) = Some i)
    \<and> (ff \<longrightarrow> q = ''/'' \<or> in_type i \<noteq> ''symlink'')
    \<and> resolvePath c r q ff = Inr (q, i)"
proof -
  obtain root where g: "checkGeneration c r = None" and root: "loadInodeByID r ''1'' = Inr (Some root)"
    and run: "resolveFrom r ff 0 ''/'' root (splitComponents (normalizePath p)) = Inr (q, i)"
    using assms by (auto simp: resolvePath_def split: option.splits sum.splits)
  from resolveFrom_reached [OF root reached_root _ splitComponents_plain run]
  obtain ps where ps: "list_all plainPart ps" "q = pathOf ps" "directWalk r root ps = Some i"
    and ff: "ff \<longrightarrow> q = ''/'' \<and> i = root \<or> in_type i \<noteq> ''symlink''"
    by (auto simp: reached_def)
  have empty: "q = ''/'' \<longleftrightarrow> ps = []" using ps(1,2) joinStr_plain by fastforce
  have "resolveFrom r ff 0 (pathOf []) root ps = Inr (pathOf ([] @ ps), i)"
    using ps ff empty by (intro directWalk_resolve) auto
  with ps g root have "resolvePath c r q ff = Inr (q, i)"
    by (simp add: resolvePath_def normalizePath_pathOf splitComponents_pathOf)
  with ps root ff show ?thesis by (auto simp: normalizePath_pathOf splitComponents_pathOf)
qed

text \<open>A small tree: the directory \<open>/a\<close> with the file \<open>/a/f\<close>, and the link \<open>/l\<close> to \<open>a\<close>.\<close>

definition exampleNode :: "string \<Rightarrow> string \<Rightarrow> string \<Rightarrow> string \<Rightarrow> rvalue" where
  "exampleNode kind parent name target =
     RHash [''type'' \<mapsto> kind, ''parent'' \<mapsto> parent, ''name'' \<mapsto> name, ''target'' \<mapsto> target]"

definition exampleTree :: redis where
  "exampleTree = [KInode ''1'' \<mapsto> exampleNode ''dir'' [] [] [], KInode ''2'' \<mapsto> exampleNode ''dir'' ''1'' ''a'' [],
     KInode ''3'' \<mapsto> exampleNode ''symlink'' ''1'' ''l'' ''a'', KInode ''4'' \<mapsto> exampleNode ''file'' ''2'' ''f'' [],
     KDirents ''1'' \<mapsto> RHash [''a'' \<mapsto> ''2'', ''l'' \<mapsto> ''3''], KDirents ''2'' \<mapsto> RHash [''f'' \<mapsto> ''4''],
     KNextInode \<mapsto> RString ''4'']"

definition exampleData :: "string \<Rightarrow> string \<Rightarrow> string \<Rightarrow> string \<Rightarrow> string \<Rightarrow> inode_data" where
  "exampleData i kind parent name target =
     \<lparr>in_revision = [], in_id = i, in_parent = parent, in_name = name, in_type = kind, in_mode = 0, in_uid = 0,
      in_gid = 0, in_size = 0, in_ctimeMs = 0, in_mtimeMs = 0, in_atimeMs = 0, in_target = target,
      in_content = [], in_contentRef = []\<rparr>"

lemma exampleTree_load:
  "loadInodeByID exampleTree ''1'' = Inr (Some (exampleData ''1'' ''dir'' [] [] []))"
  "loadInodeByID exampleTree ''2'' = Inr (Some (exampleData ''2'' ''dir'' ''1'' ''a'' []))"
  "loadInodeByID exampleTree ''3'' = Inr (Some (exampleData ''3'' ''symlink'' ''1'' ''l'' ''a''))"
  "loadInodeByID exampleTree ''4'' = Inr (Some (exampleData ''4'' ''file'' ''2'' ''f'' []))"
  by (simp_all add: loadInodeByID_def exampleTree_def exampleNode_def isHashOrNone_def inodeFromValues_def
      hashAt_def exampleData_def toStr_def toInt_def)

lemma exampleTree_lookup:
  "lookupChildID exampleTree ''1'' ''a'' = Inr ''2''" "lookupChildID exampleTree ''1'' ''l'' = Inr ''3''"
  "lookupChildID exampleTree ''2'' ''f'' = Inr ''4''"
  by (simp_all add: lookupChildID_def exampleTree_def exampleNode_def isHashOrNone_def hget_def hashAt_def)

lemmas path_eval = splitComponents_def normalizePath_def cleanRooted_def cleanStep_def trimPrefix_def
  hasPrefix_def joinPath_def rebuildPath_def

lemma exampleTree_resolve:
  "resolvePath emptyContext exampleTree ''/l/f'' True = Inr (''/a/f'', exampleData ''4'' ''file'' ''2'' ''f'' [])"
proof -
  have link: "splitComponents (rebuildPath ''/'' ''a'' [''f'']) = [''a'', ''f'']" by (simp add: path_eval)
  have "splitComponents (normalizePath ''/l/f'') = [''l'', ''f'']" by (simp add: path_eval)
  then show ?thesis
    by (simp add: resolvePath_def checkGeneration_def emptyContext_def exampleTree_load resolveFrom.simps(2)
        exampleTree_lookup exampleData_def maxSymlinkDepth_def link joinPath_def)
qed

theorem resolve_canonical_witness:
  "normalizePath ''/a/f'' = ''/a/f''
    \<and> resolvePath emptyContext exampleTree ''/a/f'' True = Inr (''/a/f'', exampleData ''4'' ''file'' ''2'' ''f'' [])"
  using resolve_canonical [OF exampleTree_resolve] by blast

subsection \<open>Resolution follows at most forty links\<close>

text \<open>
  The paths a resolution could take if it followed any number of links; the number counts them.
\<close>

inductive follows ::
    "redis \<Rightarrow> bool \<Rightarrow> path \<Rightarrow> inode_data \<Rightarrow> string list \<Rightarrow> nat \<Rightarrow> path \<Rightarrow> inode_data \<Rightarrow> bool" for r ff where
  arrived: "follows r ff cur dir [] 0 cur dir"
| final: "lookupChildID r (in_id dir) x = Inr c \<Longrightarrow> loadInodeByID r c = Inr (Some i)
    \<Longrightarrow> \<not> (in_type i = ''symlink'' \<and> ff) \<Longrightarrow> follows r ff cur dir [x] 0 (joinPath cur x) i"
| enter: "lookupChildID r (in_id dir) x = Inr c \<Longrightarrow> loadInodeByID r c = Inr (Some i)
    \<Longrightarrow> in_type i = ''dir'' \<Longrightarrow> xs \<noteq> [] \<Longrightarrow> follows r ff (joinPath cur x) i xs n q j
    \<Longrightarrow> follows r ff cur dir (x # xs) n q j"
| link: "lookupChildID r (in_id dir) x = Inr c \<Longrightarrow> loadInodeByID r c = Inr (Some i)
    \<Longrightarrow> in_type i = ''symlink'' \<Longrightarrow> ff \<or> xs \<noteq> [] \<Longrightarrow> in_target i \<noteq> []
    \<Longrightarrow> loadInodeByID r ''1'' = Inr (Some root)
    \<Longrightarrow> follows r ff ''/'' root (splitComponents (rebuildPath cur (in_target i) xs)) n q j
    \<Longrightarrow> follows r ff cur dir (x # xs) (Suc n) q j"

lemma follows_resolve:
  "follows r ff cur dir xs n q j \<Longrightarrow> depth + n \<le> maxSymlinkDepth
   \<Longrightarrow> resolveFrom r ff depth cur dir xs = Inr (q, j)"
  by (induction arbitrary: depth rule: follows.induct) (auto simp: resolveFrom.simps(2))

lemma resolve_follows:
  "resolveFrom r ff depth cur dir xs = Inr (q, j) \<Longrightarrow> depth \<le> maxSymlinkDepth
   \<Longrightarrow> \<exists>n. follows r ff cur dir xs n q j \<and> depth + n \<le> maxSymlinkDepth"
proof (induction r ff depth cur dir xs rule: resolveFrom.induct)
  case (1 r ff depth cur dir)
  then show ?case by (auto intro: follows.arrived)
next
  case (2 r ff depth cur dir x xs)
  then obtain c inode where look: "lookupChildID r (in_id dir) x = Inr c" "loadInodeByID r c = Inr (Some inode)"
    by (auto simp: resolveFrom.simps(2) split: sum.splits option.splits)
  show ?case
  proof (cases "in_type inode = ''symlink'' \<and> (ff \<or> xs \<noteq> [])")
    case True
    with "2.prems"(1) obtain root where root: "loadInodeByID r ''1'' = Inr (Some root)"
      and run: "resolveFrom r ff (depth + 1) ''/'' root (splitComponents (rebuildPath cur (in_target inode) xs)) = Inr (q, j)"
      and ok: "depth + 1 \<le> maxSymlinkDepth" "in_target inode \<noteq> []"
      by (auto simp: resolveFrom.simps(2) look split: if_splits sum.splits option.splits)
    from "2.IH"(1) [OF look] True root run ok obtain n
      where "follows r ff ''/'' root (splitComponents (rebuildPath cur (in_target inode) xs)) n q j"
        "depth + 1 + n \<le> maxSymlinkDepth" by fastforce
    with True look root ok(2) show ?thesis
      by (intro exI [of _ "Suc n"]) (auto intro: follows.link)
  next
    case False
    with "2.prems" "2.IH"(2) [OF look] look show ?thesis
      by (auto simp: resolveFrom.simps(2) intro: follows.final follows.enter split: if_splits)
  qed
qed

text \<open>
  C18: The bound on symbolic links is exact.  A path resolves exactly when the chase of its links
  ends after at most forty of them, and then to what that chase reaches; the resolution of any
  path in any store, cyclic links included, returns.
\<close>

theorem resolve_link_bound:
  "resolvePath c r p ff = Inr (q, i) \<longleftrightarrow>
     checkGeneration c r = None
     \<and> (\<exists>root n. loadInodeByID r ''1'' = Inr (Some root) \<and> n \<le> 40
         \<and> follows r ff ''/'' root (splitComponents (normalizePath p)) n q i)"
proof -
  have "resolveFrom r ff 0 ''/'' root xs = Inr (q, i) \<longleftrightarrow> (\<exists>n. n \<le> 40 \<and> follows r ff ''/'' root xs n q i)" for root xs
    using follows_resolve [of r ff "''/''" root xs _ q i 0] resolve_follows [of r ff 0 "''/''" root xs q i]
    by (auto simp: maxSymlinkDepth_def)
  then show ?thesis by (auto simp: resolvePath_def split: option.splits sum.splits)
qed

end
