(* ===== verification/TreeOps.thy ===== *)
theory TreeOps
  imports TreeStore
begin

text \<open>
  How the native client changes the shared tree: optimistic transactions (\<open>retryWatch\<close>), allocation
  of inode ids, creation of an inode under a directory, missing parents, rename with replacement,
  and the metadata operations (\<open>mount/internal/client/native_helpers.go\<close>, \<open>native_core.go\<close>).

  A transaction watches keys, reads, and then executes its commands in one step, unless a watched
  key was written meanwhile.  One try is what other clients did before its reads, and the writes of
  other clients between its reads and its execution.  The reply of an execution is not lost.
\<close>

unbundle bit_operations_syntax

subsection \<open>Transactions\<close>

text \<open>The commands a transaction queues.  \<open>CmdMarkDirty\<close> is the script \<open>markExistingDirty\<close>.\<close>

datatype rcmd = CmdHSet rkey "(string \<times> string) list" | CmdHDel rkey string | CmdHIncr rkey string int
  | CmdSet rkey string | CmdSetNX rkey string | CmdArray rkey bytes | CmdDel rkey | CmdXAdd rkey string
  | CmdSAdd rkey string | CmdMarkDirty string "(string \<times> string) list"

fun runCmd :: "rcmd \<Rightarrow> redis \<Rightarrow> bool \<times> redis" where
  "runCmd (CmdHSet k fvs) r = (if isHashOrNone r k then (True, hsetAll k fvs r) else (False, r))"
| "runCmd (CmdHDel k f) r = (if isHashOrNone r k then (True, hdel k f r) else (False, r))"
| "runCmd (CmdHIncr k f d) r = (case hincrby k f d r of None \<Rightarrow> (False, r) | Some r1 \<Rightarrow> (True, r1))"
| "runCmd (CmdSet k v) r = (True, r(k \<mapsto> RString v))"
| "runCmd (CmdSetNX k v) r = (True, if r k = None then r(k \<mapsto> RString v) else r)"
| "runCmd (CmdArray k b) r = (True, r(k \<mapsto> RArray b))"
| "runCmd (CmdDel k) r = (True, r(k := None))"
| "runCmd (CmdXAdd k x) r = (if isStreamOrNone r k then (True, xadd k x r) else (False, r))"
| "runCmd (CmdSAdd k x) r = (if isSetOrNone r k then (True, sadd k x r) else (False, r))"
| "runCmd (CmdMarkDirty i fvs) r =
     (if \<not> isHashOrNone r (KInode i) then (False, r)
      else let r1 = (if r (KInode i) = None then r else hsetAll (KInode i) fvs r)
           in if isSetOrNone r1 KDirtySet then (True, sadd KDirtySet i r1) else (False, r1))"

text \<open>\<open>EXEC\<close> runs every command; when one fails the others still run, and the call reports an error.\<close>

fun execAll :: "rcmd list \<Rightarrow> redis \<Rightarrow> bool \<times> redis" where
  "execAll [] r = (True, r)"
| "execAll (c # cs) r =
     (let (ok, r1) = runCmd c r; (oks, r2) = execAll cs r1 in (ok \<and> oks, r2))"

record tx_try =
  tx_before :: "redis \<Rightarrow> redis"
  tx_during :: "(rkey \<times> rvalue option) list"

definition applyWrites :: "(rkey \<times> rvalue option) list \<Rightarrow> redis \<Rightarrow> redis" where
  "applyWrites ws r = fold (\<lambda>(k, v) r. r(k := v)) ws r"

text \<open>
  What the body of a transaction returns without executing: the transaction error that asks for
  another try, an error for the caller, or the directory that has to be watched as well.
\<close>

datatype tx_stop = StopTx | StopErr client_err | StopNeedDir string

definition txStopErr :: "tx_stop \<Rightarrow> client_err" where
  "txStopErr s = (case s of StopTx \<Rightarrow> COther ''redis: transaction failed'' | StopErr e \<Rightarrow> e
     | StopNeedDir _ \<Rightarrow> COther ''need destination dir watch'')"

type_synonym 'a tx_body = "redis \<Rightarrow> tx_stop + (rcmd list \<times> 'a)"

fun chainKeys :: "redis \<Rightarrow> string \<Rightarrow> string list \<Rightarrow> rkey list" where
  "chainKeys r d [] = []"
| "chainKeys r d (x # xs) =
     KDirents d # (case hget r (KDirents d) x of None \<Rightarrow> [] | Some c \<Rightarrow> chainKeys r c xs)"

definition watchedKeys :: "write_context \<Rightarrow> rkey list \<Rightarrow> redis \<Rightarrow> rkey list" where
  "watchedKeys c keys r =
     keys @ (if wc_lease c \<noteq> [] then [KSession (wc_lease c)] else [])
     @ (if wc_generation c \<noteq> [] then [KGeneration] else [])
     @ concat (map (\<lambda>(p, e). chainKeys r ''1'' (splitComponents p)) (AList.clearjunk (wc_parents c)))"

definition txGuard :: "write_context \<Rightarrow> redis \<Rightarrow> client_err option" where
  "txGuard c r =
     (if wc_lease c \<noteq> [] \<and> r (KSession (wc_lease c)) = None then Some ErrNativeSessionLost
      else case (if wc_generation c = [] then None
                 else case r KGeneration of
                        None \<Rightarrow> Some ErrWorkspaceChanged
                      | Some (RString g) \<Rightarrow> if g \<noteq> wc_generation c then Some ErrWorkspaceChanged else None
                      | Some _ \<Rightarrow> Some wrongType) of
             Some e \<Rightarrow> Some e
           | None \<Rightarrow> watchExpectedParents c r)"

text \<open>
  The world of a client: the number of tries made so far, which indexes what it draws from outside,
  and the store.
\<close>

record tree_env =
  te_try :: "nat \<Rightarrow> tx_try"
  te_now :: "nat \<Rightarrow> int"
  te_payload :: "string \<Rightarrow> path list \<Rightarrow> string"
  te_preferred :: string
  te_dirtySent :: "nat \<Rightarrow> bool"
  te_revision :: "nat \<Rightarrow> string"
  te_stale :: "(string \<times> string) list"
  te_order :: dir_order

type_synonym tree_world = "nat \<times> redis"

fun retryLoop :: "nat \<Rightarrow> tree_env \<Rightarrow> write_context \<Rightarrow> rkey list \<Rightarrow> 'a tx_body \<Rightarrow> tree_world \<Rightarrow> (tx_stop + 'a) \<times> tree_world" where
  "retryLoop 0 env c keys body w = (Inl StopTx, w)"
| "retryLoop (Suc n) env c keys body (k, r0) =
     (let r = tx_before (te_try env k) r0; during = tx_during (te_try env k) in
      case txGuard c r of
        Some e \<Rightarrow> (Inl (StopErr e), k + 1, r)
      | None \<Rightarrow>
          (case body r of
             Inl StopTx \<Rightarrow> retryLoop n env c keys body (k + 1, r)
           | Inl e \<Rightarrow> (Inl e, k + 1, r)
           | Inr (cmds, v) \<Rightarrow>
               if list_ex (\<lambda>(q, _). q \<in> set (watchedKeys c keys r)) during
               then retryLoop n env c keys body (k + 1, applyWrites during r)
               else (case execAll cmds (applyWrites during r) of
                       (ok, r1) \<Rightarrow> (if ok then Inr v else Inl (StopErr wrongType), k + 1, r1))))"

definition retryWatch :: "tree_env \<Rightarrow> write_context \<Rightarrow> rkey list \<Rightarrow> 'a tx_body \<Rightarrow> tree_world \<Rightarrow> (tx_stop + 'a) \<times> tree_world" where
  "retryWatch = retryLoop 16"

subsection \<open>Queued bookkeeping\<close>

definition queueCreateInfo :: "inode_data \<Rightarrow> rcmd list" where
  "queueCreateInfo i =
     (if in_type i = ''file''
      then CmdHIncr KInfo ''files'' 1 # (if in_size i > 0 then [CmdHIncr KInfo ''total_data_bytes'' (in_size i)] else [])
      else if in_type i = ''dir'' then [CmdHIncr KInfo ''directories'' 1]
      else if in_type i = ''symlink'' then [CmdHIncr KInfo ''symlinks'' 1] else [])"

definition queueDeleteInfo :: "inode_data \<Rightarrow> rcmd list" where
  "queueDeleteInfo i =
     (if in_type i = ''file''
      then CmdHIncr KInfo ''files'' (-1) # (if in_size i > 0 then [CmdHIncr KInfo ''total_data_bytes'' (- in_size i)] else [])
      else if in_type i = ''dir'' then [CmdHIncr KInfo ''directories'' (-1)]
      else if in_type i = ''symlink'' then [CmdHIncr KInfo ''symlinks'' (-1)] else [])"

definition queueTouchTimes :: "string \<Rightarrow> int \<Rightarrow> rcmd list" where
  "queueTouchTimes i ts =
     (if i = [] then [] else [CmdHSet (KInode i) [(''ctime_ms'', intText ts), (''mtime_ms'', intText ts)]])"

definition queueInvalidation :: "tree_env \<Rightarrow> string \<Rightarrow> path list \<Rightarrow> rcmd list" where
  "queueInvalidation env op paths =
     (let payload = te_payload env op paths in if payload = [] then [] else [CmdXAdd KChanges payload])"

definition queueQueryDeleted :: "string \<Rightarrow> rcmd list" where
  "queueQueryDeleted i = (if trimSpace i = [] then [] else [CmdSAdd KDirtySet (trimSpace i)])"

definition queueQueryDirty :: "tree_env \<Rightarrow> string \<Rightarrow> rcmd list" where
  "queueQueryDirty env i = (if trimSpace i = [] then [] else [CmdMarkDirty (trimSpace i) (te_stale env)])"

text \<open>\<open>rediscontent.QueueWriteFull\<close> for the two external backends.\<close>

definition queueWriteFull :: "rkey \<Rightarrow> string \<Rightarrow> bytes \<Rightarrow> rcmd list" where
  "queueWriteFull k ref data =
     (if trimSpace ref = ''array'' then CmdDel k # (if data = [] then [] else [CmdArray k data])
      else [CmdSet k data])"

text \<open>\<open>markRootDirty\<close>: within the debounce window nothing is sent.\<close>

definition markRootDirty :: "tree_env \<Rightarrow> write_context \<Rightarrow> tree_world \<Rightarrow> client_err option \<times> tree_world" where
  "markRootDirty env c w =
     (let (k, r) = w in
      if te_dirtySent env k then (None, w)
      else if wc_generation c \<noteq> []
      then (case r KGeneration of
              Some (RString g) \<Rightarrow>
                if g \<noteq> wc_generation c then (Some ErrWorkspaceChanged, w)
                else if leaseGuardKey c \<noteq> KGeneration \<and> r (leaseGuardKey c) = None
                then (Some ErrNativeSessionLost, w)
                else (None, k, r(KRootDirty \<mapsto> RString ''1''))
            | None \<Rightarrow> (Some ErrWorkspaceChanged, w)
            | Some _ \<Rightarrow> (Some wrongType, w))
      else (None, k, r(KRootDirty \<mapsto> RString ''1'')))"

subsection \<open>Creating inodes\<close>

definition emptyInode :: inode_data where
  "emptyInode = \<lparr>in_revision = [], in_id = [], in_parent = [], in_name = [], in_type = [], in_mode = 0, in_uid = 0,
     in_gid = 0, in_size = 0, in_ctimeMs = 0, in_mtimeMs = 0, in_atimeMs = 0, in_target = [], in_content = [],
     in_contentRef = []\<rparr>"

definition newInode :: "string \<Rightarrow> u32 \<Rightarrow> int \<Rightarrow> inode_data" where
  "newInode kind mode now = emptyInode\<lparr>in_type := kind, in_mode := mode, in_ctimeMs := now, in_mtimeMs := now,
     in_atimeMs := now\<rparr>"

definition ensureRootCmds :: "int \<Rightarrow> rcmd list" where
  "ensureRootCmds now =
     [CmdHSet (KInode ''1'') (inodeFieldsAtPath ((newInode ''dir'' 493 now)\<lparr>in_id := ''1''\<rparr>) ''/'' False),
      CmdHSet KInfo [(''schema_version'', ''2''), (''files'', ''0''), (''directories'', ''1''), (''symlinks'', ''0''),
        (''total_data_bytes'', ''0'')],
      CmdSetNX KNextInode ''1'']"

definition ensureRoot :: "tree_env \<Rightarrow> write_context \<Rightarrow> tree_world \<Rightarrow> client_err option \<times> tree_world" where
  "ensureRoot env c w =
     (let (k, r) = w in
      case checkGeneration c r of Some e \<Rightarrow> (Some e, w) | None \<Rightarrow>
      case loadInodeByID r ''1'' of
        Inl e \<Rightarrow> (Some e, w)
      | Inr (Some _) \<Rightarrow> (None, w)
      | Inr None \<Rightarrow>
          if wc_generation c \<noteq> [] then (Some ErrWorkspaceChanged, w)
          else (case execAll (ensureRootCmds (te_now env k)) r of
                  (ok, r1) \<Rightarrow> (if ok then None else Some wrongType, k, r1)))"

text \<open>\<open>INCR\<close> of the id counter.\<close>

definition incrNext :: "redis \<Rightarrow> (string \<times> redis) option" where
  "incrNext r =
     (case (case r KNextInode of None \<Rightarrow> Some 0 | Some (RString s) \<Rightarrow> decimal s | _ \<Rightarrow> None) of
        None \<Rightarrow> None
      | Some n \<Rightarrow> if 2 ^ 63 - 1 \<le> n then None
                  else Some (intText (n + 1), r(KNextInode \<mapsto> RString (intText (n + 1)))))"

definition allocInodeID :: "tree_env \<Rightarrow> write_context \<Rightarrow> tree_world \<Rightarrow> (client_err + string) \<times> tree_world" where
  "allocInodeID env c w =
     (case ensureRoot env c w of
        (Some e, w1) \<Rightarrow> (Inl e, w1)
      | (None, k, r) \<Rightarrow>
          (case incrNext r of
             None \<Rightarrow> (Inl wrongType, k, r)
           | Some (i, r1) \<Rightarrow> (Inr i, k, r1)))"

definition selectContentRef :: "tree_env \<Rightarrow> inode_data \<Rightarrow> inode_data" where
  "selectContentRef env i =
     (if in_type i \<noteq> ''file'' then i
      else if in_contentRef i = [] then i\<lparr>in_contentRef := te_preferred env\<rparr>
      else if in_contentRef i = ''ext'' \<and> te_preferred env = ''array'' then i\<lparr>in_contentRef := ''array''\<rparr>
      else i)"

definition createCmds :: "tree_env \<Rightarrow> path \<Rightarrow> string \<Rightarrow> inode_data \<Rightarrow> int \<Rightarrow> rcmd list" where
  "createCmds env childPath parentID i now =
     (if in_type i = ''file'' \<and> isExternalContentRef (in_contentRef i)
      then queueWriteFull (KContent (in_id i)) (in_contentRef i) (in_content i)
        @ [CmdHSet (KInode (in_id i)) (inodeFieldsAtPath i childPath False)]
      else [CmdHSet (KInode (in_id i)) (inodeFieldsAtPath i childPath (in_type i = ''file''))])
     @ [CmdHSet (KDirents parentID) [(in_name i, in_id i)]]
     @ queueTouchTimes parentID now @ queueCreateInfo i
     @ [CmdSet KRootDirty ''1''] @ queueInvalidation env ''inode'' [childPath]"

definition createBody :: "tree_env \<Rightarrow> path \<Rightarrow> string \<Rightarrow> inode_data \<Rightarrow> int \<Rightarrow> inode_data tx_body" where
  "createBody env childPath parentID i now r =
     (if r (KInode parentID) = None then Inl (StopErr CWriteConflict)
      else if \<not> isHashOrNone r (KDirents parentID) then Inl (StopErr wrongType)
      else if hget r (KDirents parentID) (in_name i) \<noteq> None then Inl (StopErr CAlreadyExists)
      else Inr (createCmds env childPath parentID i now, i))"

definition createInodeUnderParent ::
    "tree_env \<Rightarrow> write_context \<Rightarrow> path \<Rightarrow> inode_data \<Rightarrow> string \<Rightarrow> inode_data \<Rightarrow> tree_world \<Rightarrow> (client_err + inode_data) \<times> tree_world" where
  "createInodeUnderParent env c childPath parent name inode w =
     (if in_type parent \<noteq> ''dir'' then (Inl ErrParentConflict, w)
      else case checkExpectedParent c childPath (in_id parent) of Some e \<Rightarrow> (Inl e, w) | None \<Rightarrow>
      case lookupChildID (snd w) (in_id parent) name of
        Inr _ \<Rightarrow> (Inl CAlreadyExists, w)
      | Inl e \<Rightarrow>
          if e \<noteq> CRedisNil then (Inl e, w)
          else (case allocInodeID env c w of
                  (Inl e, w1) \<Rightarrow> (Inl e, w1)
                | (Inr newid, w1) \<Rightarrow>
                    (let i = selectContentRef env (inode\<lparr>in_id := newid, in_parent := in_id parent, in_name := name\<rparr>) in
                     case retryWatch env c [KDirents (in_id parent), KInode (in_id parent)]
                            (createBody env childPath (in_id parent) i (te_now env (fst w1))) w1 of
                       (Inl s, w2) \<Rightarrow> (Inl (txStopErr s), w2)
                     | (Inr v, w2) \<Rightarrow> (Inr v, w2))))"

text \<open>The missing parents of a path are created one by one, but never under a bound directory.\<close>

fun makeParents ::
    "tree_env \<Rightarrow> write_context \<Rightarrow> path \<Rightarrow> inode_data \<Rightarrow> string list \<Rightarrow> tree_world \<Rightarrow> client_err option \<times> tree_world" where
  "makeParents env c cur dir [] w = (None, w)"
| "makeParents env c cur dir (x # xs) w =
     (case lookupChildID (snd w) (in_id dir) x of
        Inr i \<Rightarrow>
          (case loadInodeByID (snd w) i of
             Inl e \<Rightarrow> (Some e, w)
           | Inr None \<Rightarrow> (Some ErrParentConflict, w)
           | Inr (Some child) \<Rightarrow>
               if in_type child \<noteq> ''dir'' then (Some ErrParentConflict, w)
               else makeParents env c (joinPath cur x) child xs w)
      | Inl e \<Rightarrow>
          if e \<noteq> CRedisNil then (Some e, w)
          else (case createInodeUnderParent env c (joinPath cur x) dir x (newInode ''dir'' 493 (te_now env (fst w))) w of
                  (Inl e, w1) \<Rightarrow> (Some e, w1)
                | (Inr child, w1) \<Rightarrow> makeParents env c (joinPath cur x) child xs w1))"

definition ensureParents :: "tree_env \<Rightarrow> write_context \<Rightarrow> path \<Rightarrow> tree_world \<Rightarrow> client_err option \<times> tree_world" where
  "ensureParents env c p w =
     (if wc_parents c \<noteq> []
      then (case resolvePath c (snd w) (dirOf (normalizePath p)) True of
              Inl CRedisNil \<Rightarrow> (Some CWriteConflict, w)
            | Inl e \<Rightarrow> (Some e, w)
            | Inr (q, parent) \<Rightarrow> (checkExpectedParent c p (in_id parent), w))
      else case ensureRoot env c w of
             (Some e, w1) \<Rightarrow> (Some e, w1)
           | (None, w1) \<Rightarrow>
               if dirOf p = ''/'' then (None, w1)
               else (case loadInodeByID (snd w1) ''1'' of
                       Inl e \<Rightarrow> (Some e, w1)
                     | Inr None \<Rightarrow> (Some CRedisNil, w1)
                     | Inr (Some root) \<Rightarrow> makeParents env c ''/'' root (splitComponents (dirOf p)) w1))"

definition createInodeAtPath ::
    "tree_env \<Rightarrow> write_context \<Rightarrow> path \<Rightarrow> inode_data \<Rightarrow> bool \<Rightarrow> tree_world \<Rightarrow> (client_err + inode_data) \<times> tree_world" where
  "createInodeAtPath env c p0 inode withParents w =
     (let p = normalizePath p0 in
      if p = ''/'' then (Inl CAlreadyExists, w)
      else case (if withParents then ensureParents env c p w else (None, w)) of
             (Some e, w1) \<Rightarrow> (Inl e, w1)
           | (None, w1) \<Rightarrow>
               (case resolvePath c (snd w1) (dirOf p) True of
                  Inl e \<Rightarrow> (Inl e, w1)
                | Inr (q, parent) \<Rightarrow> createInodeUnderParent env c p parent (baseName p) inode w1))"

subsection \<open>Rename\<close>

definition renameNoreplace :: u32 where "renameNoreplace = 1"
definition renameExchange :: u32 where "renameExchange = 2"

definition ErrDirNotEmpty :: client_err where
  "ErrDirNotEmpty = COther ''directory not empty''"

text \<open>The inode that the new name leads to now: \<open>None\<close> when the name is free.\<close>

definition renameTarget ::
    "inode_data \<Rightarrow> string \<Rightarrow> string \<Rightarrow> u32 \<Rightarrow> string \<Rightarrow> redis \<Rightarrow> tx_stop + inode_data option" where
  "renameTarget currentSrc newParentID newName flags watchDst r =
     (case lookupChildID r newParentID newName of
        Inl e \<Rightarrow> if e = CRedisNil then Inr None else Inl (StopErr e)
      | Inr replacedID \<Rightarrow>
          (case loadInodeByID r replacedID of
             Inl e \<Rightarrow> Inl (StopErr e)
           | Inr None \<Rightarrow> Inl StopTx
           | Inr (Some replaced) \<Rightarrow>
               if flags AND renameNoreplace \<noteq> 0 then Inl (StopErr CAlreadyExists)
               else if in_type currentSrc = ''dir'' \<and> in_type replaced \<noteq> ''dir'' then Inl (StopErr ErrNotDir)
               else if in_type currentSrc \<noteq> ''dir'' \<and> in_type replaced = ''dir'' then Inl (StopErr CNotFile)
               else if in_type replaced \<noteq> ''dir'' then Inr (Some replaced)
               else if watchDst \<noteq> in_id replaced then Inl (StopNeedDir (in_id replaced))
               else if \<not> isHashOrNone r (KDirents (in_id replaced)) then Inl (StopErr wrongType)
               else if r (KDirents (in_id replaced)) \<noteq> None then Inl (StopErr ErrDirNotEmpty)
               else Inr (Some replaced)))"

definition renameCmds ::
    "tree_env \<Rightarrow> path \<Rightarrow> path \<Rightarrow> string \<Rightarrow> string \<Rightarrow> string \<Rightarrow> string \<Rightarrow> string \<Rightarrow> int \<Rightarrow> inode_data option \<Rightarrow> rcmd list" where
  "renameCmds env resolvedSrc dst srcID oldParentID oldName newParentID newName now replaced =
     [CmdHDel (KDirents oldParentID) oldName,
      CmdHSet (KDirents newParentID) [(newName, srcID)],
      CmdHSet (KInode srcID) [(''parent'', newParentID), (''name'', newName), (''ctime_ms'', intText now),
        (''path'', dst), (''path_ancestors'', indexedPathAncestors dst)]]
     @ queueTouchTimes oldParentID now
     @ (if newParentID \<noteq> oldParentID then queueTouchTimes newParentID now else [])
     @ (case replaced of
          None \<Rightarrow> []
        | Some x \<Rightarrow>
            CmdDel (KInode (in_id x))
            # (if in_type x = ''file'' then [CmdDel (KContent (in_id x))] else [])
            @ (if in_type x = ''dir'' then [CmdDel (KDirents (in_id x))] else [])
            @ queueDeleteInfo x)
     @ [CmdSet KRootDirty ''1''] @ queueInvalidation env ''prefix'' [resolvedSrc, dst]
     @ (case replaced of None \<Rightarrow> [] | Some x \<Rightarrow> queueQueryDeleted (in_id x))"

text \<open>One try of the transaction; on success the source as it is now.\<close>

definition renameBody ::
    "tree_env \<Rightarrow> path \<Rightarrow> inode_data \<Rightarrow> path \<Rightarrow> string \<Rightarrow> u32 \<Rightarrow> string \<Rightarrow> int \<Rightarrow> inode_data tx_body" where
  "renameBody env resolvedSrc src dst newParentID flags watchDst now r =
     (if \<not> list_all (\<lambda>d. r (KInode d) \<noteq> None) [in_parent src, newParentID] then Inl (StopErr CWriteConflict)
      else case lookupChildID r (in_parent src) (in_name src) of
        Inl e \<Rightarrow> Inl (StopErr (if e = CRedisNil then CNotFound else e))
      | Inr i \<Rightarrow>
          if i \<noteq> in_id src then Inl StopTx
          else (case loadInodeByID r i of
                  Inl e \<Rightarrow> Inl (StopErr e)
                | Inr None \<Rightarrow> Inl (StopErr CNotFound)
                | Inr (Some currentSrc) \<Rightarrow>
                    if in_revision currentSrc \<noteq> in_revision src then Inl (StopErr CWriteConflict)
                    else (case renameTarget currentSrc newParentID (baseName dst) flags watchDst r of
                            Inl s \<Rightarrow> Inl s
                          | Inr replaced \<Rightarrow>
                              Inr (renameCmds env resolvedSrc dst (in_id currentSrc) (in_parent src) (in_name src)
                                     newParentID (baseName dst) now replaced,
                                   src\<lparr>in_parent := newParentID, in_name := baseName dst, in_ctimeMs := now\<rparr>))))"

definition renameKeys :: "inode_data \<Rightarrow> string \<Rightarrow> string \<Rightarrow> rkey list" where
  "renameKeys src newParentID watchDst =
     [KDirents (in_parent src), KDirents newParentID, KInode (in_id src), KInode (in_parent src), KInode newParentID]
     @ (if watchDst \<noteq> [] then [KDirents watchDst] else [])"

fun renameLoop ::
    "nat \<Rightarrow> tree_env \<Rightarrow> write_context \<Rightarrow> path \<Rightarrow> inode_data \<Rightarrow> path \<Rightarrow> string \<Rightarrow> u32 \<Rightarrow> string \<Rightarrow> tree_world
     \<Rightarrow> (client_err + inode_data) \<times> tree_world" where
  "renameLoop 0 env c resolvedSrc src dst newParentID flags watchDst w =
     (Inl (COther ''destination changed too often''), w)"
| "renameLoop (Suc n) env c resolvedSrc src dst newParentID flags watchDst w =
     (case retryWatch env c (renameKeys src newParentID watchDst)
             (renameBody env resolvedSrc src dst newParentID flags watchDst (te_now env (fst w))) w of
        (Inr v, w1) \<Rightarrow> (Inr v, w1)
      | (Inl (StopNeedDir d), w1) \<Rightarrow> renameLoop n env c resolvedSrc src dst newParentID flags d w1
      | (Inl s, w1) \<Rightarrow> (Inl (txStopErr s), w1))"

text \<open>
  \<open>queueRefreshIndexedSubtree\<close>: the search fields of a moved subtree.  The walk reads the store
  without a bound; \<open>None\<close> when the given depth is not enough.
\<close>

fun refreshCmds :: "nat \<Rightarrow> tree_env \<Rightarrow> redis \<Rightarrow> path \<Rightarrow> string \<Rightarrow> string \<Rightarrow> (client_err + rcmd list) option"
  and refreshEntries :: "nat \<Rightarrow> tree_env \<Rightarrow> redis \<Rightarrow> path \<Rightarrow> (string \<times> string) list \<Rightarrow> (client_err + rcmd list) option" where
  "refreshCmds 0 env r p i kind = None"
| "refreshCmds (Suc n) env r p i kind =
     (let here = (if kind = ''file'' then queueQueryDirty env i else [])
        @ [CmdHSet (KInode i) [(''path'', p), (''path_ancestors'', indexedPathAncestors p)]] in
      if kind \<noteq> ''dir'' then Some (Inr here)
      else if \<not> isHashOrNone r (KDirents i) then Some (Inl wrongType)
      else (case refreshEntries n env r p (map (\<lambda>x. (x, the (hget r (KDirents i) x))) (te_order env i)) of
              None \<Rightarrow> None
            | Some (Inl e) \<Rightarrow> Some (Inl e)
            | Some (Inr cs) \<Rightarrow> Some (Inr (here @ cs))))"
| "refreshEntries n env r p [] = Some (Inr [])"
| "refreshEntries n env r p ((x, i) # es) =
     (case loadInodeByID r i of
        Inl e \<Rightarrow> Some (Inl e)
      | Inr None \<Rightarrow> refreshEntries n env r p es
      | Inr (Some child) \<Rightarrow>
          (case refreshCmds n env r (joinPath p x) i (in_type child) of
             None \<Rightarrow> None
           | Some (Inl e) \<Rightarrow> Some (Inl e)
           | Some (Inr cs) \<Rightarrow>
               (case refreshEntries n env r p es of
                  None \<Rightarrow> None
                | Some (Inl e) \<Rightarrow> Some (Inl e)
                | Some (Inr cs2) \<Rightarrow> Some (Inr (cs @ cs2)))))"

text \<open>
  \<open>depth\<close> bounds the walk: a walk that needs more does not end within the given depth, and then the
  call has not returned.
\<close>

definition refreshIndexedSubtree ::
    "nat \<Rightarrow> tree_env \<Rightarrow> write_context \<Rightarrow> path \<Rightarrow> inode_data \<Rightarrow> tree_world \<Rightarrow> client_err option option \<times> tree_world" where
  "refreshIndexedSubtree depth env c p inode w =
     (if in_id inode = [] then (Some None, w)
      else case retryWatch env c [KInode (in_id inode)]
                  (\<lambda>r. case refreshCmds depth env r p (in_id inode) (in_type inode) of
                         None \<Rightarrow> Inr ([], False)
                       | Some (Inl e) \<Rightarrow> Inl (StopErr e)
                       | Some (Inr cs) \<Rightarrow> Inr (cs, True)) w of
             (Inl s, w1) \<Rightarrow> (Some (Some (txStopErr s)), w1)
           | (Inr True, w1) \<Rightarrow> (Some None, w1)
           | (Inr False, w1) \<Rightarrow> (None, w1))"

definition renamePath ::
    "nat \<Rightarrow> tree_env \<Rightarrow> write_context \<Rightarrow> path \<Rightarrow> inode_data \<Rightarrow> path \<Rightarrow> inode_data \<Rightarrow> u32 \<Rightarrow> tree_world
     \<Rightarrow> client_err option option \<times> tree_world" where
  "renamePath depth env c resolvedSrc src dst newParent flags w =
     (case checkExpectedParent c resolvedSrc (in_parent src) of Some e \<Rightarrow> (Some (Some e), w) | None \<Rightarrow>
      case checkExpectedParent c dst (in_id newParent) of Some e \<Rightarrow> (Some (Some e), w) | None \<Rightarrow>
      case checkWriteCondition c src False of Some e \<Rightarrow> (Some (Some e), w) | None \<Rightarrow>
      if in_parent src = [] then (Some (Some CNotFound), w)
      else case renameLoop 8 env c resolvedSrc src dst (in_id newParent) flags [] w of
             (Inl e, w1) \<Rightarrow> (Some (Some e), w1)
           | (Inr moved, w1) \<Rightarrow> refreshIndexedSubtree depth env c dst moved w1)"

text \<open>The result is \<open>None\<close> when the walk over the moved subtree did not end within \<open>depth\<close>.\<close>

definition Rename ::
    "nat \<Rightarrow> tree_env \<Rightarrow> write_context \<Rightarrow> path \<Rightarrow> path \<Rightarrow> u32 \<Rightarrow> tree_world \<Rightarrow> client_err option option \<times> tree_world" where
  "Rename depth env c src0 dst0 flags w =
     (let src = normalizePath src0; dst = normalizePath dst0 in
      if src = ''/'' then (Some (Some (COther ''cannot move root'')), w)
      else if src = dst then (Some None, w)
      else if flags AND renameExchange \<noteq> 0 then (Some (Some (COther ''operation not supported'')), w)
      else if flags AND NOT renameNoreplace \<noteq> 0 then (Some (Some (COther ''operation not supported'')), w)
      else case resolvePath c (snd w) src False of
             Inl e \<Rightarrow> (Some (Some e), w)
           | Inr (resolvedSrc, srcInode) \<Rightarrow>
               if in_type srcInode = ''dir'' \<and> (dst = resolvedSrc \<or> hasPrefix dst (resolvedSrc @ ''/''))
               then (Some (Some (COther ''cannot move a directory into its own subtree'')), w)
               else (case resolvePath c (snd w) (dirOf dst) True of
                       Inl e \<Rightarrow> (Some (Some e), w)
                     | Inr (q, newParent) \<Rightarrow>
                         if in_type newParent \<noteq> ''dir'' then (Some (Some ErrParentConflict), w)
                         else (case renamePath depth env c resolvedSrc srcInode dst newParent flags w of
                                 (Some None, w1) \<Rightarrow> (case markRootDirty env c w1 of (e, w2) \<Rightarrow> (Some e, w2))
                               | (res, w1) \<Rightarrow> (res, w1))))"

definition Mv :: "nat \<Rightarrow> tree_env \<Rightarrow> write_context \<Rightarrow> path \<Rightarrow> path \<Rightarrow> tree_world \<Rightarrow> client_err option option \<times> tree_world" where
  "Mv depth env c src dst w = Rename depth env c src dst 0 w"

subsection \<open>The other changes of the namespace\<close>

definition MkdirMode :: "tree_env \<Rightarrow> write_context \<Rightarrow> path \<Rightarrow> u32 \<Rightarrow> tree_world \<Rightarrow> client_err option \<times> tree_world" where
  "MkdirMode env c p0 mode w =
     (let p = normalizePath p0 in
      if p = ''/'' then ensureRoot env c w
      else case ensureParents env c p w of
        (Some e, w1) \<Rightarrow> (Some e, w1)
      | (None, w1) \<Rightarrow>
          (case loadInode c (snd w1) p of
             Inl e \<Rightarrow> (Some e, w1)
           | Inr (Some existing) \<Rightarrow> (if in_type existing = ''dir'' then None else Some CAlreadyExists, w1)
           | Inr None \<Rightarrow>
               (case ensureParents env c p w1 of
                  (Some e, w2) \<Rightarrow> (Some e, w2)
                | (None, w2) \<Rightarrow>
                    (case createInodeAtPath env c p (newInode ''dir'' mode (te_now env (fst w2))) False w2 of
                       (Inl e, w3) \<Rightarrow> (Some e, w3)
                     | (Inr v, w3) \<Rightarrow> markRootDirty env c w3))))"

definition Mkdir :: "tree_env \<Rightarrow> write_context \<Rightarrow> path \<Rightarrow> tree_world \<Rightarrow> client_err option \<times> tree_world" where
  "Mkdir env c p w = MkdirMode env c p 493 w"

definition Ln :: "tree_env \<Rightarrow> write_context \<Rightarrow> string \<Rightarrow> path \<Rightarrow> tree_world \<Rightarrow> client_err option \<times> tree_world" where
  "Ln env c target linkpath0 w =
     (let linkpath = normalizePath linkpath0 in
      if linkpath = ''/'' then (Some CAlreadyExists, w)
      else case ensureParents env c linkpath w of
        (Some e, w1) \<Rightarrow> (Some e, w1)
      | (None, w1) \<Rightarrow>
          (case loadInode c (snd w1) linkpath of
             Inl e \<Rightarrow> (Some e, w1)
           | Inr (Some _) \<Rightarrow> (Some CAlreadyExists, w1)
           | Inr None \<Rightarrow>
               (case createInodeAtPath env c linkpath
                       ((newInode ''symlink'' 511 (te_now env (fst w1)))\<lparr>in_size := int (length target), in_target := target\<rparr>)
                       False w1 of
                  (Inl e, w2) \<Rightarrow> (Some e, w2)
                | (Inr v, w2) \<Rightarrow> markRootDirty env c w2)))"

text \<open>\<open>deletePublishedInode\<close> and \<open>updatePublishedInode\<close> run their scripts after the writes of others.\<close>

definition Rm :: "tree_env \<Rightarrow> write_context \<Rightarrow> path \<Rightarrow> tree_world \<Rightarrow> client_err option \<times> tree_world" where
  "Rm env c p0 w =
     (let p = normalizePath p0; (k, r) = w in
      if p = ''/'' then (Some (COther ''cannot remove root''), w)
      else case resolvePath c r p False of
        Inl e \<Rightarrow> (Some e, w)
      | Inr (resolved, inode) \<Rightarrow>
          (case deletePublishedInode (intText (te_now env k)) (te_payload env ''inode'' [resolved]) c resolved inode
                  (tx_before (te_try env k) r) of
             (res, r1) \<Rightarrow> (res, k + 1, r1)))"

definition saveFields ::
    "tree_env \<Rightarrow> write_context \<Rightarrow> path \<Rightarrow> inode_data \<Rightarrow> (string \<times> string) list \<Rightarrow> tree_world \<Rightarrow> client_err option \<times> tree_world" where
  "saveFields env c resolved inode fvs w =
     (let (k, r) = w in
      case updatePublishedInode (te_revision env k) (te_payload env ''inode'' [resolved]) c resolved inode fvs
             (tx_before (te_try env k) r) of
        (Some e, r1) \<Rightarrow> (Some e, k + 1, r1)
      | (None, r1) \<Rightarrow> markRootDirty env c (k + 1, r1))"

text \<open>\<open>saveInodeMeta\<close> writes all the metadata fields of the inode as it was read, with the change.\<close>

definition changeMeta ::
    "(inode_data \<Rightarrow> inode_data) \<Rightarrow> tree_env \<Rightarrow> write_context \<Rightarrow> path \<Rightarrow> tree_world \<Rightarrow> client_err option \<times> tree_world" where
  "changeMeta f env c p w =
     (case resolvePath c (snd w) p False of
        Inl e \<Rightarrow> (Some e, w)
      | Inr (resolved, inode) \<Rightarrow>
          if in_id inode = [] then (Some (COther ''missing inode id''), w)
          else saveFields env c resolved (f inode) (inodeFieldsAtPath (f inode) resolved False) w)"

definition Chmod :: "tree_env \<Rightarrow> write_context \<Rightarrow> path \<Rightarrow> u32 \<Rightarrow> tree_world \<Rightarrow> client_err option \<times> tree_world" where
  "Chmod env c p mode w = changeMeta (\<lambda>i. i\<lparr>in_mode := mode\<rparr>) env c p w"

definition Chown :: "tree_env \<Rightarrow> write_context \<Rightarrow> path \<Rightarrow> u32 \<Rightarrow> u32 \<Rightarrow> tree_world \<Rightarrow> client_err option \<times> tree_world" where
  "Chown env c p uid gid w = changeMeta (\<lambda>i. i\<lparr>in_uid := uid, in_gid := gid\<rparr>) env c p w"

definition Utimens :: "tree_env \<Rightarrow> write_context \<Rightarrow> path \<Rightarrow> int \<Rightarrow> int \<Rightarrow> tree_world \<Rightarrow> client_err option \<times> tree_world" where
  "Utimens env c p atime mtime w =
     changeMeta (\<lambda>i. i\<lparr>in_atimeMs := if 0 \<le> atime then atime else in_atimeMs i,
                       in_mtimeMs := if 0 \<le> mtime then mtime else in_mtimeMs i\<rparr>) env c p w"

record attr_update =
  au_mode :: "u32 option"
  au_uid :: "u32 option"
  au_gid :: "u32 option"
  au_atime :: "int option"
  au_mtime :: "int option"

definition attrIsEmpty :: "attr_update \<Rightarrow> bool" where
  "attrIsEmpty u \<longleftrightarrow> au_mode u = None \<and> au_uid u = None \<and> au_gid u = None \<and> au_atime u = None \<and> au_mtime u = None"

definition attrFields :: "attr_update \<Rightarrow> (string \<times> string) list" where
  "attrFields u =
     (let word = (\<lambda>n v. case v of None \<Rightarrow> [] | Some x \<Rightarrow> [(n, natDigits (unat (x :: u32)))]);
          num = (\<lambda>n v. case v of None \<Rightarrow> [] | Some x \<Rightarrow> [(n, intText x)])
      in word ''mode'' (au_mode u) @ word ''uid'' (au_uid u) @ word ''gid'' (au_gid u)
         @ num ''atime_ms'' (au_atime u) @ num ''mtime_ms'' (au_mtime u))"

definition SetAttrs :: "tree_env \<Rightarrow> write_context \<Rightarrow> path \<Rightarrow> attr_update \<Rightarrow> tree_world \<Rightarrow> client_err option \<times> tree_world" where
  "SetAttrs env c p u w =
     (if attrIsEmpty u then (None, w)
      else case resolvePath c (snd w) p False of
             Inl e \<Rightarrow> (Some e, w)
           | Inr (resolved, inode) \<Rightarrow> saveFields env c resolved inode (attrFields u) w)"

end
