(* ===== verification/TreeInvariant.thy ===== *)
theory TreeInvariant
  imports TreeOps
begin

text \<open>
  The directory hashes and the inode hashes of a workspace describe one tree: an abstract tree with
  three edits, and the proof that every transaction and every script of the client is such an edit.
  Moving a directory is an edit of the tree only when the new parent is not below it; the last
  section shows that \<open>Rename\<close> does not make sure of that.
\<close>

subsection \<open>Abstract trees\<close>

type_synonym edges = "string \<Rightarrow> string \<Rightarrow> string option"

inductive below :: "edges \<Rightarrow> string \<Rightarrow> string \<Rightarrow> bool" for ch a where
  below_refl: "below ch a a"
| below_step: "below ch a d \<Longrightarrow> ch d n = Some i \<Longrightarrow> below ch a i"

definition wfTree :: "edges \<Rightarrow> string set \<Rightarrow> bool" where
  "wfTree ch live \<longleftrightarrow>
     ''1'' \<in> live
     \<and> (\<forall>d n i. ch d n = Some i \<longrightarrow> i \<noteq> ''1'' \<and> d \<in> live \<and> i \<in> live)
     \<and> (\<forall>d n e m i. ch d n = Some i \<longrightarrow> ch e m = Some i \<longrightarrow> d = e \<and> n = m)
     \<and> (\<forall>i \<in> live. below ch ''1'' i)"

definition addEdge :: "string \<Rightarrow> string \<Rightarrow> string \<Rightarrow> edges \<Rightarrow> edges" where
  "addEdge d n i ch = ch(d := (ch d)(n \<mapsto> i))"

definition removeEdge :: "string \<Rightarrow> string \<Rightarrow> edges \<Rightarrow> edges" where
  "removeEdge d n ch = ch(d := (ch d)(n := None))"

lemma addEdge_iff: "addEdge d n i ch e m = Some j \<longleftrightarrow> (if e = d \<and> m = n then j = i else ch e m = Some j)"
  by (auto simp: addEdge_def)

lemma removeEdge_iff: "removeEdge d n ch e m = Some j \<longleftrightarrow> \<not> (e = d \<and> m = n) \<and> ch e m = Some j"
  by (auto simp: removeEdge_def)

lemma wfTreeI:
  assumes "''1'' \<in> live" and "\<And>d n i. ch d n = Some i \<Longrightarrow> i \<noteq> ''1'' \<and> d \<in> live \<and> i \<in> live"
    and "\<And>d n e m i. ch d n = Some i \<Longrightarrow> ch e m = Some i \<Longrightarrow> d = e \<and> n = m"
    and "\<And>i. i \<in> live \<Longrightarrow> below ch ''1'' i"
  shows "wfTree ch live"
  using assms unfolding wfTree_def by blast

lemma wfTreeD:
  assumes "wfTree ch live"
  shows "''1'' \<in> live" and "ch d n = Some i \<Longrightarrow> i \<noteq> ''1''" and "ch d n = Some i \<Longrightarrow> d \<in> live"
    and "ch d n = Some i \<Longrightarrow> i \<in> live" and "ch d n = Some i \<Longrightarrow> ch e m = Some i \<Longrightarrow> d = e \<and> n = m"
    and "i \<in> live \<Longrightarrow> below ch ''1'' i"
  using assms unfolding wfTree_def by blast+

lemma below_trans: "below ch b c \<Longrightarrow> below ch a b \<Longrightarrow> below ch a c"
  by (induction rule: below.induct) (auto intro: below.intros)

text \<open>A node that is not below \<open>x\<close> is reached by edges that end outside the subtree of \<open>x\<close>.\<close>

lemma below_outside:
  assumes "below ch a i" and "\<not> below ch x i"
    and "\<And>d n j. ch d n = Some j \<Longrightarrow> \<not> below ch x j \<Longrightarrow> ch' d n = Some j"
  shows "below ch' a i"
  using assms(1,2)
proof (induction rule: below.induct)
  case (below_step d n i)
  then have "\<not> below ch x d" using below.below_step by blast
  with below_step assms(3) show ?case by (blast intro: below.below_step)
qed (simp add: below_refl)

text \<open>Within the subtree of \<open>x\<close>, only the edges of the subtree matter.\<close>

lemma below_inside:
  assumes "below ch x i" and "\<And>d n j. below ch x d \<Longrightarrow> ch d n = Some j \<Longrightarrow> ch' d n = Some j"
  shows "below ch' x i"
  using assms(1)
proof (induction rule: below.induct)
  case (below_step d n i)
  with assms(2) show ?case by (blast intro: below.below_step)
qed (simp add: below_refl)

lemma below_leaf: "below ch i j \<Longrightarrow> (\<And>n. ch i n = None) \<Longrightarrow> j = i"
  by (induction rule: below.induct) auto

text \<open>In a tree no node is below its own child.\<close>

lemma wfTree_top:
  assumes wf: "wfTree ch live" and "ch d n = Some i"
  shows "\<not> below ch i d"
proof -
  have "below ch ''1'' d" using wfTreeD(3,6) [OF wf] assms(2) by blast
  then show ?thesis using assms(2)
  proof (induction arbitrary: n i rule: below.induct)
    case below_refl
    show ?case
    proof
      assume "below ch i ''1''"
      then show False using wfTreeD(2) [OF wf] below_refl by cases auto
    qed
  next
    case (below_step d m j)
    show ?case
    proof
      assume "below ch i j"
      then show False
      proof cases
        case below_refl
        with below_step.prems below_step.hyps(2) have "d = j" using wfTreeD(5) [OF wf] by blast
        with below_step.IH [OF below_step.hyps(2)] show False using below.below_refl by blast
      next
        case (below_step e l)
        with below_step.hyps(2) have "e = d" using wfTreeD(5) [OF wf] by blast
        with below_step(1) have "below ch i d" by simp
        moreover have "below ch j i" using below.below_step [OF below.below_refl] below_step.prems by blast
        ultimately have "below ch j d" by (rule below_trans)
        with below_step.IH [OF below_step.hyps(2)] show False by blast
      qed
    qed
  qed
qed

lemma wfTree_add:
  assumes wf: "wfTree ch live" and "d \<in> live" and "i \<notin> live" and "ch d n = None"
  shows "wfTree (addEdge d n i ch) (insert i live)"
proof (rule wfTreeI)
  have old: "below (addEdge d n i ch) ''1'' j" if "j \<in> live" for j
    using wfTreeD(6) [OF wf that] by (rule below_inside) (use assms(4) in \<open>auto simp: addEdge_iff\<close>)
  then have new: "below (addEdge d n i ch) ''1'' i"
    by (rule below_step [of _ _ d n]) (simp_all add: assms(2) addEdge_iff)
  show "\<And>j. j \<in> insert i live \<Longrightarrow> below (addEdge d n i ch) ''1'' j" using old new by blast
  show "''1'' \<in> insert i live" using wfTreeD(1) [OF wf] by simp
  show "addEdge d n i ch e m = Some j \<Longrightarrow> j \<noteq> ''1'' \<and> e \<in> insert i live \<and> j \<in> insert i live" for e m j
    using wfTreeD(1-4) [OF wf] assms(2,3) by (auto simp: addEdge_iff split: if_splits)
  show "e = f \<and> m = l" if "addEdge d n i ch e m = Some j" "addEdge d n i ch f l = Some j" for e m f l j
  proof (cases "j = i")
    case True
    then have "ch e m \<noteq> Some j" "ch f l \<noteq> Some j" using wfTreeD(4) [OF wf] assms(3) by blast+
    with that show ?thesis by (auto simp: addEdge_iff split: if_splits)
  next
    case False
    with that have "ch e m = Some j" "ch f l = Some j" by (auto simp: addEdge_iff split: if_splits)
    then show ?thesis by (rule wfTreeD(5) [OF wf])
  qed
qed

lemma wfTree_remove:
  assumes wf: "wfTree ch live" and i: "ch d n = Some i" and leaf: "\<And>m. ch i m = None"
  shows "wfTree (removeEdge d n ch) (live - {i})"
proof (rule wfTreeI)
  show "below (removeEdge d n ch) ''1'' j" if "j \<in> live - {i}" for j
  proof (rule below_outside [of ch _ _ i])
    show "below ch ''1'' j" using wfTreeD(6) [OF wf] that by blast
    show "\<not> below ch i j" using below_leaf leaf that by blast
    show "\<And>e m k. ch e m = Some k \<Longrightarrow> \<not> below ch i k \<Longrightarrow> removeEdge d n ch e m = Some k"
      using i by (auto simp: removeEdge_iff below_refl)
  qed
  show "''1'' \<in> live - {i}" using wfTreeD(1,2) [OF wf] i by blast
  show "j \<noteq> ''1'' \<and> e \<in> live - {i} \<and> j \<in> live - {i}" if "removeEdge d n ch e m = Some j" for e m j
  proof -
    have j: "ch e m = Some j" "\<not> (e = d \<and> m = n)" using that by (auto simp: removeEdge_iff)
    moreover have "e \<noteq> i" using j(1) leaf by auto
    moreover have "j \<noteq> i" using j wfTreeD(5) [OF wf i] by blast
    ultimately show ?thesis using wfTreeD(2-4) [OF wf] by blast
  qed
  show "removeEdge d n ch e m = Some j \<Longrightarrow> removeEdge d n ch f l = Some j \<Longrightarrow> e = f \<and> m = l" for e m f l j
    using wfTreeD(5) [OF wf] unfolding removeEdge_iff by blast
qed

lemma wfTree_move:
  assumes wf: "wfTree ch live" and i: "ch d n = Some i" and "e \<in> live" and e: "\<not> below ch i e"
    and free: "removeEdge d n ch e m = None"
  shows "wfTree (addEdge e m i (removeEdge d n ch)) live"
proof (rule wfTreeI)
  define ch' where "ch' = addEdge e m i (removeEdge d n ch)"
  have keep: "ch' a l = Some j" if "ch a l = Some j" "j \<noteq> i" for a l j
  proof -
    have kept: "removeEdge d n ch a l = Some j" using that i by (auto simp: removeEdge_iff)
    with free have "\<not> (a = e \<and> l = m)" by auto
    with kept show ?thesis unfolding ch'_def addEdge_iff by auto
  qed
  have outside: "below ch' ''1'' j" if "j \<in> live" "\<not> below ch i j" for j
    using wfTreeD(6) [OF wf that(1)] that(2) by (rule below_outside) (use keep below_refl in blast)
  have top: "below ch' ''1'' i"
    using outside [OF assms(3,4)] by (rule below_step [of _ _ e m]) (simp add: ch'_def addEdge_iff)
  have "below ch' i j" if "below ch i j" for j
    using that
  proof (rule below_inside)
    show "ch' a l = Some k" if "below ch i a" "ch a l = Some k" for a l k
      using that wfTree_top [OF wf] keep by blast
  qed
  then show "below (addEdge e m i (removeEdge d n ch)) ''1'' j" if "j \<in> live" for j
    using outside [OF that] below_trans [OF _ top] unfolding ch'_def by blast
  show "''1'' \<in> live" using wfTreeD(1) [OF wf] .
  show "j \<noteq> ''1'' \<and> a \<in> live \<and> j \<in> live" if "addEdge e m i (removeEdge d n ch) a l = Some j" for a l j
    using that wfTreeD(2-4) [OF wf] i assms(3) by (auto simp: addEdge_iff removeEdge_iff split: if_splits)
  show "a = b \<and> l = k" if "addEdge e m i (removeEdge d n ch) a l = Some j"
    "addEdge e m i (removeEdge d n ch) b k = Some j" for a l b k j
  proof (cases "j = i")
    case True
    have "a = e \<and> l = m" if "addEdge e m i (removeEdge d n ch) a l = Some i" for a l
      using that wfTreeD(5) [OF wf i] unfolding addEdge_iff removeEdge_iff by (cases "a = e \<and> l = m") auto
    with that True show ?thesis by blast
  next
    case False
    with that have "ch a l = Some j" "ch b k = Some j" by (auto simp: addEdge_iff removeEdge_iff split: if_splits)
    then show ?thesis by (rule wfTreeD(5) [OF wf])
  qed
qed

subsection \<open>The tree of a store\<close>

definition edgesOf :: "redis \<Rightarrow> edges" where
  "edgesOf r d n = hget r (KDirents d) n"

definition liveIds :: "redis \<Rightarrow> string set" where
  "liveIds r = {i. r (KInode i) \<noteq> None}"

lemma liveI: "hget r (KInode i) f = Some v \<Longrightarrow> i \<in> liveIds r"
  using hget_None [of r i f] by (auto simp: liveIds_def)

text \<open>The fields of an inode that say where it hangs; the root hangs nowhere.\<close>

definition tagFields :: "string set" where
  "tagFields = {''type'', ''parent'', ''name''}"

definition sameTags :: "string set \<Rightarrow> redis \<Rightarrow> redis \<Rightarrow> bool" where
  "sameTags A r r' \<longleftrightarrow> (\<forall>i \<in> A. \<forall>f \<in> tagFields. i \<noteq> ''1'' \<or> f = ''type''
     \<longrightarrow> hget r' (KInode i) f = hget r (KInode i) f)"

definition labelled :: "redis \<Rightarrow> bool" where
  "labelled r \<longleftrightarrow> (\<forall>d n i. edgesOf r d n = Some i \<longrightarrow> hget r (KInode d) ''type'' = Some ''dir''
     \<and> hget r (KInode i) ''parent'' = Some d \<and> hget r (KInode i) ''name'' = Some n
     \<and> hget r (KInode i) ''type'' \<noteq> None)"

text \<open>
  The store is a tree: the edges of the directory hashes form a tree on the live inodes, every inode
  names its parent and its own name, and parents are directories.
\<close>

definition treeOk :: "redis \<Rightarrow> bool" where
  "treeOk r \<longleftrightarrow> wfTree (edgesOf r) (liveIds r) \<and> labelled r \<and> hget r (KInode ''1'') ''type'' = Some ''dir''"

definition sameTree :: "redis \<Rightarrow> redis \<Rightarrow> bool" where
  "sameTree r r' \<longleftrightarrow> edgesOf r' = edgesOf r \<and> liveIds r' = liveIds r \<and> sameTags UNIV r r'"

lemma sameTree_refl [simp]: "sameTree r r"
  by (simp add: sameTree_def sameTags_def)

lemma sameTree_trans: "sameTree r r1 \<Longrightarrow> sameTree r1 r2 \<Longrightarrow> sameTree r r2"
  by (simp add: sameTree_def sameTags_def)

lemma sameTreeI:
  "(\<And>i. r' (KInode i) = r (KInode i)) \<Longrightarrow> (\<And>d. r' (KDirents d) = r (KDirents d)) \<Longrightarrow> sameTree r r'"
  by (simp add: sameTree_def sameTags_def edgesOf_def liveIds_def hget_def hashAt_def fun_eq_iff)

text \<open>The live inodes of a store come from another store, where they had the same type, or from \<open>A\<close>.\<close>

definition keepsNodes :: "string set \<Rightarrow> redis \<Rightarrow> redis \<Rightarrow> bool" where
  "keepsNodes A r r' \<longleftrightarrow> (\<forall>i \<in> liveIds r'. i \<in> A \<or> i \<in> liveIds r
     \<and> hget r' (KInode i) ''type'' = hget r (KInode i) ''type'')"

lemma keepsNodes_same: "sameTree r r' \<Longrightarrow> keepsNodes A r r'"
  by (simp add: keepsNodes_def sameTree_def sameTags_def tagFields_def)

lemma keepsNodes_trans: "keepsNodes A r r1 \<Longrightarrow> keepsNodes A r1 r2 \<Longrightarrow> keepsNodes A r r2"
  unfolding keepsNodes_def by metis

lemma keepsNodes_tags:
  assumes "liveIds r' \<subseteq> B \<union> liveIds r" and "sameTags (- B) r r'" and "B \<inter> liveIds r' \<subseteq> A"
  shows "keepsNodes A r r'"
  using assms by (auto simp: keepsNodes_def sameTags_def tagFields_def)

lemma treeOk_same: "sameTree r r' \<Longrightarrow> treeOk r \<Longrightarrow> treeOk r'"
  by (auto simp: treeOk_def sameTree_def labelled_def sameTags_def tagFields_def dest: wfTreeD(2))

lemma treeOk_labels:
  assumes "treeOk r" and "edgesOf r d n = Some i"
  shows "hget r (KInode d) ''type'' = Some ''dir''" "hget r (KInode i) ''parent'' = Some d"
    "hget r (KInode i) ''name'' = Some n" "hget r (KInode i) ''type'' \<noteq> None"
  using assms by (auto simp: treeOk_def labelled_def)

lemma treeOk_wf: "treeOk r \<Longrightarrow> wfTree (edgesOf r) (liveIds r)"
  by (simp add: treeOk_def)

lemma treeOk_add:
  assumes ok: "treeOk r" and d: "hget r (KInode d) ''type'' = Some ''dir''" and new: "i \<notin> liveIds r"
    and free: "edgesOf r d n = None"
    and r': "edgesOf r' = addEdge d n i (edgesOf r)" "liveIds r' = insert i (liveIds r)" "sameTags (- {i}) r r'"
      "hget r' (KInode i) ''parent'' = Some d" "hget r' (KInode i) ''name'' = Some n" "hget r' (KInode i) ''type'' \<noteq> None"
  shows "treeOk r'"
proof -
  note wf = treeOk_wf [OF ok]
  have live: "d \<in> liveIds r" using d by (rule liveI)
  have tags: "hget r' (KInode j) f = hget r (KInode j) f" if "j \<noteq> i" "f \<in> tagFields" "j \<noteq> ''1'' \<or> f = ''type''" for j f
    using r'(3) that unfolding sameTags_def by blast
  have "labelled r'"
    unfolding labelled_def r'(1) addEdge_iff
  proof (intro allI impI)
    fix e m j assume edge: "if e = d \<and> m = n then j = i else edgesOf r e m = Some j"
    show "hget r' (KInode e) ''type'' = Some ''dir'' \<and> hget r' (KInode j) ''parent'' = Some e
        \<and> hget r' (KInode j) ''name'' = Some m \<and> hget r' (KInode j) ''type'' \<noteq> None"
    proof (cases "e = d \<and> m = n")
      case True
      have "d \<noteq> i" using live new by blast
      with True edge d r'(4-6) tags [of d "''type''"] show ?thesis by (simp add: tagFields_def)
    next
      case False
      with edge have old: "edgesOf r e m = Some j" by auto
      then have "e \<noteq> i" "j \<noteq> i" "j \<noteq> ''1''" using wfTreeD(2-4) [OF wf] new by blast+
      with treeOk_labels [OF ok old] tags show ?thesis by (simp add: tagFields_def)
    qed
  qed
  moreover have "hget r' (KInode ''1'') ''type'' = Some ''dir''"
    using tags [of "''1''" "''type''"] wfTreeD(1) [OF wf] new ok by (cases "i = ''1''") (simp_all add: tagFields_def treeOk_def)
  moreover have "wfTree (edgesOf r') (liveIds r')"
    unfolding r'(1,2) by (rule wfTree_add [OF wf live new free])
  ultimately show ?thesis by (simp add: treeOk_def)
qed

lemma treeOk_remove:
  assumes ok: "treeOk r" and i: "edgesOf r d n = Some i" and leaf: "\<And>m. edgesOf r i m = None"
    and r': "edgesOf r' = removeEdge d n (edgesOf r)" "liveIds r' = liveIds r - {i}" "sameTags (- {i}) r r'"
  shows "treeOk r'"
proof -
  note wf = treeOk_wf [OF ok]
  have tags: "hget r' (KInode j) f = hget r (KInode j) f" if "j \<noteq> i" "f \<in> tagFields" "j \<noteq> ''1'' \<or> f = ''type''" for j f
    using r'(3) that unfolding sameTags_def by blast
  have "labelled r'"
    unfolding labelled_def r'(1) removeEdge_iff
  proof (intro allI impI)
    fix e m j assume edge: "\<not> (e = d \<and> m = n) \<and> edgesOf r e m = Some j"
    then have "e \<noteq> i" using leaf by auto
    moreover have "j \<noteq> i" "j \<noteq> ''1''" using edge wfTreeD(2) [OF wf] wfTreeD(5) [OF wf i] by blast+
    ultimately show "hget r' (KInode e) ''type'' = Some ''dir'' \<and> hget r' (KInode j) ''parent'' = Some e
        \<and> hget r' (KInode j) ''name'' = Some m \<and> hget r' (KInode j) ''type'' \<noteq> None"
      using treeOk_labels [OF ok, of e m j] edge tags by (simp add: tagFields_def)
  qed
  moreover have "''1'' \<noteq> i" using wfTreeD(2) [OF wf i] by blast
  then have "hget r' (KInode ''1'') ''type'' = Some ''dir''"
    using tags [of "''1''"] ok by (simp add: tagFields_def treeOk_def)
  moreover have "wfTree (edgesOf r') (liveIds r')"
    unfolding r'(1,2) by (rule wfTree_remove [OF wf i leaf])
  ultimately show ?thesis by (simp add: treeOk_def)
qed

lemma treeOk_move:
  assumes ok: "treeOk r" and i: "edgesOf r d n = Some i" and e: "hget r (KInode e) ''type'' = Some ''dir''"
    and up: "\<not> below (edgesOf r) i e" and free: "removeEdge d n (edgesOf r) e m = None"
    and r': "edgesOf r' = addEdge e m i (removeEdge d n (edgesOf r))" "liveIds r' = liveIds r" "sameTags (- {i}) r r'"
      "hget r' (KInode i) ''type'' = hget r (KInode i) ''type''"
      "hget r' (KInode i) ''parent'' = Some e" "hget r' (KInode i) ''name'' = Some m"
  shows "treeOk r'"
proof -
  note wf = treeOk_wf [OF ok]
  have live: "e \<in> liveIds r" using e by (rule liveI)
  have tags: "hget r' (KInode j) f = hget r (KInode j) f" if "j \<noteq> i" "f \<in> tagFields" "j \<noteq> ''1'' \<or> f = ''type''" for j f
    using r'(3) that unfolding sameTags_def by blast
  have kinds: "hget r' (KInode j) ''type'' = hget r (KInode j) ''type''" for j
    using tags [of j "''type''"] r'(4) by (cases "j = i") (auto simp: tagFields_def)
  have "labelled r'"
    unfolding labelled_def
  proof (intro allI impI)
    fix a l j assume edge: "edgesOf r' a l = Some j"
    show "hget r' (KInode a) ''type'' = Some ''dir'' \<and> hget r' (KInode j) ''parent'' = Some a
        \<and> hget r' (KInode j) ''name'' = Some l \<and> hget r' (KInode j) ''type'' \<noteq> None"
    proof (cases "a = e \<and> l = m")
      case True
      with edge e r'(5,6) treeOk_labels(4) [OF ok i] show ?thesis by (simp add: r'(1) addEdge_iff kinds)
    next
      case False
      with edge have old: "\<not> (a = d \<and> l = n)" "edgesOf r a l = Some j"
        unfolding r'(1) addEdge_iff by (auto simp: removeEdge_iff)
      then have "j \<noteq> i" "j \<noteq> ''1''" using wfTreeD(2) [OF wf] wfTreeD(5) [OF wf i] by blast+
      with treeOk_labels [OF ok old(2)] tags kinds show ?thesis by (simp add: tagFields_def)
    qed
  qed
  moreover have "hget r' (KInode ''1'') ''type'' = Some ''dir''" using ok kinds by (simp add: treeOk_def)
  moreover have "wfTree (edgesOf r') (liveIds r')"
    unfolding r'(1,2) by (rule wfTree_move [OF wf i live up free])
  ultimately show ?thesis by (simp add: treeOk_def)
qed

subsection \<open>What the commands do to the tree\<close>

abbreviation runAll :: "rcmd list \<Rightarrow> redis \<Rightarrow> redis" where
  "runAll cs r \<equiv> snd (execAll cs r)"

lemma runAll_Cons [simp]: "runAll (c # cs) r = runAll cs (snd (runCmd c r))"
  by (simp add: split_beta)

lemma runAll_append [simp]: "runAll (cs @ ds) r = runAll ds (runAll cs r)"
  by (induction cs arbitrary: r) (simp_all del: execAll.simps(2))

declare execAll.simps(2) [simp del]

definition plainKey :: "rkey \<Rightarrow> bool" where
  "plainKey k = (case k of KInode _ \<Rightarrow> False | KDirents _ \<Rightarrow> False | _ \<Rightarrow> True)"

text \<open>A command that changes no edge, no label and not the set of inodes, given the live inodes.\<close>

fun harmless :: "string set \<Rightarrow> rcmd \<Rightarrow> bool" where
  "harmless L (CmdHSet k fvs) =
     (case k of KInode i \<Rightarrow> i \<in> L \<and> fst ` set fvs \<inter> tagFields = {} | KDirents _ \<Rightarrow> False | _ \<Rightarrow> True)"
| "harmless L (CmdHDel k f) = plainKey k"
| "harmless L (CmdHIncr k f d) = plainKey k"
| "harmless L (CmdSet k v) = plainKey k"
| "harmless L (CmdSetNX k v) = plainKey k"
| "harmless L (CmdArray k b) = plainKey k"
| "harmless L (CmdDel k) = plainKey k"
| "harmless L (CmdXAdd k x) = plainKey k"
| "harmless L (CmdSAdd k x) = plainKey k"
| "harmless L (CmdMarkDirty i fvs) = (fst ` set fvs \<inter> tagFields = {})"

lemma sameTree_plain:
  assumes "plainKey k" and "\<And>k'. k' \<noteq> k \<Longrightarrow> r' k' = r k'"
  shows "sameTree r r'"
  using assms by (intro sameTreeI) (auto simp: plainKey_def split: rkey.splits)

lemma hget_hsetAll: "hget (hsetAll k fvs r) k f = (case map_of (rev fvs) f of None \<Rightarrow> hget r k f | Some v \<Rightarrow> Some v)"
  by (simp add: hget_def hashAt_hsetAll map_add_def split: option.splits)

lemma hsetAll_none: "f \<notin> fst ` set fvs \<Longrightarrow> hget (hsetAll k fvs r) k' f = hget r k' f"
proof (cases "k' = k")
  case True
  assume "f \<notin> fst ` set fvs"
  then have "map_of (rev fvs) f = None" by (metis map_of_eq_None_iff set_rev)
  then show ?thesis by (simp add: True hget_hsetAll)
qed (simp add: hget_def hashAt_def)

lemma hsetAll_exists: "fvs \<noteq> [] \<Longrightarrow> hsetAll k fvs r k \<noteq> None"
  unfolding hsetAll_def by (induction fvs rule: rev_induct) (auto simp: hset_def)

lemma hsetAll_live: "fvs \<noteq> [] \<or> i \<in> liveIds r \<Longrightarrow> liveIds (hsetAll (KInode i) fvs r) = insert i (liveIds r)"
proof -
  assume a: "fvs \<noteq> [] \<or> i \<in> liveIds r"
  have "hsetAll (KInode i) fvs r (KInode j) \<noteq> None \<longleftrightarrow> j = i \<or> r (KInode j) \<noteq> None" for j
  proof (cases "j = i")
    case True
    with a hsetAll_exists [of fvs "KInode i" r] show ?thesis by (cases "fvs = []") (auto simp: liveIds_def hsetAll_def)
  qed simp
  then show ?thesis by (auto simp: liveIds_def)
qed

lemma edgesOf_inode: "(\<And>k. k \<noteq> KInode i \<Longrightarrow> r' k = r k) \<Longrightarrow> edgesOf r' = edgesOf r"
  by (simp add: edgesOf_def fun_eq_iff hget_def hashAt_def)

lemma sameTree_hset_inode:
  assumes "i \<in> liveIds r" and "fst ` set fvs \<inter> tagFields = {}"
  shows "sameTree r (hsetAll (KInode i) fvs r)"
proof -
  have "sameTags UNIV r (hsetAll (KInode i) fvs r)"
    using assms(2) hsetAll_none [of _ fvs "KInode i" r] by (fastforce simp: sameTags_def)
  with assms(1) hsetAll_live [of fvs i r] edgesOf_inode [of i "hsetAll (KInode i) fvs r" r]
  show ?thesis by (auto simp: sameTree_def)
qed

fun cmdKey :: "rcmd \<Rightarrow> rkey" where
  "cmdKey (CmdHSet k fvs) = k"
| "cmdKey (CmdHDel k f) = k"
| "cmdKey (CmdHIncr k f d) = k"
| "cmdKey (CmdSet k v) = k"
| "cmdKey (CmdSetNX k v) = k"
| "cmdKey (CmdArray k b) = k"
| "cmdKey (CmdDel k) = k"
| "cmdKey (CmdXAdd k x) = k"
| "cmdKey (CmdSAdd k x) = k"
| "cmdKey (CmdMarkDirty i fvs) = KInode i"

fun isMark :: "rcmd \<Rightarrow> bool" where
  "isMark (CmdMarkDirty i fvs) = True"
| "isMark c = False"

lemma runCmd_other:
  assumes "k \<noteq> cmdKey c" and "\<not> isMark c"
  shows "snd (runCmd c r) k = r k"
proof (cases c)
  case (CmdHIncr q f d)
  then have "q \<noteq> k" using assms(1) by simp
  from hincrby_other [OF this] show ?thesis by (cases "hincrby q f d r") (simp_all add: CmdHIncr)
qed (use assms in simp_all)

lemma harmless_step: "harmless (liveIds r) c \<Longrightarrow> sameTree r (snd (runCmd c r))"
proof (cases c)
  case (CmdHSet k fvs)
  assume h: "harmless (liveIds r) c"
  show ?thesis
  proof (cases "\<exists>i. k = KInode i")
    case True
    with h CmdHSet show ?thesis by (auto intro: sameTree_hset_inode)
  next
    case False
    with h CmdHSet have "plainKey k" by (cases k) (auto simp: plainKey_def)
    with CmdHSet show ?thesis by (intro sameTree_plain [of k]) (auto intro: runCmd_other)
  qed
next
  case (CmdMarkDirty i fvs)
  assume h: "harmless (liveIds r) c"
  define r1 where "r1 = (if r (KInode i) = None then r else hsetAll (KInode i) fvs r)"
  have "sameTree r r1" using h CmdMarkDirty by (auto simp: r1_def liveIds_def intro: sameTree_hset_inode)
  moreover have "sameTree r1 (sadd KDirtySet i r1)" by (rule sameTreeI) simp_all
  ultimately have "sameTree r (sadd KDirtySet i r1)" by (rule sameTree_trans)
  moreover have "snd (runCmd c r) = r \<or> snd (runCmd c r) = r1 \<or> snd (runCmd c r) = sadd KDirtySet i r1"
    by (simp only: CmdMarkDirty runCmd.simps r1_def [symmetric] Let_def if_split) (simp split: if_splits)
  ultimately show ?thesis using \<open>sameTree r r1\<close> by auto
next
  case (CmdHDel k f)
  then show "harmless (liveIds r) c \<Longrightarrow> ?thesis" by (intro sameTree_plain [of k]) (auto intro: runCmd_other)
next
  case (CmdHIncr k f d)
  then show "harmless (liveIds r) c \<Longrightarrow> ?thesis" by (intro sameTree_plain [of k] runCmd_other) auto
next
  case (CmdSet k v)
  then show "harmless (liveIds r) c \<Longrightarrow> ?thesis" by (intro sameTree_plain [of k]) auto
next
  case (CmdSetNX k v)
  then show "harmless (liveIds r) c \<Longrightarrow> ?thesis" by (intro sameTree_plain [of k]) auto
next
  case (CmdArray k b)
  then show "harmless (liveIds r) c \<Longrightarrow> ?thesis" by (intro sameTree_plain [of k]) auto
next
  case (CmdDel k)
  then show "harmless (liveIds r) c \<Longrightarrow> ?thesis" by (intro sameTree_plain [of k]) auto
next
  case (CmdXAdd k x)
  then show "harmless (liveIds r) c \<Longrightarrow> ?thesis" by (intro sameTree_plain [of k]) auto
next
  case (CmdSAdd k x)
  then show "harmless (liveIds r) c \<Longrightarrow> ?thesis" by (intro sameTree_plain [of k]) auto
qed

lemma harmless_all: "list_all (harmless (liveIds r)) cs \<Longrightarrow> sameTree r (runAll cs r)"
proof (induction cs arbitrary: r)
  case (Cons c cs)
  have "sameTree r (snd (runCmd c r))" using Cons.prems by (intro harmless_step) simp
  moreover from this have "sameTree (snd (runCmd c r)) (runAll cs (snd (runCmd c r)))"
    using Cons.prems by (intro Cons.IH) (simp add: sameTree_def)
  ultimately show ?case using sameTree_trans by simp
qed simp

lemma harmless_queues [simp]:
  "list_all (harmless L) (queueCreateInfo i)" "list_all (harmless L) (queueDeleteInfo i)"
  "list_all (harmless L) (queueInvalidation env op ps)" "list_all (harmless L) (queueQueryDeleted j)"
  "plainKey k \<Longrightarrow> list_all (harmless L) (queueWriteFull k ref data)"
  "j \<in> L \<Longrightarrow> list_all (harmless L) (queueTouchTimes j ts)"
  by (auto simp: queueCreateInfo_def queueDeleteInfo_def queueInvalidation_def queueQueryDeleted_def queueWriteFull_def
      queueTouchTimes_def plainKey_def tagFields_def Let_def)

lemma edgesOf_link: "edgesOf (hsetAll (KDirents d) [(n, i)] r) = addEdge d n i (edgesOf r)"
  by (auto simp: fun_eq_iff edgesOf_def addEdge_def hsetAll_def hget_def hashAt_hset hashAt_def hset_def)

lemma edgesOf_unlink: "edgesOf (hdel (KDirents d) n r) = removeEdge d n (edgesOf r)"
proof -
  have "hget (hdel (KDirents d) n r) (KDirents e) m = (if e = d \<and> m = n then None else hget r (KDirents e) m)" for e m
  proof (cases "e = d")
    case False
    then show ?thesis using hget_cong [of "hdel (KDirents d) n r" "KDirents e" r] by simp
  qed (simp add: hget_def)
  then show ?thesis by (auto simp: fun_eq_iff edgesOf_def removeEdge_def)
qed

lemma nodes_dirents:
  assumes "\<And>k. k \<noteq> KDirents d \<Longrightarrow> r' k = r k"
  shows "liveIds r' = liveIds r" and "sameTags A r r'" and "r' (KInode i) = r (KInode i)"
  using assms by (simp_all add: liveIds_def sameTags_def hget_def hashAt_def)

lemma runAll_other: "list_all (\<lambda>c. k \<noteq> cmdKey c \<and> \<not> isMark c) cs \<Longrightarrow> runAll cs r k = r k"
  by (induction cs arbitrary: r) (simp_all add: runCmd_other)

lemma inodeFieldsAtPath_tags:
  "map_of (rev (inodeFieldsAtPath i p b)) ''type'' = Some (in_type i)"
  "map_of (rev (inodeFieldsAtPath i p b)) ''parent'' = Some (in_parent i)"
  "map_of (rev (inodeFieldsAtPath i p b)) ''name'' = Some (in_name i)"
  "inodeFieldsAtPath i p b \<noteq> []"
proof -
  define fs where "fs = inodeFieldsAtPath i p b"
  have "distinct (map fst fs)"
    unfolding fs_def inodeFieldsAtPath_def by (intro distinct_mergeFieldMaps) (auto simp: inodeFields_def)
  then have rev: "map_of (rev fs) = map_of fs" by (subst map_of_inject_set) (simp_all add: rev_map [symmetric])
  show "map_of (rev (inodeFieldsAtPath i p b)) ''type'' = Some (in_type i)"
    "map_of (rev (inodeFieldsAtPath i p b)) ''parent'' = Some (in_parent i)"
    "map_of (rev (inodeFieldsAtPath i p b)) ''name'' = Some (in_name i)"
    unfolding fs_def [symmetric] rev by (simp_all add: fs_def inodeFieldsAtPath_def map_of_mergeFieldMaps inodeFields_def)
  then show "inodeFieldsAtPath i p b \<noteq> []" by auto
qed

lemma isHashOrNone_None: "r k = None \<Longrightarrow> isHashOrNone r k"
  by (simp add: isHashOrNone_def)

lemma isHashOrNone_hget: "hget r k f = Some v \<Longrightarrow> isHashOrNone r k"
  by (auto simp: isHashOrNone_def hget_def hashAt_def split: option.splits rvalue.splits)

lemma createCmds_tree:
  assumes ok: "treeOk r" and d: "hget r (KInode d) ''type'' = Some ''dir''" and new: "in_id i \<notin> liveIds r"
    and free: "edgesOf r d (in_name i) = None" and hash: "isHashOrNone r (KDirents d)" and up: "in_parent i = d"
  shows "treeOk (runAll (createCmds env p d i now) r)"
    and "keepsNodes {in_id i} r (runAll (createCmds env p d i now) r)"
proof -
  define ext where "ext \<longleftrightarrow> in_type i = ''file'' \<and> isExternalContentRef (in_contentRef i)"
  define pre where "pre = (if ext then queueWriteFull (KContent (in_id i)) (in_contentRef i) (in_content i) else [])"
  define fvs where "fvs = inodeFieldsAtPath i p (\<not> ext \<and> in_type i = ''file'')"
  define post where "post = queueTouchTimes d now @ queueCreateInfo i @ [CmdSet KRootDirty ''1''] @ queueInvalidation env ''inode'' [p]"
  have cmds: "createCmds env p d i now = pre @ [CmdHSet (KInode (in_id i)) fvs, CmdHSet (KDirents d) [(in_name i, in_id i)]] @ post"
    by (simp add: createCmds_def pre_def fvs_def post_def ext_def)
  define r1 where "r1 = runAll pre r"
  define r2 where "r2 = hsetAll (KInode (in_id i)) fvs r1"
  define r3 where "r3 = hsetAll (KDirents d) [(in_name i, in_id i)] r2"
  have "list_all (harmless (liveIds r)) pre" by (simp add: pre_def plainKey_def)
  then have same: "sameTree r r1" unfolding r1_def by (rule harmless_all)
  have "r1 (KDirents d) = r (KDirents d)" unfolding r1_def
    by (rule runAll_other) (simp add: pre_def queueWriteFull_def)
  then have hash1: "isHashOrNone r2 (KDirents d)" using hash by (simp add: isHashOrNone_def r2_def)
  have new1: "in_id i \<notin> liveIds r1" using new same by (simp add: sameTree_def)
  then have "isHashOrNone r1 (KInode (in_id i))" by (simp add: liveIds_def isHashOrNone_None)
  then have run: "runAll (createCmds env p d i now) r = runAll post r3"
    using hash1 by (simp add: cmds r1_def [symmetric] r2_def [symmetric] r3_def [symmetric])
  have ok1: "treeOk r1" using same ok by (rule treeOk_same)
  have e3: "edgesOf r3 = addEdge d (in_name i) (in_id i) (edgesOf r1)"
    unfolding r3_def edgesOf_link r2_def by (subst edgesOf_inode [of "in_id i" _ r1]) simp_all
  have l3: "liveIds r3 = insert (in_id i) (liveIds r1)"
    unfolding r3_def by (subst nodes_dirents(1) [of d _ r2]) (simp_all add: r2_def hsetAll_live fvs_def inodeFieldsAtPath_tags)
  have h3: "hget r3 (KInode j) f = hget r2 (KInode j) f" for j f
    unfolding r3_def by (rule hget_cong) simp
  have t3: "sameTags (- {in_id i}) r1 r3"
    unfolding sameTags_def by (auto intro!: hget_cong simp: r3_def r2_def)
  have i3: "hget r3 (KInode (in_id i)) ''parent'' = Some d" "hget r3 (KInode (in_id i)) ''name'' = Some (in_name i)"
    "hget r3 (KInode (in_id i)) ''type'' \<noteq> None"
    by (simp_all add: h3 r2_def hget_hsetAll fvs_def inodeFieldsAtPath_tags up)
  have d1: "hget r1 (KInode d) ''type'' = Some ''dir''" using d same by (simp add: sameTree_def sameTags_def tagFields_def)
  have free1: "edgesOf r1 d (in_name i) = None" using free same by (simp add: sameTree_def)
  have ok3: "treeOk r3" by (rule treeOk_add [OF ok1 d1 new1 free1 e3 l3 t3 i3])
  have "d \<in> liveIds r3" using liveI [OF d1] l3 by simp
  then have "list_all (harmless (liveIds r3)) post" by (simp add: post_def plainKey_def)
  then have s3: "sameTree r3 (runAll post r3)" by (rule harmless_all)
  then show "treeOk (runAll (createCmds env p d i now) r)" unfolding run by (rule treeOk_same [OF _ ok3])
  have "keepsNodes {in_id i} r1 r3" by (rule keepsNodes_tags [OF _ t3]) (simp_all add: l3)
  then show "keepsNodes {in_id i} r (runAll (createCmds env p d i now) r)"
    unfolding run using keepsNodes_same [OF same] keepsNodes_same [OF s3] by (blast intro: keepsNodes_trans)
qed

lemma below_removeEdge: "below (removeEdge d n ch) a i \<Longrightarrow> below ch a i"
  by (erule below_inside) (simp add: removeEdge_iff)

text \<open>The first three commands of a rename, as one edit of the edges and labels.\<close>

lemma rename_links:
  assumes "edgesOf r op on = Some i" and "isHashOrNone r (KDirents np)" and "isHashOrNone r (KInode i)" and "i \<in> liveIds r"
    and r3: "r3 = runAll [CmdHDel (KDirents op) on, CmdHSet (KDirents np) [(nn, i)],
        CmdHSet (KInode i) [(''parent'', np), (''name'', nn), (''ctime_ms'', t), (''path'', p), (''path_ancestors'', q)]] r"
  shows "edgesOf r3 = addEdge np nn i (removeEdge op on (edgesOf r))" "liveIds r3 = liveIds r"
    "sameTags (- {i}) r r3" "hget r3 (KInode i) ''type'' = hget r (KInode i) ''type''"
    "hget r3 (KInode i) ''parent'' = Some np" "hget r3 (KInode i) ''name'' = Some nn"
proof -
  define fvs where "fvs = [(''parent'', np), (''name'', nn), (''ctime_ms'', t), (''path'', p), (''path_ancestors'', q)]"
  define r1 where "r1 = hdel (KDirents op) on r"
  define r2 where "r2 = hsetAll (KDirents np) [(nn, i)] r1"
  have "isHashOrNone r (KDirents op)" using assms(1) isHashOrNone_hget by (auto simp: edgesOf_def)
  moreover have "isHashOrNone r1 (KDirents np)"
  proof (cases "np = op")
    case True
    then show ?thesis using assms(2) by (auto simp: r1_def hdel_def isHashOrNone_def split: option.splits rvalue.splits)
  qed (use assms(2) in \<open>simp add: r1_def isHashOrNone_def\<close>)
  moreover have node: "r2 (KInode j) = r (KInode j)" for j by (simp add: r2_def r1_def)
  then have "isHashOrNone r2 (KInode i)" using assms(3) by (simp add: isHashOrNone_def)
  ultimately have run: "r3 = hsetAll (KInode i) fvs r2"
    unfolding r3 by (simp add: r1_def [symmetric] r2_def [symmetric] fvs_def)
  have l2: "liveIds r2 = liveIds r" using node by (simp add: liveIds_def)
  show "edgesOf r3 = addEdge np nn i (removeEdge op on (edgesOf r))"
    unfolding run by (subst edgesOf_inode [of i _ r2]) (simp_all add: r2_def edgesOf_link r1_def edgesOf_unlink)
  show "liveIds r3 = liveIds r" using hsetAll_live [of fvs i r2] assms(4) by (auto simp: run l2)
  have same: "hget r2 (KInode j) f = hget r (KInode j) f" for j f using node by (rule hget_cong)
  have "hget r3 (KInode j) f = hget r2 (KInode j) f" if "j \<noteq> i" for j f using that unfolding run by (intro hget_cong) simp
  then show "sameTags (- {i}) r r3" by (simp add: sameTags_def same)
  show "hget r3 (KInode i) ''type'' = hget r (KInode i) ''type''" "hget r3 (KInode i) ''parent'' = Some np"
    "hget r3 (KInode i) ''name'' = Some nn"
    by (simp_all add: run hget_hsetAll fvs_def same)
qed

text \<open>Deleting what the new name led to: the commands of the replaced inode.\<close>

lemma replaced_cmds:
  assumes "x \<noteq> i" and "\<And>m. edgesOf r x m = None"
    and r': "r' = runAll (CmdDel (KInode x) # (if kind = ''file'' then [CmdDel (KContent x)] else [])
        @ (if kind = ''dir'' then [CmdDel (KDirents x)] else [])) r"
  shows "edgesOf r' = edgesOf r" "liveIds r' = liveIds r - {x}" "sameTags (- {x}) r r'"
proof -
  have "r' (KDirents d) = (if kind = ''dir'' \<and> d = x then None else r (KDirents d))"
    "r' (KInode j) = (if j = x then None else r (KInode j))" for d j
    by (auto simp: r')
  then have e: "edgesOf r' d m = (if kind = ''dir'' \<and> d = x then None else edgesOf r d m)"
    and n: "r' (KInode j) = (if j = x then None else r (KInode j))" for d m j
    by (simp_all add: edgesOf_def hget_def hashAt_def)
  show "edgesOf r' = edgesOf r" using assms(2) by (auto simp: fun_eq_iff e)
  show "liveIds r' = liveIds r - {x}" by (auto simp: liveIds_def n)
  show "sameTags (- {x}) r r'" using n by (simp add: sameTags_def hget_def hashAt_def)
qed

lemma sameTags_trans: "sameTags A r r1 \<Longrightarrow> sameTags B r1 r2 \<Longrightarrow> sameTags (A \<inter> B) r r2"
  by (simp add: sameTags_def)

lemma addEdge_removeEdge:
  "addEdge e m i (removeEdge d n (removeEdge e m ch)) = addEdge e m i (removeEdge d n ch)"
  by (auto simp: fun_eq_iff addEdge_def removeEdge_def)

lemma renameCmds_tree:
  assumes ok: "treeOk r" and src: "edgesOf r op on = Some i" and np: "hget r (KInode np) ''type'' = Some ''dir''"
    and hash: "isHashOrNone r (KDirents np)" and up: "\<not> below (edgesOf r) i np"
    and repl: "case replaced of None \<Rightarrow> edgesOf r np nn = None
      | Some x \<Rightarrow> edgesOf r np nn = Some (in_id x) \<and> in_id x \<noteq> i \<and> (\<forall>m. edgesOf r (in_id x) m = None)"
  shows "treeOk (runAll (renameCmds env rs dst i op on np nn now replaced) r)"
    and "keepsNodes {} r (runAll (renameCmds env rs dst i op on np nn now replaced) r)"
    and "edgesOf (runAll (renameCmds env rs dst i op on np nn now replaced) r) = addEdge np nn i (removeEdge op on (edgesOf r))"
    and "liveIds (runAll (renameCmds env rs dst i op on np nn now replaced) r)
      = liveIds r - (case replaced of None \<Rightarrow> {} | Some x \<Rightarrow> {in_id x})"
proof -
  note wf = treeOk_wf [OF ok]
  define links where "links = [CmdHDel (KDirents op) on, CmdHSet (KDirents np) [(nn, i)],
      CmdHSet (KInode i) [(''parent'', np), (''name'', nn), (''ctime_ms'', intText now), (''path'', dst),
        (''path_ancestors'', indexedPathAncestors dst)]]"
  define touch where "touch = queueTouchTimes op now @ (if np \<noteq> op then queueTouchTimes np now else [])"
  define drop' where "drop' = (case replaced of None \<Rightarrow> [] | Some x \<Rightarrow> CmdDel (KInode (in_id x))
      # (if in_type x = ''file'' then [CmdDel (KContent (in_id x))] else [])
      @ (if in_type x = ''dir'' then [CmdDel (KDirents (in_id x))] else []))"
  define post where "post = (case replaced of None \<Rightarrow> [] | Some x \<Rightarrow> queueDeleteInfo x) @ [CmdSet KRootDirty ''1'']
      @ queueInvalidation env ''prefix'' [rs, dst] @ (case replaced of None \<Rightarrow> [] | Some x \<Rightarrow> queueQueryDeleted (in_id x))"
  have cmds: "renameCmds env rs dst i op on np nn now replaced = links @ touch @ drop' @ post"
    by (simp add: renameCmds_def links_def touch_def drop'_def post_def split: option.splits)
  define r3 where "r3 = runAll links r"
  define r4 where "r4 = runAll touch r3"
  define r5 where "r5 = runAll drop' r4"
  have live: "op \<in> liveIds r" "i \<in> liveIds r" "np \<in> liveIds r" using wfTreeD(3,4) [OF wf src] liveI [OF np] by auto
  have "isHashOrNone r (KInode i)" using treeOk_labels(2) [OF ok src] by (rule isHashOrNone_hget)
  note l3 = rename_links [OF src hash this live(2) r3_def [unfolded links_def]]
  have "list_all (harmless (liveIds r3)) touch" using live by (simp add: touch_def l3(2))
  then have s4: "sameTree r3 r4" unfolding r4_def by (rule harmless_all)
  define X where "X = (case replaced of None \<Rightarrow> {} | Some x \<Rightarrow> {in_id x})"
  have X: "i \<notin> X" "np \<notin> X" using repl by (auto simp: X_def split: option.splits)
  have "edgesOf r5 = edgesOf r4 \<and> liveIds r5 = liveIds r4 - X \<and> sameTags (- X) r4 r5"
  proof (cases replaced)
    case None
    then show ?thesis by (simp add: r5_def drop'_def X_def sameTags_def)
  next
    case (Some x)
    have x: "in_id x \<noteq> i" "in_id x \<noteq> np" using X Some by (auto simp: X_def)
    moreover have "edgesOf r4 (in_id x) m = None" for m
      using s4 repl x Some by (auto simp: sameTree_def l3(1) addEdge_def removeEdge_def)
    ultimately show ?thesis
      using replaced_cmds [of "in_id x" i r4 r5 "in_type x"] by (simp add: r5_def drop'_def Some X_def)
  qed
  with s4 l3 have e5: "edgesOf r5 = addEdge np nn i (removeEdge op on (edgesOf r))"
    and l5: "liveIds r5 = liveIds r - X" and t5: "sameTags (- X) r3 r5"
    using sameTags_trans [of UNIV r3 r4 "- X" r5] by (auto simp: sameTree_def)
  have i5: "hget r5 (KInode i) f = hget r3 (KInode i) f" if "f \<in> tagFields" for f
    using t5 X(1) wfTreeD(2) [OF wf src] that by (auto simp: sameTags_def)
  have ok5: "treeOk r5"
  proof (cases replaced)
    case None
    have free: "removeEdge op on (edgesOf r) np nn = None" using repl None by (auto simp: removeEdge_def)
    have t: "sameTags (- {i}) r r5" using sameTags_trans [OF l3(3) t5] None by (simp add: X_def)
    show ?thesis
      by (rule treeOk_move [OF ok src np up free e5 _ t])
        (use l5 i5 l3(4-6) in \<open>simp_all add: X_def None tagFields_def\<close>)
  next
    case (Some x)
    define r0 where "r0 = hdel (KDirents np) nn (r(KInode (in_id x) := None))"
    have x: "edgesOf r np nn = Some (in_id x)" "in_id x \<noteq> i" "\<And>m. edgesOf r (in_id x) m = None"
      using repl Some by auto
    have xs: "X = {in_id x}" by (simp add: X_def Some)
    have e0: "edgesOf r0 = removeEdge np nn (edgesOf r)"
      unfolding r0_def edgesOf_unlink by (subst edgesOf_inode [of "in_id x" _ r]) simp_all
    have n0: "r0 (KInode j) = (if j = in_id x then None else r (KInode j))" for j by (simp add: r0_def)
    have l0: "liveIds r0 = liveIds r - {in_id x}" by (auto simp: liveIds_def n0)
    have h0: "hget r0 (KInode j) f = hget r (KInode j) f" if "j \<noteq> in_id x" for j f
      by (rule hget_cong) (simp add: n0 that)
    then have t0: "sameTags (- {in_id x}) r r0" by (simp add: sameTags_def)
    have ok0: "treeOk r0" by (rule treeOk_remove [OF ok x(1) x(3) e0 l0 t0])
    have "\<not> (op = np \<and> on = nn)" using src x(1,2) by auto
    then have src0: "edgesOf r0 op on = Some i" using src by (simp add: e0 removeEdge_iff)
    have np0: "hget r0 (KInode np) ''type'' = Some ''dir''" using np h0 X xs by simp
    have up0: "\<not> below (edgesOf r0) i np" using up below_removeEdge by (auto simp: e0)
    have free0: "removeEdge op on (edgesOf r0) np nn = None" by (simp add: e0 removeEdge_def)
    have e5': "edgesOf r5 = addEdge np nn i (removeEdge op on (edgesOf r0))"
      unfolding e5 e0 addEdge_removeEdge by (rule refl)
    have tx: "sameTags (- {i} \<inter> - {in_id x}) r r5" using sameTags_trans [OF l3(3) t5] by (simp add: xs)
    have gone: "hget r5 (KInode (in_id x)) f = None" "hget r0 (KInode (in_id x)) f = None" for f
      using l5 l0 by (auto simp: liveIds_def xs intro!: hget_None)
    have t5': "sameTags (- {i}) r0 r5"
      unfolding sameTags_def
    proof (intro ballI impI)
      fix j f assume j: "j \<in> - {i}" "f \<in> tagFields" "j \<noteq> ''1'' \<or> f = ''type''"
      show "hget r5 (KInode j) f = hget r0 (KInode j) f"
        by (cases "j = in_id x") (use j tx h0 gone in \<open>simp_all add: sameTags_def\<close>)
    qed
    show ?thesis
      by (rule treeOk_move [OF ok0 src0 np0 up0 free0 e5' _ t5'])
        (use l5 l0 i5 l3(4-6) h0 x(2) in \<open>simp_all add: xs tagFields_def\<close>)
  qed
  have "list_all (harmless (liveIds r5)) post" by (simp add: post_def plainKey_def split: option.splits)
  then have s5: "sameTree r5 (runAll post r5)" by (rule harmless_all)
  have run: "runAll (renameCmds env rs dst i op on np nn now replaced) r = runAll post r5"
    by (simp add: cmds r3_def r4_def r5_def)
  show "treeOk (runAll (renameCmds env rs dst i op on np nn now replaced) r)"
    unfolding run using s5 ok5 by (rule treeOk_same)
  show "edgesOf (runAll (renameCmds env rs dst i op on np nn now replaced) r) = addEdge np nn i (removeEdge op on (edgesOf r))"
    "liveIds (runAll (renameCmds env rs dst i op on np nn now replaced) r)
      = liveIds r - (case replaced of None \<Rightarrow> {} | Some x \<Rightarrow> {in_id x})"
    unfolding run using s5 e5 l5 by (simp_all add: sameTree_def X_def)
  have "hget r5 (KInode j) ''type'' = hget r (KInode j) ''type''" if "j \<in> liveIds r5" for j
  proof (cases "j = i")
    case True
    then show ?thesis using i5 l3(4) by (simp add: tagFields_def)
  next
    case False
    moreover have "j \<notin> X" using that l5 by simp
    ultimately show ?thesis using sameTags_trans [OF l3(3) t5] by (simp add: sameTags_def tagFields_def)
  qed
  then have "keepsNodes {} r r5" using l5 by (simp add: keepsNodes_def)
  then show "keepsNodes {} r (runAll (renameCmds env rs dst i op on np nn now replaced) r)"
    unfolding run using keepsNodes_same [OF s5] by (rule keepsNodes_trans)
qed

subsection \<open>What the scripts do to the tree\<close>

lemma sameTree_upd [intro]: "plainKey k \<Longrightarrow> sameTree r (r(k := v))"
  by (rule sameTree_plain) auto

lemma sameTree_hincrby:
  assumes "hincrby k f d r = Some r'" and "plainKey k"
  shows "sameTree r r'"
  using assms(2)
proof (rule sameTree_plain)
  show "r' q = r q" if "q \<noteq> k" for q by (rule hincrby_other [OF that [symmetric] assms(1)])
qed

lemma sameTree_hset: "i \<in> liveIds r \<Longrightarrow> f \<notin> tagFields \<Longrightarrow> sameTree r (hset (KInode i) f v r)"
  using sameTree_hset_inode [of i r "[(f, v)]"] by (simp add: hsetAll_def)

lemma sameTree_xadd: "sameTree r (xadd KChanges x r)"
  by (rule sameTree_plain [of KChanges]) (simp_all add: plainKey_def)

lemma sameTree_sadd: "sameTree r (sadd KDirtySet x r)"
  by (rule sameTree_plain [of KDirtySet]) (simp_all add: plainKey_def)

lemma plainKeys [simp]: "plainKey KInfo" "plainKey KRootDirty" "plainKey (KContent i)" "plainKey (KRetired v)"
    "plainKey (KReceipt v)" "plainKey (KStage i t)" "plainKey KNextInode" "plainKey KDirtySet" "plainKey KChanges"
  by (simp_all add: plainKey_def)

lemma dirty_tail:
  "sameTree r (let r6 = sadd KDirtySet i (r(KRootDirty \<mapsto> RString v)) in if p \<noteq> [] then xadd KChanges p r6 else r6)"
proof -
  have "sameTree r (sadd KDirtySet i (r(KRootDirty \<mapsto> RString v)))"
    by (rule sameTree_trans [OF sameTree_upd sameTree_sadd]) simp
  then show ?thesis using sameTree_trans [OF _ sameTree_xadd] by (simp add: Let_def)
qed

lemma times_same:
  assumes "p \<in> liveIds r"
  shows "sameTree r (hset (KInode p) ''ctime_ms'' t (hset (KInode p) ''mtime_ms'' t r))"
proof -
  have "sameTree r (hset (KInode p) ''mtime_ms'' t r)" using assms by (rule sameTree_hset) (simp add: tagFields_def)
  moreover from this have "p \<in> liveIds (hset (KInode p) ''mtime_ms'' t r)" using assms by (simp add: sameTree_def)
  then have "sameTree (hset (KInode p) ''mtime_ms'' t r) (hset (KInode p) ''ctime_ms'' t (hset (KInode p) ''mtime_ms'' t r))"
    by (rule sameTree_hset) (simp add: tagFields_def)
  ultimately show ?thesis by (rule sameTree_trans)
qed

lemma deleteEffect_same:
  assumes r2: "r2 = hdel (KDirents (da_parent a)) (da_name a)
      (r(KInode (da_inode a) := None, KContent (da_inode a) := None, KDirents (da_inode a) := None))"
    and p: "da_parent a \<in> liveIds r2"
  shows "sameTree r2 (snd (deleteEffect a r))"
proof -
  define kind where "kind = hget r (KInode (da_inode a)) ''type''"
  define r3 where "r3 = hset (KInode (da_parent a)) ''ctime_ms'' (da_now a) (hset (KInode (da_parent a)) ''mtime_ms'' (da_now a) r2)"
  have s3: "sameTree r2 r3" unfolding r3_def by (rule times_same [OF p])
  show ?thesis
  proof (cases "isHashOrNone r2 (KInode (da_parent a))")
    case True
    have def: "deleteEffect a r = (case hincrby KInfo (kindCounter kind) (-1) r3 of None \<Rightarrow> (None, r3) | Some r4 \<Rightarrow>
         case (if kind \<noteq> Some ''file'' then Some r4
               else case decimal (hgetOr r (KInode (da_inode a)) ''size'' ''0'') of None \<Rightarrow> None
                  | Some n \<Rightarrow> if 0 < n then hincrby KInfo ''total_data_bytes'' (- n) r4 else Some r4) of
           None \<Rightarrow> (None, r4)
         | Some r5 \<Rightarrow>
             (let r6 = sadd KDirtySet (da_inode a) (r5(KRootDirty \<mapsto> RString ''1''))
              in (Some 1, if da_payload a \<noteq> [] then xadd KChanges (da_payload a) r6 else r6)))"
      using True by (simp only: deleteEffect_def Let_def r2 [symmetric] r3_def [symmetric] kind_def [symmetric] if_False not_True_eq_False)
    show ?thesis
    proof (cases "hincrby KInfo (kindCounter kind) (-1) r3")
      case (Some r4)
      have s4: "sameTree r2 r4" using s3 sameTree_hincrby [OF Some] by (auto intro: sameTree_trans)
      define res where "res = (if kind \<noteq> Some ''file'' then Some r4
               else case decimal (hgetOr r (KInode (da_inode a)) ''size'' ''0'') of None \<Rightarrow> None
                  | Some n \<Rightarrow> if 0 < n then hincrby KInfo ''total_data_bytes'' (- n) r4 else Some r4)"
      show ?thesis
      proof (cases res)
        case (Some r5)
        then have "sameTree r4 r5"
          by (auto simp: res_def intro: sameTree_hincrby split: if_splits option.splits)
        with s4 have "sameTree r2 r5" by (rule sameTree_trans)
        then have "sameTree r2 (let r6 = sadd KDirtySet (da_inode a) (r5(KRootDirty \<mapsto> RString ''1''))
              in if da_payload a \<noteq> [] then xadd KChanges (da_payload a) r6 else r6)"
          using dirty_tail by (rule sameTree_trans)
        then show ?thesis unfolding def \<open>hincrby KInfo (kindCounter kind) (-1) r3 = Some r4\<close>
          by (simp add: res_def [symmetric] Some Let_def)
      qed (use s4 in \<open>simp add: def \<open>hincrby KInfo (kindCounter kind) (-1) r3 = Some r4\<close> res_def [symmetric]\<close>)
    qed (use s3 in \<open>simp add: def\<close>)
  qed (simp add: deleteEffect_def Let_def r2)
qed

lemma delete_tree:
  assumes ok: "treeOk r" and one: "deleteCode a r = Some 1"
  shows "treeOk (snd (deleteEffect a r))" and "keepsNodes {} r (snd (deleteEffect a r))"
proof -
  note wf = treeOk_wf [OF ok]
  have link: "edgesOf r (da_parent a) (da_name a) = Some (da_inode a)"
    and children: "hget r (KInode (da_inode a)) ''type'' = Some ''dir'' \<Longrightarrow> c \<in> ran (hashAt r (KDirents (da_inode a))) \<Longrightarrow> r (KInode c) = None" for c
    using one by (auto simp: deleteCode_def edgesOf_def Let_def split: if_splits)
  have leaf: "edgesOf r (da_inode a) m = None" for m
  proof (rule ccontr)
    assume "edgesOf r (da_inode a) m \<noteq> None"
    then obtain c where c: "edgesOf r (da_inode a) m = Some c" by auto
    then have "c \<in> ran (hashAt r (KDirents (da_inode a)))" by (auto simp: edgesOf_def hget_def ran_def)
    with children treeOk_labels(1) [OF ok c] have "r (KInode c) = None" by simp
    with wfTreeD(4) [OF wf c] show False by (simp add: liveIds_def)
  qed
  define r1 where "r1 = r(KInode (da_inode a) := None, KContent (da_inode a) := None, KDirents (da_inode a) := None)"
  define r2 where "r2 = hdel (KDirents (da_parent a)) (da_name a) r1"
  have "edgesOf r1 d m = edgesOf r d m" for d m
    using leaf [of m] by (cases "d = da_inode a") (simp_all add: edgesOf_def r1_def hget_def hashAt_def)
  then have e2: "edgesOf r2 = removeEdge (da_parent a) (da_name a) (edgesOf r)"
    unfolding r2_def edgesOf_unlink by (simp add: fun_eq_iff removeEdge_def)
  have n2: "r2 (KInode j) = (if j = da_inode a then None else r (KInode j))" for j by (simp add: r2_def r1_def)
  have l2: "liveIds r2 = liveIds r - {da_inode a}" by (auto simp: liveIds_def n2)
  have t2: "sameTags (- {da_inode a}) r r2" by (auto simp: sameTags_def n2 intro: hget_cong)
  have ok2: "treeOk r2" by (rule treeOk_remove [OF ok link leaf e2 l2 t2])
  have "da_parent a \<noteq> da_inode a" using link leaf [of "da_name a"] by auto
  then have "da_parent a \<in> liveIds r2" using wfTreeD(3) [OF wf link] l2 by simp
  from deleteEffect_same [OF r2_def [unfolded r1_def] this] have s2: "sameTree r2 (snd (deleteEffect a r))" .
  then show "treeOk (snd (deleteEffect a r))" by (rule treeOk_same [OF _ ok2])
  have "keepsNodes {} r r2" by (rule keepsNodes_tags [OF _ t2]) (auto simp: l2)
  then show "keepsNodes {} r (snd (deleteEffect a r))" using keepsNodes_same [OF s2] by (rule keepsNodes_trans)
qed

text \<open>A change of fields that repeats the labels the inode has.\<close>

definition keepsLabels :: "string \<Rightarrow> (string \<times> string) list \<Rightarrow> redis \<Rightarrow> bool" where
  "keepsLabels i fvs r \<longleftrightarrow>
     (\<forall>f \<in> tagFields. i \<noteq> ''1'' \<or> f = ''type'' \<longrightarrow> map_of (rev fvs) f = None \<or> map_of (rev fvs) f = hget r (KInode i) f)"

lemma keepsLabels_same:
  assumes "i \<in> liveIds r" and "keepsLabels i fvs r"
  shows "sameTree r (hsetAll (KInode i) fvs r)"
proof -
  have "hget (hsetAll (KInode i) fvs r) (KInode j) f = hget r (KInode j) f"
    if "f \<in> tagFields" "j \<noteq> ''1'' \<or> f = ''type''" for j f
  proof (cases "j = i")
    case True
    with that(2) have "i \<noteq> ''1'' \<or> f = ''type''" by simp
    with assms(2) that(1) have "map_of (rev fvs) f = None \<or> map_of (rev fvs) f = hget r (KInode i) f"
      by (simp only: keepsLabels_def)
    then show ?thesis by (auto simp: hget_hsetAll True split: option.splits)
  qed (auto intro: hget_cong)
  moreover have "liveIds (hsetAll (KInode i) fvs r) = liveIds r" using hsetAll_live [of fvs i r] assms(1) by auto
  moreover have "edgesOf (hsetAll (KInode i) fvs r) = edgesOf r" by (rule edgesOf_inode [of i]) simp
  ultimately show ?thesis by (simp add: sameTree_def sameTags_def)
qed

lemma update_tree:
  assumes "updateCode a r = Some 1 \<Longrightarrow> keepsLabels (ua_inode a) (ua_fields a) r"
  shows "sameTree r (snd (updateInodeScript a r))"
proof (cases "updateCode a r = Some 1")
  case True
  then have live: "ua_inode a \<in> liveIds r" by (auto simp: updateCode_def liveIds_def Let_def split: if_splits)
  define r1 where "r1 = hsetAll (KInode (ua_inode a)) (ua_fields a) r"
  define r2 where "r2 = hset (KInode (ua_inode a)) ''revision'' (ua_revision a) r1"
  have s1: "sameTree r r1" unfolding r1_def using live assms True by (intro keepsLabels_same)
  then have "ua_inode a \<in> liveIds r1" using live by (simp add: sameTree_def)
  then have "sameTree r1 r2" unfolding r2_def by (rule sameTree_hset) (simp add: tagFields_def)
  with s1 have "sameTree r r2" by (rule sameTree_trans)
  then have s3: "sameTree r (r2(KRootDirty \<mapsto> RString ''1''))" by (rule sameTree_trans) auto
  then show ?thesis
    using sameTree_trans [OF s3 sameTree_xadd]
    by (simp add: updateInodeScript_def True Let_def r1_def [symmetric] r2_def [symmetric])
qed (simp add: updateInodeScript_def)

text \<open>The labels that a publication writes: a file at the name and under the parent of the call.\<close>

definition publishLabels :: "publish_args \<Rightarrow> bool" where
  "publishLabels a \<longleftrightarrow> map_of (rev (pa_fields a)) ''type'' = Some ''file''
     \<and> map_of (rev (pa_fields a)) ''parent'' = Some (pa_parent a)
     \<and> map_of (rev (pa_fields a)) ''name'' = Some (pa_name a)"

lemma publish_tree:
  assumes ok: "treeOk r" and one: "publishCode a r = 1" and st: "pa_stage a = KStage (pa_inode a) tok"
    and lab: "publishLabels a"
    and parent: "hget r (KInode (pa_parent a)) ''type'' = Some ''dir''"
    and node: "if pa_create a then pa_inode a \<notin> liveIds r else hget r (KInode (pa_inode a)) ''type'' = Some ''file''"
  shows "treeOk (publishEffect a r)" and "keepsNodes (if pa_create a then {pa_inode a} else {}) r (publishEffect a r)"
proof -
  note wf = treeOk_wf [OF ok]
  define inode where "inode = KInode (pa_inode a)"
  define live where "live = KContent (pa_inode a)"
  define r1 where "r1 = (if r live \<noteq> None then renameKey live (KRetired (pa_revision a)) r else r)"
  define r2 where "r2 = (if pa_size a = 0 then r1(pa_stage a := None) else renameKey (pa_stage a) live r1)"
  define r3 where "r3 = hset inode ''revision'' (pa_revision a) (hsetAll inode (pa_fields a) r2)"
  define r4 where "r4 = hdel inode ''content'' r3"
  define rl where "rl = (if hget r4 (KDirents (pa_parent a)) (pa_name a) = None
      then hset (KDirents (pa_parent a)) (pa_name a) (pa_inode a) r4 else r4)"
  define rf where "rf = the (hincrby KInfo ''files'' 1 rl)"
  define r5 where "r5 = (if pa_create a then hset (KInode (pa_parent a)) ''ctime_ms'' (pa_mtime a)
      (hset (KInode (pa_parent a)) ''mtime_ms'' (pa_mtime a) rf) else r4)"
  define r6 where "r6 = the (hincrby KInfo ''total_data_bytes'' (pa_size a - the (decimal (hgetOr r inode ''size'' ''0''))) r5)"
  define r8 where "r8 = (let r7 = sadd KDirtySet (pa_inode a) (r6(KRootDirty \<mapsto> RString ''1''))
      in if pa_payload a \<noteq> [] then xadd KChanges (pa_payload a) r7 else r7)"
  have r': "publishEffect a r = r8(KReceipt (pa_revision a) \<mapsto> RString (pa_digest a))"
    unfolding publishEffect_def Let_def r8_def r6_def r5_def rf_def rl_def r4_def r3_def r2_def r1_def inode_def live_def
    by (rule refl)
  note one' = publishCode_one [OF one]
  have i: "isHashOrNone r KInfo" "f \<in> {''files'', ''total_data_bytes''} \<Longrightarrow> decimal (hgetOr r KInfo f ''0'') \<noteq> None" for f
    using one'(2) by (auto simp: malformed_def smallInt_def split: option.splits)
  have n2: "r2 (KInode j) = r (KInode j)" "r2 (KDirents j) = r (KDirents j)" "r2 KInfo = r KInfo" for j
    by (simp_all add: r2_def r1_def renameKey_def live_def st)
  have n4: "r4 (KInode j) = r (KInode j)" if "j \<noteq> pa_inode a" for j
    using that by (simp add: r4_def r3_def inode_def n2)
  have d4: "r4 (KDirents d) = r (KDirents d)" "r4 KInfo = r KInfo" for d by (simp_all add: r4_def r3_def inode_def n2)
  have h4: "hget r4 inode f = (case map_of (rev (pa_fields a)) f of None \<Rightarrow> hget r inode f | Some v \<Rightarrow> Some v)"
    if "f \<noteq> ''revision''" "f \<noteq> ''content''" for f
    using that n2(1) [of "pa_inode a"]
    by (simp add: r4_def r3_def hget_def hashAt_hsetAll map_add_def inode_def hashAt_cong [of r2 _ r] split: option.splits)
  have i4: "hget r4 inode ''type'' = Some ''file''" "hget r4 inode ''parent'' = Some (pa_parent a)" "hget r4 inode ''name'' = Some (pa_name a)"
    using lab by (simp_all add: h4 publishLabels_def)
  have e4: "edgesOf r4 = edgesOf r" by (simp add: edgesOf_def fun_eq_iff hget_def hashAt_def d4)
  have "j \<in> liveIds r4 \<longleftrightarrow> j = pa_inode a \<or> j \<in> liveIds r" for j
    by (cases "j = pa_inode a") (use n4 liveI [OF i4(1) [unfolded inode_def]] in \<open>simp_all add: liveIds_def\<close>)
  then have l4: "liveIds r4 = insert (pa_inode a) (liveIds r)" by blast
  have t4: "sameTags (- {pa_inode a}) r r4" by (auto simp: sameTags_def n4 intro: hget_cong)
  have free: "pa_create a \<Longrightarrow> hget r (KDirents (pa_parent a)) (pa_name a) = None"
    "\<not> pa_create a \<Longrightarrow> edgesOf r (pa_parent a) (pa_name a) = Some (pa_inode a)"
    using one'(7) by (auto simp: edgesOf_def)
  have okl: "treeOk (if pa_create a then rl else r4)"
  proof (cases "pa_create a")
    case True
    have rl: "rl = hsetAll (KDirents (pa_parent a)) [(pa_name a, pa_inode a)] r4"
      using free(1) [OF True] by (simp add: rl_def hget_def hashAt_def d4 hsetAll_def)
    have el: "edgesOf rl = addEdge (pa_parent a) (pa_name a) (pa_inode a) (edgesOf r)"
      unfolding rl edgesOf_link e4 ..
    have ll: "liveIds rl = insert (pa_inode a) (liveIds r)"
      unfolding rl by (subst nodes_dirents(1) [of "pa_parent a" _ r4]) (simp_all add: l4)
    have hl: "hget rl (KInode j) f = hget r4 (KInode j) f" for j f unfolding rl by (rule hget_cong) simp
    have tl: "sameTags (- {pa_inode a}) r rl" using t4 by (simp add: sameTags_def hl)
    have "treeOk rl"
      by (rule treeOk_add [OF ok parent _ _ el ll tl])
        (use node True free(1) i4 in \<open>simp_all add: edgesOf_def hl inode_def\<close>)
    then show ?thesis using True by simp
  next
    case False
    have "pa_inode a \<noteq> ''1''" using wfTreeD(2) [OF wf free(2) [OF False]] .
    moreover have "sameTags UNIV r r4"
      unfolding sameTags_def
    proof (intro ballI impI)
      fix j f assume f: "f \<in> tagFields" "j \<noteq> ''1'' \<or> f = ''type''"
      show "hget r4 (KInode j) f = hget r (KInode j) f"
      proof (cases "j = pa_inode a")
        case True
        with f(1) show ?thesis using i4 node treeOk_labels(2,3) [OF ok free(2) [OF False]] False
          by (auto simp: tagFields_def inode_def)
      qed (use n4 in \<open>auto intro: hget_cong\<close>)
    qed
    moreover have "liveIds r4 = liveIds r" using l4 wfTreeD(4) [OF wf free(2) [OF False]] by auto
    ultimately have "sameTree r r4" using e4 by (simp add: sameTree_def)
    then show ?thesis using False treeOk_same [OF _ ok] by simp
  qed
  have "rl KInfo = r KInfo" by (simp add: rl_def d4)
  then obtain q where q: "hincrby KInfo ''files'' 1 rl = Some q" "isHashOrNone q KInfo"
    "decimal (hgetOr q KInfo ''total_data_bytes'' ''0'') \<noteq> None" "\<forall>k. k \<noteq> KInfo \<longrightarrow> q k = rl k"
    using hincrby_chain [of r rl 1] i by blast
  have s5: "sameTree (if pa_create a then rl else r4) r5"
  proof (cases "pa_create a")
    case True
    have sq: "sameTree rl rf" using sameTree_hincrby [OF q(1)] by (simp add: rf_def q(1))
    have "pa_parent a \<in> liveIds r" using liveI [OF parent] .
    then have "pa_parent a \<in> liveIds r4" using l4 by simp
    then have "pa_parent a \<in> liveIds rl" by (simp add: rl_def liveIds_def)
    then have "pa_parent a \<in> liveIds rf" using sq by (simp add: sameTree_def)
    from sameTree_trans [OF sq times_same [OF this]] show ?thesis using True by (simp add: r5_def)
  qed (simp add: r5_def)
  have "r5 KInfo = (if pa_create a then q KInfo else r KInfo)" by (simp add: r5_def rf_def q(1) d4)
  then have "isHashOrNone r5 KInfo" "decimal (hgetOr r5 KInfo ''total_data_bytes'' ''0'') \<noteq> None"
    using q(2,3) i by (simp_all add: isHashOrNone_def hgetOr_def hget_def hashAt_def)
  then obtain t where "hincrby KInfo ''total_data_bytes'' (pa_size a - the (decimal (hgetOr r inode ''size'' ''0''))) r5 = Some t"
    using hincrby_info by blast
  then have "sameTree r5 r6" by (auto simp: r6_def intro: sameTree_hincrby)
  moreover have "sameTree r6 r8" unfolding r8_def by (rule dirty_tail)
  moreover have "sameTree r8 (publishEffect a r)" unfolding r' by auto
  ultimately have "sameTree (if pa_create a then rl else r4) (publishEffect a r)"
    using s5 by (blast intro: sameTree_trans)
  then show "treeOk (publishEffect a r)" using okl by (rule treeOk_same)
  have "keepsNodes (if pa_create a then {pa_inode a} else {}) r (if pa_create a then rl else r4)"
  proof (cases "pa_create a")
    case True
    have nl: "rl (KInode j) = r4 (KInode j)" for j by (simp add: rl_def)
    then have "liveIds rl = liveIds r4" "sameTags (- {pa_inode a}) r rl"
      using t4 by (simp_all add: liveIds_def sameTags_def hget_def hashAt_def)
    then have "keepsNodes {pa_inode a} r rl" by (intro keepsNodes_tags) (auto simp: l4)
    then show ?thesis using True by simp
  next
    case False
    have "liveIds r4 = liveIds r" using l4 wfTreeD(4) [OF wf free(2) [OF False]] by auto
    moreover have "hget r4 (KInode j) ''type'' = hget r (KInode j) ''type''" for j
    proof (cases "j = pa_inode a")
      case True
      then show ?thesis using i4(1) node False by (simp add: inode_def)
    qed (use t4 in \<open>simp add: sameTags_def tagFields_def\<close>)
    ultimately show ?thesis using False by (simp add: keepsNodes_def)
  qed
  then show "keepsNodes (if pa_create a then {pa_inode a} else {}) r (publishEffect a r)"
    using keepsNodes_same [OF \<open>sameTree (if pa_create a then rl else r4) (publishEffect a r)\<close>] by (rule keepsNodes_trans)
qed

end
