(* ===== verification/TreeSystem.thy ===== *)
theory TreeSystem
  imports TreeInvariant
begin

text \<open>
  All clients together: allocations, transactions, scripts and the rest as steps on one store, and
  the invariant that the store stays a tree.  What is not an invariant is shown as well: renames
  that the client lets through and that leave a cycle or lose a file.
\<close>

subsection \<open>The steps of all clients\<close>

text \<open>
  The store, the inode ids that were allocated and not yet used, and all pairs of an inode and its
  type that were ever in the store: what a client remembers of an inode is one of these.
\<close>

record tree_sys =
  sy_store :: redis
  sy_reserved :: "string set"
  sy_seen :: "(string \<times> string) set"

definition kindOf :: "redis \<Rightarrow> string \<Rightarrow> string option" where
  "kindOf r i = hget r (KInode i) ''type''"

lemma kindOf_live: "kindOf r i = Some t \<Longrightarrow> i \<in> liveIds r"
  unfolding kindOf_def by (rule liveI)

definition typesOf :: "redis \<Rightarrow> (string \<times> string) set" where
  "typesOf r = {(i, t). kindOf r i = Some t}"

definition agree :: "rkey list \<Rightarrow> redis \<Rightarrow> redis \<Rightarrow> bool" where
  "agree ks r0 r \<longleftrightarrow> (\<forall>k \<in> set ks. r k = r0 k)"

definition stepTo :: "redis \<Rightarrow> string set \<Rightarrow> tree_sys \<Rightarrow> tree_sys" where
  "stepTo r R s = \<lparr>sy_store = r, sy_reserved = R, sy_seen = sy_seen s \<union> typesOf r\<rparr>"

text \<open>
  One step: an allocation, the execution of a transaction whose reads were made in an earlier store
  that agrees on the watched keys, a script, or anything that concerns neither inodes nor directories.
  A rename must not move an inode below itself, nor onto itself.
\<close>

inductive tree_step :: "tree_sys \<Rightarrow> tree_sys \<Rightarrow> bool" where
  alloc: "incrNext (sy_store s) = Some (i, r) \<Longrightarrow> tree_step s (stepTo r (insert i (sy_reserved s)) s)"
| create: "in_id i \<in> sy_reserved s \<Longrightarrow> in_parent i = d \<Longrightarrow> (d, ''dir'') \<in> sy_seen s
    \<Longrightarrow> createBody env p d i now r0 = Inr (cmds, v) \<Longrightarrow> agree [KDirents d, KInode d] r0 (sy_store s)
    \<Longrightarrow> tree_step s (stepTo (runAll cmds (sy_store s)) (sy_reserved s - {in_id i}) s)"
| publish: "publishLabels a \<Longrightarrow> pa_stage a = KStage (pa_inode a) tok \<Longrightarrow> (pa_parent a, ''dir'') \<in> sy_seen s
    \<Longrightarrow> (if pa_create a then pa_inode a \<in> sy_reserved s else (pa_inode a, ''file'') \<in> sy_seen s)
    \<Longrightarrow> tree_step s (stepTo (snd (publishFileScript a (sy_store s))) (sy_reserved s - {pa_inode a}) s)"
| delete: "tree_step s (stepTo (snd (deleteInodeScript a (sy_store s))) (sy_reserved s) s)"
| update: "(ua_inode a, t) \<in> sy_seen s \<Longrightarrow> map_of (rev (ua_fields a)) ''type'' \<in> {None, Some t}
    \<Longrightarrow> map_of (rev (ua_fields a)) ''parent'' \<in> {None, Some (ua_parent a)}
    \<Longrightarrow> map_of (rev (ua_fields a)) ''name'' \<in> {None, Some (ua_name a)}
    \<Longrightarrow> tree_step s (stepTo (snd (updateInodeScript a (sy_store s))) (sy_reserved s) s)"
| rename: "typesOf r0 \<subseteq> sy_seen s \<Longrightarrow> (np, ''dir'') \<in> sy_seen s
    \<Longrightarrow> renameBody env rsrc src dst np flags w now r0 = Inr (cmds, v)
    \<Longrightarrow> agree (renameKeys src np w) r0 (sy_store s)
    \<Longrightarrow> \<not> below (edgesOf (sy_store s)) (in_id src) np \<Longrightarrow> edgesOf (sy_store s) np (baseName dst) \<noteq> Some (in_id src)
    \<Longrightarrow> tree_step s (stepTo (runAll cmds (sy_store s)) (sy_reserved s) s)"
| quiet: "sameTree (sy_store s) r \<Longrightarrow> r KNextInode = sy_store s KNextInode
    \<Longrightarrow> tree_step s (stepTo r (sy_reserved s) s)"

text \<open>Ids are decimal numbers up to the counter, none is used twice, and an inode keeps its type.\<close>

definition numbered :: "int \<Rightarrow> string set \<Rightarrow> bool" where
  "numbered n A \<longleftrightarrow> (\<forall>i \<in> A. \<exists>k \<le> n. i = intText k)"

lemma numbered_mono: "numbered m A \<Longrightarrow> m \<le> n \<Longrightarrow> numbered n A"
  unfolding numbered_def by (meson order_trans)

lemma numbered_insert: "numbered n (insert i A) \<longleftrightarrow> (\<exists>k \<le> n. i = intText k) \<and> numbered n A"
  by (simp add: numbered_def)

definition idsOk :: "tree_sys \<Rightarrow> bool" where
  "idsOk s \<longleftrightarrow> (\<exists>n. sy_store s KNextInode = Some (RString (intText n))
       \<and> numbered n (fst ` sy_seen s \<union> sy_reserved s))
     \<and> sy_reserved s \<inter> fst ` sy_seen s = {} \<and> typesOf (sy_store s) \<subseteq> sy_seen s
     \<and> (\<forall>(i, t) \<in> sy_seen s. i \<in> liveIds (sy_store s) \<longrightarrow> kindOf (sy_store s) i = Some t)"

definition sysOk :: "tree_sys \<Rightarrow> bool" where
  "sysOk s \<longleftrightarrow> treeOk (sy_store s) \<and> idsOk s"

lemma treeOk_typed:
  assumes "treeOk r" and "i \<in> liveIds r"
  shows "\<exists>t. kindOf r i = Some t"
  using wfTreeD(6) [OF treeOk_wf [OF assms(1)] assms(2)]
proof cases
  case (below_step d n)
  then show ?thesis using treeOk_labels(4) [OF assms(1)] by (auto simp: kindOf_def)
qed (use assms(1) in \<open>simp add: treeOk_def kindOf_def\<close>)

lemma idsOk_disjoint: "idsOk s \<Longrightarrow> i \<in> sy_reserved s \<Longrightarrow> (i, t) \<notin> sy_seen s"
  unfolding idsOk_def by force

lemma idsOk_seen: "idsOk s \<Longrightarrow> kindOf (sy_store s) i = Some t \<Longrightarrow> (i, t) \<in> sy_seen s"
  unfolding idsOk_def typesOf_def by blast

lemma idsOk_type:
  "idsOk s \<Longrightarrow> (i, t) \<in> sy_seen s \<Longrightarrow> i \<in> liveIds (sy_store s) \<Longrightarrow> kindOf (sy_store s) i = Some t"
  unfolding idsOk_def by blast

lemma idsOk_counter:
  assumes "idsOk s"
  obtains n where "sy_store s KNextInode = Some (RString (intText n))" "numbered n (fst ` sy_seen s \<union> sy_reserved s)"
  using assms unfolding idsOk_def by blast

lemma intText_inj: "intText m = intText n \<Longrightarrow> m = n"
  by (metis decimal_intText option.inject)

text \<open>What is needed of a step for the ids: where the live inodes of the next store come from.\<close>

lemma idsOk_step:
  assumes s: "idsOk s" and tree: "treeOk r"
    and nxt: "r KNextInode = sy_store s KNextInode" and R: "R \<subseteq> sy_reserved s" "R \<inter> liveIds r = {}"
    and live: "\<And>i. i \<in> liveIds r \<Longrightarrow> i \<in> sy_reserved s - R
      \<or> i \<in> liveIds (sy_store s) \<and> kindOf r i = kindOf (sy_store s) i"
  shows "idsOk (stepTo r R s)"
proof -
  have origin: "i \<in> sy_reserved s - R \<or> (i, t) \<in> sy_seen s" if "kindOf r i = Some t" for i t
    using live [OF kindOf_live [OF that]] idsOk_seen [OF s] that by auto
  have keeps: "kindOf r i = Some t" if "(i, t) \<in> sy_seen s" "i \<in> liveIds r" for i t
    using live [OF that(2)] idsOk_disjoint [OF s] idsOk_type [OF s that(1)] that(1) by auto
  obtain n where n: "sy_store s KNextInode = Some (RString (intText n))"
    and ids: "numbered n (fst ` sy_seen s \<union> sy_reserved s)"
    using s by (rule idsOk_counter)
  have "i \<in> fst ` sy_seen s \<union> sy_reserved s" if i: "i \<in> fst ` (sy_seen s \<union> typesOf r) \<union> R" for i
  proof -
    from i consider "i \<in> R" | "i \<in> fst ` sy_seen s" | t where "kindOf r i = Some t"
      by (auto simp: typesOf_def)
    then show ?thesis
      by cases (use R(1) origin in \<open>force+\<close>)
  qed
  with ids n nxt have counter: "\<exists>n. r KNextInode = Some (RString (intText n))
      \<and> numbered n (fst ` (sy_seen s \<union> typesOf r) \<union> R)"
    unfolding numbered_def by (intro exI [of _ n]) (metis numbered_def)
  have "(i, t) \<notin> sy_seen s \<union> typesOf r" if "i \<in> R" for i t
  proof
    assume "(i, t) \<in> sy_seen s \<union> typesOf r"
    then show False
    proof
      assume "(i, t) \<in> typesOf r"
      then have "i \<in> liveIds r" by (auto simp: typesOf_def intro: kindOf_live)
      with R(2) that show False by blast
    qed (use idsOk_disjoint [OF s] R(1) that in blast)
  qed
  then have disjoint: "R \<inter> fst ` (sy_seen s \<union> typesOf r) = {}" by force
  have "\<forall>(i, t) \<in> sy_seen s \<union> typesOf r. i \<in> liveIds r \<longrightarrow> kindOf r i = Some t"
    using keeps by (auto simp: typesOf_def)
  with counter disjoint show ?thesis by (simp add: idsOk_def stepTo_def)
qed

subsection \<open>Every step keeps the invariant\<close>

lemma live_seen:
  assumes "sysOk s" and "i \<in> liveIds (sy_store s)"
  shows "\<exists>t. kindOf (sy_store s) i = Some t \<and> (i, t) \<in> sy_seen s"
  using assms treeOk_typed [of "sy_store s" i] idsOk_seen [of s i] by (auto simp: sysOk_def)

lemma reserved_dead: "sysOk s \<Longrightarrow> i \<in> sy_reserved s \<Longrightarrow> i \<notin> liveIds (sy_store s)"
  using live_seen idsOk_disjoint unfolding sysOk_def by blast

lemma seen_kind:
  assumes "sysOk s" and "(i, t) \<in> sy_seen s" and "sy_store s (KInode i) \<noteq> None"
  shows "hget (sy_store s) (KInode i) ''type'' = Some t"
  using idsOk_type [of s i t] assms by (simp add: sysOk_def kindOf_def liveIds_def)

lemma sysOk_stepI:
  assumes s: "sysOk s" and tree: "treeOk r" and "r KNextInode = sy_store s KNextInode" and R: "R \<subseteq> sy_reserved s"
    and nodes: "keepsNodes (sy_reserved s - R) (sy_store s) r"
  shows "sysOk (stepTo r R s)"
proof -
  have live: "i \<in> sy_reserved s - R \<or> i \<in> liveIds (sy_store s) \<and> kindOf r i = kindOf (sy_store s) i"
    if "i \<in> liveIds r" for i
    using nodes that unfolding keepsNodes_def kindOf_def by blast
  have "R \<inter> liveIds r = {}" using live reserved_dead [OF s] R by blast
  with s tree assms(3) R live have "idsOk (stepTo r R s)" unfolding sysOk_def by (blast intro: idsOk_step)
  with tree show ?thesis by (simp add: sysOk_def stepTo_def)
qed

lemma sysOk_same:
  assumes "sysOk s" and "sameTree (sy_store s) r" and "r KNextInode = sy_store s KNextInode"
  shows "sysOk (stepTo r (sy_reserved s) s)"
proof -
  have "treeOk r" using assms(1,2) treeOk_same by (auto simp: sysOk_def)
  then show ?thesis using assms(1,3) keepsNodes_same [OF assms(2)] by (intro sysOk_stepI) simp_all
qed

lemma alloc_step:
  assumes s: "sysOk s" and inc: "incrNext (sy_store s) = Some (i, r)"
  shows "sysOk (stepTo r (insert i (sy_reserved s)) s)"
proof -
  have ids: "idsOk s" and tree: "treeOk (sy_store s)" using s by (simp_all add: sysOk_def)
  obtain n where n: "sy_store s KNextInode = Some (RString (intText n))" "numbered n (fst ` sy_seen s \<union> sy_reserved s)"
    using ids by (rule idsOk_counter)
  then have i: "i = intText (n + 1)" "r = (sy_store s)(KNextInode \<mapsto> RString i)"
    using inc by (auto simp: incrNext_def split: if_splits)
  have "i \<notin> fst ` sy_seen s \<union> sy_reserved s"
  proof
    assume "i \<in> fst ` sy_seen s \<union> sy_reserved s"
    then obtain k where "k \<le> n" "intText (n + 1) = intText k" using n(2) i(1) unfolding numbered_def by metis
    then show False using intText_inj by force
  qed
  then have fresh: "i \<notin> fst ` sy_seen s" by blast
  have same: "sameTree (sy_store s) r" unfolding i(2) by auto
  have types: "typesOf r = typesOf (sy_store s)"
    using same by (auto simp: typesOf_def kindOf_def sameTree_def sameTags_def tagFields_def)
  have kind: "kindOf r j = kindOf (sy_store s) j" "liveIds r = liveIds (sy_store s)" for j
    using same by (simp_all add: kindOf_def sameTree_def sameTags_def tagFields_def)
  have seen: "sy_seen s \<union> typesOf r = sy_seen s" using ids unfolding idsOk_def types by blast
  have "numbered (n + 1) (insert i (fst ` sy_seen s \<union> sy_reserved s))"
    unfolding numbered_insert using numbered_mono [OF n(2)] i(1) by auto
  then have "numbered (n + 1) (fst ` sy_seen s \<union> insert i (sy_reserved s))" by (simp add: Un_insert_right)
  moreover have "r KNextInode = Some (RString (intText (n + 1)))" by (simp add: i)
  ultimately have "\<exists>n. r KNextInode = Some (RString (intText n)) \<and> numbered n (fst ` sy_seen s \<union> insert i (sy_reserved s))"
    by blast
  moreover have "insert i (sy_reserved s) \<inter> fst ` sy_seen s = {}" "typesOf r \<subseteq> sy_seen s"
    using ids fresh seen unfolding idsOk_def by blast+
  moreover have "\<forall>(j, t) \<in> sy_seen s. j \<in> liveIds r \<longrightarrow> kindOf r j = Some t" using ids by (simp add: idsOk_def kind)
  ultimately have "idsOk (stepTo r (insert i (sy_reserved s)) s)" by (simp add: idsOk_def stepTo_def seen)
  moreover have "treeOk r" using same tree by (rule treeOk_same)
  ultimately show ?thesis by (simp add: sysOk_def stepTo_def)
qed

lemma create_step:
  assumes s: "sysOk s" and res: "in_id i \<in> sy_reserved s" and up: "in_parent i = d" and dir: "(d, ''dir'') \<in> sy_seen s"
    and body: "createBody env p d i now r0 = Inr (cmds, v)" and ag: "agree [KDirents d, KInode d] r0 (sy_store s)"
  shows "sysOk (stepTo (runAll cmds (sy_store s)) (sy_reserved s - {in_id i}) s)"
proof -
  let ?r = "sy_store s"
  have same: "?r (KDirents d) = r0 (KDirents d)" "?r (KInode d) = r0 (KInode d)" using ag by (simp_all add: agree_def)
  from body have cmds: "cmds = createCmds env p d i now" and b: "r0 (KInode d) \<noteq> None" "isHashOrNone r0 (KDirents d)"
    "hget r0 (KDirents d) (in_name i) = None"
    by (auto simp: createBody_def split: if_splits)
  have kind: "hget ?r (KInode d) ''type'' = Some ''dir''" using seen_kind [OF s dir] b(1) same(2) by simp
  have free: "edgesOf ?r d (in_name i) = None" using b(3) hget_cong [of ?r "KDirents d" r0] same(1) by (simp add: edgesOf_def)
  have hash: "isHashOrNone ?r (KDirents d)" using b(2) isHashOrNone_cong [of ?r "KDirents d" r0] same(1) by simp
  have tree: "treeOk ?r" using s by (simp add: sysOk_def)
  note c = createCmds_tree [OF tree kind reserved_dead [OF s res] free hash up, of env p now]
  have nodes: "keepsNodes (sy_reserved s - (sy_reserved s - {in_id i})) ?r (runAll (createCmds env p d i now) ?r)"
  proof -
    have "sy_reserved s - (sy_reserved s - {in_id i}) = {in_id i}" using res by blast
    with c(2) show ?thesis by simp
  qed
  have "runAll (createCmds env p d i now) ?r KNextInode = ?r KNextInode"
    by (rule runAll_other) (simp add: createCmds_def queueWriteFull_def queueTouchTimes_def queueCreateInfo_def queueInvalidation_def Let_def)
  with c(1) nodes show ?thesis unfolding cmds by (intro sysOk_stepI [OF s]) auto
qed

lemma KNextInode_tail [simp]:
  "hset (KInode i) f v r KNextInode = r KNextInode" "hset (KDirents i) f v r KNextInode = r KNextInode"
  "hsetAll (KInode i) fvs r KNextInode = r KNextInode" "hdel (KDirents i) f r KNextInode = r KNextInode"
  "hdel (KInode i) f r KNextInode = r KNextInode" "sadd KDirtySet x r KNextInode = r KNextInode"
  "xadd KChanges x r KNextInode = r KNextInode"
  by simp_all

lemma KNextInode_incr: "hincrby KInfo f d r = Some r' \<Longrightarrow> r' KNextInode = r KNextInode"
  by (rule hincrby_other) simp_all

lemma deleteEffect_next: "snd (deleteEffect a r) KNextInode = r KNextInode"
  by (auto simp: deleteEffect_def Let_def split: option.splits if_splits dest!: KNextInode_incr)

lemma publishEffect_next:
  assumes "publishCode a r = 1" and st: "pa_stage a = KStage (pa_inode a) tok"
  shows "publishEffect a r KNextInode = r KNextInode"
proof -
  define inode where "inode = KInode (pa_inode a)"
  define live where "live = KContent (pa_inode a)"
  define r1 where "r1 = (if r live \<noteq> None then renameKey live (KRetired (pa_revision a)) r else r)"
  define r2 where "r2 = (if pa_size a = 0 then r1(pa_stage a := None) else renameKey (pa_stage a) live r1)"
  define r4 where "r4 = hdel inode ''content'' (hset inode ''revision'' (pa_revision a) (hsetAll inode (pa_fields a) r2))"
  define rl where "rl = (if hget r4 (KDirents (pa_parent a)) (pa_name a) = None
      then hset (KDirents (pa_parent a)) (pa_name a) (pa_inode a) r4 else r4)"
  define rf where "rf = the (hincrby KInfo ''files'' 1 rl)"
  define r5 where "r5 = (if pa_create a then hset (KInode (pa_parent a)) ''ctime_ms'' (pa_mtime a)
      (hset (KInode (pa_parent a)) ''mtime_ms'' (pa_mtime a) rf) else r4)"
  define r6 where "r6 = the (hincrby KInfo ''total_data_bytes'' (pa_size a - the (decimal (hgetOr r inode ''size'' ''0''))) r5)"
  have r': "publishEffect a r = (let r7 = sadd KDirtySet (pa_inode a) (r6(KRootDirty \<mapsto> RString ''1'')) in
      (if pa_payload a \<noteq> [] then xadd KChanges (pa_payload a) r7 else r7)(KReceipt (pa_revision a) \<mapsto> RString (pa_digest a)))"
    unfolding publishEffect_def Let_def r6_def r5_def rf_def rl_def r4_def r2_def r1_def inode_def live_def by (rule refl)
  have i: "isHashOrNone r KInfo" "f \<in> {''files'', ''total_data_bytes''} \<Longrightarrow> decimal (hgetOr r KInfo f ''0'') \<noteq> None" for f
    using publishCode_one(2) [OF assms(1)] by (auto simp: malformed_def smallInt_def split: option.splits)
  have k4: "r4 KInfo = r KInfo" "r4 KNextInode = r KNextInode"
    by (simp_all add: r4_def inode_def r2_def r1_def renameKey_def live_def st)
  then have kl: "rl KInfo = r KInfo" "rl KNextInode = r KNextInode" by (simp_all add: rl_def)
  obtain q where q: "hincrby KInfo ''files'' 1 rl = Some q" "isHashOrNone q KInfo"
    "decimal (hgetOr q KInfo ''total_data_bytes'' ''0'') \<noteq> None"
    using hincrby_chain [of r rl 1] i kl(1) by blast
  have k5: "r5 KNextInode = r KNextInode" "r5 KInfo = (if pa_create a then q KInfo else r KInfo)"
    using KNextInode_incr [OF q(1)] kl k4 by (simp_all add: r5_def rf_def q(1))
  then have "isHashOrNone r5 KInfo" "decimal (hgetOr r5 KInfo ''total_data_bytes'' ''0'') \<noteq> None"
    using q(2,3) i by (simp_all add: isHashOrNone_def hgetOr_def hget_def hashAt_def)
  then obtain t where t: "hincrby KInfo ''total_data_bytes'' (pa_size a - the (decimal (hgetOr r inode ''size'' ''0''))) r5 = Some t"
    using hincrby_info by blast
  have "r6 KNextInode = r KNextInode" using KNextInode_incr [OF t] k5(1) by (simp add: r6_def t)
  then show ?thesis by (simp add: r' Let_def)
qed

lemma publish_step:
  assumes s: "sysOk s" and lab: "publishLabels a" and st: "pa_stage a = KStage (pa_inode a) tok"
    and dir: "(pa_parent a, ''dir'') \<in> sy_seen s"
    and node: "if pa_create a then pa_inode a \<in> sy_reserved s else (pa_inode a, ''file'') \<in> sy_seen s"
  shows "sysOk (stepTo (snd (publishFileScript a (sy_store s))) (sy_reserved s - {pa_inode a}) s)"
proof (cases "publishCode a (sy_store s) = 1")
  case True
  let ?r = "sy_store s"
  have tree: "treeOk ?r" using s by (simp add: sysOk_def)
  note one = publishCode_one [OF True]
  have kind: "hget ?r (KInode (pa_parent a)) ''type'' = Some ''dir''" using seen_kind [OF s dir one(5)] .
  have n: "if pa_create a then pa_inode a \<notin> liveIds ?r else hget ?r (KInode (pa_inode a)) ''type'' = Some ''file''"
  proof (cases "pa_create a")
    case False
    with node one(7) have "(pa_inode a, ''file'') \<in> sy_seen s" "?r (KInode (pa_inode a)) \<noteq> None" by simp_all
    then show ?thesis using seen_kind [OF s] False by simp
  qed (use node reserved_dead [OF s] in auto)
  note p = publish_tree [OF tree True st lab kind n]
  have "keepsNodes (sy_reserved s - (sy_reserved s - {pa_inode a})) ?r (publishEffect a ?r)"
  proof (cases "pa_create a")
    case True
    then have "sy_reserved s - (sy_reserved s - {pa_inode a}) = {pa_inode a}" using node by auto
    with p(2) True show ?thesis by simp
  qed (use p(2) in \<open>simp add: keepsNodes_def\<close>)
  with p(1) publishEffect_next [OF True st] have "sysOk (stepTo (publishEffect a ?r) (sy_reserved s - {pa_inode a}) s)"
    by (intro sysOk_stepI [OF s]) auto
  then show ?thesis using True by (simp add: publishFileScript_def)
next
  case False
  have "keepsNodes (sy_reserved s - (sy_reserved s - {pa_inode a})) (sy_store s) (sy_store s)" by (simp add: keepsNodes_same)
  then have "sysOk (stepTo (sy_store s) (sy_reserved s - {pa_inode a}) s)"
    using s by (intro sysOk_stepI) (auto simp: sysOk_def)
  then show ?thesis using False by (simp add: publishFileScript_def Let_def)
qed

lemma delete_step:
  assumes s: "sysOk s"
  shows "sysOk (stepTo (snd (deleteInodeScript a (sy_store s))) (sy_reserved s) s)"
proof (cases "deleteCode a (sy_store s) = Some 1")
  case True
  have "treeOk (sy_store s)" using s by (simp add: sysOk_def)
  from delete_tree [OF this True] have "sysOk (stepTo (snd (deleteEffect a (sy_store s))) (sy_reserved s) s)"
    by (intro sysOk_stepI [OF s]) (simp_all add: deleteEffect_next)
  then show ?thesis using True by (simp add: deleteInodeScript_def)
qed (use sysOk_same [OF s sameTree_refl] in \<open>simp add: deleteInodeScript_def\<close>)

lemma update_step:
  assumes s: "sysOk s" and seen: "(ua_inode a, t) \<in> sy_seen s" and t: "map_of (rev (ua_fields a)) ''type'' \<in> {None, Some t}"
    and p: "map_of (rev (ua_fields a)) ''parent'' \<in> {None, Some (ua_parent a)}"
    and n: "map_of (rev (ua_fields a)) ''name'' \<in> {None, Some (ua_name a)}"
  shows "sysOk (stepTo (snd (updateInodeScript a (sy_store s))) (sy_reserved s) s)"
proof -
  let ?r = "sy_store s"
  have tree: "treeOk ?r" using s by (simp add: sysOk_def)
  have "keepsLabels (ua_inode a) (ua_fields a) ?r" if one: "updateCode a ?r = Some 1"
  proof -
    have live: "?r (KInode (ua_inode a)) \<noteq> None"
      and link: "ua_inode a \<noteq> ''1'' \<Longrightarrow> edgesOf ?r (ua_parent a) (ua_name a) = Some (ua_inode a)"
      using one by (auto simp: updateCode_def edgesOf_def Let_def split: if_splits)
    show ?thesis
      using seen_kind [OF s seen live] treeOk_labels(2,3) [OF tree link] t p n
      by (auto simp: keepsLabels_def tagFields_def)
  qed
  then have "sameTree ?r (snd (updateInodeScript a ?r))" by (rule update_tree)
  moreover have "snd (updateInodeScript a ?r) KNextInode = ?r KNextInode"
    by (simp add: updateInodeScript_def Let_def)
  ultimately show ?thesis by (rule sysOk_same [OF s])
qed

lemma renameTarget_InrD:
  assumes "renameTarget cur np nn flags w r = Inr replaced"
  shows "isHashOrNone r (KDirents np)"
    and "case replaced of None \<Rightarrow> hget r (KDirents np) nn = None
      | Some x \<Rightarrow> hget r (KDirents np) nn = Some (in_id x) \<and> hget r (KInode (in_id x)) ''type'' = Some (in_type x)
          \<and> (in_type x = ''dir'' \<longrightarrow> w = in_id x \<and> r (KDirents (in_id x)) = None)"
  using assms
  by (auto simp: renameTarget_def lookupChildID_def loadInodeByID_def inodeFromValues_def hget_def
      split: if_splits option.splits sum.splits)

lemma renameBody_InrD:
  assumes "renameBody env rs src dst np flags w now r = Inr (cmds, v)"
  obtains replaced cur where
    "cmds = renameCmds env rs dst (in_id src) (in_parent src) (in_name src) np (baseName dst) now replaced"
    "r (KInode np) \<noteq> None" "hget r (KDirents (in_parent src)) (in_name src) = Some (in_id src)"
    "renameTarget cur np (baseName dst) flags w r = Inr replaced"
  using assms
  by (auto simp: renameBody_def lookupChildID_def loadInodeByID_def inodeFromValues_def
      split: if_splits option.splits sum.splits)

lemma rename_step:
  assumes s: "sysOk s" and old: "typesOf r0 \<subseteq> sy_seen s" and dir: "(np, ''dir'') \<in> sy_seen s"
    and body: "renameBody env rs src dst np flags w now r0 = Inr (cmds, v)"
    and ag: "agree (renameKeys src np w) r0 (sy_store s)"
    and up: "\<not> below (edgesOf (sy_store s)) (in_id src) np"
    and self: "edgesOf (sy_store s) np (baseName dst) \<noteq> Some (in_id src)"
  shows "sysOk (stepTo (runAll cmds (sy_store s)) (sy_reserved s) s)"
proof -
  let ?r = "sy_store s"
  have tree: "treeOk ?r" using s by (simp add: sysOk_def)
  note wf = treeOk_wf [OF tree]
  obtain replaced cur where cmds: "cmds = renameCmds env rs dst (in_id src) (in_parent src) (in_name src) np (baseName dst) now replaced"
    and np: "r0 (KInode np) \<noteq> None" and link: "hget r0 (KDirents (in_parent src)) (in_name src) = Some (in_id src)"
    and target: "renameTarget cur np (baseName dst) flags w r0 = Inr replaced"
    using body by (rule renameBody_InrD)
  note tg = renameTarget_InrD [OF target]
  have same: "?r (KDirents (in_parent src)) = r0 (KDirents (in_parent src))" "?r (KDirents np) = r0 (KDirents np)"
    "?r (KInode np) = r0 (KInode np)" "w \<noteq> [] \<Longrightarrow> ?r (KDirents w) = r0 (KDirents w)"
    using ag by (simp_all add: agree_def renameKeys_def)
  have src: "edgesOf ?r (in_parent src) (in_name src) = Some (in_id src)"
    using link hget_cong [of ?r "KDirents (in_parent src)" r0] same(1) by (simp add: edgesOf_def)
  have kind: "hget ?r (KInode np) ''type'' = Some ''dir''" using seen_kind [OF s dir] np same(3) by simp
  have hash: "isHashOrNone ?r (KDirents np)" using tg(1) isHashOrNone_cong [of ?r "KDirents np" r0] same(2) by simp
  have edge: "edgesOf ?r np n = hget r0 (KDirents np) n" for n
    using hget_cong [of ?r "KDirents np" r0] same(2) by (simp add: edgesOf_def)
  have leaf: "edgesOf ?r (in_id x) m = None" if x: "replaced = Some x" for x m
  proof (cases "in_type x = ''dir''")
    case True
    have live: "in_id x \<in> liveIds ?r" using tg(2) x edge wfTreeD(4) [OF wf, of np "baseName dst"] by simp
    then have "in_id x \<in> fst ` sy_seen s" using live_seen [OF s] by force
    moreover obtain n where "numbered n (fst ` sy_seen s \<union> sy_reserved s)"
      using s idsOk_counter [of s] by (auto simp: sysOk_def)
    ultimately obtain k where "in_id x = intText k" unfolding numbered_def by blast
    then have "in_id x \<noteq> []" using decimal_intText [of k] by (auto simp: decimal_def natVal_def)
    with True tg(2) x same(4) have "?r (KDirents (in_id x)) = None" by simp
    then show ?thesis by (simp add: edgesOf_def hget_def hashAt_def)
  next
    case False
    have "(in_id x, in_type x) \<in> sy_seen s" using old tg(2) x by (auto simp: typesOf_def kindOf_def)
    moreover have "?r (KInode (in_id x)) \<noteq> None"
      using tg(2) x edge wfTreeD(4) [OF wf, of np "baseName dst"] by (simp add: liveIds_def)
    ultimately have "hget ?r (KInode (in_id x)) ''type'' = Some (in_type x)" by (rule seen_kind [OF s])
    then show ?thesis using treeOk_labels(1) [OF tree, of "in_id x" m] False by (cases "edgesOf ?r (in_id x) m") auto
  qed
  have repl: "case replaced of None \<Rightarrow> edgesOf ?r np (baseName dst) = None
      | Some x \<Rightarrow> edgesOf ?r np (baseName dst) = Some (in_id x) \<and> in_id x \<noteq> in_id src \<and> (\<forall>m. edgesOf ?r (in_id x) m = None)"
    using tg(2) edge self leaf by (auto split: option.splits)
  note c = renameCmds_tree [OF tree src kind hash up repl, of env rs dst now, folded cmds]
  have "runAll cmds ?r KNextInode = ?r KNextInode" unfolding cmds
    by (rule runAll_other) (simp add: renameCmds_def queueTouchTimes_def queueDeleteInfo_def queueInvalidation_def
        queueQueryDeleted_def Let_def split: option.splits)
  with c show ?thesis by (intro sysOk_stepI [OF s]) simp_all
qed

lemma tree_step_ok: "tree_step s s' \<Longrightarrow> sysOk s \<Longrightarrow> sysOk s'"
proof (induction rule: tree_step.induct)
  case alloc then show ?case by (intro alloc_step)
next
  case create then show ?case by (intro create_step)
next
  case publish then show ?case by (intro publish_step)
next
  case delete then show ?case by (intro delete_step)
next
  case update then show ?case by (intro update_step)
next
  case rename then show ?case by (intro rename_step)
next
  case quiet then show ?case by (intro sysOk_same)
qed


subsection \<open>What a rename does\<close>


subsection \<open>The example tree\<close>

lemma exampleTree_edges:
  "edgesOf exampleTree d n = Some i \<longleftrightarrow>
     (d, n, i) \<in> {(''1'', ''a'', ''2''), (''1'', ''l'', ''3''), (''2'', ''f'', ''4'')}"
  by (auto simp: edgesOf_def hget_def hashAt_def exampleTree_def exampleNode_def split: if_splits)

lemma exampleTree_live: "liveIds exampleTree = {''1'', ''2'', ''3'', ''4''}"
  by (auto simp: liveIds_def exampleTree_def split: if_splits)

lemma exampleTree_fields:
  "hget exampleTree (KInode ''1'') ''type'' = Some ''dir''"
  "hget exampleTree (KInode ''2'') ''type'' = Some ''dir''" "hget exampleTree (KInode ''2'') ''parent'' = Some ''1''"
  "hget exampleTree (KInode ''2'') ''name'' = Some ''a''"
  "hget exampleTree (KInode ''3'') ''type'' = Some ''symlink''" "hget exampleTree (KInode ''3'') ''parent'' = Some ''1''"
  "hget exampleTree (KInode ''3'') ''name'' = Some ''l''"
  "hget exampleTree (KInode ''4'') ''type'' = Some ''file''" "hget exampleTree (KInode ''4'') ''parent'' = Some ''2''"
  "hget exampleTree (KInode ''4'') ''name'' = Some ''f''"
  by (simp_all add: hget_def hashAt_def exampleTree_def exampleNode_def)

lemma exampleTree_ok: "treeOk exampleTree"
proof -
  have e: "edgesOf exampleTree ''1'' ''a'' = Some ''2''" "edgesOf exampleTree ''1'' ''l'' = Some ''3''"
    "edgesOf exampleTree ''2'' ''f'' = Some ''4''"
    by (simp_all add: exampleTree_edges)
  have "below (edgesOf exampleTree) ''1'' ''2''" "below (edgesOf exampleTree) ''1'' ''3''"
    using e below_step [OF below_refl] by blast+
  moreover from this(1) have "below (edgesOf exampleTree) ''1'' ''4''" using e(3) by (rule below_step)
  ultimately have "wfTree (edgesOf exampleTree) (liveIds exampleTree)"
    by (intro wfTreeI) (auto simp: exampleTree_edges exampleTree_live below_refl)
  moreover have "labelled exampleTree"
    by (auto simp: labelled_def exampleTree_edges exampleTree_fields)
  ultimately show ?thesis by (simp add: treeOk_def exampleTree_fields)
qed

definition exampleSys :: tree_sys where
  "exampleSys = \<lparr>sy_store = exampleTree, sy_reserved = {}, sy_seen = typesOf exampleTree\<rparr>"

lemma exampleIds: "intText 1 = ''1''" "intText 2 = ''2''" "intText 3 = ''3''" "intText 4 = ''4''" "intText 5 = ''5''"
  by code_simp+

lemma exampleSys_ok: "sysOk exampleSys"
proof -
  have "fst ` typesOf exampleTree \<subseteq> liveIds exampleTree" unfolding typesOf_def using kindOf_live by fastforce
  then have "fst ` typesOf exampleTree \<subseteq> {''1'', ''2'', ''3'', ''4''}" unfolding exampleTree_live .
  moreover have "numbered 4 {''1'', ''2'', ''3'', ''4''}"
    unfolding numbered_insert
    by (intro conjI exI [of _ 1] exI [of _ 2] exI [of _ 3] exI [of _ 4]) (simp_all add: exampleIds numbered_def)
  ultimately have "numbered 4 (fst ` typesOf exampleTree)" unfolding numbered_def by blast
  moreover have "exampleTree KNextInode = Some (RString (intText 4))"
    by (simp add: exampleTree_def exampleIds)
  ultimately show ?thesis
    by (auto simp: sysOk_def idsOk_def exampleSys_def exampleTree_ok typesOf_def)
qed


subsection \<open>Renames that break the tree\<close>

text \<open>A client that works alone; the directory \<open>2\<close> lists \<open>f\<close> and \<open>x\<close>.\<close>

definition exampleTreeEnv :: tree_env where
  "exampleTreeEnv = \<lparr>te_try = \<lambda>_. \<lparr>tx_before = id, tx_during = []\<rparr>, te_now = \<lambda>_. 0, te_payload = \<lambda>_ _. [],
     te_preferred = ''ext'', te_dirtySent = \<lambda>_. True, te_revision = \<lambda>_. ''r'', te_stale = [],
     te_order = \<lambda>i. if i = ''2'' then [''f'', ''x''] else []\<rparr>"

lemma alone_loop:
  "body r = Inr (cmds, v) \<Longrightarrow> retryLoop (Suc n) exampleTreeEnv emptyContext keys body (k, r)
    = (if fst (execAll cmds r) then Inr v else Inl (StopErr wrongType), k + 1, runAll cmds r)"
  "body r = Inl (StopErr e) \<Longrightarrow> retryLoop (Suc n) exampleTreeEnv emptyContext keys body (k, r) = (Inl (StopErr e), k + 1, r)"
proof -
  have "txGuard emptyContext r = None" by (simp add: txGuard_def emptyContext_def watchExpectedParents_def)
  then show "body r = Inr (cmds, v) \<Longrightarrow> retryLoop (Suc n) exampleTreeEnv emptyContext keys body (k, r)
      = (if fst (execAll cmds r) then Inr v else Inl (StopErr wrongType), k + 1, runAll cmds r)"
    "body r = Inl (StopErr e) \<Longrightarrow> retryLoop (Suc n) exampleTreeEnv emptyContext keys body (k, r) = (Inl (StopErr e), k + 1, r)"
    by (simp_all add: exampleTreeEnv_def applyWrites_def split_beta Let_def)
qed

lemma alone_try:
  "body r = Inr (cmds, v) \<Longrightarrow> retryWatch exampleTreeEnv emptyContext keys body (k, r)
    = (if fst (execAll cmds r) then Inr v else Inl (StopErr wrongType), k + 1, runAll cmds r)"
  "body r = Inl (StopErr e) \<Longrightarrow> retryWatch exampleTreeEnv emptyContext keys body (k, r) = (Inl (StopErr e), k + 1, r)"
  using alone_loop [where n = 15 and body = body and r = r] by (simp_all add: retryWatch_def)

text \<open>The walk over a subtree that contains itself never ends: no depth is enough.\<close>

lemma refresh_cycle:
  assumes "hget r (KDirents i) x = Some i" and "loadInodeByID r i = Inr (Some inode)" and "in_type inode = ''dir''"
    and "x \<in> set (te_order env i)"
  shows "refreshCmds n env r p i ''dir'' \<noteq> Some (Inr cs)"
proof (induction n arbitrary: p cs)
  case (Suc n)
  have "refreshEntries n env r p es \<noteq> Some (Inr ds)" if "(x, i) \<in> set es" for es ds
    using that
  proof (induction es arbitrary: ds)
    case (Cons e es)
    show ?case
    proof (cases "e = (x, i)")
      case True
      then show ?thesis using Suc assms(2,3) by (auto split: option.splits sum.splits)
    next
      case False
      then have "\<And>ds. refreshEntries n env r p es \<noteq> Some (Inr ds)" using Cons by auto
      then show ?thesis by (cases e) (auto split: option.splits sum.splits)
    qed
  qed simp
  moreover have "(x, i) \<in> set (map (\<lambda>x. (x, the (hget r (KDirents i) x))) (te_order env i))"
    using assms(1,4) by force
  ultimately show ?case by (auto simp: Let_def split: option.splits sum.splits)
qed simp

lemma example_paths:
  "resolvePath emptyContext exampleTree ''/a'' False = Inr (''/a'', exampleData ''2'' ''dir'' ''1'' ''a'' [])"
  "resolvePath emptyContext exampleTree ''/l'' True = Inr (''/a'', exampleData ''2'' ''dir'' ''1'' ''a'' [])"
proof -
  have link: "splitComponents (rebuildPath ''/'' ''a'' []) = [''a'']" by (simp add: path_eval)
  have parts: "splitComponents (normalizePath ''/a'') = [''a'']" "splitComponents (normalizePath ''/l'') = [''l'']"
    by (simp_all add: path_eval)
  show "resolvePath emptyContext exampleTree ''/a'' False = Inr (''/a'', exampleData ''2'' ''dir'' ''1'' ''a'' [])"
    "resolvePath emptyContext exampleTree ''/l'' True = Inr (''/a'', exampleData ''2'' ''dir'' ''1'' ''a'' [])"
    by (simp_all add: resolvePath_def checkGeneration_def emptyContext_def exampleTree_load resolveFrom.simps(2)
        exampleTree_lookup exampleData_def maxSymlinkDepth_def link parts joinPath_def)
qed

text \<open>
  \<open>Rename\<close> compares the new path with the source before it resolves the links of the new parent.
  Moving \<open>/a\<close> to \<open>/l/x\<close>, where \<open>/l\<close> links to \<open>/a\<close>, makes the directory its own child: it can
  no longer be reached from the root, and the call itself never comes back with success.
\<close>

theorem rename_below_itself:
  "\<exists>res k r. Rename depth exampleTreeEnv emptyContext ''/a'' ''/l/x'' 0 (0, exampleTree) = (res, k, r)
     \<and> res \<noteq> Some None \<and> hget r (KDirents ''2'') ''x'' = Some ''2'' \<and> hget r (KDirents ''1'') ''a'' = None
     \<and> \<not> treeOk r"
proof -
  define src where "src = exampleData ''2'' ''dir'' ''1'' ''a'' []"
  define moved where "moved = src\<lparr>in_parent := ''2'', in_name := ''x'', in_ctimeMs := 0\<rparr>"
  define cmds where "cmds = renameCmds exampleTreeEnv ''/a'' ''/l/x'' ''2'' ''1'' ''a'' ''2'' ''x'' 0 None"
  define links where "links = [CmdHDel (KDirents ''1'') ''a'', CmdHSet (KDirents ''2'') [(''x'', ''2'')],
      CmdHSet (KInode ''2'') [(''parent'', ''2''), (''name'', ''x''), (''ctime_ms'', intText 0), (''path'', ''/l/x''),
        (''path_ancestors'', indexedPathAncestors ''/l/x'')]]"
  define rest where "rest = queueTouchTimes ''1'' 0 @ queueTouchTimes ''2'' 0 @ [CmdSet KRootDirty ''1'']
      @ queueInvalidation exampleTreeEnv ''prefix'' [''/a'', ''/l/x'']"
  define r3 where "r3 = runAll links exampleTree"
  define r where "r = runAll cmds exampleTree"
  have norm: "normalizePath ''/a'' = ''/a''" "normalizePath ''/l/x'' = ''/l/x''" "dirOf ''/l/x'' = ''/l''" "baseName ''/l/x'' = ''x''"
    by (simp_all add: path_eval dirOf_def parentDir_def baseName_def pathBase_def)
  have body: "renameBody exampleTreeEnv ''/a'' src ''/l/x'' ''2'' 0 [] (te_now exampleTreeEnv 0) exampleTree = Inr (cmds, moved)"
  proof -
    have "lookupChildID exampleTree ''2'' ''x'' = Inl CRedisNil"
      by (simp add: lookupChildID_def exampleTree_def isHashOrNone_def hget_def hashAt_def)
    moreover have "exampleTree (KInode ''1'') \<noteq> None" "exampleTree (KInode ''2'') \<noteq> None" by (simp_all add: exampleTree_def)
    ultimately show ?thesis
      by (simp add: renameBody_def renameTarget_def exampleTree_lookup exampleTree_load norm src_def exampleData_def
          cmds_def moved_def exampleTreeEnv_def)
  qed
  have run: "r = runAll rest r3" by (simp add: r_def r3_def cmds_def renameCmds_def links_def rest_def)
  have l3: "edgesOf r3 = addEdge ''2'' ''x'' ''2'' (removeEdge ''1'' ''a'' (edgesOf exampleTree))" "liveIds r3 = liveIds exampleTree"
    "hget r3 (KInode ''2'') ''type'' = hget exampleTree (KInode ''2'') ''type''"
    using rename_links [OF _ _ _ _ r3_def [unfolded links_def]] exampleTree_edges [of "''1''" "''a''" "''2''"] exampleTree_live
    by (auto simp: isHashOrNone_def exampleTree_def exampleNode_def)
  have "list_all (harmless (liveIds r3)) rest" by (simp add: rest_def l3(2) exampleTree_live plainKey_def)
  then have same: "sameTree r3 r" unfolding run by (rule harmless_all)
  then have e: "edgesOf r = addEdge ''2'' ''x'' ''2'' (removeEdge ''1'' ''a'' (edgesOf exampleTree))" using l3(1) by (simp add: sameTree_def)
  have x: "hget r (KDirents ''2'') ''x'' = Some ''2''" "hget r (KDirents ''1'') ''a'' = None"
    using e by (simp_all add: fun_eq_iff edgesOf_def [symmetric] addEdge_def removeEdge_def)
  have kind: "hget r (KInode ''2'') ''type'' = Some ''dir''"
    using same l3(3) by (simp add: sameTree_def sameTags_def tagFields_def exampleTree_fields)
  then obtain inode where load: "loadInodeByID r ''2'' = Inr (Some inode)" "in_type inode = ''dir''"
    using isHashOrNone_hget [OF kind] by (auto simp: loadInodeByID_def inodeFromValues_def hget_def)
  have "\<not> treeOk r"
  proof
    assume "treeOk r"
    from wfTree_top [OF treeOk_wf [OF this], of "''2''" "''x''" "''2''"] x(1) show False
      by (simp add: edgesOf_def below_refl)
  qed
  moreover have "\<exists>res k. Rename depth exampleTreeEnv emptyContext ''/a'' ''/l/x'' 0 (0, exampleTree) = (res, k, r) \<and> res \<noteq> Some None"
  proof -
    have first: "renameLoop 8 exampleTreeEnv emptyContext ''/a'' src ''/l/x'' ''2'' 0 [] (0, exampleTree)
        = (if fst (execAll cmds exampleTree) then Inr moved else Inl wrongType, 1, r)"
    proof -
      have "renameLoop (Suc 7) exampleTreeEnv emptyContext ''/a'' src ''/l/x'' ''2'' 0 [] (0, exampleTree)
        = (if fst (execAll cmds exampleTree) then Inr moved else Inl wrongType, 1, r)"
        by (simp only: renameLoop.simps fst_conv alone_try(1) [where body = "renameBody exampleTreeEnv ''/a'' src ''/l/x'' ''2'' 0 []
            (te_now exampleTreeEnv 0)", OF body]) (simp add: r_def txStopErr_def)
      then show ?thesis by simp
    qed
    have never: "refreshCmds depth exampleTreeEnv r ''/l/x'' ''2'' ''dir'' \<noteq> Some (Inr cs)" for cs
      by (rule refresh_cycle [OF x(1) load]) (simp add: exampleTreeEnv_def)
    have refresh: "\<exists>res k. refreshIndexedSubtree depth exampleTreeEnv emptyContext ''/l/x'' moved (1, r) = (res, k, r) \<and> res \<noteq> Some None"
    proof -
      define body where "body = (\<lambda>r. case refreshCmds depth exampleTreeEnv r ''/l/x'' ''2'' ''dir'' of
          None \<Rightarrow> Inr ([], False) | Some (Inl e) \<Rightarrow> Inl (StopErr e) | Some (Inr cs) \<Rightarrow> Inr (cs, True))"
      have "(\<exists>e. body r = Inl (StopErr e)) \<or> body r = Inr ([], False)"
        using never by (auto simp: body_def split: option.splits sum.splits)
      then have "\<exists>res k. (case retryWatch exampleTreeEnv emptyContext [KInode ''2''] body (1, r) of
             (Inl s, w1) \<Rightarrow> (Some (Some (txStopErr s)), w1)
           | (Inr True, w1) \<Rightarrow> (Some None, w1)
           | (Inr False, w1) \<Rightarrow> (None, w1)) = (res, k, r) \<and> res \<noteq> Some None"
        by (elim disjE exE) (simp_all add: alone_try(2) [of body r] alone_try(1) [of body r "[]" False])
      then show ?thesis by (simp add: refreshIndexedSubtree_def moved_def src_def exampleData_def body_def)
    qed
    have path: "\<exists>res k. renamePath depth exampleTreeEnv emptyContext ''/a'' src ''/l/x'' src 0 (0, exampleTree) = (res, k, r)
        \<and> res \<noteq> Some None"
    proof (cases "fst (execAll cmds exampleTree)")
      case True
      with refresh show ?thesis using first
        by (simp add: renamePath_def checkExpectedParent_def checkWriteCondition_def emptyContext_def src_def exampleData_def)
    next
      case False
      with first show ?thesis
        by (simp add: renamePath_def checkExpectedParent_def checkWriteCondition_def emptyContext_def src_def exampleData_def)
    qed
    then obtain res k where p: "renamePath depth exampleTreeEnv emptyContext ''/a'' src ''/l/x'' src 0 (0, exampleTree) = (res, k, r)"
      "res \<noteq> Some None" by blast
    have pre: "\<not> hasPrefix ''/l/x'' ''/a/''" by (simp add: hasPrefix_def)
    have "Rename depth exampleTreeEnv emptyContext ''/a'' ''/l/x'' 0 (0, exampleTree) = (res, k, r)"
      using p pre by (cases res) (auto simp: Rename_def norm example_paths src_def [symmetric] Let_def, simp_all add: src_def exampleData_def)
    with p(2) show ?thesis by blast
  qed
  ultimately show ?thesis using x by blast
qed

text \<open>
  Renaming a file through a link to the name it already has passes for a replacement: the file that
  is replaced is the file itself, and the transaction deletes its inode and its content.
\<close>

theorem rename_onto_itself_loses_file:
  assumes "r0 = exampleTree(KContent ''4'' \<mapsto> RString ''data'')"
  shows "\<exists>w. renameLoop 8 exampleTreeEnv emptyContext ''/a/f'' (exampleData ''4'' ''file'' ''2'' ''f'' []) ''/l/f'' ''2'' 0 [] (0, r0)
      = (Inr ((exampleData ''4'' ''file'' ''2'' ''f'' [])), 1, w)
    \<and> w (KInode ''4'') = None \<and> w (KContent ''4'') = None \<and> hget w (KDirents ''2'') ''f'' = Some ''4''"
proof -
  define src where "src = exampleData ''4'' ''file'' ''2'' ''f'' []"
  define cmds where "cmds = renameCmds exampleTreeEnv ''/a/f'' ''/l/f'' ''4'' ''2'' ''f'' ''2'' ''f'' 0 (Some src)"
  have name: "baseName ''/l/f'' = ''f''" by (simp add: baseName_def pathBase_def)
  have keys: "r0 (KInode i) = exampleTree (KInode i)" "r0 (KDirents i) = exampleTree (KDirents i)" for i
    by (simp_all add: assms)
  have hashes: "hashAt r0 (KInode i) = hashAt exampleTree (KInode i)" "hashAt r0 (KDirents i) = hashAt exampleTree (KDirents i)"
    "isHashOrNone r0 (KInode i) = isHashOrNone exampleTree (KInode i)"
    "isHashOrNone r0 (KDirents i) = isHashOrNone exampleTree (KDirents i)" for i
    by (simp_all add: hashAt_def isHashOrNone_def keys)
  have reads: "loadInodeByID r0 i = loadInodeByID exampleTree i" "lookupChildID r0 i n = lookupChildID exampleTree i n" for i n
    by (simp_all add: loadInodeByID_def lookupChildID_def hget_def hashes)
  have load: "loadInodeByID r0 ''4'' = Inr (Some src)" using exampleTree_load(4) by (simp add: reads src_def)
  have link: "lookupChildID r0 ''2'' ''f'' = Inr ''4''" using exampleTree_lookup(3) by (simp add: reads)
  have parent: "r0 (KInode ''2'') \<noteq> None" by (simp add: keys exampleTree_def)
  have src: "in_type src = ''file''" "in_id src = ''4''" "in_parent src = ''2''" "in_name src = ''f''" "in_ctimeMs src = 0"
    "in_size src = 0"
    by (simp_all add: src_def exampleData_def)
  have same: "src\<lparr>in_parent := ''2'', in_name := ''f'', in_ctimeMs := 0\<rparr> = src" by (simp add: src_def exampleData_def)
  have body: "renameBody exampleTreeEnv ''/a/f'' src ''/l/f'' ''2'' 0 [] (te_now exampleTreeEnv 0) r0 = Inr (cmds, src)"
    using load link parent by (simp add: renameBody_def renameTarget_def src name cmds_def same exampleTreeEnv_def)
  have ok: "fst (execAll cmds r0)" and gone: "runAll cmds r0 (KInode ''4'') = None" "runAll cmds r0 (KContent ''4'') = None"
    "hget (runAll cmds r0) (KDirents ''2'') ''f'' = Some ''4''"
    by (simp_all add: cmds_def renameCmds_def src queueTouchTimes_def queueDeleteInfo_def queueInvalidation_def queueQueryDeleted_def
        exampleTreeEnv_def execAll.simps(2) split_beta assms exampleTree_def exampleNode_def isHashOrNone_def isSetOrNone_def hset_def hsetAll_def
        hashAt_def hdel_def hincrby_def hgetOr_def hget_def sadd_def)
  have "renameLoop (Suc 7) exampleTreeEnv emptyContext ''/a/f'' src ''/l/f'' ''2'' 0 [] (0, r0) = (Inr src, 1, runAll cmds r0)"
    by (simp only: renameLoop.simps fst_conv alone_try(1) [where body = "renameBody exampleTreeEnv ''/a/f'' src ''/l/f'' ''2'' 0 []
        (te_now exampleTreeEnv 0)", OF body]) (simp add: ok)
  then show ?thesis using gone by (intro exI [of _ "runAll cmds r0"]) (simp add: src_def)
qed


end
