(* ===== verification/ArrayContent.thy ===== *)
theory ArrayContent
  imports SyncChunks
begin

text \<open>
  File bytes in a Redis array of 4096-byte chunks (\<open>src/internal/rediscontent/content.go\<close>).  The array
  is a map from indices to chunks; a missing index reads as nil.  A chunk may be shorter than 4096 bytes,
  and the size of the file is kept elsewhere.  Every operation is shown to do to the bytes of a file what
  the same operation does to a plain string of bytes.

  The array commands (\<open>ARSET\<close>, \<open>ARGETRANGE\<close>, \<open>ARDELRANGE\<close>) are the ones of the map; the time to live of
  a private key is the caller's business.
\<close>

subsection \<open>Operations\<close>

type_synonym chunk_array = "nat \<Rightarrow> bytes option"

definition ArrayChunkBytes :: nat where
  "ArrayChunkBytes = 4096"

definition arrayCommandBatchChunks :: nat where
  "arrayCommandBatchChunks = 512"

definition chunkCountForSize :: "nat \<Rightarrow> nat" where
  "chunkCountForSize sz = (sz + ArrayChunkBytes - 1) div ArrayChunkBytes"

definition splitArrayChunks :: "bytes \<Rightarrow> bytes list" where
  "splitArrayChunks data = chunksOf ArrayChunkBytes data"

definition arset :: "nat \<Rightarrow> bytes list \<Rightarrow> chunk_array \<Rightarrow> chunk_array" where
  "arset start vs arr = (\<lambda>i. if start \<le> i \<and> i < start + length vs then Some (vs ! (i - start)) else arr i)"

definition ardelrange :: "nat \<Rightarrow> nat \<Rightarrow> chunk_array \<Rightarrow> chunk_array" where
  "ardelrange a b arr = (\<lambda>i. if a \<le> i \<and> i \<le> b then None else arr i)"

definition arrayGetRange :: "chunk_array \<Rightarrow> nat \<Rightarrow> nat \<Rightarrow> bytes option list" where
  "arrayGetRange arr a b = map arr [a..<Suc b]"

definition arrayValueBytes :: "bytes option \<Rightarrow> bytes" where
  "arrayValueBytes v = (case v of None \<Rightarrow> [] | Some b \<Rightarrow> b)"

text \<open>The starts of the batches in which a range of indices is sent.\<close>

definition batchStarts :: "nat \<Rightarrow> nat list" where
  "batchStarts n = map (\<lambda>k. k * arrayCommandBatchChunks) [0..<(n + arrayCommandBatchChunks - 1) div arrayCommandBatchChunks]"

definition queueArrayWriteFull :: "bytes \<Rightarrow> chunk_array \<Rightarrow> chunk_array" where
  "queueArrayWriteFull data arr =
     (let chunks = splitArrayChunks data in
      foldl (\<lambda>a start. arset start (take arrayCommandBatchChunks (drop start chunks)) a) Map.empty (batchStarts (length chunks)))"

definition loadArray :: "chunk_array \<Rightarrow> nat \<Rightarrow> bytes" where
  "loadArray arr sz =
     foldl (\<lambda>res start.
         let end = min (start + arrayCommandBatchChunks) (chunkCountForSize sz) - 1 in
         foldl (\<lambda>res (i, value). case value of None \<Rightarrow> res
                  | Some raw \<Rightarrow> copyAt ((start + i) * ArrayChunkBytes) (take (sz - (start + i) * ArrayChunkBytes) raw) res)
           res (enumerate 0 (arrayGetRange arr start end)))
       (replicate sz zeroByte) (batchStarts (chunkCountForSize sz))"

definition readArrayRange :: "chunk_array \<Rightarrow> nat \<Rightarrow> nat \<Rightarrow> bytes" where
  "readArrayRange arr startByte endByte =
     (if endByte \<le> startByte then []
      else let startChunk = startByte div ArrayChunkBytes; endChunk = (endByte - 1) div ArrayChunkBytes in
           foldl (\<lambda>res (i, value).
               let chunkStart = (startChunk + i) * ArrayChunkBytes;
                   segmentStart = max startByte chunkStart; segmentEnd = min endByte (chunkStart + ArrayChunkBytes)
               in case value of
                    None \<Rightarrow> res
                  | Some raw \<Rightarrow>
                      if segmentEnd \<le> segmentStart then res
                      else let srcStart = segmentStart - chunkStart; srcEnd = min (length raw) (segmentEnd - chunkStart)
                           in if srcEnd \<le> srcStart then res
                              else copyAt (segmentStart - startByte) (take (srcEnd - srcStart) (drop srcStart raw)) res)
             (replicate (endByte - startByte) zeroByte) (enumerate 0 (arrayGetRange arr startChunk endChunk)))"

text \<open>The chunks of a range write, with the part of the payload that has been used so far.\<close>

definition writeChunk :: "nat \<Rightarrow> nat \<Rightarrow> bytes \<Rightarrow> nat \<Rightarrow> nat \<Rightarrow> bytes option \<Rightarrow> bytes \<times> nat" where
  "writeChunk off endByte payload used idx value =
     (let raw = arrayValueBytes value;
          chunk0 = take ArrayChunkBytes raw @ replicate (ArrayChunkBytes - length raw) zeroByte;
          chunkStart = idx * ArrayChunkBytes;
          writeStart = max off chunkStart; writeEnd = min endByte (chunkStart + ArrayChunkBytes);
          n = (if writeEnd > writeStart then writeEnd - writeStart else 0);
          chunk = (if writeEnd > writeStart then copyAt (writeStart - chunkStart) (take n (drop used payload)) chunk0 else chunk0);
          storeLen = (if writeEnd > chunkStart then max (length raw) (writeEnd - chunkStart) else length raw)
      in (take (min storeLen ArrayChunkBytes) chunk, used + n))"

fun writeChunks :: "nat \<Rightarrow> nat \<Rightarrow> bytes \<Rightarrow> nat \<Rightarrow> nat \<Rightarrow> bytes option list \<Rightarrow> bytes list" where
  "writeChunks off endByte payload used idx [] = []"
| "writeChunks off endByte payload used idx (value # values) =
     fst (writeChunk off endByte payload used idx value)
     # writeChunks off endByte payload (snd (writeChunk off endByte payload used idx value)) (Suc idx) values"

definition writeArrayRange :: "nat \<Rightarrow> bytes \<Rightarrow> chunk_array \<Rightarrow> chunk_array" where
  "writeArrayRange off payload arr =
     (let startChunk = off div ArrayChunkBytes; endByte = off + length payload; endChunk = (endByte - 1) div ArrayChunkBytes
      in arset startChunk (writeChunks off endByte payload 0 startChunk (arrayGetRange arr startChunk endChunk)) arr)"

definition truncateArray :: "nat \<Rightarrow> nat \<Rightarrow> chunk_array \<Rightarrow> chunk_array" where
  "truncateArray oldSize newSize arr =
     (if newSize = oldSize then arr
      else if newSize = 0 then Map.empty
      else if newSize > oldSize then arr
      else let oldChunks = chunkCountForSize oldSize; newChunks = chunkCountForSize newSize; lastChunkSize = newSize mod ArrayChunkBytes;
               del = (if newChunks < oldChunks then ardelrange newChunks (oldChunks - 1) else id)
           in if newChunks = 0 then Map.empty
              else if lastChunkSize = 0 then del arr
              else del (case arr (newChunks - 1) of
                          None \<Rightarrow> arr
                        | Some raw \<Rightarrow> arset (newChunks - 1) [take (min lastChunkSize (length raw)) raw] arr))"

definition ReadRange :: "bool \<Rightarrow> chunk_array \<Rightarrow> nat \<Rightarrow> int \<Rightarrow> int \<Rightarrow> string + bytes" where
  "ReadRange supported arr sz off len =
     (if len \<le> 0 \<or> off \<ge> int sz then Inr []
      else if off < 0 then Inl ''invalid offset''
      else if \<not> supported then Inl ''array content unsupported''
      else Inr (readArrayRange arr (nat off) (nat (min (off + len) (int sz)))))"

definition WriteRange :: "bool \<Rightarrow> int \<Rightarrow> bytes \<Rightarrow> chunk_array \<Rightarrow> string + chunk_array" where
  "WriteRange supported off payload arr =
     (if off < 0 then Inl ''invalid offset''
      else if payload = [] then Inr arr
      else if \<not> supported then Inl ''array content unsupported''
      else Inr (writeArrayRange (nat off) payload arr))"

definition Truncate :: "bool \<Rightarrow> nat \<Rightarrow> int \<Rightarrow> chunk_array \<Rightarrow> string + chunk_array" where
  "Truncate supported oldSize newSize arr =
     (if newSize < 0 then Inl ''invalid size''
      else if \<not> supported then Inl ''array content unsupported''
      else Inr (truncateArray oldSize (nat newSize) arr))"

subsection \<open>The bytes of an array\<close>

definition byteAt :: "chunk_array \<Rightarrow> nat \<Rightarrow> char" where
  "byteAt arr k = nthZ (arrayValueBytes (arr (k div ArrayChunkBytes))) (k mod ArrayChunkBytes)"

definition fileOf :: "chunk_array \<Rightarrow> nat \<Rightarrow> bytes" where
  "fileOf arr sz = map (byteAt arr) [0..<sz]"

text \<open>Chunks are not too long, and no byte is left behind the end.\<close>

definition arrayOk :: "chunk_array \<Rightarrow> nat \<Rightarrow> bool" where
  "arrayOk arr sz \<longleftrightarrow> (\<forall>i. length (arrayValueBytes (arr i)) \<le> ArrayChunkBytes) \<and> (\<forall>k \<ge> sz. byteAt arr k = zeroByte)"

lemma chunk_pos [simp]: "0 < ArrayChunkBytes"
  by (simp add: ArrayChunkBytes_def)

lemma length_fileOf [simp]: "length (fileOf arr sz) = sz"
  by (simp add: fileOf_def)

lemma nthZ_fileOf: "arrayOk arr sz \<Longrightarrow> nthZ (fileOf arr sz) k = byteAt arr k"
  by (simp add: nthZ_def fileOf_def arrayOk_def)

lemma file_eqI:
  assumes "length f = sz" and "\<And>k. k < sz \<Longrightarrow> nthZ f k = byteAt arr k"
  shows "f = fileOf arr sz"
  using assms by (intro nthZ_eqI) (simp_all add: nthZ_def fileOf_def)

lemma nthZ_replicate [simp]: "nthZ (replicate n zeroByte) k = zeroByte"
  by (simp add: nthZ_def)

lemma nthZ_take: "nthZ (take n f) k = (if k < n then nthZ f k else zeroByte)"
  by (simp add: nthZ_def)

lemma nthZ_drop: "nthZ (drop n f) k = nthZ f (n + k)"
  by (auto simp: nthZ_def)

lemma nthZ_Nil [simp]: "nthZ [] k = zeroByte"
  by (simp add: nthZ_def)

subsection \<open>Writing a range\<close>

lemma byte_in_chunk: "k div ArrayChunkBytes = i \<longleftrightarrow> i * ArrayChunkBytes \<le> k \<and> k < (i + 1) * ArrayChunkBytes"
  using div_nat_eqI [of ArrayChunkBytes i k] by (metis Suc_eq_plus1 chunk_pos div_nat_eqI dividend_less_times_div div_times_less_eq_dividend mult.commute mult_Suc_right)

text \<open>One chunk of a write: the payload where the range covers it, and what was there elsewhere.\<close>

lemma writeChunk_byte:
  assumes "length (arrayValueBytes value) \<le> ArrayChunkBytes" and "off < idx * ArrayChunkBytes + ArrayChunkBytes"
    and "idx * ArrayChunkBytes < off + length payload" and "j < ArrayChunkBytes" and "used = idx * ArrayChunkBytes - off"
    and k: "k = idx * ArrayChunkBytes + j" and "payload \<noteq> []"
  shows "nthZ (fst (writeChunk off (off + length payload) payload used idx value)) j
     = (if off \<le> k \<and> k < off + length payload then payload ! (k - off) else nthZ (arrayValueBytes value) j)"
    and "snd (writeChunk off (off + length payload) payload used idx value) = min (length payload) (idx * ArrayChunkBytes + ArrayChunkBytes - off)"
    and "length (fst (writeChunk off (off + length payload) payload used idx value)) \<le> ArrayChunkBytes"
proof -
  define C where "C = ArrayChunkBytes"
  define cs where "cs = idx * C"
  define raw where "raw = arrayValueBytes value"
  define e where "e = off + length payload"
  note a = assms [folded C_def, folded cs_def raw_def, folded e_def]
  define n where "n = min e (cs + C) - max off cs"
  have "0 < C" "0 < length payload" using a(7) by (simp_all add: C_def)
  then have n: "max off cs < min e (cs + C)" "0 < n" using a(2,3) by (simp_all add: n_def e_def)
  define d where "d = take n (drop used payload)"
  have len: "length d = n" using a(5) by (auto simp: d_def n_def e_def)
  have d: "d ! i = payload ! (used + i)" if "i < n" for i using that len by (simp add: d_def)
  define chunk0 where "chunk0 = take C raw @ replicate (C - length raw) zeroByte"
  have c0: "length chunk0 = C" "nthZ chunk0 j = nthZ raw j" using a(1) by (auto simp: chunk0_def nthZ_def nth_append)
  define store where "store = min (max (length raw) (min e (cs + C) - cs)) C"
  have w: "writeChunk off e payload used idx value = (take store (copyAt (max off cs - cs) d chunk0), used + n)"
    using n unfolding writeChunk_def Let_def C_def [symmetric] cs_def [symmetric] raw_def [symmetric]
    by (simp add: n_def d_def chunk0_def store_def)
  show "length (fst (writeChunk off (off + length payload) payload used idx value)) \<le> ArrayChunkBytes"
    unfolding e_def [symmetric] w by (simp add: C_def store_def)
  show "snd (writeChunk off (off + length payload) payload used idx value) = min (length payload) (idx * ArrayChunkBytes + ArrayChunkBytes - off)"
    unfolding e_def [symmetric] w C_def [symmetric] cs_def [symmetric] using a(2,3,5) by (auto simp: n_def e_def)
  have inside: "j < store" if "off \<le> k" "k < e" using that a(4,6) by (auto simp: store_def)
  have outside: "nthZ raw j = zeroByte" if "\<not> j < store" using that a(1,4) by (auto simp: store_def nthZ_def)
  have "nthZ (copyAt (max off cs - cs) d chunk0) j = (if off \<le> k \<and> k < e then payload ! (k - off) else nthZ raw j)"
  proof (cases "off \<le> k \<and> k < e")
    case True
    then have "max off cs - cs \<le> j" "j < max off cs - cs + n" using a(4,6) by (auto simp: n_def)
    moreover from this have "d ! (j - (max off cs - cs)) = payload ! (k - off)"
      using d [of "j - (max off cs - cs)"] a(5,6) by (simp add: max_def add.commute split: if_splits)
    ultimately show ?thesis using True a(4) by (simp add: nthZ_copyAt len c0)
  next
    case False
    then have "\<not> (max off cs - cs \<le> j \<and> j < max off cs - cs + n)" using a(4,6) n by (auto simp: n_def)
    then have "\<not> (max off cs - cs \<le> j \<and> j < max off cs - cs + length d \<and> j < length chunk0)" by (auto simp: len)
    then have "nthZ (copyAt (max off cs - cs) d chunk0) j = nthZ chunk0 j" unfolding nthZ_copyAt by (rule if_not_P)
    with False c0(2) show ?thesis by auto
  qed
  with inside outside show "nthZ (fst (writeChunk off (off + length payload) payload used idx value)) j
     = (if off \<le> k \<and> k < off + length payload then payload ! (k - off) else nthZ (arrayValueBytes value) j)"
    unfolding e_def [symmetric] w raw_def [symmetric] by (auto simp: nthZ_take)
qed

lemma length_writeChunks [simp]: "length (writeChunks off e payload used idx vs) = length vs"
  by (induction off e payload used idx vs rule: writeChunks.induct) simp_all

lemma writeChunks_nth:
  "i < length vs \<Longrightarrow> \<forall>v \<in> set vs. length (arrayValueBytes v) \<le> ArrayChunkBytes \<Longrightarrow> payload \<noteq> []
     \<Longrightarrow> off < idx * ArrayChunkBytes + ArrayChunkBytes
     \<Longrightarrow> (idx + length vs - 1) * ArrayChunkBytes < off + length payload
     \<Longrightarrow> writeChunks off (off + length payload) payload (idx * ArrayChunkBytes - off) idx vs ! i
         = fst (writeChunk off (off + length payload) payload ((idx + i) * ArrayChunkBytes - off) (idx + i) (vs ! i))"
proof (induction vs arbitrary: idx i)
  case (Cons v vs)
  show ?case
  proof (cases i)
    case (Suc j)
    then have "vs \<noteq> []" using Cons.prems(1) by auto
    then have last: "idx + length (v # vs) - 1 = Suc idx + length vs - 1" "idx < idx + length vs" by simp_all
    have "Suc idx * ArrayChunkBytes \<le> (Suc idx + length vs - 1) * ArrayChunkBytes"
      using \<open>vs \<noteq> []\<close> by (intro mult_le_mono1) (simp add: Suc_le_eq)
    then have nextc: "Suc idx * ArrayChunkBytes < off + length payload" using Cons.prems(5) last(1) by simp
    have "snd (writeChunk off (off + length payload) payload (idx * ArrayChunkBytes - off) idx v)
        = min (length payload) (idx * ArrayChunkBytes + ArrayChunkBytes - off)"
      using Cons.prems nextc by (intro writeChunk_byte(2) [where j = 0 and k = "idx * ArrayChunkBytes"]) simp_all
    then have used: "snd (writeChunk off (off + length payload) payload (idx * ArrayChunkBytes - off) idx v)
        = Suc idx * ArrayChunkBytes - off"
      using nextc by (simp add: add.commute)
    have "writeChunks off (off + length payload) payload (Suc idx * ArrayChunkBytes - off) (Suc idx) vs ! j
        = fst (writeChunk off (off + length payload) payload ((Suc idx + j) * ArrayChunkBytes - off) (Suc idx + j) (vs ! j))"
      using Cons.prems Suc last(1) by (intro Cons.IH) simp_all
    with Suc used show ?thesis by simp
  qed simp
qed simp

lemma mod_chunk: "k mod ArrayChunkBytes < ArrayChunkBytes" "k = (k div ArrayChunkBytes) * ArrayChunkBytes + k mod ArrayChunkBytes"
  by simp_all

lemma writeArrayRange_bytes:
  assumes lens: "\<And>i. length (arrayValueBytes (arr i)) \<le> ArrayChunkBytes" and payload: "payload \<noteq> []"
  shows "byteAt (writeArrayRange off payload arr) k
      = (if off \<le> k \<and> k < off + length payload then payload ! (k - off) else byteAt arr k)"
    and "length (arrayValueBytes (writeArrayRange off payload arr i)) \<le> ArrayChunkBytes"
proof -
  define C where "C = ArrayChunkBytes"
  have C: "0 < C" by (simp add: C_def)
  define a where "a = off div C"
  define b where "b = (off + length payload - 1) div C"
  define vs where "vs = arrayGetRange arr a b"
  define new where "new = writeChunks off (off + length payload) payload 0 a vs"
  have w: "writeArrayRange off payload arr = arset a new arr"
    by (simp add: writeArrayRange_def Let_def new_def vs_def a_def b_def C_def)
  have ab: "a \<le> b" using payload unfolding a_def b_def by (intro div_le_mono) (cases payload; simp)
  have len: "length vs = Suc b - a" "length new = Suc b - a" using ab by (simp_all add: new_def vs_def arrayGetRange_def Suc_diff_le)
  have vals: "vs ! i = arr (a + i)" if "i < Suc b - a" for i
    using that ab by (simp add: vs_def arrayGetRange_def del: upt_Suc)
  have aC: "a * C \<le> off" "off < a * C + C"
    using C unfolding a_def by (simp, metis add.commute dividend_less_times_div mult.commute)
  have bC: "b * C < off + length payload"
  proof -
    have "b * C \<le> off + length payload - 1" by (simp add: b_def)
    with payload show ?thesis by (cases payload) simp_all
  qed
  have all: "\<forall>v \<in> set vs. length (arrayValueBytes v) \<le> ArrayChunkBytes"
    using lens by (auto simp: vs_def arrayGetRange_def)
  have last: "a + length vs - 1 = b" using len(1) ab by simp
  have nth: "new ! i = fst (writeChunk off (off + length payload) payload ((a + i) * C - off) (a + i) (arr (a + i)))"
    if "i < Suc b - a" for i
    using writeChunks_nth [of i vs payload off a] that len(1) all payload aC bC vals [OF that]
    by (simp add: new_def C_def last del: mult_Suc)
  have over: "off < (a + i) * C + C" "(a + i) * C < off + length payload" if "i < Suc b - a" for i
  proof -
    have "(a + i) * C \<le> b * C" using that by (intro mult_le_mono1) simp
    from this bC show "(a + i) * C < off + length payload" by (rule le_less_trans)
    have "a * C \<le> (a + i) * C" by (rule mult_le_mono1) simp
    then show "off < (a + i) * C + C" using aC(2) by (meson add_le_mono1 order_less_le_trans)
  qed
  note chunk = writeChunk_byte [of _ off _ payload, folded C_def]
  show "length (arrayValueBytes (writeArrayRange off payload arr i)) \<le> ArrayChunkBytes"
  proof (cases "a \<le> i \<and> i < a + length new")
    case True
    then have i: "i - a < Suc b - a" "a + (i - a) = i" using len by auto
    then have "arset a new arr i = Some (new ! (i - a))" using True by (simp add: arset_def)
    moreover have "length (new ! (i - a)) \<le> ArrayChunkBytes"
      using nth [OF i(1)] chunk(3) [of "arr i" i 0 "i * C - off" "i * C"] over [OF i(1)] lens [of i] C payload i(2) by (simp add: C_def)
    ultimately show ?thesis by (simp add: w arrayValueBytes_def)
  next
    case False
    then have "arset a new arr i = arr i" by (auto simp: arset_def)
    with lens show ?thesis by (simp add: w)
  qed
  define i where "i = k div C"
  define j where "j = k mod C"
  have k: "k = i * C + j" "j < C" using C by (simp_all add: i_def j_def)
  have byte: "byteAt x k = nthZ (arrayValueBytes (x i)) j" for x by (simp add: byteAt_def i_def j_def C_def)
  show "byteAt (writeArrayRange off payload arr) k
      = (if off \<le> k \<and> k < off + length payload then payload ! (k - off) else byteAt arr k)"
  proof (cases "a \<le> i \<and> i < a + length new")
    case True
    then have i: "i - a < Suc b - a" "a + (i - a) = i" using len by auto
    then have "arset a new arr i = Some (new ! (i - a))" using True by (simp add: arset_def)
    then have "byteAt (writeArrayRange off payload arr) k = nthZ (new ! (i - a)) j" by (simp add: w byte arrayValueBytes_def)
    also have "\<dots> = (if off \<le> k \<and> k < off + length payload then payload ! (k - off) else nthZ (arrayValueBytes (arr i)) j)"
      using nth [OF i(1)] chunk(1) [of "arr i" i j "i * C - off" k] over [OF i(1)] lens [of i] k payload i(2) by (simp add: C_def)
    finally show ?thesis by (simp add: byte)
  next
    case False
    then have "arset a new arr i = arr i" by (auto simp: arset_def)
    moreover have "\<not> (off \<le> k \<and> k < off + length payload)"
    proof
      assume in_range: "off \<le> k \<and> k < off + length payload"
      then have "a \<le> i" unfolding a_def i_def by (intro div_le_mono) simp
      moreover have "k \<le> off + length payload - 1" using in_range by linarith
      then have "i \<le> b" unfolding b_def i_def by (rule div_le_mono)
      ultimately show False using False len by simp
    qed
    ultimately show ?thesis by (simp only: w byte if_False)
  qed
qed

subsection \<open>Truncation\<close>

lemma arset_single: "arset s [v] arr = arr(s \<mapsto> v)"
  by (auto simp: arset_def fun_eq_iff)

lemma take_min: "take (min n (length xs)) xs = take n xs"
  by (simp add: min_def)

lemma chunkCount_less: "i < chunkCountForSize sz \<longleftrightarrow> i * ArrayChunkBytes < sz"
proof -
  have "i < (sz + ArrayChunkBytes - 1) div ArrayChunkBytes \<longleftrightarrow> Suc i \<le> (sz + ArrayChunkBytes - 1) div ArrayChunkBytes"
    by (simp only: Suc_le_eq)
  also have "\<dots> \<longleftrightarrow> Suc i * ArrayChunkBytes \<le> sz + ArrayChunkBytes - 1"
    by (rule less_eq_div_iff_mult_less_eq) simp
  also have "\<dots> \<longleftrightarrow> i * ArrayChunkBytes < sz"
    using chunk_pos by (simp add: ArrayChunkBytes_def) linarith
  finally show ?thesis by (simp add: chunkCountForSize_def)
qed

lemma byteAt_beyond: "chunkCountForSize sz \<le> k div ArrayChunkBytes \<Longrightarrow> sz \<le> k"
  using chunkCount_less [of "k div ArrayChunkBytes" sz] div_times_less_eq_dividend [of k ArrayChunkBytes] by linarith

lemma byteAt_Some: "arr (k div ArrayChunkBytes) = Some v \<Longrightarrow> byteAt arr k = nthZ v (k mod ArrayChunkBytes)"
  by (simp add: byteAt_def arrayValueBytes_def)

lemma byteAt_None: "arr (k div ArrayChunkBytes) = None \<Longrightarrow> byteAt arr k = zeroByte"
  by (simp add: byteAt_def arrayValueBytes_def)

lemma byteAt_cong: "arr (k div ArrayChunkBytes) = arr' (k div ArrayChunkBytes) \<Longrightarrow> byteAt arr k = byteAt arr' k"
  by (simp add: byteAt_def)

lemma byteAt_empty [simp]: "byteAt Map.empty k = zeroByte"
  by (simp add: byteAt_def arrayValueBytes_def)

lemma chunkCount_pos: "0 < sz \<Longrightarrow> 0 < chunkCountForSize sz"
  by (simp add: chunkCount_less)

lemma chunkCount_mono: "sz \<le> sz' \<Longrightarrow> chunkCountForSize sz \<le> chunkCountForSize sz'"
  by (simp add: chunkCountForSize_def div_le_mono)

text \<open>The position of a byte in the last chunk of a file whose size is not a multiple of the chunk size.\<close>

lemma last_chunk_byte:
  assumes "k div ArrayChunkBytes = chunkCountForSize sz - 1" and "0 < sz" and "sz mod ArrayChunkBytes \<noteq> 0"
  shows "sz \<le> k \<longleftrightarrow> sz mod ArrayChunkBytes \<le> k mod ArrayChunkBytes"
proof -
  have "chunkCountForSize sz - 1 = sz div ArrayChunkBytes"
  proof (rule antisym)
    have "\<not> Suc (sz div ArrayChunkBytes) * ArrayChunkBytes < sz"
      using dividend_less_times_div [of ArrayChunkBytes sz] by (simp add: mult.commute)
    then have "\<not> Suc (sz div ArrayChunkBytes) < chunkCountForSize sz" by (simp only: chunkCount_less not_False_eq_True)
    then show "chunkCountForSize sz - 1 \<le> sz div ArrayChunkBytes" by linarith
    have "sz div ArrayChunkBytes * ArrayChunkBytes < sz"
      using assms(3) div_mult_mod_eq [of sz ArrayChunkBytes] by linarith
    then have "sz div ArrayChunkBytes < chunkCountForSize sz" by (simp only: chunkCount_less)
    then show "sz div ArrayChunkBytes \<le> chunkCountForSize sz - 1" by linarith
  qed
  then have "k div ArrayChunkBytes = sz div ArrayChunkBytes" using assms(1) by simp
  then show ?thesis
    using div_mult_mod_eq [of sz ArrayChunkBytes] div_mult_mod_eq [of k ArrayChunkBytes] by (metis add_le_cancel_left)
qed

lemma full_chunk_byte:
  assumes "k div ArrayChunkBytes < chunkCountForSize sz" and "sz mod ArrayChunkBytes = 0 \<or> k div ArrayChunkBytes \<noteq> chunkCountForSize sz - 1"
  shows "k < sz"
proof -
  let ?i = "k div ArrayChunkBytes"
  have "Suc ?i * ArrayChunkBytes \<le> sz"
  proof (cases "Suc ?i < chunkCountForSize sz")
    case True
    then show ?thesis by (simp only: chunkCount_less less_imp_le)
  next
    case False
    with assms obtain m where m: "sz = ArrayChunkBytes * m" by (auto simp: mod_eq_0_iff_dvd dvd_def)
    have "?i * ArrayChunkBytes < ArrayChunkBytes * m" using assms(1) m by (simp only: chunkCount_less)
    then have "?i < m" by (metis mult.commute mult_less_cancel2)
    then show ?thesis unfolding m by (metis Suc_leI mult.commute mult_le_mono2)
  qed
  moreover have "k < Suc ?i * ArrayChunkBytes" using dividend_less_times_div [of ArrayChunkBytes k] by (simp add: mult.commute)
  ultimately show ?thesis by linarith
qed

lemma truncateArray_bytes:
  assumes ok: "arrayOk arr oldSize"
  shows "byteAt (truncateArray oldSize newSize arr) k = (if k < newSize \<or> oldSize \<le> newSize then byteAt arr k else zeroByte)"
    and "length (arrayValueBytes (truncateArray oldSize newSize arr i)) \<le> ArrayChunkBytes"
proof -
  define i where "i = k div ArrayChunkBytes"
  define kept where "kept = (case arr (chunkCountForSize newSize - 1) of None \<Rightarrow> arr
     | Some raw \<Rightarrow> arset (chunkCountForSize newSize - 1) [take (min (newSize mod ArrayChunkBytes) (length raw)) raw] arr)"
  define base where "base = (if newSize mod ArrayChunkBytes = 0 then arr else kept)"
  define del where "del = (if chunkCountForSize newSize < chunkCountForSize oldSize
     then ardelrange (chunkCountForSize newSize) (chunkCountForSize oldSize - 1) else id)"
  have lens: "length (arrayValueBytes (arr j)) \<le> ArrayChunkBytes" for j using ok by (simp add: arrayOk_def)
  have kept: "kept j = (case arr j of None \<Rightarrow> None | Some raw \<Rightarrow>
      Some (if j = chunkCountForSize newSize - 1 then take (newSize mod ArrayChunkBytes) raw else raw))" for j
    by (auto simp: kept_def arset_single take_min split: option.splits)
  have shrink: "truncateArray oldSize newSize arr = del base" if "newSize < oldSize" "newSize \<noteq> 0"
    using that chunkCount_pos [of newSize] by (simp add: truncateArray_def Let_def del_def base_def kept_def)
  have del: "del x j = (if chunkCountForSize newSize \<le> j \<and> j < chunkCountForSize oldSize then None else x j)" for x j
    by (auto simp: del_def ardelrange_def)
  have base_len: "length (arrayValueBytes (base j)) \<le> ArrayChunkBytes" for j
    using lens [of j] by (auto simp: base_def kept arrayValueBytes_def split: option.splits)
  show "length (arrayValueBytes (truncateArray oldSize newSize arr i)) \<le> ArrayChunkBytes" for i
  proof (cases "newSize < oldSize \<and> newSize \<noteq> 0")
    case True
    with base_len [of i] show ?thesis by (simp add: shrink del arrayValueBytes_def)
  next
    case False
    with lens [of i] show ?thesis by (auto simp: truncateArray_def arrayValueBytes_def)
  qed
  show "byteAt (truncateArray oldSize newSize arr) k = (if k < newSize \<or> oldSize \<le> newSize then byteAt arr k else zeroByte)"
  proof (cases "newSize < oldSize \<and> newSize \<noteq> 0")
    case False
    then show ?thesis by (auto simp: truncateArray_def)
  next
    case True
    then have t: "truncateArray oldSize newSize arr = del base" using shrink by simp
    consider (deleted) "chunkCountForSize newSize \<le> i" "i < chunkCountForSize oldSize" | (beyond) "chunkCountForSize oldSize \<le> i"
      | (inside) "i < chunkCountForSize newSize" by linarith
    then show ?thesis
    proof cases
      case deleted
      from deleted(1) have "newSize \<le> k" unfolding i_def by (rule byteAt_beyond)
      moreover have "byteAt (del base) k = zeroByte" using deleted by (intro byteAt_None) (simp add: del i_def)
      ultimately show ?thesis using True by (simp add: t)
    next
      case beyond
      then have far: "oldSize \<le> k" unfolding i_def by (rule byteAt_beyond)
      have "chunkCountForSize newSize \<le> chunkCountForSize oldSize" using True by (simp add: chunkCount_mono)
      moreover have "0 < chunkCountForSize newSize" using True by (simp add: chunkCount_pos)
      ultimately have "del base i = arr i" using beyond by (auto simp: del base_def kept split: option.splits)
      then have "byteAt (del base) k = byteAt arr k" by (intro byteAt_cong) (simp add: i_def)
      moreover have "byteAt arr k = zeroByte" using ok far by (simp add: arrayOk_def)
      ultimately show ?thesis by (simp add: t)
    next
      case inside
      then have "del base i = base i" by (simp add: del)
      then have d: "byteAt (del base) k = byteAt base k" by (intro byteAt_cong) (simp add: i_def)
      show ?thesis
      proof (cases "newSize mod ArrayChunkBytes = 0 \<or> i \<noteq> chunkCountForSize newSize - 1")
        case True
        from inside True have "k < newSize" unfolding i_def by (rule full_chunk_byte)
        moreover have "byteAt base k = byteAt arr k"
          using True by (intro byteAt_cong) (auto simp: base_def kept i_def split: option.splits)
        ultimately show ?thesis by (simp add: t d)
      next
        case False
        then have at_end: "newSize \<le> k \<longleftrightarrow> newSize mod ArrayChunkBytes \<le> k mod ArrayChunkBytes"
          using True by (intro last_chunk_byte) (simp_all add: i_def)
        have "byteAt base k = (if k mod ArrayChunkBytes < newSize mod ArrayChunkBytes then byteAt arr k else zeroByte)"
        proof (cases "arr i")
          case None
          with False kept [of i] have "base i = None" by (simp add: base_def)
          with None show ?thesis by (simp add: byteAt_def arrayValueBytes_def flip: i_def)
        next
          case (Some raw)
          with False kept [of i] have "base i = Some (take (newSize mod ArrayChunkBytes) raw)" by (simp add: base_def)
          with Some show ?thesis by (simp add: byteAt_def arrayValueBytes_def nthZ_take flip: i_def)
        qed
        with at_end True show ?thesis by (auto simp: t d not_less)
      qed
    qed
  qed
qed

subsection \<open>Reading\<close>

text \<open>
  Both readers walk the chunks in order and let each chunk fill its own bytes of a buffer of zeros.
  \<open>owner p\<close> is the chunk of byte \<open>p\<close> of the buffer.
\<close>

definition fills :: "nat \<Rightarrow> (nat \<Rightarrow> nat) \<Rightarrow> (nat \<Rightarrow> char) \<Rightarrow> nat \<Rightarrow> (bytes \<Rightarrow> bytes) \<Rightarrow> bool" where
  "fills N owner g i f \<longleftrightarrow> (\<forall>res. length res = N \<longrightarrow> (\<forall>p < N. owner p = i \<longrightarrow> nthZ res p = zeroByte) \<longrightarrow>
     length (f res) = N \<and> (\<forall>p < N. nthZ (f res) p = (if owner p = i then g p else nthZ res p)))"

lemma fillsD:
  assumes "fills N owner g i f" and "length res = N" and "\<And>p. p < N \<Longrightarrow> owner p = i \<Longrightarrow> nthZ res p = zeroByte"
  shows "length (f res) = N" and "p < N \<Longrightarrow> nthZ (f res) p = (if owner p = i then g p else nthZ res p)"
  using assms by (simp_all add: fills_def)

lemma fill_all:
  assumes "\<And>i. i < length vs \<Longrightarrow> fills N owner g (s + i) (\<lambda>res. f res (n + i, vs ! i))"
    and "length res = N" and "\<And>p. p < N \<Longrightarrow> s \<le> owner p \<Longrightarrow> nthZ res p = zeroByte"
  shows "length (foldl f res (enumerate n vs)) = N \<and> (\<forall>p < N. nthZ (foldl f res (enumerate n vs)) p
      = (if s \<le> owner p \<and> owner p < s + length vs then g p else nthZ res p))"
  using assms
proof (induction vs arbitrary: n s res)
  case (Cons v vs)
  have step: "fills N owner g s (\<lambda>res. f res (n, v))" using Cons.prems(1) [of 0] by simp
  note one = fillsD [OF step Cons.prems(2)]
  have zero: "nthZ res p = zeroByte" if "p < N" "owner p = s" for p using Cons.prems(3) that by simp
  have len: "length (f res (n, v)) = N" by (rule one(1)) (rule zero)
  have byte: "nthZ (f res (n, v)) p = (if owner p = s then g p else nthZ res p)" if "p < N" for p
    using that by (intro one(2)) (rule zero)
  have "length (foldl f (f res (n, v)) (enumerate (Suc n) vs)) = N \<and> (\<forall>p < N. nthZ (foldl f (f res (n, v)) (enumerate (Suc n) vs)) p
      = (if Suc s \<le> owner p \<and> owner p < Suc s + length vs then g p else nthZ (f res (n, v)) p))"
  proof (rule Cons.IH)
    show "fills N owner g (Suc s + i) (\<lambda>res. f res (Suc n + i, vs ! i))" if "i < length vs" for i
      using Cons.prems(1) [of "Suc i"] that by simp
    show "nthZ (f res (n, v)) p = zeroByte" if "p < N" "Suc s \<le> owner p" for p
      using byte [OF that(1)] Cons.prems(3) [OF that(1)] that(2) by simp
  qed (rule len)
  then show ?case using byte by auto
qed auto

text \<open>One chunk of a range read.\<close>

lemma read_chunk:
  assumes raw: "length raw \<le> C" and ab: "a < b" and C: "0 < C" and res: "length res = b - a"
    and zero: "\<And>p. p < b - a \<Longrightarrow> (a + p) div C = i \<Longrightarrow> nthZ res p = zeroByte" and p: "p < b - a"
  shows "nthZ (if min b (i * C + C) \<le> max a (i * C) then res
      else if min (length raw) (min b (i * C + C) - i * C) \<le> max a (i * C) - i * C then res
      else copyAt (max a (i * C) - a) (take (min (length raw) (min b (i * C + C) - i * C) - (max a (i * C) - i * C))
             (drop (max a (i * C) - i * C) raw)) res) p
    = (if (a + p) div C = i then nthZ raw ((a + p) mod C) else nthZ res p)"
proof -
  define cs where "cs = i * C"
  have own: "(a + p) div C = i \<longleftrightarrow> cs \<le> a + p \<and> a + p < cs + C"
    using C unfolding cs_def by (metis add.commute div_nat_eqI dividend_less_times_div div_times_less_eq_dividend mult.commute mult_Suc_right)
  have off: "(a + p) mod C = a + p - cs" if "(a + p) div C = i"
    using that by (metis cs_def minus_div_mult_eq_mod)
  define ss where "ss = max a cs"
  have ss: "a \<le> ss" "cs \<le> ss" "ss \<le> x \<longleftrightarrow> a \<le> x \<and> cs \<le> x" for x by (auto simp: ss_def)
  define d where "d = take (min (length raw) (min b (cs + C) - cs) - (ss - cs)) (drop (ss - cs) raw)"
  have len: "t < length d \<longleftrightarrow> ss + t - cs < length raw \<and> ss + t < b \<and> ss + t < cs + C" for t
  proof -
    have "t < length d \<longleftrightarrow> t + (ss - cs) < length raw \<and> t + (ss - cs) < b - cs \<and> t + (ss - cs) < cs + C - cs"
      by (auto simp: d_def less_diff_conv)
    moreover have "t + (ss - cs) = ss + t - cs" "ss + t - cs < cs + C - cs \<longleftrightarrow> ss + t < cs + C" "ss + t - cs < b - cs \<longleftrightarrow> ss + t < b"
      using ss(2) by auto
    ultimately show ?thesis by metis
  qed
  have inside: "ss - a \<le> p \<and> p < ss - a + length d \<longleftrightarrow> (a + p) div C = i \<and> a + p - cs < length raw"
  proof (cases "cs \<le> a + p")
    case True
    then have "ss - a \<le> p" "ss + (p - (ss - a)) = a + p" using ss by (auto simp: le_diff_conv)
    moreover from this have "p < ss - a + length d \<longleftrightarrow> p - (ss - a) < length d" by linarith
    ultimately show ?thesis using True p by (auto simp: len own)
  next
    case False
    then have "\<not> ss - a \<le> p" using ss by (auto simp: le_diff_conv add.commute)
    with False show ?thesis by (simp add: own)
  qed
  have d: "d ! (p - (ss - a)) = raw ! (a + p - cs)" if "ss - a \<le> p \<and> p < ss - a + length d"
  proof -
    have "p - (ss - a) < length d" using that by linarith
    then have "d ! (p - (ss - a)) = raw ! (ss - cs + (p - (ss - a)))" by (simp add: d_def nth_drop)
    moreover have "ss - cs + (p - (ss - a)) = a + p - cs" using that ss by linarith
    ultimately show ?thesis by simp
  qed
  have copy: "nthZ (copyAt (ss - a) d res) p = (if (a + p) div C = i then nthZ raw ((a + p) mod C) else nthZ res p)"
    using res p zero [of p] d inside off by (simp add: nthZ_copyAt nthZ_def [of raw] split: if_split)
  have none: "(if (a + p) div C = i then nthZ raw ((a + p) mod C) else nthZ res p) = nthZ res p"
    if "min b (cs + C) \<le> ss \<or> min (length raw) (min b (cs + C) - cs) \<le> ss - cs"
  proof -
    have "length d = 0" using that by (auto simp: d_def)
    then show ?thesis using inside off zero p by (auto simp: nthZ_def [of raw])
  qed
  have "nthZ (if q1 then res else if q2 then res else copyAt (ss - a) d res) p
      = (if (a + p) div C = i then nthZ raw ((a + p) mod C) else nthZ res p)"
    if "q1 = (min b (cs + C) \<le> ss)" "q2 = (min (length raw) (min b (cs + C) - cs) \<le> ss - cs)" for q1 q2
    using copy none that by (cases q1; cases q2) simp_all
  then show ?thesis unfolding cs_def [symmetric] ss_def [symmetric] d_def [symmetric] by blast
qed

lemma readArrayRange_bytes:
  assumes lens: "\<And>i. length (arrayValueBytes (arr i)) \<le> ArrayChunkBytes" and range: "a \<le> b"
  shows "readArrayRange arr a b = map (byteAt arr) [a..<b]"
proof (cases "b \<le> a")
  case True
  then show ?thesis by (simp add: readArrayRange_def)
next
  case False
  define C where "C = ArrayChunkBytes"
  have C: "0 < C" by (simp add: C_def)
  define s where "s = a div C"
  define e where "e = (b - 1) div C"
  define owner where "owner p = (a + p) div C" for p
  define g where "g p = byteAt arr (a + p)" for p
  define f :: "bytes \<Rightarrow> nat \<times> bytes option \<Rightarrow> bytes" where
    "f = (\<lambda>res (i, value).
               let chunkStart = (s + i) * C;
                   segmentStart = max a chunkStart; segmentEnd = min b (chunkStart + C)
               in case value of
                    None \<Rightarrow> res
                  | Some raw \<Rightarrow>
                      if segmentEnd \<le> segmentStart then res
                      else let srcStart = segmentStart - chunkStart; srcEnd = min (length raw) (segmentEnd - chunkStart)
                           in if srcEnd \<le> srcStart then res
                              else copyAt (segmentStart - a) (take (srcEnd - srcStart) (drop srcStart raw)) res)"
  have read: "readArrayRange arr a b = foldl f (replicate (b - a) zeroByte) (enumerate 0 (arrayGetRange arr s e))"
    using False by (simp add: readArrayRange_def Let_def f_def s_def e_def C_def)
  have se: "s \<le> e" using False by (auto simp: s_def e_def intro: div_le_mono)
  have vs: "length (arrayGetRange arr s e) = Suc e - s" "\<And>i. i < Suc e - s \<Longrightarrow> arrayGetRange arr s e ! i = arr (s + i)"
    using se by (simp_all add: arrayGetRange_def Suc_diff_le del: upt_Suc)
  have "fills (b - a) owner g (s + i) (\<lambda>res. f res (0 + i, arrayGetRange arr s e ! i))" if "i < Suc e - s" for i
    unfolding vs(2) [OF that] fills_def
  proof (intro allI impI conjI)
    fix res :: bytes
    assume res: "length res = b - a" and zero: "\<forall>p < b - a. owner p = s + i \<longrightarrow> nthZ res p = zeroByte"
    show "length (f res (0 + i, arr (s + i))) = b - a" using res by (simp add: f_def Let_def split: option.splits)
    fix p
    assume p: "p < b - a"
    show "nthZ (f res (0 + i, arr (s + i))) p = (if owner p = s + i then g p else nthZ res p)"
    proof (cases "arr (s + i)")
      case None
      then have "g p = zeroByte" if "owner p = s + i" using that by (simp add: g_def owner_def C_def byteAt_None)
      with None zero p show ?thesis by (simp add: f_def)
    next
      case (Some raw)
      then have "length raw \<le> C" using lens [of "s + i"] by (simp add: arrayValueBytes_def C_def)
      moreover have "g p = nthZ raw ((a + p) mod C)" if "owner p = s + i"
        using Some that by (simp add: g_def owner_def C_def byteAt_Some)
      moreover have "nthZ (f res (0 + i, Some raw)) p = (if (a + p) div C = s + i then nthZ raw ((a + p) mod C) else nthZ res p)"
        unfolding f_def Let_def prod.case option.case add_0
        by (rule read_chunk) (use \<open>length raw \<le> C\<close> False C res zero p in \<open>auto simp: owner_def\<close>)
      ultimately show ?thesis by (simp only: Some owner_def split: if_split) simp
    qed
  qed
  then have "length (readArrayRange arr a b) = b - a \<and> (\<forall>p < b - a. nthZ (readArrayRange arr a b) p
      = (if s \<le> owner p \<and> owner p < s + (Suc e - s) then g p else nthZ (replicate (b - a) zeroByte) p))"
    unfolding read vs(1) [symmetric] by (intro fill_all) simp_all
  moreover have "s \<le> owner p \<and> owner p < s + (Suc e - s)" if "p < b - a" for p
  proof -
    have "a + p \<le> b - 1" using that by linarith
    then have "owner p \<le> e" unfolding owner_def e_def by (rule div_le_mono)
    moreover have "s \<le> owner p" unfolding owner_def s_def by (rule div_le_mono) simp
    ultimately show ?thesis using se by simp
  qed
  ultimately have "length (readArrayRange arr a b) = b - a \<and> (\<forall>p < b - a. nthZ (readArrayRange arr a b) p = g p)" by simp
  then show ?thesis by (intro nthZ_eqI) (simp_all add: g_def nthZ_def [of "map _ _"])
qed

subsection \<open>Loading and writing a whole file\<close>

lemma batch_pos [simp]: "0 < arrayCommandBatchChunks"
  by (simp add: arrayCommandBatchChunks_def)

lemma batches_cover: "n \<le> ((n + arrayCommandBatchChunks - 1) div arrayCommandBatchChunks) * arrayCommandBatchChunks"
  using dividend_less_times_div [of arrayCommandBatchChunks "n + arrayCommandBatchChunks - 1"]
  by (simp add: arrayCommandBatchChunks_def mult.commute)

lemma batch_before: "k < (n + arrayCommandBatchChunks - 1) div arrayCommandBatchChunks \<Longrightarrow> k * arrayCommandBatchChunks < n"
  using less_eq_div_iff_mult_less_eq [of arrayCommandBatchChunks "Suc k" "n + arrayCommandBatchChunks - 1"]
  by (simp add: arrayCommandBatchChunks_def Suc_le_eq)

lemma arset_batches:
  "foldl (\<lambda>a start. arset start (take arrayCommandBatchChunks (drop start chunks)) a) Map.empty
       (map (\<lambda>k. k * arrayCommandBatchChunks) [0..<m])
     = (\<lambda>i. if i < m * arrayCommandBatchChunks \<and> i < length chunks then Some (chunks ! i) else None)"
proof (induction m)
  case (Suc m)
  let ?f = "foldl (\<lambda>a start. arset start (take arrayCommandBatchChunks (drop start chunks)) a) Map.empty
       (map (\<lambda>k. k * arrayCommandBatchChunks) [0..<m])"
  have "arset (m * arrayCommandBatchChunks) (take arrayCommandBatchChunks (drop (m * arrayCommandBatchChunks) chunks)) ?f
      = (\<lambda>i. if i < Suc m * arrayCommandBatchChunks \<and> i < length chunks then Some (chunks ! i) else None)"
    unfolding Suc by (rule ext) (auto simp: arset_def not_less min_def split: if_splits)
  then show ?case by simp
qed simp

lemma queueArrayWriteFull_nth:
  "queueArrayWriteFull data arr i
     = (if i * ArrayChunkBytes < length data then Some (take ArrayChunkBytes (drop (i * ArrayChunkBytes) data)) else None)"
proof -
  have "i < length (splitArrayChunks data) \<longleftrightarrow> i * ArrayChunkBytes < length data"
    unfolding splitArrayChunks_def by (rule length_chunksOf) simp
  then show ?thesis
    using batches_cover [of "length (splitArrayChunks data)"]
    by (auto simp: queueArrayWriteFull_def Let_def batchStarts_def arset_batches splitArrayChunks_def nth_chunksOf)
qed

lemma queueArrayWriteFull_bytes: "byteAt (queueArrayWriteFull data arr) k = nthZ data k"
proof -
  have k: "k div ArrayChunkBytes * ArrayChunkBytes + k mod ArrayChunkBytes = k" by simp
  show ?thesis
  proof (cases "k div ArrayChunkBytes * ArrayChunkBytes < length data")
    case True
    then show ?thesis using k by (simp add: byteAt_def arrayValueBytes_def queueArrayWriteFull_nth nthZ_take nthZ_drop)
  next
    case False
    then have "length data \<le> k" using k by linarith
    with False show ?thesis by (simp add: byteAt_def arrayValueBytes_def queueArrayWriteFull_nth nthZ_def)
  qed
qed

lemma queueArrayWriteFull_ok: "arrayOk (queueArrayWriteFull data arr) (length data)"
  by (simp add: arrayOk_def queueArrayWriteFull_bytes arrayValueBytes_def queueArrayWriteFull_nth nthZ_def)

lemma load_chunk:
  assumes "length (arrayValueBytes (arr i)) \<le> ArrayChunkBytes"
  shows "fills sz (\<lambda>p. p div ArrayChunkBytes) (byteAt arr) i
     (\<lambda>res. case arr i of None \<Rightarrow> res | Some raw \<Rightarrow> copyAt (i * ArrayChunkBytes) (take (sz - i * ArrayChunkBytes) raw) res)"
proof (cases "arr i")
  case None
  then show ?thesis by (auto simp: fills_def byteAt_None)
next
  case (Some raw)
  show ?thesis
    unfolding fills_def Some option.case
  proof (intro allI impI conjI)
    fix res :: bytes and p
    assume res: "length res = sz" and zero: "\<forall>p < sz. p div ArrayChunkBytes = i \<longrightarrow> nthZ res p = zeroByte" and p: "p < sz"
    have raw: "length raw \<le> ArrayChunkBytes" using assms by (simp add: Some arrayValueBytes_def)
    show "nthZ (copyAt (i * ArrayChunkBytes) (take (sz - i * ArrayChunkBytes) raw) res) p
        = (if p div ArrayChunkBytes = i then byteAt arr p else nthZ res p)"
    proof (cases "p div ArrayChunkBytes = i")
      case True
      then have off: "i * ArrayChunkBytes \<le> p" "p - i * ArrayChunkBytes = p mod ArrayChunkBytes"
        by (auto simp: minus_div_mult_eq_mod)
      have "byteAt arr p = nthZ raw (p - i * ArrayChunkBytes)" using Some True off by (simp add: byteAt_Some)
      moreover have "p < i * ArrayChunkBytes + length (take (sz - i * ArrayChunkBytes) raw) \<longleftrightarrow> p - i * ArrayChunkBytes < length raw"
        using off(1) p by auto
      ultimately show ?thesis using True off(1) p res zero by (simp add: nthZ_copyAt nthZ_def [of raw])
    next
      case False
      then have "\<not> (i * ArrayChunkBytes \<le> p \<and> p < i * ArrayChunkBytes + length raw)"
        using raw byte_in_chunk [of p i] by auto
      with False show ?thesis by (auto simp: nthZ_copyAt)
    qed
  qed simp
qed

lemma loadArray_bytes:
  assumes lens: "\<And>i. length (arrayValueBytes (arr i)) \<le> ArrayChunkBytes"
  shows "loadArray arr sz = fileOf arr sz"
proof -
  define B where "B = arrayCommandBatchChunks"
  define T where "T = chunkCountForSize sz"
  define f :: "nat \<Rightarrow> bytes \<Rightarrow> nat \<times> bytes option \<Rightarrow> bytes" where
    "f = (\<lambda>start res (i, value). case value of None \<Rightarrow> res
            | Some raw \<Rightarrow> copyAt ((start + i) * ArrayChunkBytes) (take (sz - (start + i) * ArrayChunkBytes) raw) res)"
  define batch where "batch = (\<lambda>res start. foldl (f start) res (enumerate 0 (arrayGetRange arr start (min (start + B) T - 1))))"
  define after where "after m = foldl batch (replicate sz zeroByte) (map (\<lambda>k. k * B) [0..<m])" for m
  have load: "loadArray arr sz = after ((T + B - 1) div B)"
    by (simp add: loadArray_def batchStarts_def Let_def after_def batch_def f_def B_def T_def)
  have "length (after m) = sz \<and> (\<forall>p < sz. nthZ (after m) p = (if p div ArrayChunkBytes < m * B then byteAt arr p else zeroByte))"
    if "m \<le> (T + B - 1) div B" for m
    using that
  proof (induction m)
    case (Suc m)
    have m: "m * B < T" using Suc.prems batch_before [of m T] by (simp add: B_def)
    define vs where "vs = arrayGetRange arr (m * B) (min (m * B + B) T - 1)"
    have len: "m * B + length vs = min (m * B + B) T" using m batch_pos by (auto simp: vs_def arrayGetRange_def B_def)
    have nth: "vs ! i = arr (m * B + i)" if "i < length vs" for i
      using that by (simp add: vs_def arrayGetRange_def del: upt_Suc)
    have "length (foldl (f (m * B)) (after m) (enumerate 0 vs)) = sz \<and> (\<forall>p < sz. nthZ (foldl (f (m * B)) (after m) (enumerate 0 vs)) p
        = (if m * B \<le> p div ArrayChunkBytes \<and> p div ArrayChunkBytes < m * B + length vs then byteAt arr p else nthZ (after m) p))"
    proof (rule fill_all)
      show "fills sz (\<lambda>p. p div ArrayChunkBytes) (byteAt arr) (m * B + i) (\<lambda>res. f (m * B) res (0 + i, vs ! i))" if "i < length vs" for i
        using load_chunk [of arr "m * B + i" sz, OF lens] by (simp add: f_def nth [OF that])
    qed (use Suc in auto)
    moreover have "after (Suc m) = foldl (f (m * B)) (after m) (enumerate 0 vs)"
      by (simp add: after_def batch_def vs_def)
    moreover have "p div ArrayChunkBytes < m * B + length vs \<longleftrightarrow> p div ArrayChunkBytes < Suc m * B" if "p < sz" for p
    proof -
      have "p div ArrayChunkBytes < T" using that byteAt_beyond [of sz p] by (force simp: T_def)
      then show ?thesis unfolding len by auto
    qed
    ultimately show ?case using Suc by auto
  qed (simp add: after_def)
  note final = this [OF order_refl]
  have "p div ArrayChunkBytes < (T + B - 1) div B * B" if "p < sz" for p
    using that byteAt_beyond [of sz p] batches_cover [of T] by (force simp: T_def B_def)
  with final show ?thesis unfolding load by (intro file_eqI) simp_all
qed

subsection \<open>Files of bytes\<close>

text \<open>
  What a client of a content representation relies on: a state and a size stand for a string of bytes, a
  non-empty write does to it what \<open>WriteAt\<close> does to a file, and cutting (or extending) it does what
  \<open>Truncate\<close> does.
\<close>

datatype range_op = WriteOp int bytes | TruncateOp int

fun applyRange :: "(nat \<Rightarrow> bytes \<Rightarrow> 's \<Rightarrow> 's) \<Rightarrow> (nat \<Rightarrow> nat \<Rightarrow> 's \<Rightarrow> 's) \<Rightarrow> range_op \<Rightarrow> 's \<times> nat \<Rightarrow> 's \<times> nat" where
  "applyRange wr shrink (WriteOp off d) (s, sz) =
     (if off < 0 \<or> d = [] then (s, sz) else (wr (nat off) d s, max sz (nat off + length d)))"
| "applyRange wr shrink (TruncateOp n) (s, sz) = (if n < 0 then (s, sz) else (shrink sz (nat n) s, nat n))"

fun applyBytes :: "range_op \<Rightarrow> bytes \<Rightarrow> bytes" where
  "applyBytes (WriteOp off d) f = (if off < 0 then f else writeAt (nat off) d f)"
| "applyBytes (TruncateOp n) f = (if n < 0 then f else truncateTo (nat n) f)"

locale byte_file =
  fixes ok :: "'s \<Rightarrow> nat \<Rightarrow> bool"
    and contents :: "'s \<Rightarrow> nat \<Rightarrow> bytes"
    and wr :: "nat \<Rightarrow> bytes \<Rightarrow> 's \<Rightarrow> 's"
    and shrink :: "nat \<Rightarrow> nat \<Rightarrow> 's \<Rightarrow> 's"
  assumes size: "ok s sz \<Longrightarrow> length (contents s sz) = sz"
    and wr: "ok s sz \<Longrightarrow> d \<noteq> [] \<Longrightarrow> ok (wr off d s) (max sz (off + length d))
        \<and> contents (wr off d s) (max sz (off + length d)) = writeAt off d (contents s sz)"
    and shrink: "ok s sz \<Longrightarrow> ok (shrink sz n s) n \<and> contents (shrink sz n s) n = truncateTo n (contents s sz)"
begin

lemma apply_refines:
  assumes "ok s sz" and "applyRange wr shrink x (s, sz) = (s', sz')"
  shows "ok s' sz' \<and> contents s' sz' = applyBytes x (contents s sz)"
  using assms by (cases x) (auto simp: wr shrink writeAt_def split: if_splits)

lemma run_refines:
  "ok s sz \<Longrightarrow> fold (applyRange wr shrink) xs (s, sz) = (s', sz')
     \<Longrightarrow> ok s' sz' \<and> contents s' sz' = fold applyBytes xs (contents s sz)"
proof (induction xs arbitrary: s sz)
  case (Cons x xs)
  obtain t tz where t: "applyRange wr shrink x (s, sz) = (t, tz)" by fastforce
  from apply_refines [OF Cons.prems(1) this] Cons.IH [of t tz] Cons.prems(2) show ?case by (simp add: t)
qed simp

end

lemma length_writeAt: "d \<noteq> [] \<Longrightarrow> length (writeAt off d f) = max (length f) (off + length d)"
  by (auto simp: writeAt_def)

interpretation arr: byte_file arrayOk fileOf writeArrayRange truncateArray
proof unfold_locales
  fix s sz off n and d :: bytes
  assume ok: "arrayOk s sz"
  then have lens: "\<And>i. length (arrayValueBytes (s i)) \<le> ArrayChunkBytes" by (simp add: arrayOk_def)
  show "length (fileOf s sz) = sz" by simp
  note shrink = truncateArray_bytes [OF ok]
  have "arrayOk (truncateArray sz n s) n" using ok shrink by (simp add: arrayOk_def)
  moreover have "truncateTo n (fileOf s sz) = fileOf (truncateArray sz n s) n"
    by (intro file_eqI) (simp_all add: nthZ_truncateTo nthZ_fileOf [OF ok] shrink)
  ultimately show "arrayOk (truncateArray sz n s) n \<and> fileOf (truncateArray sz n s) n = truncateTo n (fileOf s sz)" by simp
  assume d: "d \<noteq> []"
  note put = writeArrayRange_bytes [OF lens d]
  have "arrayOk (writeArrayRange off d s) (max sz (off + length d))" using ok put by (auto simp: arrayOk_def)
  moreover have "writeAt off d (fileOf s sz) = fileOf (writeArrayRange off d s) (max sz (off + length d))"
    by (intro file_eqI) (simp_all add: nthZ_writeAt length_writeAt d nthZ_fileOf [OF ok] put)
  ultimately show "arrayOk (writeArrayRange off d s) (max sz (off + length d))
      \<and> fileOf (writeArrayRange off d s) (max sz (off + length d)) = writeAt off d (fileOf s sz)" by simp
qed

subsection \<open>The array refines a file of bytes\<close>

definition applyArray :: "range_op \<Rightarrow> chunk_array \<times> nat \<Rightarrow> chunk_array \<times> nat" where
  "applyArray x = (\<lambda>(arr, sz). case x of
       WriteOp off d \<Rightarrow> (case WriteRange True off d arr of
            Inl _ \<Rightarrow> (arr, sz)
          | Inr arr' \<Rightarrow> (arr', if d = [] then sz else max sz (nat off + length d)))
     | TruncateOp n \<Rightarrow> (case Truncate True sz n arr of Inl _ \<Rightarrow> (arr, sz) | Inr arr' \<Rightarrow> (arr', nat n)))"

lemma applyArray_range: "applyArray = applyRange writeArrayRange truncateArray"
  by (auto simp: fun_eq_iff applyArray_def WriteRange_def Truncate_def split: range_op.split)

lemma fileOf_queueArrayWriteFull: "fileOf (queueArrayWriteFull data old) (length data) = data"
  by (rule sym, rule file_eqI) (simp_all add: queueArrayWriteFull_bytes)

lemma ReadRange_bytes:
  assumes ok: "arrayOk arr sz"
  shows "ReadRange True arr sz off n
    = (if off < 0 \<and> 0 < n then Inl ''invalid offset'' else Inr (take (nat n) (drop (nat off) (fileOf arr sz))))"
proof (cases "n \<le> 0 \<or> off \<ge> int sz \<or> off < 0")
  case True
  then show ?thesis by (auto simp: ReadRange_def)
next
  case False
  define a where "a = nat off"
  define b where "b = nat (min (off + n) (int sz))"
  have ab: "a \<le> b" "b = min (a + nat n) sz" using False by (auto simp: a_def b_def)
  have "ReadRange True arr sz off n = Inr (map (byteAt arr) [a..<b])"
    using False readArrayRange_bytes [of arr a b] ok ab by (simp add: ReadRange_def a_def b_def arrayOk_def)
  also have "map (byteAt arr) [a..<b] = take (nat n) (drop a (fileOf arr sz))"
    unfolding ab(2) fileOf_def by (simp add: drop_map take_map min_def)
  finally show ?thesis using False by (simp add: a_def)
qed

text \<open>
  C7: An array of 4096-byte chunks is a file.  After a full write and any sequence of range writes and
  truncations, negative ones included, loading the array gives the bytes a plain file would hold, and a
  range read gives the same slice of them; holes, short chunks and chunk borders never show.
\<close>

theorem array_refines_file:
  "case fold applyArray xs (queueArrayWriteFull data old, length data) of (arr, sz) \<Rightarrow>
     loadArray arr sz = fold applyBytes xs data
     \<and> ReadRange True arr sz off n
       = (if off < 0 \<and> 0 < n then Inl ''invalid offset'' else Inr (take (nat n) (drop (nat off) (fold applyBytes xs data))))"
proof -
  obtain arr sz where run: "fold applyArray xs (queueArrayWriteFull data old, length data) = (arr, sz)" by fastforce
  have "arrayOk arr sz \<and> fileOf arr sz = fold applyBytes xs (fileOf (queueArrayWriteFull data old) (length data))"
    by (rule arr.run_refines [OF queueArrayWriteFull_ok]) (use run in \<open>simp add: applyArray_range\<close>)
  then have "arrayOk arr sz" "fileOf arr sz = fold applyBytes xs data" by (simp_all add: fileOf_queueArrayWriteFull)
  then show ?thesis using loadArray_bytes [of arr sz] ReadRange_bytes [of arr sz] by (simp add: run arrayOk_def)
qed

end
