(* ===== verification/RangeWrites.thy ===== *)
theory RangeWrites
  imports ArrayContent Publication
begin

text \<open>
  Range reads, range writes and truncations through an open handle
  (\<open>src/mount/internal/client/native_range.go\<close>), over the two representations of file content: a string
  (\<open>ext\<close>) and an array of chunks (\<open>array\<close>), with old files that still hold their bytes inline.

  One file is a record of what these operations read and change: the fields of the inode hash and the value
  under the content key.  The publication itself is the script of theory Publication; here its part is
  the comparison of revisions and the replacement of content, size and revision.  An operation is shown to
  act on the bytes of the file exactly once or not at all, whatever other clients do between its steps.
\<close>

subsection \<open>Content in two representations\<close>

datatype content_val = StringVal bytes | ArrayVal chunk_array

definition RefExternal :: string where
  "RefExternal = ''ext''"

definition RefArray :: string where
  "RefArray = ''array''"

lemma refs [simp]: "RefExternal \<noteq> RefArray" "RefArray \<noteq> RefExternal" "RefExternal \<noteq> []" "RefArray \<noteq> []"
    "[] \<noteq> RefExternal" "[] \<noteq> RefArray" "trimSpace RefExternal = RefExternal" "trimSpace RefArray = RefArray"
    "trimSpace [] = []"
  by (simp_all add: RefExternal_def RefArray_def) code_simp+

lemma isExternal_iff: "isExternalContentRef r \<longleftrightarrow> trimSpace r = RefExternal \<or> trimSpace r = RefArray"
  by (simp add: isExternalContentRef_def RefExternal_def RefArray_def)

definition wrongTypeErr :: string where
  "wrongTypeErr = ''WRONGTYPE''"

definition unsupported :: string where
  "unsupported = ''array content unsupported''"

text \<open>\<open>GET\<close> and \<open>GETRANGE\<close> of the content key: a missing key is empty, an array is an error.\<close>

definition getString :: "content_val option \<Rightarrow> string + bytes" where
  "getString live = (case live of None \<Rightarrow> Inr [] | Some (StringVal b) \<Rightarrow> Inr b | Some (ArrayVal _) \<Rightarrow> Inl wrongTypeErr)"

definition getArray :: "content_val option \<Rightarrow> string + chunk_array" where
  "getArray live = (case live of None \<Rightarrow> Inr Map.empty | Some (ArrayVal a) \<Rightarrow> Inr a | Some (StringVal _) \<Rightarrow> Inl wrongTypeErr)"

definition loadContentRef :: "bool \<Rightarrow> string \<Rightarrow> content_val option \<Rightarrow> nat \<Rightarrow> string + bytes" where
  "loadContentRef supported r live sz =
     (if trimSpace r = [] \<or> trimSpace r = RefExternal then getString live
      else if trimSpace r = RefArray then
        (if \<not> supported then Inl unsupported
         else if sz = 0 then Inr []
         else case getArray live of Inl e \<Rightarrow> Inl e | Inr a \<Rightarrow> Inr (loadArray a sz))
      else Inl (''unsupported content_ref '' @ r))"

definition readContent :: "bool \<Rightarrow> string \<Rightarrow> content_val option \<Rightarrow> nat \<Rightarrow> int \<Rightarrow> int \<Rightarrow> string + bytes" where
  "readContent supported r live sz off n =
     (if n \<le> 0 \<or> int sz \<le> off then Inr []
      else if off < 0 then Inl ''invalid offset''
      else if trimSpace r = [] \<or> trimSpace r = RefExternal then
        (case getString live of Inl e \<Rightarrow> Inl e
           | Inr b \<Rightarrow> Inr (take (nat (min (off + n) (int sz) - off)) (drop (nat off) b)))
      else if trimSpace r = RefArray then
        (if \<not> supported then Inl unsupported
         else case getArray live of Inl e \<Rightarrow> Inl e | Inr a \<Rightarrow> ReadRange True a sz off n)
      else Inl (''unsupported content_ref '' @ r))"

definition queueStageWrite :: "string \<Rightarrow> bytes \<Rightarrow> content_val option" where
  "queueStageWrite r data =
     (if trimSpace r = RefArray then (if data = [] then None else Some (ArrayVal (queueArrayWriteFull data Map.empty)))
      else Some (StringVal data))"

subsection \<open>Files\<close>

record range_file =
  rf_type :: string
  rf_ref :: string
  rf_size :: nat
  rf_inline :: bytes
  rf_live :: "content_val option"
  rf_revision :: string

text \<open>A file that is gone has no hash and no content key.\<close>

definition liveOf :: "range_file option \<Rightarrow> content_val option" where
  "liveOf g = (case g of None \<Rightarrow> None | Some f \<Rightarrow> rf_live f)"

definition loadContentExternal :: "bool \<Rightarrow> string \<Rightarrow> range_file option \<Rightarrow> string + bytes" where
  "loadContentExternal supported r g =
     (if r = RefExternal then getString (liveOf g)
      else if isExternalContentRef r then loadContentRef supported r (liveOf g) (case g of None \<Rightarrow> 0 | Some f \<Rightarrow> rf_size f)
      else Inr (case g of None \<Rightarrow> [] | Some f \<Rightarrow> rf_inline f))"

definition selectRef :: "bool \<Rightarrow> string \<Rightarrow> string" where
  "selectRef supported r =
     (let preferred = (if supported then RefArray else RefExternal) in
      if r = [] then preferred
      else if r = RefExternal \<and> preferred = RefArray then preferred
      else r)"

text \<open>The bytes of a file, and when its parts fit together.\<close>

definition bytesOf :: "range_file \<Rightarrow> bytes" where
  "bytesOf f =
     (if rf_ref f = RefArray then (case rf_live f of Some (ArrayVal a) \<Rightarrow> fileOf a (rf_size f) | _ \<Rightarrow> [])
      else if rf_ref f = RefExternal then (case rf_live f of Some (StringVal b) \<Rightarrow> b | _ \<Rightarrow> [])
      else rf_inline f)"

definition fileOk :: "range_file \<Rightarrow> bool" where
  "fileOk f \<longleftrightarrow>
     (if rf_ref f = RefArray then
        (if rf_size f = 0 then rf_live f = None
         else (\<exists>a. rf_live f = Some (ArrayVal a) \<and> arrayOk a (rf_size f) \<and> a 0 \<noteq> None))
      else if rf_ref f = RefExternal then
        (rf_live f = None \<and> rf_size f = 0 \<or> (\<exists>b. rf_live f = Some (StringVal b) \<and> length b = rf_size f))
      else rf_ref f = [] \<and> length (rf_inline f) = rf_size f)"

subsection \<open>Staging\<close>

definition bindE :: "string + 'a \<Rightarrow> ('a \<Rightarrow> string + 'b) \<Rightarrow> string + 'b" where
  "bindE x k = (case x of Inl e \<Rightarrow> Inl e | Inr a \<Rightarrow> k a)"

lemma bindE_simps [simp]: "bindE (Inl e) k = Inl e" "bindE (Inr a) k = k a"
  by (simp_all add: bindE_def)

definition ErrWriteConflict :: string where
  "ErrWriteConflict = ''remote file changed during publication''"

text \<open>
  \<open>stageInodeRange\<close>: \<open>f\<close> is the inode as it was loaded, \<open>g\<close> the file at the time the stage is made.  The
  commands on the stage in order: a copy on the server or a full rewrite, the payload, the cut or the
  growth, the empty marker.  A type error is a conflict when the file has changed since.
\<close>

definition rangeStageError :: "range_file \<Rightarrow> range_file option \<Rightarrow> string \<Rightarrow> string" where
  "rangeStageError f g cause =
     (if containsStr wrongTypeErr cause \<and> (case g of None \<Rightarrow> True | Some h \<Rightarrow> rf_revision h \<noteq> rf_revision f) then ErrWriteConflict
      else cause)"

definition stageError :: "range_file \<Rightarrow> range_file option \<Rightarrow> string + 'a \<Rightarrow> string + 'a" where
  "stageError f g x = (case x of Inl e \<Rightarrow> Inl (rangeStageError f g e) | Inr a \<Rightarrow> Inr a)"

lemma stageError_Inr [simp]: "stageError f g (Inr a) = Inr a"
  by (simp add: stageError_def)

definition seedStage :: "bool \<Rightarrow> range_file \<Rightarrow> range_file option \<Rightarrow> string + content_val option" where
  "seedStage supported f g =
     (let r = selectRef supported (rf_ref f) in
      if isExternalContentRef (rf_ref f) \<and> rf_ref f = r \<and> 0 < rf_size f then
        (case liveOf g of None \<Rightarrow> Inl ErrWriteConflict | Some v \<Rightarrow> Inr (Some v))
      else
        bindE (if 0 < rf_size f then stageError f g (loadContentExternal supported (rf_ref f) g) else Inr []) (\<lambda>content.
        Inr (if r = RefArray \<and> content = [] then Some (ArrayVal [0 \<mapsto> []]) else queueStageWrite r content)))"

text \<open>\<open>SETRANGE\<close> fills a gap with zero bytes; the script behind a shrink keeps a prefix.\<close>

definition setRange :: "nat \<Rightarrow> bytes \<Rightarrow> content_val option \<Rightarrow> string + content_val option" where
  "setRange off d stage = bindE (getString stage) (\<lambda>b. Inr (Some (StringVal (writeAt off d b))))"

definition shrinkStringStage :: "nat \<Rightarrow> content_val option \<Rightarrow> string + content_val option" where
  "shrinkStringStage n stage = (if n = 0 then Inr (Some (StringVal [])) else bindE (getString stage) (\<lambda>b. Inr (Some (StringVal (take n b)))))"

definition writeArrayStage :: "bool \<Rightarrow> nat \<Rightarrow> bytes \<Rightarrow> content_val option \<Rightarrow> string + content_val option" where
  "writeArrayStage supported off d stage =
     bindE (getArray stage) (\<lambda>a. bindE (WriteRange supported (int off) d a) (\<lambda>a. Inr (Some (ArrayVal a))))"

definition cutArrayStage :: "bool \<Rightarrow> nat \<Rightarrow> nat \<Rightarrow> content_val option \<Rightarrow> string + content_val option" where
  "cutArrayStage supported oldSize newSize stage =
     (if supported \<and> newSize = 0 then Inr None
      else bindE (getArray stage) (\<lambda>a. bindE (Truncate supported oldSize (int newSize) a) (\<lambda>a. Inr (Some (ArrayVal a)))))"

definition changeStage :: "bool \<Rightarrow> range_file \<Rightarrow> range_file option \<Rightarrow> string \<Rightarrow> bytes \<Rightarrow> nat \<Rightarrow> nat \<Rightarrow> content_val option
    \<Rightarrow> string + content_val option" where
  "changeStage supported f g r payload off newSize stage =
     (if r = RefArray then
        bindE (if payload = [] then Inr stage else stageError f g (writeArrayStage supported off payload stage)) (\<lambda>stage.
        if newSize < rf_size f then cutArrayStage supported (rf_size f) newSize stage else Inr stage)
      else
        bindE (if payload = [] then Inr stage else stageError f g (setRange off payload stage)) (\<lambda>stage.
        if newSize < rf_size f then shrinkStringStage newSize stage
        else if newSize > rf_size f \<and> payload = [] then setRange (newSize - 1) [zeroByte] stage
        else Inr stage))"

definition stageInodeRange :: "bool \<Rightarrow> range_file \<Rightarrow> range_file option \<Rightarrow> bytes \<Rightarrow> nat \<Rightarrow> nat \<Rightarrow> string + string \<times> content_val option" where
  "stageInodeRange supported f g payload off newSize =
     (let r = selectRef supported (rf_ref f) in
      bindE (seedStage supported f g) (\<lambda>stage.
      bindE (changeStage supported f g r payload off newSize stage) (\<lambda>stage.
      Inr (r, if newSize = 0 then Some (StringVal []) else stage))))"

subsection \<open>One operation\<close>

text \<open>
  What other clients do around the steps of one attempt (before the inode is loaded, before the stage is
  made, before the publication), the fresh token of the publication, and the failures that come from
  parts not modelled here, in the order of the code: the check of session and generation, the write condition and
  the path of the inode, the history snapshot, a refused publication, the check after a read, and the record of
  the history.
\<close>

record range_env =
  re_before :: "range_file option \<Rightarrow> range_file option"
  re_stage :: "range_file option \<Rightarrow> range_file option"
  re_publish :: "range_file option \<Rightarrow> range_file option"
  re_token :: string
  re_check :: "string option"
  re_access :: "string option"
  re_snapshot :: "string option"
  re_refused :: "string option"
  re_recheck :: "string option"
  re_history :: "string option"

definition maxInt64 :: int where
  "maxInt64 = 2 ^ 63 - 1"

text \<open>Where an operation writes and the size it leaves: \<open>None\<close> when there is nothing to do.\<close>

definition rangePlan :: "nat \<Rightarrow> bytes \<Rightarrow> int \<Rightarrow> int \<Rightarrow> string + (nat \<times> nat) option" where
  "rangePlan oldSize payload off trunc =
     (let writeOffset = (if off = -1 then int oldSize else off) in
      if int (length payload) > maxInt64 - writeOffset then Inl ''invalid range''
      else let newSize = (if trunc \<ge> 0 then trunc
                          else if payload \<noteq> [] then max (int oldSize) (writeOffset + int (length payload)) else int oldSize)
           in if (trunc \<ge> 0 \<and> newSize = int oldSize) \<or> (trunc < 0 \<and> payload = []) then Inr None
              else Inr (Some (nat writeOffset, nat newSize)))"

text \<open>
  The part of the publication script that concerns the file: it is refused when the file is gone or its
  revision is not the one that was loaded.
\<close>

definition publishRange :: "range_file \<Rightarrow> string \<Rightarrow> content_val option \<Rightarrow> nat \<Rightarrow> string \<Rightarrow> range_file option \<Rightarrow> range_file option" where
  "publishRange f r stage newSize token h =
     (case h of None \<Rightarrow> None
      | Some now \<Rightarrow>
          if rf_revision now \<noteq> rf_revision f then None
          else Some (now\<lparr>rf_ref := r, rf_size := newSize, rf_inline := [],
                  rf_live := (if newSize = 0 then None else stage), rf_revision := token\<rparr>))"

fun changeInodeRange :: "nat \<Rightarrow> bool \<Rightarrow> bool \<Rightarrow> bytes \<Rightarrow> int \<Rightarrow> int \<Rightarrow> (nat \<Rightarrow> range_env) \<Rightarrow> nat \<Rightarrow> range_file option
    \<Rightarrow> (string + unit) \<times> range_file option" where
  "changeInodeRange 0 supported conditional payload off trunc env k s = (Inl ErrWriteConflict, s)"
| "changeInodeRange (Suc n) supported conditional payload off trunc env k s =
     (let e = env k; s1 = re_before e s in
      case re_check e of Some err \<Rightarrow> (Inl err, s1) | None \<Rightarrow>
      case s1 of None \<Rightarrow> (Inl ''not found'', s1)
      | Some f \<Rightarrow>
        if rf_type f \<noteq> ''file'' then (Inl ''not a file'', s1)
        else case re_access e of Some err \<Rightarrow> (Inl err, s1) | None \<Rightarrow>
          case rangePlan (rf_size f) payload off trunc of Inl err \<Rightarrow> (Inl err, s1)
          | Inr None \<Rightarrow> (Inr (), s1)
          | Inr (Some (pos, newSize)) \<Rightarrow>
            case re_snapshot e of Some err \<Rightarrow> (Inl err, s1) | None \<Rightarrow>
            let s2 = re_stage e s1; s3 = re_publish e s2;
                again = (if conditional then (Inl ErrWriteConflict, s3)
                         else changeInodeRange n supported conditional payload off trunc env (Suc k) s3)
            in case stageInodeRange supported f s2 payload pos newSize of
                 Inl err \<Rightarrow> if err = ErrWriteConflict then again else (Inl err, s3)
               | Inr (r, stage) \<Rightarrow>
                   (case re_refused e of Some err \<Rightarrow> (Inl err, s3) | None \<Rightarrow>
                    case publishRange f r stage newSize (re_token e) s3 of
                      None \<Rightarrow> again
                    | Some published \<Rightarrow>
                        (case re_history e of Some err \<Rightarrow> Inl err | None \<Rightarrow> Inr (), Some published)))"

definition WriteInodeAtPath :: "bool \<Rightarrow> bool \<Rightarrow> bytes \<Rightarrow> int \<Rightarrow> (nat \<Rightarrow> range_env) \<Rightarrow> range_file option
    \<Rightarrow> (string + unit) \<times> range_file option" where
  "WriteInodeAtPath supported conditional payload off env s =
     (if off < -1 \<or> (off \<ge> 0 \<and> int (length payload) > maxInt64 - off) then (Inl ''invalid range'', s)
      else changeInodeRange 32 supported conditional payload off (-1) env 0 s)"

definition TruncateInodeAtPath :: "bool \<Rightarrow> bool \<Rightarrow> int \<Rightarrow> (nat \<Rightarrow> range_env) \<Rightarrow> range_file option
    \<Rightarrow> (string + unit) \<times> range_file option" where
  "TruncateInodeAtPath supported conditional sz env s =
     (if sz < 0 then (Inl ''invalid size'', s)
      else changeInodeRange 32 supported conditional [] 0 sz env 0 s)"

fun readInodeAt :: "nat \<Rightarrow> bool \<Rightarrow> int \<Rightarrow> int \<Rightarrow> (nat \<Rightarrow> range_env) \<Rightarrow> nat \<Rightarrow> range_file option \<Rightarrow> (string + bytes) \<times> range_file option" where
  "readInodeAt 0 supported off sz env k s = (Inl ErrWriteConflict, s)"
| "readInodeAt (Suc n) supported off sz env k s =
     (let e = env k; s1 = re_before e s in
      case re_check e of Some err \<Rightarrow> (Inl err, s1) | None \<Rightarrow>
      case s1 of None \<Rightarrow> (Inl ''not found'', s1)
      | Some f \<Rightarrow>
        if rf_type f \<noteq> ''file'' then (Inl ''not a file'', s1)
        else let s2 = re_stage e s1; s3 = re_publish e s2;
                 result = (if off < int (rf_size f) \<and> sz \<noteq> 0 then
                     (if isExternalContentRef (rf_ref f) then readContent supported (rf_ref f) (liveOf s2) (rf_size f) off sz
                      else bindE (loadContentExternal supported (rf_ref f) s2) (\<lambda>raw. Inr (take (nat sz) (drop (nat off) raw))))
                   else Inr [])
             in case s3 of None \<Rightarrow> (Inl ''not found'', s3)
                | Some now \<Rightarrow>
                    if rf_revision now \<noteq> rf_revision f then readInodeAt n supported off sz env (Suc k) s3
                    else case result of Inl err \<Rightarrow> (Inl err, s3)
                         | Inr b \<Rightarrow> (case re_recheck e of Some err \<Rightarrow> (Inl err, s3) | None \<Rightarrow> (Inr b, s3)))"

definition ReadInodeAt :: "bool \<Rightarrow> int \<Rightarrow> int \<Rightarrow> (nat \<Rightarrow> range_env) \<Rightarrow> range_file option \<Rightarrow> (string + bytes) \<times> range_file option" where
  "ReadInodeAt supported off sz env s =
     (if off < 0 \<or> sz < 0 \<or> sz > maxInt64 - off then (Inl ''invalid range'', s)
      else readInodeAt 16 supported off sz env 0 s)"

subsection \<open>A stage holds the bytes the operation leaves\<close>

text \<open>What an operation does to the bytes of a file.\<close>

definition rangeEffect :: "bytes \<Rightarrow> int \<Rightarrow> int \<Rightarrow> bytes \<Rightarrow> bytes" where
  "rangeEffect payload off trunc f =
     (if trunc \<ge> 0 then truncateTo (nat trunc) f else writeAt (nat (if off = -1 then int (length f) else off)) payload f)"

definition cutString :: "nat \<Rightarrow> nat \<Rightarrow> bytes \<Rightarrow> bytes" where
  "cutString sz n s = (if n < sz then take n s else if n > sz then writeAt (n - 1) [zeroByte] s else s)"

interpretation str: byte_file "\<lambda>s sz. length s = sz" "\<lambda>s sz. s" writeAt cutString
proof unfold_locales
  fix s :: bytes and d :: bytes and sz n off
  assume sz: "length s = sz"
  then show "length s = sz" .
  have "cutString sz n s = truncateTo n s"
    using sz by (intro nthZ_eqI) (auto simp: cutString_def nthZ_truncateTo nthZ_take nthZ_writeAt length_writeAt nthZ_def [of s])
  then show "length (cutString sz n s) = n \<and> cutString sz n s = truncateTo n s" by simp
  assume "d \<noteq> []"
  with sz show "length (writeAt off d s) = max sz (off + length d) \<and> writeAt off d s = writeAt off d s"
    by (simp add: length_writeAt)
qed

lemma writeArrayRange_first: "arr 0 \<noteq> None \<Longrightarrow> writeArrayRange off d arr 0 \<noteq> None"
  by (auto simp: writeArrayRange_def Let_def arset_def)

lemma truncateArray_first: "arr 0 \<noteq> None \<Longrightarrow> 0 < n \<Longrightarrow> truncateArray sz n arr 0 \<noteq> None"
  using chunkCount_pos [of n] by (auto simp: truncateArray_def Let_def ardelrange_def arset_single split: option.split)

lemma truncateArray_grow: "sz \<le> n \<Longrightarrow> 0 < n \<Longrightarrow> truncateArray sz n arr = arr"
  by (auto simp: truncateArray_def)

lemma rangePlan_Some:
  assumes "rangePlan oldSize payload off trunc = Inr (Some (pos, newSize))" and "-1 \<le> off" and "trunc < 0 \<or> payload = []"
  shows "(payload = [] \<and> 0 \<le> trunc \<and> newSize = nat trunc \<and> newSize \<noteq> oldSize)
    \<or> (payload \<noteq> [] \<and> trunc < 0 \<and> pos = nat (if off = -1 then int oldSize else off) \<and> newSize = max oldSize (pos + length payload))"
  using assms by (auto simp: rangePlan_def Let_def max_def split: if_splits)

lemma seed_array:
  assumes ok: "fileOk f" and r: "selectRef supported (rf_ref f) = RefArray" and sup: "supported"
  shows "\<exists>a. seedStage supported f (Some f) = Inr (Some (ArrayVal a)) \<and> arrayOk a (rf_size f)
      \<and> fileOf a (rf_size f) = bytesOf f \<and> a 0 \<noteq> None"
proof (cases "rf_ref f = RefArray \<and> 0 < rf_size f")
  case True
  with ok r show ?thesis by (auto simp: fileOk_def seedStage_def bytesOf_def liveOf_def isExternal_iff)
next
  case False
  have content: "(if 0 < rf_size f then stageError f (Some f) (loadContentExternal supported (rf_ref f) (Some f)) else Inr [])
      = Inr (bytesOf f) \<and> length (bytesOf f) = rf_size f"
    using ok False
    by (auto simp: fileOk_def loadContentExternal_def bytesOf_def getString_def liveOf_def isExternal_iff split: if_splits option.splits)
  have seed: "seedStage supported f (Some f)
      = Inr (if bytesOf f = [] then Some (ArrayVal [0 \<mapsto> []]) else queueStageWrite RefArray (bytesOf f))"
    using False content by (auto simp: seedStage_def r Let_def)
  show ?thesis
  proof (cases "bytesOf f = []")
    case True
    then have "rf_size f = 0" using content by simp
    then show ?thesis using True by (simp add: seed arrayOk_def byteAt_def arrayValueBytes_def fileOf_def)
  next
    case False
    then have "queueArrayWriteFull (bytesOf f) Map.empty 0 \<noteq> None" by (simp add: queueArrayWriteFull_nth)
    then show ?thesis
      using False content queueArrayWriteFull_ok [of "bytesOf f" Map.empty] fileOf_queueArrayWriteFull [of "bytesOf f" Map.empty]
      by (simp add: seed queueStageWrite_def)
  qed
qed

lemma seed_string:
  assumes "fileOk f" and "selectRef supported (rf_ref f) \<noteq> RefArray"
  shows "seedStage supported f (Some f) = Inr (Some (StringVal (bytesOf f))) \<and> length (bytesOf f) = rf_size f
      \<and> selectRef supported (rf_ref f) = RefExternal"
  using assms
  by (auto simp: fileOk_def seedStage_def bytesOf_def liveOf_def isExternal_iff selectRef_def Let_def
      loadContentExternal_def getString_def queueStageWrite_def split: if_splits)

lemma length_bytesOf: "fileOk f \<Longrightarrow> length (bytesOf f) = rf_size f"
  by (auto simp: fileOk_def bytesOf_def split: if_splits)

text \<open>The change of an array stage and of a string stage, in the two cases of \<open>rangePlan_Some\<close>.\<close>

lemma cut_array_stage:
  assumes ok: "arrayOk a (rf_size f)" "a 0 \<noteq> None" and n: "n \<noteq> rf_size f"
  shows "\<exists>v. changeStage True f g RefArray [] pos n (Some (ArrayVal a)) = Inr v
    \<and> (0 < n \<longrightarrow> (\<exists>a'. v = Some (ArrayVal a') \<and> arrayOk a' n \<and> fileOf a' n = truncateTo n (fileOf a (rf_size f)) \<and> a' 0 \<noteq> None))"
proof -
  note refines = arr.shrink [OF ok(1), of n]
  show ?thesis
  proof (cases "n < rf_size f")
    case True
    then show ?thesis
      using refines truncateArray_first [of a n "rf_size f"] ok(2)
      by (cases "n = 0") (simp_all add: changeStage_def cutArrayStage_def getArray_def Truncate_def)
  next
    case False
    then show ?thesis using refines ok(2) n by (simp add: changeStage_def truncateArray_grow)
  qed
qed

lemma write_array_stage:
  assumes ok: "arrayOk a (rf_size f)" "a 0 \<noteq> None" and payload: "payload \<noteq> []" and n: "n = max (rf_size f) (pos + length payload)"
  shows "\<exists>a'. changeStage True f g RefArray payload pos n (Some (ArrayVal a)) = Inr (Some (ArrayVal a'))
    \<and> arrayOk a' n \<and> fileOf a' n = writeAt pos payload (fileOf a (rf_size f)) \<and> a' 0 \<noteq> None"
  using arr.wr [OF ok(1) payload, of pos] writeArrayRange_first [of a pos payload] ok(2) payload
  by (simp add: changeStage_def writeArrayStage_def getArray_def WriteRange_def n)

lemma cut_string_stage:
  assumes "length b = rf_size f" and "n \<noteq> rf_size f"
  shows "\<exists>v. changeStage supported f g RefExternal [] pos n (Some (StringVal b)) = Inr v
    \<and> v = Some (StringVal (truncateTo n b))"
  using assms str.shrink [of b "rf_size f" n]
  by (auto simp: changeStage_def shrinkStringStage_def setRange_def getString_def cutString_def)

lemma write_string_stage:
  assumes "length b = rf_size f" and "payload \<noteq> []" and "n = max (rf_size f) (pos + length payload)"
  shows "changeStage supported f g RefExternal payload pos n (Some (StringVal b)) = Inr (Some (StringVal (writeAt pos payload b)))"
  using assms by (simp add: changeStage_def setRange_def getString_def)

text \<open>What an attempt publishes when nothing has changed since the inode was loaded.\<close>

abbreviation republished :: "range_file \<Rightarrow> string \<Rightarrow> nat \<Rightarrow> content_val option \<Rightarrow> string \<Rightarrow> range_file" where
  "republished f r n stage token \<equiv>
     f\<lparr>rf_ref := r, rf_size := n, rf_inline := [], rf_live := (if n = 0 then None else stage), rf_revision := token\<rparr>"

lemma republished_array:
  "n = 0 \<and> e = [] \<or> (\<exists>a. stage = Some (ArrayVal a) \<and> arrayOk a n \<and> fileOf a n = e \<and> a 0 \<noteq> None)
     \<Longrightarrow> fileOk (republished f RefArray n stage token) \<and> bytesOf (republished f RefArray n stage token) = e"
  by (cases "n = 0") (auto simp: fileOk_def bytesOf_def fileOf_def)

lemma republished_string:
  "stage = Some (StringVal e) \<and> length e = n
     \<Longrightarrow> fileOk (republished f RefExternal n stage token) \<and> bytesOf (republished f RefExternal n stage token) = e"
  by (cases "n = 0") (auto simp: fileOk_def bytesOf_def)

lemma stage_exact:
  assumes ok: "fileOk f" and sup: "supported \<or> rf_ref f \<noteq> RefArray"
    and plan: "rangePlan (rf_size f) payload off trunc = Inr (Some (pos, n))" and off: "-1 \<le> off" and one: "trunc < 0 \<or> payload = []"
  shows "\<exists>r stage. stageInodeRange supported f (Some f) payload pos n = Inr (r, stage)
     \<and> fileOk (republished f r n stage token) \<and> bytesOf (republished f r n stage token) = rangeEffect payload off trunc (bytesOf f)"
proof (cases "selectRef supported (rf_ref f) = RefArray")
  case True
  then have s: "supported" using sup by (auto simp: selectRef_def Let_def split: if_splits)
  obtain a where seed: "seedStage supported f (Some f) = Inr (Some (ArrayVal a))" and a: "arrayOk a (rf_size f)" "a 0 \<noteq> None"
    and bytes: "fileOf a (rf_size f) = bytesOf f"
    using seed_array [OF ok True s] by auto
  have "\<exists>v. changeStage True f (Some f) RefArray payload pos n (Some (ArrayVal a)) = Inr v
    \<and> (n = 0 \<and> rangeEffect payload off trunc (bytesOf f) = []
       \<or> (\<exists>a'. v = Some (ArrayVal a') \<and> arrayOk a' n \<and> fileOf a' n = rangeEffect payload off trunc (bytesOf f) \<and> a' 0 \<noteq> None))"
    using rangePlan_Some [OF plan off one]
  proof (elim disjE conjE)
    assume "payload = []" "0 \<le> trunc" "n = nat trunc" "n \<noteq> rf_size f"
    then show ?thesis using cut_array_stage [of a f n "Some f" pos] a
      by (cases "n = 0") (auto simp: rangeEffect_def truncateTo_def bytes)
  next
    assume "payload \<noteq> []" "trunc < 0" "pos = nat (if off = - 1 then int (rf_size f) else off)" "n = max (rf_size f) (pos + length payload)"
    then show ?thesis using write_array_stage [of a f payload n pos "Some f"] a length_bytesOf [OF ok]
      by (auto simp: rangeEffect_def bytes)
  qed
  then obtain v where v: "changeStage True f (Some f) RefArray payload pos n (Some (ArrayVal a)) = Inr v"
    and e: "n = 0 \<and> rangeEffect payload off trunc (bytesOf f) = []
       \<or> (\<exists>a'. v = Some (ArrayVal a') \<and> arrayOk a' n \<and> fileOf a' n = rangeEffect payload off trunc (bytesOf f) \<and> a' 0 \<noteq> None)" by auto
  have "stageInodeRange supported f (Some f) payload pos n = Inr (RefArray, if n = 0 then Some (StringVal []) else v)"
    using s True seed v by (simp add: stageInodeRange_def Let_def)
  moreover have "rangeEffect payload off trunc (bytesOf f) = []" if "n = 0" using e that by (auto simp: fileOf_def)
  ultimately show ?thesis using republished_array [of n "rangeEffect payload off trunc (bytesOf f)" "if n = 0 then Some (StringVal []) else v" token f] e
    by (cases "n = 0") auto
next
  case False
  have seed: "seedStage supported f (Some f) = Inr (Some (StringVal (bytesOf f)))" "length (bytesOf f) = rf_size f"
    "selectRef supported (rf_ref f) = RefExternal"
    using seed_string [OF ok False] by auto
  let ?e = "rangeEffect payload off trunc (bytesOf f)"
  have "changeStage supported f (Some f) RefExternal payload pos n (Some (StringVal (bytesOf f))) = Inr (Some (StringVal ?e)) \<and> length ?e = n"
    using rangePlan_Some [OF plan off one]
  proof (elim disjE conjE)
    assume "payload = []" "0 \<le> trunc" "n = nat trunc" "n \<noteq> rf_size f"
    then show ?thesis using cut_string_stage [of "bytesOf f" f n supported "Some f" pos] seed(2)
      by (auto simp: rangeEffect_def)
  next
    assume "payload \<noteq> []" "trunc < 0" "pos = nat (if off = - 1 then int (rf_size f) else off)" "n = max (rf_size f) (pos + length payload)"
    then show ?thesis using write_string_stage [of "bytesOf f" f payload n pos supported "Some f"] seed(2)
      by (auto simp: rangeEffect_def length_writeAt)
  qed
  then have "stageInodeRange supported f (Some f) payload pos n
      = Inr (RefExternal, if n = 0 then Some (StringVal []) else Some (StringVal ?e))" and len: "length ?e = n"
    by (simp_all add: stageInodeRange_def seed)
  then show ?thesis using republished_string [of "if n = 0 then Some (StringVal []) else Some (StringVal ?e)" ?e n token f]
    by auto
qed

subsection \<open>Exactly once, or not at all\<close>

text \<open>
  The steps of the other clients in order, three for each attempt, and the state they alone would make of
  the file.
\<close>

definition othersStep :: "(nat \<Rightarrow> range_env) \<Rightarrow> nat \<Rightarrow> range_file option \<Rightarrow> range_file option" where
  "othersStep env i =
     (let e = env (i div 3) in if i mod 3 = 0 then re_before e else if i mod 3 = 1 then re_stage e else re_publish e)"

primrec others :: "(nat \<Rightarrow> range_env) \<Rightarrow> nat \<Rightarrow> range_file option \<Rightarrow> range_file option" where
  "others env 0 s = s"
| "others env (Suc m) s = othersStep env m (others env m s)"

lemma others_attempt:
  "others env (3 * k + 1) s = re_before (env k) (others env (3 * k) s)"
  "others env (3 * k + 2) s = re_stage (env k) (others env (3 * k + 1) s)"
  "others env (3 * k + 3) s = re_publish (env k) (others env (3 * k + 2) s)"
proof -
  have "(3 * k + 1) div 3 = k" "(3 * k + 1) mod 3 = 1" "(3 * k + 2) div 3 = k" "(3 * k + 2) mod 3 = 2" by presburger+
  then have "othersStep env (3 * k) = re_before (env k)" "othersStep env (3 * k + 1) = re_stage (env k)"
    "othersStep env (3 * k + 2) = re_publish (env k)"
    unfolding othersStep_def Let_def by simp_all
  moreover have "3 * k + 1 = Suc (3 * k)" "3 * k + 2 = Suc (3 * k + 1)" "3 * k + 3 = Suc (3 * k + 2)" by simp_all
  ultimately show "others env (3 * k + 1) s = re_before (env k) (others env (3 * k) s)"
    "others env (3 * k + 2) s = re_stage (env k) (others env (3 * k + 1) s)"
    "others env (3 * k + 3) s = re_publish (env k) (others env (3 * k + 2) s)"
    by (simp_all only: others.simps)
qed

text \<open>
  The other clients keep files well formed, and a revision is never used twice: a file that has the same
  revision before and after the steps of one attempt was not changed by them.
\<close>

definition politeOthers :: "bool \<Rightarrow> (nat \<Rightarrow> range_env) \<Rightarrow> range_file option \<Rightarrow> bool" where
  "politeOthers supported env s \<longleftrightarrow>
     (\<forall>m f. others env m s = Some f \<longrightarrow> fileOk f \<and> (supported \<or> rf_ref f \<noteq> RefArray))
     \<and> (\<forall>k f h. others env (3 * k + 1) s = Some f \<longrightarrow> others env (3 * k + 3) s = Some h \<longrightarrow> rf_revision h = rf_revision f
          \<longrightarrow> others env (3 * k + 2) s = Some f \<and> h = f)"

definition appliedTo :: "bytes \<Rightarrow> int \<Rightarrow> int \<Rightarrow> range_file option \<Rightarrow> range_file option \<Rightarrow> bool" where
  "appliedTo payload off trunc s s' \<longleftrightarrow>
     (\<exists>f f'. s = Some f \<and> s' = Some f' \<and> fileOk f' \<and> bytesOf f' = rangeEffect payload off trunc (bytesOf f))"

lemma nothing_to_do:
  assumes "fileOk f" and "rangePlan (rf_size f) payload off trunc = Inr None"
  shows "appliedTo payload off trunc (Some f) (Some f)"
proof -
  have "trunc \<ge> 0 \<and> trunc = int (rf_size f) \<or> trunc < 0 \<and> payload = []"
    using assms(2) unfolding rangePlan_def Let_def by (auto split: if_split_asm)
  moreover have "truncateTo (rf_size f) (bytesOf f) = bytesOf f" using length_bytesOf [OF assms(1)] by (simp add: truncateTo_def)
  ultimately have "rangeEffect payload off trunc (bytesOf f) = bytesOf f" by (auto simp: rangeEffect_def writeAt_def)
  with assms(1) show ?thesis by (simp add: appliedTo_def)
qed

lemma publishRange_Some:
  assumes "publishRange f r stage n token h = Some f'"
  shows "\<exists>now. h = Some now \<and> rf_revision now = rf_revision f \<and> f' = republished now r n stage token"
  using assms by (auto simp: publishRange_def split: option.splits if_splits)

lemma change_attempts:
  assumes polite: "politeOthers supported env s0" and off: "-1 \<le> off" and one: "trunc < 0 \<or> payload = []"
    and run: "changeInodeRange n supported conditional payload off trunc env k (others env (3 * k) s0) = (res, s')"
  shows "\<exists>m \<le> 3 * (k + n). case res of
      Inl e \<Rightarrow> s' = others env m s0 \<or> (\<exists>i. re_history (env i) = Some e) \<and> appliedTo payload off trunc (others env m s0) s'
    | Inr _ \<Rightarrow> appliedTo payload off trunc (others env m s0) s'"
  using run
proof (induction n arbitrary: k)
  case 0
  then show ?case by auto
next
  case (Suc n)
  define e where "e = env k"
  have s1: "re_before e (others env (3 * k) s0) = others env (3 * k + 1) s0"
    and s2: "re_stage e (others env (3 * k + 1) s0) = others env (3 * k + 2) s0"
    and s3: "re_publish e (others env (3 * k + 2) s0) = others env (3 * k + 3) s0"
    by (simp_all only: others_attempt e_def)
  define t1 where "t1 = others env (3 * k + 1) s0"
  define t2 where "t2 = others env (3 * k + 2) s0"
  define t3 where "t3 = others env (3 * k + 3) s0"
  note run = Suc.prems [unfolded changeInodeRange.simps Let_def, folded e_def, unfolded s1 s2 s3, folded t1_def t2_def t3_def]
  have failed: ?case if "res = Inl err" "s' = others env m s0" "m \<le> 3 * k + 3" for err m
    using that by (intro exI [of _ m]) simp
  have again: ?case if "(if conditional then (Inl ErrWriteConflict, t3)
      else changeInodeRange n supported conditional payload off trunc env (Suc k) (t3)) = (res, s')"
  proof (cases conditional)
    case True
    with that failed [of ErrWriteConflict "3 * k + 3"] show ?thesis by (simp add: t3_def)
  next
    case False
    moreover have "t3 = others env (3 * Suc k) s0" by (simp only: t3_def mult_Suc_right add.commute)
    moreover have "3 * (Suc k + n) = 3 * (k + Suc n)" by simp_all
    ultimately show ?thesis using that Suc.IH [of "Suc k"] by (simp only: if_False)
  qed
  show ?case
  proof (cases "\<exists>f. re_check e = None \<and> t1 = Some f \<and> rf_type f = ''file'' \<and> re_access e = None")
    case False
    show ?thesis
    proof -
      have "\<exists>err. res = Inl err \<and> s' = t1" using run False by (auto split: option.splits if_splits)
      then show ?thesis using failed [of _ "3 * k + 1"] by (auto simp only: t1_def)
    qed
  next
    case True
    then obtain f where f: "re_check e = None" "t1 = Some f" "rf_type f = ''file''" "re_access e = None" by auto
    have ok: "fileOk f" "supported \<or> rf_ref f \<noteq> RefArray" using polite f(2) unfolding politeOthers_def t1_def by blast+
    note run = run [unfolded f option.case, simplified]
    show ?thesis
    proof (cases "rangePlan (rf_size f) payload off trunc")
      case (Inl err)
      with run failed [of err "3 * k + 1"] f(2) show ?thesis by (simp add: t1_def)
    next
      case plan: (Inr w)
      show ?thesis
      proof (cases w)
        case None
        with run plan f(2) nothing_to_do [OF ok(1)] show ?thesis by (intro exI [of _ "3 * k + 1"]) (auto simp: t1_def simp del: others.simps)
      next
        case (Some v)
        then obtain pos n' where plan: "rangePlan (rf_size f) payload off trunc = Inr (Some (pos, n'))" using plan by (cases v) auto
        note run = run [unfolded plan, simplified]
        show ?thesis
        proof (cases "re_snapshot e")
          case (Some err)
          with run failed [of err "3 * k + 1"] f(2) show ?thesis by (simp add: t1_def)
        next
          case None
          note run = run [unfolded None, simplified]
          show ?thesis
          proof (cases "stageInodeRange supported f (t2) payload pos n'")
            case (Inl err)
            note run = run [unfolded this, simplified]
            show ?thesis
            proof (cases "err = ErrWriteConflict")
              case True
              with run again show ?thesis by simp
            next
              case False
              with run failed [of err "3 * k + 3", folded t3_def] show ?thesis by simp
            qed
          next
            case (Inr rs)
            obtain r stage where rs: "stageInodeRange supported f (t2) payload pos n' = Inr (r, stage)"
              using Inr by (cases rs) auto
            note run = run [unfolded rs, simplified]
            show ?thesis
            proof (cases "re_refused e")
              case (Some err)
              with run failed [of err "3 * k + 3", folded t3_def] show ?thesis by simp
            next
              case None
              note run = run [unfolded None, simplified]
              show ?thesis
              proof (cases "publishRange f r stage n' (re_token e) (t3)")
                case None
                with run again show ?thesis by simp
              next
                case (Some f')
                then obtain h where h: "t3 = Some h" "rf_revision h = rf_revision f"
                  "f' = republished h r n' stage (re_token e)"
                  using publishRange_Some by blast
                then have same: "t2 = Some f" "h = f" using polite f(2) unfolding politeOthers_def t1_def t2_def t3_def by blast+
                have "fileOk f' \<and> bytesOf f' = rangeEffect payload off trunc (bytesOf f)"
                  using stage_exact [OF ok plan off one, of "re_token e"] rs h(3) same by auto
                then have "appliedTo payload off trunc (t3) (Some f')"
                  using h(1) same by (simp add: appliedTo_def)
                then show ?thesis using run Some by (intro exI [of _ "3 * k + 3"]) (auto simp: t3_def e_def simp del: others.simps split: option.splits)
              qed
            qed
          qed
        qed
      qed
    qed
  qed
qed

subsection \<open>Reads\<close>

lemma loadArray_ok: "arrayOk a sz \<Longrightarrow> loadArray a sz = fileOf a sz"
  by (simp add: arrayOk_def loadArray_bytes)

lemma readContent_exact:
  assumes ok: "fileOk f" and sup: "supported \<or> rf_ref f \<noteq> RefArray" and pos: "0 \<le> off" "0 \<le> n" and ext: "isExternalContentRef (rf_ref f)"
  shows "readContent supported (rf_ref f) (rf_live f) (rf_size f) off n = Inr (take (nat n) (drop (nat off) (bytesOf f)))"
proof (cases "n \<le> 0 \<or> int (rf_size f) \<le> off")
  case True
  then show ?thesis using length_bytesOf [OF ok] pos by (auto simp: readContent_def)
next
  case False
  then have inside: "nat off < rf_size f" "0 < rf_size f" using pos by auto
  consider "rf_ref f = RefArray" | "rf_ref f = RefExternal" using ok ext by (auto simp: fileOk_def isExternal_iff split: if_splits)
  then show ?thesis
  proof cases
    case 1
    with ok sup inside obtain a where "rf_live f = Some (ArrayVal a)" "arrayOk a (rf_size f)" "supported" by (auto simp: fileOk_def)
    then show ?thesis using 1 False pos ReadRange_bytes [of a "rf_size f" off n]
      by (simp add: readContent_def getArray_def bytesOf_def)
  next
    case 2
    with ok inside obtain b where b: "rf_live f = Some (StringVal b)" "length b = rf_size f" by (auto simp: fileOk_def)
    have "nat (min (off + n) (int (rf_size f)) - off) = min (nat n) (length b - nat off)" using pos inside b(2) by auto
    then show ?thesis using 2 False pos b
      by (simp add: readContent_def getString_def bytesOf_def) (simp add: min_def)
  qed
qed

text \<open>What an attempt reads when nothing has changed since the inode was loaded.\<close>

definition rangeResult :: "bool \<Rightarrow> range_file \<Rightarrow> range_file option \<Rightarrow> int \<Rightarrow> int \<Rightarrow> string + bytes" where
  "rangeResult supported f g off sz =
     (if off < int (rf_size f) \<and> sz \<noteq> 0 then
        (if isExternalContentRef (rf_ref f) then readContent supported (rf_ref f) (liveOf g) (rf_size f) off sz
         else bindE (loadContentExternal supported (rf_ref f) g) (\<lambda>raw. Inr (take (nat sz) (drop (nat off) raw))))
      else Inr [])"

lemma rangeResult_exact:
  assumes ok: "fileOk f" and sup: "supported \<or> rf_ref f \<noteq> RefArray" and pos: "0 \<le> off" "0 \<le> sz"
  shows "rangeResult supported f (Some f) off sz = Inr (take (nat sz) (drop (nat off) (bytesOf f)))"
proof (cases "isExternalContentRef (rf_ref f)")
  case True
  then show ?thesis
    using readContent_exact [OF ok sup pos True] length_bytesOf [OF ok] pos by (auto simp: rangeResult_def liveOf_def)
next
  case False
  then have "rf_ref f \<noteq> RefArray" "rf_ref f \<noteq> RefExternal" by (auto simp: isExternal_iff)
  then show ?thesis
    using False length_bytesOf [OF ok] pos by (auto simp: rangeResult_def loadContentExternal_def bytesOf_def)
qed

lemma read_attempts:
  assumes polite: "politeOthers supported env s0" and pos: "0 \<le> off" "0 \<le> sz"
    and run: "readInodeAt n supported off sz env k (others env (3 * k) s0) = (Inr b, s')"
  shows "\<exists>m \<le> 3 * (k + n). \<exists>f. others env m s0 = Some f \<and> b = take (nat sz) (drop (nat off) (bytesOf f))"
  using run
proof (induction n arbitrary: k)
  case (Suc n)
  define e where "e = env k"
  define t1 where "t1 = others env (3 * k + 1) s0"
  define t2 where "t2 = others env (3 * k + 2) s0"
  define t3 where "t3 = others env (3 * k + 3) s0"
  have s1: "re_before e (others env (3 * k) s0) = t1" and s2: "re_stage e t1 = t2" and s3: "re_publish e t2 = t3"
    by (simp_all only: others_attempt e_def t1_def t2_def t3_def)
  note run = Suc.prems [unfolded readInodeAt.simps Let_def, folded e_def, unfolded s1 s2 s3, folded rangeResult_def]
  obtain f h where f: "t1 = Some f" and h: "t3 = Some h" and
    tail: "(if rf_revision h \<noteq> rf_revision f then readInodeAt n supported off sz env (Suc k) t3
        else case rangeResult supported f t2 off sz of Inl err \<Rightarrow> (Inl err, t3)
             | Inr b \<Rightarrow> (case re_recheck e of Some err \<Rightarrow> (Inl err, t3) | None \<Rightarrow> (Inr b, t3))) = (Inr b, s')"
    using run by (auto split: option.splits if_splits)
  show ?case
  proof (cases "rf_revision h = rf_revision f")
    case False
    moreover have "t3 = others env (3 * Suc k) s0" by (simp only: t3_def mult_Suc_right add.commute)
    moreover have "3 * (Suc k + n) = 3 * (k + Suc n)" by simp
    ultimately show ?thesis using tail Suc.IH [of "Suc k"] by simp
  next
    case True
    then have same: "t2 = Some f" "h = f" using polite f h unfolding politeOthers_def t1_def t2_def t3_def by blast+
    have "fileOk f" "supported \<or> rf_ref f \<noteq> RefArray" using polite f unfolding politeOthers_def t1_def by blast+
    from rangeResult_exact [OF this pos] have "b = take (nat sz) (drop (nat off) (bytesOf f))"
      using tail True same by (simp split: option.splits)
    moreover have "3 * k + 1 \<le> 3 * (k + Suc n)" by simp
    ultimately show ?thesis using f unfolding t1_def by blast
  qed
qed simp

subsection \<open>Properties\<close>


definition fileA :: range_file where
  "fileA = \<lparr>rf_type = ''file'', rf_ref = ''ext'', rf_size = 3, rf_inline = [], rf_live = Some (StringVal ''abc''), rf_revision = ''r1''\<rparr>"

definition fileB :: range_file where
  "fileB = fileA\<lparr>rf_size := 2, rf_live := Some (StringVal ''xy''), rf_revision := ''r2''\<rparr>"

definition quietRange :: "string \<Rightarrow> range_env" where
  "quietRange token = \<lparr>re_before = id, re_stage = id, re_publish = id, re_token = token, re_check = None, re_access = None,
     re_snapshot = None, re_refused = None, re_recheck = None, re_history = None\<rparr>"

definition rivalEnv :: "nat \<Rightarrow> range_env" where
  "rivalEnv k = (quietRange ''r3'')\<lparr>re_stage := (if k = 0 then (\<lambda>_. Some fileB) else id)\<rparr>"

lemma others_rival: "others rivalEnv m (Some fileA) = Some (if m < 2 then fileA else fileB)"
proof (induction m)
  case (Suc m)
  consider "m = 0" | "m = 1" | "1 < m" by linarith
  then show ?case
  proof cases
    case 3
    then have "othersStep rivalEnv m = id" by (auto simp: othersStep_def rivalEnv_def quietRange_def Let_def)
    with Suc 3 show ?thesis by simp
  qed (simp_all add: othersStep_def rivalEnv_def quietRange_def)
qed simp

lemma polite_rival: "politeOthers False rivalEnv (Some fileA)"
proof -
  have "fileOk fileA" "fileOk fileB" "rf_ref fileA \<noteq> RefArray" "rf_ref fileB \<noteq> RefArray" "rf_revision fileB \<noteq> rf_revision fileA"
    by (simp_all add: fileOk_def fileA_def fileB_def RefExternal_def RefArray_def)
  then show ?thesis unfolding politeOthers_def others_rival by (auto split: if_splits)
qed


text \<open>
  C24: A range read is a slice of one published version: a read that succeeds gives the bytes that the file
  had at one moment, cut at the end of the file, though content and size are fetched by separate commands
  and others publish in between.
\<close>

theorem range_read_of_one_version:
  assumes "politeOthers supported env s" and "ReadInodeAt supported off sz env s = (Inr b, s')"
  shows "\<exists>m \<le> 48. \<exists>f. others env m s = Some f \<and> b = take (nat sz) (drop (nat off) (bytesOf f))"
proof -
  have "0 \<le> off" "0 \<le> sz" "readInodeAt 16 supported off sz env 0 s = (Inr b, s')"
    using assms(2) by (simp_all add: ReadInodeAt_def split: if_splits)
  with read_attempts [OF assms(1), of off sz 16 0 b s'] show ?thesis by simp
qed

lemma range_read_of_one_version_witness:
  "fst (ReadInodeAt False 1 5 rivalEnv (Some fileA)) = Inr ''y''
   \<and> (\<exists>m \<le> 48. \<exists>f. others rivalEnv m (Some fileA) = Some f \<and> ''y'' = take 5 (drop 1 (bytesOf f)))"
proof -
  let ?r = "ReadInodeAt False 1 5 rivalEnv (Some fileA)"
  have run: "fst ?r = Inr ''y''" by code_simp
  then have "?r = (Inr ''y'', snd ?r)" by (simp add: prod_eq_iff)
  from range_read_of_one_version [OF polite_rival this] run show ?thesis by simp
qed

text \<open>
  C23: Alone, a write through a handle succeeds at the first attempt and a read afterwards gives back exactly
  the slice of the overwritten bytes, for string, inline and array content alike (an inline file moves to
  the preferred representation on the way).
\<close>

theorem range_write_then_read:
  assumes ok: "fileOk f" and is_file: "rf_type f = ''file''" and sup: "supported \<or> rf_ref f \<noteq> RefArray"
    and off: "-1 \<le> off" and fits: "int (length payload) \<le> maxInt64 - (if off = -1 then int (rf_size f) else off)"
  shows "\<exists>f'. WriteInodeAtPath supported conditional payload off (\<lambda>_. quietRange token) (Some f) = (Inr (), Some f')
     \<and> (\<forall>pos n. ReadInodeAt supported pos n (\<lambda>_. quietRange token) (Some f')
          = (if pos < 0 \<or> n < 0 \<or> n > maxInt64 - pos then Inl ''invalid range''
             else Inr (take (nat n) (drop (nat pos) (writeAt (nat (if off = -1 then int (rf_size f) else off)) payload (bytesOf f)))),
             Some f'))"
proof -
  let ?off = "if off = -1 then int (rf_size f) else off"
  let ?e = "writeAt (nat ?off) payload (bytesOf f)"
  have e: "rangeEffect payload off (-1) (bytesOf f) = ?e" using length_bytesOf [OF ok] by (simp add: rangeEffect_def)
  have reads: "ReadInodeAt supported pos n (\<lambda>_. quietRange token) (Some h)
      = (if pos < 0 \<or> n < 0 \<or> n > maxInt64 - pos then Inl ''invalid range'' else Inr (take (nat n) (drop (nat pos) (bytesOf h))), Some h)"
    if "fileOk h" "supported \<or> rf_ref h \<noteq> RefArray" "rf_type h = ''file''" for h pos n
    using rangeResult_exact [OF that(1,2), of pos n] that(3)
    by (auto simp: ReadInodeAt_def numeral_eq_Suc Let_def quietRange_def simp flip: rangeResult_def)
  show ?thesis
  proof (cases "payload = []")
    case True
    then have "WriteInodeAtPath supported conditional payload off (\<lambda>_. quietRange token) (Some f) = (Inr (), Some f)" and same: "?e = bytesOf f"
      using off is_file fits by (simp_all add: WriteInodeAtPath_def numeral_eq_Suc rangePlan_def Let_def quietRange_def writeAt_def split: if_splits)
    with reads [OF ok sup is_file] show ?thesis unfolding same by blast
  next
    case False
    define n where "n = max (rf_size f) (nat ?off + length payload)"
    have "nat (max (int (rf_size f)) (?off + int (length payload))) = n" using off by (auto simp: n_def max_def nat_add_distrib split: if_splits)
    then have plan: "rangePlan (rf_size f) payload off (-1) = Inr (Some (nat ?off, n))"
      using False fits by (simp add: rangePlan_def Let_def split: if_splits)
    obtain r stage where st: "stageInodeRange supported f (Some f) payload (nat ?off) n = Inr (r, stage)"
      and h: "fileOk (republished f r n stage token)" "bytesOf (republished f r n stage token) = ?e"
      using stage_exact [OF ok sup plan off, of token] by (auto simp: e)
    let ?h = "republished f r n stage token"
    have "WriteInodeAtPath supported conditional payload off (\<lambda>_. quietRange token) (Some f) = (Inr (), Some ?h)"
      using off is_file fits plan st
      by (simp add: WriteInodeAtPath_def numeral_eq_Suc Let_def quietRange_def publishRange_def split: if_splits)
    moreover have "supported \<or> rf_ref ?h \<noteq> RefArray" using st sup
      by (auto simp: stageInodeRange_def selectRef_def Let_def bindE_def split: if_splits sum.splits)
    ultimately show ?thesis using reads [OF h(1)] h(2) is_file by auto
  qed
qed

lemma range_write_then_read_witness:
  "\<exists>f'. WriteInodeAtPath True False ''Z'' 5 (\<lambda>_. quietRange ''r9'') (Some fileA) = (Inr (), Some f')
     \<and> ReadInodeAt True 1 9 (\<lambda>_. quietRange ''r9'') (Some f') = (Inr [CHR ''b'', CHR ''c'', zeroByte, zeroByte, CHR ''Z''], Some f')"
proof -
  have "fileOk fileA" "rf_type fileA = ''file''" "bytesOf fileA = ''abc''"
    by (auto simp: fileOk_def fileA_def bytesOf_def RefExternal_def RefArray_def)
  then obtain f' where f': "WriteInodeAtPath True False ''Z'' 5 (\<lambda>_. quietRange ''r9'') (Some fileA) = (Inr (), Some f')"
    and reads: "\<And>pos n. ReadInodeAt True pos n (\<lambda>_. quietRange ''r9'') (Some f')
      = (if pos < 0 \<or> n < 0 \<or> n > maxInt64 - pos then Inl ''invalid range''
         else Inr (take (nat n) (drop (nat pos) (writeAt 5 ''Z'' ''abc''))), Some f')"
    using range_write_then_read [of fileA True 5 "''Z''" False "''r9''"] by (auto simp: maxInt64_def)
  have "ReadInodeAt True 1 9 (\<lambda>_. quietRange ''r9'') (Some f') = (Inr [CHR ''b'', CHR ''c'', zeroByte, zeroByte, CHR ''Z''], Some f')"
    unfolding reads by (simp add: maxInt64_def writeAt_def numeral_2_eq_2)
  with f' show ?thesis by blast
qed

end
