(* ===== verification/ChunkPublication.thy ===== *)
theory ChunkPublication
  imports RangeWrites
begin

text \<open>
  The assembly of a chunked upload in a private stage (\<open>publishChunks\<close> of
  \<open>src/mount/internal/client/publication.go\<close>).  The stage starts as a copy of the live content on the server, or
  as a rewrite in the preferred representation; the changed chunks are written over it in ascending order,
  and the rest is cut off.  What it holds is shown to be the patch that theory SyncChunks reasons about.

  Resolving the path, creating parents and the write condition belong to other theories; a new file is
  the record \<open>newRangeFile\<close>.  The chunks are the entries of the map, sorted by index.
\<close>

definition newRangeFile :: range_file where
  "newRangeFile = \<lparr>rf_type = ''file'', rf_ref = [], rf_size = 0, rf_inline = [], rf_live = None, rf_revision = []\<rparr>"

text \<open>A new file has no unchanged chunks to copy: every chunk up to the size must be there, complete.\<close>

definition completeChunks :: "(int \<times> bytes) list \<Rightarrow> nat \<Rightarrow> nat \<Rightarrow> bool" where
  "completeChunks chunks cs newSize \<longleftrightarrow>
     (\<forall>idx < (newSize + cs - 1) div cs.
        case map_of chunks (int idx) of
          None \<Rightarrow> False
        | Some data \<Rightarrow> length data = min cs (newSize - idx * cs))"

definition seedChunks :: "bool \<Rightarrow> bool \<Rightarrow> range_file \<Rightarrow> range_file option \<Rightarrow> string + content_val option" where
  "seedChunks supported creating f g =
     (let r = selectRef supported (rf_ref f) in
      if \<not> creating \<and> isExternalContentRef (rf_ref f) \<and> rf_ref f = r then
        (if liveOf g = None \<and> 0 < rf_size f then Inl ErrWriteConflict else Inr (liveOf g))
      else
        bindE (if creating then Inr [] else loadContentExternal supported (rf_ref f) g) (\<lambda>content. Inr (queueStageWrite r content)))"

text \<open>An empty array stage is seeded with an empty chunk, so that the key can carry an expiry.\<close>

definition seedEmptyArray :: "string \<Rightarrow> nat \<Rightarrow> content_val option \<Rightarrow> string + content_val option" where
  "seedEmptyArray r sz stage =
     (if r = RefArray \<and> sz = 0 then bindE (getArray stage) (\<lambda>a. Inr (Some (ArrayVal (arset 0 [[]] a)))) else Inr stage)"

fun writeChunksTo :: "bool \<Rightarrow> string \<Rightarrow> nat \<Rightarrow> (int \<times> bytes) list \<Rightarrow> content_val option \<Rightarrow> string + content_val option" where
  "writeChunksTo supported r cs [] stage = Inr stage"
| "writeChunksTo supported r cs ((idx, data) # chunks) stage =
     (if idx < 0 then Inl ''negative chunk index''
      else bindE (if r = RefArray then (if data = [] then Inr stage else writeArrayStage supported (nat idx * cs) data stage)
                  else setRange (nat idx * cs) data stage)
             (writeChunksTo supported r cs chunks))"

definition cutChunks :: "bool \<Rightarrow> string \<Rightarrow> nat \<Rightarrow> nat \<Rightarrow> content_val option \<Rightarrow> string + content_val option" where
  "cutChunks supported r oldSize newSize stage =
     (if newSize < oldSize then
        (if r = RefArray then cutArrayStage supported oldSize newSize stage else shrinkStringStage newSize stage)
      else Inr stage)"

definition stageChunks :: "bool \<Rightarrow> bool \<Rightarrow> range_file \<Rightarrow> range_file option \<Rightarrow> (int \<times> bytes) list \<Rightarrow> int \<Rightarrow> int
    \<Rightarrow> string + string \<times> content_val option" where
  "stageChunks supported creating f g chunks chunkSize newSize =
     (if chunkSize < 0 \<or> newSize < 0 \<or> (chunkSize = 0 \<and> chunks \<noteq> []) then Inl ''invalid chunk size or file size''
      else if creating \<and> chunkSize = 0 \<and> 0 < newSize then Inl ''missing complete chunks for new file''
      else if creating \<and> \<not> completeChunks chunks (nat chunkSize) (nat newSize) then Inl ''missing complete chunk for new file''
      else let r = selectRef supported (rf_ref f) in
        bindE (seedChunks supported creating f g) (\<lambda>stage.
        bindE (seedEmptyArray r (rf_size f) stage) (\<lambda>stage.
        bindE (writeChunksTo supported r (nat chunkSize) chunks stage) (\<lambda>stage.
        bindE (cutChunks supported r (rf_size f) (nat newSize) stage) (\<lambda>stage.
        Inr (r, if newSize = 0 then Some (StringVal []) else stage))))))"

subsection \<open>The stage is the patch\<close>

definition natChunks :: "(int \<times> bytes) list \<Rightarrow> (nat \<times> bytes) list" where
  "natChunks chunks = map (\<lambda>(i, d). (nat i, d)) chunks"

abbreviation patched :: "nat \<Rightarrow> (int \<times> bytes) list \<Rightarrow> bytes \<Rightarrow> bytes" where
  "patched cs chunks b \<equiv> fold (\<lambda>(i, d) f. writeAt (i * cs) d f) (natChunks chunks) b"

text \<open>The chunks lie inside the new size, and one of them reaches its end when the file grows.\<close>

definition fitting :: "(int \<times> bytes) list \<Rightarrow> nat \<Rightarrow> nat \<Rightarrow> nat \<Rightarrow> bool" where
  "fitting chunks cs oldSize newSize \<longleftrightarrow>
     (\<forall>(i, d) \<in> set chunks. 0 \<le> i \<and> nat i * cs + length d \<le> newSize)
     \<and> (newSize \<le> oldSize \<or> (\<exists>(i, d) \<in> set chunks. d \<noteq> [] \<and> nat i * cs + length d = newSize))"

lemma write_array_chunks:
  "\<forall>(i, d) \<in> set chunks. 0 \<le> i \<Longrightarrow> arrayOk a sz \<Longrightarrow> a 0 \<noteq> None
     \<Longrightarrow> \<exists>a'. writeChunksTo True RefArray cs chunks (Some (ArrayVal a)) = Inr (Some (ArrayVal a'))
        \<and> arrayOk a' (length (patched cs chunks (fileOf a sz))) \<and> a' 0 \<noteq> None
        \<and> fileOf a' (length (patched cs chunks (fileOf a sz))) = patched cs chunks (fileOf a sz)"
proof (induction chunks arbitrary: a sz)
  case (Cons c chunks)
  obtain i d where c: "c = (i, d)" by (cases c)
  show ?case
  proof (cases "d = []")
    case True
    with Cons show ?thesis by (simp add: c natChunks_def writeAt_def)
  next
    case False
    define a1 where "a1 = writeArrayRange (nat i * cs) d a"
    define sz1 where "sz1 = max sz (nat i * cs + length d)"
    have a1: "arrayOk a1 sz1" "fileOf a1 sz1 = writeAt (nat i * cs) d (fileOf a sz)" "a1 0 \<noteq> None"
      using arr.wr [OF Cons.prems(2) False, of "nat i * cs"] writeArrayRange_first [of a "nat i * cs" d] Cons.prems(3)
      by (simp_all add: a1_def sz1_def)
    have "writeArrayStage True (nat i * cs) d (Some (ArrayVal a)) = Inr (Some (ArrayVal a1))"
      using False by (simp add: writeArrayStage_def getArray_def WriteRange_def a1_def flip: of_nat_mult)
    then show ?thesis using Cons.IH [of a1 sz1] Cons.prems(1) False a1 by (simp add: c natChunks_def)
  qed
qed (simp add: natChunks_def)

lemma write_string_chunks:
  "\<forall>(i, d) \<in> set chunks. 0 \<le> i \<Longrightarrow> getString stage = Inr b
     \<Longrightarrow> \<exists>stage'. writeChunksTo supported RefExternal cs chunks stage = Inr stage' \<and> getString stage' = Inr (patched cs chunks b)
        \<and> (chunks \<noteq> [] \<or> stage \<noteq> None \<longrightarrow> stage' \<noteq> None)"
proof (induction chunks arbitrary: stage b)
  case (Cons c chunks)
  obtain i d where c: "c = (i, d)" by (cases c)
  have "setRange (nat i * cs) d stage = Inr (Some (StringVal (writeAt (nat i * cs) d b)))"
    using Cons.prems(2) by (simp add: setRange_def)
  moreover have "getString (Some (StringVal (writeAt (nat i * cs) d b))) = Inr (writeAt (nat i * cs) d b)" by (simp add: getString_def)
  ultimately show ?case using Cons.IH [of "Some (StringVal (writeAt (nat i * cs) d b))"] Cons.prems(1) by (simp add: c natChunks_def)
qed (simp add: natChunks_def)

text \<open>The size of a patched file.\<close>

lemma patched_bounds:
  "length b \<le> length (patched cs chunks b)"
  "\<forall>(i, d) \<in> set chunks. nat i * cs + length d \<le> n \<Longrightarrow> length (patched cs chunks b) \<le> max (length b) n"
  "(i, d) \<in> set chunks \<Longrightarrow> d \<noteq> [] \<Longrightarrow> nat i * cs + length d \<le> length (patched cs chunks b)"
proof -
  have len: "length (writeAt off d f) = (if d = [] then length f else max (length f) (off + length d))" for off and d f :: bytes
    using length_writeAt [of d off f] by (cases "d = []") (simp_all add: writeAt_def [of off "[]"])
  have grows: "length b \<le> length (patched cs chunks b)" for b chunks
  proof (induction chunks arbitrary: b)
    case (Cons c chunks)
    from Cons [of "writeAt (nat (fst c) * cs) (snd c) b"] show ?case
      by (cases c) (auto simp: natChunks_def len split: if_splits)
  qed (simp add: natChunks_def)
  show "length b \<le> length (patched cs chunks b)" by (rule grows)
  show "\<forall>(i, d) \<in> set chunks. nat i * cs + length d \<le> n \<Longrightarrow> length (patched cs chunks b) \<le> max (length b) n"
  proof (induction chunks arbitrary: b)
    case (Cons c chunks)
    from Cons.IH [of "writeAt (nat (fst c) * cs) (snd c) b"] Cons.prems show ?case
      by (cases c) (auto simp: natChunks_def len split: if_splits)
  qed (simp add: natChunks_def)
  show "(i, d) \<in> set chunks \<Longrightarrow> d \<noteq> [] \<Longrightarrow> nat i * cs + length d \<le> length (patched cs chunks b)"
  proof (induction chunks arbitrary: b)
    case (Cons c chunks)
    show ?case
    proof (cases "c = (i, d)")
      case True
      have "nat i * cs + length d \<le> length (writeAt (nat i * cs) d b)" using Cons.prems(2) by (simp add: len)
      also have "\<dots> \<le> length (patched cs chunks (writeAt (nat i * cs) d b))" by (rule grows)
      finally show ?thesis by (simp add: True natChunks_def)
    next
      case False
      with Cons.prems Cons.IH [of "writeAt (nat (fst c) * cs) (snd c) b"] show ?thesis
        by (cases c) (auto simp: natChunks_def)
    qed
  qed simp
qed

lemma patched_size:
  assumes "fitting chunks cs (length b) n"
  shows "length (patched cs chunks b) = max (length b) n"
proof (rule antisym)
  show "length (patched cs chunks b) \<le> max (length b) n"
    using assms by (intro patched_bounds(2)) (auto simp: fitting_def)
  show "max (length b) n \<le> length (patched cs chunks b)"
    using assms patched_bounds(1) [of b cs chunks] patched_bounds(3) [of _ _ chunks cs b] by (fastforce simp: fitting_def)
qed

lemma empty_chunk_array: "arrayOk [0 \<mapsto> []] 0 \<and> fileOf [0 \<mapsto> []] 0 = []"
  by (simp add: arrayOk_def byteAt_def arrayValueBytes_def fileOf_def)

lemma load_exact:
  "fileOk f \<Longrightarrow> rf_ref f \<noteq> RefArray \<Longrightarrow> loadContentExternal supported (rf_ref f) (Some f) = Inr (bytesOf f)"
  by (auto simp: fileOk_def loadContentExternal_def bytesOf_def getString_def liveOf_def isExternal_iff split: if_splits)

lemma seed_chunks_array:
  assumes ok: "fileOk f" and r: "selectRef supported (rf_ref f) = RefArray" and new: "creating \<Longrightarrow> f = newRangeFile"
  shows "\<exists>a. bindE (seedChunks supported creating f (Some f)) (seedEmptyArray RefArray (rf_size f)) = Inr (Some (ArrayVal a))
      \<and> arrayOk a (rf_size f) \<and> fileOf a (rf_size f) = bytesOf f \<and> a 0 \<noteq> None"
proof (cases "rf_size f = 0")
  case True
  then have "bytesOf f = []" using length_bytesOf [OF ok] by simp
  moreover have "seedChunks supported creating f (Some f) = Inr None"
  proof (cases "rf_ref f = RefArray")
    case True
    with ok \<open>rf_size f = 0\<close> new r show ?thesis
      by (auto simp: fileOk_def seedChunks_def liveOf_def isExternal_iff newRangeFile_def)
  next
    case False
    with \<open>bytesOf f = []\<close> r load_exact [OF ok False, of supported] show ?thesis
      by (auto simp: seedChunks_def queueStageWrite_def)
  qed
  ultimately show ?thesis
    using True empty_chunk_array by (simp add: seedEmptyArray_def getArray_def arset_single)
next
  case False
  then have old: "\<not> creating" using new by (auto simp: newRangeFile_def)
  show ?thesis
  proof (cases "rf_ref f = RefArray")
    case True
    with ok False old r show ?thesis
      by (auto simp: fileOk_def seedChunks_def liveOf_def isExternal_iff seedEmptyArray_def bytesOf_def)
  next
    case other: False
    have "bytesOf f \<noteq> []" using False length_bytesOf [OF ok] by auto
    then have "queueArrayWriteFull (bytesOf f) Map.empty 0 \<noteq> None" by (simp add: queueArrayWriteFull_nth)
    then show ?thesis
      using \<open>bytesOf f \<noteq> []\<close> other r old load_exact [OF ok other, of supported] False length_bytesOf [OF ok]
        queueArrayWriteFull_ok [of "bytesOf f" Map.empty] fileOf_queueArrayWriteFull [of "bytesOf f" Map.empty]
      by (simp add: seedChunks_def queueStageWrite_def seedEmptyArray_def)
  qed
qed

lemma seed_chunks_string:
  assumes ok: "fileOk f" and r: "selectRef supported (rf_ref f) \<noteq> RefArray"
  shows "\<exists>stage. seedChunks supported creating f (Some f) = Inr stage \<and> getString stage = Inr (if creating then [] else bytesOf f)
      \<and> (0 < rf_size f \<and> \<not> creating \<longrightarrow> stage \<noteq> None) \<and> selectRef supported (rf_ref f) = RefExternal"
proof -
  have ref: "rf_ref f = RefExternal \<or> rf_ref f = []" "selectRef supported (rf_ref f) = RefExternal"
    using ok r by (auto simp: fileOk_def selectRef_def Let_def split: if_splits)
  then show ?thesis
    using ok load_exact [OF ok, of supported]
    by (auto simp: seedChunks_def fileOk_def liveOf_def isExternal_iff getString_def bytesOf_def queueStageWrite_def split: if_splits)
qed

lemma truncate_patch: "length p = max (length b) n \<Longrightarrow> length b \<le> n \<Longrightarrow> truncateTo n p = p"
  by (simp add: truncateTo_def max_def)

lemma staged_chunks_patch:
  assumes ok: "fileOk f" and sup: "supported \<or> rf_ref f \<noteq> RefArray" and fit: "fitting chunks cs (rf_size f) n"
    and cs: "0 < cs" and new: "creating \<Longrightarrow> f = newRangeFile \<and> completeChunks chunks cs n"
  shows "\<exists>r stage. stageChunks supported creating f (Some f) chunks (int cs) (int n) = Inr (r, stage)
     \<and> fileOk (republished f r n stage token) \<and> bytesOf (republished f r n stage token) = truncateTo n (patched cs chunks (bytesOf f))"
proof -
  let ?p = "patched cs chunks (bytesOf f)"
  have size: "length (bytesOf f) = rf_size f" by (rule length_bytesOf [OF ok])
  have nonneg: "\<forall>(i, d) \<in> set chunks. 0 \<le> i" using fit by (auto simp: fitting_def)
  have len: "length ?p = max (rf_size f) n" using patched_size [of chunks cs "bytesOf f" n] fit size by simp
  have whole: "truncateTo n ?p = ?p" if "rf_size f \<le> n" using truncate_patch [of ?p "bytesOf f" n] len size that by simp
  have guard: "stageChunks supported creating f (Some f) chunks (int cs) (int n)
      = (let r = selectRef supported (rf_ref f) in
        bindE (bindE (seedChunks supported creating f (Some f)) (seedEmptyArray r (rf_size f))) (\<lambda>stage.
        bindE (writeChunksTo supported r cs chunks stage) (\<lambda>stage.
        bindE (cutChunks supported r (rf_size f) n stage) (\<lambda>stage.
        Inr (r, if n = 0 then Some (StringVal []) else stage)))))"
    using cs new by (auto simp: stageChunks_def Let_def bindE_def split: sum.split)
  show ?thesis
  proof (cases "selectRef supported (rf_ref f) = RefArray")
    case True
    then have s: "supported" using sup by (auto simp: selectRef_def Let_def split: if_splits)
    obtain a where a: "bindE (seedChunks supported creating f (Some f)) (seedEmptyArray RefArray (rf_size f)) = Inr (Some (ArrayVal a))"
      "arrayOk a (rf_size f)" "fileOf a (rf_size f) = bytesOf f" "a 0 \<noteq> None"
      using seed_chunks_array [OF ok True, of creating] new by auto
    obtain a' where w: "writeChunksTo True RefArray cs chunks (Some (ArrayVal a)) = Inr (Some (ArrayVal a'))"
      and a': "arrayOk a' (max (rf_size f) n)" "fileOf a' (max (rf_size f) n) = ?p" "a' 0 \<noteq> None"
      using write_array_chunks [OF nonneg a(2,4), of cs] len a(3) by auto
    have "\<exists>v. cutChunks True RefArray (rf_size f) n (Some (ArrayVal a')) = Inr v
      \<and> (n = 0 \<and> truncateTo n ?p = [] \<or> (\<exists>x. v = Some (ArrayVal x) \<and> arrayOk x n \<and> fileOf x n = truncateTo n ?p \<and> x 0 \<noteq> None))"
    proof (cases "n < rf_size f")
      case True
      then have "max (rf_size f) n = rf_size f" by simp
      with arr.shrink [OF a'(1), of n] a' True len truncateArray_first [of a' n "rf_size f"] show ?thesis
        by (cases "n = 0") (simp_all add: cutChunks_def cutArrayStage_def getArray_def Truncate_def truncateTo_def)
    next
      case False
      then have "max (rf_size f) n = n" by simp
      with a' whole False show ?thesis by (simp add: cutChunks_def)
    qed
    then obtain v where v: "cutChunks True RefArray (rf_size f) n (Some (ArrayVal a')) = Inr v"
      and e: "n = 0 \<and> truncateTo n ?p = [] \<or> (\<exists>x. v = Some (ArrayVal x) \<and> arrayOk x n \<and> fileOf x n = truncateTo n ?p \<and> x 0 \<noteq> None)" by blast
    have st: "stageChunks supported creating f (Some f) chunks (int cs) (int n) = Inr (RefArray, if n = 0 then Some (StringVal []) else v)"
      unfolding guard Let_def True a(1) using s w v by simp
    have "n = 0 \<Longrightarrow> truncateTo n ?p = []" by (simp add: truncateTo_def)
    with st e republished_array [of n "truncateTo n ?p" "if n = 0 then Some (StringVal []) else v" token f] show ?thesis
      by (cases "n = 0") auto
  next
    case False
    obtain stage where stage: "seedChunks supported creating f (Some f) = Inr stage" "getString stage = Inr (if creating then [] else bytesOf f)"
      and present: "0 < rf_size f \<and> \<not> creating \<longrightarrow> stage \<noteq> None" and r: "selectRef supported (rf_ref f) = RefExternal"
      using seed_chunks_string [OF ok False, of creating] by blast
    have "(if creating then [] else bytesOf f) = bytesOf f" using new by (auto simp: newRangeFile_def bytesOf_def)
    then obtain stage' where w: "writeChunksTo supported RefExternal cs chunks stage = Inr stage'" "getString stage' = Inr ?p"
      and present': "chunks \<noteq> [] \<or> stage \<noteq> None \<longrightarrow> stage' \<noteq> None"
      using write_string_chunks [OF nonneg, of stage "bytesOf f" supported cs] stage(2) by auto
    have some: "stage' = Some (StringVal ?p)" if "0 < n"
    proof -
      have "stage' \<noteq> None"
      proof (cases "n \<le> rf_size f")
        case True
        moreover have "\<not> creating" using new that True by (auto simp: newRangeFile_def)
        ultimately show ?thesis using present present' that by auto
      next
        case False
        with fit have "chunks \<noteq> []" by (auto simp: fitting_def)
        with present' show ?thesis by blast
      qed
      with w(2) show ?thesis by (auto simp: getString_def split: option.splits content_val.splits)
    qed
    have cutp: "cutChunks supported RefExternal (rf_size f) n stage'
        = Inr (if n < rf_size f then Some (StringVal (take n ?p)) else stage')"
      using w(2) by (auto simp: cutChunks_def shrinkStringStage_def)
    have "n < rf_size f \<Longrightarrow> truncateTo n ?p = take n ?p" using len by (simp add: truncateTo_def)
    then have st: "stageChunks supported creating f (Some f) chunks (int cs) (int n) = Inr (RefExternal, Some (StringVal (truncateTo n ?p)))"
      unfolding guard Let_def r using stage(1) w(1) cutp some whole
      by (cases "n = 0") (auto simp: seedEmptyArray_def truncateTo_def)
    show ?thesis using st republished_string [of "Some (StringVal (truncateTo n ?p))" "truncateTo n ?p" n token f] by auto
  qed
qed

subsection \<open>A chunked upload publishes the file\<close>

text \<open>When the file grows, its last chunk is among the changed ones.\<close>

lemma last_chunk_changed:
  assumes "old = map h (chunksOf cs base)" and "new = map h (chunksOf cs file)" and "0 < cs"
    and "inj_on h (set (chunksOf cs base) \<union> set (chunksOf cs file))" and longer: "length base < length file"
  shows "(length file - 1) div cs \<in> set (fst (diffChunkManifests old new))"
proof (rule ccontr)
  define i where "i = (length file - 1) div cs"
  assume "(length file - 1) div cs \<notin> set (fst (diffChunkManifests old new))"
  then have "i \<notin> set (fst (diffChunkManifests old new))" by (simp add: i_def)
  have i: "i * cs \<le> length file - 1" "length file - 1 < i * cs + cs"
    using assms(3) by (simp_all add: i_def dividend_less_div_times add.commute)
  then have "i < length new" unfolding assms(2) length_map using longer by (simp only: length_chunksOf [OF assms(3)])
  from unchanged_chunk [OF assms(1-4) this \<open>i \<notin> _\<close>]
  have "length (take cs (drop (i * cs) base)) = length (take cs (drop (i * cs) file))" by simp
  with i longer show False by auto
qed

lemma changed_chunks_fit:
  assumes "old = map h (chunksOf cs base)" and "new = map h (chunksOf cs file)" and "0 < cs"
    and "inj_on h (set (chunksOf cs base) \<union> set (chunksOf cs file))"
    and changed: "set (map fst (natChunks chunks)) = set (fst (diffChunkManifests old new))"
    and data: "\<forall>(i, d) \<in> set chunks. 0 \<le> i \<and> d = take cs (drop (nat i * cs) file)"
  shows "fitting chunks cs (length base) (length file)"
  unfolding fitting_def
proof (intro conjI)
  have in_new: "nat i * cs < length file" if "(i, d) \<in> set chunks" for i d
  proof -
    have "nat i \<in> set (map fst (natChunks chunks))" using that by (force simp: natChunks_def)
    then have "nat i < length new" using changed by (force simp: diffChunkManifests_def)
    with assms(2,3) show ?thesis by (simp add: length_chunksOf)
  qed
  show "\<forall>(i, d) \<in> set chunks. 0 \<le> i \<and> nat i * cs + length d \<le> length file"
    using data in_new by fastforce
  show "length file \<le> length base \<or> (\<exists>(i, d) \<in> set chunks. d \<noteq> [] \<and> nat i * cs + length d = length file)"
  proof (cases "length base < length file")
    case True
    define q where "q = (length file - 1) div cs"
    have "q \<in> set (map fst (natChunks chunks))" using last_chunk_changed [OF assms(1-4) True] changed by (simp add: q_def)
    then obtain i d where c: "(i, d) \<in> set chunks" "nat i = q" by (auto simp: natChunks_def)
    have "q * cs \<le> length file - 1" "length file - 1 < q * cs + cs"
      using assms(3) by (simp_all add: q_def dividend_less_div_times add.commute)
    moreover have d: "d = take cs (drop (q * cs) file)" using data c by auto
    ultimately have "q * cs + length d = length file" "d \<noteq> []" using True by auto
    with c show ?thesis by (metis (mono_tags, lifting) case_prodI)
  qed simp
qed

text \<open>
  C19: A chunked upload over a remote file publishes exactly the local file.  When the chunks sent are the ones in
  which the manifests of both differ, the stage that \<open>publishChunks\<close> assembles (by copy or rewrite, range
  writes into a string or an array, and a cut) replaces the bytes of the remote file with those of the local one, and
  the file stays well formed.
\<close>

theorem chunked_publication_exact:
  assumes "fileOk f" and "supported \<or> rf_ref f \<noteq> RefArray" and "0 < cs"
    and "old = map h (chunksOf cs (bytesOf f))" and "new = map h (chunksOf cs file)"
    and "inj_on h (set (chunksOf cs (bytesOf f)) \<union> set (chunksOf cs file))"
    and "set (map fst (natChunks chunks)) = set (fst (diffChunkManifests old new))"
    and "\<forall>(i, d) \<in> set chunks. 0 \<le> i \<and> d = take cs (drop (nat i * cs) file)"
  shows "\<exists>r stage. stageChunks supported False f (Some f) chunks (int cs) (int (length file)) = Inr (r, stage)
     \<and> fileOk (republished f r (length file) stage token) \<and> bytesOf (republished f r (length file) stage token) = file"
proof -
  have fit: "fitting chunks cs (rf_size f) (length file)"
    using changed_chunks_fit [OF assms(4,5,3,6,7,8)] length_bytesOf [OF assms(1)] by simp
  have "\<forall>(i, d) \<in> set (natChunks chunks). d = take cs (drop (i * cs) file)"
    using assms(8) by (force simp: natChunks_def)
  from changed_chunks_restore [OF assms(4,5,3,6,7) this]
  have "truncateTo (length file) (patched cs chunks (bytesOf f)) = file" by (simp add: patchDownload_def)
  with staged_chunks_patch [OF assms(1,2) fit assms(3), of False token] show ?thesis by simp
qed

lemma chunked_publication_exact_witness:
  "\<exists>r stage. stageChunks True False fileA (Some fileA) [(1, ''XY''), (2, ''e'')] 2 5 = Inr (r, stage)
     \<and> bytesOf (republished fileA r 5 stage ''r2'') = ''abXYe''"
proof -
  have ok: "fileOk fileA" "bytesOf fileA = ''abc''" by (auto simp: fileOk_def fileA_def bytesOf_def RefExternal_def RefArray_def)
  have c: "chunksOf 2 ''abc'' = [''ab'', ''c'']" "chunksOf 2 ''abXYe'' = [''ab'', ''XY'', ''e'']"
    by (simp_all add: chunksOf.simps numeral_2_eq_2)
  have "\<exists>r stage. stageChunks True False fileA (Some fileA) [(1, ''XY''), (2, ''e'')] (int 2) (int (length ''abXYe'')) = Inr (r, stage)
     \<and> fileOk (republished fileA r (length ''abXYe'') stage ''r2'') \<and> bytesOf (republished fileA r (length ''abXYe'') stage ''r2'') = ''abXYe''"
  proof (rule chunked_publication_exact [OF ok(1)])
    show "[''ab'', ''c''] = map id (chunksOf 2 (bytesOf fileA))" "[''ab'', ''XY'', ''e''] = map id (chunksOf 2 ''abXYe'')"
      by (simp_all add: c ok(2))
    show "set (map fst (natChunks [(1, ''XY''), (2, ''e'')])) = set (fst (diffChunkManifests [''ab'', ''c''] [''ab'', ''XY'', ''e'']))"
      by (auto simp: diffChunkManifests_def upt_rec natChunks_def)
  qed auto
  then show ?thesis by (auto simp: eval_nat_numeral)
qed

end
