(* ===== verification/Glob.thy ===== *)
theory Glob
  imports Prelude
begin

text \<open>
  Glob patterns (\<open>mount/internal/client/glob.go\<close>, the same code in \<open>cmd/afs/afs_grep.go\<close>) and the
  literal that the search takes out of a pattern (\<open>grepLiteralProbe\<close> of \<open>native_walk.go\<close>).  The matcher
  walks with two positions and one place to return to; it is shown to decide a declarative meaning of
  patterns.  A position is the rest of the string behind it.
\<close>

subsection \<open>The matcher\<close>

text \<open>One character of a class, which may be escaped, and what follows it.\<close>

definition classChar :: "string \<Rightarrow> char \<times> string" where
  "classChar p = (if hd p = CHR 0x5C \<and> 1 < length p then (p ! 1, drop 2 p) else (hd p, tl p))"

definition inRangeOf :: "char \<Rightarrow> char \<Rightarrow> char \<Rightarrow> bool" where
  "inRangeOf c d ch = (if c > d then d \<le> ch \<and> ch \<le> c else c \<le> ch \<and> ch \<le> d)"

text \<open>The rest of the pattern when the class accepts the character.\<close>

function classLoop :: "char \<Rightarrow> bool \<Rightarrow> bool \<Rightarrow> bool \<Rightarrow> string \<Rightarrow> string option" where
  "classLoop ch negate first matched [] = None"
| "classLoop ch negate first matched (x # r) =
     (if x = CHR '']'' \<and> \<not> first then (if matched \<noteq> negate then Some r else None)
      else let (c, p) = classChar (x # r) in
           if 2 \<le> length p \<and> p ! 0 = CHR ''-'' \<and> p ! 1 \<noteq> CHR '']''
           then let (d, q) = classChar (tl p) in classLoop ch negate False (matched \<or> inRangeOf c d ch) q
           else classLoop ch negate False (matched \<or> ch = c) p)"
  by pat_completeness auto
termination
  by (relation "measure (\<lambda>(_, _, _, _, p). length p)") (auto simp: classChar_def split: if_splits)

definition matchClass :: "string \<Rightarrow> char \<Rightarrow> string option" where
  "matchClass p ch =
     (if p = [] \<or> hd p \<noteq> CHR ''['' then None
      else if tl p \<noteq> [] \<and> hd (tl p) \<in> {CHR ''!'', CHR ''^''} then classLoop ch True True False (tl (tl p))
      else classLoop ch False True False (tl p))"

text \<open>The element at the front of a pattern, other than a star, against one character.\<close>

definition oneMatch :: "string \<Rightarrow> char \<Rightarrow> string option" where
  "oneMatch p ch =
     (case p of
        [] \<Rightarrow> None
      | x # r \<Rightarrow>
          if x = CHR ''*'' then None
          else if x = CHR ''?'' then Some r
          else if x = CHR ''['' then matchClass p ch
          else if x = CHR 0x5C then (if r \<noteq> [] \<and> hd r = ch then Some (tl r) else None)
          else if x = ch then Some r else None)"

text \<open>The loop; the place to return to is the pattern behind the last star and where it started.\<close>

function globLoop :: "string \<Rightarrow> string \<Rightarrow> (string \<times> string) option \<Rightarrow> bool" where
  "globLoop p [] star = (list_all (\<lambda>x. x = CHR ''*'') p)"
| "globLoop p (ch # s) star =
     (if p \<noteq> [] \<and> hd p = CHR ''*'' then globLoop (tl p) (ch # s) (Some (tl p, ch # s))
      else case oneMatch p ch of
        Some q \<Rightarrow> globLoop q s star
      | None \<Rightarrow>
          (case star of
             Some (q, x # t) \<Rightarrow> globLoop q t (Some (q, t))
           | _ \<Rightarrow> False))"
  by pat_completeness auto
termination
  by (relation "measures [\<lambda>(p, s, star). max (length s) (case star of None \<Rightarrow> 0 | Some (q, t) \<Rightarrow> length t),
        \<lambda>(p, s, star). length s, \<lambda>(p, s, star). length p]")
    (auto split: option.splits)

declare globLoop.simps(2) [simp del]

lemma globLoop_star: "globLoop (CHR ''*'' # p) (ch # s) star = globLoop p (ch # s) (Some (p, ch # s))"
  by (subst globLoop.simps(2)) simp

lemma globLoop_one:
  "\<not> (p \<noteq> [] \<and> hd p = CHR ''*'') \<Longrightarrow> oneMatch p ch = Some q \<Longrightarrow> globLoop p (ch # s) star = globLoop q s star"
  by (subst globLoop.simps(2)) (simp only: if_False option.case)

lemma globLoop_back:
  "\<not> (p \<noteq> [] \<and> hd p = CHR ''*'') \<Longrightarrow> oneMatch p ch = None
     \<Longrightarrow> globLoop p (ch # s) star = (case star of Some (q, x # t) \<Rightarrow> globLoop q t (Some (q, t)) | _ \<Rightarrow> False)"
  by (subst globLoop.simps(2)) (simp only: if_False option.case)

definition globMatch :: "string \<Rightarrow> string \<Rightarrow> bool" where
  "globMatch pattern str = globLoop pattern str None"

subsection \<open>What a pattern means\<close>

inductive globs :: "string \<Rightarrow> string \<Rightarrow> bool" where
  globs_end: "globs [] []"
| globs_star: "globs p s \<Longrightarrow> globs (CHR ''*'' # p) (t @ s)"
| globs_one: "oneMatch p ch = Some q \<Longrightarrow> globs q s \<Longrightarrow> globs p (ch # s)"

inductive_cases globs_starE: "globs (CHR ''*'' # p) s"
inductive_cases globs_NilE: "globs [] s"
inductive_cases globs_emptyE: "globs p []"
inductive_cases globs_ConsE: "globs p (ch # s)"

lemma oneMatch_star [simp]: "oneMatch (CHR ''*'' # p) ch = None"
  by (simp add: oneMatch_def)

lemma oneMatch_Nil [simp]: "oneMatch [] ch = None"
  by (simp add: oneMatch_def)

text \<open>What is left of a pattern behind a class does not depend on the character.\<close>

lemma classLoop_rest:
  "classLoop ch negate first matched p = Some q \<Longrightarrow> classLoop ch' negate first matched' p = Some q' \<Longrightarrow> q = q'"
proof (induction ch negate first matched p arbitrary: matched' rule: classLoop.induct)
  case (2 ch negate first matched x r)
  show ?case
  proof (cases "x = CHR '']'' \<and> \<not> first")
    case True
    with 2(3,4) show ?thesis by (auto split: if_splits)
  next
    case False
    obtain c p where c: "classChar (x # r) = (c, p)" by (rule prod.exhaust)
    show ?thesis
    proof (cases "2 \<le> length p \<and> p ! 0 = CHR ''-'' \<and> p ! 1 \<noteq> CHR '']''")
      case True
      obtain d q where d: "classChar (tl p) = (d, q)" by (rule prod.exhaust)
      from 2(1) [OF False c [symmetric] refl True d [symmetric] refl] 2(3,4) False True c d show ?thesis
        by (auto simp: Let_def)
    next
      case no: False
      from 2(2) [OF False c [symmetric] refl no] 2(3,4) False no c show ?thesis by (auto simp: Let_def)
    qed
  qed
qed simp

lemma oneMatch_rest: "oneMatch p ch = Some q \<Longrightarrow> oneMatch p ch' = Some q' \<Longrightarrow> q = q'"
  by (auto simp: oneMatch_def matchClass_def dest: classLoop_rest split: list.splits if_splits)

lemma globs_empty: "globs p [] \<longleftrightarrow> list_all (\<lambda>x. x = CHR ''*'') p"
proof
  show "globs p [] \<Longrightarrow> list_all (\<lambda>x. x = CHR ''*'') p"
    by (induction p "[] :: string" rule: globs.induct) auto
  show "list_all (\<lambda>x. x = CHR ''*'') p \<Longrightarrow> globs p []"
  proof (induction p)
    case (Cons x p)
    then show ?case using globs_star [of p "[]" "[]"] by simp
  qed (rule globs_end)
qed

lemma globs_star_iff: "globs (CHR ''*'' # p) s \<longleftrightarrow> (\<exists>t u. s = t @ u \<and> globs p u)"
proof
  assume "globs (CHR ''*'' # p) s"
  then show "\<exists>t u. s = t @ u \<and> globs p u"
    by (rule globs_starE) auto
qed (auto intro: globs_star)

lemma globs_one_iff:
  "p = [] \<or> hd p \<noteq> CHR ''*'' \<Longrightarrow> globs p (ch # s) \<longleftrightarrow> (\<exists>q. oneMatch p ch = Some q \<and> globs q s)"
  by (auto intro: globs_one elim!: globs_ConsE)

subsection \<open>The matcher decides it\<close>

text \<open>From one pair of positions to another by single elements only.\<close>

inductive globSteps :: "string \<Rightarrow> string \<Rightarrow> string \<Rightarrow> string \<Rightarrow> bool" for p0 s0 where
  globSteps_refl: "globSteps p0 s0 p0 s0"
| globSteps_one: "globSteps p0 s0 p (ch # s) \<Longrightarrow> oneMatch p ch = Some q \<Longrightarrow> globSteps p0 s0 q s"

text \<open>
  When the pattern also matches from a later start, it does so through the same elements, and what is
  behind them matches at a point that is as much later.
\<close>

lemma steps_later:
  assumes "globSteps p0 s0 p s" and "globs p0 (drop k s0)" and "k \<le> length s0"
  shows "globs p (drop k s) \<and> k \<le> length s"
  using assms
proof (induction rule: globSteps.induct)
  case (globSteps_one p ch s q)
  from globSteps_one.IH [OF globSteps_one.prems] have g: "globs p (drop k (ch # s))" and k: "k \<le> Suc (length s)" by simp_all
  have front: "p \<noteq> [] \<and> hd p \<noteq> CHR ''*''"
    using globSteps_one.hyps(2) by (cases p) (auto simp: oneMatch_def)
  show ?case
  proof (cases "drop k (ch # s)")
    case Nil
    with g front have False by (cases p) (simp_all add: globs_empty)
    then show ?thesis ..
  next
    case (Cons c t)
    with g front obtain q' where q': "oneMatch p c = Some q'" "globs q' t" by (auto simp: globs_one_iff)
    moreover have "t = drop k s" using Cons by (metis list.sel(3) tl_drop)
    moreover have "k \<le> length s" using Cons k by (metis drop_all length_Cons list.distinct(1) not_less_eq_eq)
    ultimately show ?thesis using oneMatch_rest [OF globSteps_one.hyps(2)] by blast
  qed
qed simp

lemma globSteps_length: "globSteps p0 s0 p s \<Longrightarrow> length s \<le> length s0"
  by (induction rule: globSteps.induct) auto

definition backTo :: "string \<Rightarrow> string \<Rightarrow> (string \<times> string) option \<Rightarrow> bool" where
  "backTo p s star \<longleftrightarrow> (case star of None \<Rightarrow> True | Some (p0, s0) \<Rightarrow> globSteps p0 s0 p s)"

definition laterMatch :: "(string \<times> string) option \<Rightarrow> bool" where
  "laterMatch star \<longleftrightarrow> (case star of None \<Rightarrow> False | Some (p0, s0) \<Rightarrow> \<exists>k. 0 < k \<and> k \<le> length s0 \<and> globs p0 (drop k s0))"

lemma globLoop_exact: "backTo p s star \<Longrightarrow> globLoop p s star \<longleftrightarrow> globs p s \<or> laterMatch star"
proof (induction p s star rule: globLoop.induct)
  case (1 p star)
  have "\<not> laterMatch star"
  proof
    assume "laterMatch star"
    then obtain p0 s0 k where star: "star = Some (p0, s0)" "0 < k" "k \<le> length s0" "globs p0 (drop k s0)"
      by (auto simp: laterMatch_def split: option.splits)
    with 1 have "globSteps p0 s0 p []" by (simp add: backTo_def)
    from steps_later [OF this star(4,3)] star(2) show False by simp
  qed
  then show ?case by (simp add: globs_empty)
next
  case (2 p ch s star)
  show ?case
  proof (cases "p \<noteq> [] \<and> hd p = CHR ''*''")
    case True
    then obtain p1 where p: "p = CHR ''*'' # p1" by (cases p) auto
    have IH: "globLoop p1 (ch # s) (Some (p1, ch # s)) \<longleftrightarrow> globs p1 (ch # s) \<or> laterMatch (Some (p1, ch # s))"
      using 2(1) [OF True] by (simp add: p backTo_def globSteps_refl)
    have now: "globs p (ch # s) \<longleftrightarrow> globs p1 (ch # s) \<or> laterMatch (Some (p1, ch # s))"
    proof
      assume "globs p (ch # s)"
      then obtain t u where "ch # s = t @ u" "globs p1 u" unfolding p globs_star_iff by blast
      then have "length t \<le> length (ch # s)" "globs p1 (drop (length t) (ch # s))" by simp_all
      then show "globs p1 (ch # s) \<or> laterMatch (Some (p1, ch # s))"
        by (cases "t = []") (auto simp: laterMatch_def intro!: exI [of _ "length t"])
    next
      assume "globs p1 (ch # s) \<or> laterMatch (Some (p1, ch # s))"
      then show "globs p (ch # s)"
        unfolding p globs_star_iff laterMatch_def by (auto simp del: drop_Cons' intro: exI [of _ "[]"]) (metis append_take_drop_id)
    qed
    have "laterMatch star \<Longrightarrow> globs p (ch # s)"
    proof -
      assume "laterMatch star"
      then obtain p0 s0 k where star: "star = Some (p0, s0)" "k \<le> length s0" "globs p0 (drop k s0)"
        by (auto simp: laterMatch_def split: option.splits)
      with 2(4) have "globSteps p0 s0 p (ch # s)" by (simp add: backTo_def)
      from steps_later [OF this star(3,2)] have "globs p (drop k (ch # s))" by simp
      then obtain t u where "drop k (ch # s) = t @ u" "globs p1 u" unfolding p globs_star_iff by blast
      then show ?thesis unfolding p globs_star_iff by (metis append.assoc append_take_drop_id)
    qed
    with IH now show ?thesis unfolding p globLoop_star by blast
  next
    case False
    show ?thesis
    proof (cases "oneMatch p ch")
      case (Some q)
      have "backTo q s star" using 2(4) Some by (auto simp: backTo_def intro: globSteps_one split: option.splits)
      from 2(3) [OF False Some this] have "globLoop q s star \<longleftrightarrow> globs q s \<or> laterMatch star" .
      moreover have "globLoop p (ch # s) star = globLoop q s star" by (rule globLoop_one [OF False Some])
      moreover have "globs p (ch # s) \<longleftrightarrow> globs q s" using False Some globs_one_iff [of p ch s] by auto
      ultimately show ?thesis by blast
    next
      case None
      have no: "\<not> globs p (ch # s)" using False None by (auto simp: globs_one_iff)
      show ?thesis
      proof (cases star)
        case None
        with no globLoop_back [OF False \<open>oneMatch p ch = None\<close>, of s star] show ?thesis by (simp add: laterMatch_def)
      next
        case (Some star1)
        obtain p0 s0 where star: "star = Some (p0, s0)" using Some by (cases star1) simp
        have "globSteps p0 s0 p (ch # s)" using 2(4) by (simp add: backTo_def star)
        then have "s0 \<noteq> []" using globSteps_length by fastforce
        then obtain x t where s0: "s0 = x # t" by (cases s0) auto
        have "globLoop p0 t (Some (p0, t)) \<longleftrightarrow> globs p0 t \<or> laterMatch (Some (p0, t))"
          using 2(2) [OF False \<open>oneMatch p ch = None\<close> star refl s0] by (simp add: backTo_def globSteps_refl)
        also have "\<dots> \<longleftrightarrow> (\<exists>m \<le> length t. globs p0 (drop m t))"
          unfolding laterMatch_def by simp (metis drop0 gr0I le0)
        also have "\<dots> \<longleftrightarrow> laterMatch star"
          unfolding laterMatch_def star s0
          by simp (metis Suc_le_mono Suc_pred' drop_Suc_Cons zero_less_Suc)
        finally show ?thesis using no globLoop_back [OF False \<open>oneMatch p ch = None\<close>, of s star] by (simp add: star s0)
      qed
    qed
  qed
qed

lemma globMatch_iff: "globMatch p s \<longleftrightarrow> globs p s"
  using globLoop_exact [of p s None] by (simp add: globMatch_def backTo_def laterMatch_def)


subsection \<open>Literal patterns\<close>

definition substring :: "string \<Rightarrow> string \<Rightarrow> bool" where
  "substring x s \<longleftrightarrow> (\<exists>a b. s = a @ x @ b)"

definition escapeGlobLiteral :: "string \<Rightarrow> string" where
  "escapeGlobLiteral s = concat (map (\<lambda>c. if c \<in> {CHR 0x5C, CHR ''*'', CHR ''?'', CHR ''['', CHR '']''} then [CHR 0x5C, c] else [c]) s)"

definition literalGlobPattern :: "string \<Rightarrow> string" where
  "literalGlobPattern s = CHR ''*'' # escapeGlobLiteral s @ [CHR ''*'']"

lemma globs_escaped: "globs (escapeGlobLiteral x @ p) s \<longleftrightarrow> (\<exists>u. s = x @ u \<and> globs p u)"
proof (induction x arbitrary: s)
  case (Cons c x)
  let ?p = "escapeGlobLiteral (c # x) @ p"
  have one: "oneMatch ?p d = (if d = c then Some (escapeGlobLiteral x @ p) else None)" for d
    by (auto simp: escapeGlobLiteral_def oneMatch_def)
  have front: "?p = [] \<or> hd ?p \<noteq> CHR ''*''" by (auto simp: escapeGlobLiteral_def)
  have long: "\<not> list_all (\<lambda>x. x = CHR ''*'') ?p" by (auto simp: escapeGlobLiteral_def)
  show ?case
  proof (cases s)
    case Nil
    with long show ?thesis by (simp add: globs_empty)
  next
    case (Cons d t)
    with Cons.IH [of t] globs_one_iff [OF front, of d t] one [of d] show ?thesis by auto
  qed
qed (simp add: escapeGlobLiteral_def)

lemma literal_globs: "globs (literalGlobPattern x) s \<longleftrightarrow> substring x s"
proof -
  have "globs [CHR ''*''] u" for u using globs_star [OF globs_end, of u] by simp
  then show ?thesis unfolding literalGlobPattern_def globs_star_iff globs_escaped substring_def by auto
qed

text \<open>
  A literal search is a substring search.  The pattern that the fast path builds from a literal, with
  every special character escaped, matches a line exactly when the line contains the literal, which is
  what the full scan tests.
\<close>

theorem literal_glob_is_substring: "globMatch (literalGlobPattern x) s \<longleftrightarrow> (\<exists>a b. s = a @ x @ b)"
  unfolding literal_globs [unfolded substring_def, symmetric] by (simp add: globMatch_def globLoop_exact backTo_def laterMatch_def)

subsection \<open>The literal taken out of a pattern\<close>

record probe_state =
  pr_best :: string
  pr_current :: string
  pr_escaped :: bool
  pr_inClass :: bool

definition flushProbe :: "probe_state \<Rightarrow> probe_state" where
  "flushProbe st =
     st\<lparr>pr_best := (if length (pr_current st) > length (pr_best st) then pr_current st else pr_best st), pr_current := []\<rparr>"

definition probeStep :: "probe_state \<Rightarrow> char \<Rightarrow> probe_state" where
  "probeStep st ch =
     (if pr_escaped st then st\<lparr>pr_current := pr_current st @ [ch], pr_escaped := False\<rparr>
      else if pr_inClass st then flushProbe (if ch = CHR '']'' then st\<lparr>pr_inClass := False\<rparr> else st)
      else if ch = CHR 0x5C then st\<lparr>pr_escaped := True\<rparr>
      else if ch \<in> {CHR ''*'', CHR ''?''} then flushProbe st
      else if ch = CHR ''['' then flushProbe (st\<lparr>pr_inClass := True\<rparr>)
      else st\<lparr>pr_current := pr_current st @ [ch]\<rparr>)"

definition finishProbe :: "probe_state \<Rightarrow> string" where
  "finishProbe st =
     pr_best (flushProbe (if pr_escaped st then st\<lparr>pr_current := pr_current st @ [CHR 0x5C]\<rparr> else st))"

definition grepLiteralProbe :: "string \<Rightarrow> string" where
  "grepLiteralProbe p = finishProbe (foldl probeStep \<lparr>pr_best = [], pr_current = [], pr_escaped = False, pr_inClass = False\<rparr> p)"

text \<open>
  The probe ends a class at the first closing bracket.  The matcher takes a bracket that comes first, or
  that is escaped, for a member of the class; classes without these have the same end in both.
\<close>

definition classBody :: "string \<Rightarrow> string" where
  "classBody r = (if r \<noteq> [] \<and> hd r \<in> {CHR ''!'', CHR ''^''} then tl r else r)"

definition plainBody :: "string \<Rightarrow> bool" where
  "plainBody p \<longleftrightarrow> (p = [] \<or> hd p \<noteq> CHR '']'') \<and> CHR 0x5C \<notin> set (takeWhile (\<lambda>x. x \<noteq> CHR '']'') p)"

definition afterClass :: "string \<Rightarrow> string" where
  "afterClass r = tl (dropWhile (\<lambda>x. x \<noteq> CHR '']'') (classBody r))"

lemma length_afterClass [simp]: "length (afterClass r) \<le> length r"
proof -
  have "length (dropWhile (\<lambda>x. x \<noteq> CHR '']'') (classBody r)) \<le> length (classBody r)" by (rule length_dropWhile_le)
  also have "\<dots> \<le> length r" by (simp add: classBody_def)
  finally show ?thesis by (simp add: afterClass_def)
qed

function plainClasses :: "string \<Rightarrow> bool" where
  "plainClasses [] = True"
| "plainClasses (x # r) =
     (if x = CHR 0x5C then plainClasses (tl r)
      else if x = CHR ''['' then plainBody (classBody r) \<and> plainClasses (afterClass r)
      else plainClasses r)"
  by pat_completeness auto
termination
  by (relation "measure length") (auto simp: less_Suc_eq_le)

lemma classLoop_end:
  "classLoop ch negate first matched p = Some q \<Longrightarrow> CHR 0x5C \<notin> set (takeWhile (\<lambda>x. x \<noteq> CHR '']'') p)
     \<Longrightarrow> first \<longrightarrow> p = [] \<or> hd p \<noteq> CHR '']'' \<Longrightarrow> \<exists>b. p = b @ CHR '']'' # q \<and> CHR '']'' \<notin> set b"
proof (induction ch negate first matched p rule: classLoop.induct)
  case (2 ch negate first matched x r)
  show ?case
  proof (cases "x = CHR '']'' \<and> \<not> first")
    case True
    with 2(3) show ?thesis by (auto split: if_splits)
  next
    case False
    with 2(5) have x: "x \<noteq> CHR '']''" by auto
    with 2(4) have "x \<noteq> CHR 0x5C" by auto
    then have c: "classChar (x # r) = (x, r)" by (simp add: classChar_def)
    have r: "CHR 0x5C \<notin> set (takeWhile (\<lambda>x. x \<noteq> CHR '']'') r)" using 2(4) x by simp
    show ?thesis
    proof (cases "2 \<le> length r \<and> r ! 0 = CHR ''-'' \<and> r ! 1 \<noteq> CHR '']''")
      case True
      then obtain z t where rz: "r = CHR ''-'' # z # t" by (cases r; cases "tl r") auto
      with r True have "z \<noteq> CHR 0x5C" by auto
      with rz have d: "classChar (tl r) = (z, t)" by (simp add: classChar_def)
      have go: "classLoop ch negate False (matched \<or> inRangeOf x z ch) t = Some q"
        using 2(3) False True c d by (simp add: Let_def)
      from 2(1) [OF False c [symmetric] refl True d [symmetric] refl go] r rz True
      obtain b where "t = b @ CHR '']'' # q" "CHR '']'' \<notin> set b" by auto
      then show ?thesis using rz x True by (intro exI [of _ "x # CHR ''-'' # z # b"]) auto
    next
      case no: False
      have go: "classLoop ch negate False (matched \<or> ch = x) r = Some q"
        using 2(3) by (simp only: classLoop.simps(2) False if_False Let_def c prod.case no)
      from 2(2) [OF False c [symmetric] refl no go] r obtain b where "r = b @ CHR '']'' # q" "CHR '']'' \<notin> set b" by auto
      then show ?thesis using x by (intro exI [of _ "x # b"]) auto
    qed
  qed
qed simp

lemma matchClass_end:
  assumes "matchClass (CHR ''['' # r) ch = Some q" and "plainBody (classBody r)"
  shows "\<exists>b. r = b @ CHR '']'' # q \<and> CHR '']'' \<notin> set b" and "q = afterClass r"
proof -
  have loop: "\<exists>n. classLoop ch n True False (classBody r) = Some q"
    using assms(1) by (auto simp: matchClass_def classBody_def split: if_splits)
  then obtain b where b: "classBody r = b @ CHR '']'' # q" "CHR '']'' \<notin> set b"
    using classLoop_end [of ch _ True False "classBody r" q] assms(2) by (auto simp: plainBody_def)
  then show "\<exists>b. r = b @ CHR '']'' # q \<and> CHR '']'' \<notin> set b"
    by (cases r) (auto simp: classBody_def split: if_splits intro: exI [of _ "hd r # b"])
  have "dropWhile (\<lambda>x. x \<noteq> CHR '']'') (b @ CHR '']'' # q) = CHR '']'' # q"
    using b(2) by (induction b) auto
  then show "q = afterClass r" by (simp add: afterClass_def b(1))
qed

text \<open>Nothing of a class enters the probe.\<close>

lemma probe_class:
  "pr_inClass st \<Longrightarrow> \<not> pr_escaped st \<Longrightarrow> pr_current st = [] \<Longrightarrow> CHR '']'' \<notin> set b
     \<Longrightarrow> foldl probeStep st (b @ CHR '']'' # q) = foldl probeStep (st\<lparr>pr_inClass := False\<rparr>) q"
proof (induction b arbitrary: st)
  case Nil
  then have "probeStep st CHR '']'' = st\<lparr>pr_inClass := False\<rparr>" by (cases st) (simp add: probeStep_def flushProbe_def)
  then show ?case by simp
next
  case (Cons x b)
  then have "x \<noteq> CHR '']''" by auto
  with Cons.prems(1-3) have "probeStep st x = st" by (cases st) (simp add: probeStep_def flushProbe_def)
  with Cons show ?case by simp
qed

definition probeOk :: "string \<Rightarrow> probe_state \<Rightarrow> bool" where
  "probeOk u st \<longleftrightarrow> \<not> pr_escaped st \<and> \<not> pr_inClass st \<and> substring (pr_best st) u \<and> (\<exists>a. u = a @ pr_current st)"

lemma substring_append: "substring x u \<Longrightarrow> substring x (u @ v)"
proof -
  assume "substring x u"
  then obtain a b where "u @ v = a @ x @ (b @ v)" by (auto simp: substring_def)
  then show ?thesis unfolding substring_def by blast
qed

lemma flush_best: "probeOk u st \<Longrightarrow> substring (pr_best (flushProbe st)) u"
proof -
  assume ok: "probeOk u st"
  then obtain a where "u = a @ pr_current st @ []" by (auto simp: probeOk_def)
  then have "substring (pr_current st) u" unfolding substring_def by blast
  with ok show ?thesis by (simp add: probeOk_def flushProbe_def)
qed

lemma probeOk_flush: "probeOk u st \<Longrightarrow> probeOk (u @ v) (flushProbe st)"
  using flush_best [of u st] substring_append by (auto simp: probeOk_def flushProbe_def)

lemma probeOk_char: "probeOk u st \<Longrightarrow> probeOk (u @ [c]) (st\<lparr>pr_current := pr_current st @ [c]\<rparr>)"
  using substring_append by (auto simp: probeOk_def)

lemma probe_contained:
  "globs p s \<Longrightarrow> plainClasses p \<Longrightarrow> probeOk u st \<Longrightarrow> substring (finishProbe (foldl probeStep st p)) (u @ s)"
proof (induction arbitrary: u st rule: globs.induct)
  case globs_end
  then show ?case using flush_best [of u st] by (simp add: finishProbe_def probeOk_def)
next
  case (globs_star p s t)
  have "probeOk (u @ t) (flushProbe st)" by (rule probeOk_flush [OF globs_star.prems(2)])
  moreover have "probeStep st CHR ''*'' = flushProbe st" using globs_star.prems(2) by (simp add: probeStep_def probeOk_def)
  moreover have "plainClasses p" using globs_star.prems(1) by simp
  ultimately show ?case using globs_star.IH [of "u @ t" "flushProbe st"] by simp
next
  case (globs_one p ch q s)
  note st = globs_one.prems(2)
  have flags: "\<not> pr_escaped st" "\<not> pr_inClass st" using st by (simp_all add: probeOk_def)
  obtain x r where p: "p = x # r" using globs_one.hyps(1) by (cases p) auto
  have IH: "plainClasses q \<Longrightarrow> probeOk (u @ [ch]) st' \<Longrightarrow> substring (finishProbe (foldl probeStep st' q)) (u @ ch # s)" for st'
    using globs_one.IH [of "u @ [ch]" st'] by simp
  from globs_one.hyps(1) consider "x = CHR ''?''" "q = r" | "x = CHR ''[''" "matchClass p ch = Some q"
    | "x = CHR 0x5C" "r = ch # q" | "x = ch" "q = r" "x \<notin> {CHR ''?'', CHR ''['', CHR 0x5C, CHR ''*''}"
    by (cases r) (auto simp: p oneMatch_def split: if_splits)
  then show ?case
  proof cases
    case 1
    then have "probeStep st x = flushProbe st" using flags by (simp add: probeStep_def)
    with IH [OF _ probeOk_flush [OF st]] globs_one.prems(1) 1 show ?thesis by (simp add: p)
  next
    case 2
    with globs_one.prems(1) have plain: "plainBody (classBody r)" "plainClasses (afterClass r)" by (simp_all add: p)
    from matchClass_end [OF 2(2) [unfolded p 2(1)] plain(1)]
    obtain b where b: "r = b @ CHR '']'' # q" "CHR '']'' \<notin> set b" and q: "q = afterClass r" by blast
    let ?in = "flushProbe (st\<lparr>pr_inClass := True\<rparr>)"
    have "foldl probeStep st p = foldl probeStep ?in r" using flags 2(1) by (simp add: p probeStep_def)
    also have "\<dots> = foldl probeStep (?in\<lparr>pr_inClass := False\<rparr>) q"
      unfolding b(1) using flags b(2) by (intro probe_class) (simp_all add: flushProbe_def)
    also have "?in\<lparr>pr_inClass := False\<rparr> = flushProbe st" using flags by (simp add: flushProbe_def)
    finally have "foldl probeStep st p = foldl probeStep (flushProbe st) q" .
    with IH [OF _ probeOk_flush [OF st]] plain(2) q show ?thesis by simp
  next
    case 3
    have "probeStep (probeStep st CHR 0x5C) ch = st\<lparr>pr_current := pr_current st @ [ch]\<rparr>"
      using flags by (cases st) (simp add: probeStep_def)
    with 3 have "foldl probeStep st p = foldl probeStep (st\<lparr>pr_current := pr_current st @ [ch]\<rparr>) q"
      by (simp add: p)
    with IH [OF _ probeOk_char [OF st]] globs_one.prems(1) 3 show ?thesis by (simp add: p)
  next
    case 4
    then have "foldl probeStep st p = foldl probeStep (st\<lparr>pr_current := pr_current st @ [ch]\<rparr>) q"
      using flags by (simp add: p probeStep_def)
    with IH [OF _ probeOk_char [OF st]] globs_one.prems(1) 4 show ?thesis by (simp add: p)
  qed
qed

lemma probe_in_text:
  assumes "globMatch p s" and "plainClasses p"
  shows "substring (grepLiteralProbe p) s"
  using probe_contained [of p s "[]"] assms globLoop_exact [of p s None]
  by (simp add: grepLiteralProbe_def globMatch_def backTo_def laterMatch_def probeOk_def substring_def)

text \<open>A class that starts with a closing bracket: the pattern matches a text that does not contain the probe.\<close>

lemma bracket_class_misses:
  "globMatch ''[]xy]'' ''x''" "grepLiteralProbe ''[]xy]'' = ''xy]''" "\<not> substring ''xy]'' ''x''"
  by (code_simp, code_simp) (auto simp: substring_def dest: arg_cong [of _ _ length])

end
