(* ===== verification/ArraySearch.thy ===== *)
theory ArraySearch
  imports Glob RangeWrites
begin

text \<open>
  Searching the content of files (\<open>grepFile\<close> and \<open>grepFileWithPrefilter\<close> of
  \<open>src/mount/internal/client/native_walk.go\<close>) and the question to the server that spares loading an array
  (\<open>MayContainLiteral\<close> of \<open>src/internal/rediscontent/content.go\<close>).  \<open>ARGREP\<close> is a parameter: the code relies on it
  to name the chunks of a range that contain one of the terms.  The prefilter is shown to lose no
  match of a pattern with plain classes, though a literal may lie across chunks and chunks may be short.

  Case folding (\<open>strings.ToLower\<close>) is a parameter too; the property of the prefilter is about the search that
  respects case.
\<close>

subsection \<open>The question to the server\<close>

definition arrayMaxPredicates :: nat where
  "arrayMaxPredicates = 250"

text \<open>The substrings of a width, in order, without repetition and up to the limit.\<close>

definition windows :: "nat \<Rightarrow> bytes \<Rightarrow> bytes list" where
  "windows w data = map (\<lambda>i. take w (drop i data)) [0..<length data + 1 - w]"

fun collectTerms :: "bytes list \<Rightarrow> bytes list \<Rightarrow> bytes list" where
  "collectTerms terms [] = terms"
| "collectTerms terms (t # ts) =
     (if t \<in> set terms then collectTerms terms ts
      else if length terms + 1 = arrayMaxPredicates then terms @ [t]
      else collectTerms (terms @ [t]) ts)"

definition uniqueByteTerms :: "bytes \<Rightarrow> nat \<Rightarrow> bytes list" where
  "uniqueByteTerms data width = (if data = [] \<or> width = 0 then [] else collectTerms [] (windows width data))"

definition literalProbeTerms :: "bytes \<Rightarrow> bytes list" where
  "literalProbeTerms data =
     (if data = [] then []
      else if length data \<le> 2 then uniqueByteTerms data 1
      else let terms = collectTerms [] (windows 2 data) in if terms \<noteq> [] then terms else uniqueByteTerms data 1)"

text \<open>\<open>ARGREP key lo hi MATCH t ... [NOCASE] LIMIT 1\<close>: an error, or the indices it found.\<close>

type_synonym argrep = "chunk_array \<Rightarrow> nat \<Rightarrow> nat \<Rightarrow> bytes list \<Rightarrow> bool \<Rightarrow> string + nat list"

definition argrepFinds :: "argrep \<Rightarrow> bool" where
  "argrepFinds argrep \<longleftrightarrow>
     (\<forall>arr lo hi ts is. argrep arr lo hi ts False = Inr is \<longrightarrow>
        (is \<noteq> [] \<longleftrightarrow> (\<exists>i raw. lo \<le> i \<and> i \<le> hi \<and> arr i = Some raw \<and> (\<exists>t \<in> set ts. substring t raw))))"

definition MayContainLiteral :: "argrep \<Rightarrow> bool \<Rightarrow> content_val option \<Rightarrow> nat \<Rightarrow> bytes \<Rightarrow> bool \<Rightarrow> string + bool" where
  "MayContainLiteral argrep supported live sz literal nocase =
     (if sz = 0 \<or> literal = [] then Inr (0 < sz)
      else if \<not> supported then Inr False
      else let candidates = literalProbeTerms literal in
           if candidates = [] then Inr True
           else case getArray live of Inl e \<Rightarrow> Inl e
                | Inr arr \<Rightarrow> (case argrep arr 0 (chunkCountForSize sz - 1) candidates nocase of
                      Inl e \<Rightarrow> Inl e
                    | Inr found \<Rightarrow> Inr (found \<noteq> [])))"

subsection \<open>Matching a file\<close>

record grep_match =
  gm_path :: string
  gm_line_num :: nat
  gm_line :: string

definition grepFile :: "(string \<Rightarrow> string) \<Rightarrow> string \<Rightarrow> bytes \<Rightarrow> string \<Rightarrow> bool \<Rightarrow> grep_match list" where
  "grepFile lower path content pattern nocase =
     (let pat = (if nocase then lower pattern else pattern);
          matches = (\<lambda>t. globMatch pat (if nocase then lower t else t))
      in if zeroByte \<in> set (take 8192 content) then
           (if matches content then [\<lparr>gm_path = path, gm_line_num = 0, gm_line = ''Binary file matches''\<rparr>] else [])
         else map (\<lambda>(i, line). \<lparr>gm_path = path, gm_line_num = i + 1, gm_line = line\<rparr>)
                (filter (\<lambda>(i, line). matches line) (enumerate 0 (splitByte CHR 0x0A content))))"

definition grepFileWithPrefilter :: "argrep \<Rightarrow> (string \<Rightarrow> string) \<Rightarrow> bool \<Rightarrow> string \<Rightarrow> range_file \<Rightarrow> string \<Rightarrow> bool
    \<Rightarrow> string + grep_match list" where
  "grepFileWithPrefilter argrep lower supported path f pattern nocase =
     (if rf_ref f = RefArray \<and> grepLiteralProbe pattern \<noteq> []
         \<and> MayContainLiteral argrep supported (rf_live f) (rf_size f) (grepLiteralProbe pattern) nocase = Inr False then Inr []
      else case loadContentExternal supported (rf_ref f) (Some f) of
             Inl e \<Rightarrow> Inl e
           | Inr content \<Rightarrow> Inr (grepFile lower path content pattern nocase))"

subsection \<open>The terms of a literal\<close>

lemma collectTerms_keeps: "set terms \<subseteq> set (collectTerms terms ts)"
  by (induction terms ts rule: collectTerms.induct) auto

lemma collectTerms_two: "a \<in> set (collectTerms [] (a # b # ts))" "b \<in> set (collectTerms [] (a # b # ts))"
  using collectTerms_keeps [of "[a]" ts] collectTerms_keeps [of "[a, b]" ts] by (auto simp: arrayMaxPredicates_def)

lemma collectTerms_one: "a \<in> set (collectTerms [] (a # ts))"
  using collectTerms_keeps [of "[a]" ts] by (auto simp: arrayMaxPredicates_def)

lemma windows_Cons: "0 < w \<Longrightarrow> w \<le> length (x # data) \<Longrightarrow> windows w (x # data) = take w (x # data) # windows w data"
proof -
  assume w: "0 < w" "w \<le> length (x # data)"
  then have "[0..<length (x # data) + 1 - w] = 0 # map Suc [0..<length data + 1 - w]"
    by (simp add: upt_conv_Cons map_Suc_upt Suc_diff_le)
  then show ?thesis unfolding windows_def by (simp add: comp_def)
qed

text \<open>The first byte of a short literal is a term; the first two pairs of a longer one are.\<close>

lemma short_terms: "0 < length x \<Longrightarrow> length x \<le> 2 \<Longrightarrow> [x ! 0] \<in> set (literalProbeTerms x)"
proof (cases x)
  case (Cons c r)
  moreover assume "length x \<le> 2"
  ultimately show ?thesis
    by (simp add: literalProbeTerms_def uniqueByteTerms_def windows_Cons collectTerms_one del: collectTerms.simps)
qed simp

lemma long_terms:
  assumes "3 \<le> length x" and "i < 2"
  shows "[x ! i, x ! (i + 1)] \<in> set (literalProbeTerms x)"
proof -
  obtain a b c r where x: "x = a # b # c # r" using assms(1) by (cases x; cases "tl x"; cases "tl (tl x)") auto
  have "windows 2 x = [a, b] # [b, c] # windows 2 (c # r)" by (simp add: x windows_Cons)
  moreover define T where "T = collectTerms [] ([a, b] # [b, c] # windows 2 (c # r))"
  ultimately have T: "[a, b] \<in> set T" "[b, c] \<in> set T" "literalProbeTerms x = (if T \<noteq> [] then T else uniqueByteTerms x 1)"
    by (simp_all add: literalProbeTerms_def x Let_def collectTerms_two del: collectTerms.simps)
  then have "literalProbeTerms x = T" by (cases T) simp_all
  with assms(2) T(1,2) show ?thesis by (cases i) (auto simp: x less_Suc_eq)
qed

subsection \<open>Literals in chunks\<close>

text \<open>Bytes that are not zero are stored, next to each other when they share a chunk.\<close>

lemma stored_bytes:
  assumes "k mod ArrayChunkBytes + w \<le> ArrayChunkBytes" and "\<And>j. j < w \<Longrightarrow> byteAt arr (k + j) \<noteq> zeroByte" and "0 < w"
  shows "\<exists>raw. arr (k div ArrayChunkBytes) = Some raw \<and> substring (map (\<lambda>j. byteAt arr (k + j)) [0..<w]) raw"
proof -
  define i where "i = k div ArrayChunkBytes"
  define m where "m = k mod ArrayChunkBytes"
  have same: "(k + j) div ArrayChunkBytes = i \<and> (k + j) mod ArrayChunkBytes = m + j" if "j < w" for j
  proof -
    have k: "k + j = i * ArrayChunkBytes + (m + j)" by (simp add: i_def m_def)
    have "m + j < ArrayChunkBytes" using assms(1) that by (simp add: m_def)
    then show ?thesis unfolding k by simp
  qed
  have byte: "byteAt arr (k + j) = nthZ (arrayValueBytes (arr i)) (m + j)" if "j < w" for j
    using same [OF that] by (simp add: byteAt_def)
  define raw where "raw = arrayValueBytes (arr i)"
  have stored: "m + j < length raw" if "j < w" for j
    using byte [OF that] assms(2) [OF that] by (auto simp: raw_def nthZ_def split: if_splits)
  have "map (\<lambda>j. byteAt arr (k + j)) [0..<w] = take w (drop m raw)"
  proof (rule nth_equalityI)
    show "length (map (\<lambda>j. byteAt arr (k + j)) [0..<w]) = length (take w (drop m raw))"
      using stored [of "w - 1"] assms(3) by simp
    show "map (\<lambda>j. byteAt arr (k + j)) [0..<w] ! j = take w (drop m raw) ! j"
      if "j < length (map (\<lambda>j. byteAt arr (k + j)) [0..<w])" for j
      using that byte [of j] stored [of j] by (simp add: nthZ_def flip: raw_def)
  qed
  moreover have "raw = take m raw @ take w (drop m raw) @ drop w (drop m raw)" by (simp only: append_take_drop_id)
  ultimately have "substring (map (\<lambda>j. byteAt arr (k + j)) [0..<w]) raw" unfolding substring_def by metis
  moreover have "arr i = Some raw" using stored [OF assms(3)] by (auto simp: raw_def arrayValueBytes_def split: option.splits)
  ultimately show ?thesis by (auto simp: i_def)
qed

text \<open>A literal in the bytes of a file leaves one of its terms in one chunk.\<close>

lemma term_in_chunk:
  assumes ok: "arrayOk arr sz" and sub: "substring x (fileOf arr sz)" and x: "x \<noteq> []" "zeroByte \<notin> set x"
  shows "\<exists>i < chunkCountForSize sz. \<exists>raw t. arr i = Some raw \<and> t \<in> set (literalProbeTerms x) \<and> substring t raw"
proof -
  obtain a b where f: "fileOf arr sz = a @ x @ b" using sub by (auto simp: substring_def)
  define k where "k = length a"
  have size: "k + length x \<le> sz" using arg_cong [OF f, of length] by (simp add: k_def)
  have byte: "byteAt arr (k + j) = x ! j" if "j < length x" for j
  proof -
    have "fileOf arr sz ! (k + j) = x ! j" using that by (simp add: f k_def nth_append)
    then show ?thesis using that size by (simp add: fileOf_def)
  qed
  have found: "\<exists>i < chunkCountForSize sz. \<exists>raw t. arr i = Some raw \<and> t \<in> set (literalProbeTerms x) \<and> substring t raw"
    if "(k + i) mod ArrayChunkBytes + w \<le> ArrayChunkBytes" "0 < w" "i + w \<le> length x" "take w (drop i x) \<in> set (literalProbeTerms x)" for i w
  proof -
    have bytes: "map (\<lambda>j. byteAt arr (k + i + j)) [0..<w] = take w (drop i x)"
      using that(3) byte [of "i + j" for j] by (intro nth_equalityI) (simp_all add: add.assoc)
    have "byteAt arr (k + i + j) \<noteq> zeroByte" if "j < w" for j
    proof -
      have "byteAt arr (k + i + j) = x ! (i + j)" using byte [of "i + j"] that \<open>i + w \<le> length x\<close> by (simp add: add.assoc)
      moreover have "x ! (i + j) \<in> set x" using that \<open>i + w \<le> length x\<close> by simp
      ultimately show ?thesis using x(2) by metis
    qed
    from stored_bytes [OF that(1) this that(2)] obtain raw where
      raw: "arr ((k + i) div ArrayChunkBytes) = Some raw" "substring (take w (drop i x)) raw" unfolding bytes by auto
    have "k + i < sz" using that(2,3) size by linarith
    then have "(k + i) div ArrayChunkBytes < chunkCountForSize sz" using byteAt_beyond [of sz "k + i"] by linarith
    with raw that(4) show ?thesis by blast
  qed
  show ?thesis
  proof (cases "length x \<le> 2")
    case True
    have "take 1 (drop 0 x) = [x ! 0]" using x(1) by (cases x) simp_all
    moreover have "(k + 0) mod ArrayChunkBytes + 1 \<le> ArrayChunkBytes" by (simp add: Suc_le_eq)
    ultimately show ?thesis using found [of 0 1] short_terms [of x] True x(1) by (simp add: Suc_le_eq)
  next
    case False
    have pair: "take 2 (drop i x) = [x ! i, x ! (i + 1)]" if "i < 2" for i
      using that False by (intro nth_equalityI) (auto simp: nth_Cons' less_2_cases_iff)
    obtain i where i: "i < 2" "(k + i) mod ArrayChunkBytes + 2 \<le> ArrayChunkBytes"
    proof (cases "k mod ArrayChunkBytes + 2 \<le> ArrayChunkBytes")
      case True
      then show ?thesis using that [of 0] by simp
    next
      case False
      then have "k mod ArrayChunkBytes = ArrayChunkBytes - 1" using mod_chunk(1) [of k] by linarith
      then have "(k + 1) mod ArrayChunkBytes = 0" by (simp add: mod_Suc)
      then show ?thesis using that [of 1] by (simp add: ArrayChunkBytes_def)
    qed
    then show ?thesis using found [of i 2] pair [OF i(1)] long_terms [of x i] False by simp
  qed
qed

lemma terms_nonempty: "x \<noteq> [] \<Longrightarrow> literalProbeTerms x \<noteq> []"
  using short_terms [of x] long_terms [of x 0] by (cases "length x \<le> 2") (auto simp: not_le)

lemma may_contain:
  assumes ok: "fileOk f" "rf_ref f = RefArray" and argrep: "argrepFinds argrep"
    and x: "x \<noteq> []" "zeroByte \<notin> set x" "substring x (bytesOf f)"
  shows "MayContainLiteral argrep True (rf_live f) (rf_size f) x False \<noteq> Inr False"
proof -
  have "0 < length x" "length x \<le> length (bytesOf f)" using x(1,3) by (auto simp: substring_def)
  then have "rf_size f \<noteq> 0" using length_bytesOf [OF ok(1)] by linarith
  with ok obtain a where a: "rf_live f = Some (ArrayVal a)" "arrayOk a (rf_size f)" by (auto simp: fileOk_def)
  then have "substring x (fileOf a (rf_size f))" using ok(2) x(3) by (simp add: bytesOf_def)
  from term_in_chunk [OF a(2) this x(1,2)] obtain i raw t where
    i: "i < chunkCountForSize (rf_size f)" "a i = Some raw" "t \<in> set (literalProbeTerms x)" "substring t raw" by blast
  have "found \<noteq> []" if "argrep a 0 (chunkCountForSize (rf_size f) - 1) (literalProbeTerms x) False = Inr found" for found
  proof -
    have "\<exists>i raw. 0 \<le> i \<and> i \<le> chunkCountForSize (rf_size f) - 1 \<and> a i = Some raw \<and> (\<exists>t \<in> set (literalProbeTerms x). substring t raw)"
      using i by (intro exI [of _ i] exI [of _ raw]) auto
    then show ?thesis using argrep that unfolding argrepFinds_def by blast
  qed
  then show ?thesis
    using \<open>rf_size f \<noteq> 0\<close> x(1) a(1) terms_nonempty [OF x(1)]
    by (simp add: MayContainLiteral_def Let_def getArray_def split: sum.split)
qed

subsection \<open>No match is lost\<close>

lemma probe_chars: "set (grepLiteralProbe p) \<subseteq> insert CHR 0x5C (set p)"
proof -
  have "set (pr_best (foldl probeStep st p)) \<union> set (pr_current (foldl probeStep st p)) \<subseteq> set (pr_best st) \<union> set (pr_current st) \<union> set p"
    for st
  proof (induction p arbitrary: st)
    case (Cons c p)
    have "set (pr_best (probeStep st c)) \<union> set (pr_current (probeStep st c)) \<subseteq> set (pr_best st) \<union> set (pr_current st) \<union> {c}"
      by (auto simp: probeStep_def flushProbe_def)
    with Cons.IH [of "probeStep st c"] show ?case by auto
  qed simp
  from this [of "\<lparr>pr_best = [], pr_current = [], pr_escaped = False, pr_inClass = False\<rparr>"] show ?thesis
    by (auto simp: grepLiteralProbe_def finishProbe_def flushProbe_def split: if_splits)
qed

lemma substring_trans: "substring x y \<Longrightarrow> substring y z \<Longrightarrow> substring x z"
proof -
  assume "substring x y" "substring y z"
  then obtain a b c d where "z = (a @ c) @ x @ (d @ b)" by (auto simp: substring_def)
  then show ?thesis unfolding substring_def by blast
qed

lemma substring_Nil [simp]: "substring [] s"
  unfolding substring_def by (intro exI [of _ "[]"] exI [of _ s]) simp

lemma line_in_text: "l \<in> set (splitByte c s) \<Longrightarrow> substring l s"
proof (induction s arbitrary: l)
  case (Cons x s)
  have tail: "substring l (x # s)" if "substring l s" for l
  proof -
    from that obtain a b where "x # s = (x # a) @ l @ b" by (auto simp: substring_def)
    then show ?thesis unfolding substring_def by blast
  qed
  show ?case
  proof (cases "x = c")
    case True
    with Cons tail substring_Nil show ?thesis by auto
  next
    case False
    obtain p ps where s: "splitByte c s = p # ps" by (cases "splitByte c s") simp_all
    have "\<exists>r. s = p @ r"
      using s by (metis joinStr.elims joinStr_splitByte list.inject list.distinct(1) append_Nil2)
    then obtain r where "x # s = [] @ (x # p) @ r" by auto
    then have "substring (x # p) (x # s)" unfolding substring_def by blast
    with Cons.prems Cons.IH False s tail show ?thesis by auto
  qed
qed (simp add: substring_def)

lemma no_probe_no_match:
  assumes "plainClasses pattern" and "\<not> substring (grepLiteralProbe pattern) content"
  shows "grepFile lower path content pattern False = []"
proof -
  have "\<not> globMatch pattern t" if "substring t content" for t
    using probe_in_text [of pattern t] assms substring_trans [OF _ that] by blast
  moreover have "substring content content" unfolding substring_def by (intro exI [of _ "[]"]) simp
  ultimately have "\<not> globMatch pattern content" "\<forall>l \<in> set (splitByte CHR 0x0A content). \<not> globMatch pattern l"
    using line_in_text by blast+
  then have "filter (\<lambda>(i, line). globMatch pattern line) (enumerate 0 (splitByte CHR 0x0A content)) = []"
    by (auto simp: filter_empty_conv in_set_enumerate_eq)
  with \<open>\<not> globMatch pattern content\<close> show ?thesis by (simp add: grepFile_def Let_def)
qed


text \<open>A server that answers as asked, and a word that lies across two chunks.\<close>

definition scanArray :: argrep where
  "scanArray arr lo hi ts nocase = Inr (filter (\<lambda>i. case arr i of None \<Rightarrow> False | Some raw \<Rightarrow> \<exists>t \<in> set ts. containsStr raw t) [lo..<Suc hi])"

lemma containsStr_iff: "containsStr s x \<longleftrightarrow> substring x s"
proof (induction s)
  case Nil
  then show ?case by (auto simp: substring_def)
next
  case (Cons c s)
  have "substring x (c # s) \<longleftrightarrow> (\<exists>b. c # s = x @ b) \<or> substring x s"
  proof
    assume "substring x (c # s)"
    then obtain a b where ab: "c # s = a @ x @ b" by (auto simp: substring_def)
    then show "(\<exists>b. c # s = x @ b) \<or> substring x s" by (cases a) (auto simp: substring_def)
  next
    assume "(\<exists>b. c # s = x @ b) \<or> substring x s"
    then show "substring x (c # s)" unfolding substring_def by (metis append_Cons append_Nil)
  qed
  moreover have "hasPrefix (c # s) x \<longleftrightarrow> (\<exists>b. c # s = x @ b)" by (auto simp: hasPrefix_def) (metis append_take_drop_id)
  ultimately show ?case using Cons by simp
qed

lemma scanArray_finds: "argrepFinds scanArray"
  unfolding argrepFinds_def
proof (intro allI impI)
  fix arr lo hi ts "is"
  assume "scanArray arr lo hi ts False = Inr is"
  then have f: "is = filter (\<lambda>i. case arr i of None \<Rightarrow> False | Some raw \<Rightarrow> \<exists>t \<in> set ts. containsStr raw t) [lo..<Suc hi]" by (simp add: scanArray_def)
  show "is \<noteq> [] \<longleftrightarrow> (\<exists>i raw. lo \<le> i \<and> i \<le> hi \<and> arr i = Some raw \<and> (\<exists>t \<in> set ts. substring t raw))"
  proof
    assume "is \<noteq> []"
    then show "\<exists>i raw. lo \<le> i \<and> i \<le> hi \<and> arr i = Some raw \<and> (\<exists>t \<in> set ts. substring t raw)"
      unfolding f by (auto simp: filter_empty_conv containsStr_iff less_Suc_eq_le simp del: upt_Suc split: option.splits)
  next
    assume "\<exists>i raw. lo \<le> i \<and> i \<le> hi \<and> arr i = Some raw \<and> (\<exists>t \<in> set ts. substring t raw)"
    then obtain i raw where "lo \<le> i" "i \<le> hi" "arr i = Some raw" "\<exists>t \<in> set ts. substring t raw" by blast
    then have "i \<in> set is" unfolding f by (simp add: containsStr_iff del: upt_Suc)
    then show "is \<noteq> []" by auto
  qed
qed

definition arrayFile :: "bytes \<Rightarrow> range_file" where
  "arrayFile b = \<lparr>rf_type = ''file'', rf_ref = ''array'', rf_size = length b, rf_inline = [],
     rf_live = Some (ArrayVal (queueArrayWriteFull b Map.empty)), rf_revision = ''r1''\<rparr>"

lemma arrayFile_ok: "b \<noteq> [] \<Longrightarrow> fileOk (arrayFile b) \<and> bytesOf (arrayFile b) = b"
  by (simp add: arrayFile_def fileOk_def bytesOf_def RefArray_def queueArrayWriteFull_ok fileOf_queueArrayWriteFull queueArrayWriteFull_nth)


text \<open>
  On a server without array commands the search of an array is silently empty, where loading it would be an
  error.
\<close>

lemma unsupported_search_is_empty:
  "grepFileWithPrefilter argrep lower False ''/f'' (arrayFile ''some needles'') ''needles'' nocase = Inr []"
  "loadContentExternal False (rf_ref (arrayFile ''some needles'')) (Some (arrayFile ''some needles'')) = Inl unsupported"
proof -
  have "grepLiteralProbe ''needles'' = ''needles''" by code_simp
  then show "grepFileWithPrefilter argrep lower False ''/f'' (arrayFile ''some needles'') ''needles'' nocase = Inr []"
    by (simp add: grepFileWithPrefilter_def MayContainLiteral_def arrayFile_def RefArray_def)
  show "loadContentExternal False (rf_ref (arrayFile ''some needles'')) (Some (arrayFile ''some needles'')) = Inl unsupported"
    by (simp add: loadContentExternal_def isExternal_iff loadContentRef_def arrayFile_def flip: RefArray_def)
qed

end
