(* ===== verification/CommandGrep.thy ===== *)
theory CommandGrep
  imports ArraySearch "HOL-Library.List_Lexorder" "HOL-Library.Char_ord"
begin

text \<open>
  The \<open>grep\<close> command (\<open>src/cmd/afs/afs_grep.go\<close>) and the gram index behind its fast path
  (\<open>src/internal/searchindex/searchindex.go\<close>).  Options, matchers, the search of one file, the scan of all
  files and the search of the files the index names.  What a run prints is a list of lines.

  Parameters: case folding (\<open>strings.ToLower\<close>), the compiler of regular expressions, the answers of the full
  text index, the content of a path (\<open>Cat\<close>) and the escaping of a tag value.
\<close>

subsection \<open>Options\<close>

record grep_options =
  go_path :: string
  go_ignoreCase :: bool
  go_glob :: bool
  go_fixedStrings :: bool
  go_extendedRegexp :: bool
  go_basicRegexp :: bool
  go_wordRegexp :: bool
  go_lineRegexp :: bool
  go_invertMatch :: bool
  go_filesWithMatches :: bool
  go_countOnly :: bool
  go_showLineNumbers :: bool
  go_maxCount :: int
  go_patterns :: "string list"

definition defaultOptions :: grep_options where
  "defaultOptions = \<lparr>go_path = [], go_ignoreCase = False, go_glob = False, go_fixedStrings = False, go_extendedRegexp = False,
     go_basicRegexp = False, go_wordRegexp = False, go_lineRegexp = False, go_invertMatch = False, go_filesWithMatches = False,
     go_countOnly = False, go_showLineNumbers = True, go_maxCount = 0, go_patterns = []\<rparr>"

text \<open>\<open>strconv.Atoi\<close>: a sign, digits, and the range of an \<open>int\<close>.\<close>

definition atoi :: "string \<Rightarrow> int option" where
  "atoi s =
     (let v = (case s of
          [] \<Rightarrow> None
        | c # t \<Rightarrow> if c = CHR ''-'' then map_option (\<lambda>n. - int n) (natVal t)
                   else if c = CHR ''+'' then map_option int (natVal t)
                   else map_option int (natVal s))
      in case v of None \<Rightarrow> None | Some n \<Rightarrow> if - maxInt64 - 1 \<le> n \<and> n \<le> maxInt64 then Some n else None)"

definition countFlag :: "string \<Rightarrow> grep_options \<Rightarrow> string + grep_options" where
  "countFlag s o1 = (case atoi s of None \<Rightarrow> Inl ''invalid value''
     | Some n \<Rightarrow> if n < 0 then Inl ''invalid value'' else Inr (o1\<lparr>go_maxCount := n\<rparr>))"

text \<open>The flags that stand alone.\<close>

definition switchFlag :: "string \<Rightarrow> grep_options \<Rightarrow> grep_options option" where
  "switchFlag arg o1 =
     (if arg \<in> {''-i'', ''--ignore-case''} then Some (o1\<lparr>go_ignoreCase := True\<rparr>)
      else if arg = ''--glob'' then Some (o1\<lparr>go_glob := True\<rparr>)
      else if arg \<in> {''-F'', ''--fixed-strings''} then Some (o1\<lparr>go_fixedStrings := True\<rparr>)
      else if arg \<in> {''-E'', ''--extended-regexp''} then Some (o1\<lparr>go_extendedRegexp := True\<rparr>)
      else if arg \<in> {''-G'', ''--basic-regexp''} then Some (o1\<lparr>go_basicRegexp := True\<rparr>)
      else if arg \<in> {''-w'', ''--word-regexp''} then Some (o1\<lparr>go_wordRegexp := True\<rparr>)
      else if arg \<in> {''-x'', ''--line-regexp''} then Some (o1\<lparr>go_lineRegexp := True\<rparr>)
      else if arg \<in> {''-v'', ''--invert-match''} then Some (o1\<lparr>go_invertMatch := True\<rparr>)
      else if arg \<in> {''-l'', ''--files-with-matches''} then Some (o1\<lparr>go_filesWithMatches := True\<rparr>)
      else if arg \<in> {''-c'', ''--count''} then Some (o1\<lparr>go_countOnly := True\<rparr>)
      else if arg \<in> {''-n'', ''--line-number''} then Some (o1\<lparr>go_showLineNumbers := True\<rparr>)
      else None)"

text \<open>The flags that take a value, from the next argument or behind an equals sign.\<close>

definition takesValue :: "string \<Rightarrow> bool" where
  "takesValue arg \<longleftrightarrow> arg \<in> {''--path'', ''-e'', ''--regexp'', ''-m'', ''--max-count''}"

definition setValue :: "string \<Rightarrow> string \<Rightarrow> grep_options \<Rightarrow> string + grep_options" where
  "setValue flag v o1 =
     (if flag = ''--path'' then Inr (o1\<lparr>go_path := v\<rparr>)
      else if flag \<in> {''-e'', ''--regexp''} then Inr (o1\<lparr>go_patterns := go_patterns o1 @ [v]\<rparr>)
      else countFlag v o1)"

definition equalsFlag :: "string \<Rightarrow> (string \<times> string) option" where
  "equalsFlag arg =
     (case filter (\<lambda>f. hasPrefix arg (f @ ''='')) [''--path'', ''--regexp'', ''--max-count''] of
        [] \<Rightarrow> None | f # _ \<Rightarrow> Some (f, trimPrefix arg (f @ ''='')))"

fun parseFlags :: "string list \<Rightarrow> grep_options \<Rightarrow> string list \<Rightarrow> string + grep_options \<times> string list" where
  "parseFlags [] o1 pos = Inr (o1, pos)"
| "parseFlags [arg] o1 pos =
     (if takesValue arg then Inl ''missing value''
      else case switchFlag arg o1 of Some o2 \<Rightarrow> Inr (o2, pos)
      | None \<Rightarrow> (case equalsFlag arg of
            Some (f, v) \<Rightarrow> bindE (setValue f v o1) (\<lambda>o2. Inr (o2, pos))
          | None \<Rightarrow> if arg = ''--'' then Inr (o1, pos)
                    else if hasPrefix arg ''-'' then Inl ''unknown flag'' else Inr (o1, pos @ [arg])))"
| "parseFlags (arg # v # rest) o1 pos =
     (if takesValue arg then bindE (setValue arg v o1) (\<lambda>o2. parseFlags rest o2 pos)
      else case switchFlag arg o1 of Some o2 \<Rightarrow> parseFlags (v # rest) o2 pos
      | None \<Rightarrow> (case equalsFlag arg of
            Some (f, w) \<Rightarrow> bindE (setValue f w o1) (\<lambda>o2. parseFlags (v # rest) o2 pos)
          | None \<Rightarrow> if arg = ''--'' then Inr (o1, pos @ v # rest)
                    else if hasPrefix arg ''-'' then Inl ''unknown flag'' else parseFlags (v # rest) o1 (pos @ [arg])))"

definition checkOptions :: "grep_options \<Rightarrow> string + grep_options" where
  "checkOptions o1 =
     (if go_filesWithMatches o1 \<and> go_countOnly o1 then Inl ''cannot combine --files-with-matches and --count''
      else if go_maxCount o1 < 0 then Inl ''--max-count must be >= 0''
      else if length (filter id [go_glob o1, go_fixedStrings o1, go_extendedRegexp o1 \<or> go_basicRegexp o1]) > 1
        then Inl ''choose only one of --glob, --fixed-strings, or regex mode''
      else if go_glob o1 \<and> (go_wordRegexp o1 \<or> go_lineRegexp o1)
        then Inl ''cannot combine --glob with -w/--word-regexp or -x/--line-regexp''
      else Inr o1)"

definition parseGrepArgs :: "string list \<Rightarrow> string + grep_options" where
  "parseGrepArgs args =
     bindE (parseFlags args defaultOptions []) (\<lambda>(o1, pos).
     bindE (if go_patterns o1 = [] then (case pos of [p] \<Rightarrow> Inr (o1\<lparr>go_patterns := [p]\<rparr>) | _ \<Rightarrow> Inl ''usage'')
            else if pos \<noteq> [] then Inl ''unexpected positional arguments'' else Inr o1) checkOptions)"

definition useFastGrepBackend :: "grep_options \<Rightarrow> bool" where
  "useFastGrepBackend o1 \<longleftrightarrow>
     length (go_patterns o1) = 1 \<and> \<not> (go_extendedRegexp o1 \<or> go_basicRegexp o1)
     \<and> \<not> (go_wordRegexp o1 \<or> go_lineRegexp o1 \<or> go_invertMatch o1)
     \<and> \<not> (go_filesWithMatches o1 \<or> go_countOnly o1 \<or> go_maxCount o1 > 0)"

subsection \<open>Matchers\<close>

datatype grep_mode = grepModeLiteral | grepModeRegex | grepModeGlob

type_synonym regexp = "string \<Rightarrow> bool"

record grep_matcher =
  mt_mode :: grep_mode
  mt_ignoreCase :: bool
  mt_patterns :: "string list"
  mt_lowerPatterns :: "string list"
  mt_regexps :: "regexp list"

record grep_env =
  ge_lower :: "string \<Rightarrow> string"
  ge_compile :: "string \<Rightarrow> string + regexp"
  ge_quoteMeta :: "string \<Rightarrow> string"

definition compileGrepRegexp :: "grep_env \<Rightarrow> string \<Rightarrow> bool \<Rightarrow> grep_options \<Rightarrow> string + regexp" where
  "compileGrepRegexp env pattern literal o1 =
     (let p1 = (if literal then ge_quoteMeta env pattern else pattern);
          p2 = (if go_wordRegexp o1 then ''(?:^|[^[:alnum:]_])(?:'' @ p1 @ '')(?:$|[^[:alnum:]_])'' else p1);
          p3 = (if go_lineRegexp o1 then ''^(?:'' @ p2 @ '')$'' else p2);
          p4 = (if go_ignoreCase o1 then ''(?i)'' @ p3 else p3)
      in case ge_compile env p4 of Inl e \<Rightarrow> Inl (''invalid regular expression: '' @ e) | Inr r \<Rightarrow> Inr r)"

fun compileAll :: "grep_env \<Rightarrow> bool \<Rightarrow> grep_options \<Rightarrow> string list \<Rightarrow> string + regexp list" where
  "compileAll env literal o1 [] = Inr []"
| "compileAll env literal o1 (p # ps) =
     bindE (compileGrepRegexp env p literal o1) (\<lambda>r. bindE (compileAll env literal o1 ps) (\<lambda>rs. Inr (r # rs)))"

definition newMatcher :: "grep_mode \<Rightarrow> grep_options \<Rightarrow> grep_matcher" where
  "newMatcher mode o1 = \<lparr>mt_mode = mode, mt_ignoreCase = go_ignoreCase o1, mt_patterns = [], mt_lowerPatterns = [], mt_regexps = []\<rparr>"

definition withPatterns :: "grep_env \<Rightarrow> grep_options \<Rightarrow> grep_matcher \<Rightarrow> grep_matcher" where
  "withPatterns env o1 mt =
     mt\<lparr>mt_patterns := go_patterns o1, mt_lowerPatterns := (if go_ignoreCase o1 then map (ge_lower env) (go_patterns o1) else [])\<rparr>"

definition compileGrepMatcher :: "grep_env \<Rightarrow> grep_options \<Rightarrow> string + grep_matcher" where
  "compileGrepMatcher env o1 =
     (if go_glob o1 then Inr (withPatterns env o1 (newMatcher grepModeGlob o1))
      else if go_extendedRegexp o1 \<or> go_basicRegexp o1 then
        bindE (compileAll env False o1 (go_patterns o1)) (\<lambda>rs. Inr ((newMatcher grepModeRegex o1)\<lparr>mt_regexps := rs\<rparr>))
      else if go_wordRegexp o1 \<or> go_lineRegexp o1 then
        bindE (compileAll env True o1 (go_patterns o1)) (\<lambda>rs. Inr ((newMatcher grepModeLiteral o1)\<lparr>mt_regexps := rs\<rparr>))
      else Inr (withPatterns env o1 (newMatcher grepModeLiteral o1)))"

text \<open>\<open>matchLine\<close> and \<open>matchBytes\<close> are the same function on strings and on bytes.\<close>

definition matchText :: "grep_env \<Rightarrow> grep_matcher \<Rightarrow> string \<Rightarrow> bool" where
  "matchText env mt line =
     (let t = (if mt_ignoreCase mt then ge_lower env line else line);
          ps = (if mt_ignoreCase mt then mt_lowerPatterns mt else mt_patterns mt)
      in if mt_regexps mt \<noteq> [] then (\<exists>r \<in> set (mt_regexps mt). r line)
         else if mt_mode mt = grepModeGlob then (\<exists>p \<in> set ps. globMatch p t)
         else (\<exists>p \<in> set ps. containsStr t p))"

subsection \<open>One file\<close>

definition grepBinaryPrefix :: "bytes \<Rightarrow> bool" where
  "grepBinaryPrefix content \<longleftrightarrow> zeroByte \<in> set (take 8192 content)"

definition grepProcessBinaryFile :: "grep_env \<Rightarrow> string \<Rightarrow> bytes \<Rightarrow> grep_options \<Rightarrow> grep_matcher \<Rightarrow> string list" where
  "grepProcessBinaryFile env path content o1 mt =
     (let selected = (if go_invertMatch o1 then False else matchText env mt content) in
      if \<not> selected then (if go_countOnly o1 then [path @ '':0''] else [])
      else if go_filesWithMatches o1 then [path]
      else if go_countOnly o1 then [path @ '':1'']
      else [path @ '':Binary file matches''])"

text \<open>The loop over the lines: what it prints and how many lines it selected.\<close>

fun grepLines :: "grep_env \<Rightarrow> string \<Rightarrow> grep_options \<Rightarrow> grep_matcher \<Rightarrow> nat \<Rightarrow> nat \<Rightarrow> string list \<Rightarrow> string list \<times> nat" where
  "grepLines env path o1 mt i matches [] = ([], matches)"
| "grepLines env path o1 mt i matches (line # lines) =
     (if matchText env mt line = go_invertMatch o1 then grepLines env path o1 mt (Suc i) matches lines
      else if go_filesWithMatches o1 then ([path], matches + 1)
      else let out = (if go_countOnly o1 then []
                      else [if go_showLineNumbers o1 then path @ '':'' @ natDigits (i + 1) @ '':'' @ line else path @ '':'' @ line]);
               (rest, total) = (if go_maxCount o1 > 0 \<and> int (matches + 1) \<ge> go_maxCount o1 then ([], matches + 1)
                                else grepLines env path o1 mt (Suc i) (matches + 1) lines)
           in (out @ rest, total))"

definition grepProcessFile :: "grep_env \<Rightarrow> string \<Rightarrow> bytes \<Rightarrow> grep_options \<Rightarrow> grep_matcher \<Rightarrow> string list" where
  "grepProcessFile env path content o1 mt =
     (if grepBinaryPrefix content then grepProcessBinaryFile env path content o1 mt
      else let (out, total) = grepLines env path o1 mt 0 0 (splitByte CHR 0x0A content)
           in if go_countOnly o1 \<and> \<not> (go_filesWithMatches o1 \<and> out \<noteq> []) then out @ [path @ '':'' @ natDigits total] else out)"

subsection \<open>The gram index\<close>

definition GramSize :: nat where
  "GramSize = 3"

definition MaxIndexedBytes :: nat where
  "MaxIndexedBytes = 262144"

definition MaxUniqueGrams :: nat where
  "MaxUniqueGrams = 16384"

definition hexDigit :: "nat \<Rightarrow> char" where
  "hexDigit n = char_of (if n < 10 then 48 + n else 87 + n)"

definition hexEncode :: "bytes \<Rightarrow> string" where
  "hexEncode b = concat (map (\<lambda>c. [hexDigit (of_char c div 16), hexDigit (of_char c mod 16)]) b)"

definition gramTerm :: "bytes \<Rightarrow> string" where
  "gramTerm g = CHR ''g'' # hexEncode g"

text \<open>The loop stops when the limit on the terms is reached.\<close>

fun collectGrams :: "string list \<Rightarrow> bytes list \<Rightarrow> string list" where
  "collectGrams terms [] = terms"
| "collectGrams terms (g # gs) =
     (if MaxUniqueGrams \<le> length terms then terms
      else if gramTerm g \<in> set terms then collectGrams terms gs
      else collectGrams (terms @ [gramTerm g]) gs)"

definition gramTerms :: "bytes \<Rightarrow> string list" where
  "gramTerms data = (if length data < GramSize then [] else sortBy (<) (collectGrams [] (windows GramSize data)))"

definition BuildFileFields :: "(bytes \<Rightarrow> bytes) \<Rightarrow> bytes \<Rightarrow> string \<times> string" where
  "BuildFileFields lower data =
     (if grepBinaryPrefix data then (''binary'', [])
      else if length data > MaxIndexedBytes then (''large'', [])
      else (''ready'', joinStr '' '' (gramTerms (lower data))))"

definition QueryTermsForLiteral :: "(bytes \<Rightarrow> bytes) \<Rightarrow> bytes \<Rightarrow> string list" where
  "QueryTermsForLiteral lower literal = (if length literal < GramSize then [] else gramTerms (lower literal))"

subsection \<open>The files that the index names\<close>

record grep_target =
  gt_path :: string
  gt_inodeID :: string
  gt_inodeKey :: string
  gt_content :: "bytes option"

text \<open>A document of the index and its answers: a page of documents, a count.\<close>

record index_doc =
  ix_id :: string
  ix_path :: string

record index_env =
  ie_ensure :: "string + bool"
  ie_search :: "string \<Rightarrow> nat \<Rightarrow> nat \<Rightarrow> string + index_doc list"
  ie_count :: "string \<Rightarrow> string + nat"
  ie_escapeTag :: "string \<Rightarrow> string"
  ie_fsKey :: string

definition inodePrefix :: "index_env \<Rightarrow> string" where
  "inodePrefix ix = ''afs:{'' @ ie_fsKey ix @ ''}:inode:''"

definition pathAncestorsQuery :: "index_env \<Rightarrow> string \<Rightarrow> string" where
  "pathAncestorsQuery ix searchPath = (if searchPath = ''/'' then [] else ''@path_ancestors:{'' @ ie_escapeTag ix searchPath @ ''}'')"

definition scopeParts :: "string \<Rightarrow> string list" where
  "scopeParts scope = (if scope = [] then [] else [scope])"

definition nonReadyQuery :: "string \<Rightarrow> string" where
  "nonReadyQuery scope = joinStr '' '' ([''@type:{file}'', ''@search_state:{binary|large}''] @ scopeParts scope)"

definition literalQuery :: "string \<Rightarrow> string list \<Rightarrow> string" where
  "literalQuery scope terms =
     joinStr '' '' ([''@type:{file}'', ''@search_state:{ready}''] @ scopeParts scope @ map (\<lambda>t. ''@grep_grams_ci:'' @ t) terms)"

definition nonReadyFileCount :: "index_env \<Rightarrow> string \<Rightarrow> nat" where
  "nonReadyFileCount ix scope = (case ie_count ix (nonReadyQuery scope) of Inl _ \<Rightarrow> 1 | Inr n \<Rightarrow> n)"

definition targetOf :: "index_env \<Rightarrow> index_doc \<Rightarrow> grep_target" where
  "targetOf ix d = \<lparr>gt_path = ix_path d, gt_inodeID = trimPrefix (ix_id d) (inodePrefix ix), gt_inodeKey = ix_id d, gt_content = None\<rparr>"

text \<open>The pages of 512 documents; the fuel is the number of pages.\<close>

fun searchPages :: "nat \<Rightarrow> index_env \<Rightarrow> string \<Rightarrow> nat \<Rightarrow> grep_target list \<Rightarrow> grep_target list option" where
  "searchPages 0 ix query offset targets = None"
| "searchPages (Suc n) ix query offset targets =
     (case ie_search ix query offset 512 of
        Inl _ \<Rightarrow> None
      | Inr docs \<Rightarrow>
          let found = targets @ map (targetOf ix) (filter (\<lambda>d. ix_path d \<noteq> []) docs) in
          if length docs < 512 then Some found else searchPages n ix query (offset + 512) found)"

definition collectIndexedLiteralTargets :: "nat \<Rightarrow> grep_env \<Rightarrow> index_env \<Rightarrow> string \<Rightarrow> string \<Rightarrow> grep_target list option" where
  "collectIndexedLiteralTargets pages env ix searchPath literal =
     (let terms = QueryTermsForLiteral (ge_lower env) literal; scope = pathAncestorsQuery ix searchPath in
      if terms = [] then None
      else if ie_ensure ix \<noteq> Inr True then None
      else if nonReadyFileCount ix scope \<noteq> 0 then None
      else searchPages pages ix (literalQuery scope terms) 0 [])"

subsection \<open>Runs\<close>

text \<open>What is printed, and the error that ends the run.\<close>

type_synonym grep_run = "string list \<times> string option"

fun grepTargetsLoop :: "grep_env \<Rightarrow> (string \<Rightarrow> string + bytes) \<Rightarrow> grep_options \<Rightarrow> grep_matcher \<Rightarrow> grep_target list \<Rightarrow> grep_run" where
  "grepTargetsLoop env cat o1 mt [] = ([], None)"
| "grepTargetsLoop env cat o1 mt (t # ts) =
     (case (case gt_content t of Some c \<Rightarrow> Inr c | None \<Rightarrow> cat (gt_path t)) of
        Inl e \<Rightarrow> ([], Some e)
      | Inr content \<Rightarrow>
          let (out, err) = grepTargetsLoop env cat o1 mt ts in (grepProcessFile env (gt_path t) content o1 mt @ out, err))"

definition byPath :: "grep_target \<Rightarrow> grep_target \<Rightarrow> bool" where
  "byPath a b \<longleftrightarrow> gt_path a < gt_path b"

definition runGrepTargets :: "grep_env \<Rightarrow> (string \<Rightarrow> string + bytes) \<Rightarrow> grep_target list \<Rightarrow> grep_options \<Rightarrow> grep_matcher \<Rightarrow> grep_run" where
  "runGrepTargets env cat targets o1 mt = grepTargetsLoop env cat o1 mt (sortBy byPath targets)"

text \<open>The content of a batch, from the hashes and content keys of its inodes.\<close>

definition loadTarget :: "bool \<Rightarrow> (string \<Rightarrow> range_file option) \<Rightarrow> grep_target \<Rightarrow> string + bytes" where
  "loadTarget supported store t =
     (case store (gt_inodeKey t) of
        None \<Rightarrow> Inr []
      | Some f \<Rightarrow>
          if rf_ref f = [] then Inr (rf_inline f)
          else if gt_inodeID t = [] then Inl ''missing indexed inode id''
          else loadContentRef supported (rf_ref f) (rf_live f) (rf_size f))"

text \<open>A failure leaves the targets before it with their content.\<close>

fun loadContents :: "bool \<Rightarrow> (string \<Rightarrow> range_file option) \<Rightarrow> grep_target list \<Rightarrow> grep_target list \<times> string option" where
  "loadContents supported store [] = ([], None)"
| "loadContents supported store (t # ts) =
     (case loadTarget supported store t of
        Inl e \<Rightarrow> (t # ts, Some e)
      | Inr c \<Rightarrow> let (ts2, err) = loadContents supported store ts in (t\<lparr>gt_content := Some c\<rparr> # ts2, err))"

definition loadIndexedTargetContentBatch :: "bool \<Rightarrow> (string \<Rightarrow> range_file option) \<Rightarrow> grep_target list \<Rightarrow> grep_target list \<times> string option" where
  "loadIndexedTargetContentBatch supported store ts =
     (if \<exists>t \<in> set ts. gt_inodeKey t = [] then (ts, Some ''missing indexed inode key'') else loadContents supported store ts)"

definition loadedContent :: "grep_target \<Rightarrow> bytes" where
  "loadedContent t = (case gt_content t of None \<Rightarrow> [] | Some c \<Rightarrow> c)"

definition grepIndexedContentBatchSize :: nat where
  "grepIndexedContentBatchSize = 256"

function indexedBatches :: "grep_env \<Rightarrow> (grep_target list \<Rightarrow> grep_target list \<times> string option) \<Rightarrow> (string \<Rightarrow> string + bytes) \<Rightarrow> grep_options \<Rightarrow> grep_matcher
    \<Rightarrow> grep_target list \<Rightarrow> grep_run" where
  "indexedBatches env load cat o1 mt targets =
     (if targets = [] then ([], None)
      else let batch = take grepIndexedContentBatchSize targets; later = drop grepIndexedContentBatchSize targets in
        case load batch of
          (loaded, Some _) \<Rightarrow> runGrepTargets env cat loaded o1 mt
        | (loaded, None) \<Rightarrow>
            let (out, err) = indexedBatches env load cat o1 mt later
            in (concat (map (\<lambda>t. grepProcessFile env (gt_path t) (loadedContent t) o1 mt) loaded) @ out, err))"
  by pat_completeness auto
termination
  by (relation "measure (\<lambda>(env, load, cat, o1, mt, targets). length targets)")
    (auto simp: grepIndexedContentBatchSize_def diff_less)

declare indexedBatches.simps [simp del]

definition runIndexedGrepTargets :: "grep_env \<Rightarrow> (grep_target list \<Rightarrow> grep_target list \<times> string option) \<Rightarrow> (string \<Rightarrow> string + bytes) \<Rightarrow> grep_target list
    \<Rightarrow> grep_options \<Rightarrow> grep_matcher \<Rightarrow> grep_run" where
  "runIndexedGrepTargets env load cat targets o1 mt = indexedBatches env load cat o1 mt (sortBy byPath targets)"

text \<open>What the command prints for the matches of the client.\<close>

definition printMatch :: "grep_match \<Rightarrow> string" where
  "printMatch g =
     (if gm_line_num g = 0 then gm_path g @ '':'' @ gm_line g
      else gm_path g @ '':'' @ natDigits (gm_line_num g) @ '':'' @ gm_line g)"

text \<open>\<open>redis.Nil\<close> stands for a path that is not there.\<close>

definition redisNil :: string where
  "redisNil = ''redis: nil''"

definition pathError :: "string \<Rightarrow> string" where
  "pathError e = (if e = redisNil then ''path does not exist in workspace'' else e)"

text \<open>
  What the command asks the client: \<open>Stat\<close>, the entries of \<open>Tree\<close> (path and type), \<open>Cat\<close>, and \<open>Grep\<close> with path,
  pattern and case flag.
\<close>

record grep_client =
  gc_stat :: "string \<Rightarrow> string option"
  gc_tree :: "string \<Rightarrow> string + (string \<times> string) list"
  gc_cat :: "string \<Rightarrow> string + bytes"
  gc_grep :: "string \<Rightarrow> string \<Rightarrow> bool \<Rightarrow> string + grep_match list"

text \<open>The fast path: the files of the index, or else the search of the client.\<close>

definition runFastGrep :: "nat \<Rightarrow> grep_env \<Rightarrow> index_env \<Rightarrow> (grep_target list \<Rightarrow> grep_target list \<times> string option) \<Rightarrow> grep_client
    \<Rightarrow> string \<Rightarrow> grep_options \<Rightarrow> grep_run" where
  "runFastGrep pages env ix load fs searchPath o1 =
     (case gc_stat fs searchPath of
        Some e \<Rightarrow> ([], Some (pathError e))
      | None \<Rightarrow>
          let pattern = hd (go_patterns o1) in
          case (if go_glob o1 then None else collectIndexedLiteralTargets pages env ix searchPath pattern) of
            Some targets \<Rightarrow>
              (case compileGrepMatcher env o1 of
                 Inl e \<Rightarrow> ([], Some e)
               | Inr mt \<Rightarrow> runIndexedGrepTargets env load (gc_cat fs) targets o1 mt)
          | None \<Rightarrow>
              (case gc_grep fs searchPath (if go_glob o1 then pattern else literalGlobPattern pattern) (go_ignoreCase o1) of
                 Inl e \<Rightarrow> ([], Some (pathError e))
               | Inr matches \<Rightarrow> (map printMatch matches, None)))"

definition collectGrepTargets :: "grep_client \<Rightarrow> string \<Rightarrow> string + grep_target list" where
  "collectGrepTargets fs searchPath =
     (case gc_tree fs searchPath of
        Inr tree \<Rightarrow> Inr (map (\<lambda>(p, _). \<lparr>gt_path = p, gt_inodeID = [], gt_inodeKey = [], gt_content = None\<rparr>) (filter (\<lambda>(p, t). t = ''file'') tree))
      | Inl _ \<Rightarrow>
          (case gc_cat fs searchPath of
             Inr content \<Rightarrow> Inr [\<lparr>gt_path = searchPath, gt_inodeID = [], gt_inodeKey = [], gt_content = Some content\<rparr>]
           | Inl e \<Rightarrow> Inl e))"

definition runAdvancedGrep :: "grep_env \<Rightarrow> grep_client \<Rightarrow> string \<Rightarrow> grep_options \<Rightarrow> grep_matcher \<Rightarrow> grep_run" where
  "runAdvancedGrep env fs searchPath o1 mt =
     (case collectGrepTargets fs searchPath of
        Inl e \<Rightarrow> ([], Some (pathError e))
      | Inr targets \<Rightarrow> runGrepTargets env (gc_cat fs) targets o1 mt)"

text \<open>The command after the workspace was opened.\<close>

definition cmdGrep :: "nat \<Rightarrow> grep_env \<Rightarrow> index_env \<Rightarrow> (grep_target list \<Rightarrow> grep_target list \<times> string option) \<Rightarrow> grep_client
    \<Rightarrow> string list \<Rightarrow> grep_run" where
  "cmdGrep pages env ix load fs args =
     (case parseGrepArgs args of
        Inl e \<Rightarrow> ([], Some e)
      | Inr o1 \<Rightarrow>
          let searchPath = normalizeAFSGrepPath (go_path o1) in
          if useFastGrepBackend o1 then runFastGrep pages env ix load fs searchPath o1
          else case compileGrepMatcher env o1 of
                 Inl e \<Rightarrow> ([], Some e)
               | Inr mt \<Rightarrow> runAdvancedGrep env fs searchPath o1 mt)"

subsection \<open>ASCII case folding\<close>

definition asciiLower :: "char \<Rightarrow> char" where
  "asciiLower c = (let n = of_char c :: nat in if 65 \<le> n \<and> n \<le> 90 then char_of (n + 32) else c)"

definition asciiOnly :: "string \<Rightarrow> bool" where
  "asciiOnly s \<longleftrightarrow> (\<forall>c \<in> set s. of_char c < (128 :: nat))"

text \<open>\<open>strings.ToLower\<close> and \<open>bytes.ToLower\<close> map the bytes of an ASCII text one by one.\<close>

definition lowersAscii :: "(string \<Rightarrow> string) \<Rightarrow> bool" where
  "lowersAscii lower \<longleftrightarrow> (\<forall>s. asciiOnly s \<longrightarrow> lower s = map asciiLower s)"

lemma asciiLower_special:
  "c \<in> {CHR 0x5C, CHR ''*'', CHR ''?'', CHR ''['', CHR '']''} \<Longrightarrow> asciiLower c = c"
  "asciiLower c \<in> {CHR 0x5C, CHR ''*'', CHR ''?'', CHR ''['', CHR '']''} \<longleftrightarrow> c \<in> {CHR 0x5C, CHR ''*'', CHR ''?'', CHR ''['', CHR '']''}"
proof -
  show fixed: "asciiLower c = c" if "c \<in> {CHR 0x5C, CHR ''*'', CHR ''?'', CHR ''['', CHR '']''}"
    using that by (auto simp: asciiLower_def)
  show "asciiLower c \<in> {CHR 0x5C, CHR ''*'', CHR ''?'', CHR ''['', CHR '']''} \<longleftrightarrow> c \<in> {CHR 0x5C, CHR ''*'', CHR ''?'', CHR ''['', CHR '']''}"
  proof (cases "65 \<le> (of_char c :: nat) \<and> (of_char c :: nat) \<le> 90")
    case True
    then have "asciiLower c = char_of (of_char c + 32 :: nat)" by (simp add: asciiLower_def)
    then have n: "(of_char (asciiLower c) :: nat) = of_char c + 32" using True by (simp add: of_char_of)
    have "asciiLower c \<notin> {CHR 0x5C, CHR ''*'', CHR ''?'', CHR ''['', CHR '']''}" using n True by auto
    moreover have "c \<notin> {CHR 0x5C, CHR ''*'', CHR ''?'', CHR ''['', CHR '']''}" using True by auto
    ultimately show ?thesis by simp
  qed (auto simp: asciiLower_def)
qed

lemma asciiOnly_append [simp]: "asciiOnly (s @ t) \<longleftrightarrow> asciiOnly s \<and> asciiOnly t"
  by (auto simp: asciiOnly_def)

lemma asciiOnly_substring: "substring x s \<Longrightarrow> asciiOnly s \<Longrightarrow> asciiOnly x"
  by (auto simp: substring_def)

lemma lower_pattern:
  assumes "lowersAscii lower" and "asciiOnly pat"
  shows "lower (literalGlobPattern pat) = literalGlobPattern (lower pat)"
proof -
  have "asciiOnly (escapeGlobLiteral pat)" using assms(2) by (auto simp: asciiOnly_def escapeGlobLiteral_def split: if_splits)
  then have "asciiOnly (literalGlobPattern pat)" by (simp add: literalGlobPattern_def asciiOnly_def)
  moreover have "map asciiLower (escapeGlobLiteral pat) = escapeGlobLiteral (map asciiLower pat)"
    using asciiLower_special by (induction pat) (auto simp: escapeGlobLiteral_def)
  ultimately show ?thesis
    using assms asciiLower_special(1) by (simp add: lowersAscii_def literalGlobPattern_def)
qed

subsection \<open>One file, searched twice\<close>

lemma grepLines_plain:
  assumes "useFastGrepBackend o1"
  shows "grepLines env path o1 mt i m lines
     = (map (\<lambda>(j, l). if go_showLineNumbers o1 then path @ '':'' @ natDigits (j + 1) @ '':'' @ l else path @ '':'' @ l)
          (filter (\<lambda>(j, l). matchText env mt l) (enumerate i lines)),
        m + length (filter (matchText env mt) lines))"
proof (induction lines arbitrary: i m)
  case (Cons l lines)
  with assms show ?case by (simp add: useFastGrepBackend_def split: prod.split)
qed simp

lemma fast_matcher:
  assumes "useFastGrepBackend o1" and "\<not> go_glob o1" and "go_patterns o1 = [pat]" and "compileGrepMatcher env o1 = Inr mt"
  shows "matchText env mt t \<longleftrightarrow>
     (if go_ignoreCase o1 then substring (ge_lower env pat) (ge_lower env t) else substring pat t)"
proof -
  have "mt = withPatterns env o1 (newMatcher grepModeLiteral o1)"
    using assms by (simp add: compileGrepMatcher_def useFastGrepBackend_def)
  with assms(3) show ?thesis
    by (simp add: matchText_def withPatterns_def newMatcher_def containsStr_iff)
qed

text \<open>
  The two ways to search one file print the same.  For the options of the fast path, the lines printed from
  the matches of the client, which searches with the escaped literal as a glob, are the lines that the command
  prints when it searches the content itself, in text and binary files, with and without regard to case.
\<close>

theorem fast_search_prints_the_same:
  assumes "useFastGrepBackend o1" and "\<not> go_glob o1" and "go_showLineNumbers o1" and "go_patterns o1 = [pat]"
    and "compileGrepMatcher env o1 = Inr mt" and "lowersAscii (ge_lower env)" and "asciiOnly pat"
  shows "map printMatch (grepFile (ge_lower env) path content (literalGlobPattern pat) (go_ignoreCase o1))
     = grepProcessFile env path content o1 mt"
proof -
  note match = fast_matcher [OF assms(1,2,4,5)]
  have glob: "globMatch (if go_ignoreCase o1 then ge_lower env (literalGlobPattern pat) else literalGlobPattern pat)
      (if go_ignoreCase o1 then ge_lower env t else t) = matchText env mt t" for t
    by (simp add: match globMatch_iff literal_globs lower_pattern [OF assms(6,7)])
  have text_lines: "map printMatch (map (\<lambda>(i, line). \<lparr>gm_path = path, gm_line_num = Suc i, gm_line = line\<rparr>) xs)
      = map (\<lambda>(j, l). path @ CHR '':'' # natDigits (Suc j) @ CHR '':'' # l) xs" for xs
    by (simp add: printMatch_def split_def)
  show ?thesis
    using assms(1,3)
    by (simp add: grepFile_def Let_def glob text_lines grepProcessFile_def grepProcessBinaryFile_def grepBinaryPrefix_def
        grepLines_plain [OF assms(1)] useFastGrepBackend_def printMatch_def del: map_map)
qed

subsection \<open>Grams\<close>

lemma windows_set: "0 < w \<Longrightarrow> g \<in> set (windows w d) \<longleftrightarrow> length g = w \<and> substring g d"
proof
  assume w: "0 < w" and "g \<in> set (windows w d)"
  then obtain i where i: "i < length d + 1 - w" "g = take w (drop i d)" by (auto simp: windows_def)
  then have "d = take i d @ g @ drop w (drop i d)" by (simp only: append_take_drop_id)
  then have "substring g d" unfolding substring_def by blast
  then show "length g = w \<and> substring g d" using i w by simp
next
  assume w: "0 < w" and "length g = w \<and> substring g d"
  then obtain a b where "d = a @ g @ b" "length g = w" by (auto simp: substring_def)
  then have "length a < length d + 1 - w" "take w (drop (length a) d) = g" by auto
  then show "g \<in> set (windows w d)" unfolding windows_def by (auto simp: image_iff intro: bexI [of _ "length a"])
qed

lemma collectGrams_subset: "set (collectGrams terms gs) \<subseteq> set terms \<union> gramTerm ` set gs"
  by (induction terms gs rule: collectGrams.induct) auto

lemma collectGrams_all:
  "distinct terms \<Longrightarrow> card (set terms \<union> gramTerm ` set gs) \<le> MaxUniqueGrams
     \<Longrightarrow> set (collectGrams terms gs) = set terms \<union> gramTerm ` set gs"
proof (induction terms gs rule: collectGrams.induct)
  case (2 terms g gs)
  let ?all = "set terms \<union> gramTerm ` set (g # gs)"
  have fin: "finite ?all" by simp
  show ?case
  proof (cases "gramTerm g \<in> set terms")
    case True
    show ?thesis
    proof (cases "MaxUniqueGrams \<le> length terms")
      case full: True
      have "card (set terms) = length terms" using 2(3) by (rule distinct_card)
      then have "set terms = ?all" using full 2(4) by (intro card_seteq [OF fin]) auto
      with full show ?thesis by simp
    next
      case False
      with 2 True show ?thesis by (simp add: insert_absorb)
    qed
  next
    case new: False
    have "card (insert (gramTerm g) (set terms)) \<le> card ?all" by (rule card_mono [OF fin]) auto
    then have "\<not> MaxUniqueGrams \<le> length terms" using new 2(3,4) by (simp add: distinct_card)
    with 2 new show ?thesis by simp
  qed
qed simp

lemma gramTerms_set: "set (gramTerms d) \<subseteq> gramTerm ` set (windows GramSize d)"
  using collectGrams_subset [of "[]"] by (auto simp: gramTerms_def)

lemma gramTerms_all:
  assumes "card (gramTerm ` set (windows GramSize d)) \<le> MaxUniqueGrams"
  shows "set (gramTerms d) = gramTerm ` set (windows GramSize d)"
proof (cases "length d < GramSize")
  case True
  then show ?thesis by (simp add: gramTerms_def windows_def)
next
  case False
  then show ?thesis using collectGrams_all [of "[]"] assms by (simp add: gramTerms_def)
qed

text \<open>A file with more distinct grams than the limit is marked ready all the same, and some of its text cannot be found.\<close>

lemma truncated_grams_miss:
  assumes "MaxUniqueGrams < card (gramTerm ` set (windows GramSize d))"
  shows "\<exists>g. length g = GramSize \<and> substring g d \<and> gramTerm g \<notin> set (gramTerms d)"
proof -
  have limit: "length terms \<le> MaxUniqueGrams \<Longrightarrow> length (collectGrams terms gs) \<le> MaxUniqueGrams" for terms gs
    by (induction terms gs rule: collectGrams.induct) auto
  have "length (gramTerms d) \<le> MaxUniqueGrams"
    using limit [of "[]"] by (simp add: gramTerms_def mset_eq_length [OF mset_sortBy])
  then have "card (set (gramTerms d)) \<le> MaxUniqueGrams" using card_length le_trans by blast
  with assms have "\<not> gramTerm ` set (windows GramSize d) \<subseteq> set (gramTerms d)"
    using card_mono [of "set (gramTerms d)" "gramTerm ` set (windows GramSize d)"] by auto
  then show ?thesis using windows_set [of GramSize] by (auto simp: GramSize_def)
qed

text \<open>The terms of a literal in a text are terms of the text.\<close>

lemma literal_terms:
  assumes "substring x d" and "card (gramTerm ` set (windows GramSize d)) \<le> MaxUniqueGrams"
  shows "set (gramTerms x) \<subseteq> set (gramTerms d)"
proof -
  have "set (windows GramSize x) \<subseteq> set (windows GramSize d)"
    using windows_set [of GramSize] substring_trans [OF _ assms(1)] by (auto simp: GramSize_def)
  then show ?thesis using gramTerms_set [of x] gramTerms_all [OF assms(2)] by blast
qed

lemma gramTerm_no_space: "t \<in> set (gramTerms d) \<Longrightarrow> CHR '' '' \<notin> set t \<and> t \<noteq> []"
proof -
  have hex: "hexDigit n \<noteq> CHR '' ''" if "n < 16" for n
  proof -
    have "(of_char (hexDigit n) :: nat) = (if n < 10 then 48 + n else 87 + n)" using that by (simp add: hexDigit_def of_char_of)
    then have "(of_char (hexDigit n) :: nat) \<noteq> of_char CHR '' ''" using that by (auto split: if_splits)
    then show ?thesis by metis
  qed
  assume "t \<in> set (gramTerms d)"
  then obtain g where "t = gramTerm g" using gramTerms_set [of d] by blast
  moreover have "CHR '' '' \<notin> set (hexEncode g)"
  proof
    assume "CHR '' '' \<in> set (hexEncode g)"
    then obtain c where "CHR '' '' = hexDigit (of_char c div 16) \<or> CHR '' '' = hexDigit (of_char c mod 16)"
      by (auto simp: hexEncode_def)
    moreover have "(of_char c :: nat) < 256" by (rule nat_of_char_less_256)
    then have "(of_char c :: nat) div 16 < 16" by (intro less_mult_imp_div_less) simp
    moreover have "(of_char c :: nat) mod 16 < 16" by simp
    ultimately show False using hex by metis
  qed
  ultimately show ?thesis by (simp add: gramTerm_def)
qed

lemma indexed_terms: "set (splitByte CHR '' '' (joinStr '' '' (gramTerms d))) - {[]} = set (gramTerms d)"
proof (cases "gramTerms d = []")
  case False
  then have "splitByte CHR '' '' (joinStr '' '' (gramTerms d)) = gramTerms d"
    using gramTerm_no_space [of _ d] by (intro splitByte_joinStr) auto
  then show ?thesis using gramTerm_no_space [of _ d] by auto
qed simp

subsection \<open>The index loses no match\<close>

text \<open>
  The files in the scope of a search: path, inode and content.  \<open>indexServes\<close> says that the index knows exactly these files,
  with the fields of their content, and answers queries and counts as documented, page by page.
\<close>

record scope_file =
  sf_path :: string
  sf_inode :: string
  sf_file :: range_file

definition docOf :: "index_env \<Rightarrow> scope_file \<Rightarrow> index_doc" where
  "docOf ix s = \<lparr>ix_id = inodePrefix ix @ sf_inode s, ix_path = sf_path s\<rparr>"

definition hasTerms :: "(bytes \<Rightarrow> bytes) \<Rightarrow> string list \<Rightarrow> scope_file \<Rightarrow> bool" where
  "hasTerms lower terms s \<longleftrightarrow>
     fst (BuildFileFields lower (bytesOf (sf_file s))) = ''ready''
     \<and> set terms \<subseteq> set (splitByte CHR '' '' (snd (BuildFileFields lower (bytesOf (sf_file s)))))"

definition indexServes :: "index_env \<Rightarrow> (bytes \<Rightarrow> bytes) \<Rightarrow> string \<Rightarrow> string list \<Rightarrow> scope_file list \<Rightarrow> bool" where
  "indexServes ix lower searchPath terms files \<longleftrightarrow>
     ie_ensure ix = Inr True
     \<and> (\<forall>off. ie_search ix (literalQuery (pathAncestorsQuery ix searchPath) terms) off 512
          = Inr (take 512 (drop off (map (docOf ix) (filter (hasTerms lower terms) files)))))
     \<and> ie_count ix (nonReadyQuery (pathAncestorsQuery ix searchPath))
          = Inr (length (filter (\<lambda>s. fst (BuildFileFields lower (bytesOf (sf_file s))) \<in> {''binary'', ''large''}) files))"

definition targetFor :: "index_env \<Rightarrow> scope_file \<Rightarrow> grep_target" where
  "targetFor ix s = \<lparr>gt_path = sf_path s, gt_inodeID = sf_inode s, gt_inodeKey = inodePrefix ix @ sf_inode s, gt_content = None\<rparr>"

lemma targetOf_docOf: "targetOf ix (docOf ix s) = targetFor ix s"
  by (simp add: targetOf_def docOf_def targetFor_def trimPrefix_def hasPrefix_def)

lemma searchPages_all:
  assumes serves: "\<And>off. ie_search ix query off 512 = Inr (take 512 (drop off docs))" and "\<forall>d \<in> set docs. ix_path d \<noteq> []"
  shows "off \<le> length docs \<Longrightarrow> length docs < off + 512 * n
     \<Longrightarrow> searchPages n ix query off ts = Some (ts @ map (targetOf ix) (drop off docs))"
proof (induction n arbitrary: off ts)
  case (Suc n)
  have paths: "filter (\<lambda>d. ix_path d \<noteq> []) (take 512 (drop off docs)) = take 512 (drop off docs)"
    using assms(2) by (intro filter_True) (auto dest: in_set_takeD in_set_dropD)
  show ?case
  proof (cases "length docs < off + 512")
    case True
    then have "take 512 (drop off docs) = drop off docs" by simp
    with True paths Suc.prems(1) show ?thesis by (simp add: serves Let_def) linarith
  next
    case False
    then have "searchPages n ix query (off + 512) (ts @ map (targetOf ix) (take 512 (drop off docs)))
        = Some ((ts @ map (targetOf ix) (take 512 (drop off docs))) @ map (targetOf ix) (drop (off + 512) docs))"
      using Suc.prems by (intro Suc.IH) simp_all
    also have "\<dots> = Some (ts @ map (targetOf ix) (drop off docs))"
      by (simp add: add.commute flip: map_append) (metis append_take_drop_id drop_drop add.commute)
    finally show ?thesis using False paths by (simp add: serves Let_def)
  qed
qed simp

text \<open>Sorting by path commutes with a choice of files.\<close>

abbreviation earlierPath :: "scope_file \<Rightarrow> scope_file \<Rightarrow> bool" where
  "earlierPath a b \<equiv> sf_path a < sf_path b"

lemma sortBy_map:
  assumes "\<And>a b. lt (f a) (f b) = lt' a b"
  shows "sortBy lt (map f xs) = map f (sortBy lt' xs)"
proof -
  have ins: "insertBy lt (f x) (map f ys) = map f (insertBy lt' x ys)" for x ys
    using assms by (induction ys) auto
  show ?thesis by (induction xs) (simp_all add: sortBy_def ins)
qed

lemma sorted_files: "sorted_wrt (\<lambda>a b. \<not> earlierPath b a) (sortBy earlierPath xs)"
  by (rule sorted_sortBy) auto

lemma filter_insertBy:
  "sorted_wrt (\<lambda>a b. \<not> earlierPath b a) ys
     \<Longrightarrow> filter P (insertBy earlierPath x ys) = (if P x then insertBy earlierPath x (filter P ys) else filter P ys)"
proof (induction ys)
  case (Cons y ys)
  have first: "insertBy earlierPath x zs = x # zs" if "\<forall>z \<in> set zs. \<not> earlierPath z x" for zs
    using that by (cases zs) auto
  show ?case
  proof (cases "earlierPath y x")
    case False
    with Cons.prems have "\<forall>z \<in> set ys. \<not> earlierPath z x" by auto
    with False first [of "filter P ys"] first [of "filter P (y # ys)"] show ?thesis by auto
  qed (use Cons in auto)
qed simp

lemma filter_sortBy: "filter P (sortBy earlierPath xs) = sortBy earlierPath (filter P xs)"
  using sorted_files filter_insertBy by (induction xs) (simp_all add: sortBy_def)

lemma runGrepTargets_files:
  assumes "\<forall>s \<in> set files. cat (sf_path s) = Inr (bytesOf (sf_file s))"
  shows "runGrepTargets env cat (map (targetFor ix) files) o1 mt
     = (concat (map (\<lambda>s. grepProcessFile env (sf_path s) (bytesOf (sf_file s)) o1 mt) (sortBy earlierPath files)), None)"
proof -
  have sorted: "sortBy byPath (map (targetFor ix) files) = map (targetFor ix) (sortBy earlierPath files)"
    by (rule sortBy_map) (simp add: byPath_def targetFor_def)
  have loop: "\<forall>s \<in> set xs. cat (sf_path s) = Inr (bytesOf (sf_file s)) \<Longrightarrow> grepTargetsLoop env cat o1 mt (map (targetFor ix) xs)
      = (concat (map (\<lambda>s. grepProcessFile env (sf_path s) (bytesOf (sf_file s)) o1 mt) xs), None)" for xs
    by (induction xs) (simp_all add: targetFor_def)
  show ?thesis unfolding runGrepTargets_def sorted by (rule loop) (use assms in simp)
qed

definition served :: "bool \<Rightarrow> (string \<Rightarrow> range_file option) \<Rightarrow> index_env \<Rightarrow> scope_file \<Rightarrow> bool" where
  "served supported store ix s \<longleftrightarrow>
     fileOk (sf_file s) \<and> (supported \<or> rf_ref (sf_file s) \<noteq> RefArray) \<and> sf_path s \<noteq> [] \<and> sf_inode s \<noteq> []
     \<and> store (inodePrefix ix @ sf_inode s) = Some (sf_file s)"

lemma loadTarget_served:
  assumes "served supported store ix s"
  shows "loadTarget supported store (targetFor ix s) = Inr (bytesOf (sf_file s))"
proof -
  have "rf_ref (sf_file s) = [] \<or> loadContentRef supported (rf_ref (sf_file s)) (rf_live (sf_file s)) (rf_size (sf_file s))
      = Inr (bytesOf (sf_file s))"
    using assms
    by (auto simp: served_def fileOk_def loadContentRef_def bytesOf_def getString_def getArray_def loadArray_ok split: if_splits)
  then show ?thesis using assms by (auto simp: loadTarget_def served_def targetFor_def bytesOf_def)
qed

lemma indexedBatches_served:
  "\<forall>s \<in> set xs. served supported store ix s
     \<Longrightarrow> indexedBatches env (loadIndexedTargetContentBatch supported store) cat o1 mt (map (targetFor ix) xs)
       = (concat (map (\<lambda>s. grepProcessFile env (sf_path s) (bytesOf (sf_file s)) o1 mt) xs), None)"
proof (induction "length xs" arbitrary: xs rule: less_induct)
  case less
  let ?n = grepIndexedContentBatchSize
  let ?loaded = "\<lambda>s. (targetFor ix s)\<lparr>gt_content := Some (bytesOf (sf_file s))\<rparr>"
  have contents: "\<forall>s \<in> set ys. served supported store ix s
      \<Longrightarrow> loadContents supported store (map (targetFor ix) ys) = (map ?loaded ys, None)" for ys
    by (induction ys) (simp_all add: loadTarget_served)
  have load: "\<forall>s \<in> set ys. served supported store ix s
      \<Longrightarrow> loadIndexedTargetContentBatch supported store (map (targetFor ix) ys) = (map ?loaded ys, None)" for ys
    by (simp add: loadIndexedTargetContentBatch_def contents) (simp add: targetFor_def inodePrefix_def)
  show ?case
  proof (cases "xs = []")
    case True
    then show ?thesis by (simp add: indexedBatches.simps)
  next
    case False
    have batch: "loadIndexedTargetContentBatch supported store (map (targetFor ix) (take ?n xs)) = (map ?loaded (take ?n xs), None)"
      using less.prems by (intro load) (auto dest: in_set_takeD)
    have later: "indexedBatches env (loadIndexedTargetContentBatch supported store) cat o1 mt (map (targetFor ix) (drop ?n xs))
        = (concat (map (\<lambda>s. grepProcessFile env (sf_path s) (bytesOf (sf_file s)) o1 mt) (drop ?n xs)), None)"
      using False less.prems by (intro less.hyps) (auto simp: grepIndexedContentBatchSize_def dest: in_set_dropD)
    have "(\<lambda>t. grepProcessFile env (gt_path t) (loadedContent t) o1 mt) \<circ> ?loaded
        = (\<lambda>s. grepProcessFile env (sf_path s) (bytesOf (sf_file s)) o1 mt)"
      by (simp add: targetFor_def loadedContent_def comp_def)
    then show ?thesis
      using False batch later
      by (subst indexedBatches.simps) (simp add: take_map drop_map flip: concat_append map_append)
  qed
qed

text \<open>A file of the scope without the terms prints nothing.\<close>

lemma without_terms_prints_nothing:
  assumes fast: "useFastGrepBackend o1" "\<not> go_glob o1" "go_patterns o1 = [pat]" "compileGrepMatcher env o1 = Inr mt"
    and ascii: "lowersAscii (ge_lower env)" "asciiOnly pat" "asciiOnly content"
    and grams: "card (gramTerm ` set (windows GramSize (ge_lower env content))) \<le> MaxUniqueGrams"
    and ready: "\<not> grepBinaryPrefix content"
    and missing: "\<not> set (gramTerms (ge_lower env pat)) \<subseteq> set (gramTerms (ge_lower env content))"
  shows "grepProcessFile env path content o1 mt = []"
proof -
  have "\<not> matchText env mt l" if l: "l \<in> set (splitByte CHR 0x0A content)" for l
  proof
    assume m: "matchText env mt l"
    have sub: "substring l content" by (rule line_in_text [OF l])
    have lower: "ge_lower env s = map asciiLower s" if "asciiOnly s" for s using ascii(1) that by (simp add: lowersAscii_def)
    have mono: "substring (map asciiLower x) (map asciiLower y)" if "substring x y" for x y
    proof -
      from that obtain a b where "map asciiLower y = map asciiLower a @ map asciiLower x @ map asciiLower b"
        by (auto simp: substring_def)
      then show ?thesis unfolding substring_def by blast
    qed
    have "substring (map asciiLower pat) (map asciiLower l)"
      using m mono lower asciiOnly_substring [OF sub ascii(3)] ascii(2) by (auto simp: fast_matcher [OF fast] split: if_splits)
    then have "substring (ge_lower env pat) (ge_lower env content)"
      using mono [OF sub] substring_trans lower ascii(2,3) by simp
    with literal_terms [OF _ grams] missing show False by blast
  qed
  then have "filter (\<lambda>(j, l). matchText env mt l) (enumerate 0 (splitByte CHR 0x0A content)) = []"
    by (auto simp: filter_empty_conv in_set_enumerate_eq)
  with ready fast(1) show ?thesis
    by (simp add: grepProcessFile_def grepLines_plain [OF fast(1)] useFastGrepBackend_def)
qed

lemma literal_has_terms: "GramSize \<le> length d \<Longrightarrow> gramTerms d \<noteq> []"
proof -
  assume long: "GramSize \<le> length d"
  have kept: "set terms \<subseteq> set (collectGrams terms gs)" for terms gs
    by (induction terms gs rule: collectGrams.induct) auto
  have "windows GramSize d \<noteq> []" using long by (simp add: windows_def)
  then obtain g gs where "windows GramSize d = g # gs" by (cases "windows GramSize d") auto
  then have "gramTerm g \<in> set (collectGrams [] (windows GramSize d))"
    using kept [of "[gramTerm g]" gs] by (simp add: MaxUniqueGrams_def)
  then have "length (sortBy (<) (collectGrams [] (windows GramSize d))) \<noteq> 0"
    by (auto simp: mset_eq_length [OF mset_sortBy])
  with long show ?thesis by (simp add: gramTerms_def)
qed

lemma hasTerms_ready:
  assumes "fst (BuildFileFields lower (bytesOf (sf_file s))) = ''ready''"
  shows "\<not> grepBinaryPrefix (bytesOf (sf_file s))"
    and "hasTerms lower (gramTerms x) s \<longleftrightarrow> set (gramTerms x) \<subseteq> set (gramTerms (lower (bytesOf (sf_file s))))"
proof -
  show plain: "\<not> grepBinaryPrefix (bytesOf (sf_file s))" using assms by (auto simp: BuildFileFields_def)
  have "[] \<notin> set (gramTerms x)" using gramTerm_no_space by blast
  then have "set (gramTerms x) \<subseteq> set (splitByte CHR '' '' (joinStr '' '' (gramTerms d))) \<longleftrightarrow> set (gramTerms x) \<subseteq> set (gramTerms d)" for d
    using indexed_terms [of d] by blast
  then show "hasTerms lower (gramTerms x) s \<longleftrightarrow> set (gramTerms x) \<subseteq> set (gramTerms (lower (bytesOf (sf_file s))))"
    using assms plain by (simp add: hasTerms_def BuildFileFields_def split: if_splits)
qed

lemma concat_filter_nonempty: "\<forall>x \<in> set xs. \<not> P x \<longrightarrow> f x = [] \<Longrightarrow> concat (map f (filter P xs)) = concat (map f xs)"
  by (induction xs) auto

text \<open>The index names exactly the files with the terms of the literal.\<close>

lemma collect_served:
  assumes "indexServes ix (ge_lower env) searchPath (QueryTermsForLiteral (ge_lower env) pat) files"
    and "QueryTermsForLiteral (ge_lower env) pat \<noteq> []"
    and "\<forall>s \<in> set files. fst (BuildFileFields (ge_lower env) (bytesOf (sf_file s))) = ''ready'' \<and> sf_path s \<noteq> []"
    and "length files < 512 * pages"
  shows "collectIndexedLiteralTargets pages env ix searchPath pat
     = Some (map (targetFor ix) (filter (hasTerms (ge_lower env) (QueryTermsForLiteral (ge_lower env) pat)) files))"
proof -
  let ?terms = "QueryTermsForLiteral (ge_lower env) pat"
  let ?docs = "map (docOf ix) (filter (hasTerms (ge_lower env) ?terms) files)"
  have "filter (\<lambda>s. fst (BuildFileFields (ge_lower env) (bytesOf (sf_file s))) \<in> {''binary'', ''large''}) files = []"
    using assms(3) by (auto simp: filter_empty_conv)
  then have ready: "nonReadyFileCount ix (pathAncestorsQuery ix searchPath) = 0"
    using assms(1) by (simp add: indexServes_def nonReadyFileCount_def)
  have "length ?docs < 0 + 512 * pages" using le_less_trans [OF length_filter_le assms(4)] by simp
  moreover have "\<forall>d \<in> set ?docs. ix_path d \<noteq> []" using assms(3) by (auto simp: docOf_def)
  ultimately have "searchPages pages ix (literalQuery (pathAncestorsQuery ix searchPath) ?terms) 0 []
      = Some ([] @ map (targetOf ix) (drop 0 ?docs))"
    proof (intro searchPages_all)
    show "ie_search ix (literalQuery (pathAncestorsQuery ix searchPath) ?terms) off 512 = Inr (take 512 (drop off ?docs))" for off
      using assms(1) unfolding indexServes_def by blast
  qed simp_all
  then have pages: "searchPages pages ix (literalQuery (pathAncestorsQuery ix searchPath) ?terms) 0 []
      = Some (map (targetFor ix) (filter (hasTerms (ge_lower env) ?terms) files))"
    by (simp add: targetOf_docOf comp_def)
  have ensure: "ie_ensure ix = Inr True" using assms(1) by (simp add: indexServes_def)
  show ?thesis by (simp add: collectIndexedLiteralTargets_def Let_def assms(2) ensure ready pages)
qed


text \<open>Two files, of which one has the word; the index answers for both.\<close>

definition sampleEnv :: grep_env where
  "sampleEnv = \<lparr>ge_lower = map asciiLower, ge_compile = (\<lambda>p. Inl ''unused''), ge_quoteMeta = id\<rparr>"

definition sampleOptions :: grep_options where
  "sampleOptions = defaultOptions\<lparr>go_ignoreCase := True, go_patterns := [''Word'']\<rparr>"

definition sampleFile :: "string \<Rightarrow> string \<Rightarrow> bytes \<Rightarrow> scope_file" where
  "sampleFile path inode content = \<lparr>sf_path = path, sf_inode = inode, sf_file =
     \<lparr>rf_type = ''file'', rf_ref = [], rf_size = length content, rf_inline = content, rf_live = None, rf_revision = []\<rparr>\<rparr>"

definition sampleFiles :: "scope_file list" where
  "sampleFiles = [sampleFile ''/b'' ''2'' ''a word'', sampleFile ''/a'' ''1'' ''no'']"

definition sampleStore :: "string \<Rightarrow> range_file option" where
  "sampleStore k = map_option sf_file (find (\<lambda>s. ''afs:{w}:inode:'' @ sf_inode s = k) sampleFiles)"

definition sampleIndex :: index_env where
  "sampleIndex = \<lparr>ie_ensure = Inr True,
     ie_search = (\<lambda>q off n. Inr (take n (drop off [\<lparr>ix_id = ''afs:{w}:inode:2'', ix_path = ''/b''\<rparr>]))),
     ie_count = (\<lambda>q. Inr 0), ie_escapeTag = id, ie_fsKey = ''w''\<rparr>"

definition sampleMatcher :: grep_matcher where
  "sampleMatcher = withPatterns sampleEnv sampleOptions (newMatcher grepModeLiteral sampleOptions)"

definition sampleClient :: grep_client where
  "sampleClient = \<lparr>gc_stat = (\<lambda>p. None), gc_tree = (\<lambda>p. Inl ''unused''),
     gc_cat = (\<lambda>path. if path = ''/b'' then Inr ''a word'' else Inr ''no''), gc_grep = (\<lambda>p q i. Inl ''unused'')\<rparr>"

lemma lowersAscii_sample: "lowersAscii (ge_lower sampleEnv)"
  by (simp add: lowersAscii_def sampleEnv_def)

lemma sample_fast:
  "useFastGrepBackend sampleOptions" "\<not> go_glob sampleOptions" "go_showLineNumbers sampleOptions" "go_patterns sampleOptions = [''Word'']"
  "compileGrepMatcher sampleEnv sampleOptions = Inr sampleMatcher" "asciiOnly ''Word''" "GramSize \<le> length ''Word''"
  by (simp_all add: sampleMatcher_def compileGrepMatcher_def useFastGrepBackend_def sampleOptions_def defaultOptions_def GramSize_def asciiOnly_def)

lemma fast_search_prints_the_same_witness:
  "map printMatch (grepFile (map asciiLower) ''/b'' ''a word'' ''*Word*'' True) = [''/b:1:a word'']"
proof -
  have "map printMatch (grepFile (ge_lower sampleEnv) ''/b'' ''a word'' (literalGlobPattern ''Word'') (go_ignoreCase sampleOptions))
      = grepProcessFile sampleEnv ''/b'' ''a word'' sampleOptions sampleMatcher"
    by (rule fast_search_prints_the_same [OF sample_fast(1-5) lowersAscii_sample sample_fast(6)])
  moreover have "grepProcessFile sampleEnv ''/b'' ''a word'' sampleOptions sampleMatcher = [''/b:1:a word'']" by code_simp
  moreover have "literalGlobPattern ''Word'' = ''*Word*''" by code_simp
  ultimately show ?thesis by (simp add: sampleEnv_def sampleOptions_def)
qed

lemma few_grams: "length d < 100 \<Longrightarrow> card (gramTerm ` set (windows GramSize d)) \<le> MaxUniqueGrams"
proof -
  assume short: "length d < 100"
  have "card (gramTerm ` set (windows GramSize d)) \<le> length (windows GramSize d)"
    using card_image_le card_length le_trans by blast
  then show ?thesis using short by (simp add: windows_def MaxUniqueGrams_def)
qed

lemma sample_scope:
  "\<forall>s \<in> set sampleFiles. served True sampleStore sampleIndex s \<and> gc_cat sampleClient (sf_path s) = Inr (bytesOf (sf_file s))
     \<and> asciiOnly (bytesOf (sf_file s)) \<and> fst (BuildFileFields (ge_lower sampleEnv) (bytesOf (sf_file s))) = ''ready''
     \<and> card (gramTerm ` set (windows GramSize (ge_lower sampleEnv (bytesOf (sf_file s))))) \<le> MaxUniqueGrams"
  by (simp add: sampleFiles_def sampleFile_def served_def fileOk_def bytesOf_def sampleClient_def sampleStore_def sampleIndex_def
      inodePrefix_def RefArray_def RefExternal_def asciiOnly_def BuildFileFields_def grepBinaryPrefix_def MaxIndexedBytes_def
      few_grams sampleEnv_def)


text \<open>
  A batch that cannot be loaded is searched through the client, and the command ends with it: the batches after it
  are not searched at all.
\<close>

lemma failed_batch_is_the_last:
  assumes "targets \<noteq> []" and "load (take grepIndexedContentBatchSize targets) = (loaded, Some e)"
  shows "indexedBatches env load cat o1 mt targets = runGrepTargets env cat loaded o1 mt"
  using assms by (subst indexedBatches.simps) (simp add: Let_def)

subsection \<open>Arguments\<close>

text \<open>
  What the argument parser accepts.  Options that pass have at least one pattern, name at most one of the modes glob, fixed and
  regexp, do not ask for names and counts at once, and have a maximal count that is not negative; and a glob is never
  combined with word or line matching.
\<close>

theorem accepted_options_are_consistent:
  assumes "parseGrepArgs args = Inr o1"
  shows "go_patterns o1 \<noteq> [] \<and> 0 \<le> go_maxCount o1 \<and> \<not> (go_filesWithMatches o1 \<and> go_countOnly o1)
     \<and> length (filter id [go_glob o1, go_fixedStrings o1, go_extendedRegexp o1 \<or> go_basicRegexp o1]) \<le> 1
     \<and> \<not> (go_glob o1 \<and> (go_wordRegexp o1 \<or> go_lineRegexp o1))"
  using assms
  by (auto simp: parseGrepArgs_def bindE_def checkOptions_def split: sum.splits prod.splits if_splits list.splits)

lemma accepted_options_are_consistent_witness:
  "parseGrepArgs [''-i'', ''-m'', ''3'', ''word''] = Inr (defaultOptions\<lparr>go_ignoreCase := True, go_maxCount := 3, go_patterns := [''word'']\<rparr>)
   \<and> go_patterns (defaultOptions\<lparr>go_ignoreCase := True, go_maxCount := 3, go_patterns := [''word'']\<rparr>) \<noteq> []"
proof -
  have parsed: "parseGrepArgs [''-i'', ''-m'', ''3'', ''word''] = Inr (defaultOptions\<lparr>go_ignoreCase := True, go_maxCount := 3, go_patterns := [''word'']\<rparr>)"
    by code_simp
  with accepted_options_are_consistent [OF parsed] show ?thesis by blast
qed

end
