(* ===== verification/TextDiff.thy ===== *)
theory TextDiff
  imports PlanExecution SyncPaths
begin

text \<open>
  The text hunk of a changed file (\<open>src/internal/controlplane/diff.go\<close>) with the checks that decide
  whether there is one: kinds, binary names and contents, sizes and line counts.  The table of media
  types behind \<open>mime.TypeByExtension\<close> and the blob store are arguments.
\<close>

subsection \<open>Lines\<close>

text \<open>\<open>strings.SplitAfter\<close> for a one-byte separator.\<close>

definition splitAfterByte :: "char \<Rightarrow> string \<Rightarrow> string list" where
  "splitAfterByte c s = (let ps = splitByte c s in map (\<lambda>p. p @ [c]) (butlast ps) @ [last ps])"

abbreviation newline :: char where "newline \<equiv> CHR 0x0A"
abbreviation carriageReturn :: char where "carriageReturn \<equiv> CHR 0x0D"

definition splitDiffLines :: "string \<Rightarrow> string list" where
  "splitDiffLines t =
     (if t = [] then []
      else let raw = splitAfterByte newline t;
               raw1 = (if last raw = [] then butlast raw else raw)
           in map (\<lambda>l. trimSuffix (trimSuffix l [newline]) [carriageReturn]) raw1)"

subsection \<open>The hunk\<close>

datatype line_kind = LineContext | LineDelete | LineInsert

record text_diff_line =
  tl_kind :: line_kind
  tl_oldLine :: nat
  tl_newLine :: nat
  tl_text :: string

record text_diff_hunk =
  th_oldStart :: nat
  th_oldLines :: nat
  th_newStart :: nat
  th_newLines :: nat
  th_lines :: "text_diff_line list"

definition diffTextMaxBytes :: int where "diffTextMaxBytes = 256 * 1024"
definition diffTextMaxLines :: nat where "diffTextMaxLines = 4000"
definition diffTextContext :: nat where "diffTextContext = 3"

text \<open>The two counting loops: equal lines from the start, then from the end of what is left.\<close>

fun commonPrefix :: "'a list \<Rightarrow> 'a list \<Rightarrow> nat" where
  "commonPrefix (x # xs) (y # ys) = (if x = y then Suc (commonPrefix xs ys) else 0)"
| "commonPrefix xs ys = 0"

definition hunkOf :: "string list \<Rightarrow> string list \<Rightarrow> nat \<Rightarrow> nat \<Rightarrow> text_diff_hunk" where
  "hunkOf old new pre suf =
     (let contextStart = pre - diffTextContext;
          oldChangeEnd = length old - suf;
          newChangeEnd = length new - suf;
          oldContextEnd = min (length old) (oldChangeEnd + diffTextContext);
          newContextEnd = min (length new) (newChangeEnd + diffTextContext);
          ls = map (\<lambda>i. \<lparr>tl_kind = LineContext, tl_oldLine = i + 1, tl_newLine = i + 1, tl_text = old ! i\<rparr>) [contextStart ..< pre]
            @ map (\<lambda>i. \<lparr>tl_kind = LineDelete, tl_oldLine = i + 1, tl_newLine = 0, tl_text = old ! i\<rparr>) [pre ..< oldChangeEnd]
            @ map (\<lambda>i. \<lparr>tl_kind = LineInsert, tl_oldLine = 0, tl_newLine = i + 1, tl_text = new ! i\<rparr>) [pre ..< newChangeEnd]
            @ map (\<lambda>j. \<lparr>tl_kind = LineContext, tl_oldLine = oldChangeEnd + j + 1, tl_newLine = newChangeEnd + j + 1,
                       tl_text = old ! (oldChangeEnd + j)\<rparr>)
                [0 ..< min (oldContextEnd - oldChangeEnd) (newContextEnd - newChangeEnd)]
      in \<lparr>th_oldStart = contextStart + 1, th_oldLines = oldContextEnd - contextStart,
          th_newStart = contextStart + 1, th_newLines = newContextEnd - contextStart, th_lines = ls\<rparr>)"

definition buildTextDiffHunks :: "string list \<Rightarrow> string list \<Rightarrow> text_diff_hunk list" where
  "buildTextDiffHunks old new =
     (if joinStr [newline] old = joinStr [newline] new then []
      else let pre = commonPrefix old new;
               suf = commonPrefix (rev (drop pre old)) (rev (drop pre new));
               h = hunkOf old new pre suf
           in if th_lines h = [] then [] else [h])"

subsection \<open>Whether there is one\<close>

record text_diff =
  td_available :: bool
  td_skippedReason :: string
  td_language :: string
  td_maxBytes :: int
  td_hunks :: "text_diff_hunk list"

definition skippedTextDiff :: "string \<Rightarrow> text_diff" where
  "skippedTextDiff reason = \<lparr>td_available = False, td_skippedReason = reason, td_language = [],
     td_maxBytes = diffTextMaxBytes, td_hunks = []\<rparr>"

text \<open>\<open>utf8.Valid\<close>: the well-formed byte sequences of the Unicode standard.\<close>

definition contByte :: "nat \<Rightarrow> bool" where
  "contByte b \<longleftrightarrow> 128 \<le> b \<and> b \<le> 191"

fun utf8Valid :: "nat list \<Rightarrow> bool" where
  "utf8Valid [] = True"
| "utf8Valid (a # r) =
     (if a < 128 then utf8Valid r
      else case r of
        [] \<Rightarrow> False
      | b # r1 \<Rightarrow>
          if 194 \<le> a \<and> a \<le> 223 then contByte b \<and> utf8Valid r1
          else (case r1 of
            [] \<Rightarrow> False
          | c # r2 \<Rightarrow>
              if 224 \<le> a \<and> a \<le> 239
              then contByte b \<and> (a = 224 \<longrightarrow> 160 \<le> b) \<and> (a = 237 \<longrightarrow> b \<le> 159) \<and> contByte c \<and> utf8Valid r2
              else (case r2 of
                [] \<Rightarrow> False
              | d # r3 \<Rightarrow>
                  240 \<le> a \<and> a \<le> 244 \<and> contByte b \<and> (a = 240 \<longrightarrow> 144 \<le> b) \<and> (a = 244 \<longrightarrow> b \<le> 143)
                  \<and> contByte c \<and> contByte d \<and> utf8Valid r3)))"

definition isBinary :: "bytes \<Rightarrow> bool" where
  "isBinary data =
     (if data = [] then False
      else if \<not> utf8Valid (map of_char data) then True
      else CHR 0x00 \<in> set data)"

text \<open>\<open>path.Ext\<close>, and the lower case of it; the extensions compared with are ASCII.\<close>

definition pathExt :: "path \<Rightarrow> string" where
  "pathExt p =
     (let r = takeWhile (\<lambda>c. c \<noteq> CHR ''/'') (rev p)
      in if CHR ''.'' \<in> set r then CHR ''.'' # rev (takeWhile (\<lambda>c. c \<noteq> CHR ''.'') r) else [])"

definition language :: "path \<Rightarrow> string" where
  "language p =
     (let e = map lowerByte (pathExt p) in
      if e = ''.md'' then ''markdown''
      else if e = ''.go'' then ''go''
      else if e = ''.ts'' \<or> e = ''.tsx'' then ''typescript''
      else if e = ''.js'' \<or> e = ''.jsx'' then ''javascript''
      else if e = ''.json'' then ''json''
      else if e = ''.yaml'' \<or> e = ''.yml'' then ''yaml''
      else if e = ''.sh'' then ''shell''
      else if e = ''.py'' then ''python'' else ''text'')"

definition looksBinaryPath :: "(string \<Rightarrow> string) \<Rightarrow> path \<Rightarrow> bool" where
  "looksBinaryPath mime p =
     (let ext = map lowerByte (pathExt (trimSpace p)) in
      if ext = [] then False
      else let mediaType = map lowerByte (trimSpace (hd (splitByte (CHR '';'') (mime ext)))) in
           if mediaType = [] then False
           else if hasPrefix mediaType ''text/'' then False
           else if mediaType \<in> {''application/json'', ''application/xml'', ''application/yaml'', ''application/x-yaml'',
               ''application/javascript'', ''application/x-javascript'', ''image/svg+xml''} then False
           else if hasSuffix mediaType ''+json'' \<or> hasSuffix mediaType ''+xml'' then False
           else True)"

text \<open>The bytes of an entry, or the reason why there are none; a missing entry has no bytes.\<close>

definition diffEntryData :: "(string \<Rightarrow> bytes option) \<Rightarrow> manifest_entry option \<Rightarrow> string + bytes" where
  "diffEntryData blobs e =
     (case e of
        None \<Rightarrow> Inr []
      | Some e \<Rightarrow>
          if me_type e = ''symlink'' then Inr (me_target e)
          else if me_type e \<noteq> ''file'' then Inl ''unsupported_kind''
          else (case manifestEntryData blobs e of None \<Rightarrow> Inl ''content_unavailable'' | Some d \<Rightarrow> Inr d))"

definition someType :: "manifest_entry option \<Rightarrow> string option" where
  "someType e = map_option me_type e"

definition tooLarge :: "manifest_entry option \<Rightarrow> bool" where
  "tooLarge e = (case e of None \<Rightarrow> False | Some e \<Rightarrow> me_type e = ''file'' \<and> me_size e > diffTextMaxBytes)"

definition textDiffForEntries ::
    "(string \<Rightarrow> string) \<Rightarrow> path \<Rightarrow> manifest_entry option \<Rightarrow> (string \<Rightarrow> bytes option) \<Rightarrow> manifest_entry option
     \<Rightarrow> (string \<Rightarrow> bytes option) \<Rightarrow> text_diff option" where
  "textDiffForEntries mime p old oldBlobs new newBlobs =
     (if someType old \<notin> {None, Some ''file'', Some ''symlink''} then None
      else if someType new \<notin> {None, Some ''file'', Some ''symlink''} then None
      else if looksBinaryPath mime p \<and> (someType old = Some ''file'' \<or> someType new = Some ''file'')
      then Some (skippedTextDiff ''binary'')
      else if tooLarge old then Some (skippedTextDiff ''too_large'')
      else if tooLarge new then Some (skippedTextDiff ''too_large'')
      else case diffEntryData oldBlobs old of
        Inl reason \<Rightarrow> Some (skippedTextDiff reason)
      | Inr oldData \<Rightarrow>
          (case diffEntryData newBlobs new of
             Inl reason \<Rightarrow> Some (skippedTextDiff reason)
           | Inr newData \<Rightarrow>
               if int (length oldData + length newData) > diffTextMaxBytes then Some (skippedTextDiff ''too_large'')
               else if isBinary oldData \<or> isBinary newData then Some (skippedTextDiff ''binary'')
               else let oldLines = splitDiffLines oldData; newLines = splitDiffLines newData in
                    if length oldLines + length newLines > diffTextMaxLines then Some (skippedTextDiff ''too_many_lines'')
                    else let hunks = buildTextDiffHunks oldLines newLines in
                         if hunks = [] then None
                         else Some \<lparr>td_available = True, td_skippedReason = [], td_language = language p,
                                td_maxBytes = diffTextMaxBytes, td_hunks = hunks\<rparr>))"

subsection \<open>The hunk can be applied\<close>

lemma commonPrefix_take: "take (commonPrefix xs ys) xs = take (commonPrefix xs ys) ys"
  by (induction xs ys rule: commonPrefix.induct) auto

lemma commonPrefix_le: "commonPrefix xs ys \<le> length xs \<and> commonPrefix xs ys \<le> length ys"
  by (induction xs ys rule: commonPrefix.induct) auto

text \<open>Two lists with a common start and end, as the counting loops find them.\<close>

lemma common_ends:
  assumes "pre = commonPrefix old new" and "suf = commonPrefix (rev (drop pre old)) (rev (drop pre new))"
  obtains P A B S where "old = P @ A @ S" "new = P @ B @ S" "length P = pre" "length S = suf"
proof
  let ?o = "drop pre old" and ?n = "drop pre new"
  have le: "pre \<le> length old" "pre \<le> length new" using commonPrefix_le assms(1) by metis+
  have sle: "suf \<le> length ?o" "suf \<le> length ?n" using commonPrefix_le assms(2) by (metis length_rev)+
  have "take suf (rev ?o) = take suf (rev ?n)" using commonPrefix_take assms(2) by metis
  then have S: "drop (length ?o - suf) ?o = drop (length ?n - suf) ?n" by (simp add: take_rev)
  show "old = take pre old @ take (length ?o - suf) ?o @ drop (length ?o - suf) ?o" by (metis append_take_drop_id)
  show "new = take pre old @ take (length ?n - suf) ?n @ drop (length ?o - suf) ?o"
    unfolding S using commonPrefix_take assms(1) by (metis append_take_drop_id)
  show "length (take pre old) = pre" using le by simp
  show "length (drop (length ?o - suf) ?o) = suf" using sle by simp
qed

definition oldSide :: "text_diff_hunk \<Rightarrow> string list" where
  "oldSide h = map tl_text (filter (\<lambda>l. tl_kind l \<noteq> LineInsert) (th_lines h))"

definition newSide :: "text_diff_hunk \<Rightarrow> string list" where
  "newSide h = map tl_text (filter (\<lambda>l. tl_kind l \<noteq> LineDelete) (th_lines h))"

text \<open>Applying a hunk puts the new side in the place of as many old lines as it says.\<close>

definition applyHunk :: "text_diff_hunk \<Rightarrow> string list \<Rightarrow> string list" where
  "applyHunk h old = take (th_oldStart h - 1) old @ newSide h @ drop (th_oldStart h - 1 + th_oldLines h) old"

definition revertHunk :: "text_diff_hunk \<Rightarrow> string list \<Rightarrow> string list" where
  "revertHunk h new = take (th_newStart h - 1) new @ oldSide h @ drop (th_newStart h - 1 + th_newLines h) new"

lemma map_nth_range: "n \<le> length xs \<Longrightarrow> map ((!) xs) [m ..< n] = take (n - m) (drop m xs)"
  by (induction n) (auto simp: take_Suc_conv_app_nth Suc_diff_le not_less_eq_eq)

lemma texts_of_lines:
  assumes "\<And>l m. tl_kind l = tl_kind m \<Longrightarrow> Q l = Q m"
  shows "map tl_text (filter Q (map (\<lambda>i. \<lparr>tl_kind = k, tl_oldLine = f i, tl_newLine = g i, tl_text = t i\<rparr>) xs)) =
    (if Q \<lparr>tl_kind = k, tl_oldLine = 0, tl_newLine = 0, tl_text = []\<rparr> then map t xs else [])"
proof (induction xs)
  case (Cons x xs)
  have "Q \<lparr>tl_kind = k, tl_oldLine = f x, tl_newLine = g x, tl_text = t x\<rparr> =
      Q \<lparr>tl_kind = k, tl_oldLine = 0, tl_newLine = 0, tl_text = []\<rparr>" by (rule assms) simp
  with Cons show ?case by simp
qed simp

lemma hunkOf_sides:
  assumes "old = P @ A @ S" and "new = P @ B @ S" and h: "h = hunkOf old new (length P) (length S)"
  shows "th_oldStart h = length P - 3 + 1 \<and> th_newStart h = length P - 3 + 1
    \<and> oldSide h = drop (length P - 3) P @ A @ take 3 S \<and> newSide h = drop (length P - 3) P @ B @ take 3 S
    \<and> th_oldLines h = length (oldSide h) \<and> th_newLines h = length (newSide h)"
proof -
  let ?p = "length P" and ?a = "length A" and ?b = "length B" and ?s = "length S"
  have ctx: "map ((!) old) [?p - 3 ..< ?p] = drop (?p - 3) P"
    by (subst map_nth_range) (simp_all add: assms(1))
  have del: "map ((!) old) [?p ..< ?p + ?a] = A" by (subst map_nth_range) (simp_all add: assms(1))
  have ins: "map ((!) new) [?p ..< ?p + ?b] = B" by (subst map_nth_range) (simp_all add: assms(2))
  have tail: "map (\<lambda>j. old ! (?p + ?a + j)) [0 ..< min ?s 3] = take 3 S"
    unfolding assms(1) by (rule nth_equalityI) (auto simp: nth_append)
  have ends: "length old - ?s = ?p + ?a" "length new - ?s = ?p + ?b"
    "min (length old) (?p + ?a + 3) - (?p + ?a) = min ?s 3" "min (length new) (?p + ?b + 3) - (?p + ?b) = min ?s 3"
    "min (length old) (?p + ?a + 3) - (?p - 3) = ?p - (?p - 3) + ?a + min ?s 3"
    "min (length new) (?p + ?b + 3) - (?p - 3) = ?p - (?p - 3) + ?b + min ?s 3"
    by (auto simp: assms(1,2))
  note fold_h = h [unfolded hunkOf_def Let_def diffTextContext_def ends(1-2), unfolded ends(3-6) min.idem]
  have "map tl_text (filter (\<lambda>l. tl_kind l \<noteq> LineInsert) (th_lines h)) = drop (?p - 3) P @ A @ take 3 S"
    unfolding fold_h text_diff_hunk.select_convs filter_append map_append
    by (subst (1 2 3 4) texts_of_lines) (simp_all add: ctx [simplified] del [simplified] tail [simplified])
  moreover have "map tl_text (filter (\<lambda>l. tl_kind l \<noteq> LineDelete) (th_lines h)) = drop (?p - 3) P @ B @ take 3 S"
    unfolding fold_h text_diff_hunk.select_convs filter_append map_append
    by (subst (1 2 3 4) texts_of_lines) (simp_all add: ctx [simplified] ins [simplified] tail [simplified])
  ultimately show ?thesis
    by (simp add: oldSide_def newSide_def) (simp add: fold_h add.assoc)
qed

lemma buildTextDiffHunks_applies:
  assumes "buildTextDiffHunks old new = h # hs"
  shows "hs = [] \<and> applyHunk h old = new \<and> revertHunk h new = old
    \<and> th_oldLines h = length (oldSide h) \<and> th_newLines h = length (newSide h)"
proof -
  define pre where "pre = commonPrefix old new"
  define suf where "suf = commonPrefix (rev (drop pre old)) (rev (drop pre new))"
  obtain P A B S where split: "old = P @ A @ S" "new = P @ B @ S" and len: "length P = pre" "length S = suf"
    using common_ends [OF pre_def suf_def] .
  have h: "hs = []" "h = hunkOf old new (length P) (length S)"
    using assms by (auto simp: buildTextDiffHunks_def Let_def len pre_def [symmetric] suf_def [symmetric] split: if_splits)
  note sides = hunkOf_sides [OF split h(2)]
  have parts: "take (length P - 3) P @ drop (length P - 3) P @ X = P @ X" "take 3 S @ drop (min (length S) 3) S = S" for X
    by (simp_all add: min_def)
  have "applyHunk h old = new" "revertHunk h new = old"
    using sides unfolding applyHunk_def revertHunk_def split by (simp_all add: parts)
  with sides h(1) show ?thesis by simp
qed

lemma joinStr_lines_eq:
  assumes "\<forall>l \<in> set xs \<union> set ys. newline \<notin> set l" and "joinStr [newline] xs = joinStr [newline] ys"
  shows "xs = ys \<or> {xs, ys} = {[], [[]]}"
proof -
  have s: "splitByte newline (joinStr [newline] zs) = (if zs = [] then [[]] else zs)" if "\<forall>l \<in> set zs. newline \<notin> set l" for zs
    using that splitByte_joinStr [of zs newline] by simp
  have "(if xs = [] then [[]] else xs) = (if ys = [] then [[]] else ys)"
    using s [of xs] s [of ys] assms by (metis UnCI)
  then show ?thesis by (cases "xs = []"; cases "ys = []") auto
qed

lemma splitDiffLines_no_newline: "l \<in> set (splitDiffLines t) \<Longrightarrow> newline \<notin> set l"
proof -
  have part: "newline \<notin> set p" if "p \<in> set (splitByte newline t)" for p using that by (rule splitByte_no_sep)
  have trim: "newline \<notin> set (trimSuffix (trimSuffix q [newline]) [carriageReturn])"
    if q: "q = p \<or> q = p @ [newline]" and p: "p \<in> set (splitByte newline t)" for p q
  proof -
    have "trimSuffix p [newline] = p" using part [OF p]
      by (cases p rule: rev_cases) (auto simp: trimSuffix_def hasSuffix_def hasPrefix_def)
    moreover have "trimSuffix (p @ [newline]) [newline] = p" by (simp add: trimSuffix_def hasSuffix_def hasPrefix_def)
    ultimately have "trimSuffix q [newline] = p" using q by auto
    then show ?thesis using part [OF p] by (auto simp: trimSuffix_def dest: in_set_takeD)
  qed
  assume "l \<in> set (splitDiffLines t)"
  then obtain q where q: "q \<in> set (splitAfterByte newline t)" and l: "l = trimSuffix (trimSuffix q [newline]) [carriageReturn]"
    by (auto simp: splitDiffLines_def Let_def split: if_splits dest: in_set_butlastD)
  from q have "q = last (splitByte newline t) \<or> (\<exists>p \<in> set (butlast (splitByte newline t)). q = p @ [newline])"
    by (auto simp: splitAfterByte_def Let_def)
  then obtain p where "p \<in> set (splitByte newline t)" "q = p \<or> q = p @ [newline]"
    using last_in_set [OF splitByte_nonempty [of newline t]] in_set_butlastD by metis
  then show ?thesis using trim l by blast
qed

text \<open>
  C30: The hunk shown for a changed file is a patch.  There is at most one; put into the old lines it
  gives the new lines, taken back from the new lines it gives the old ones, and its header counts its
  lines.  Without a hunk the lines are the same, except that no line and one empty line look alike.
\<close>

theorem text_hunk_applies:
  "case buildTextDiffHunks (splitDiffLines a) (splitDiffLines b) of
     [] \<Rightarrow> splitDiffLines a = splitDiffLines b \<or> {splitDiffLines a, splitDiffLines b} = {[], [[]]}
   | h # hs \<Rightarrow> hs = [] \<and> applyHunk h (splitDiffLines a) = splitDiffLines b \<and> revertHunk h (splitDiffLines b) = splitDiffLines a
       \<and> th_oldLines h = length (oldSide h) \<and> th_newLines h = length (newSide h)"
proof (cases "buildTextDiffHunks (splitDiffLines a) (splitDiffLines b)")
  case Nil
  let ?old = "splitDiffLines a" and ?new = "splitDiffLines b"
  have "?old = ?new" if join: "joinStr [newline] ?old \<noteq> joinStr [newline] ?new"
  proof -
    define pre where "pre = commonPrefix ?old ?new"
    define suf where "suf = commonPrefix (rev (drop pre ?old)) (rev (drop pre ?new))"
    obtain P A B S where split: "?old = P @ A @ S" "?new = P @ B @ S" and len: "length P = pre" "length S = suf"
      using common_ends [OF pre_def suf_def] .
    have "th_lines (hunkOf ?old ?new (length P) (length S)) = []"
      using Nil join by (auto simp: buildTextDiffHunks_def Let_def len pre_def [symmetric] suf_def [symmetric] split: if_splits)
    with hunkOf_sides [OF split refl] have "A = []" "B = []" by (simp_all add: oldSide_def newSide_def)
    with split show ?thesis by simp
  qed
  moreover have "?old = ?new \<or> {?old, ?new} = {[], [[]]}" if "joinStr [newline] ?old = joinStr [newline] ?new"
    using that splitDiffLines_no_newline by (intro joinStr_lines_eq) auto
  ultimately show ?thesis using Nil by auto
qed (simp add: buildTextDiffHunks_applies)

text \<open>Changes of the end of a line are not seen: such files are shown as equal.\<close>

lemma line_ends_not_shown:
  "buildTextDiffHunks (splitDiffLines ''a'') (splitDiffLines [CHR ''a'', carriageReturn, newline]) = []"
  "buildTextDiffHunks (splitDiffLines []) (splitDiffLines [newline]) = []"
  by (simp_all add: splitDiffLines_def splitAfterByte_def Let_def trimSuffix_def hasSuffix_def hasPrefix_def buildTextDiffHunks_def)

end
