(* ===== verification/ManifestDiff.thy ===== *)
theory ManifestDiff
  imports TextDiff UploadWorker
begin

text \<open>
  What the control plane says about two checkpoints (\<open>src/internal/controlplane/diff.go\<close> and the
  diff of \<open>changelog.go\<close>): the entries of a diff with detected renames, their summary, the text hunk
  of a changed file, and the change log entries of a save.

  The entries of a manifest are an association list with distinct paths, in the order in which a
  \<open>range\<close> visits them; the results do not depend on it.  Sizes do not overflow.
\<close>

subsection \<open>Entries\<close>

type_synonym entry_map = "(path \<times> manifest_entry) list"

datatype diff_op = DiffOpCreate | DiffOpUpdate | DiffOpDelete | DiffOpRename | DiffOpMetadata

record diff_entry =
  de_op :: diff_op
  de_path :: path
  de_previousPath :: path
  de_kind :: string
  de_previousKind :: string
  de_sizeBytes :: int
  de_previousSizeBytes :: int
  de_deltaBytes :: int
  de_contentHash :: string
  de_previousHash :: string
  de_mode :: u32
  de_previousMode :: u32
  de_textDiff :: "text_diff option"

definition zeroDiffEntry :: diff_entry where
  "zeroDiffEntry = \<lparr>de_op = DiffOpCreate, de_path = [], de_previousPath = [], de_kind = [], de_previousKind = [],
     de_sizeBytes = 0, de_previousSizeBytes = 0, de_deltaBytes = 0, de_contentHash = [], de_previousHash = [],
     de_mode = 0, de_previousMode = 0, de_textDiff = None\<rparr>"

definition entryHash :: "manifest_entry \<Rightarrow> string" where
  "entryHash e =
     (if me_blobID e \<noteq> [] then me_blobID e
      else if me_target e \<noteq> [] then ''symlink:'' @ me_target e
      else if me_inline e \<noteq> [] then ''inline:'' @ me_inline e else [])"

definition entryContentEquivalent :: "manifest_entry \<Rightarrow> manifest_entry \<Rightarrow> bool" where
  "entryContentEquivalent a b \<longleftrightarrow> me_type a = me_type b \<and> me_size a = me_size b \<and> me_blobID a = me_blobID b
     \<and> me_inline a = me_inline b \<and> me_target a = me_target b"

definition manifestEntryEquivalent :: "manifest_entry \<Rightarrow> manifest_entry \<Rightarrow> bool" where
  "manifestEntryEquivalent a b \<longleftrightarrow>
     (if me_type a \<noteq> me_type b \<or> me_mode a \<noteq> me_mode b \<or> me_size a \<noteq> me_size b \<or> me_blobID a \<noteq> me_blobID b
         \<or> me_inline a \<noteq> me_inline b \<or> me_target a \<noteq> me_target b then False
      else if me_type a = ''symlink'' \<or> me_type a = ''dir'' then True
      else me_mtimeMs a = me_mtimeMs b)"

definition renameDiffKey :: "manifest_entry \<Rightarrow> string" where
  "renameDiffKey e =
     (if me_type e \<noteq> ''file'' \<and> me_type e \<noteq> ''symlink'' then []
      else if entryHash e = [] then []
      else me_type e @ [CHR 0x00] @ entryHash e @ [CHR 0x00] @ intText (me_size e))"

definition createdDiffEntry :: "path \<Rightarrow> manifest_entry \<Rightarrow> diff_entry" where
  "createdDiffEntry p e = zeroDiffEntry\<lparr>de_op := DiffOpCreate, de_path := p, de_kind := me_type e,
     de_sizeBytes := me_size e, de_deltaBytes := me_size e, de_contentHash := entryHash e, de_mode := me_mode e\<rparr>"

definition deletedDiffEntry :: "path \<Rightarrow> manifest_entry \<Rightarrow> diff_entry" where
  "deletedDiffEntry p e = zeroDiffEntry\<lparr>de_op := DiffOpDelete, de_path := p, de_previousKind := me_type e,
     de_previousSizeBytes := me_size e, de_deltaBytes := - me_size e, de_previousHash := entryHash e,
     de_previousMode := me_mode e\<rparr>"

definition updatedDiffEntry :: "path \<Rightarrow> manifest_entry \<Rightarrow> manifest_entry \<Rightarrow> diff_entry" where
  "updatedDiffEntry p a b =
     \<lparr>de_op = (if entryContentEquivalent a b then DiffOpMetadata else DiffOpUpdate), de_path = p, de_previousPath = [],
      de_kind = me_type b, de_previousKind = me_type a, de_sizeBytes = me_size b, de_previousSizeBytes = me_size a,
      de_deltaBytes = me_size b - me_size a, de_contentHash = entryHash b, de_previousHash = entryHash a,
      de_mode = me_mode b, de_previousMode = me_mode a, de_textDiff = None\<rparr>"

definition renamedDiffEntry :: "path \<Rightarrow> manifest_entry \<Rightarrow> path \<Rightarrow> manifest_entry \<Rightarrow> diff_entry" where
  "renamedDiffEntry old a new b =
     \<lparr>de_op = DiffOpRename, de_path = new, de_previousPath = old, de_kind = me_type b, de_previousKind = me_type a,
      de_sizeBytes = me_size b, de_previousSizeBytes = me_size a, de_deltaBytes = 0, de_contentHash = entryHash b,
      de_previousHash = entryHash a, de_mode = me_mode b, de_previousMode = me_mode a, de_textDiff = None\<rparr>"

subsection \<open>The diff\<close>

definition sortStrings :: "string list \<Rightarrow> string list" where
  "sortStrings = sortBy (\<lambda>x y. x < y)"

definition pathsByKey :: "entry_map \<Rightarrow> string \<Rightarrow> path list" where
  "pathsByKey m k = map fst (filter (\<lambda>(p, e). renameDiffKey e = k) m)"

definition detectRenames :: "entry_map \<Rightarrow> entry_map \<Rightarrow> diff_entry list" where
  "detectRenames deleted created =
     (let keys = filter (\<lambda>k. k \<noteq> [] \<and> pathsByKey created k \<noteq> []) (remdups (map (\<lambda>(p, e). renameDiffKey e) deleted))
      in concat (map (\<lambda>k. map2 (\<lambda>old new. renamedDiffEntry old (the (map_of deleted old)) new (the (map_of created new)))
                            (sortStrings (pathsByKey deleted k)) (sortStrings (pathsByKey created k)))
           (sortStrings keys)))"

definition changedEntry :: "path \<Rightarrow> manifest_entry option \<Rightarrow> manifest_entry option \<Rightarrow> diff_entry list" where
  "changedEntry p prev succ =
     (case (prev, succ) of
        (Some a, None) \<Rightarrow> [deletedDiffEntry p a]
      | (None, Some b) \<Rightarrow> [createdDiffEntry p b]
      | (Some a, Some b) \<Rightarrow> if manifestEntryEquivalent a b then [] else [updatedDiffEntry p a b]
      | (None, None) \<Rightarrow> [])"

definition diffLess :: "diff_entry \<Rightarrow> diff_entry \<Rightarrow> bool" where
  "diffLess a b = (if de_path a = de_path b then de_previousPath a < de_previousPath b else de_path a < de_path b)"

definition missingFrom :: "entry_map \<Rightarrow> entry_map \<Rightarrow> entry_map" where
  "missingFrom other m = filter (\<lambda>(p, e). p \<noteq> ''/'' \<and> map_of other p = None) m"

definition diffPaths :: "entry_map \<Rightarrow> entry_map \<Rightarrow> path list" where
  "diffPaths b h = map fst (filter (\<lambda>(p, e). p \<noteq> ''/'') b) @ map fst (missingFrom b h)"

definition unsortedDiff :: "entry_map \<Rightarrow> entry_map \<Rightarrow> diff_entry list" where
  "unsortedDiff b h =
     (let renames = detectRenames (missingFrom h b) (missingFrom b h);
          renamed = map de_previousPath renames @ map de_path renames
      in renames @ concat (map (\<lambda>p. if p \<in> set renamed then [] else changedEntry p (map_of b p) (map_of h p))
                             (diffPaths b h)))"

definition diffManifests :: "entry_map \<Rightarrow> entry_map \<Rightarrow> diff_entry list" where
  "diffManifests b h = sortBy diffLess (unsortedDiff b h)"

record diff_summary =
  ds_total :: int
  ds_created :: int
  ds_updated :: int
  ds_deleted :: int
  ds_renamed :: int
  ds_metadataChanged :: int
  ds_bytesAdded :: int
  ds_bytesRemoved :: int

definition countEntry :: "diff_summary \<Rightarrow> diff_entry \<Rightarrow> diff_summary" where
  "countEntry s e =
     (let s1 = (case de_op e of
                  DiffOpCreate \<Rightarrow> s\<lparr>ds_created := ds_created s + 1\<rparr>
                | DiffOpUpdate \<Rightarrow> s\<lparr>ds_updated := ds_updated s + 1\<rparr>
                | DiffOpDelete \<Rightarrow> s\<lparr>ds_deleted := ds_deleted s + 1\<rparr>
                | DiffOpRename \<Rightarrow> s\<lparr>ds_renamed := ds_renamed s + 1\<rparr>
                | DiffOpMetadata \<Rightarrow> s\<lparr>ds_metadataChanged := ds_metadataChanged s + 1\<rparr>)
      in if de_deltaBytes e > 0 then s1\<lparr>ds_bytesAdded := ds_bytesAdded s1 + de_deltaBytes e\<rparr>
         else if de_deltaBytes e < 0 then s1\<lparr>ds_bytesRemoved := ds_bytesRemoved s1 + - de_deltaBytes e\<rparr>
         else s1)"

definition summarizeDiffEntries :: "diff_entry list \<Rightarrow> diff_summary" where
  "summarizeDiffEntries es =
     foldl countEntry \<lparr>ds_total = int (length es), ds_created = 0, ds_updated = 0, ds_deleted = 0, ds_renamed = 0,
       ds_metadataChanged = 0, ds_bytesAdded = 0, ds_bytesRemoved = 0\<rparr> es"

text \<open>The response: the entries with their text hunks, and the summary.\<close>

definition enrichDiffEntriesWithText ::
    "(string \<Rightarrow> string) \<Rightarrow> entry_map \<Rightarrow> (string \<Rightarrow> bytes option) \<Rightarrow> entry_map \<Rightarrow> (string \<Rightarrow> bytes option)
     \<Rightarrow> diff_entry list \<Rightarrow> diff_entry list" where
  "enrichDiffEntriesWithText mime b baseBlobs h headBlobs es =
     map (\<lambda>d. if de_op d \<in> {DiffOpCreate, DiffOpUpdate, DiffOpDelete}
              then d\<lparr>de_textDiff := textDiffForEntries mime (de_path d)
                      (if de_op d \<noteq> DiffOpCreate then map_of b (de_path d) else None) baseBlobs
                      (if de_op d \<noteq> DiffOpDelete then map_of h (de_path d) else None) headBlobs\<rparr>
              else d) es"

definition DiffWorkspace ::
    "(string \<Rightarrow> string) \<Rightarrow> entry_map \<Rightarrow> (string \<Rightarrow> bytes option) \<Rightarrow> entry_map \<Rightarrow> (string \<Rightarrow> bytes option)
     \<Rightarrow> diff_summary \<times> diff_entry list" where
  "DiffWorkspace mime b baseBlobs h headBlobs =
     (let es = enrichDiffEntriesWithText mime b baseBlobs h headBlobs (diffManifests b h)
      in (summarizeDiffEntries es, es))"

subsection \<open>What a diff entry touches\<close>

definition touched :: "diff_entry \<Rightarrow> path list" where
  "touched d = (if de_op d = DiffOpRename then [de_previousPath d, de_path d] else [de_path d])"

lemma touched_entries [simp]:
  "touched (renamedDiffEntry p a q b) = [p, q]" "touched (createdDiffEntry p e) = [p]"
  "touched (deletedDiffEntry p e) = [p]" "touched (updatedDiffEntry p a b) = [p]"
  by (simp_all add: touched_def renamedDiffEntry_def createdDiffEntry_def deletedDiffEntry_def updatedDiffEntry_def)

lemma sortStrings_simps [simp]:
  "set (sortStrings xs) = set xs" "mset (sortStrings xs) = mset xs" "length (sortStrings xs) = length xs"
  by (simp_all add: sortStrings_def) (metis mset_sortBy size_mset)

lemma distinct_sortStrings [simp]: "distinct (sortStrings xs) = distinct xs"
  by (rule mset_eq_imp_distinct_iff) simp

lemma pathsByKey_set: "p \<in> set (pathsByKey m k) \<longleftrightarrow> (\<exists>e. (p, e) \<in> set m \<and> renameDiffKey e = k)"
  by (auto simp: pathsByKey_def image_iff)

lemma distinct_pathsByKey: "distinct (map fst m) \<Longrightarrow> distinct (pathsByKey m k)"
  by (induction m) (auto simp: pathsByKey_def)

lemma pathsByKey_disjoint:
  assumes "distinct (map fst m)" and "k \<noteq> k'"
  shows "set (pathsByKey m k) \<inter> set (pathsByKey m k') = {}"
  using assms by (auto simp: pathsByKey_set dest: eq_key_imp_eq_value)

lemma distinct_concat_keys:
  assumes "distinct ks" and "\<And>k. distinct (f k)" and "\<And>k k'. k \<noteq> k' \<Longrightarrow> set (f k) \<inter> set (f k') = {}"
  shows "distinct (concat (map f ks))"
  using assms(1)
proof (induction ks)
  case (Cons k ks)
  have "set (f k) \<inter> set (f x) = {}" if "x \<in> set ks" for x using Cons.prems that by (intro assms(3)) auto
  then have "set (f k) \<inter> (\<Union>x \<in> set ks. set (f x)) = {}" by blast
  then show ?case using Cons assms(2) by simp
qed simp

lemma map_fst_zip_take: "map fst (zip xs ys) = take (min (length xs) (length ys)) xs"
  by (induction xs ys rule: list_induct2') auto

lemma map_snd_zip_take: "map snd (zip xs ys) = take (min (length xs) (length ys)) ys"
  by (induction xs ys rule: list_induct2') auto

text \<open>The renames pair deleted and created paths of the same key, each path at most once.\<close>

lemma detectRenames_member:
  assumes "distinct (map fst D)" and "distinct (map fst C)" and "d \<in> set (detectRenames D C)"
  obtains p a q b where "(p, a) \<in> set D" "(q, b) \<in> set C" "renameDiffKey a = renameDiffKey b" "renameDiffKey a \<noteq> []"
    "d = renamedDiffEntry p a q b"
proof -
  from assms(3) obtain k p q where k: "k \<noteq> []"
    and zip: "(p, q) \<in> set (zip (sortStrings (pathsByKey D k)) (sortStrings (pathsByKey C k)))"
    and d: "d = renamedDiffEntry p (the (map_of D p)) q (the (map_of C q))"
    by (auto simp: detectRenames_def Let_def)
  from set_zip_leftD [OF zip] set_zip_rightD [OF zip]
  obtain a b where "(p, a) \<in> set D" "renameDiffKey a = k" "(q, b) \<in> set C" "renameDiffKey b = k"
    by (auto simp: pathsByKey_set)
  with that k d assms(1,2) show thesis by simp
qed

lemma detectRenames_distinct:
  assumes "distinct (map fst D)" and "distinct (map fst C)"
  shows "distinct (map de_previousPath (detectRenames D C))" and "distinct (map de_path (detectRenames D C))"
proof -
  define ks where "ks = sortStrings (filter (\<lambda>k. k \<noteq> [] \<and> pathsByKey C k \<noteq> []) (remdups (map (\<lambda>(p, e). renameDiffKey e) D)))"
  define olds where "olds k = sortStrings (pathsByKey D k)" for k
  define news where "news k = sortStrings (pathsByKey C k)" for k
  have renames: "detectRenames D C =
      concat (map (\<lambda>k. map (\<lambda>(old, new). renamedDiffEntry old (the (map_of D old)) new (the (map_of C new)))
        (zip (olds k) (news k))) ks)"
    by (simp add: detectRenames_def Let_def ks_def olds_def news_def)
  have ks: "distinct ks" by (simp add: ks_def)
  have ends: "map de_previousPath (detectRenames D C) = concat (map (\<lambda>k. map fst (zip (olds k) (news k))) ks)"
    "map de_path (detectRenames D C) = concat (map (\<lambda>k. map snd (zip (olds k) (news k))) ks)"
    by (simp_all add: renames map_concat comp_def case_prod_unfold renamedDiffEntry_def)
  have dist: "distinct (olds k)" "distinct (news k)" for k
    using assms by (simp_all add: olds_def news_def distinct_pathsByKey)
  have disj: "set (olds k) \<inter> set (olds k') = {}" "set (news k) \<inter> set (news k') = {}" if "k \<noteq> k'" for k k'
    using assms that by (simp_all add: olds_def news_def pathsByKey_disjoint)
  have sub: "set (take n (olds k)) \<subseteq> set (olds k)" "set (take n (news k)) \<subseteq> set (news k)" for n k
    by (rule set_take_subset)+
  show "distinct (map de_previousPath (detectRenames D C))"
    unfolding ends map_fst_zip_take
    by (rule distinct_concat_keys [OF ks], simp add: dist, use disj(1) sub(1) in blast)
  show "distinct (map de_path (detectRenames D C))"
    unfolding ends map_snd_zip_take
    by (rule distinct_concat_keys [OF ks], simp add: dist, use disj(2) sub(2) in blast)
qed

subsection \<open>Replaying a diff\<close>

text \<open>What a diff tells of an entry, and what its entries do to a tree of these.\<close>

record entry_view =
  ev_kind :: string
  ev_size :: int
  ev_hash :: string
  ev_mode :: u32

definition manifestView :: "entry_map \<Rightarrow> path \<Rightarrow> entry_view option" where
  "manifestView m p =
     (if p = ''/'' then None
      else map_option (\<lambda>e. \<lparr>ev_kind = me_type e, ev_size = me_size e, ev_hash = entryHash e, ev_mode = me_mode e\<rparr>) (map_of m p))"

definition entryView :: "diff_entry \<Rightarrow> entry_view" where
  "entryView d = \<lparr>ev_kind = de_kind d, ev_size = de_sizeBytes d, ev_hash = de_contentHash d, ev_mode = de_mode d\<rparr>"

definition applyDiffEntry :: "diff_entry \<Rightarrow> (path \<Rightarrow> entry_view option) \<Rightarrow> path \<Rightarrow> entry_view option" where
  "applyDiffEntry d m =
     (case de_op d of
        DiffOpDelete \<Rightarrow> m(de_path d := None)
      | DiffOpRename \<Rightarrow> m(de_previousPath d := None, de_path d \<mapsto> entryView d)
      | _ \<Rightarrow> m(de_path d \<mapsto> entryView d))"

definition valueAt :: "diff_entry \<Rightarrow> path \<Rightarrow> entry_view option" where
  "valueAt d p = (if de_op d = DiffOpDelete \<or> de_op d = DiffOpRename \<and> p \<noteq> de_path d then None else Some (entryView d))"

lemma applyDiffEntry_at: "applyDiffEntry d m p = (if p \<in> set (touched d) then valueAt d p else m p)"
  by (cases "de_op d") (auto simp: applyDiffEntry_def touched_def valueAt_def)

lemma fold_applyDiffEntry:
  assumes "distinct (concat (map touched es))"
  shows "d \<in> set es \<Longrightarrow> p \<in> set (touched d) \<Longrightarrow> fold applyDiffEntry es m p = valueAt d p"
    and "p \<notin> set (concat (map touched es)) \<Longrightarrow> fold applyDiffEntry es m p = m p"
  using assms
proof (induction es arbitrary: m)
  case (Cons e es)
  {
    case 1
    then show ?case
      using Cons.IH(1) [of "applyDiffEntry e m"] Cons.IH(2) [of "applyDiffEntry e m"]
      by (cases "d = e") (auto simp: applyDiffEntry_at)
  next
    case 2
    then show ?case using Cons.IH(2) [of "applyDiffEntry e m"] by (auto simp: applyDiffEntry_at)
  }
qed auto

lemma missingFrom_set: "(p, e) \<in> set (missingFrom b h) \<longleftrightarrow> (p, e) \<in> set h \<and> p \<noteq> ''/'' \<and> map_of b p = None"
  by (auto simp: missingFrom_def)

lemma distinct_missingFrom: "distinct (map fst h) \<Longrightarrow> distinct (map fst (missingFrom b h))"
  unfolding missingFrom_def by (induction h) auto

lemma diffPaths_props:
  assumes "distinct (map fst b)" and "distinct (map fst h)"
  shows "distinct (diffPaths b h)"
    and "set (diffPaths b h) = {p. p \<noteq> ''/'' \<and> (map_of b p \<noteq> None \<or> map_of h p \<noteq> None)}"
proof -
  have "distinct (map fst (filter (\<lambda>(p, e). p \<noteq> ''/'') b))" using assms(1) by (induction b) auto
  then show "distinct (diffPaths b h)"
    using assms(1) distinct_missingFrom [OF assms(2), of b]
    by (force simp: diffPaths_def missingFrom_def map_of_eq_None_iff)
  show "set (diffPaths b h) = {p. p \<noteq> ''/'' \<and> (map_of b p \<noteq> None \<or> map_of h p \<noteq> None)}"
    by (auto simp: diffPaths_def missingFrom_def map_of_eq_None_iff image_iff)
qed

definition renamesOf :: "entry_map \<Rightarrow> entry_map \<Rightarrow> diff_entry list" where
  "renamesOf b h = detectRenames (missingFrom h b) (missingFrom b h)"

lemma renamesOf_member:
  assumes "distinct (map fst b)" and "distinct (map fst h)" and "d \<in> set (renamesOf b h)"
  obtains p a q c where "map_of b p = Some a" "map_of h p = None" "map_of b q = None" "map_of h q = Some c"
    "p \<noteq> ''/''" "q \<noteq> ''/''" "renameDiffKey a = renameDiffKey c" "renameDiffKey a \<noteq> []" "d = renamedDiffEntry p a q c"
proof -
  from assms(3) obtain p a q c where "(p, a) \<in> set (missingFrom h b)" "(q, c) \<in> set (missingFrom b h)"
    and k: "renameDiffKey a = renameDiffKey c" "renameDiffKey a \<noteq> []" "d = renamedDiffEntry p a q c"
    unfolding renamesOf_def
    by (rule detectRenames_member [OF distinct_missingFrom [OF assms(1)] distinct_missingFrom [OF assms(2)]]) blast
  then show thesis using assms(1,2) by (intro that [OF _ _ _ _ _ _ k]) (auto simp: missingFrom_set)
qed

definition restOf :: "entry_map \<Rightarrow> entry_map \<Rightarrow> path list" where
  "restOf b h = filter (\<lambda>p. p \<notin> set (concat (map touched (renamesOf b h)))) (diffPaths b h)"

lemma renames_touched:
  assumes "\<And>d. d \<in> set rs \<Longrightarrow> de_op d = DiffOpRename"
  shows "set (concat (map touched rs)) = set (map de_previousPath rs @ map de_path rs)"
    and "mset (concat (map touched rs)) = mset (map de_previousPath rs @ map de_path rs)"
  using assms by (induction rs) (auto simp: touched_def)

lemma renamesOf_op: "d \<in> set (renamesOf b h) \<Longrightarrow> de_op d = DiffOpRename"
  by (auto simp: renamesOf_def detectRenames_def Let_def renamedDiffEntry_def)

lemma unsortedDiff_split:
  "unsortedDiff b h = renamesOf b h @ concat (map (\<lambda>p. changedEntry p (map_of b p) (map_of h p)) (restOf b h))"
proof -
  have *: "concat (map (\<lambda>p. if p \<in> A then [] else f p) xs) = concat (map f (filter (\<lambda>p. p \<notin> A) xs))"
    for A and f :: "path \<Rightarrow> diff_entry list" and xs
    by (induction xs) auto
  have t: "set (concat (map touched (renamesOf b h))) = set (map de_previousPath (renamesOf b h) @ map de_path (renamesOf b h))"
    by (rule renames_touched) (rule renamesOf_op)
  show ?thesis
    unfolding unsortedDiff_def Let_def restOf_def renamesOf_def [symmetric] t by (simp only: *)
qed

lemma changedEntry_touched: "concat (map touched (changedEntry p a c)) = (if rel_option manifestEntryEquivalent a c then [] else [p])"
  by (cases a; cases c) (auto simp: changedEntry_def)

lemma unsortedDiff_touched:
  "concat (map touched (unsortedDiff b h)) =
     concat (map touched (renamesOf b h)) @ filter (\<lambda>p. \<not> rel_option manifestEntryEquivalent (map_of b p) (map_of h p)) (restOf b h)"
proof -
  have "concat (map touched (concat (map (\<lambda>p. changedEntry p (f p) (g p)) xs))) =
      filter (\<lambda>p. \<not> rel_option manifestEntryEquivalent (f p) (g p)) xs" for f g and xs :: "path list"
    by (induction xs) (auto simp: changedEntry_touched)
  then show ?thesis by (simp add: unsortedDiff_split)
qed

lemma unsortedDiff_distinct:
  assumes "distinct (map fst b)" and "distinct (map fst h)"
  shows "distinct (concat (map touched (unsortedDiff b h)))"
proof -
  note D = distinct_missingFrom [OF assms(1), of h] distinct_missingFrom [OF assms(2), of b]
  have "map_of b (de_previousPath d) \<noteq> None" "map_of b (de_path d) = None" if "d \<in> set (renamesOf b h)" for d
    by (rule renamesOf_member [OF assms that], simp add: renamedDiffEntry_def)+
  then have "set (map de_previousPath (renamesOf b h)) \<inter> set (map de_path (renamesOf b h)) = {}" by fastforce
  then have "distinct (map de_previousPath (renamesOf b h) @ map de_path (renamesOf b h))"
    using detectRenames_distinct [OF D] by (simp add: renamesOf_def)
  then have "distinct (concat (map touched (renamesOf b h)))"
    using renames_touched(2) [of "renamesOf b h"] renamesOf_op mset_eq_imp_distinct_iff by metis
  then show ?thesis
    using diffPaths_props(1) [OF assms] by (auto simp: unsortedDiff_touched restOf_def)
qed

lemma unsortedDiff_touches:
  assumes "distinct (map fst b)" and "distinct (map fst h)"
  shows "set (concat (map touched (unsortedDiff b h))) =
    {p. p \<noteq> ''/'' \<and> \<not> rel_option manifestEntryEquivalent (map_of b p) (map_of h p)}" (is "?l = ?r")
proof
  have "p \<in> ?r" if "p \<in> set (concat (map touched (renamesOf b h)))" for p
    using that by (auto elim!: renamesOf_member [OF assms])
  then show "?l \<subseteq> ?r"
    using diffPaths_props(2) [OF assms] by (auto simp: unsortedDiff_touched restOf_def)
  show "?r \<subseteq> ?l"
  proof
    fix p assume p: "p \<in> ?r"
    then have "p \<in> set (diffPaths b h)" by (auto simp: diffPaths_props(2) [OF assms])
    with p show "p \<in> ?l" by (auto simp: unsortedDiff_touched restOf_def)
  qed
qed

lemma changedEntry_value:
  "d \<in> set (changedEntry p (map_of b p) (map_of h p)) \<Longrightarrow> p \<noteq> ''/'' \<Longrightarrow> touched d = [p] \<and> valueAt d p = manifestView h p"
  by (cases "map_of b p"; cases "map_of h p")
    (auto simp: changedEntry_def valueAt_def manifestView_def entryView_def deletedDiffEntry_def createdDiffEntry_def
      updatedDiffEntry_def touched_def zeroDiffEntry_def split: if_splits)

lemma unsortedDiff_value:
  assumes "distinct (map fst b)" and "distinct (map fst h)" and "d \<in> set (unsortedDiff b h)" and "p \<in> set (touched d)"
  shows "valueAt d p = manifestView h p"
proof (cases "d \<in> set (renamesOf b h)")
  case True
  then obtain q a p' c where "map_of h q = None" "map_of b q = Some a" "map_of b p' = None" "map_of h p' = Some c" "p' \<noteq> ''/''"
    "d = renamedDiffEntry q a p' c"
    by (rule renamesOf_member [OF assms(1,2)])
  with assms(4) show ?thesis
    by (auto simp: valueAt_def renamedDiffEntry_def manifestView_def entryView_def touched_def)
next
  case False
  then obtain q where q: "q \<in> set (restOf b h)" "d \<in> set (changedEntry q (map_of b q) (map_of h q))"
    using assms(3) by (auto simp: unsortedDiff_split)
  then have "q \<noteq> ''/''" by (simp add: restOf_def diffPaths_props(2) [OF assms(1,2)])
  from changedEntry_value [OF q(2) this] assms(4) show ?thesis by simp
qed

lemma equivalent_view: "rel_option manifestEntryEquivalent (map_of b p) (map_of h p) \<Longrightarrow> manifestView b p = manifestView h p"
  by (cases "map_of b p"; cases "map_of h p")
    (auto simp: manifestView_def manifestEntryEquivalent_def entryHash_def split: if_splits)

lemma diffManifests_mset: "mset (diffManifests b h) = mset (unsortedDiff b h)"
  by (simp add: diffManifests_def)

lemma diffManifests_touches:
  assumes "distinct (map fst b)" and "distinct (map fst h)"
  shows "distinct (concat (map touched (diffManifests b h)))"
    and "set (concat (map touched (diffManifests b h))) =
      {p. p \<noteq> ''/'' \<and> \<not> rel_option manifestEntryEquivalent (map_of b p) (map_of h p)}"
proof -
  have "mset (concat (map touched (diffManifests b h))) = mset (concat (map touched (unsortedDiff b h)))"
    by (simp add: mset_concat diffManifests_mset flip: sum_mset_sum_list)
  then show "distinct (concat (map touched (diffManifests b h)))"
    and "set (concat (map touched (diffManifests b h))) =
      {p. p \<noteq> ''/'' \<and> \<not> rel_option manifestEntryEquivalent (map_of b p) (map_of h p)}"
    using unsortedDiff_distinct [OF assms] unsortedDiff_touches [OF assms] mset_eq_imp_distinct_iff mset_eq_setD by metis+
qed

subsection \<open>Its summary\<close>

lemma nul_not_digit: "CHR 0x00 \<notin> set (intText i)"
proof -
  have "CHR 0x00 \<notin> set (natDigits n)" for n
  proof (induction n rule: natDigits.induct)
    case (1 n)
    have "CHR 0x00 \<noteq> (char_of (48 + d) :: char)" if "d < 10" for d :: nat
    proof
      assume "CHR 0x00 = (char_of (48 + d) :: char)"
      then have "of_char (CHR 0x00) = (of_char (char_of (48 + d) :: char) :: nat)" by simp
      with that show False by simp
    qed
    with 1 show ?case by (auto simp: natDigits.simps [of n])
  qed
  then show ?thesis by (simp add: intText_def)
qed

lemma split_first: "x \<notin> set u \<Longrightarrow> x \<notin> set v \<Longrightarrow> u @ x # w = v @ x # z \<longleftrightarrow> u = v \<and> w = z"
  by (induction u v rule: list_induct2') auto

lemma split_last: "x \<notin> set w \<Longrightarrow> x \<notin> set z \<Longrightarrow> u @ x # w = v @ x # z \<longleftrightarrow> u = v \<and> w = z"
  using split_first [of x "rev w" "rev z" "rev u" "rev v"] by (metis append.assoc append_Cons append_Nil rev.simps(2) rev_append rev_rev_ident set_rev)

lemma intText_eq_iff [simp]: "intText i = intText j \<longleftrightarrow> i = j"
  by (metis decimal_intText option.inject)

lemma renameDiffKey_eq:
  assumes "renameDiffKey a = renameDiffKey c" and "renameDiffKey a \<noteq> []"
  shows "me_type a = me_type c \<and> entryHash a = entryHash c \<and> me_size a = me_size c"
proof -
  have k: "me_type e \<in> {''file'', ''symlink''}
      \<and> renameDiffKey e = me_type e @ CHR 0x00 # entryHash e @ CHR 0x00 # intText (me_size e)"
    if "renameDiffKey e \<noteq> []" for e
    using that by (auto simp: renameDiffKey_def split: if_splits)
  have n: "CHR 0x00 \<notin> set (me_type e)" if "me_type e \<in> {''file'', ''symlink''}" for e using that by auto
  from k [OF assms(2)] k [of c] assms have eq:
    "me_type a @ CHR 0x00 # entryHash a @ CHR 0x00 # intText (me_size a) = me_type c @ CHR 0x00 # entryHash c @ CHR 0x00 # intText (me_size c)"
    and t: "me_type a \<in> {''file'', ''symlink''}" "me_type c \<in> {''file'', ''symlink''}" by auto
  from eq have "me_type a = me_type c \<and> entryHash a @ CHR 0x00 # intText (me_size a) = entryHash c @ CHR 0x00 # intText (me_size c)"
    unfolding split_first [OF n [OF t(1)] n [OF t(2)]] .
  then show ?thesis unfolding split_last [OF nul_not_digit nul_not_digit] by simp
qed

definition sizeIn :: "entry_map \<Rightarrow> path \<Rightarrow> int" where
  "sizeIn m p = (case map_of m p of None \<Rightarrow> 0 | Some e \<Rightarrow> me_size e)"

definition treeSize :: "entry_map \<Rightarrow> int" where
  "treeSize m = sum_list (map (\<lambda>(p, e). me_size e) (filter (\<lambda>(p, e). p \<noteq> ''/'') m))"

text \<open>A quantity of the entries that is a sum over the paths they touch is a sum over all paths.\<close>

lemma diff_sum:
  fixes f :: "diff_entry \<Rightarrow> int"
  assumes "distinct (map fst b)" and "distinct (map fst h)"
    and f: "\<And>d. d \<in> set (unsortedDiff b h) \<Longrightarrow> f d = sum_list (map g (touched d))"
    and g: "\<And>p. rel_option manifestEntryEquivalent (map_of b p) (map_of h p) \<Longrightarrow> g p = 0"
  shows "sum_list (map f (diffManifests b h)) = (\<Sum>p \<in> set (diffPaths b h). g p)"
proof -
  let ?T = "concat (map touched (diffManifests b h))"
  note t = diffManifests_touches [OF assms(1,2)]
  have "sum_list (map f es) = sum_list (map g (concat (map touched es)))" if "set es \<subseteq> set (unsortedDiff b h)" for es
    using that f by (induction es) auto
  moreover have "set (diffManifests b h) = set (unsortedDiff b h)" using diffManifests_mset mset_eq_setD by metis
  ultimately have "sum_list (map f (diffManifests b h)) = sum_list (map g ?T)" by simp
  also have "\<dots> = (\<Sum>p \<in> set ?T. g p)" using t(1) by (rule sum_list_distinct_conv_sum_set)
  also have "\<dots> = (\<Sum>p \<in> set (diffPaths b h). g p)"
    unfolding t(2) diffPaths_props(2) [OF assms(1,2)]
    by (rule sum.mono_neutral_left)
      (use g finite_set [of "diffPaths b h"] in \<open>auto simp: diffPaths_props(2) [OF assms(1,2)]\<close>)
  finally show ?thesis .
qed

lemma unsortedDiff_cases:
  assumes "distinct (map fst b)" and "distinct (map fst h)" and "d \<in> set (unsortedDiff b h)"
  obtains p a q c where "d = renamedDiffEntry p a q c" "map_of b p = Some a" "map_of h p = None" "map_of b q = None"
      "map_of h q = Some c" "p \<noteq> ''/''" "q \<noteq> ''/''" "me_size a = me_size c" "me_type a = me_type c" "entryHash a = entryHash c"
  | p e where "d = createdDiffEntry p e" "map_of b p = None" "map_of h p = Some e"
  | p e where "d = deletedDiffEntry p e" "map_of b p = Some e" "map_of h p = None"
  | p a c where "d = updatedDiffEntry p a c" "map_of b p = Some a" "map_of h p = Some c"
proof (cases "d \<in> set (renamesOf b h)")
  case True
  then show ?thesis using that(1) renameDiffKey_eq by (elim renamesOf_member [OF assms(1,2)]) blast
next
  case False
  then obtain p where "d \<in> set (changedEntry p (map_of b p) (map_of h p))"
    using assms(3) by (auto simp: unsortedDiff_split)
  then show ?thesis
    by (cases "map_of b p"; cases "map_of h p") (auto simp: changedEntry_def split: if_splits intro: that(2-4))
qed

text \<open>
  C25: A diff replays.  Applying the entries of the diff of two manifests, renames included, to what is
  known of the entries of the first gives the second; a path is named by at most one entry, and the
  paths named are exactly those whose entries are not equivalent.  A rename pairs an entry that is gone
  with a new one of the same kind, size and content.
\<close>

theorem diff_replays:
  assumes "distinct (map fst b)" and "distinct (map fst h)"
  shows "fold applyDiffEntry (diffManifests b h) (manifestView b) = manifestView h
    \<and> distinct (concat (map touched (diffManifests b h)))
    \<and> set (concat (map touched (diffManifests b h))) =
        {p. p \<noteq> ''/'' \<and> \<not> rel_option manifestEntryEquivalent (map_of b p) (map_of h p)}
    \<and> (\<forall>d \<in> set (diffManifests b h). de_op d = DiffOpRename \<longrightarrow>
         (\<exists>v m. manifestView b (de_previousPath d) = Some v \<and> manifestView h (de_path d) = Some (v\<lparr>ev_mode := m\<rparr>)))"
proof -
  note t = diffManifests_touches [OF assms]
  have "fold applyDiffEntry (diffManifests b h) (manifestView b) p = manifestView h p" for p
  proof (cases "p \<in> set (concat (map touched (diffManifests b h)))")
    case True
    then obtain d where d: "d \<in> set (diffManifests b h)" "p \<in> set (touched d)" by auto
    then have "d \<in> set (unsortedDiff b h)" using diffManifests_mset mset_eq_setD by metis
    with fold_applyDiffEntry(1) [OF t(1) d] unsortedDiff_value [OF assms _ d(2)] show ?thesis by simp
  next
    case False
    then have "p = ''/'' \<or> rel_option manifestEntryEquivalent (map_of b p) (map_of h p)" unfolding t(2) by simp
    moreover have "manifestView b ''/'' = manifestView h ''/''" by (simp add: manifestView_def)
    ultimately have "manifestView b p = manifestView h p" using equivalent_view by metis
    with fold_applyDiffEntry(2) [OF t(1) False] show ?thesis by simp
  qed
  moreover have "\<exists>v m. manifestView b (de_previousPath d) = Some v \<and> manifestView h (de_path d) = Some (v\<lparr>ev_mode := m\<rparr>)"
    if d: "d \<in> set (diffManifests b h)" and op: "de_op d = DiffOpRename" for d
  proof -
    have "d \<in> set (unsortedDiff b h)" using d diffManifests_mset mset_eq_setD by metis
    then obtain p a q c where "d = renamedDiffEntry p a q c" "map_of b p = Some a" "map_of h q = Some c" "p \<noteq> ''/''" "q \<noteq> ''/''"
      "me_type a = me_type c" "entryHash a = entryHash c" "me_size a = me_size c"
      using op by (elim unsortedDiff_cases [OF assms])
        (auto simp: createdDiffEntry_def deletedDiffEntry_def updatedDiffEntry_def split: if_splits)
    then show ?thesis by (simp add: renamedDiffEntry_def manifestView_def)
  qed
  ultimately show ?thesis using t by blast
qed

definition exampleEntry :: "string \<Rightarrow> manifest_entry" where
  "exampleEntry blob = \<lparr>me_type = ''file'', me_mode = 420, me_mtimeMs = 0, me_size = 3, me_blobID = blob, me_inline = [],
     me_target = []\<rparr>"

text \<open>A file moved, another edited: two entries.\<close>

theorem diff_replays_witness:
  "fold applyDiffEntry (diffManifests [(''/a'', exampleEntry ''x''), (''/b'', exampleEntry ''y'')]
       [(''/b'', exampleEntry ''z''), (''/c'', exampleEntry ''x'')])
     (manifestView [(''/a'', exampleEntry ''x''), (''/b'', exampleEntry ''y'')]) ''/a'' = None"
  using diff_replays [of "[(''/a'', exampleEntry ''x''), (''/b'', exampleEntry ''y'')]"
      "[(''/b'', exampleEntry ''z''), (''/c'', exampleEntry ''x'')]"]
  by (simp add: manifestView_def)


lemma summarize_fields:
  "foldl countEntry s es =
     \<lparr>ds_total = ds_total s, ds_created = ds_created s + sum_list (map (\<lambda>d. if de_op d = DiffOpCreate then 1 else 0) es),
      ds_updated = ds_updated s + sum_list (map (\<lambda>d. if de_op d = DiffOpUpdate then 1 else 0) es),
      ds_deleted = ds_deleted s + sum_list (map (\<lambda>d. if de_op d = DiffOpDelete then 1 else 0) es),
      ds_renamed = ds_renamed s + sum_list (map (\<lambda>d. if de_op d = DiffOpRename then 1 else 0) es),
      ds_metadataChanged = ds_metadataChanged s + sum_list (map (\<lambda>d. if de_op d = DiffOpMetadata then 1 else 0) es),
      ds_bytesAdded = ds_bytesAdded s + sum_list (map (\<lambda>d. max 0 (de_deltaBytes d)) es),
      ds_bytesRemoved = ds_bytesRemoved s + sum_list (map (\<lambda>d. max 0 (- de_deltaBytes d)) es)\<rparr>"
proof (induction es arbitrary: s)
  case (Cons d es)
  show ?case unfolding foldl_Cons Cons.IH by (cases "de_op d") (auto simp: countEntry_def max_def)
qed simp

lemma treeSize_sum:
  assumes "distinct (map fst m)" and "finite P" and "\<And>p. p \<noteq> ''/'' \<Longrightarrow> map_of m p \<noteq> None \<Longrightarrow> p \<in> P" and "''/'' \<notin> P"
  shows "treeSize m = (\<Sum>p \<in> P. sizeIn m p)"
proof -
  let ?m = "filter (\<lambda>(p, e). p \<noteq> ''/'') m"
  have d: "distinct (map fst ?m)" using assms(1) by (induction m) auto
  have "treeSize m = sum_list (map (\<lambda>x. sizeIn m (fst x)) ?m)"
    unfolding treeSize_def using assms(1) by (intro arg_cong [of _ _ sum_list] map_cong) (auto simp: sizeIn_def)
  also have "\<dots> = sum_list (map (sizeIn m) (map fst ?m))" by (simp add: comp_def)
  also have "\<dots> = (\<Sum>p \<in> set (map fst ?m). sizeIn m p)" using d by (rule sum_list_distinct_conv_sum_set)
  also have "\<dots> = (\<Sum>p \<in> P. sizeIn m p)"
  proof (rule sum.mono_neutral_left [OF assms(2)])
    show "set (map fst ?m) \<subseteq> P" using assms(3) by (fastforce simp: map_of_eq_None_iff image_iff)
    show "\<forall>p \<in> P - set (map fst ?m). sizeIn m p = 0"
      using assms(4) by (force simp: sizeIn_def map_of_eq_None_iff image_iff split: option.split dest: map_of_SomeD)
  qed
  finally show ?thesis .
qed

lemma missing_sum:
  assumes "distinct (map fst b)" and "distinct (map fst h)"
  shows "int (length (missingFrom b h)) = (\<Sum>p \<in> set (diffPaths b h). if map_of b p = None then 1 else 0)"
proof -
  have "int (length (missingFrom b h)) = int (card (set (map fst (missingFrom b h))))"
    using distinct_card [OF distinct_missingFrom [OF assms(2), of b]] by simp
  also have "set (map fst (missingFrom b h)) = {p \<in> set (diffPaths b h). map_of b p = None}"
    by (auto simp: diffPaths_def missingFrom_def map_of_eq_None_iff image_iff)
  finally show ?thesis by (simp add: sum.If_cases Collect_conj_eq)
qed

text \<open>
  The summary of a diff is exact.  The bytes added less the bytes removed are the difference of
  the sizes of the two trees; creations and renames count the paths that are new, deletions and
  renames those that are gone; and the counts add up to the number of entries.
\<close>

theorem diff_summary_exact:
  assumes "distinct (map fst b)" and "distinct (map fst h)" and "s = summarizeDiffEntries (diffManifests b h)"
  shows "ds_bytesAdded s - ds_bytesRemoved s = treeSize h - treeSize b
    \<and> ds_created s + ds_renamed s = int (length (missingFrom b h))
    \<and> ds_deleted s + ds_renamed s = int (length (missingFrom h b))
    \<and> ds_total s = ds_created s + ds_updated s + ds_deleted s + ds_renamed s + ds_metadataChanged s"
proof -
  let ?es = "diffManifests b h" and ?P = "set (diffPaths b h)"
  let ?n = "\<lambda>k. sum_list (map (\<lambda>d. if de_op d = k then (1::int) else 0) ?es)"
  note P = diffPaths_props(2) [OF assms(1,2)]
  have total: "int (length es) = sum_list (map (\<lambda>d. (if de_op d = DiffOpCreate then 1 else 0)
      + (if de_op d = DiffOpUpdate then 1 else 0) + (if de_op d = DiffOpDelete then 1 else 0)
      + (if de_op d = DiffOpRename then 1 else 0) + (if de_op d = DiffOpMetadata then 1 else 0)) es)" for es
  proof (induction es)
    case (Cons d es)
    then show ?case by (cases "de_op d") auto
  qed simp
  have op: "de_op (renamedDiffEntry p a q c) = DiffOpRename" "de_op (createdDiffEntry p e) = DiffOpCreate"
    "de_op (deletedDiffEntry p e) = DiffOpDelete" "de_op (updatedDiffEntry p a c) \<noteq> DiffOpCreate"
    "de_op (updatedDiffEntry p a c) \<noteq> DiffOpDelete" "de_op (updatedDiffEntry p a c) \<noteq> DiffOpRename"
    "de_deltaBytes (renamedDiffEntry p a q c) = 0" "de_deltaBytes (createdDiffEntry p e) = me_size e"
    "de_deltaBytes (deletedDiffEntry p e) = - me_size e" "de_deltaBytes (updatedDiffEntry p a c) = me_size c - me_size a"
    for p a q c e
    by (simp_all add: renamedDiffEntry_def createdDiffEntry_def deletedDiffEntry_def updatedDiffEntry_def)
  have equiv: "me_size a = me_size c" if "manifestEntryEquivalent a c" for a c
    using that by (simp add: manifestEntryEquivalent_def split: if_splits)
  have "sum_list (map de_deltaBytes ?es) = (\<Sum>p \<in> ?P. sizeIn h p - sizeIn b p)"
  proof (rule diff_sum [OF assms(1,2)])
    show "de_deltaBytes d = sum_list (map (\<lambda>p. sizeIn h p - sizeIn b p) (touched d))" if "d \<in> set (unsortedDiff b h)" for d
      by (rule unsortedDiff_cases [OF assms(1,2) that]) (simp_all add: op sizeIn_def)
    show "sizeIn h p - sizeIn b p = 0" if "rel_option manifestEntryEquivalent (map_of b p) (map_of h p)" for p
      using that by (cases "map_of b p"; cases "map_of h p") (auto simp: sizeIn_def equiv)
  qed
  also have "\<dots> = treeSize h - treeSize b"
  proof -
    have mem: "p \<in> ?P \<longleftrightarrow> p \<noteq> ''/'' \<and> (map_of b p \<noteq> None \<or> map_of h p \<noteq> None)" for p by (simp add: P)
    have "treeSize b = (\<Sum>p \<in> ?P. sizeIn b p)" by (rule treeSize_sum [OF assms(1) finite_set]) (simp_all only: mem simp_thms)
    moreover have "treeSize h = (\<Sum>p \<in> ?P. sizeIn h p)" by (rule treeSize_sum [OF assms(2) finite_set]) (simp_all only: mem simp_thms)
    ultimately show ?thesis by (simp only: sum_subtractf)
  qed
  finally have delta: "sum_list (map de_deltaBytes ?es) = treeSize h - treeSize b" .
  have ends: "(if de_op d = DiffOpCreate then 1 else 0) + (if de_op d = DiffOpRename then 1 else 0) =
       sum_list (map (\<lambda>p. if map_of b p = None \<and> map_of h p \<noteq> None then 1 else (0::int)) (touched d))
    \<and> (if de_op d = DiffOpDelete then 1 else 0) + (if de_op d = DiffOpRename then 1 else 0) =
       sum_list (map (\<lambda>p. if map_of h p = None \<and> map_of b p \<noteq> None then 1 else (0::int)) (touched d))"
    if "d \<in> set (unsortedDiff b h)" for d
    by (rule unsortedDiff_cases [OF assms(1,2) that]) (use op in auto)
  have none: "map_of b p = None \<longleftrightarrow> map_of h p = None" if "rel_option manifestEntryEquivalent (map_of b p) (map_of h p)" for p
    using that by (cases "map_of b p"; cases "map_of h p") auto
  have "?n DiffOpCreate + ?n DiffOpRename = (\<Sum>p \<in> ?P. if map_of b p = None \<and> map_of h p \<noteq> None then 1 else 0)"
    unfolding sum_list_addf [symmetric]
    by (rule diff_sum [OF assms(1,2)], use ends in blast, use none in auto)
  also have "\<dots> = int (length (missingFrom b h))"
    unfolding missing_sum [OF assms(1,2)] by (rule sum.cong) (auto simp: P)
  finally have new: "?n DiffOpCreate + ?n DiffOpRename = int (length (missingFrom b h))" .
  have P': "set (diffPaths h b) = ?P" by (auto simp: P diffPaths_props(2) [OF assms(2,1)])
  have "?n DiffOpDelete + ?n DiffOpRename = (\<Sum>p \<in> ?P. if map_of h p = None \<and> map_of b p \<noteq> None then 1 else 0)"
    unfolding sum_list_addf [symmetric]
    by (rule diff_sum [OF assms(1,2)], use ends in blast, use none in auto)
  also have "\<dots> = int (length (missingFrom h b))"
    unfolding missing_sum [OF assms(2,1)] P' by (rule sum.cong) (auto simp: P)
  finally have gone: "?n DiffOpDelete + ?n DiffOpRename = int (length (missingFrom h b))" .
  have net: "sum_list (map (\<lambda>d. max 0 (de_deltaBytes d)) es) - sum_list (map (\<lambda>d. max 0 (- de_deltaBytes d)) es)
      = sum_list (map de_deltaBytes es)" for es
    by (induction es) (auto simp: max_def)
  show ?thesis
    using net [of ?es] delta new gone total [of ?es] by (simp add: assms(3) summarizeDiffEntries_def summarize_fields sum_list_addf)
qed

theorem diff_summary_exact_witness:
  "ds_bytesAdded (summarizeDiffEntries (diffManifests [] [(''/b'', exampleEntry ''z'')])) -
     ds_bytesRemoved (summarizeDiffEntries (diffManifests [] [(''/b'', exampleEntry ''z'')])) = 3"
  using diff_summary_exact [of "[]" "[(''/b'', exampleEntry ''z'')]", OF _ _ refl]
  by (simp add: treeSize_def exampleEntry_def)

subsection \<open>The diff does not depend on the order of the maps\<close>

lemma sortStrings_sort: "sortStrings xs = sort xs"
proof -
  have "sorted_wrt (\<lambda>x y. \<not> y < x) (sortStrings xs)"
    unfolding sortStrings_def by (rule sorted_sortBy) auto
  then have "sorted (sortStrings xs)" by (rule sorted_wrt_mono_rel [rotated]) simp
  then show ?thesis by (metis sortStrings_simps(2) properties_for_sort)
qed

lemma map_of_mset:
  assumes "mset m = mset m'" and "distinct (map fst m)"
  shows "map_of m = map_of m'"
proof -
  have "distinct (map fst m')" using assms by (metis mset_eq_imp_distinct_iff mset_map)
  with assms show ?thesis by (metis map_of_inject_set mset_eq_setD)
qed

lemma detectRenames_mset:
  assumes "mset D = mset D'" and "mset C = mset C'" and "distinct (map fst D)" and "distinct (map fst C)"
  shows "detectRenames D C = detectRenames D' C'"
proof -
  have by_key: "sortStrings (pathsByKey m k) = sortStrings (pathsByKey m' k)" if "mset m = mset m'" for m m' k
    unfolding sortStrings_sort pathsByKey_def using that
    by (intro properties_for_sort) (simp_all add: mset_filter)
  have empty: "pathsByKey C k = [] \<longleftrightarrow> pathsByKey C' k = []" for k
    using assms(2) by (metis mset_filter mset_map mset_zero_iff pathsByKey_def)
  have keys: "sortStrings (filter Q (remdups (map f D))) = sortStrings (filter Q (remdups (map f D')))" for Q and f :: "path \<times> manifest_entry \<Rightarrow> string"
    unfolding sortStrings_sort using assms(1)
    by (intro sorted_distinct_set_unique) (auto dest: mset_eq_setD)
  show ?thesis
    unfolding detectRenames_def Let_def empty keys by_key [OF assms(1)] by_key [OF assms(2)]
    using map_of_mset [OF assms(1,3)] map_of_mset [OF assms(2,4)] by simp
qed

lemma sorted_diff_unique:
  assumes "mset es = mset es'" and "distinct (map de_path es)"
  shows "sortBy diffLess es = sortBy diffLess es'"
proof -
  let ?k = "\<lambda>d. (de_path d, de_previousPath d)"
  have "sorted (map de_path (sortBy diffLess es))" for es
  proof -
    have "sorted_wrt (\<lambda>a b. \<not> diffLess b a) (sortBy diffLess es)"
      by (rule sorted_sortBy) (auto simp: diffLess_def split: if_splits)
    then have "sorted_wrt (\<lambda>a b. de_path a \<le> de_path b) (sortBy diffLess es)"
      by (rule sorted_wrt_mono_rel [rotated]) (auto simp: diffLess_def split: if_splits)
    then show ?thesis by (simp add: sorted_map)
  qed
  moreover have "inj_on de_path (set (sortBy diffLess es) \<union> set (sortBy diffLess es'))"
    using assms by (auto simp: distinct_map dest: mset_eq_setD)
  moreover have "distinct (map de_path (sortBy diffLess xs))" if "distinct (map de_path xs)" for xs
    using that mset_eq_imp_distinct_iff by (metis mset_map mset_sortBy)
  moreover have "distinct (map de_path es')" using assms mset_eq_imp_distinct_iff by (metis mset_map)
  ultimately show ?thesis
    using assms by (intro map_sorted_distinct_set_unique [of de_path]) (auto dest: mset_eq_setD)
qed

lemma diffManifests_order:
  assumes "distinct (map fst b)" and "distinct (map fst h)" and "mset b = mset b'" and "mset h = mset h'"
  shows "diffManifests b h = diffManifests b' h'"
proof -
  have maps: "map_of b = map_of b'" "map_of h = map_of h'" using assms map_of_mset by auto
  have missing: "mset (missingFrom h b) = mset (missingFrom h' b')" "mset (missingFrom b h) = mset (missingFrom b' h')"
    unfolding missingFrom_def maps using assms(3,4) by (auto simp: mset_filter)
  have renames: "renamesOf b h = renamesOf b' h'" unfolding renamesOf_def
    by (rule detectRenames_mset [OF missing distinct_missingFrom [OF assms(1)] distinct_missingFrom [OF assms(2)]])
  have "mset (diffPaths b h) = mset (diffPaths b' h')"
    unfolding diffPaths_def using assms(3) missing(2) by (simp add: mset_filter)
  then have rest: "mset (restOf b h) = mset (restOf b' h')" unfolding restOf_def renames by (simp add: mset_filter)
  have "mset (unsortedDiff b h) = mset (unsortedDiff b' h')"
  proof -
    have "mset (concat (map f xs)) = (\<Sum>x \<in># mset xs. mset (f x))" for f :: "path \<Rightarrow> diff_entry list" and xs
      by (induction xs) simp_all
    then show ?thesis unfolding unsortedDiff_split renames maps using rest by simp
  qed
  moreover have "distinct (map de_path (unsortedDiff b h))"
  proof -
    have "distinct (map de_path es)" if "distinct (concat (map touched es))" for es
      using that
    proof (induction es)
      case (Cons d es)
      have "de_path e \<in> set (touched e)" for e by (simp add: touched_def)
      then have "de_path d \<notin> de_path ` set es" using Cons.prems by force
      with Cons show ?case by simp
    qed simp
    then show ?thesis using unsortedDiff_distinct [OF assms(1,2)] by simp
  qed
  ultimately show ?thesis unfolding diffManifests_def by (rule sorted_diff_unique)
qed

end
