(* ===== verification/ChangeLog.thy ===== *)
theory ChangeLog
  imports ManifestDiff
begin

text \<open>
  The change log of a workspace (\<open>src/internal/controlplane/changelog.go\<close>): the entries that a save,
  an import or a restore writes, their encoding as stream fields, the session summary and last-writer
  hashes that go with them, and the paged reader.

  A stream is the list of its messages; an id is a pair of a time and a sequence number.  The
  approximate trimming of the stream is not modelled.
\<close>

subsection \<open>Entries\<close>

record change_row = change_entry +
  cr_session :: string
  cr_agent :: string
  cr_user :: string
  cr_label :: string
  cr_agentVersion :: string
  cr_fileID :: string
  cr_versionID :: string
  cr_checkpoint :: string
  cr_source :: string

definition zeroRow :: change_row where
  "zeroRow = \<lparr>ce_op = [], ce_path = [], ce_prevPath = [], ce_size = 0, ce_delta = 0, ce_contentHash = [], ce_prevHash = [],
     ce_mode = 0, cr_session = [], cr_agent = [], cr_user = [], cr_label = [], cr_agentVersion = [], cr_fileID = [],
     cr_versionID = [], cr_checkpoint = [], cr_source = []\<rparr>"

definition createOpFor :: "string \<Rightarrow> string" where
  "createOpFor t = (if t = ''dir'' then ''mkdir'' else if t = ''symlink'' then ''symlink'' else ''put'')"

definition modifyOpFor :: "string \<Rightarrow> string" where
  "modifyOpFor t = (if t = ''dir'' then ''mkdir'' else if t = ''symlink'' then ''symlink'' else ''put'')"

definition deleteOpFor :: "string \<Rightarrow> string" where
  "deleteOpFor t = (if t = ''dir'' then ''rmdir'' else ''delete'')"

definition changeRows :: "change_row \<Rightarrow> path \<Rightarrow> manifest_entry option \<Rightarrow> manifest_entry option \<Rightarrow> change_row list" where
  "changeRows template p prev succ =
     (case (prev, succ) of
        (Some a, None) \<Rightarrow> [template\<lparr>ce_path := p, ce_op := deleteOpFor (me_type a), ce_prevHash := entryHash a,
            ce_delta := - me_size a, ce_mode := me_mode a\<rparr>]
      | (None, Some b) \<Rightarrow> [template\<lparr>ce_path := p, ce_op := createOpFor (me_type b), ce_contentHash := entryHash b,
            ce_size := me_size b, ce_delta := me_size b, ce_mode := me_mode b\<rparr>]
      | (Some a, Some b) \<Rightarrow>
          if manifestEntryEquivalent a b then []
          else [template\<lparr>ce_path := p, ce_prevHash := entryHash a, ce_contentHash := entryHash b, ce_size := me_size b,
                  ce_delta := me_size b - me_size a, ce_mode := me_mode b,
                  ce_op := (if entryContentEquivalent a b then ''chmod'' else modifyOpFor (me_type b))\<rparr>]
      | (None, None) \<Rightarrow> [])"

definition manifestDiff :: "entry_map \<Rightarrow> entry_map \<Rightarrow> change_row \<Rightarrow> change_row list" where
  "manifestDiff parent child template =
     (let ordered = sortStrings (remdups (map fst parent @ map fst child))
      in concat (map (\<lambda>p. if p = ''/'' then [] else changeRows template p (map_of parent p) (map_of child p)) ordered))"

definition manifestSeedEntries :: "entry_map \<Rightarrow> change_row \<Rightarrow> change_row list" where
  "manifestSeedEntries m template = manifestDiff [] m template"

text \<open>The file and version ids of the recorded versions, for the paths that have one.\<close>

definition annotateChangeEntriesWithVersions :: "change_row list \<Rightarrow> (path \<Rightarrow> (string \<times> string) option) \<Rightarrow> change_row list" where
  "annotateChangeEntriesWithVersions es versions =
     map (\<lambda>e. case versions (ce_path e) of None \<Rightarrow> e | Some (f, v) \<Rightarrow> e\<lparr>cr_fileID := f, cr_versionID := v\<rparr>) es"

subsection \<open>Stream fields\<close>

type_synonym field_list = "(string \<times> string) list"

definition optField :: "string \<Rightarrow> string \<Rightarrow> field_list" where
  "optField n v = (if v = [] then [] else [(n, v)])"

definition changeFields :: "int \<Rightarrow> change_row \<Rightarrow> field_list" where
  "changeFields now e =
     [(''op'', ce_op e), (''path'', ce_path e), (''source'', cr_source e), (''ts_ms'', intText now)]
     @ optField ''session_id'' (cr_session e) @ optField ''agent_id'' (cr_agent e) @ optField ''user'' (cr_user e)
     @ optField ''label'' (cr_label e) @ optField ''agent_version'' (cr_agentVersion e)
     @ optField ''prev_path'' (ce_prevPath e)
     @ (if ce_size e \<noteq> 0 then [(''size_bytes'', intText (ce_size e))] else [])
     @ (if ce_delta e \<noteq> 0 then [(''delta_bytes'', intText (ce_delta e))] else [])
     @ optField ''content_hash'' (ce_contentHash e) @ optField ''prev_hash'' (ce_prevHash e)
     @ (if ce_mode e \<noteq> 0 then [(''mode'', natDigits (unat (ce_mode e)))] else [])
     @ optField ''file_id'' (cr_fileID e) @ optField ''version_id'' (cr_versionID e)
     @ optField ''checkpoint_id'' (cr_checkpoint e)"

text \<open>\<open>strconv.ParseInt\<close> with base 10 and 64 bits and \<open>ParseUint\<close> with 32 bits; \<open>None\<close> for an error.\<close>

definition parseIntOk :: "string \<Rightarrow> int option" where
  "parseIntOk s =
     (let neg = (s \<noteq> [] \<and> hd s = CHR ''-'');
          digits = (if s \<noteq> [] \<and> hd s \<in> {CHR ''-'', CHR ''+''} then tl s else s)
      in case natVal digits of
           None \<Rightarrow> None
         | Some n \<Rightarrow> let i = (if neg then - int n else int n) in
                     if - (2 ^ 63) \<le> i \<and> i < 2 ^ 63 then Some i else None)"

definition parseUint32Ok :: "string \<Rightarrow> u32 option" where
  "parseUint32Ok s = (case natVal s of None \<Rightarrow> None | Some n \<Rightarrow> if n < 2 ^ 32 then Some (of_nat n) else None)"

type_synonym stream_id = "nat \<times> nat"

record changelog_row =
  lr_id :: stream_id
  lr_occurred :: "int option"
  lr_entry :: change_row

definition fieldOf :: "field_list \<Rightarrow> string \<Rightarrow> string" where
  "fieldOf fs k = (case map_of fs k of None \<Rightarrow> [] | Some v \<Rightarrow> v)"

definition intField :: "field_list \<Rightarrow> string \<Rightarrow> int" where
  "intField fs k = (if fieldOf fs k = [] then 0 else case parseIntOk (fieldOf fs k) of None \<Rightarrow> 0 | Some n \<Rightarrow> n)"

definition rowFromStreamMessage :: "stream_id \<times> field_list \<Rightarrow> changelog_row" where
  "rowFromStreamMessage msg =
     (let fs = snd msg in
      \<lparr>lr_id = fst msg,
       lr_occurred = (if fieldOf fs ''ts_ms'' = [] then None else parseIntOk (fieldOf fs ''ts_ms'')),
       lr_entry = \<lparr>ce_op = fieldOf fs ''op'', ce_path = fieldOf fs ''path'', ce_prevPath = fieldOf fs ''prev_path'',
         ce_size = intField fs ''size_bytes'', ce_delta = intField fs ''delta_bytes'',
         ce_contentHash = fieldOf fs ''content_hash'', ce_prevHash = fieldOf fs ''prev_hash'',
         ce_mode = (if fieldOf fs ''mode'' = [] then 0 else case parseUint32Ok (fieldOf fs ''mode'') of None \<Rightarrow> 0 | Some n \<Rightarrow> n),
         cr_session = fieldOf fs ''session_id'', cr_agent = fieldOf fs ''agent_id'', cr_user = fieldOf fs ''user'',
         cr_label = fieldOf fs ''label'', cr_agentVersion = fieldOf fs ''agent_version'',
         cr_fileID = fieldOf fs ''file_id'', cr_versionID = fieldOf fs ''version_id'',
         cr_checkpoint = fieldOf fs ''checkpoint_id'', cr_source = fieldOf fs ''source''\<rparr>\<rparr>)"

text \<open>The row of the event stream: trimmed copies of the fields, and an actor.\<close>

definition firstNonEmpty :: "string list \<Rightarrow> string" where
  "firstNonEmpty vs = (case filter (\<lambda>v. v \<noteq> []) (map trimSpace vs) of [] \<Rightarrow> [] | v # _ \<Rightarrow> v)"

definition changeEventFields :: "field_list \<Rightarrow> field_list" where
  "changeEventFields fs =
     [(''ts_ms'', fieldOf fs ''ts_ms''), (''kind'', ''file''), (''op'', fieldOf fs ''op''), (''source'', fieldOf fs ''source'')]
     @ concat (map (\<lambda>k. optField k (trimSpace (fieldOf fs k)))
         [''session_id'', ''agent_id'', ''user'', ''label'', ''agent_version'', ''path'', ''prev_path'', ''size_bytes'',
          ''delta_bytes'', ''content_hash'', ''prev_hash'', ''mode'', ''checkpoint_id''])
     @ [(''actor'', firstNonEmpty [fieldOf fs ''label'', fieldOf fs ''agent_id'', fieldOf fs ''user'',
           fieldOf fs ''session_id'', ''afs''])]"

subsection \<open>Writing\<close>

text \<open>
  Everything a change entry goes to.  The summary hash of a session has integer counters and the time
  of the last operation; the last writer of a path is kept under the path without its leading slash.
\<close>

record change_store =
  cs_stream :: "(stream_id \<times> field_list) list"
  cs_events :: "(stream_id \<times> field_list) list"
  cs_counters :: "string \<Rightarrow> string \<Rightarrow> int"
  cs_lastOp :: "string \<Rightarrow> string option"
  cs_pathLast :: "path \<Rightarrow> (string \<times> string \<times> string \<times> string) option"

text \<open>\<open>XADD\<close> with a generated id: the clock, or the next sequence number when it did not move on.\<close>

definition nextStreamID :: "nat \<Rightarrow> (stream_id \<times> field_list) list \<Rightarrow> stream_id" where
  "nextStreamID now s =
     (if s = [] then (now, if now = 0 then 1 else 0)
      else let (ms, n) = fst (last s) in if ms < now then (now, 0) else (ms, n + 1))"

definition addMessage :: "nat \<Rightarrow> field_list \<Rightarrow> (stream_id \<times> field_list) list \<Rightarrow> (stream_id \<times> field_list) list" where
  "addMessage now fs s = s @ [(nextStreamID now s, fs)]"

definition addCounter :: "string \<Rightarrow> string \<Rightarrow> int \<Rightarrow> change_store \<Rightarrow> change_store" where
  "addCounter s k d st = st\<lparr>cs_counters := (cs_counters st)(s := (cs_counters st s)(k := cs_counters st s k + d))\<rparr>"

definition enqueueChange :: "nat \<Rightarrow> change_store \<Rightarrow> change_row \<Rightarrow> change_store" where
  "enqueueChange now st e =
     (let fs = changeFields (int now) e;
          st1 = st\<lparr>cs_stream := addMessage now fs (cs_stream st)\<rparr>;
          st2 = st1\<lparr>cs_events := addMessage now (changeEventFields fs) (cs_events st1)\<rparr>;
          st3 = (if cr_session e = [] then st2
                 else let a = addCounter (cr_session e) (''op_'' @ ce_op e) 1 st2;
                          b = (if ce_delta e \<noteq> 0 then addCounter (cr_session e) ''delta_bytes'' (ce_delta e) a else a)
                      in b\<lparr>cs_lastOp := (cs_lastOp b)(cr_session e \<mapsto> intText (int now))\<rparr>)
      in st3\<lparr>cs_pathLast := (cs_pathLast st3)(trimPrefix (ce_path e) ''/'' \<mapsto>
               (cr_session e, ce_op e, ce_contentHash e, intText (int now)))\<rparr>)"

definition enqueueChangeEntries :: "nat \<Rightarrow> change_row list \<Rightarrow> change_store \<Rightarrow> change_store" where
  "enqueueChangeEntries now es st = foldl (enqueueChange now) st es"

subsection \<open>Reading\<close>

record list_request =
  lq_session :: string
  lq_path :: path
  lq_since :: "stream_id option"
  lq_until :: "stream_id option"
  lq_limit :: int
  lq_reverse :: bool

definition idLess :: "stream_id \<Rightarrow> stream_id \<Rightarrow> bool" where
  "idLess a b \<longleftrightarrow> fst a < fst b \<or> fst a = fst b \<and> snd a < snd b"

text \<open>\<open>XRANGE\<close> between exclusive bounds.\<close>

definition inRange :: "stream_id option \<Rightarrow> stream_id option \<Rightarrow> stream_id \<Rightarrow> bool" where
  "inRange lo hi i \<longleftrightarrow> (case lo of None \<Rightarrow> True | Some l \<Rightarrow> idLess l i) \<and> (case hi of None \<Rightarrow> True | Some h \<Rightarrow> idLess i h)"

definition ListChangelog :: "(stream_id \<times> field_list) list \<Rightarrow> list_request \<Rightarrow> changelog_row list \<times> stream_id option" where
  "ListChangelog s q =
     (let limit = (if lq_limit q \<le> 0 then 100 else if lq_limit q > 1000 then 1000 else lq_limit q);
          fetch = (if lq_session q \<noteq> [] \<or> lq_path q \<noteq> [] then min (limit * 4) 4000 else limit);
          inside = filter (\<lambda>m. inRange (lq_since q) (lq_until q) (fst m)) s;
          msgs = take (nat fetch) (if lq_reverse q then rev inside else inside);
          rows = take (nat limit)
            (filter (\<lambda>r. (lq_session q = [] \<or> cr_session (lr_entry r) = lq_session q)
                        \<and> (lq_path q = [] \<or> ce_path (lr_entry r) = lq_path q \<or> ce_prevPath (lr_entry r) = lq_path q))
              (map rowFromStreamMessage msgs))
      in (rows, if rows = [] then None else Some (lr_id (last rows))))"

text \<open>A reader that asks for the next page until there is no cursor.\<close>

fun readPages :: "nat \<Rightarrow> (stream_id \<times> field_list) list \<Rightarrow> list_request \<Rightarrow> changelog_row list" where
  "readPages 0 s q = []"
| "readPages (Suc n) s q =
     (case ListChangelog s q of
        (rows, None) \<Rightarrow> rows
      | (rows, Some c) \<Rightarrow> rows @ readPages n s (if lq_reverse q then q\<lparr>lq_until := Some c\<rparr> else q\<lparr>lq_since := Some c\<rparr>))"

subsection \<open>Round trip of an entry\<close>

lemma natDigits_hd_sign: "hd (natDigits n) \<notin> {CHR ''-'', CHR ''+''} \<and> natDigits n \<noteq> []"
proof -
  obtain c s where cs: "natDigits n = c # s" using natDigits_hd [of n] by (cases "natDigits n") auto
  have "natVal (natDigits n) = Some n" by simp
  then have "digitVal c \<noteq> None" by (auto simp: cs natVal_def split: option.splits)
  moreover have "digitVal (CHR ''+'') = None" by (simp add: digitVal_def)
  ultimately show ?thesis using natDigits_hd [of n] by (auto simp: cs)
qed

lemma parseIntOk_intText: "- (2 ^ 63) \<le> i \<Longrightarrow> i < 2 ^ 63 \<Longrightarrow> parseIntOk (intText i) = Some i"
  using natDigits_hd_sign [of "nat i"] by (auto simp: parseIntOk_def intText_def Let_def)

lemma intText_nonempty [simp]: "intText i \<noteq> []"
  using natDigits_hd by (simp add: intText_def)

lemma parseUint32Ok_natDigits: "parseUint32Ok (natDigits (unat (w :: u32))) = Some w"
  using unsigned_less [of w] by (simp add: parseUint32Ok_def)

lemma fieldOf_Cons: "fieldOf ((n, v) # ys) k = (if k = n then v else fieldOf ys k)"
  by (simp add: fieldOf_def)

lemma fieldOf_Nil: "fieldOf [] k = []"
  by (simp add: fieldOf_def)

lemma fieldOf_opt: "fieldOf (optField n v @ ys) k = (if k = n \<and> v \<noteq> [] then v else fieldOf ys k)"
  by (simp add: optField_def fieldOf_def)

lemma fieldOf_opt_last: "fieldOf (optField n v) k = (if k = n then v else [])"
  by (simp add: optField_def fieldOf_def)

lemma fieldOf_if: "fieldOf ((if c then [(n, v)] else []) @ ys) k = (if c \<and> k = n then v else fieldOf ys k)"
  by (simp add: fieldOf_def)

lemmas fieldOf_simps = fieldOf_Cons fieldOf_Nil fieldOf_opt fieldOf_opt_last fieldOf_if

lemma intField_if: "fieldOf fs k = (if i \<noteq> 0 then intText i else []) \<Longrightarrow> - (2 ^ 63) \<le> i \<Longrightarrow> i < 2 ^ 63 \<Longrightarrow> intField fs k = i"
  by (simp add: intField_def parseIntOk_intText split: if_splits)

lemma row_of_fields:
  assumes "- (2 ^ 63) \<le> ce_size e" and "ce_size e < 2 ^ 63" and "- (2 ^ 63) \<le> ce_delta e" and "ce_delta e < 2 ^ 63"
    and "- (2 ^ 63) \<le> now" and "now < 2 ^ 63"
  shows "rowFromStreamMessage (i, changeFields now e) = \<lparr>lr_id = i, lr_occurred = Some now, lr_entry = e\<rparr>"
proof -
  let ?fs = "changeFields now e"
  have vals: "fieldOf ?fs ''op'' = ce_op e" "fieldOf ?fs ''path'' = ce_path e" "fieldOf ?fs ''source'' = cr_source e"
    "fieldOf ?fs ''ts_ms'' = intText now" "fieldOf ?fs ''session_id'' = cr_session e" "fieldOf ?fs ''agent_id'' = cr_agent e"
    "fieldOf ?fs ''user'' = cr_user e" "fieldOf ?fs ''label'' = cr_label e" "fieldOf ?fs ''agent_version'' = cr_agentVersion e"
    "fieldOf ?fs ''prev_path'' = ce_prevPath e" "fieldOf ?fs ''content_hash'' = ce_contentHash e"
    "fieldOf ?fs ''prev_hash'' = ce_prevHash e" "fieldOf ?fs ''file_id'' = cr_fileID e"
    "fieldOf ?fs ''version_id'' = cr_versionID e" "fieldOf ?fs ''checkpoint_id'' = cr_checkpoint e"
    unfolding changeFields_def append_Cons append_Nil fieldOf_simps by simp_all
  have "fieldOf ?fs ''size_bytes'' = (if ce_size e \<noteq> 0 then intText (ce_size e) else [])"
    "fieldOf ?fs ''delta_bytes'' = (if ce_delta e \<noteq> 0 then intText (ce_delta e) else [])"
    and mode: "fieldOf ?fs ''mode'' = (if ce_mode e \<noteq> 0 then natDigits (unat (ce_mode e)) else [])"
    unfolding changeFields_def append_Cons append_Nil fieldOf_simps by simp_all
  then have ints: "intField ?fs ''size_bytes'' = ce_size e" "intField ?fs ''delta_bytes'' = ce_delta e"
    using assms by (simp_all only: intField_if)
  show ?thesis
    using natDigits_hd [of "unat (ce_mode e)"]
    by (simp add: rowFromStreamMessage_def vals ints mode parseIntOk_intText [OF assms(5,6)] parseUint32Ok_natDigits)
qed

text \<open>
  A change log row reads back what was written.  For every entry whose sizes fit into 64 bits the
  decoded message is the entry, empty and zero fields included, with the time it was written.
\<close>

theorem change_row_round_trip:
  assumes "- (2 ^ 63) \<le> ce_size e" and "ce_size e < 2 ^ 63" and "- (2 ^ 63) \<le> ce_delta e" and "ce_delta e < 2 ^ 63"
    and "- (2 ^ 63) \<le> now" and "now < 2 ^ 63"
  shows "rowFromStreamMessage (i, changeFields now e) = \<lparr>lr_id = i, lr_occurred = Some now, lr_entry = e\<rparr>"
  using assms by (rule row_of_fields)

theorem change_row_round_trip_witness:
  "rowFromStreamMessage ((1, 0), changeFields 7 (zeroRow\<lparr>ce_op := ''put'', ce_path := ''/a'', ce_size := 3, ce_delta := - 2\<rparr>))
     = \<lparr>lr_id = (1, 0), lr_occurred = Some 7,
        lr_entry = zeroRow\<lparr>ce_op := ''put'', ce_path := ''/a'', ce_size := 3, ce_delta := - 2\<rparr>\<rparr>"
  by (rule change_row_round_trip) simp_all

subsection \<open>Paging\<close>

lemma idLess_trans: "idLess a b \<Longrightarrow> idLess b c \<Longrightarrow> idLess a c"
  by (auto simp: idLess_def)

lemma idLess_asym: "idLess a b \<Longrightarrow> \<not> idLess b a"
  by (auto simp: idLess_def)

definition increasing :: "(stream_id \<times> field_list) list \<Rightarrow> bool" where
  "increasing s \<longleftrightarrow> sorted_wrt (\<lambda>a b. idLess (fst a) (fst b)) s"

text \<open>New messages keep the ids of a stream increasing.\<close>

lemma addMessage_increasing:
  assumes "increasing s"
  shows "increasing (addMessage now fs s)"
proof (cases "s = []")
  case False
  have "idLess (fst m) (nextStreamID now s)" if "m \<in> set s" for m
  proof -
    obtain zs z where s: "s = zs @ [z]" using False by (metis rev_exhaust)
    then have "m = last s \<or> idLess (fst m) (fst (last s))"
      using that assms by (auto simp: increasing_def sorted_wrt_append)
    moreover have "idLess (fst (last s)) (nextStreamID now s)"
      using False by (auto simp: nextStreamID_def idLess_def split: prod.split)
    ultimately show ?thesis using idLess_trans by metis
  qed
  with assms show ?thesis by (simp add: increasing_def addMessage_def sorted_wrt_append)
qed (simp add: increasing_def addMessage_def)

definition limitOf :: "list_request \<Rightarrow> int" where
  "limitOf q = (if lq_limit q \<le> 0 then 100 else if lq_limit q > 1000 then 1000 else lq_limit q)"

definition insideOf :: "(stream_id \<times> field_list) list \<Rightarrow> list_request \<Rightarrow> (stream_id \<times> field_list) list" where
  "insideOf s q = (let inside = filter (\<lambda>m. inRange (lq_since q) (lq_until q) (fst m)) s
     in if lq_reverse q then rev inside else inside)"

lemma rowFromStreamMessage_id [simp]: "lr_id (rowFromStreamMessage m) = fst m"
  by (simp add: rowFromStreamMessage_def Let_def)

lemma ListChangelog_plain:
  assumes "lq_session q = []" and "lq_path q = []"
  shows "ListChangelog s q =
    (let rows = map rowFromStreamMessage (take (nat (limitOf q)) (insideOf s q))
     in (rows, if rows = [] then None else Some (lr_id (last rows))))"
  using assms by (simp add: ListChangelog_def limitOf_def [symmetric] insideOf_def Let_def)

text \<open>What is left after a page is what follows the cursor.\<close>

lemma filter_after:
  assumes "sorted_wrt R (xs @ ys)" and "xs \<noteq> []" and "\<And>a b. R a b \<Longrightarrow> \<not> R b a"
    and Q: "\<And>x. x \<in> set (xs @ ys) \<Longrightarrow> Q x \<longleftrightarrow> R (last xs) x"
  shows "filter Q (xs @ ys) = ys"
proof -
  have "\<not> R (last xs) x" if "x \<in> set xs" for x
  proof -
    from assms(2) obtain zs z where xs: "xs = zs @ [z]" by (metis rev_exhaust)
    then have "x = z \<or> R x z" using that assms(1) by (auto simp: sorted_wrt_append)
    then show ?thesis using assms(3) by (auto simp: xs)
  qed
  moreover have "R (last xs) y" if "y \<in> set ys" for y
    using that assms(1,2) last_in_set by (auto simp: sorted_wrt_append)
  ultimately have "filter Q xs = []" "filter Q ys = ys" using Q by (auto simp: filter_empty_conv filter_id_conv)
  then show ?thesis by simp
qed

definition nextPage :: "list_request \<Rightarrow> stream_id \<Rightarrow> list_request" where
  "nextPage q c = (if lq_reverse q then q\<lparr>lq_until := Some c\<rparr> else q\<lparr>lq_since := Some c\<rparr>)"

lemma insideOf_next:
  assumes "increasing s" and "insideOf s q = xs @ ys" and "xs \<noteq> []"
  shows "insideOf s (nextPage q (fst (last xs))) = ys"
proof -
  let ?in = "filter (\<lambda>m. inRange (lq_since q) (lq_until q) (fst m)) s"
  have sorted: "sorted_wrt (\<lambda>a b. idLess (fst a) (fst b)) ?in"
    using assms(1) by (simp add: increasing_def sorted_wrt_filter)
  have last_in: "inRange (lq_since q) (lq_until q) (fst (last xs))"
  proof -
    have "last xs \<in> set (insideOf s q)" using last_in_set [OF assms(3)] by (simp add: assms(2))
    then show ?thesis by (auto simp: insideOf_def Let_def split: if_splits)
  qed
  show ?thesis
  proof (cases "lq_reverse q")
    case False
    then have i: "?in = xs @ ys" using assms(2) by (simp add: insideOf_def)
    have "insideOf s (nextPage q (fst (last xs))) = filter (\<lambda>m. inRange (Some (fst (last xs))) (lq_until q) (fst m)) s"
      using False by (simp add: insideOf_def nextPage_def)
    also have "\<dots> = filter (\<lambda>m. idLess (fst (last xs)) (fst m)) ?in"
      using last_in by (auto simp: inRange_def intro!: filter_cong dest: idLess_trans split: option.splits)
    also have "\<dots> = ys"
      unfolding i by (rule filter_after [where R = "\<lambda>a b. idLess (fst a) (fst b)"]) (use sorted i assms(3) idLess_asym in auto)
    finally show ?thesis .
  next
    case True
    then have i: "rev ?in = xs @ ys" using assms(2) by (simp add: insideOf_def)
    have "insideOf s (nextPage q (fst (last xs))) = rev (filter (\<lambda>m. inRange (lq_since q) (Some (fst (last xs))) (fst m)) s)"
      using True by (simp add: insideOf_def nextPage_def)
    also have "filter (\<lambda>m. inRange (lq_since q) (Some (fst (last xs))) (fst m)) s = filter (\<lambda>m. idLess (fst m) (fst (last xs))) ?in"
      using last_in by (auto simp: inRange_def intro!: filter_cong dest: idLess_trans split: option.splits)
    also have "rev \<dots> = filter (\<lambda>m. idLess (fst m) (fst (last xs))) (xs @ ys)" by (simp add: rev_filter i [symmetric])
    also have "\<dots> = ys"
    proof (rule filter_after [where R = "\<lambda>a b. idLess (fst b) (fst a)"])
      show "sorted_wrt (\<lambda>a b. idLess (fst b) (fst a)) (xs @ ys)" using sorted by (simp add: i [symmetric] sorted_wrt_rev)
    qed (use assms(3) idLess_asym in auto)
    finally show ?thesis .
  qed
qed

lemma readPages_inside:
  assumes "increasing s" and "lq_session q = []" and "lq_path q = []" and "length (insideOf s q) < n"
  shows "readPages n s q = map rowFromStreamMessage (insideOf s q)"
  using assms(2-)
proof (induction n arbitrary: q)
  case (Suc n)
  define xs where "xs = take (nat (limitOf q)) (insideOf s q)"
  define ys where "ys = drop (nat (limitOf q)) (insideOf s q)"
  have split: "insideOf s q = xs @ ys" by (simp add: xs_def ys_def)
  have page: "ListChangelog s q =
      (map rowFromStreamMessage xs, if xs = [] then None else Some (fst (last xs)))"
    using ListChangelog_plain [OF Suc.prems(1,2), of s] by (simp add: xs_def Let_def last_map)
  show ?case
  proof (cases "xs = []")
    case True
    have "0 < nat (limitOf q)" by (simp add: limitOf_def)
    with True have "insideOf s q = []" by (auto simp: xs_def)
    then show ?thesis by (simp add: page True)
  next
    case False
    have rest: "insideOf s (nextPage q (fst (last xs))) = ys" by (rule insideOf_next [OF assms(1) split False])
    have "readPages n s (nextPage q (fst (last xs))) = map rowFromStreamMessage ys"
    proof -
      have "lq_session (nextPage q (fst (last xs))) = []" "lq_path (nextPage q (fst (last xs))) = []"
        using Suc.prems(1,2) by (simp_all add: nextPage_def)
      moreover have "length (insideOf s (nextPage q (fst (last xs)))) < n"
        unfolding rest using Suc.prems(3) False by (cases xs) (simp_all add: split)
      ultimately show ?thesis using Suc.IH by (simp add: rest)
    qed
    then show ?thesis using False by (simp add: page split nextPage_def)
  qed
qed simp

text \<open>
  C27: Paging through the change log shows every entry once.  A reader without filters that follows the
  cursors, in either direction, gets exactly the entries between its bounds, in order, after at most
  one page for each entry and an empty one.
\<close>

theorem changelog_paging_complete:
  assumes "increasing s" and "lq_session q = []" and "lq_path q = []" and "length s < n"
  shows "readPages n s q =
    (let inside = filter (\<lambda>m. inRange (lq_since q) (lq_until q) (fst m)) s
     in map rowFromStreamMessage (if lq_reverse q then rev inside else inside))"
proof -
  have "length (insideOf s q) < n"
    using assms(4) le_less_trans [OF length_filter_le [of "\<lambda>m. inRange (lq_since q) (lq_until q) (fst m)" s]]
    by (simp add: insideOf_def Let_def)
  from readPages_inside [OF assms(1-3) this] show ?thesis by (simp add: insideOf_def Let_def)
qed

definition exampleStream :: "(stream_id \<times> field_list) list" where
  "exampleStream = map (\<lambda>k. ((k, 0), changeFields (int k) (zeroRow\<lparr>ce_op := ''put'', ce_path := ''/a'',
     cr_session := (if k < 5 then ''s'' else ''t'')\<rparr>))) [1, 2, 3, 4, 5]"

definition exampleRequest :: list_request where
  "exampleRequest = \<lparr>lq_session = [], lq_path = [], lq_since = None, lq_until = None, lq_limit = 1, lq_reverse = True\<rparr>"

theorem changelog_paging_complete_witness:
  "map lr_id (readPages 6 exampleStream exampleRequest) = [(5, 0), (4, 0), (3, 0), (2, 0), (1, 0)]"
proof -
  have "increasing exampleStream" by (simp add: increasing_def exampleStream_def idLess_def)
  from changelog_paging_complete [OF this, of exampleRequest 6] show ?thesis
    by (simp add: exampleRequest_def exampleStream_def inRange_def)
qed

text \<open>
  With a filter it does not: a page looks at four times the limit of messages, and when none of them
  matches it is empty and has no cursor, whatever comes after.
\<close>

lemma filtered_page_stops_early:
  "ListChangelog exampleStream (exampleRequest\<lparr>lq_session := ''t'', lq_reverse := False\<rparr>) = ([], None)"
  "cr_session (lr_entry (rowFromStreamMessage (last exampleStream))) = ''t''"
  by (simp_all add: ListChangelog_def exampleStream_def exampleRequest_def inRange_def Let_def
      row_of_fields zeroRow_def)

subsection \<open>The rows of a save\<close>

lemma manifestDiff_paths:
  "map ce_path (manifestDiff b h t) =
     filter (\<lambda>p. p \<noteq> ''/'' \<and> \<not> rel_option manifestEntryEquivalent (map_of b p) (map_of h p))
       (sortStrings (remdups (map fst b @ map fst h)))"
proof -
  have row: "map ce_path (changeRows t p x y) = (if rel_option manifestEntryEquivalent x y then [] else [p])" for p x y
    by (cases x; cases y) (auto simp: changeRows_def)
  have "map ce_path (concat (map (\<lambda>p. if p = ''/'' then [] else changeRows t p (f p) (g p)) ps)) =
      filter (\<lambda>p. p \<noteq> ''/'' \<and> \<not> rel_option manifestEntryEquivalent (f p) (g p)) ps" for f g and ps :: "path list"
  proof (induction ps)
    case (Cons p ps)
    then show ?case using row [of p "f p" "g p"] by (cases "rel_option manifestEntryEquivalent (f p) (g p)") simp_all
  qed simp
  then show ?thesis by (simp add: manifestDiff_def Let_def)
qed

lemma manifestDiff_member: "r \<in> set (manifestDiff b h t) \<Longrightarrow> \<exists>p x y. r \<in> set (changeRows t p x y)"
  by (auto simp: manifestDiff_def Let_def split: if_splits)

lemma manifestDiff_session: "r \<in> set (manifestDiff b h t) \<Longrightarrow> cr_session r = cr_session t"
proof -
  have "r \<in> set (changeRows t p x y) \<Longrightarrow> cr_session r = cr_session t" for p x y
    by (cases x; cases y) (auto simp: changeRows_def split: if_splits)
  then show "r \<in> set (manifestDiff b h t) \<Longrightarrow> cr_session r = cr_session t" using manifestDiff_member by blast
qed

lemma manifestDiff_delta:
  assumes "distinct (map fst b)" and "distinct (map fst h)"
  shows "sum_list (map ce_delta (manifestDiff b h t)) = treeSize h - treeSize b"
proof -
  let ?ps = "filter (\<lambda>p. p \<noteq> ''/'') (sortStrings (remdups (map fst b @ map fst h)))"
  have row: "sum_list (map ce_delta (changeRows t p (map_of b p) (map_of h p))) = sizeIn h p - sizeIn b p" for p
    by (cases "map_of b p"; cases "map_of h p")
      (auto simp: changeRows_def sizeIn_def manifestEntryEquivalent_def split: if_splits)
  have "sum_list (map ce_delta (concat (map (\<lambda>p. if p = ''/'' then [] else changeRows t p (map_of b p) (map_of h p)) ps))) =
      sum_list (map (\<lambda>p. sizeIn h p - sizeIn b p) (filter (\<lambda>p. p \<noteq> ''/'') ps))" for ps
    by (induction ps) (auto simp: row)
  then have "sum_list (map ce_delta (manifestDiff b h t)) = sum_list (map (\<lambda>p. sizeIn h p - sizeIn b p) ?ps)"
    by (simp add: manifestDiff_def Let_def)
  also have "\<dots> = (\<Sum>p \<in> set ?ps. sizeIn h p - sizeIn b p)" by (rule sum_list_distinct_conv_sum_set) simp
  also have "\<dots> = treeSize h - treeSize b"
  proof -
    have "treeSize b = (\<Sum>p \<in> set ?ps. sizeIn b p)" by (rule treeSize_sum [OF assms(1)]) (force dest: map_of_SomeD)+
    moreover have "treeSize h = (\<Sum>p \<in> set ?ps. sizeIn h p)" by (rule treeSize_sum [OF assms(2)]) (force dest: map_of_SomeD)+
    ultimately show ?thesis by (simp only: sum_subtractf)
  qed
  finally show ?thesis .
qed

lemma enqueueChange_delta:
  "cr_session e \<noteq> [] \<Longrightarrow> s = cr_session e \<Longrightarrow>
     cs_counters (enqueueChange now st e) s ''delta_bytes'' = cs_counters st s ''delta_bytes'' + ce_delta e"
  by (simp add: enqueueChange_def addCounter_def Let_def)

lemma enqueueChange_stream:
  "\<exists>i. cs_stream (enqueueChange now st e) = cs_stream st @ [(i, changeFields (int now) e)]"
  "increasing (cs_stream st) \<Longrightarrow> increasing (cs_stream (enqueueChange now st e))"
  using addMessage_increasing [of "cs_stream st"]
  by (simp_all add: enqueueChange_def addCounter_def addMessage_def Let_def)

lemma enqueueChangeEntries_stream:
  "\<exists>ms. cs_stream (enqueueChangeEntries now es st) = cs_stream st @ ms \<and> map snd ms = map (changeFields (int now)) es"
  "increasing (cs_stream st) \<Longrightarrow> increasing (cs_stream (enqueueChangeEntries now es st))"
proof (induction es arbitrary: st)
  case (Cons e es)
  {
    case 1
    from enqueueChange_stream(1) [of now st e] Cons.IH(1) [of "enqueueChange now st e"]
    show ?case by (auto simp: enqueueChangeEntries_def)
  next
    case 2
    then show ?case using Cons.IH(2) [of "enqueueChange now st e"] enqueueChange_stream(2) by (simp add: enqueueChangeEntries_def)
  }
qed (simp_all add: enqueueChangeEntries_def)

lemma enqueueChangeEntries_delta:
  assumes "s \<noteq> []" and "\<forall>e \<in> set es. cr_session e = s"
  shows "cs_counters (enqueueChangeEntries now es st) s ''delta_bytes'' =
    cs_counters st s ''delta_bytes'' + sum_list (map ce_delta es)"
  using assms(2)
proof (induction es arbitrary: st)
  case (Cons e es)
  have "cs_counters (enqueueChange now st e) s ''delta_bytes'' = cs_counters st s ''delta_bytes'' + ce_delta e"
    using Cons.prems assms(1) by (intro enqueueChange_delta) auto
  with Cons show ?case by (simp add: enqueueChangeEntries_def)
qed (simp add: enqueueChangeEntries_def)

text \<open>
  C26: The change log of a save is exact.  It has one row for each path whose entry changed, in path
  order; these are the paths that the diff of the two manifests names; the rows are appended with
  increasing ids; and the byte counter of the session moves by the difference of the tree sizes.
\<close>

theorem change_log_exact:
  assumes "distinct (map fst b)" and "distinct (map fst h)" and "cr_session t \<noteq> []" and "increasing (cs_stream st)"
    and "rows = manifestDiff b h t" and "st' = enqueueChangeEntries now rows st"
  shows "sorted (map ce_path rows) \<and> distinct (map ce_path rows)
    \<and> set (map ce_path rows) = set (concat (map touched (diffManifests b h)))
    \<and> (\<exists>ms. cs_stream st' = cs_stream st @ ms \<and> map snd ms = map (changeFields (int now)) rows) \<and> increasing (cs_stream st')
    \<and> cs_counters st' (cr_session t) ''delta_bytes'' = cs_counters st (cr_session t) ''delta_bytes'' + treeSize h - treeSize b"
proof -
  have cover: "p \<in> set (map fst b @ map fst h)" if "\<not> rel_option manifestEntryEquivalent (map_of b p) (map_of h p)" for p
  proof (rule ccontr)
    assume "p \<notin> set (map fst b @ map fst h)"
    then have "map_of b p = None" "map_of h p = None" by (simp_all add: map_of_eq_None_iff)
    with that show False by simp
  qed
  have "sorted (map ce_path rows)" "distinct (map ce_path rows)"
    unfolding assms(5) manifestDiff_paths by (simp_all add: sortStrings_sort sorted_filter [of id, simplified])
  moreover have "set (map ce_path rows) = set (concat (map touched (diffManifests b h)))"
    unfolding assms(5) manifestDiff_paths diffManifests_touches(2) [OF assms(1,2)]
    using cover by auto
  moreover have "cs_counters st' (cr_session t) ''delta_bytes'' =
      cs_counters st (cr_session t) ''delta_bytes'' + (treeSize h - treeSize b)"
    unfolding assms(5,6) manifestDiff_delta [OF assms(1,2), symmetric, of t]
    using assms(3) manifestDiff_session by (intro enqueueChangeEntries_delta) auto
  ultimately show ?thesis using enqueueChangeEntries_stream [where now = now and es = rows and st = st] assms(4) by (simp add: assms(6))
qed

theorem change_log_exact_witness:
  "\<exists>st. cs_counters (enqueueChangeEntries 5 (manifestDiff [] [(''/b'', exampleEntry ''z'')] (zeroRow\<lparr>cr_session := ''s''\<rparr>)) st)
     ''s'' ''delta_bytes'' = 3"
proof
  let ?st = "\<lparr>cs_stream = [], cs_events = [], cs_counters = \<lambda>_ _. 0, cs_lastOp = Map.empty, cs_pathLast = Map.empty\<rparr>"
  show "cs_counters (enqueueChangeEntries 5 (manifestDiff [] [(''/b'', exampleEntry ''z'')] (zeroRow\<lparr>cr_session := ''s''\<rparr>)) ?st)
     ''s'' ''delta_bytes'' = 3"
    using change_log_exact [of "[]" "[(''/b'', exampleEntry ''z'')]" "zeroRow\<lparr>cr_session := ''s''\<rparr>" ?st, OF _ _ _ _ refl refl, of 5]
    by (simp add: increasing_def treeSize_def exampleEntry_def)
qed

text \<open>A path with surrounding white space is another path in the event stream.\<close>

lemma event_path_trimmed:
  "fieldOf (changeEventFields (changeFields 0 (zeroRow\<lparr>ce_path := ''/a ''\<rparr>))) ''path'' = ''/a''"
  by code_simp

end
