(* ===== verification/WorkspaceRoot.thy ===== *)
theory WorkspaceRoot
  imports ManifestDiff TreeInvariant
begin

text \<open>
  The live root of a workspace and the manifests it is written from and read back into
  (\<open>src/internal/controlplane/workspace_root.go\<close>, \<open>workspace_root_manifest.go\<close>).  The root lives under
  the keys that the native client uses, so the store is the one of \<open>Publication\<close>.

  The blob store, the content backend, the search fields of a file and the hash of a blob are
  parameters.  The paths of a manifest come in the order in which its map is visited.
\<close>

subsection \<open>Paths of a manifest\<close>

definition workspaceFSNormalizePath :: "path \<Rightarrow> path" where
  "workspaceFSNormalizePath p =
     (if p = [] then ''/'' else cleanRooted (if hasPrefix p ''/'' then p else CHR ''/'' # p))"

definition workspaceFSParentPath :: "path \<Rightarrow> path" where
  "workspaceFSParentPath p =
     (let q = workspaceFSNormalizePath p in if q = ''/'' then ''/'' else dirOf q)"

definition workspaceFSPathDepth :: "path \<Rightarrow> nat" where
  "workspaceFSPathDepth p =
     (let q = workspaceFSNormalizePath p in if q = ''/'' then 0 else countByte CHR ''/'' (trimPrefix q ''/'') + 1)"

definition workspaceFSIndexedPathAncestors :: "path \<Rightarrow> string" where
  "workspaceFSIndexedPathAncestors p =
     (let t = trimSpace (workspaceFSNormalizePath p) in
      if t = [] \<or> t = ''/'' then ''/''
      else let parts = filter (\<lambda>x. x \<noteq> []) (splitByte CHR ''/'' (trimPrefix (trimSuffix t ''/'') ''/''));
               ancestors = map (\<lambda>n. concat (map (\<lambda>x. CHR ''/'' # x) (take (Suc n) parts))) [0..<length parts]
           in if ancestors = [] then ''/'' else joinStr '','' ancestors)"

definition manifestEntryModeForWorkspaceFS :: "manifest_entry \<Rightarrow> u32" where
  "manifestEntryModeForWorkspaceFS e =
     (if me_mode e \<noteq> 0 then me_mode e
      else if me_type e = ''dir'' then 493 else if me_type e = ''symlink'' then 511 else 420)"

definition defaultDir :: manifest_entry where
  "defaultDir = \<lparr>me_type = ''dir'', me_mode = 493, me_mtimeMs = 0, me_size = 0, me_blobID = [], me_inline = [], me_target = []\<rparr>"

text \<open>The parents of a path up to the root, nearest first, the root not included.\<close>

definition parentChain :: "path \<Rightarrow> path list" where
  "parentChain p =
     (let cs = splitComponents (workspaceFSNormalizePath p) in map (\<lambda>k. pathOf (take k cs)) (rev [1..<length cs]))"

definition addMissing :: "path \<Rightarrow> entry_map \<Rightarrow> entry_map" where
  "addMissing q es = (if map_of es q \<noteq> None then es else AList.update q defaultDir es)"

definition workspaceFSManifestEntries :: "entry_map \<Rightarrow> entry_map" where
  "workspaceFSManifestEntries m =
     (let es0 = fold (\<lambda>(p, e). AList.update (workspaceFSNormalizePath p) e) m [];
          root0 = (case map_of es0 ''/'' of Some e \<Rightarrow> e | None \<Rightarrow> defaultDir);
          root1 = root0\<lparr>me_type := ''dir''\<rparr>;
          root = root1\<lparr>me_mode := manifestEntryModeForWorkspaceFS root1\<rparr>;
          es1 = AList.update ''/'' root es0
      in fold (\<lambda>p. fold addMissing (parentChain p)) (map fst es1) es1)"

definition pathLess :: "path \<Rightarrow> path \<Rightarrow> bool" where
  "pathLess a b = (if workspaceFSPathDepth a = workspaceFSPathDepth b then a < b
     else workspaceFSPathDepth a < workspaceFSPathDepth b)"

definition workspaceFSOrderedPaths :: "entry_map \<Rightarrow> path list" where
  "workspaceFSOrderedPaths es = sortBy pathLess (map fst es)"

subsection \<open>Nodes\<close>

record fs_node =
  fn_id :: string
  fn_path :: path
  fn_parentID :: string
  fn_name :: string
  fn_entry :: manifest_entry

fun placeNodes :: "entry_map \<Rightarrow> nat \<Rightarrow> (path \<times> string) list \<Rightarrow> path list \<Rightarrow> string + fs_node list" where
  "placeNodes es n ids [] = Inr []"
| "placeNodes es n ids (p # ps) =
     (if p = ''/'' then placeNodes es n ids ps
      else case map_of es (workspaceFSParentPath p) of
        None \<Rightarrow> Inl ''missing parent''
      | Some parent \<Rightarrow>
          if me_type parent \<noteq> ''dir'' then Inl ''non-directory parent''
          else (case map_of ids (workspaceFSParentPath p) of
            None \<Rightarrow> Inl ''missing parent inode''
          | Some pid \<Rightarrow>
              (let i = natDigits (n + 1) in
               case placeNodes es (n + 1) ((p, i) # ids) ps of
                 Inl e \<Rightarrow> Inl e
               | Inr ns \<Rightarrow> Inr (\<lparr>fn_id = i, fn_path = p, fn_parentID = pid, fn_name = pathBase p,
                                 fn_entry = the (map_of es p)\<rparr> # ns))))"

definition buildWorkspaceFSNodes :: "entry_map \<Rightarrow> string + fs_node list" where
  "buildWorkspaceFSNodes m =
     (let es = workspaceFSManifestEntries m; root = the (map_of es ''/'') in
      if me_type root \<noteq> ''dir'' then Inl ''workspace root must be a directory''
      else case placeNodes es 1 [(''/'', ''1'')] (workspaceFSOrderedPaths es) of
             Inl e \<Rightarrow> Inl e
           | Inr ns \<Rightarrow> Inr (\<lparr>fn_id = ''1'', fn_path = ''/'', fn_parentID = [], fn_name = [], fn_entry = root\<rparr> # ns))"

subsection \<open>Writing the root\<close>

record root_env =
  re_blobs :: "string \<Rightarrow> bytes option"
  re_contentRef :: string
  re_searchFields :: "bytes \<Rightarrow> string \<times> string"
  re_stale :: "(string \<times> string) list"

definition workspaceFSNodeFields :: "root_env \<Rightarrow> fs_node \<Rightarrow> string + ((string \<times> string) list \<times> bytes \<times> int)" where
  "workspaceFSNodeFields env nd =
     (let e = fn_entry nd; ms = intText (me_mtimeMs e);
          base = [(''type'', me_type e), (''mode'', natDigits (unat (manifestEntryModeForWorkspaceFS e))), (''uid'', ''0''),
            (''gid'', ''0''), (''ctime_ms'', ms), (''mtime_ms'', ms), (''atime_ms'', ms), (''parent'', fn_parentID nd),
            (''name'', fn_name nd), (''path'', fn_path nd), (''path_ancestors'', workspaceFSIndexedPathAncestors (fn_path nd))]
      in if me_type e = ''dir'' then Inr (base @ [(''size'', ''0'')], [], 0)
         else if me_type e = ''file''
         then (case manifestEntryData (re_blobs env) e of
                 None \<Rightarrow> Inl ''content unavailable''
               | Some data \<Rightarrow>
                   Inr (base @ [(''size'', intText (int (length data))), (''content_ref'', re_contentRef env),
                          (''search_state'', fst (re_searchFields env data)), (''grep_grams_ci'', snd (re_searchFields env data))],
                        data, int (length data)))
         else if me_type e = ''symlink''
         then let sz = (if me_size e = 0 \<and> me_target e \<noteq> [] then int (length (me_target e)) else me_size e)
              in Inr (base @ [(''size'', intText sz), (''target'', me_target e)], [], 0)
         else Inl ''unsupported manifest entry type'')"

definition contentCmds :: "root_env \<Rightarrow> string \<Rightarrow> bytes \<Rightarrow> rcmd list" where
  "contentCmds env i content =
     queueWriteFull (KContent i) (re_contentRef env) content
     @ (if trimSpace i = [] then [] else [CmdMarkDirty (trimSpace i) (re_stale env)])"

definition nodeCmds :: "root_env \<Rightarrow> fs_node \<Rightarrow> (string \<times> string) list \<Rightarrow> bytes \<Rightarrow> rcmd list" where
  "nodeCmds env nd fvs content =
     (if me_type (fn_entry nd) = ''file'' then contentCmds env (fn_id nd) content else [])
     @ [CmdHSet (KInode (fn_id nd)) fvs]
     @ (if fn_parentID nd \<noteq> [] then [CmdHSet (KDirents (fn_parentID nd)) [(fn_name nd, fn_id nd)]] else [])"

definition workspaceFSNodeWeight :: "fs_node \<Rightarrow> int \<Rightarrow> int" where
  "workspaceFSNodeWeight nd sz =
     (let weight = int (length (fn_path nd) + length (fn_name nd) + 256) in
      if me_type (fn_entry nd) = ''file'' then weight + sz
      else if me_type (fn_entry nd) = ''symlink'' then weight + int (length (me_target (fn_entry nd))) else weight)"

text \<open>The batches: what was flushed, and what is queued, with its number of entries and its weight.\<close>

record batch_state =
  ba_flushed :: "rcmd list list"
  ba_writes :: "rcmd list"
  ba_entries :: nat
  ba_bytes :: int

definition flushBatch :: "batch_state \<Rightarrow> batch_state" where
  "flushBatch b =
     (if ba_entries b = 0 then b
      else \<lparr>ba_flushed = ba_flushed b @ [ba_writes b], ba_writes = [], ba_entries = 0, ba_bytes = 0\<rparr>)"

definition queueCapacity :: "int \<Rightarrow> batch_state \<Rightarrow> batch_state" where
  "queueCapacity weight b0 =
     (let b = (if ba_entries b0 \<ge> 128 \<or> (ba_bytes b0 > 0 \<and> ba_bytes b0 + weight > 4 * 2 ^ 20) then flushBatch b0 else b0)
      in b\<lparr>ba_entries := ba_entries b + 1, ba_bytes := ba_bytes b + weight\<rparr>)"

record node_totals =
  nt_files :: int
  nt_dirs :: int
  nt_symlinks :: int
  nt_bytes :: int

definition countNode :: "string \<Rightarrow> int \<Rightarrow> node_totals \<Rightarrow> node_totals" where
  "countNode kind sz t =
     (if kind = ''file'' then t\<lparr>nt_files := nt_files t + 1, nt_bytes := nt_bytes t + sz\<rparr>
      else if kind = ''dir'' then t\<lparr>nt_dirs := nt_dirs t + 1\<rparr>
      else if kind = ''symlink'' then t\<lparr>nt_symlinks := nt_symlinks t + 1\<rparr> else t)"

fun writeNodes :: "root_env \<Rightarrow> fs_node list \<Rightarrow> node_totals \<Rightarrow> batch_state \<Rightarrow> (string + node_totals) \<times> batch_state" where
  "writeNodes env [] t b = (Inr t, b)"
| "writeNodes env (nd # nds) t b =
     (case workspaceFSNodeFields env nd of
        Inl e \<Rightarrow> (Inl e, b)
      | Inr (fvs, content, sz) \<Rightarrow>
          (let b1 = queueCapacity (workspaceFSNodeWeight nd sz) b
           in writeNodes env nds (countNode (me_type (fn_entry nd)) sz t)
                (b1\<lparr>ba_writes := ba_writes b1 @ nodeCmds env nd fvs content\<rparr>)))"

definition infoCmds :: "node_totals \<Rightarrow> string \<Rightarrow> rcmd list" where
  "infoCmds t lastID =
     [CmdHSet KInfo [(''schema_version'', ''2''), (''files'', intText (nt_files t)), (''directories'', intText (nt_dirs t)),
        (''symlinks'', intText (nt_symlinks t)), (''total_data_bytes'', intText (nt_bytes t))],
      CmdSet KNextInode lastID]"

text \<open>
  The transactions that write the nodes, in order, and the error that stopped them; the batches before
  an error have been sent.
\<close>

definition writeWorkspaceFSNodes :: "root_env \<Rightarrow> fs_node list \<Rightarrow> string option \<times> rcmd list list" where
  "writeWorkspaceFSNodes env nds =
     (if nds = [] then (Some ''workspace manifest is missing a root entry'', [])
      else case writeNodes env nds \<lparr>nt_files = 0, nt_dirs = 0, nt_symlinks = 0, nt_bytes = 0\<rparr>
                  \<lparr>ba_flushed = [], ba_writes = [], ba_entries = 0, ba_bytes = 0\<rparr> of
             (Inl e, b) \<Rightarrow> (Some e, ba_flushed b)
           | (Inr t, b) \<Rightarrow>
               (let b1 = queueCapacity 512 b
                in (None, ba_flushed (flushBatch (b1\<lparr>ba_writes := ba_writes b1 @ infoCmds t (fn_id (last nds))\<rparr>)))))"

definition materializeManifestToWorkspaceFS :: "root_env \<Rightarrow> entry_map \<Rightarrow> string option \<times> rcmd list list" where
  "materializeManifestToWorkspaceFS env m =
     (case buildWorkspaceFSNodes m of Inl e \<Rightarrow> (Some e, []) | Inr nds \<Rightarrow> writeWorkspaceFSNodes env nds)"

subsection \<open>Reading the root\<close>

definition inlineThreshold :: nat where
  "inlineThreshold = 4 * 1024"

definition mountedArtifactNames :: "string set" where
  "mountedArtifactNames = {''.DS_Store'', ''.Spotlight-V100'', ''.TemporaryItems'', ''.Trashes'', ''.fseventsd'', ''.nfs-check''}"

text \<open>\<open>strings.Trim(p, "/")\<close>\<close>

definition trimSlashes :: "string \<Rightarrow> string" where
  "trimSlashes p = rev (dropWhile (\<lambda>c. c = CHR ''/'') (rev (dropWhile (\<lambda>c. c = CHR ''/'') p)))"

definition shouldIgnoreMountPath :: "path \<Rightarrow> bool" where
  "shouldIgnoreMountPath p =
     (if p = [] \<or> p = ''/'' \<or> trimSlashes p = [] then False
      else list_ex (\<lambda>x. hasPrefix x ''._'' \<or> x \<in> mountedArtifactNames) (splitByte CHR ''/'' (trimSlashes p)))"

text \<open>\<open>rediscontent.Load\<close> on the bytes of a string key or of an array key.\<close>

definition loadContent :: "redis \<Rightarrow> rkey \<Rightarrow> string \<Rightarrow> int \<Rightarrow> bytes option" where
  "loadContent r k ref sz =
     (if trimSpace ref \<in> {[], ''ext''}
      then case r k of None \<Rightarrow> Some [] | Some (RString b) \<Rightarrow> Some b | Some _ \<Rightarrow> None
      else if trimSpace ref = ''array''
      then if sz \<le> 0 then Some []
           else (case r k of
                   None \<Rightarrow> Some (replicate (nat sz) (CHR 0x00))
                 | Some (RArray b) \<Rightarrow> Some (take (nat sz) b @ replicate (nat sz - length b) (CHR 0x00))
                 | Some _ \<Rightarrow> None)
      else None)"

text \<open>\<open>base64.StdEncoding.EncodeToString\<close>\<close>

definition b64Char :: "nat \<Rightarrow> char" where
  "b64Char n = (if n < 26 then char_of (65 + n) else if n < 52 then char_of (71 + n) else if n < 62 then char_of (n - 4)
     else if n = 62 then CHR ''+'' else CHR ''/'')"

fun b64Encode :: "bytes \<Rightarrow> string" where
  "b64Encode [] = []"
| "b64Encode [a] = (let x = of_char a in [b64Char (x div 4), b64Char ((x mod 4) * 16), CHR ''='', CHR ''=''])"
| "b64Encode [a, b] =
     (let x = of_char a; y = of_char b
      in [b64Char (x div 4), b64Char ((x mod 4) * 16 + y div 16), b64Char ((y mod 16) * 4), CHR ''=''])"
| "b64Encode (a # b # c # rest) =
     (let x = of_char a; y = of_char b; z = of_char c
      in b64Char (x div 4) # b64Char ((x mod 4) * 16 + y div 16) # b64Char ((y mod 16) * 4 + z div 64) # b64Char (z mod 64)
         # b64Encode rest)"

record built_manifest =
  bm_entries :: entry_map
  bm_blobs :: "(string \<times> bytes) list"
  bm_files :: int
  bm_dirs :: int
  bm_bytes :: int

text \<open>
  One inode of a level: \<open>None\<close> when it is passed over, otherwise its entry and the bytes of a file.
  Reading fails on a key of the wrong type and when the content cannot be loaded.
\<close>

definition readRootItem :: "(bytes \<Rightarrow> string) \<Rightarrow> redis \<Rightarrow> string \<times> path \<Rightarrow> string + (manifest_entry \<times> bytes) option" where
  "readRootItem sha r item =
     (let (i, p) = item; h = hashAt r (KInode i) in
      if \<not> isHashOrNone r (KInode i) then Inl ''wrong type''
      else case h ''type'' of
        None \<Rightarrow> Inr None
      | Some t \<Rightarrow>
          (let mode = word_of_int (toInt (h ''mode'')); sz = toInt (h ''size''); mtime = toInt (h ''mtime_ms'');
               ref = toStr (h ''content_ref'')
           in case (if t = ''file'' \<and> ref \<noteq> [] then loadContent r (KContent i) ref sz else Some (toStr (h ''content''))) of
                None \<Rightarrow> Inl ''content''
              | Some data \<Rightarrow>
                  if shouldIgnoreMountPath p then Inr None
                  else let e = \<lparr>me_type = t, me_mode = mode, me_mtimeMs = mtime, me_size = sz, me_blobID = [],
                                me_inline = [], me_target = []\<rparr>
                       in if t = ''dir'' then Inr (Some (e\<lparr>me_size := 0\<rparr>, []))
                          else if t = ''file''
                          then Inr (Some (if length data \<le> inlineThreshold
                                          then e\<lparr>me_size := int (length data), me_inline := b64Encode data\<rparr>
                                          else e\<lparr>me_size := int (length data), me_blobID := sha data\<rparr>, data))
                          else if t = ''symlink''
                          then Inr (Some (e\<lparr>me_target := toStr (h ''target''), me_size := int (length (toStr (h ''target'')))\<rparr>, []))
                          else Inr None))"

definition addRootItem :: "string \<times> path \<Rightarrow> manifest_entry \<times> bytes \<Rightarrow> built_manifest \<Rightarrow> built_manifest" where
  "addRootItem item v b =
     (let (i, p) = item; (e, data) = v;
          b1 = b\<lparr>bm_entries := AList.update p e (bm_entries b)\<rparr>
      in if me_type e = ''dir'' then (if p \<noteq> ''/'' then b1\<lparr>bm_dirs := bm_dirs b + 1\<rparr> else b1)
         else if me_type e = ''file''
         then (let b2 = b1\<lparr>bm_files := bm_files b + 1, bm_bytes := bm_bytes b + int (length data)\<rparr>
               in if length data \<le> inlineThreshold \<or> map_of (bm_blobs b) (me_blobID e) \<noteq> None then b2
                  else b2\<lparr>bm_blobs := (me_blobID e, data) # bm_blobs b\<rparr>)
         else b1)"

fun readLevel :: "(bytes \<Rightarrow> string) \<Rightarrow> redis \<Rightarrow> (string \<times> path) list \<Rightarrow> built_manifest \<Rightarrow> string + built_manifest \<times> (string \<times> path) list" where
  "readLevel sha r [] b = Inr (b, [])"
| "readLevel sha r (item # items) b =
     (case readRootItem sha r item of
        Inl e \<Rightarrow> Inl e
      | Inr None \<Rightarrow> readLevel sha r items b
      | Inr (Some v) \<Rightarrow>
          (case readLevel sha r items (addRootItem item v b) of
             Inl e \<Rightarrow> Inl e
           | Inr (b1, dirs) \<Rightarrow> Inr (b1, if me_type (fst v) = ''dir'' then item # dirs else dirs)))"

definition childItems :: "dir_order \<Rightarrow> redis \<Rightarrow> string \<times> path \<Rightarrow> (string \<times> path) list" where
  "childItems order r item =
     (let (i, p) = item in
      map (\<lambda>n. (the (hget r (KDirents i) n), joinPath p n)) (sortStrings (order i)))"

text \<open>The search by levels; \<open>None\<close> when the given number of levels is not enough.\<close>

fun readLevels :: "nat \<Rightarrow> (bytes \<Rightarrow> string) \<Rightarrow> dir_order \<Rightarrow> redis \<Rightarrow> (string \<times> path) list \<Rightarrow> built_manifest \<Rightarrow> (string + built_manifest) option" where
  "readLevels 0 sha order r queue b = None"
| "readLevels (Suc n) sha order r queue b =
     (if queue = [] then Some (Inr b)
      else case readLevel sha r queue b of
             Inl e \<Rightarrow> Some (Inl e)
           | Inr (b1, dirs) \<Rightarrow>
               if dirs = [] then Some (Inr b1)
               else if \<not> list_all (\<lambda>(i, p). isHashOrNone r (KDirents i)) dirs then Some (Inl ''wrong type'')
               else readLevels n sha order r (concat (map (childItems order r) dirs)) b1)"

definition emptyManifest :: built_manifest where
  "emptyManifest = \<lparr>bm_entries = [], bm_blobs = [], bm_files = 0, bm_dirs = 0, bm_bytes = 0\<rparr>"

definition BuildManifestFromWorkspaceRoot ::
    "nat \<Rightarrow> (bytes \<Rightarrow> string) \<Rightarrow> dir_order \<Rightarrow> redis \<Rightarrow> (string + built_manifest) option" where
  "BuildManifestFromWorkspaceRoot fuel sha order r =
     (case readLevels fuel sha order r [(''1'', ''/'')] emptyManifest of
        Some (Inr b) \<Rightarrow>
          Some (Inr (if map_of (bm_entries b) ''/'' = None
                     then b\<lparr>bm_entries := AList.update ''/'' defaultDir (bm_entries b)\<rparr> else b))
      | res \<Rightarrow> res)"

end
