(* ===== verification/WorkspaceRootWrite.thy ===== *)
theory WorkspaceRootWrite
  imports WorkspaceRoot
begin

text \<open>
  What \<open>materializeManifestToWorkspaceFS\<close> leaves in the store: the entries of a manifest with their
  parents, the nodes made of them, which come parents first, the transactions that write the nodes, and
  the tree that the directory and inode hashes then form.
\<close>

subsection \<open>Paths as components\<close>

lemma norm_is_normalizePath: "workspaceFSNormalizePath = normalizePath"
  by (rule ext) (simp add: workspaceFSNormalizePath_def normalizePath_def)

lemma pathOf_snoc: "pathOf (cs @ [x]) = (if cs = [] then CHR ''/'' # x else pathOf cs @ CHR ''/'' # x)"
  by (simp add: joinStr_snoc)

lemma rev_pathOf_snoc: "rev (pathOf (cs @ [x])) = rev x @ CHR ''/'' # (if cs = [] then [] else rev (pathOf cs))"
  unfolding pathOf_snoc by simp

lemma last_component:
  assumes "CHR ''/'' \<notin> set x"
  shows "takeWhile (\<lambda>c. c \<noteq> CHR ''/'') (rev x @ CHR ''/'' # ys) = rev x"
    and "dropWhile (\<lambda>c. c \<noteq> CHR ''/'') (rev x @ CHR ''/'' # ys) = CHR ''/'' # ys"
  using assms by (simp_all add: takeWhile_append dropWhile_append)

lemma pathBase_pathOf: "plainPart x \<Longrightarrow> pathBase (pathOf (cs @ [x])) = x"
  unfolding pathBase_def rev_pathOf_snoc by (simp only: last_component plainPart_def simp_thms) simp

lemma dirOf_pathOf: "plainPart x \<Longrightarrow> list_all plainPart cs \<Longrightarrow> dirOf (pathOf (cs @ [x])) = pathOf cs"
  unfolding dirOf_def parentDir_def rev_pathOf_snoc
  by (simp only: last_component plainPart_def simp_thms) (simp add: Let_def)

lemma pathOf_eq_iff:
  assumes "list_all plainPart cs" and "list_all plainPart ds"
  shows "pathOf cs = pathOf ds \<longleftrightarrow> cs = ds"
  using splitComponents_pathOf [OF assms(1)] splitComponents_pathOf [OF assms(2)] by metis

lemma pathOf_root: "list_all plainPart cs \<Longrightarrow> pathOf cs = ''/'' \<longleftrightarrow> cs = []"
  using joinStr_plain [of cs "''/''"] by auto

lemma parentPath_pathOf:
  assumes "list_all plainPart cs" and "cs \<noteq> []"
  shows "workspaceFSParentPath (pathOf cs) = pathOf (butlast cs)"
proof -
  obtain ds x where cs: "cs = ds @ [x]" using assms(2) by (metis rev_exhaust)
  with assms(1) have "plainPart x" "list_all plainPart ds" by simp_all
  with cs show ?thesis using pathOf_root [OF assms(1)] assms
    by (simp add: workspaceFSParentPath_def norm_is_normalizePath normalizePath_pathOf Let_def dirOf_pathOf del: joinStr.simps)
qed

lemma countByte_joinStr:
  "cs \<noteq> [] \<Longrightarrow> list_all plainPart cs \<Longrightarrow> countByte CHR ''/'' (joinStr ''/'' cs) = length cs - 1"
proof (induction "''/''" cs rule: joinStr.induct)
  case (2 p)
  then show ?case by (auto simp: plainPart_def countByte_def filter_empty_conv)
next
  case (3 p q ps)
  then have "countByte CHR ''/'' p = 0" by (auto simp: plainPart_def countByte_def filter_empty_conv)
  with 3 show ?case by simp
qed simp

lemma depth_pathOf: "list_all plainPart cs \<Longrightarrow> workspaceFSPathDepth (pathOf cs) = length cs"
  using pathOf_root [of cs] countByte_joinStr [of cs] normalizePath_pathOf [of "[]"]
  by (cases "cs = []") (simp_all add: workspaceFSPathDepth_def norm_is_normalizePath normalizePath_pathOf Let_def
      trimPrefix_def hasPrefix_def)

subsection \<open>The completed entries\<close>

definition cleanPath :: "path \<Rightarrow> bool" where
  "cleanPath p \<longleftrightarrow> (\<exists>cs. p = pathOf cs \<and> list_all plainPart cs)"

lemma cleanPath_norm: "cleanPath (workspaceFSNormalizePath p)"
  unfolding norm_is_normalizePath cleanPath_def by (rule normalizePath_parts [of p]) blast

lemma cleanPath_take: "list_all plainPart cs \<Longrightarrow> cleanPath (pathOf (take k cs))"
  unfolding cleanPath_def by (metis append_take_drop_id list_all_append)

definition parentClosed :: "entry_map \<Rightarrow> path \<Rightarrow> bool" where
  "parentClosed es p \<longleftrightarrow> set (parentChain p) \<subseteq> fst ` set es"

lemma update_keys: "fst ` set (AList.update k v al) = insert k (fst ` set al)"
  by (induction al) auto

lemma addMissing_keys: "fst ` set (addMissing q es) = insert q (fst ` set es)"
proof (cases "map_of es q = None")
  case False
  then have "q \<in> fst ` set es" by (metis map_of_eq_None_iff)
  with False show ?thesis by (simp add: addMissing_def insert_absorb)
qed (simp add: addMissing_def update_keys)

lemma addMissing_distinct: "distinct (map fst es) \<Longrightarrow> distinct (map fst (addMissing q es))"
  by (simp add: addMissing_def distinct_update)

lemma addMissing_value: "map_of es p \<noteq> None \<Longrightarrow> map_of (addMissing q es) p = map_of es p"
  by (auto simp: addMissing_def update_conv')

lemma addMissing_new: "map_of (addMissing q es) p = Some e \<Longrightarrow> map_of es p = Some e \<or> e = defaultDir"
  by (auto simp: addMissing_def update_conv' split: if_splits)

lemma fold_addMissing_keys: "fst ` set (fold addMissing qs es) = set qs \<union> fst ` set es"
  by (induction qs arbitrary: es) (simp_all only: fold_simps id_apply addMissing_keys list.set, blast+)

lemma fold_addMissing_distinct: "distinct (map fst es) \<Longrightarrow> distinct (map fst (fold addMissing qs es))"
  by (induction qs arbitrary: es) (simp_all add: addMissing_distinct)

lemma fold_addMissing_value: "map_of es p \<noteq> None \<Longrightarrow> map_of (fold addMissing qs es) p = map_of es p"
  by (induction qs arbitrary: es) (simp_all add: addMissing_value)

lemma fold_addMissing_new:
  "map_of (fold addMissing qs es) p = Some e \<Longrightarrow> map_of es p = Some e \<or> e = defaultDir"
proof (induction qs arbitrary: es)
  case (Cons q qs)
  from Cons.IH [of "addMissing q es"] Cons.prems show ?case using addMissing_new [of q es p e] by auto
qed simp

lemma fold_chains:
  "fold (\<lambda>p. fold addMissing (parentChain p)) ps es = fold addMissing (concat (map parentChain ps)) es"
  by (induction ps arbitrary: es) simp_all

lemma parentChain_pathOf:
  "list_all plainPart cs \<Longrightarrow> parentChain (pathOf cs) = map (\<lambda>k. pathOf (take k cs)) (rev [1..<length cs])"
  by (simp add: parentChain_def norm_is_normalizePath normalizePath_pathOf splitComponents_pathOf Let_def)

lemma parentChain_clean: "q \<in> set (parentChain p) \<Longrightarrow> cleanPath q"
proof -
  obtain cs where "workspaceFSNormalizePath p = pathOf cs" "list_all plainPart cs"
    using cleanPath_norm [of p] by (auto simp: cleanPath_def)
  then show "q \<in> set (parentChain p) \<Longrightarrow> cleanPath q"
    by (auto simp: parentChain_def Let_def splitComponents_pathOf cleanPath_take)
qed

lemma fold_normalized:
  "distinct (map fst es) \<Longrightarrow> distinct (map fst (fold (\<lambda>(p, e). AList.update (workspaceFSNormalizePath p) e) m es))"
  "fst ` set (fold (\<lambda>(p, e). AList.update (workspaceFSNormalizePath p) e) m es) =
     workspaceFSNormalizePath ` fst ` set m \<union> fst ` set es"
proof (induction m arbitrary: es)
  case (Cons pe m)
  {
    case 1
    with Cons(1) show ?case by (simp add: distinct_update case_prod_unfold)
  next
    case 2
    show ?case using Cons(2) by (simp add: update_keys case_prod_unfold)
  }
qed simp_all

lemma manifestEntries_props:
  assumes "es = workspaceFSManifestEntries m"
  shows "distinct (map fst es)" and "p \<in> fst ` set es \<Longrightarrow> cleanPath p" and "\<exists>root. map_of es ''/'' = Some root \<and> me_type root = ''dir''"
    and "list_all plainPart cs \<Longrightarrow> pathOf cs \<in> fst ` set es \<Longrightarrow> cs \<noteq> [] \<Longrightarrow> pathOf (butlast cs) \<in> fst ` set es"
proof -
  define es0 where "es0 = fold (\<lambda>(p, e). AList.update (workspaceFSNormalizePath p) e) m ([] :: entry_map)"
  define root1 where "root1 = (case map_of es0 ''/'' of Some e \<Rightarrow> e | None \<Rightarrow> defaultDir)\<lparr>me_type := ''dir''\<rparr>"
  define root where "root = root1\<lparr>me_mode := manifestEntryModeForWorkspaceFS root1\<rparr>"
  have root: "me_type root = ''dir''" by (simp add: root_def root1_def)
  have es: "es = fold (\<lambda>p. fold addMissing (parentChain p)) (map fst (AList.update ''/'' root es0)) (AList.update ''/'' root es0)"
    unfolding assms workspaceFSManifestEntries_def Let_def root_def root1_def es0_def by (rule refl)
  define es1 where "es1 = AList.update ''/'' root es0"
  have es0: "distinct (map fst es0)" "fst ` set es0 = workspaceFSNormalizePath ` fst ` set m"
    using fold_normalized [where es = "[]" and m = m] by (simp_all add: es0_def)
  have es1: "distinct (map fst es1)" "fst ` set es1 = insert ''/'' (workspaceFSNormalizePath ` fst ` set m)"
    "map_of es1 ''/'' = Some root"
    using es0 by (simp_all add: es1_def distinct_update update_keys update_conv')
  have clean1: "cleanPath p" if "p \<in> fst ` set es1" for p
    using that cleanPath_norm by (auto simp: es1(2) cleanPath_def intro: exI [of _ "[]"])
  have es: "es = fold (\<lambda>p. fold addMissing (parentChain p)) (map fst es1) es1" using es by (simp add: es1_def)
  have keys: "fst ` set es = (\<Union>p \<in> fst ` set es1. set (parentChain p)) \<union> fst ` set es1"
    unfolding es fold_chains fold_addMissing_keys by simp
  show "distinct (map fst es)" unfolding es fold_chains using es1(1) by (rule fold_addMissing_distinct)
  show "p \<in> fst ` set es \<Longrightarrow> cleanPath p" using clean1 parentChain_clean by (auto simp: keys)
  show "\<exists>root. map_of es ''/'' = Some root \<and> me_type root = ''dir''"
    using fold_addMissing_value [of es1 "''/''"] es1(3) root by (simp add: es fold_chains)
  show "pathOf (butlast cs) \<in> fst ` set es" if "list_all plainPart cs" "pathOf cs \<in> fst ` set es" "cs \<noteq> []"
  proof (cases "butlast cs = []")
    case True
    then show ?thesis using es1(2) by (simp add: keys)
  next
    case False
    have chain: "pathOf (butlast cs) \<in> set (parentChain p)" if "list_all plainPart ds" "p = pathOf ds" "cs = take k ds" for p ds k
    proof -
      have "length (butlast cs) \<in> set [1..<length ds]" "butlast cs = take (length (butlast cs)) ds"
        using False \<open>cs \<noteq> []\<close> that(3) by (auto simp: butlast_conv_take Suc_le_eq)
      then show ?thesis unfolding that(2) parentChain_pathOf [OF that(1)] by (metis (no_types, lifting) image_eqI image_set set_rev)
    qed
    from that(2) consider "pathOf cs \<in> fst ` set es1" | p where "p \<in> fst ` set es1" "pathOf cs \<in> set (parentChain p)"
      by (auto simp: keys)
    then show ?thesis
    proof cases
      case 1
      have "pathOf (butlast cs) \<in> set (parentChain (pathOf cs))" by (rule chain [of cs _ "length cs"]) (simp_all add: that(1))
      with 1 show ?thesis unfolding keys by blast
    next
      case 2
      obtain ds where ds: "p = pathOf ds" "list_all plainPart ds" using clean1 [OF 2(1)] by (auto simp: cleanPath_def)
      with 2(2) obtain k where "pathOf cs = pathOf (take k ds)" by (auto simp: parentChain_pathOf)
      moreover have "list_all plainPart (take k ds)" using ds(2) by (metis append_take_drop_id list_all_append)
      ultimately have "cs = take k ds" using pathOf_eq_iff [OF that(1)] by blast
      from chain [OF ds(2,1) this] 2(1) show ?thesis unfolding keys by blast
    qed
  qed
qed

subsection \<open>The nodes form a tree\<close>

text \<open>
  A list of nodes in which every node comes after its parent: the root first, and then nodes with new
  identities and new paths below directories that are already in the list.
\<close>

inductive nodeList :: "fs_node list \<Rightarrow> bool" where
  node_root: "fn_id nd = ''1'' \<Longrightarrow> fn_path nd = ''/'' \<Longrightarrow> fn_parentID nd = [] \<Longrightarrow> fn_name nd = []
    \<Longrightarrow> me_type (fn_entry nd) = ''dir'' \<Longrightarrow> nodeList [nd]"
| node_below: "nodeList nds \<Longrightarrow> q \<in> set nds \<Longrightarrow> me_type (fn_entry q) = ''dir'' \<Longrightarrow> fn_path q = pathOf cs
    \<Longrightarrow> list_all plainPart (cs @ [fn_name nd]) \<Longrightarrow> fn_parentID nd = fn_id q \<Longrightarrow> fn_path nd = pathOf (cs @ [fn_name nd])
    \<Longrightarrow> fn_id nd \<notin> fn_id ` set nds \<Longrightarrow> fn_path nd \<notin> fn_path ` set nds \<Longrightarrow> fn_id nd \<noteq> []
    \<Longrightarrow> trimSpace (fn_id nd) = fn_id nd \<Longrightarrow> nodeList (nds @ [nd])"

definition isRootNode :: "fs_node \<Rightarrow> bool" where
  "isRootNode nd \<longleftrightarrow> fn_id nd = ''1'' \<and> fn_path nd = ''/'' \<and> fn_parentID nd = [] \<and> me_type (fn_entry nd) = ''dir''"

lemma nodeList_nonempty: "nodeList nds \<Longrightarrow> nds \<noteq> []"
  by (cases rule: nodeList.cases) auto

lemma nodeList_distinct: "nodeList nds \<Longrightarrow> distinct (map fn_id nds) \<and> distinct (map fn_path nds)"
  by (induction rule: nodeList.induct) auto

lemma nodeList_ids: "nodeList nds \<Longrightarrow> nd \<in> set nds \<Longrightarrow> fn_id nd \<noteq> []"
  by (induction rule: nodeList.induct) auto

lemma nodeList_root: "nodeList nds \<Longrightarrow> \<exists>nd \<in> set nds. isRootNode nd"
  by (induction rule: nodeList.induct) (auto simp: isRootNode_def)

lemma nodeList_node:
  "nodeList nds \<Longrightarrow> nd \<in> set nds \<Longrightarrow> isRootNode nd
     \<or> (\<exists>q \<in> set nds. \<exists>cs. me_type (fn_entry q) = ''dir'' \<and> fn_parentID nd = fn_id q \<and> fn_path q = pathOf cs
          \<and> list_all plainPart (cs @ [fn_name nd]) \<and> fn_path nd = pathOf (cs @ [fn_name nd]))"
proof (induction rule: nodeList.induct)
  case (node_root nd)
  then show ?case by (simp add: isRootNode_def)
next
  case (node_below nds q cs nd')
  show ?case
  proof (cases "nd = nd'")
    case True
    with node_below.hyps show ?thesis by (metis in_set_conv_decomp UnI1 set_append)
  next
    case False
    with node_below.prems have "nd \<in> set nds" by simp
    from node_below.IH [OF this] show ?thesis by auto
  qed
qed

lemma nodeList_same: "nodeList nds \<Longrightarrow> nd \<in> set nds \<Longrightarrow> nd' \<in> set nds \<Longrightarrow> fn_id nd = fn_id nd' \<Longrightarrow> nd = nd'"
  using nodeList_distinct [of nds] by (metis distinct_map inj_on_def)

lemma nodeList_same_path: "nodeList nds \<Longrightarrow> nd \<in> set nds \<Longrightarrow> nd' \<in> set nds \<Longrightarrow> fn_path nd = fn_path nd' \<Longrightarrow> nd = nd'"
  using nodeList_distinct [of nds] by (metis distinct_map inj_on_def)

lemma nodeList_child:
  assumes "nodeList nds" and "nd \<in> set nds" and "q \<in> set nds" and "fn_parentID nd = fn_id q"
  shows "fn_path nd = joinPath (fn_path q) (fn_name nd)"
    and "\<exists>cs. list_all plainPart cs \<and> fn_path q = pathOf cs \<and> fn_path nd = pathOf (cs @ [fn_name nd])"
proof -
  have "\<not> isRootNode nd" using assms(4) nodeList_ids [OF assms(1,3)] by (auto simp: isRootNode_def)
  then obtain q' cs where q': "q' \<in> set nds" "fn_parentID nd = fn_id q'" "fn_path q' = pathOf cs" "list_all plainPart cs"
    "fn_path nd = pathOf (cs @ [fn_name nd])"
    using nodeList_node [OF assms(1,2)] by (metis list_all_append)
  have "q' = q" by (rule nodeList_same [OF assms(1) q'(1) assms(3)]) (metis q'(2) assms(4))
  have path: "fn_path q = pathOf cs" using q'(3) \<open>q' = q\<close> by simp
  then show "fn_path nd = joinPath (fn_path q) (fn_name nd)" using q'(5) joinPath_pathOf [OF q'(4)] by presburger
  from path q'(4,5) show "\<exists>cs. list_all plainPart cs \<and> fn_path q = pathOf cs \<and> fn_path nd = pathOf (cs @ [fn_name nd])"
    by blast
qed

lemma nodeList_sibling:
  assumes "nodeList nds" and "nd \<in> set nds" and "nd' \<in> set nds" and "fn_parentID nd = fn_parentID nd'"
    and "fn_parentID nd \<noteq> []" and "fn_name nd = fn_name nd'"
  shows "nd = nd'"
proof -
  obtain q where q: "q \<in> set nds" "fn_parentID nd = fn_id q"
    using nodeList_node [OF assms(1,2)] assms(5) by (auto simp: isRootNode_def)
  have "fn_path nd = fn_path nd'"
    using nodeList_child(1) [OF assms(1,2) q] nodeList_child(1) [OF assms(1,3) q(1)] q(2) assms(4,6) by simp
  then show ?thesis by (rule nodeList_same_path [OF assms(1-3)])
qed

lemma spaceRune_digits: "\<forall>x \<in> set ns. 48 \<le> x \<and> x \<le> 57 \<Longrightarrow> spaceRune ns = 0"
  by (cases ns rule: spaceRune.cases) auto

lemma trimSpace_digits: "trimSpace (natDigits n) = natDigits n"
proof -
  have digit: "48 \<le> (of_char c :: nat) \<and> (of_char c :: nat) \<le> 57" if "c \<in> set (natDigits n)" for c
    using that
  proof (induction n rule: natDigits.induct)
    case (1 n)
    show ?case
    proof (cases "n < 10")
      case True
      with 1(2) show ?thesis by (simp add: natDigits.simps [of n])
    next
      case False
      with 1 show ?thesis by (auto simp: natDigits.simps [of n])
    qed
  qed
  have no_space: "spaceRune (map of_char ds) = 0" if "set ds \<subseteq> set (natDigits n)" for ds
    by (rule spaceRune_digits) (use that digit in auto)
  have "leadSpace (natDigits n) = 0" unfolding leadSpace_def by (rule no_space) (rule set_take_subset)
  then have "trimLeftSpace (natDigits n) = natDigits n" by (simp add: trimLeftSpace.simps)
  moreover have "set (rev (take k (rev (natDigits n)))) \<subseteq> set (natDigits n)" for k
    using set_take_subset [of k "rev (natDigits n)"] by simp
  then have "trailSpace (rev (natDigits n)) = 0" by (simp add: trailSpace_def no_space del: rev_take take_rev set_rev)
  then have "trimTailSpace (rev (natDigits n)) = rev (natDigits n)" by (simp add: trimTailSpace.simps)
  ultimately show ?thesis by (simp add: trimSpace_def)
qed

definition placedBy :: "entry_map \<Rightarrow> nat \<Rightarrow> (path \<times> string) list \<Rightarrow> fs_node list \<Rightarrow> bool" where
  "placedBy es n ids nds \<longleftrightarrow> nodeList nds \<and> ids = rev (map (\<lambda>nd. (fn_path nd, fn_id nd)) nds)
     \<and> (\<forall>nd \<in> set nds. map_of es (fn_path nd) = Some (fn_entry nd) \<and> (\<exists>k. 0 < k \<and> k \<le> n \<and> fn_id nd = natDigits k))"

lemma natDigits_inj: "natDigits m = natDigits n \<longleftrightarrow> m = n"
  using natVal_natDigits [of m] natVal_natDigits [of n] by (metis option.inject)

lemma natDigits_one: "natDigits 1 = ''1''"
proof -
  have "(of_char (char_of (49 :: nat) :: char) :: nat) = of_char CHR ''1''" by simp
  then show ?thesis unfolding of_char_eq_iff by (simp add: natDigits.simps)
qed

lemma placedBy_step:
  assumes placed: "placedBy es n ids nds" and cs: "list_all plainPart (cs @ [x])" and new: "pathOf (cs @ [x]) \<notin> fn_path ` set nds"
    and parent: "map_of es (pathOf cs) = Some parent" "me_type parent = ''dir''" and pid: "map_of ids (pathOf cs) = Some pid"
    and e: "map_of es (pathOf (cs @ [x])) = Some e"
  shows "placedBy es (n + 1) ((pathOf (cs @ [x]), natDigits (n + 1)) # ids)
     (nds @ [\<lparr>fn_id = natDigits (n + 1), fn_path = pathOf (cs @ [x]), fn_parentID = pid, fn_name = x, fn_entry = e\<rparr>])"
proof -
  have nds: "nodeList nds" "ids = rev (map (\<lambda>nd. (fn_path nd, fn_id nd)) nds)"
    "\<And>nd. nd \<in> set nds \<Longrightarrow> map_of es (fn_path nd) = Some (fn_entry nd) \<and> (\<exists>k. 0 < k \<and> k \<le> n \<and> fn_id nd = natDigits k)"
    using placed by (auto simp: placedBy_def)
  obtain q where q: "q \<in> set nds" "fn_path q = pathOf cs" "fn_id q = pid"
    using map_of_SomeD [OF pid] nds(2) by auto
  with nds(3) [OF q(1)] parent have dir: "me_type (fn_entry q) = ''dir''" by simp
  have fresh: "natDigits (n + 1) \<notin> fn_id ` set nds"
  proof
    assume "natDigits (n + 1) \<in> fn_id ` set nds"
    then obtain nd where nd: "nd \<in> set nds" "natDigits (n + 1) = fn_id nd" by blast
    then obtain k where "k \<le> n" "natDigits (n + 1) = natDigits k" using nds(3) [OF nd(1)] by metis
    then show False unfolding natDigits_inj by simp
  qed
  let ?nd = "\<lparr>fn_id = natDigits (n + 1), fn_path = pathOf (cs @ [x]), fn_parentID = pid, fn_name = x, fn_entry = e\<rparr>"
  have "nodeList (nds @ [?nd])"
    by (rule node_below [OF nds(1) q(1) dir q(2)])
      (use cs new q(3) fresh natDigits_hd trimSpace_digits in \<open>simp_all del: joinStr.simps\<close>)
  moreover have "\<forall>nd \<in> set (nds @ [?nd]). map_of es (fn_path nd) = Some (fn_entry nd)
     \<and> (\<exists>k. 0 < k \<and> k \<le> n + 1 \<and> fn_id nd = natDigits k)"
  proof
    fix nd assume "nd \<in> set (nds @ [?nd])"
    then consider "nd \<in> set nds" | "nd = ?nd" by auto
    then show "map_of es (fn_path nd) = Some (fn_entry nd) \<and> (\<exists>k. 0 < k \<and> k \<le> n + 1 \<and> fn_id nd = natDigits k)"
    proof cases
      case 1
      with nds(3) show ?thesis by (metis le_add1 le_trans)
    next
      case 2
      with e show ?thesis by (auto intro: exI [of _ "n + 1"])
    qed
  qed
  ultimately show ?thesis unfolding placedBy_def nds(2) by simp
qed

lemma placeNodes_list:
  "placeNodes es n ids ps = Inr ns \<Longrightarrow> placedBy es n ids nds \<Longrightarrow> distinct ps
     \<Longrightarrow> \<forall>p \<in> set ps. cleanPath p \<and> p \<in> fst ` set es \<and> (p \<noteq> ''/'' \<longrightarrow> p \<notin> fn_path ` set nds)
     \<Longrightarrow> (\<exists>n' ids'. placedBy es n' ids' (nds @ ns)) \<and> map fn_path ns = filter (\<lambda>p. p \<noteq> ''/'') ps"
proof (induction ps arbitrary: n ids ns nds)
  case Nil
  then have "ns = []" by simp
  with Nil(2) show ?case by auto
next
  case (Cons p ps)
  show ?case
  proof (cases "p = ''/''")
    case True
    with Cons show ?thesis by simp
  next
    case False
    obtain ds where ds: "p = pathOf ds" "list_all plainPart ds" using Cons.prems(4) by (auto simp: cleanPath_def)
    with False obtain cs x where "ds = cs @ [x]" by (cases ds rule: rev_cases) simp_all
    with ds have p: "p = pathOf (cs @ [x])" "list_all plainPart (cs @ [x])" by simp_all
    have up: "workspaceFSParentPath p = pathOf cs"
      using parentPath_pathOf [OF p(2)] p(1) by simp
    obtain e where e: "map_of es p = Some e" using Cons.prems(4) by (metis list.set_intros(1) map_of_eq_None_iff not_None_eq)
    from Cons.prems(1) False obtain parent pid ns' where parent: "map_of es (pathOf cs) = Some parent" "me_type parent = ''dir''"
      and pid: "map_of ids (pathOf cs) = Some pid"
      and rest: "placeNodes es (n + 1) ((p, natDigits (n + 1)) # ids) ps = Inr ns'"
      and ns: "ns = \<lparr>fn_id = natDigits (n + 1), fn_path = p, fn_parentID = pid, fn_name = pathBase p,
                     fn_entry = the (map_of es p)\<rparr> # ns'"
      by (auto simp: up Let_def split: option.splits sum.splits if_splits)
    let ?nd = "\<lparr>fn_id = natDigits (n + 1), fn_path = p, fn_parentID = pid, fn_name = x, fn_entry = e\<rparr>"
    have base: "pathBase p = x" using pathBase_pathOf [of x cs] p by simp
    have placed: "placedBy es (n + 1) ((p, natDigits (n + 1)) # ids) (nds @ [?nd])"
      unfolding p(1) by (rule placedBy_step [OF Cons.prems(2) p(2) _ parent pid]) (use Cons.prems(4) False e p(1) in auto)
    have ps: "distinct ps"
      "\<forall>p' \<in> set ps. cleanPath p' \<and> p' \<in> fst ` set es \<and> (p' \<noteq> ''/'' \<longrightarrow> p' \<notin> fn_path ` set (nds @ [?nd]))"
      using Cons.prems(3,4) by auto
    from Cons.IH [OF rest placed ps] show ?thesis using ns base e False by simp
  qed
qed

lemma buildNodes:
  assumes "buildWorkspaceFSNodes m = Inr nds" and es: "es = workspaceFSManifestEntries m"
  shows "nodeList nds" and "nd \<in> set nds \<Longrightarrow> map_of es (fn_path nd) = Some (fn_entry nd)"
    and "fn_path ` set nds = fst ` set es" and "length nds = length es"
proof -
  obtain root where root: "map_of es ''/'' = Some root" "me_type root = ''dir''"
    using manifestEntries_props(3) [OF es] by blast
  let ?root = "\<lparr>fn_id = ''1'', fn_path = ''/'', fn_parentID = [], fn_name = [], fn_entry = root\<rparr>"
  from assms(1) root obtain ns where ns: "placeNodes es 1 [(''/'', ''1'')] (workspaceFSOrderedPaths es) = Inr ns" "nds = ?root # ns"
    by (auto simp: buildWorkspaceFSNodes_def es [symmetric] Let_def split: sum.splits)
  note one = natDigits_one
  have "placedBy es 1 [(''/'', ''1'')] [?root]"
    unfolding placedBy_def using root one by (auto intro!: nodeList.node_root exI [of _ 1])
  moreover have ps: "mset (workspaceFSOrderedPaths es) = mset (map fst es)" by (simp add: workspaceFSOrderedPaths_def)
  then have ps: "distinct (workspaceFSOrderedPaths es)" "set (workspaceFSOrderedPaths es) = fst ` set es"
    "length (workspaceFSOrderedPaths es) = length es"
    using manifestEntries_props(1) [OF es] mset_eq_imp_distinct_iff mset_eq_setD mset_eq_length
    by (metis, metis list.set_map, metis length_map)
  moreover have "\<forall>p \<in> set (workspaceFSOrderedPaths es). cleanPath p \<and> p \<in> fst ` set es \<and> (p \<noteq> ''/'' \<longrightarrow> p \<notin> fn_path ` set [?root])"
    using ps(2) manifestEntries_props(2) [OF es] by auto
  ultimately obtain n ids where placed: "placedBy es n ids ([?root] @ ns)"
    and paths: "map fn_path ns = filter (\<lambda>p. p \<noteq> ''/'') (workspaceFSOrderedPaths es)"
    using placeNodes_list [OF ns(1)] by metis
  from placed ns(2) have nds: "nodeList nds" "\<forall>nd \<in> set nds. map_of es (fn_path nd) = Some (fn_entry nd)"
    by (simp_all add: placedBy_def)
  then show "nodeList nds" "nd \<in> set nds \<Longrightarrow> map_of es (fn_path nd) = Some (fn_entry nd)" by blast+
  have in_es: "''/'' \<in> fst ` set es" using root(1) by (metis map_of_eq_None_iff option.distinct(1))
  then show "fn_path ` set nds = fst ` set es"
    unfolding ns(2) ps(2) [symmetric] using arg_cong [OF paths, of set] by (simp only: list.set_map set_filter list.set image_insert fs_node.simps) blast
  have "length nds = length (map fn_path ([?root] @ ns))" using ns(2) by simp
  also have "\<dots> = card (set (map fn_path ([?root] @ ns)))"
    using nodeList_distinct [of nds] nds(1) unfolding ns(2) by (simp only: distinct_card append_Cons append_Nil)
  also have "set (map fn_path ([?root] @ ns)) = set (workspaceFSOrderedPaths es)"
    using paths ps(2) in_es by auto
  also have "card \<dots> = length es" using distinct_card [OF ps(1)] ps(3) by simp
  finally show "length nds = length es" .
qed

subsection \<open>The commands that write the nodes\<close>

definition nodeCommands :: "root_env \<Rightarrow> fs_node \<Rightarrow> rcmd list" where
  "nodeCommands env nd =
     (case workspaceFSNodeFields env nd of Inl _ \<Rightarrow> [] | Inr (fvs, data, sz) \<Rightarrow> nodeCmds env nd fvs data)"

definition queued :: "batch_state \<Rightarrow> rcmd list" where
  "queued b = concat (ba_flushed b) @ ba_writes b"

lemma queued_flush [simp]: "queued (flushBatch b) = queued b"
  by (simp add: queued_def flushBatch_def)

lemma queued_capacity [simp]: "queued (queueCapacity w b) = queued b"
proof -
  have "queued (b\<lparr>ba_entries := n, ba_bytes := k\<rparr>) = queued b" for b n k by (simp add: queued_def)
  then show ?thesis by (simp add: queueCapacity_def Let_def)
qed

lemma queued_add: "queued (b\<lparr>ba_writes := ba_writes b @ cs\<rparr>) = queued b @ cs"
  by (simp add: queued_def)

lemma writeNodes_cmds:
  "writeNodes env nds t b = (Inr t', b') \<Longrightarrow>
     (\<forall>nd \<in> set nds. \<exists>v. workspaceFSNodeFields env nd = Inr v) \<and> queued b' = queued b @ concat (map (nodeCommands env) nds)"
proof (induction nds arbitrary: t b)
  case (Cons nd nds)
  from Cons.prems obtain fvs data sz where v: "workspaceFSNodeFields env nd = Inr (fvs, data, sz)"
    by (auto split: sum.splits prod.splits)
  let ?b = "queueCapacity (workspaceFSNodeWeight nd sz) b"
  from Cons.prems v have "writeNodes env nds (countNode (me_type (fn_entry nd)) sz t)
      (?b\<lparr>ba_writes := ba_writes ?b @ nodeCmds env nd fvs data\<rparr>) = (Inr t', b')"
    by (simp add: Let_def)
  from Cons.IH [OF this] v show ?case by (simp add: queued_add nodeCommands_def)
qed simp

lemma writes_all: "ba_entries b \<noteq> 0 \<Longrightarrow> concat (ba_flushed (flushBatch b)) = queued b"
  by (simp add: queued_def flushBatch_def)

lemma capacity_entries: "ba_entries (queueCapacity w b) \<noteq> 0"
  by (simp add: queueCapacity_def Let_def)

lemma materialize_cmds:
  assumes "materializeManifestToWorkspaceFS env m = (None, batches)"
  obtains nds t where "buildWorkspaceFSNodes m = Inr nds" "\<forall>nd \<in> set nds. \<exists>v. workspaceFSNodeFields env nd = Inr v"
    "concat batches = concat (map (nodeCommands env) nds) @ infoCmds t (fn_id (last nds))"
proof -
  from assms obtain nds where nds: "buildWorkspaceFSNodes m = Inr nds" "writeWorkspaceFSNodes env nds = (None, batches)"
    by (auto simp: materializeManifestToWorkspaceFS_def split: sum.splits)
  then obtain t b where t: "writeNodes env nds \<lparr>nt_files = 0, nt_dirs = 0, nt_symlinks = 0, nt_bytes = 0\<rparr>
      \<lparr>ba_flushed = [], ba_writes = [], ba_entries = 0, ba_bytes = 0\<rparr> = (Inr t, b)"
    and batches: "batches = ba_flushed (flushBatch ((queueCapacity 512 b)\<lparr>ba_writes := ba_writes (queueCapacity 512 b) @ infoCmds t (fn_id (last nds))\<rparr>))"
    by (auto simp: writeWorkspaceFSNodes_def Let_def split: if_splits prod.splits sum.splits)
  have "concat batches = queued b @ infoCmds t (fn_id (last nds))"
    unfolding batches by (subst writes_all) (simp_all add: capacity_entries queued_add)
  with writeNodes_cmds [OF t] nds(1) that show ?thesis by (simp add: queued_def)
qed

subsection \<open>The store that is left\<close>

lemma fields_nonempty: "workspaceFSNodeFields env nd = Inr (fvs, data, sz) \<Longrightarrow> fvs \<noteq> []"
  by (auto simp: workspaceFSNodeFields_def Let_def split: if_splits option.splits)

lemma hsetAll_key: "fvs \<noteq> [] \<Longrightarrow> hsetAll k fvs r k = Some (RHash (hashAt r k ++ map_of (rev fvs)))"
proof (induction fvs rule: rev_induct)
  case (snoc fv fvs)
  obtain f v where "fv = (f, v)" by (rule prod.exhaust)
  then show ?case using hashAt_hsetAll [of k fvs r] by (auto simp: hsetAll_def hset_def fun_eq_iff map_add_def)
qed simp

lemma node_content_part:
  assumes "r (KInode i) = None" and "trimSpace i = i" and ref: "trimSpace (re_contentRef env) \<in> {''ext'', ''array''}"
    and r': "r' = runAll (contentCmds env i data) r"
  shows "loadContent r' (KContent i) (re_contentRef env) (int (length data)) = Some data"
    and "k \<noteq> KContent i \<Longrightarrow> k \<noteq> KDirtySet \<Longrightarrow> r' k = r k"
proof -
  let ?r1 = "runAll (queueWriteFull (KContent i) (re_contentRef env) data) r"
  have r1: "k \<noteq> KContent i \<Longrightarrow> ?r1 k = r k" for k by (auto simp: queueWriteFull_def)
  have mark: "r' = ?r1 \<or> r' = sadd KDirtySet i ?r1"
    unfolding r' contentCmds_def using assms(1,2) r1 [of "KInode i"] by (simp add: isHashOrNone_def Let_def)
  then have same: "k \<noteq> KDirtySet \<Longrightarrow> r' k = ?r1 k" for k by auto
  have "?r1 (KContent i) = (if trimSpace (re_contentRef env) = ''array''
      then if data = [] then None else Some (RArray data) else Some (RString data))"
    by (simp add: queueWriteFull_def)
  with ref same [of "KContent i"] show "loadContent r' (KContent i) (re_contentRef env) (int (length data)) = Some data"
    by (auto simp: loadContent_def)
  show "k \<noteq> KContent i \<Longrightarrow> k \<noteq> KDirtySet \<Longrightarrow> r' k = r k" using same r1 by simp
qed

lemma node_written:
  assumes v: "workspaceFSNodeFields env nd = Inr (fvs, data, sz)" and new: "r (KInode (fn_id nd)) = None"
    and id: "trimSpace (fn_id nd) = fn_id nd" and ref: "trimSpace (re_contentRef env) \<in> {''ext'', ''array''}"
    and hash: "\<And>d. isHashOrNone r (KDirents d)"
  defines "r' \<equiv> runAll (nodeCommands env nd) r"
  shows "r' (KInode (fn_id nd)) = Some (RHash (map_of (rev fvs)))"
    and "i \<noteq> fn_id nd \<Longrightarrow> r' (KInode i) = r (KInode i)"
    and "r' (KDirents d) = (if d = fn_parentID nd \<and> d \<noteq> [] then Some (RHash ((hashAt r (KDirents d))(fn_name nd \<mapsto> fn_id nd))) else r (KDirents d))"
    and "me_type (fn_entry nd) = ''file'' \<Longrightarrow> loadContent r' (KContent (fn_id nd)) (re_contentRef env) (int (length data)) = Some data"
    and "i \<noteq> fn_id nd \<Longrightarrow> r' (KContent i) = r (KContent i)"
proof -
  define r1 where "r1 = (if me_type (fn_entry nd) = ''file'' then runAll (contentCmds env (fn_id nd) data) r else r)"
  note part = node_content_part [where r = r and i = "fn_id nd", OF new id ref refl]
  have r1: "r1 k = r k" if "k \<noteq> KContent (fn_id nd)" "k \<noteq> KDirtySet" for k
    unfolding r1_def using part(2) [OF that] by simp
  have ok: "isHashOrNone r1 (KInode (fn_id nd))" using r1 [of "KInode (fn_id nd)"] new by (simp add: isHashOrNone_def)
  have "r' = runAll (if fn_parentID nd \<noteq> [] then [CmdHSet (KDirents (fn_parentID nd)) [(fn_name nd, fn_id nd)]] else [])
      (runAll [CmdHSet (KInode (fn_id nd)) fvs] r1)"
    unfolding r'_def nodeCommands_def v nodeCmds_def r1_def by (simp only: sum.case prod.case runAll_append append_assoc if_distrib) simp
  then have cmds: "r' = runAll (if fn_parentID nd \<noteq> [] then [CmdHSet (KDirents (fn_parentID nd)) [(fn_name nd, fn_id nd)]] else [])
      (hsetAll (KInode (fn_id nd)) fvs r1)"
    using ok by simp
  have r': "r' = (if fn_parentID nd \<noteq> [] then hset (KDirents (fn_parentID nd)) (fn_name nd) (fn_id nd) (hsetAll (KInode (fn_id nd)) fvs r1)
      else hsetAll (KInode (fn_id nd)) fvs r1)"
  proof -
    have "isHashOrNone (hsetAll (KInode (fn_id nd)) fvs r1) (KDirents (fn_parentID nd))"
      using hash [of "fn_parentID nd"] r1 [of "KDirents (fn_parentID nd)"] by (simp add: isHashOrNone_def)
    moreover have "hsetAll k [(f, v)] r = hset k f v r" for k f v r by (simp add: hsetAll_def)
    ultimately show ?thesis unfolding cmds by simp
  qed
  show "r' (KInode (fn_id nd)) = Some (RHash (map_of (rev fvs)))"
    using hsetAll_key [OF fields_nonempty [OF v], of "KInode (fn_id nd)" r1] r1 [of "KInode (fn_id nd)"] new
    by (simp add: r' hashAt_def)
  show "i \<noteq> fn_id nd \<Longrightarrow> r' (KInode i) = r (KInode i)" using r1 by (simp add: r')
  show "r' (KDirents d) = (if d = fn_parentID nd \<and> d \<noteq> [] then Some (RHash ((hashAt r (KDirents d))(fn_name nd \<mapsto> fn_id nd))) else r (KDirents d))"
    using r1 [of "KDirents d"] by (auto simp: r' hset_def hashAt_def)
  show "i \<noteq> fn_id nd \<Longrightarrow> r' (KContent i) = r (KContent i)" using r1 by (simp add: r')
  show "loadContent r' (KContent (fn_id nd)) (re_contentRef env) (int (length data)) = Some data" if "me_type (fn_entry nd) = ''file''"
  proof -
    have "r' (KContent (fn_id nd)) = r1 (KContent (fn_id nd))" by (simp add: r')
    then have "loadContent r' (KContent (fn_id nd)) ref sz = loadContent r1 (KContent (fn_id nd)) ref sz" for ref sz
      by (simp add: loadContent_def)
    with part(1) that show ?thesis by (simp add: r1_def)
  qed
qed

text \<open>
  What the store holds once a list of nodes has been written: one hash for each node and none besides,
  the content of each file, and the name of each node under its parent.
\<close>

definition nodeStored :: "root_env \<Rightarrow> fs_node \<Rightarrow> redis \<Rightarrow> bool" where
  "nodeStored env nd r \<longleftrightarrow>
     (\<exists>fvs data sz. workspaceFSNodeFields env nd = Inr (fvs, data, sz) \<and> r (KInode (fn_id nd)) = Some (RHash (map_of (rev fvs)))
        \<and> (me_type (fn_entry nd) = ''file''
            \<longrightarrow> loadContent r (KContent (fn_id nd)) (re_contentRef env) (int (length data)) = Some data))"

definition rootStored :: "root_env \<Rightarrow> fs_node list \<Rightarrow> redis \<Rightarrow> bool" where
  "rootStored env nds r \<longleftrightarrow>
     (\<forall>nd \<in> set nds. nodeStored env nd r) \<and> (\<forall>i. r (KInode i) \<noteq> None \<longrightarrow> i \<in> fn_id ` set nds)
     \<and> (\<forall>d. isHashOrNone r (KDirents d))
     \<and> (\<forall>d n i. edgesOf r d n = Some i
          \<longleftrightarrow> (\<exists>nd \<in> set nds. fn_parentID nd = d \<and> d \<noteq> [] \<and> fn_name nd = n \<and> fn_id nd = i))"

definition emptyRoot :: "redis \<Rightarrow> bool" where
  "emptyRoot r \<longleftrightarrow> (\<forall>i. r (KInode i) = None \<and> r (KDirents i) = None)"

lemma nodeStored_cong:
  "r' (KInode (fn_id nd)) = r (KInode (fn_id nd)) \<Longrightarrow> r' (KContent (fn_id nd)) = r (KContent (fn_id nd))
     \<Longrightarrow> nodeStored env nd r' = nodeStored env nd r"
  by (simp add: nodeStored_def loadContent_def)

lemma node_stored:
  assumes v: "workspaceFSNodeFields env nd = Inr v" and new: "r (KInode (fn_id nd)) = None"
    and id: "trimSpace (fn_id nd) = fn_id nd" and ref: "trimSpace (re_contentRef env) \<in> {''ext'', ''array''}"
    and hash: "\<And>d. isHashOrNone r (KDirents d)"
    and r': "r' = runAll (nodeCommands env nd) r"
  shows "nodeStored env nd r'" and "isHashOrNone r' (KDirents d)"
    and "r' (KInode i) \<noteq> None \<longleftrightarrow> i = fn_id nd \<or> r (KInode i) \<noteq> None"
    and "fn_id nd' \<noteq> fn_id nd \<Longrightarrow> nodeStored env nd' r' = nodeStored env nd' r"
    and "edgesOf r' = (if fn_parentID nd = [] then edgesOf r else addEdge (fn_parentID nd) (fn_name nd) (fn_id nd) (edgesOf r))"
proof -
  obtain fvs data sz where v': "workspaceFSNodeFields env nd = Inr (fvs, data, sz)" using v by (cases v) auto
  note w = node_written [OF v' new id ref hash, folded r']
  show "nodeStored env nd r'" unfolding nodeStored_def using v' w(1,4) by blast
  show "isHashOrNone r' (KDirents d)" using w(3) [of d] hash [of d] by (simp add: isHashOrNone_def)
  show "r' (KInode i) \<noteq> None \<longleftrightarrow> i = fn_id nd \<or> r (KInode i) \<noteq> None" using w(1,2) by (cases "i = fn_id nd") auto
  show "fn_id nd' \<noteq> fn_id nd \<Longrightarrow> nodeStored env nd' r' = nodeStored env nd' r"
    using w(2,5) by (intro nodeStored_cong) simp_all
  show "edgesOf r' = (if fn_parentID nd = [] then edgesOf r else addEdge (fn_parentID nd) (fn_name nd) (fn_id nd) (edgesOf r))"
    using w(3) by (auto simp: fun_eq_iff edgesOf_def hget_def hashAt_def addEdge_def)
qed

lemma rootStored_list:
  assumes "nodeList nds" and "\<forall>nd \<in> set nds. \<exists>v. workspaceFSNodeFields env nd = Inr v" and "emptyRoot r0"
    and ref: "trimSpace (re_contentRef env) \<in> {''ext'', ''array''}"
  shows "rootStored env nds (runAll (concat (map (nodeCommands env) nds)) r0)"
  using assms(1,2)
proof (induction rule: nodeList.induct)
  case (node_root nd)
  then obtain v where v: "workspaceFSNodeFields env nd = Inr v" by auto
  have "trimSpace (fn_id nd) = fn_id nd" using trimSpace_digits [of 1] unfolding node_root.hyps(1) natDigits_one .
  note s = node_stored [OF v _ this ref _ refl, of r0]
  show ?case using s assms(3) node_root.hyps(3)
    by (auto simp: rootStored_def emptyRoot_def isHashOrNone_def edgesOf_def hget_def hashAt_def fun_eq_iff)
next
  case (node_below nds q cs nd)
  define r where "r = runAll (concat (map (nodeCommands env) nds)) r0"
  have IH: "rootStored env nds r" unfolding r_def using node_below.prems by (intro node_below.IH) simp
  obtain v where v: "workspaceFSNodeFields env nd = Inr v" using node_below.prems by auto
  have new: "r (KInode (fn_id nd)) = None" using IH node_below.hyps unfolding rootStored_def by blast
  have hash: "isHashOrNone r (KDirents d)" for d using IH by (simp add: rootStored_def)
  note s = node_stored [OF v new node_below.hyps(11) ref hash refl]
  have parent: "fn_parentID nd \<noteq> []" using nodeList_ids [OF node_below.hyps(1,2)] node_below.hyps(6) by simp
  define r' where "r' = runAll (nodeCommands env nd) r"
  note s = s [folded r'_def]
  have all: "nodeList (nds @ [nd])" by (rule nodeList.node_below [OF node_below.hyps])
  have other: "\<not> (fn_parentID nd' = fn_parentID nd \<and> fn_name nd' = fn_name nd)" if "nd' \<in> set nds" for nd'
    using nodeList_sibling [OF all, of nd' nd] parent that node_below.hyps(8) by auto
  have nodes: "\<forall>nd' \<in> set (nds @ [nd]). nodeStored env nd' r'"
  proof
    fix nd' assume "nd' \<in> set (nds @ [nd])"
    then consider "nd' = nd" | "nd' \<in> set nds" "fn_id nd' \<noteq> fn_id nd"
      using node_below.hyps(8) by (metis Un_iff empty_iff image_eqI insert_iff list.set(1,2) set_append)
    then show "nodeStored env nd' r'" using s(1,4) IH by cases (simp_all add: rootStored_def)
  qed
  have edges: "edgesOf r' d n = Some i
      \<longleftrightarrow> (\<exists>nd' \<in> set (nds @ [nd]). fn_parentID nd' = d \<and> d \<noteq> [] \<and> fn_name nd' = n \<and> fn_id nd' = i)" for d n i
  proof (cases "d = fn_parentID nd \<and> n = fn_name nd")
    case True
    then have "edgesOf r' d n = Some i \<longleftrightarrow> i = fn_id nd" using s(5) parent by (simp add: addEdge_iff)
    with True other parent show ?thesis by auto
  next
    case False
    then have "edgesOf r' d n = Some i \<longleftrightarrow> edgesOf r d n = Some i" using s(5) parent by (auto simp: addEdge_iff)
    also have "\<dots> \<longleftrightarrow> (\<exists>nd' \<in> set nds. fn_parentID nd' = d \<and> d \<noteq> [] \<and> fn_name nd' = n \<and> fn_id nd' = i)"
      using IH unfolding rootStored_def by blast
    finally show ?thesis using False by auto
  qed
  have "rootStored env (nds @ [nd]) r'"
    unfolding rootStored_def using nodes edges s(2,3) IH unfolding rootStored_def by auto
  then show ?case by (simp add: r'_def r_def)
qed

lemma storedD:
  assumes "rootStored env nds r"
  shows "nd \<in> set nds \<Longrightarrow> nodeStored env nd r" and "r (KInode i) \<noteq> None \<Longrightarrow> i \<in> fn_id ` set nds"
    and "isHashOrNone r (KDirents d)"
    and "edgesOf r d n = Some i \<longleftrightarrow> (\<exists>nd \<in> set nds. fn_parentID nd = d \<and> d \<noteq> [] \<and> fn_name nd = n \<and> fn_id nd = i)"
  using assms unfolding rootStored_def by blast+

lemma stored_live: "nodeStored env nd r \<Longrightarrow> fn_id nd \<in> liveIds r"
  by (auto simp: nodeStored_def liveIds_def)

subsection \<open>The root is a tree\<close>

lemma stored_fields:
  assumes "nodeStored env nd r"
  shows "hget r (KInode (fn_id nd)) ''type'' = Some (me_type (fn_entry nd))"
    and "hget r (KInode (fn_id nd)) ''parent'' = Some (fn_parentID nd)"
    and "hget r (KInode (fn_id nd)) ''name'' = Some (fn_name nd)"
    and "hget r (KInode (fn_id nd)) ''mode'' = Some (natDigits (unat (manifestEntryModeForWorkspaceFS (fn_entry nd))))"
    and "hget r (KInode (fn_id nd)) ''mtime_ms'' = Some (intText (me_mtimeMs (fn_entry nd)))"
    and "me_type (fn_entry nd) = ''symlink'' \<Longrightarrow> hget r (KInode (fn_id nd)) ''target'' = Some (me_target (fn_entry nd))"
  using assms unfolding nodeStored_def workspaceFSNodeFields_def
  by (auto simp: hget_def hashAt_def Let_def split: if_splits option.splits)

lemma stored_file:
  assumes "nodeStored env nd r" and "me_type (fn_entry nd) = ''file''"
  shows "\<exists>data. manifestEntryData (re_blobs env) (fn_entry nd) = Some data
     \<and> hget r (KInode (fn_id nd)) ''size'' = Some (intText (int (length data)))
     \<and> hget r (KInode (fn_id nd)) ''content_ref'' = Some (re_contentRef env)
     \<and> loadContent r (KContent (fn_id nd)) (re_contentRef env) (int (length data)) = Some data"
  using assms unfolding nodeStored_def workspaceFSNodeFields_def
  by (auto simp: hget_def hashAt_def Let_def split: if_splits option.splits)

lemma stored_type: "nodeStored env nd r \<Longrightarrow> me_type (fn_entry nd) \<in> {''dir'', ''file'', ''symlink''}"
  by (auto simp: nodeStored_def workspaceFSNodeFields_def Let_def split: if_splits)

lemma stored_edge:
  assumes "rootStored env nds r" and "nd \<in> set nds" and "fn_parentID nd \<noteq> []"
  shows "edgesOf r (fn_parentID nd) (fn_name nd) = Some (fn_id nd)"
  using assms(2,3) unfolding storedD(4) [OF assms(1)] by blast

lemma stored_below:
  "nodeList nds \<Longrightarrow> (\<And>nd. nd \<in> set nds \<Longrightarrow> fn_parentID nd \<noteq> [] \<Longrightarrow> ch (fn_parentID nd) (fn_name nd) = Some (fn_id nd))
     \<Longrightarrow> nd \<in> set nds \<Longrightarrow> below ch ''1'' (fn_id nd)"
proof (induction arbitrary: nd rule: nodeList.induct)
  case (node_root nd0)
  then show ?case by (simp add: below_refl)
next
  case (node_below nds q cs nd0)
  have old: "below ch ''1'' (fn_id nd)" if "nd \<in> set nds" for nd
    by (rule node_below.IH [OF _ that]) (use node_below.prems(1) in simp)
  show ?case
  proof (cases "nd \<in> set nds")
    case False
    with node_below.prems(2) have nd: "nd = nd0" by simp
    have "fn_parentID nd0 \<noteq> []" using nodeList_ids [OF node_below.hyps(1,2)] node_below.hyps(6) by simp
    from node_below.prems(1) [OF _ this] show ?thesis
      unfolding nd node_below.hyps(6) using old [OF node_below.hyps(2)] by (auto intro: below_step)
  qed (rule old)
qed

lemma root_is_tree:
  assumes list: "nodeList nds" and stored: "rootStored env nds r"
  shows "treeOk r"
proof -
  have live: "liveIds r = fn_id ` set nds"
    using storedD(1,2) [OF stored] stored_live by (fastforce simp: liveIds_def)
  obtain root where root: "root \<in> set nds" "isRootNode root" using nodeList_root [OF list] by blast
  have type: "hget r (KInode ''1'') ''type'' = Some ''dir''"
    using stored_fields(1) [OF storedD(1) [OF stored root(1)]] root(2) by (simp add: isRootNode_def)
  have edge: "\<exists>nd \<in> set nds. \<exists>q \<in> set nds. i = fn_id nd \<and> n = fn_name nd \<and> d = fn_id q \<and> fn_parentID nd = fn_id q
      \<and> me_type (fn_entry q) = ''dir'' \<and> i \<noteq> ''1''" if "edgesOf r d n = Some i" for d n i
  proof -
    from that obtain nd where nd: "nd \<in> set nds" "fn_parentID nd = d" "d \<noteq> []" "fn_name nd = n" "fn_id nd = i"
      unfolding storedD(4) [OF stored] by blast
    then have "\<not> isRootNode nd" by (auto simp: isRootNode_def)
    with nodeList_node [OF list nd(1)] obtain q where "q \<in> set nds" "fn_parentID nd = fn_id q" "me_type (fn_entry q) = ''dir''"
      by blast
    moreover have "i \<noteq> ''1''"
    proof
      assume "i = ''1''"
      then have "nd = root" using nodeList_same [OF list nd(1) root(1)] nd(5) root(2) by (simp add: isRootNode_def)
      with root(2) \<open>\<not> isRootNode nd\<close> show False by simp
    qed
    ultimately show ?thesis using nd by blast
  qed
  have "wfTree (edgesOf r) (liveIds r)"
  proof (rule wfTreeI)
    show "''1'' \<in> liveIds r" using type by (rule liveI)
    show "i \<noteq> ''1'' \<and> d \<in> liveIds r \<and> i \<in> liveIds r" if "edgesOf r d n = Some i" for d n i
      using edge [OF that] live by blast
    show "d = e \<and> n = m" if edges: "edgesOf r d n = Some i" "edgesOf r e m = Some i" for d n e m i
    proof -
      obtain nd where nd: "nd \<in> set nds" "i = fn_id nd" "n = fn_name nd" "d = fn_parentID nd" using edge [OF edges(1)] by auto
      obtain nd' where nd': "nd' \<in> set nds" "i = fn_id nd'" "m = fn_name nd'" "e = fn_parentID nd'" using edge [OF edges(2)] by auto
      have "nd = nd'" using nodeList_same [OF list nd(1) nd'(1)] nd(2) nd'(2) by simp
      with nd nd' show ?thesis by simp
    qed
    show "below (edgesOf r) ''1'' i" if "i \<in> liveIds r" for i
      using that stored_below [OF list stored_edge [OF stored]] unfolding live by blast
  qed
  moreover have "labelled r"
    unfolding labelled_def
  proof (intro allI impI)
    fix d n i assume "edgesOf r d n = Some i"
    from edge [OF this] obtain nd q where "nd \<in> set nds" "q \<in> set nds" "i = fn_id nd" "n = fn_name nd" "d = fn_id q"
      "fn_parentID nd = fn_id q" "me_type (fn_entry q) = ''dir''" by blast
    with stored_fields [OF storedD(1) [OF stored]]
    show "hget r (KInode d) ''type'' = Some ''dir'' \<and> hget r (KInode i) ''parent'' = Some d
        \<and> hget r (KInode i) ''name'' = Some n \<and> hget r (KInode i) ''type'' \<noteq> None" by simp
  qed
  ultimately show ?thesis using type by (simp add: treeOk_def)
qed

lemma rootStored_cong:
  assumes "\<And>k. k \<noteq> KInfo \<Longrightarrow> k \<noteq> KNextInode \<Longrightarrow> r' k = r k"
  shows "rootStored env nds r' = rootStored env nds r"
proof -
  have "nodeStored env nd r' = nodeStored env nd r" for nd using assms by (intro nodeStored_cong) simp_all
  moreover have "edgesOf r' = edgesOf r" using assms by (simp add: edgesOf_def hget_def hashAt_def fun_eq_iff)
  ultimately show ?thesis using assms by (simp add: rootStored_def isHashOrNone_def)
qed

lemma materialized:
  assumes "materializeManifestToWorkspaceFS env m = (None, batches)" and "emptyRoot r0"
    and "trimSpace (re_contentRef env) \<in> {''ext'', ''array''}"
  obtains nds where "buildWorkspaceFSNodes m = Inr nds" "rootStored env nds (runAll (concat batches) r0)"
proof -
  obtain nds t where nds: "buildWorkspaceFSNodes m = Inr nds" "\<forall>nd \<in> set nds. \<exists>v. workspaceFSNodeFields env nd = Inr v"
    and cmds: "concat batches = concat (map (nodeCommands env) nds) @ infoCmds t (fn_id (last nds))"
    using materialize_cmds [OF assms(1)] .
  define r where "r = runAll (concat (map (nodeCommands env) nds)) r0"
  have "rootStored env nds r"
    unfolding r_def using buildNodes(1) [OF nds(1) refl] nds(2) assms(2,3) by (rule rootStored_list)
  moreover have "runAll (concat batches) r0 = runAll (infoCmds t (fn_id (last nds))) r" by (simp add: cmds r_def)
  moreover have "k \<noteq> KInfo \<Longrightarrow> k \<noteq> KNextInode \<Longrightarrow> runAll (infoCmds t (fn_id (last nds))) r k = r k" for k
    by (rule runAll_other) (simp add: infoCmds_def)
  ultimately have "rootStored env nds (runAll (concat batches) r0)" using rootStored_cong by metis
  with nds(1) show ?thesis by (rule that)
qed

text \<open>
  C29: When the entries of a manifest have been written into an empty root, by any number of transactions,
  the directory hashes and the inode hashes form one tree below the root inode, every inode names its
  parent and its own name, and every parent is a directory, so that the native client finds the store
  it keeps intact itself.
\<close>

theorem materialized_root_is_tree:
  assumes "materializeManifestToWorkspaceFS env m = (None, batches)" and "emptyRoot r0"
    and "trimSpace (re_contentRef env) \<in> {''ext'', ''array''}"
  shows "treeOk (runAll (concat batches) r0)"
proof -
  obtain nds where "buildWorkspaceFSNodes m = Inr nds" "rootStored env nds (runAll (concat batches) r0)"
    using materialized [OF assms] .
  then show ?thesis using root_is_tree buildNodes(1) by blast
qed

definition exampleFile :: "string \<Rightarrow> manifest_entry" where
  "exampleFile d = \<lparr>me_type = ''file'', me_mode = 0, me_mtimeMs = 7, me_size = 1, me_blobID = d, me_inline = [], me_target = []\<rparr>"

definition exampleRoot :: entry_map where
  "exampleRoot = [(''/d/f'', exampleFile ''x''), (''/g'', exampleFile ''y'')]"

definition exampleRootEnv :: root_env where
  "exampleRootEnv = \<lparr>re_blobs = Some, re_contentRef = ''ext'', re_searchFields = (\<lambda>d. (''ready'', [])), re_stale = []\<rparr>"

lemma exampleRoot_written: "fst (materializeManifestToWorkspaceFS exampleRootEnv exampleRoot) = None"
  by code_simp

lemma exampleRoot_ref: "trimSpace (re_contentRef exampleRootEnv) \<in> {''ext'', ''array''}"
  by code_simp

theorem materialized_root_is_tree_witness:
  "fst (materializeManifestToWorkspaceFS exampleRootEnv exampleRoot) = None
   \<and> treeOk (runAll (concat (snd (materializeManifestToWorkspaceFS exampleRootEnv exampleRoot))) Map.empty)"
proof -
  have "materializeManifestToWorkspaceFS exampleRootEnv exampleRoot
      = (None, snd (materializeManifestToWorkspaceFS exampleRootEnv exampleRoot))"
    using exampleRoot_written by (metis prod.collapse)
  from materialized_root_is_tree [OF this _ exampleRoot_ref, of Map.empty] exampleRoot_written
  show ?thesis by (simp add: emptyRoot_def)
qed

end
