(* ===== verification/WorkspaceRootTrip.thy ===== *)
theory WorkspaceRootTrip
  imports WorkspaceRootWrite
begin

text \<open>
  Reading a materialized root back: the search by levels finds every node that is not below an ignored
  name, and each with the kind, mode, time, target and bytes that its manifest entry had.
\<close>

subsection \<open>Base64\<close>

lemma b64Value_char: "n < 64 \<Longrightarrow> b64Value (b64Char n) = Some n"
  by (auto simp: b64Value_def b64Char_def Let_def)

lemma b64Char_line: "b64Char n \<noteq> CHR 0x0A \<and> b64Char n \<noteq> CHR 0x0D"
proof -
  have ge: "43 \<le> (of_char (b64Char n) :: nat)" by (auto simp: b64Char_def)
  have "b64Char n \<noteq> c" if "(of_char c :: nat) < 43" for c using ge that by auto
  then show ?thesis by simp
qed

lemma pad_no_value: "b64Value CHR ''='' = None"
  by (simp add: b64Value_def)

lemma byte_bound: "(of_char (c :: char) :: nat) < 256"
  by simp

lemma b64_trip: "b64Decode (b64Encode d) = Some d"
proof (induction d rule: b64Encode.induct)
  case (2 a)
  define x :: nat where "x = of_char a"
  have "x < 256" "a = char_of x" by (simp_all add: x_def)
  then show ?case by (simp add: b64Value_char pad_no_value Let_def)
next
  case (3 a b)
  define x y :: nat where "x = of_char a" and "y = of_char b"
  have "x < 256" "a = char_of x" "y < 256" "b = char_of y" by (simp_all add: x_def y_def)
  then show ?case by (simp add: b64Value_char pad_no_value Let_def)
next
  case (4 a b c rest)
  define x y z :: nat where "x = of_char a" and "y = of_char b" and "z = of_char c"
  have "x < 256" "a = char_of x" "y < 256" "b = char_of y" "z < 256" "c = char_of z" by (simp_all add: x_def y_def z_def)
  with 4 show ?case by (simp add: b64Value_char Let_def)
qed simp

lemma decodeInline_b64Encode: "decodeInline (b64Encode d) = Some d"
proof -
  have "c \<noteq> CHR 0x0A \<and> c \<noteq> CHR 0x0D" if "c \<in> set (b64Encode d)" for c
    using that by (induction d rule: b64Encode.induct) (auto simp: Let_def b64Char_line)
  then have "filter (\<lambda>c. c \<noteq> CHR 0x0A \<and> c \<noteq> CHR 0x0D) (b64Encode d) = b64Encode d" by (simp add: filter_id_conv)
  then show ?thesis by (simp only: decodeInline_def b64_trip)
qed

subsection \<open>Reading one inode\<close>

lemma parse_intText: "- (2 ^ 63) \<le> i \<Longrightarrow> i < 2 ^ 63 \<Longrightarrow> toInt (Some (intText i)) = i"
proof -
  assume i: "- (2 ^ 63) \<le> i" "i < 2 ^ 63"
  have digits: "parseInt64 (natDigits n) = min (int n) (2 ^ 63 - 1)" for n
  proof -
    obtain c t where ct: "natDigits n = c # t" using natDigits_hd [of n] by (cases "natDigits n") auto
    have "digitVal c \<noteq> None" using natVal_natDigits [of n] by (auto simp: ct natVal_def split: option.splits)
    then have "c \<noteq> CHR ''-'' \<and> c \<noteq> CHR ''+''" by (auto simp: digitVal_def)
    then show ?thesis using natVal_natDigits [of n] by (simp add: parseInt64_def ct)
  qed
  show ?thesis
  proof (cases "i < 0")
    case True
    with i show ?thesis by (simp add: toInt_def intText_def parseInt64_def)
  next
    case False
    with i digits [of "nat i"] show ?thesis by (simp add: toInt_def intText_def)
  qed
qed

lemma parse_mode: "word_of_int (toInt (Some (natDigits (unat (w :: u32))))) = w"
proof -
  have "n < 2 ^ 63 \<Longrightarrow> toInt (Some (intText (int n))) = int n" for n :: nat by (rule parse_intText) simp_all
  then have "n < 2 ^ 63 \<Longrightarrow> toInt (Some (natDigits n)) = int n" for n :: nat by (simp add: intText_def)
  moreover have "unat w < 2 ^ 32" using unsigned_less [of w] by simp
  ultimately have "toInt (Some (natDigits (unat w))) = int (unat w)" by simp
  then show ?thesis by simp
qed

text \<open>What a node is read back as: its entry, and the bytes of a file.\<close>

definition readBack :: "(bytes \<Rightarrow> string) \<Rightarrow> root_env \<Rightarrow> manifest_entry \<Rightarrow> manifest_entry \<times> bytes" where
  "readBack sha env e =
     (let b = \<lparr>me_type = me_type e, me_mode = manifestEntryModeForWorkspaceFS e, me_mtimeMs = me_mtimeMs e, me_size = 0,
               me_blobID = [], me_inline = [], me_target = []\<rparr>
      in if me_type e = ''file''
         then let data = the (manifestEntryData (re_blobs env) e)
              in (if length data \<le> inlineThreshold then b\<lparr>me_size := int (length data), me_inline := b64Encode data\<rparr>
                  else b\<lparr>me_size := int (length data), me_blobID := sha data\<rparr>, data)
         else if me_type e = ''symlink''
         then (b\<lparr>me_target := me_target e, me_size := int (length (me_target e))\<rparr>, [])
         else (b, []))"

text \<open>Times and contents have to fit into the 64-bit numbers in which they are kept.\<close>

definition entryFits :: "root_env \<Rightarrow> manifest_entry \<Rightarrow> bool" where
  "entryFits env e \<longleftrightarrow> - (2 ^ 63) \<le> me_mtimeMs e \<and> me_mtimeMs e < 2 ^ 63
     \<and> (case manifestEntryData (re_blobs env) e of None \<Rightarrow> True | Some data \<Rightarrow> int (length data) < 2 ^ 63)"

definition itemOf :: "fs_node \<Rightarrow> string \<times> path" where
  "itemOf nd = (fn_id nd, fn_path nd)"

lemma me_type_readBack: "me_type (fst (readBack sha env e)) = me_type e"
  by (simp add: readBack_def Let_def)

lemma readRootItem_node:
  assumes "nodeStored env nd r" and "entryFits env (fn_entry nd)" and ref: "re_contentRef env \<noteq> []"
  shows "readRootItem sha r (itemOf nd)
     = Inr (if shouldIgnoreMountPath (fn_path nd) then None else Some (readBack sha env (fn_entry nd)))"
proof -
  let ?e = "fn_entry nd" and ?h = "hashAt r (KInode (fn_id nd))"
  note h = stored_fields [OF assms(1), unfolded hget_def]
  have hash: "isHashOrNone r (KInode (fn_id nd))" using assms(1) by (auto simp: nodeStored_def isHashOrNone_def)
  have mtime: "toInt (?h ''mtime_ms'') = me_mtimeMs ?e"
    using assms(2) unfolding h(5) by (intro parse_intText) (simp_all add: entryFits_def)
  have mode: "word_of_int (toInt (?h ''mode'')) = manifestEntryModeForWorkspaceFS ?e" unfolding h(4) by (rule parse_mode)
  note simps = readRootItem_def itemOf_def Let_def readBack_def hash h(1) mtime mode
  from stored_type [OF assms(1)] consider "me_type ?e = ''dir''" | "me_type ?e = ''symlink''" | "me_type ?e = ''file''" by blast
  then show ?thesis
  proof cases
    case 3
    from stored_file [OF assms(1) 3] obtain data where d: "manifestEntryData (re_blobs env) ?e = Some data"
      "?h ''size'' = Some (intText (int (length data)))" "?h ''content_ref'' = Some (re_contentRef env)"
      "loadContent r (KContent (fn_id nd)) (re_contentRef env) (int (length data)) = Some data" by (auto simp: hget_def)
    have "toInt (?h ''size'') = int (length data)"
      using assms(2) d(1) unfolding d(2) by (intro parse_intText) (simp_all add: entryFits_def)
    with 3 d ref show ?thesis by (simp add: simps toStr_def)
  next
    case 2
    then show ?thesis using h(6) by (simp add: simps toStr_def)
  next
    case 1
    then show ?thesis by (simp add: simps)
  qed
qed

subsection \<open>Reading one level\<close>

definition shown :: "fs_node \<Rightarrow> bool" where
  "shown nd \<longleftrightarrow> \<not> shouldIgnoreMountPath (fn_path nd)"

definition addNode :: "(bytes \<Rightarrow> string) \<Rightarrow> root_env \<Rightarrow> fs_node \<Rightarrow> built_manifest \<Rightarrow> built_manifest" where
  "addNode sha env nd b = (if shown nd then addRootItem (itemOf nd) (readBack sha env (fn_entry nd)) b else b)"

definition dirShown :: "fs_node \<Rightarrow> bool" where
  "dirShown nd \<longleftrightarrow> shown nd \<and> me_type (fn_entry nd) = ''dir''"

lemma readLevel_nodes:
  assumes "\<And>nd. nd \<in> set nds \<Longrightarrow> nodeStored env nd r \<and> entryFits env (fn_entry nd)" and "re_contentRef env \<noteq> []"
  shows "readLevel sha r (map itemOf nds) b = Inr (fold (addNode sha env) nds b, map itemOf (filter dirShown nds))"
  using assms(1)
proof (induction nds arbitrary: b)
  case (Cons nd nds)
  have "readRootItem sha r (itemOf nd)
      = Inr (if shouldIgnoreMountPath (fn_path nd) then None else Some (readBack sha env (fn_entry nd)))"
    using Cons.prems assms(2) by (intro readRootItem_node) simp_all
  with Cons show ?case by (simp add: addNode_def shown_def dirShown_def me_type_readBack)
qed simp

subsection \<open>Ignored names\<close>

definition ignoredName :: "string \<Rightarrow> bool" where
  "ignoredName x \<longleftrightarrow> hasPrefix x ''._'' \<or> x \<in> mountedArtifactNames"

lemma dropWhile_slash: "x \<noteq> [] \<Longrightarrow> CHR ''/'' \<notin> set x \<Longrightarrow> dropWhile (\<lambda>c. c = CHR ''/'') (x @ ys) = x @ ys"
  by (cases x) auto

lemma trimSlashes_pathOf:
  assumes "list_all plainPart cs"
  shows "trimSlashes (pathOf cs) = joinStr ''/'' cs"
proof (cases cs rule: rev_cases)
  case (snoc ds x)
  have x: "x \<noteq> []" "CHR ''/'' \<notin> set x" using assms snoc by (simp_all add: plainPart_def)
  obtain y ys where "cs = y # ys" using snoc by (metis append_is_Nil_conv list.exhaust not_Cons_self2)
  moreover have "\<exists>t. joinStr ''/'' (y # ys) = y @ t" by (cases ys) auto
  ultimately obtain y t where y: "joinStr ''/'' cs = y @ t" "y \<noteq> []" "CHR ''/'' \<notin> set y"
    using assms by (auto simp: plainPart_def)
  have last: "\<exists>t. rev (joinStr ''/'' cs) = rev x @ t"
    unfolding snoc by (cases "ds = []") (simp_all add: joinStr_snoc)
  then obtain t' where t': "rev (joinStr ''/'' cs) = rev x @ t'" by blast
  have "dropWhile (\<lambda>c. c = CHR ''/'') (pathOf cs) = joinStr ''/'' cs"
    using dropWhile_slash [OF y(2,3), of t] y(1) by simp
  moreover have "dropWhile (\<lambda>c. c = CHR ''/'') (rev (joinStr ''/'' cs)) = rev (joinStr ''/'' cs)"
    unfolding t' using x by (intro dropWhile_slash) simp_all
  ultimately show ?thesis by (simp only: trimSlashes_def rev_rev_ident)
qed (simp add: trimSlashes_def)

lemma ignore_pathOf:
  assumes "list_all plainPart cs"
  shows "shouldIgnoreMountPath (pathOf cs) = list_ex ignoredName cs"
proof (cases "cs = []")
  case False
  have "splitByte CHR ''/'' (joinStr ''/'' cs) = cs"
    using assms False by (intro splitByte_joinStr) (auto simp: list_all_iff plainPart_def)
  with False joinStr_plain [OF False assms] show ?thesis
    using trimSlashes_pathOf [OF assms] by (simp add: shouldIgnoreMountPath_def ignoredName_def [abs_def])
qed (simp add: shouldIgnoreMountPath_def)

subsection \<open>What has been read so far\<close>

definition readInv :: "(bytes \<Rightarrow> string) \<Rightarrow> root_env \<Rightarrow> fs_node set \<Rightarrow> built_manifest \<Rightarrow> bool" where
  "readInv sha env S b \<longleftrightarrow>
     (\<forall>nd \<in> S. shown nd \<longrightarrow> map_of (bm_entries b) (fn_path nd) = Some (fst (readBack sha env (fn_entry nd))))
     \<and> (\<forall>p. map_of (bm_entries b) p \<noteq> None \<longrightarrow> (\<exists>nd \<in> S. shown nd \<and> fn_path nd = p))
     \<and> (\<forall>(k, d) \<in> set (bm_blobs b). k = sha d)
     \<and> (\<forall>nd \<in> S. \<forall>e d. shown nd \<longrightarrow> readBack sha env (fn_entry nd) = (e, d) \<longrightarrow> me_type e = ''file'' \<longrightarrow> inlineThreshold < length d
          \<longrightarrow> map_of (bm_blobs b) (me_blobID e) \<noteq> None)"

lemma readBack_blob:
  "readBack sha env e = (e', d) \<Longrightarrow> me_type e' = ''file'' \<Longrightarrow> inlineThreshold < length d \<Longrightarrow> me_blobID e' = sha d"
  by (auto simp: readBack_def Let_def split: if_splits)

lemma addRootItem_fields:
  assumes "addRootItem (i, p) (e, d) b = b'" and "me_type e \<in> {''dir'', ''file'', ''symlink''}"
  shows "bm_entries b' = AList.update p e (bm_entries b)"
    and "bm_blobs b' = (if me_type e = ''file'' \<and> inlineThreshold < length d \<and> map_of (bm_blobs b) (me_blobID e) = None
                        then (me_blobID e, d) # bm_blobs b else bm_blobs b)"
  using assms by (auto simp: addRootItem_def Let_def)

lemma readInv_add:
  assumes inv: "readInv sha env S b" and inj: "inj_on fn_path N" "S \<subseteq> N" "nd \<in> N"
    and kind: "me_type (fn_entry nd) \<in> {''dir'', ''file'', ''symlink''}"
  shows "readInv sha env (insert nd S) (addNode sha env nd b)"
proof (cases "shown nd")
  case False
  with inv show ?thesis by (simp add: readInv_def addNode_def)
next
  case True
  obtain e d where ed: "readBack sha env (fn_entry nd) = (e, d)" by (rule prod.exhaust)
  then have "me_type e = me_type (fn_entry nd)" using me_type_readBack [of sha env "fn_entry nd"] by simp
  with kind have kind: "me_type e \<in> {''dir'', ''file'', ''symlink''}" by simp
  define b' where "b' = addNode sha env nd b"
  have b': "bm_entries b' = AList.update (fn_path nd) e (bm_entries b)"
    "bm_blobs b' = (if me_type e = ''file'' \<and> inlineThreshold < length d \<and> map_of (bm_blobs b) (me_blobID e) = None
                    then (me_blobID e, d) # bm_blobs b else bm_blobs b)"
    using addRootItem_fields [OF _ kind] True by (simp_all add: b'_def addNode_def ed itemOf_def)
  have same: "nd' = nd" if "nd' \<in> S" "fn_path nd' = fn_path nd" for nd'
    using that inj by (auto dest: inj_onD)
  have blob: "k = sha d'" if "(k, d') \<in> set (bm_blobs b')" for k d'
  proof -
    have old: "(k, d') \<in> set (bm_blobs b) \<Longrightarrow> k = sha d'" using inv unfolding readInv_def by blast
    from that readBack_blob [OF ed] show ?thesis unfolding b'(2) by (auto split: if_splits intro: old)
  qed
  have grows: "map_of (bm_blobs b) k \<noteq> None \<Longrightarrow> map_of (bm_blobs b') k \<noteq> None" for k by (simp add: b'(2))
  have "readInv sha env (insert nd S) b'"
    unfolding readInv_def
  proof (intro conjI ballI allI impI)
    fix nd' assume nd': "nd' \<in> insert nd S" "shown nd'"
    show "map_of (bm_entries b') (fn_path nd') = Some (fst (readBack sha env (fn_entry nd')))"
    proof (cases "fn_path nd' = fn_path nd")
      case True
      with nd' same have "nd' = nd" by blast
      with ed show ?thesis by (simp add: b'(1) update_conv')
    next
      case False
      with nd' inv show ?thesis unfolding readInv_def by (auto simp: b'(1) update_conv')
    qed
  next
    fix p assume p: "map_of (bm_entries b') p \<noteq> None"
    show "\<exists>nd' \<in> insert nd S. shown nd' \<and> fn_path nd' = p"
    proof (cases "p = fn_path nd")
      case False
      with p have "map_of (bm_entries b) p \<noteq> None" by (simp add: b'(1) update_conv')
      with inv show ?thesis unfolding readInv_def by blast
    qed (use True in blast)
  next
    fix kd assume "kd \<in> set (bm_blobs b')"
    with blob show "case kd of (k, d) \<Rightarrow> k = sha d" by (cases kd) simp
  next
    fix nd' e' d' assume nd': "nd' \<in> insert nd S" "shown nd'" "readBack sha env (fn_entry nd') = (e', d')"
      "me_type e' = ''file''" "inlineThreshold < length d'"
    show "map_of (bm_blobs b') (me_blobID e') \<noteq> None"
    proof (cases "nd' = nd")
      case True
      with nd' ed show ?thesis by (simp add: b'(2))
    next
      case False
      with nd' have "nd' \<in> S" by simp
      with nd' inv have "map_of (bm_blobs b) (me_blobID e') \<noteq> None" unfolding readInv_def by blast
      then show ?thesis by (rule grows)
    qed
  qed
  then show ?thesis by (simp only: b'_def)
qed

lemma readInv_fold:
  assumes "inj_on fn_path N" and "\<And>nd. nd \<in> N \<Longrightarrow> me_type (fn_entry nd) \<in> {''dir'', ''file'', ''symlink''}"
  shows "readInv sha env S b \<Longrightarrow> S \<subseteq> N \<Longrightarrow> set nds \<subseteq> N \<Longrightarrow> readInv sha env (S \<union> set nds) (fold (addNode sha env) nds b)"
proof (induction nds arbitrary: S b)
  case (Cons nd nds)
  have "readInv sha env (insert nd S) (addNode sha env nd b)"
    by (rule readInv_add [OF Cons.prems(1) assms(1) Cons.prems(2)]) (use Cons.prems(3) assms(2) in auto)
  from Cons.IH [OF this] Cons.prems(2,3) show ?case by simp
qed simp

subsection \<open>The search by levels\<close>

definition depthOf :: "fs_node \<Rightarrow> nat" where
  "depthOf nd = length (splitComponents (fn_path nd))"

definition orderOk :: "dir_order \<Rightarrow> redis \<Rightarrow> bool" where
  "orderOk order r \<longleftrightarrow> (\<forall>i. set (order i) = dom (edgesOf r i))"

lemma child_depth:
  assumes "nodeList nds" and "nd \<in> set nds" and "q \<in> set nds" and "fn_parentID nd = fn_id q"
  shows "depthOf nd = Suc (depthOf q)" and "shown nd \<Longrightarrow> shown q"
proof -
  obtain cs where cs: "list_all plainPart cs" "fn_path q = pathOf cs" "fn_path nd = pathOf (cs @ [fn_name nd])"
    using nodeList_child(2) [OF assms] by blast
  have name: "plainPart (fn_name nd)"
  proof -
    have "\<not> isRootNode nd" using assms(4) nodeList_ids [OF assms(1,3)] by (auto simp: isRootNode_def)
    with nodeList_node [OF assms(1,2)] show ?thesis by auto
  qed
  then have all: "list_all plainPart (cs @ [fn_name nd])" using cs(1) by simp
  show "depthOf nd = Suc (depthOf q)"
    unfolding depthOf_def cs(2,3) splitComponents_pathOf [OF all] splitComponents_pathOf [OF cs(1)] by simp
  show "shown nd \<Longrightarrow> shown q"
    unfolding shown_def cs(2,3) ignore_pathOf [OF all] ignore_pathOf [OF cs(1)] by simp
qed

lemma depth_bound: "nodeList nds \<Longrightarrow> nd \<in> set nds \<Longrightarrow> depthOf nd < length nds"
proof (induction arbitrary: nd rule: nodeList.induct)
  case (node_root nd0)
  then show ?case by (simp add: depthOf_def splitComponents_def)
next
  case (node_below nds q cs nd0)
  show ?case
  proof (cases "nd \<in> set nds")
    case True
    then show ?thesis using node_below.IH by fastforce
  next
    case False
    with node_below.prems have nd: "nd = nd0" by simp
    have "depthOf nd0 = Suc (depthOf q)"
      using child_depth(1) [OF nodeList.node_below [OF node_below.hyps], of nd0 q] node_below.hyps(2,6) by simp
    with node_below.IH [OF node_below.hyps(2)] show ?thesis by (simp add: nd)
  qed
qed

text \<open>A node above the root has a parent in the list, which is a directory, and is shown with its child.\<close>

lemma node_parent:
  assumes "nodeList nds" and "nd \<in> set nds" and "0 < depthOf nd" and "shown nd"
  shows "\<exists>q \<in> set nds. fn_parentID nd = fn_id q \<and> dirShown q \<and> depthOf nd = Suc (depthOf q)"
proof -
  have "\<not> isRootNode nd" using assms(3) by (auto simp: isRootNode_def depthOf_def splitComponents_def)
  with nodeList_node [OF assms(1,2)] obtain q where q: "q \<in> set nds" "fn_parentID nd = fn_id q" "me_type (fn_entry q) = ''dir''"
    by blast
  with child_depth [OF assms(1,2) q(1,2)] assms(4) show ?thesis by (auto simp: dirShown_def)
qed

lemma childItems_nodes:
  assumes list: "nodeList nds" and stored: "rootStored env nds r" and order: "orderOk order r" and q: "q \<in> set nds"
  shows "\<exists>cs. childItems order r (itemOf q) = map itemOf cs \<and> set cs = {nd \<in> set nds. fn_parentID nd = fn_id q}"
proof -
  have id: "fn_id q \<noteq> []" by (rule nodeList_ids [OF list q])
  have names: "set (sortStrings (order (fn_id q))) = dom (edgesOf r (fn_id q))" using order by (simp add: orderOk_def)
  define pick where "pick n = (SOME nd. nd \<in> set nds \<and> fn_parentID nd = fn_id q \<and> fn_name nd = n)" for n
  have pick: "pick n \<in> set nds \<and> fn_parentID (pick n) = fn_id q \<and> fn_name (pick n) = n
      \<and> edgesOf r (fn_id q) n = Some (fn_id (pick n))" if "n \<in> dom (edgesOf r (fn_id q))" for n
  proof -
    from that obtain i where i: "edgesOf r (fn_id q) n = Some i" by blast
    then obtain nd where "nd \<in> set nds" "fn_parentID nd = fn_id q" "fn_name nd = n" unfolding storedD(4) [OF stored] by blast
    then have p: "pick n \<in> set nds \<and> fn_parentID (pick n) = fn_id q \<and> fn_name (pick n) = n"
      unfolding pick_def by (metis (mono_tags, lifting) someI_ex)
    then have "edgesOf r (fn_id q) n = Some (fn_id (pick n))" using stored_edge [OF stored, of "pick n"] id by simp
    with p show ?thesis by simp
  qed
  let ?cs = "map pick (sortStrings (order (fn_id q)))"
  have "childItems order r (itemOf q) = map itemOf ?cs"
    unfolding childItems_def itemOf_def Let_def prod.case map_map
  proof (rule map_cong [OF refl])
    fix n assume "n \<in> set (sortStrings (order (fn_id q)))"
    with names pick [of n] have p: "pick n \<in> set nds" "fn_parentID (pick n) = fn_id q" "fn_name (pick n) = n"
      "edgesOf r (fn_id q) n = Some (fn_id (pick n))" by simp_all
    with nodeList_child(1) [OF list p(1) q p(2)]
    show "(the (hget r (KDirents (fn_id q)) n), joinPath (fn_path q) n) = ((\<lambda>nd. (fn_id nd, fn_path nd)) \<circ> pick) n"
      by (simp add: edgesOf_def)
  qed
  moreover have "set ?cs = {nd \<in> set nds. fn_parentID nd = fn_id q}"
  proof (rule set_eqI, rule iffI)
    fix nd assume "nd \<in> set ?cs"
    with names pick show "nd \<in> {nd \<in> set nds. fn_parentID nd = fn_id q}" by auto
  next
    fix nd assume nd: "nd \<in> {nd \<in> set nds. fn_parentID nd = fn_id q}"
    with stored_edge [OF stored, of nd] id have e: "fn_name nd \<in> dom (edgesOf r (fn_id q))" by auto
    have "pick (fn_name nd) = nd"
      using pick [OF e] nd id by (intro nodeList_sibling [OF list]) simp_all
    with e names show "nd \<in> set ?cs" by (metis image_eqI list.set_map)
  qed
  ultimately show ?thesis by blast
qed

lemma childLevel_nodes:
  assumes "nodeList nds" and "rootStored env nds r" and "orderOk order r"
  shows "set qs \<subseteq> set nds \<Longrightarrow> \<exists>cs. concat (map (childItems order r) (map itemOf qs)) = map itemOf cs
     \<and> set cs = {nd \<in> set nds. \<exists>q \<in> set qs. fn_parentID nd = fn_id q}"
proof (induction qs)
  case (Cons q qs)
  then obtain cs where cs: "concat (map (childItems order r) (map itemOf qs)) = map itemOf cs"
    "set cs = {nd \<in> set nds. \<exists>q \<in> set qs. fn_parentID nd = fn_id q}" by auto
  obtain ds where ds: "childItems order r (itemOf q) = map itemOf ds" "set ds = {nd \<in> set nds. fn_parentID nd = fn_id q}"
    using childItems_nodes [OF assms, of q] Cons.prems by auto
  have "concat (map (childItems order r) (map itemOf (q # qs))) = map itemOf (ds @ cs)" by (simp add: ds(1) cs(1) del: map_map)
  moreover have "set (ds @ cs) = {nd \<in> set nds. \<exists>q' \<in> set (q # qs). fn_parentID nd = fn_id q'}" using cs(2) ds(2) by auto
  ultimately show ?case by blast
qed simp

text \<open>When no shown node has some depth, none has a greater one.\<close>

lemma no_deeper:
  assumes "nodeList nds" and "\<And>nd. nd \<in> set nds \<Longrightarrow> shown nd \<Longrightarrow> depthOf nd \<noteq> k"
  shows "nd \<in> set nds \<Longrightarrow> shown nd \<Longrightarrow> depthOf nd < k"
proof (induction "depthOf nd" arbitrary: nd rule: less_induct)
  case less
  show ?case
  proof (rule ccontr)
    assume "\<not> depthOf nd < k"
    with assms(2) [OF less.prems] have deep: "k < depthOf nd" by simp
    then obtain q where q: "q \<in> set nds" "dirShown q" "depthOf nd = Suc (depthOf q)"
      using node_parent [OF assms(1) less.prems(1) _ less.prems(2)] by auto
    with less.hyps [of q] have "depthOf q < k" by (simp add: dirShown_def)
    with deep q(3) show False by simp
  qed
qed

lemma readLevels_nodes:
  assumes list: "nodeList nds" and stored: "rootStored env nds r" and order: "orderOk order r"
    and fits: "\<And>nd. nd \<in> set nds \<Longrightarrow> entryFits env (fn_entry nd)" and ref: "re_contentRef env \<noteq> []"
  shows "readInv sha env S b \<Longrightarrow> S \<subseteq> set nds \<Longrightarrow> set level \<subseteq> {nd \<in> set nds. depthOf nd = k}
    \<Longrightarrow> {nd \<in> set nds. shown nd \<and> depthOf nd < k} \<subseteq> S \<Longrightarrow> {nd \<in> set nds. shown nd \<and> depthOf nd = k} \<subseteq> set level
    \<Longrightarrow> \<forall>nd \<in> set nds. depthOf nd + 1 < k + fuel \<Longrightarrow> 0 < fuel
    \<Longrightarrow> \<exists>b' S'. readLevels fuel sha order r (map itemOf level) b = Some (Inr b') \<and> readInv sha env S' b'
          \<and> S' \<subseteq> set nds \<and> {nd \<in> set nds. shown nd} \<subseteq> S'"
proof (induction fuel arbitrary: S b level k)
  case (Suc n)
  note prems = Suc.prems
  have inj: "inj_on fn_path (set nds)" using nodeList_distinct [OF list] by (simp add: distinct_map)
  have kinds: "me_type (fn_entry nd) \<in> {''dir'', ''file'', ''symlink''}" if "nd \<in> set nds" for nd
    by (rule stored_type [OF storedD(1) [OF stored that]])
  show ?case
  proof (cases "level = []")
    case True
    then have "depthOf nd \<noteq> k" if "nd \<in> set nds" "shown nd" for nd using prems(5) that by auto
    then have "{nd \<in> set nds. shown nd} \<subseteq> S" using no_deeper [OF list] prems(4) by blast
    with True prems(1,2) show ?thesis by auto
  next
    case False
    define S1 where "S1 = S \<union> set level"
    define b1 where "b1 = fold (addNode sha env) level b"
    have read: "readLevel sha r (map itemOf level) b = Inr (b1, map itemOf (filter dirShown level))"
      unfolding b1_def by (rule readLevel_nodes [OF _ ref]) (use prems(3) fits storedD(1) [OF stored] in blast)
    have inv: "readInv sha env S1 b1"
      unfolding S1_def b1_def by (rule readInv_fold [OF inj kinds prems(1,2)]) (use prems(3) in auto)
    have S1: "S1 \<subseteq> set nds" "{nd \<in> set nds. shown nd \<and> depthOf nd < Suc k} \<subseteq> S1"
      using prems(2-5) by (auto simp: S1_def less_Suc_eq)
    show ?thesis
    proof (cases "filter dirShown level = []")
      case True
      have none: "depthOf nd \<noteq> Suc k" if nd: "nd \<in> set nds" "shown nd" for nd
      proof
        assume "depthOf nd = Suc k"
        then obtain q where "q \<in> set nds" "dirShown q" "depthOf q = k" using node_parent [OF list nd(1) _ nd(2)] by auto
        then have "q \<in> set (filter dirShown level)" using prems(5) by (auto simp: dirShown_def)
        with True show False by simp
      qed
      have "{nd \<in> set nds. shown nd} \<subseteq> S1" using no_deeper [OF list none] S1(2) by blast
      moreover have "readLevels (Suc n) sha order r (map itemOf level) b = Some (Inr b1)" using False True read by simp
      ultimately show ?thesis using inv S1(1) by blast
    next
      case dirs: False
      let ?ds = "filter dirShown level"
      have ds: "set ?ds \<subseteq> set nds" using prems(3) by auto
      obtain cs where cs: "concat (map (childItems order r) (map itemOf ?ds)) = map itemOf cs"
        "set cs = {nd \<in> set nds. \<exists>q \<in> set ?ds. fn_parentID nd = fn_id q}"
        using childLevel_nodes [OF list stored order ds] by blast
      have hash: "list_all (\<lambda>(i, p). isHashOrNone r (KDirents i)) (map itemOf ?ds)"
        using storedD(3) [OF stored] by (simp add: list_all_iff itemOf_def)
      have go: "readLevels (Suc n) sha order r (map itemOf level) b = readLevels n sha order r (map itemOf cs) b1"
        using False dirs hash cs(1) by (simp only: readLevels.simps read sum.case prod.case map_is_Nil_conv if_False not_True_eq_False)
      obtain q where q: "q \<in> set ?ds" using dirs by (cases ?ds) auto
      then have "q \<in> set nds" "depthOf q = k" using prems(3) by auto
      then have n: "0 < n" using prems(6) by fastforce
      have level: "set cs \<subseteq> {nd \<in> set nds. depthOf nd = Suc k}"
      proof
        fix nd assume "nd \<in> set cs"
        then obtain q where q: "nd \<in> set nds" "q \<in> set ?ds" "fn_parentID nd = fn_id q" using cs(2) by auto
        with ds prems(3) child_depth(1) [OF list q(1) _ q(3)] show "nd \<in> {nd \<in> set nds. depthOf nd = Suc k}" by auto
      qed
      have all: "{nd \<in> set nds. shown nd \<and> depthOf nd = Suc k} \<subseteq> set cs"
      proof
        fix nd assume nd: "nd \<in> {nd \<in> set nds. shown nd \<and> depthOf nd = Suc k}"
        then obtain q where "q \<in> set nds" "fn_parentID nd = fn_id q" "dirShown q" "depthOf q = k"
          using node_parent [OF list, of nd] by auto
        with prems(5) nd show "nd \<in> set cs" unfolding cs(2) by (auto simp: dirShown_def)
      qed
      have "\<forall>nd \<in> set nds. depthOf nd + 1 < Suc k + n" using prems(6) by simp
      from Suc.IH [OF inv S1(1) level S1(2) all this n] show ?thesis unfolding go .
    qed
  qed
qed simp

subsection \<open>The round trip\<close>

text \<open>What has to agree between the entry that was written and the entry that is read.\<close>

definition sameEntry :: "root_env \<Rightarrow> (string \<Rightarrow> bytes option) \<Rightarrow> manifest_entry \<Rightarrow> manifest_entry \<Rightarrow> bool" where
  "sameEntry env blobs e e' \<longleftrightarrow>
     me_type e' = me_type e \<and> me_mode e' = manifestEntryModeForWorkspaceFS e \<and> me_mtimeMs e' = me_mtimeMs e
     \<and> (me_type e = ''symlink'' \<longrightarrow> me_target e' = me_target e)
     \<and> (me_type e = ''file'' \<longrightarrow> manifestEntryData blobs e' = manifestEntryData (re_blobs env) e)"

lemma trim_refs: "trimSpace ''ext'' = ''ext''" "trimSpace ''array'' = ''array''"
  by code_simp+

lemma b64Encode_Nil [simp]: "b64Encode d = [] \<longleftrightarrow> d = []"
  by (cases d rule: b64Encode.cases) (simp_all add: Let_def)

lemma readInv_blobs: "readInv sha env S b \<Longrightarrow> (k, d) \<in> set (bm_blobs b) \<Longrightarrow> k = sha d"
  unfolding readInv_def by blast

lemma readBack_same:
  assumes inv: "readInv sha env S b" and nd: "nd \<in> S" "shown nd"
    and data: "me_type (fn_entry nd) = ''file'' \<Longrightarrow> manifestEntryData (re_blobs env) (fn_entry nd) \<noteq> None"
    and sha: "inj sha" "\<And>d. sha d \<noteq> []"
  shows "sameEntry env (map_of (bm_blobs b)) (fn_entry nd) (fst (readBack sha env (fn_entry nd)))"
proof (cases "me_type (fn_entry nd) = ''file''")
  case True
  with data obtain d where d: "manifestEntryData (re_blobs env) (fn_entry nd) = Some d" by blast
  obtain e d' where ed: "readBack sha env (fn_entry nd) = (e, d')" by (rule prod.exhaust)
  have e: "d' = d" "me_type e = ''file''" "length d \<le> inlineThreshold \<Longrightarrow> me_inline e = b64Encode d \<and> me_blobID e = []"
    "me_size e = int (length d)" "inlineThreshold < length d \<Longrightarrow> me_inline e = [] \<and> me_blobID e = sha d"
    "me_mode e = manifestEntryModeForWorkspaceFS (fn_entry nd)" "me_mtimeMs e = me_mtimeMs (fn_entry nd)"
    using ed True d by (auto simp: readBack_def Let_def split: if_splits)
  have "manifestEntryData (map_of (bm_blobs b)) e = Some d"
  proof (cases "length d \<le> inlineThreshold")
    case True
    with e show ?thesis using decodeInline_b64Encode [of d] by (cases "d = []") (simp_all add: manifestEntryData_def)
  next
    case False
    then have "map_of (bm_blobs b) (me_blobID e) \<noteq> None"
      using inv nd ed e(1,2) unfolding readInv_def by (metis not_le)
    then obtain d1 where d1: "map_of (bm_blobs b) (sha d) = Some d1" using e(5) False by auto
    then have "sha d = sha d1" using readInv_blobs [OF inv] map_of_SomeD by metis
    with sha(1) have "d1 = d" by (simp add: inj_def)
    with d1 e(5) False sha(2) show ?thesis by (simp add: manifestEntryData_def)
  qed
  with d e True show ?thesis by (simp add: sameEntry_def ed)
qed (simp add: sameEntry_def readBack_def Let_def)

text \<open>
  C28: A live root reads back as the manifest it was written from.  When the entries of a manifest have
  been written into an empty root, building a manifest from the root succeeds, however the directory
  hashes list their names, and within as many levels as there are entries.  For every path that is not
  below an operating system artifact the manifest that is built has an entry exactly when the completed
  manifest has one, with the same kind, mode, time, link target and file bytes; entries below an
  artifact are dropped.
\<close>

theorem root_round_trip:
  assumes "materializeManifestToWorkspaceFS env m = (None, batches)" and "emptyRoot r0" and "re_contentRef env \<in> {''ext'', ''array''}"
    and "r = runAll (concat batches) r0" and "\<And>p e. map_of (workspaceFSManifestEntries m) p = Some e \<Longrightarrow> entryFits env e"
    and "orderOk order r" and "inj sha" and "\<And>d. sha d \<noteq> []" and "length (workspaceFSManifestEntries m) < fuel"
  shows "\<exists>b. BuildManifestFromWorkspaceRoot fuel sha order r = Some (Inr b)
     \<and> (\<forall>p. if shouldIgnoreMountPath p then map_of (bm_entries b) p = None
            else rel_option (sameEntry env (map_of (bm_blobs b))) (map_of (workspaceFSManifestEntries m) p) (map_of (bm_entries b) p))"
proof -
  define es where "es = workspaceFSManifestEntries m"
  have ref: "trimSpace (re_contentRef env) \<in> {''ext'', ''array''}" "re_contentRef env \<noteq> []"
    using assms(3) trim_refs by auto
  obtain nds where nds: "buildWorkspaceFSNodes m = Inr nds" "rootStored env nds r"
    using materialized [OF assms(1,2) ref(1)] assms(4) by metis
  note build = buildNodes [OF nds(1) es_def]
  have fits: "entryFits env (fn_entry nd)" if "nd \<in> set nds" for nd using build(2) [OF that] assms(5) by (simp add: es_def)
  obtain root where root: "root \<in> set nds" "isRootNode root" using nodeList_root [OF build(1)] by blast
  then have item: "itemOf root = (''1'', ''/'')" "depthOf root = 0"
    by (simp_all add: isRootNode_def itemOf_def depthOf_def splitComponents_def)
  have only: "nd = root" if "nd \<in> set nds" "depthOf nd = 0" "shown nd" for nd
  proof -
    have "isRootNode nd" using nodeList_node [OF build(1) that(1)] child_depth(1) [OF build(1) that(1)] that(2) by fastforce
    with root(2) show ?thesis using nodeList_same_path [OF build(1) that(1) root(1)] by (simp add: isRootNode_def)
  qed
  have fuel: "length nds < fuel" using build(4) assms(9) by (simp add: es_def)
  then have deep: "\<forall>nd \<in> set nds. depthOf nd + 1 < 0 + fuel"
    by (intro ballI) (drule depth_bound [OF build(1)], simp)
  have start: "readInv sha env {} emptyManifest" by (simp add: readInv_def emptyManifest_def)
  have level: "set [root] \<subseteq> {nd \<in> set nds. depthOf nd = 0}" "{nd \<in> set nds. shown nd \<and> depthOf nd < 0} \<subseteq> {}"
    using root(1) item(2) by simp_all
  have top: "{nd \<in> set nds. shown nd \<and> depthOf nd = 0} \<subseteq> set [root]"
  proof
    fix nd assume "nd \<in> {nd \<in> set nds. shown nd \<and> depthOf nd = 0}"
    then have "nd \<in> set nds" "depthOf nd = 0" "shown nd" by simp_all
    from only [OF this] show "nd \<in> set [root]" by simp
  qed
  obtain b S where b: "readLevels fuel sha order r [(''1'', ''/'')] emptyManifest = Some (Inr b)" and inv: "readInv sha env S b"
    and S: "S \<subseteq> set nds" "{nd \<in> set nds. shown nd} \<subseteq> S"
    using readLevels_nodes [OF build(1) nds(2) assms(6) fits ref(2) start empty_subsetI level top deep] fuel item(1) by auto
  have entries: "if shouldIgnoreMountPath p then map_of (bm_entries b) p = None
      else rel_option (sameEntry env (map_of (bm_blobs b))) (map_of es p) (map_of (bm_entries b) p)" for p
  proof (cases "\<exists>nd \<in> set nds. shown nd \<and> fn_path nd = p")
    case True
    then obtain nd where nd: "nd \<in> set nds" "shown nd" "fn_path nd = p" by blast
    then have "nd \<in> S" using S(2) by blast
    moreover have "me_type (fn_entry nd) = ''file'' \<Longrightarrow> manifestEntryData (re_blobs env) (fn_entry nd) \<noteq> None"
      using stored_file [OF storedD(1) [OF nds(2) nd(1)]] by auto
    ultimately have "sameEntry env (map_of (bm_blobs b)) (fn_entry nd) (fst (readBack sha env (fn_entry nd)))"
      using readBack_same [OF inv _ nd(2) _ assms(7,8)] by blast
    moreover have "map_of (bm_entries b) p = Some (fst (readBack sha env (fn_entry nd)))"
      using inv \<open>nd \<in> S\<close> nd(2,3) unfolding readInv_def by blast
    ultimately show ?thesis using build(2) [OF nd(1)] nd(2,3) by (simp add: shown_def)
  next
    case False
    then have "map_of (bm_entries b) p = None" using inv S(1) unfolding readInv_def by blast
    moreover have "map_of es p = None" if "\<not> shouldIgnoreMountPath p"
      using that False build(3) unfolding shown_def map_of_eq_None_iff by (metis image_iff)
    ultimately show ?thesis by simp
  qed
  have "\<not> shouldIgnoreMountPath ''/''" by (simp add: shouldIgnoreMountPath_def)
  moreover have "map_of es ''/'' \<noteq> None" using build(2) [OF root(1)] root(2) by (simp add: isRootNode_def)
  ultimately have "map_of (bm_entries b) ''/'' \<noteq> None" using entries [of "''/''"]
    by (auto simp: rel_option_iff split: option.splits)
  then have "BuildManifestFromWorkspaceRoot fuel sha order r = Some (Inr b)"
    using b by (auto simp: BuildManifestFromWorkspaceRoot_def)
  then show ?thesis using entries unfolding es_def by blast
qed

text \<open>The example root has the files \<open>/d/f\<close> and \<open>/g\<close>; the directory \<open>/d\<close> is not in the manifest.\<close>

definition exampleStored :: redis where
  "exampleStored = runAll (concat (snd (materializeManifestToWorkspaceFS exampleRootEnv exampleRoot))) Map.empty"

lemma exampleRoot_entries:
  "map fst (workspaceFSManifestEntries exampleRoot) = [''/d/f'', ''/g'', ''/'', ''/d'']"
  "list_all (\<lambda>(p, e). entryFits exampleRootEnv e) (workspaceFSManifestEntries exampleRoot)"
  by code_simp+

lemma exampleRoot_file: "map_of (workspaceFSManifestEntries exampleRoot) ''/d/f'' = Some (exampleFile ''x'')"
  by code_simp

lemma exampleRoot_shown: "\<not> shouldIgnoreMountPath ''/d/f''"
  by (simp add: shouldIgnoreMountPath_def trimSlashes_def mountedArtifactNames_def hasPrefix_def)

text \<open>Names in the order of the nodes are an order in which the directory hashes may be listed.\<close>

definition nodeOrder :: "fs_node list \<Rightarrow> dir_order" where
  "nodeOrder nds i = map fn_name (filter (\<lambda>nd. i \<noteq> [] \<and> fn_parentID nd = i) nds)"

lemma orderOk_nodes:
  assumes "rootStored env nds r"
  shows "orderOk (nodeOrder nds) r"
  unfolding orderOk_def
proof
  fix i
  have "n \<in> set (nodeOrder nds i) \<longleftrightarrow> n \<in> dom (edgesOf r i)" for n
    using storedD(4) [OF assms, of i n] by (auto simp: nodeOrder_def)
  then show "set (nodeOrder nds i) = dom (edgesOf r i)" by blast
qed

theorem root_round_trip_witness:
  "\<exists>order b. BuildManifestFromWorkspaceRoot 5 (\<lambda>d. CHR ''h'' # d) order exampleStored = Some (Inr b)
     \<and> rel_option (sameEntry exampleRootEnv (map_of (bm_blobs b))) (Some (exampleFile ''x'')) (map_of (bm_entries b) ''/d/f'')"
proof -
  have run: "materializeManifestToWorkspaceFS exampleRootEnv exampleRoot
      = (None, snd (materializeManifestToWorkspaceFS exampleRootEnv exampleRoot))"
    using exampleRoot_written by (metis prod.collapse)
  have empty: "emptyRoot Map.empty" by (simp add: emptyRoot_def)
  obtain nds where "rootStored exampleRootEnv nds exampleStored"
    using materialized [OF run empty exampleRoot_ref] unfolding exampleStored_def by blast
  then have order: "orderOk (nodeOrder nds) exampleStored" by (rule orderOk_nodes)
  have fits: "entryFits exampleRootEnv e" if "map_of (workspaceFSManifestEntries exampleRoot) p = Some e" for p e
    using map_of_SomeD [OF that] exampleRoot_entries(2) by (auto simp: list_all_iff)
  have ref: "re_contentRef exampleRootEnv \<in> {''ext'', ''array''}" by (simp add: exampleRootEnv_def)
  have len: "length (workspaceFSManifestEntries exampleRoot) < 5"
    using arg_cong [OF exampleRoot_entries(1), of length] by simp
  have sha: "inj (\<lambda>d. CHR ''h'' # d :: string)" by (simp add: inj_def)
  have "\<exists>b. BuildManifestFromWorkspaceRoot 5 (\<lambda>d. CHR ''h'' # d) (nodeOrder nds) exampleStored = Some (Inr b)
     \<and> (\<forall>p. if shouldIgnoreMountPath p then map_of (bm_entries b) p = None
            else rel_option (sameEntry exampleRootEnv (map_of (bm_blobs b)))
                   (map_of (workspaceFSManifestEntries exampleRoot) p) (map_of (bm_entries b) p))"
    by (rule root_round_trip [OF run empty ref exampleStored_def _ order sha _ len]) (erule fits | simp)+
  then show ?thesis using exampleRoot_shown exampleRoot_file by (metis (no_types, lifting))
qed

text \<open>An ignored name does not survive the way through the live root.\<close>

lemma artifact_names_dropped:
  "shouldIgnoreMountPath ''/src/._notes/a.txt''" "shouldIgnoreMountPath ''/.DS_Store''"
  by (simp_all add: shouldIgnoreMountPath_def trimSlashes_def mountedArtifactNames_def hasPrefix_def)

end
