(* ===== verification/Spec2Isabelle.thy ===== *)
theory Spec2Isabelle
  imports Prelude FileLocks SyncState SyncChunks SyncPaths FullReconcile PlanExecution EventReconcile
    FileSnapshots Publication PublicationHistory UploadWorker DownloadWorker TreeStore TreeOps TreeInvariant TreeSystem
    ArrayContent RangeWrites ChunkPublication Glob ArraySearch CommandGrep
    TextDiff ManifestDiff ChangeLog WorkspaceRoot WorkspaceRootWrite WorkspaceRootTrip
begin

text \<open>
  Agent Filesystem keeps a directory tree in Redis and mirrors it into local directories.  This
  library models the parts of the Go sources that decide what happens to a user's data and proves
  what makes them correct.

  \<^bold>\<open>The program.\<close>  The sync daemon (\<open>src/cmd/afs/sync_*.go\<close>) watches a local tree and a remote
  tree.  A reconciler owns the recorded baseline (one entry per path, with a version from a counter),
  plans a full pass at the start and on demand, and otherwise handles one event at a time: watcher
  events, remote invalidations, results.  It hands work to an upload worker and a download worker
  through two queues.  The workers talk to the client (\<open>src/mount/internal/client\<close>), which reads
  optimistic snapshots of remote files and publishes files with Lua scripts that run atomically in
  Redis.  The client resolves paths and changes the tree by optimistic transactions, reads and writes
  ranges of open files, searches their content, and keeps POSIX byte-range locks for the mounts.  The
  control plane (\<open>src/internal/controlplane\<close>) compares checkpoints, keeps a change log, and writes a
  checkpoint into the live root of a workspace and reads one back.

  \<^bold>\<open>Theories and sources.\<close>
  \<^item> \<open>Prelude\<close>: Go's base types, the string functions the sources call, decimal numbers, results of
    system calls, generic lemmas.
  \<^item> \<open>FileLocks\<close>: \<open>native_locks.go\<close>.  The lock table of an inode as a map from owners to sorted
    disjoint ranges; \<open>Setlk\<close>, \<open>UnlockAll\<close>, \<open>Getlk\<close>, expiry of sessions.  An inductive set of reachable
    tables carries mutual exclusion.
  \<^item> \<open>SyncState\<close>: \<open>sync_state.go\<close>, the work items of \<open>sync_uploader.go\<close>, \<open>sync_downloader.go\<close> and
    \<open>sync_recovery_plan.go\<close>.  The baseline, its debounced writer, the queues, pending uploads.
  \<^item> \<open>SyncPaths\<close>: path mapping, ignore rules, control paths, conflict names, error classes.
  \<^item> \<open>SyncChunks\<close>: \<open>sync_chunk.go\<close>.  Chunk manifests; what a delta upload and a delta download build
    equals the whole file.
  \<^item> \<open>FullReconcile\<close>: \<open>buildPlan\<close> of \<open>sync_full_reconciler.go\<close>, offline deletes, tombstone expiry.
  \<^item> \<open>PlanExecution\<close>: the execution of a plan, directory modes (\<open>sync_directory_modes.go\<close>), the state
    that a cold start and a root replacement record.
  \<^item> \<open>EventReconcile\<close>: \<open>sync_event_reconciler.go\<close>.  Every event handler, rename detection, results.
  \<^item> \<open>UploadWorker\<close>, \<open>DownloadWorker\<close>: \<open>sync_uploader.go\<close> and \<open>sync_downloader.go\<close>, with every check,
    error path and early return.
  \<^item> \<open>FileSnapshots\<close>: \<open>snapshot.go\<close> and the write conditions of the client.  The locale
    \<open>revision_history\<close> states the law a reader needs of the store.
  \<^item> \<open>Publication\<close>, \<open>PublicationHistory\<close>: \<open>publication.go\<close>, \<open>native_parent.go\<close> and the field maps of
    \<open>native_helpers.go\<close>.  The keys and values of Redis that the scripts touch, the scripts statement
    by statement, lost replies and receipts; runs of many clients, on which the locale of the reader is
    interpreted.
  \<^item> \<open>ArrayContent\<close>: \<open>rediscontent/content.go\<close>.  File bytes in arrays of chunks; the locale
    \<open>byte_file\<close> states what a file of bytes promises, and is interpreted on arrays here and on strings in
    \<open>RangeWrites\<close>.  So the map from keys to bytes of \<open>Publication\<close> speaks for both representations.
  \<^item> \<open>RangeWrites\<close>, \<open>ChunkPublication\<close>: \<open>native_range.go\<close> and \<open>publishChunks\<close> of \<open>publication.go\<close>.  Staging,
    publication and retries of range writes and truncations; the assembly of chunked uploads.
  \<^item> \<open>Glob\<close>, \<open>ArraySearch\<close>, \<open>CommandGrep\<close>: \<open>glob.go\<close>, the search of one file in \<open>native_walk.go\<close>,
    \<open>afs_grep.go\<close> and \<open>searchindex.go\<close>.  Patterns, the prefilter of the server, the gram index, the command.
  \<^item> \<open>TreeStore\<close>, \<open>TreeOps\<close>: \<open>native_helpers.go\<close> and \<open>native_core.go\<close>.  Path resolution and reading operations; optimistic
    transactions, creation, rename, removal, metadata.
  \<^item> \<open>TreeInvariant\<close>, \<open>TreeSystem\<close>: an abstract tree with its edits, the proof that every operation is one, and
    runs of many clients.
  \<^item> \<open>TextDiff\<close>, \<open>ManifestDiff\<close>, \<open>ChangeLog\<close>: \<open>diff.go\<close>, \<open>changelog.go\<close>, \<open>events.go\<close>.
  \<^item> \<open>WorkspaceRoot\<close>, \<open>WorkspaceRootWrite\<close>, \<open>WorkspaceRootTrip\<close>: \<open>workspace_root.go\<close> and
    \<open>workspace_root_manifest.go\<close>.  Writing a manifest into the live root, what it leaves, and reading it back.
  \<^item> This theory: properties that need several components, and observations.

  \<^bold>\<open>Conventions.\<close>  A struct is a record with the source's fields, an enum a datatype.  A handler is a
  function from the state (and an environment record with the answers of the outside world while it
  runs) to the state; calls that are made more than once have numbered answers, so what is observed
  early may be stale later.  Changes of the two trees are recorded as lists of effects in the order the
  code issues them.  \<open>sha256\<close> is a parameter; a theorem that needs it to be collision free says so.
  Versions, inode numbers and modes are machine words and wrap; sizes and times are integers.  A Go map
  that is ranged over takes the visiting order as an argument.

  \<^bold>\<open>What the lemma groups show.\<close>  Locks: ranges stay normal, exclusion, agreement of query and request.
  Planner: every destructive action has its reason in the baseline, one action per path, convergence.
  Execution and events: freshness of versions, tombstones, conflict copies, order, pending counts,
  renames, echoes.  Workers: every operation is answered, guarded writes, local edits are kept.
  Store: compare and swap, exactly-once publication, snapshots are moments, exact bookkeeping.
  Content: arrays refine byte strings, range operations act once, chunked uploads publish the local file.
  Tree: the hashes stay one tree under every run, resolution ends, a rename moves one name.  Search: the
  matcher means what patterns mean; prefilter and index lose nothing.  Control plane: diffs replay, hunks apply,
  the log is the history, pages are complete, a manifest survives the live root.
  Together: no lost update, paths are released, downloads come to rest.

  \<^bold>\<open>Bounds and fuel.\<close>  \<open>handleLocalEvent\<close> takes fuel for the walk that re-enters it; each level needs a
  path that vanished during the walk, and the statements hold for all fuel.  \<open>ReadFileSnapshot\<close> makes
  eight attempts and \<open>runTries\<close> as many as its list of connections, as the code does.  Freshness of
  versions assumes that the 64-bit counter does not wrap, within a stated budget for each handler.
  Path resolution takes fuel for symbolic links, bounded by the limit of the code; a range write makes 32 attempts
  and a range read 16; the search of a live root takes a level for each depth of a path, which the
  number of entries bounds; the answers of the index are read in at most a given number of pages, enough when
  it exceeds the number of files divided by 512.

  \<^bold>\<open>Not modelled.\<close>  Goroutine scheduling between handlers beyond the interleavings stated; the tree
  scans, \<open>fsnotify\<close> and Redis subscriptions (their results are inputs); JSON encodings; the caches of the
  client, copies and walks over directories; how the server evaluates queries of the index, case folding and
  regular expressions (parameters); of the control plane the workspace catalogue, sessions, HTTP and MCP front
  ends; of the command line everything but \<open>grep\<close>; the FUSE and NFS adapters and the examples.
\<close>

section \<open>Properties that span components\<close>

subsection \<open>From the upload queue to the shared store\<close>


text \<open>An edit of the example file, from \<open>x\<close> to \<open>yz\<close>, staged over its recorded content.\<close>

definition exampleEdit :: upload_op where
  "exampleEdit = zeroUploadOp\<lparr>uo_path := ''a'', uo_content := ''yz'', uo_localHash := ''yz'', uo_hasStored := True,
     uo_stored := zeroEntry\<lparr>se_remoteHash := ''x''\<rparr>\<rparr>"

definition exampleUploadEnv :: upload_env where
  "exampleUploadEnv = \<lparr>ue_lstat = \<lambda>_. OsNotExist, ue_readFile = \<lambda>_. OsNotExist,
     ue_snapshot = \<lambda>_. ReadFileSnapshot exampleSnapshots ''/a'', ue_chunk = \<lambda>_. OsNotExist,
     ue_write = Inr (Some (statOf exampleStore ''2'')), ue_chmod = Inr None, ue_stat = \<lambda>_. Inr None, ue_rm = None,
     ue_ln = None, ue_mkdir = None, ue_rename = None, ue_hash = \<lambda>d. d, ue_maxFileBytes = 100\<rparr>"

definition idleUploader :: uploader where
  "idleUploader = \<lparr>up_effects = [], up_results = []\<rparr>"

lemma exampleEdit_effects:
  "up_effects (processUploadFile exampleUploadEnv exampleEdit idleUploader)
     = [UEcho (normalizePath ''/a'') ''yz'' (WriteContext \<lparr>fs_stat = Some (statOf exampleStore ''2''), fs_content = ''x'',
          fs_parent = None, fs_path = normalizePath ''/a''\<rparr> (WithFileMode 420 emptyContext))]"
  by (simp add: processUploadFile_def processWholeFile_def exampleUploadEnv_def exampleEdit_def zeroUploadOp_def
      queuedFileCurrent_def exampleSnapshots_result matchesBaseline_def finishCommittedUpload_def uploadMode_def
      idleUploader_def doneU_def Let_def zeroEntry_def)


subsection \<open>The upload worker frees every path it was given\<close>

lemma sameUpload_sameHold: "sameUpload a b \<Longrightarrow> sameHold a b"
  using sameUpload_fields [of a b] by (simp add: sameHold_def)

text \<open>The reconciler takes the results of the worker in order, each in its own environment.\<close>

definition takeResults :: "(nat \<Rightarrow> event_env) \<Rightarrow> upload_result list \<Rightarrow> reconciler \<Rightarrow> reconciler" where
  "takeResults envs rs rc = foldl (\<lambda>rc (k, res). handleUploadResult (envs k) res rc) rc (enumerate 0 rs)"

lemma takeResults_stopped: "rc_stopped (takeResults envs rs rc) = rc_stopped rc"
proof -
  have "rc_stopped (foldl (\<lambda>rc (k, res). handleUploadResult (envs k) res rc) rc xs) = rc_stopped rc" for xs rc
    by (induction xs arbitrary: rc) (simp_all add: handleUploadResult_pending split: prod.split)
  then show ?thesis by (simp only: takeResults_def)
qed

lemma upload_sys_results:
  assumes "upload_sys rc (ops @ later)" and "list_all2 (\<lambda>r op. sameUpload (ur_op r) op) rs ops"
  shows "upload_sys (foldl (\<lambda>rc (k, res). handleUploadResult (envs k) res rc) rc (enumerate n rs)) later"
  using assms(2,1)
proof (induction rs ops arbitrary: rc n rule: list_all2_induct)
  case (Cons r rs op ops)
  have "upload_sys (handleUploadResult (envs n) r rc) ([] @ (ops @ later))"
    by (rule upload_sys.uploaded) (use Cons sameUpload_sameHold in auto)
  then show ?case using Cons.IH by simp
qed simp

text \<open>
  C33: A path is never held back for good.  When the reconciler, in any reachable state, has handed
  operations to the upload worker, and the worker has run them (to success, conflict, skip or error,
  or refusing them on a read-only mount) and the reconciler has taken the results, a scan defers a
  path exactly when an upload for it is still queued.
\<close>

theorem uploads_release_paths:
  assumes "upload_sys rc (map snd work)" and "rs = up_results (runUploader readonly work idleUploader)"
    and "rc' = takeResults envs rs rc" and "\<not> rc_stopped rc'"
  shows "fst (deferScanForPendingUpload p rc') = (0 < outstanding p (rc_uploads rc'))"
proof -
  have "\<exists>rs. up_results (runUploader readonly work w) = up_results w @ rs
      \<and> list_all2 (\<lambda>r op. sameUpload (ur_op r) op) rs (map snd work)" for w
    using run_answered [of readonly work w] by (auto simp: list_all2_map2 case_prod_unfold)
  from this [of idleUploader] have "list_all2 (\<lambda>r op. sameUpload (ur_op r) op) rs (map snd work)"
    by (auto simp: assms(2) idleUploader_def)
  then have "upload_sys rc' []"
    unfolding assms(3) takeResults_def using upload_sys_results [of rc "map snd work" "[]" rs envs 0] assms(1) by simp
  from pending_exact_reachable [OF this assms(4)] show ?thesis by simp
qed

text \<open>A watcher event queues a file; the worker takes it and its answer frees the path.\<close>

definition exampleQueued :: reconciler where
  "exampleQueued = handleLocalEvent 0 quietEnv \<lparr>lev_path = ''a'', lev_kindHint = []\<rparr> (startWith Map.empty)"

lemma exampleQueued_ops:
  "\<exists>op. rc_uploads exampleQueued = [op] \<and> uo_tracked op \<and> \<not> rc_stopped exampleQueued"
proof -
  have "syncControlRequestID ''a'' = None" "\<not> isSyncControlPath ''a''" by code_simp+
  then show ?thesis
    by (simp add: exampleQueued_def handleLocalEvent.simps Let_def quietEnv_def exampleInfo_def consumeEcho_def
        dispatchLocal_def handleLocalFile_def readLocalContent_def takeRenameCandidateFor_def takeRenameCandidate_def
        takeFallbackRenameCandidate_def enqueueTrackedUpload_def queueUpload_def)
qed

theorem uploads_release_paths_witness:
  "\<exists>rc op rc'. upload_sys rc [op] \<and> uo_tracked op
     \<and> rc' = takeResults (\<lambda>_. quietEnv) (up_results (runUploader False [(exampleUploadEnv, op)] idleUploader)) rc
     \<and> fst (deferScanForPendingUpload ''a'' rc') = (0 < outstanding ''a'' (rc_uploads rc'))"
proof -
  obtain op where op: "rc_uploads exampleQueued = [op]" "uo_tracked op" "\<not> rc_stopped exampleQueued"
    using exampleQueued_ops by blast
  have "upload_sys exampleQueued []"
    unfolding exampleQueued_def
    by (intro upload_sys.local_change upload_sys.start) (simp_all add: quietEnv_def keepsPending_def)
  from upload_sys.take_op [OF this op(1)]
  have u: "upload_sys (exampleQueued\<lparr>rc_uploads := []\<rparr>) (map snd [(exampleUploadEnv, op)])" by simp
  define rs where "rs = up_results (runUploader False [(exampleUploadEnv, op)] idleUploader)"
  define rc' where "rc' = takeResults (\<lambda>_. quietEnv) rs (exampleQueued\<lparr>rc_uploads := []\<rparr>)"
  have "\<not> rc_stopped rc'" using op(3) by (simp add: rc'_def takeResults_stopped)
  from uploads_release_paths [OF u rs_def rc'_def this]
  have f: "fst (deferScanForPendingUpload ''a'' rc') = (0 < outstanding ''a'' (rc_uploads rc'))" .
  from u have v: "upload_sys (exampleQueued\<lparr>rc_uploads := []\<rparr>) [op]" by simp
  show ?thesis by (intro exI conjI, rule v, rule op(2), rule rc'_def [unfolded rs_def], rule f)
qed

subsection \<open>A downloaded file is settled\<close>



subsection \<open>Observations\<close>

text \<open>
  The reconciler compares the hash of the whole file with the recorded local hash, which for a
  chunked file is the hash of its chunk hashes: an untouched chunked file counts as edited, so a
  remote change makes a conflict copy of it and the delta download is never taken.
\<close>

lemma chunked_baseline_conflicts:
  assumes "le_lstat env p = OsOk info" and "fi_kind info = IRegular" and "le_readFile env p = OsOk data"
    and "se_localHash stored = compositeHash (ee_hash env) (uploadChunkHashes (ee_hash env) data cs)"
    and "se_localHash stored \<noteq> []" and "ee_hash env data \<noteq> se_localHash stored"
  shows "detectConflict env p stored True"
  using assms by (simp add: detectConflict_def)

lemma chunked_baseline_goes_aside:
  assumes "do_kind op = OpDownloadFile" and "do_chunked op" and "do_conflict op"
  shows "processDownload env op w = unlessCancelled env 0 op (processDownloadWhole env 1 (wholeFileOp op)) w"
  using assms by (simp add: processDownload_def processDownloadChunked_def unlessCancelled_def split: option.split)

text \<open>The echo of a chunked download carries the hash of the chunk hashes too, which the file never has.\<close>

lemma chunked_echo_missed:
  assumes "le_readFile env p = OsOk data" and "ee_hash env data \<noteq> compositeHash (ee_hash env) hashes"
  shows "\<not> echoMatches env p info (EchoFile (compositeHash (ee_hash env) hashes))"
  using assms by (simp add: echoMatches_def)

text \<open>A directory that a file download made is recorded as an empty file.\<close>

lemma directory_recorded_as_file:
  assumes "do_kind op = OpDownloadFile" and "\<not> isTombstoned (do_path op) rc"
  shows "\<exists>e. entries (handleDownloadResult env (downloadResultOf op) rc) (do_path op) = Some e
     \<and> se_type e = ''file'' \<and> se_mode e = 0 \<and> se_localHash e = []"
  using assms by (simp add: handleDownloadResult_def downloadResultOf_def recordDownload_def putEntry_def nextVersion_def
      markDirtyR_def markDirty_def Let_def zeroEntry_def)

end
